(* ===== verification/Prelude.thy ===== *)
theory Prelude
  imports Complex_Main "HOL-Library.Product_Lexorder" "HOL-Library.List_Lexorder" "HOL-Library.Char_ord"
begin

text \<open>
  The JavaScript value model every component shares. A value read from a task file, a hub record, a
  heartbeat or a configuration file is arbitrary JSON, so it is a \<open>jv\<close>: the code's own type tests
  (\<open>typeof x === 'string'\<close>, \<open>Array.isArray(x)\<close>, \<open>x && x.f\<close>) are functions on it and every branch they
  take is a branch of the model. A number is a \<open>jnum\<close>: a real number, an infinity or NaN. Arithmetic is
  exact, so the rounding of IEEE doubles is not modelled; the values involved are millisecond clocks,
  priorities, counters and small rates. A string is a list of characters compared by code, as the
  ASCII strings of the program are.
\<close>

named_theorems js_eval "unfolding of the JavaScript value operations"

section \<open>Numbers\<close>

datatype jnum = NaN | NInf | Fin real | PInf

fun jsub :: "jnum \<Rightarrow> jnum \<Rightarrow> jnum" where
  "jsub (Fin a) (Fin b) = Fin (a - b)"
| "jsub NaN _ = NaN"
| "jsub _ NaN = NaN"
| "jsub PInf PInf = NaN"
| "jsub PInf _ = PInf"
| "jsub NInf NInf = NaN"
| "jsub NInf _ = NInf"
| "jsub (Fin _) PInf = NInf"
| "jsub (Fin _) NInf = PInf"

fun jadd :: "jnum \<Rightarrow> jnum \<Rightarrow> jnum" where
  "jadd (Fin a) (Fin b) = Fin (a + b)"
| "jadd NaN _ = NaN"
| "jadd _ NaN = NaN"
| "jadd PInf NInf = NaN"
| "jadd PInf _ = PInf"
| "jadd NInf PInf = NaN"
| "jadd NInf _ = NInf"
| "jadd (Fin _) PInf = PInf"
| "jadd (Fin _) NInf = NInf"

text \<open>The relational operators of the language: every comparison with NaN is false.\<close>

fun jlt :: "jnum \<Rightarrow> jnum \<Rightarrow> bool" where
  "jlt (Fin a) (Fin b) = (a < b)"
| "jlt NaN _ = False"
| "jlt _ NaN = False"
| "jlt PInf _ = False"
| "jlt _ PInf = True"
| "jlt _ NInf = False"
| "jlt NInf _ = True"

definition jle :: "jnum \<Rightarrow> jnum \<Rightarrow> bool" where
  "jle a b \<longleftrightarrow> jlt a b \<or> (a = b \<and> a \<noteq> NaN)"

fun is_finite :: "jnum \<Rightarrow> bool" where
  "is_finite (Fin _) = True"
| "is_finite _ = False"

fun num_truthy :: "jnum \<Rightarrow> bool" where
  "num_truthy (Fin a) = (a \<noteq> 0)"
| "num_truthy NaN = False"
| "num_truthy _ = True"

text \<open>\<open>x || y\<close> on numbers, as comparators chain their keys.\<close>

definition num_or :: "jnum \<Rightarrow> jnum \<Rightarrow> jnum" where
  "num_or x y = (if num_truthy x then x else y)"

text \<open>\<open>Math.trunc\<close> of a finite number; the infinities and NaN are their own truncation.\<close>

fun jtrunc :: "jnum \<Rightarrow> jnum" where
  "jtrunc (Fin a) = Fin (of_int (if a < 0 then \<lceil>a\<rceil> else \<lfloor>a\<rfloor>))"
| "jtrunc x = x"

text \<open>
  The library order: the order of the language on the numbers that are ordered, with NaN below them
  all so that it is total. Comparators are compared with it through keys that are never NaN.
\<close>

instantiation jnum :: linorder
begin

fun less_eq_jnum :: "jnum \<Rightarrow> jnum \<Rightarrow> bool" where
  "less_eq_jnum NaN _ = True"
| "less_eq_jnum _ NaN = False"
| "less_eq_jnum NInf _ = True"
| "less_eq_jnum _ NInf = False"
| "less_eq_jnum (Fin a) (Fin b) = (a \<le> b)"
| "less_eq_jnum (Fin _) PInf = True"
| "less_eq_jnum PInf (Fin _) = False"
| "less_eq_jnum PInf PInf = True"

definition less_jnum :: "jnum \<Rightarrow> jnum \<Rightarrow> bool" where
  "less_jnum a b = (a \<le> b \<and> \<not> b \<le> a)"

instance
proof
  fix a b c :: jnum
  show "(a < b) = (a \<le> b \<and> \<not> b \<le> a)" by (simp add: less_jnum_def)
  show "a \<le> a" by (cases a) auto
  show "a \<le> b \<Longrightarrow> b \<le> c \<Longrightarrow> a \<le> c" by (cases a; cases b; cases c) auto
  show "a \<le> b \<Longrightarrow> b \<le> a \<Longrightarrow> a = b" by (cases a; cases b) auto
  show "a \<le> b \<or> b \<le> a" by (cases a; cases b) auto
qed

end

lemma jnum_less_simps [simp]:
  "(Fin a < Fin b) = (a < b)" "NInf < Fin a" "Fin a < PInf" "NInf < PInf"
  "\<not> Fin a < NInf" "\<not> PInf < Fin a" "\<not> PInf < NInf"
  by (auto simp: less_jnum_def)

lemma jlt_eq_less: "a \<noteq> NaN \<Longrightarrow> b \<noteq> NaN \<Longrightarrow> jlt a b = (a < b)"
  by (cases a; cases b) (auto simp: less_jnum_def)

lemma jle_eq_le: "a \<noteq> NaN \<Longrightarrow> b \<noteq> NaN \<Longrightarrow> jle a b = (a \<le> b)"
  by (cases a; cases b) (auto simp: jle_def less_jnum_def)

lemma is_finite_not_NaN: "is_finite a \<Longrightarrow> a \<noteq> NaN"
  by (cases a) auto

section \<open>Values\<close>

datatype jv =
    JUndef
  | JNull
  | JBool bool
  | JNum jnum
  | JStr string
  | JArr "jv list"
  | JObj "(string \<times> jv) list"

fun truthy :: "jv \<Rightarrow> bool" where
  "truthy (JBool b) = b"
| "truthy (JNum n) = num_truthy n"
| "truthy (JStr s) = (s \<noteq> [])"
| "truthy (JArr _) = True"
| "truthy (JObj _) = True"
| "truthy _ = False"

text \<open>
  A property read \<open>o.k\<close>. The last entry of a key wins, as it does in \<open>JSON.parse\<close>. A read of a
  property of \<open>null\<close> or \<open>undefined\<close> throws in the language; the code reads properties only after a
  truthiness or \<open>typeof\<close> test, or inside a \<open>try\<close> whose model treats the throwing case itself, so
  \<open>jget\<close> need not distinguish it and answers \<open>undefined\<close>. Properties inherited from
  \<open>Object.prototype\<close> are not modelled.
\<close>

fun jget :: "jv \<Rightarrow> string \<Rightarrow> jv" where
  "jget (JObj kvs) k = (case map_of (rev kvs) k of Some v \<Rightarrow> v | None \<Rightarrow> JUndef)"
| "jget _ k = JUndef"

text \<open>\<open>o.k = v\<close> on an object: a present key keeps its place, a new key is appended.\<close>

fun kv_put :: "(string \<times> 'v) list \<Rightarrow> string \<Rightarrow> 'v \<Rightarrow> (string \<times> 'v) list" where
  "kv_put [] k v = [(k, v)]"
| "kv_put ((k', v') # kvs) k v = (if k' = k then (k, v) # kvs else (k', v') # kv_put kvs k v)"

fun is_array :: "jv \<Rightarrow> bool" where
  "is_array (JArr _) = True"
| "is_array _ = False"

fun elems :: "jv \<Rightarrow> jv list" where
  "elems (JArr xs) = xs"
| "elems _ = []"

fun is_string :: "jv \<Rightarrow> bool" where
  "is_string (JStr _) = True"
| "is_string _ = False"

fun str_of :: "jv \<Rightarrow> string" where
  "str_of (JStr s) = s"
| "str_of _ = []"

fun is_number :: "jv \<Rightarrow> bool" where
  "is_number (JNum _) = True"
| "is_number _ = False"

text \<open>\<open>v !== null && typeof v === 'object' && !Array.isArray(v)\<close>, the test several modules name
  \<open>isObject\<close>.\<close>

fun is_object :: "jv \<Rightarrow> bool" where
  "is_object (JObj _) = True"
| "is_object _ = False"

text \<open>\<open>Number.isFinite(v)\<close>: no coercion, so false on anything that is not a number.\<close>

fun fin_number :: "jv \<Rightarrow> bool" where
  "fin_number (JNum n) = is_finite n"
| "fin_number _ = False"

text \<open>\<open>a === b\<close> where the two sides come from different documents: primitives by value, NaN never,
  arrays and objects by identity, so never.\<close>

fun strict_eq :: "jv \<Rightarrow> jv \<Rightarrow> bool" where
  "strict_eq (JArr _) _ = False"
| "strict_eq (JObj _) _ = False"
| "strict_eq (JNum NaN) _ = False"
| "strict_eq a b = (a = b)"

definition nullish :: "jv \<Rightarrow> bool" where
  "nullish v \<longleftrightarrow> v = JNull \<or> v = JUndef"

lemma truthy_not_nullish: "truthy v \<Longrightarrow> \<not> nullish v"
  by (cases v) (auto simp: nullish_def)

section \<open>Strings\<close>

definition is_space :: "char \<Rightarrow> bool" where
  "is_space c \<longleftrightarrow> of_char c \<in> ({32, 9, 10, 11, 12, 13} :: nat set)"

definition trim :: "string \<Rightarrow> string" where
  "trim s = rev (dropWhile is_space (rev (dropWhile is_space s)))"

lemma dropWhile_idle: "xs = [] \<or> \<not> P (hd xs) \<Longrightarrow> dropWhile P xs = xs"
  by (cases xs) auto

lemma hd_trim: "trim s \<noteq> [] \<Longrightarrow> \<not> is_space (hd (trim s)) \<and> \<not> is_space (last (trim s))"
proof -
  assume ne: "trim s \<noteq> []"
  let ?d = "dropWhile is_space s"
  obtain ys where ys: "rev ?d = ys @ dropWhile is_space (rev ?d)" using takeWhile_dropWhile_id by metis
  then have d: "?d = trim s @ rev ys" unfolding trim_def by (metis rev_append rev_rev_ident)
  have "?d \<noteq> []" using ne d by auto
  then have "\<not> is_space (hd ?d)" by (rule hd_dropWhile)
  then have "\<not> is_space (hd (trim s))" using d ne by simp
  moreover have "dropWhile is_space (rev ?d) \<noteq> []" using ne by (simp add: trim_def)
  then have "\<not> is_space (hd (dropWhile is_space (rev ?d)))" by (rule hd_dropWhile)
  then have "\<not> is_space (last (trim s))" using ne by (simp add: trim_def last_rev)
  ultimately show ?thesis by simp
qed

lemma trim_trim [simp]: "trim (trim s) = trim s"
proof (cases "trim s = []")
  case True
  show ?thesis unfolding True by (simp add: trim_def)
next
  case False
  with hd_trim [OF this] have "dropWhile is_space (trim s) = trim s" "dropWhile is_space (rev (trim s)) = rev (trim s)"
    by (auto intro!: dropWhile_idle simp: hd_rev)
  then show ?thesis by (simp add: trim_def [of "trim s"])
qed

definition lower_char :: "char \<Rightarrow> char" where
  "lower_char c = (let n = (of_char c :: nat) in if 65 \<le> n \<and> n \<le> 90 then char_of (n + 32) else c)"

definition to_lower :: "string \<Rightarrow> string" where
  "to_lower s = map lower_char s"

definition is_digit :: "char \<Rightarrow> bool" where
  "is_digit c \<longleftrightarrow> 48 \<le> (of_char c :: nat) \<and> (of_char c :: nat) \<le> 57"

definition starts_with :: "string \<Rightarrow> string \<Rightarrow> bool" where
  "starts_with p s \<longleftrightarrow> take (length p) s = p"

definition ends_with :: "string \<Rightarrow> string \<Rightarrow> bool" where
  "ends_with p s \<longleftrightarrow> length p \<le> length s \<and> drop (length s - length p) s = p"

text \<open>\<open>name.replace(/\.json$/, '')\<close>.\<close>

definition strip_json :: "string \<Rightarrow> string" where
  "strip_json s = (if ends_with ''.json'' s then take (length s - 5) s else s)"

subsection \<open>\<open>Number(v)\<close>\<close>

fun digits_val :: "nat \<Rightarrow> string \<Rightarrow> nat" where
  "digits_val acc [] = acc"
| "digits_val acc (c # cs) = digits_val (10 * acc + (of_char c - 48)) cs"

text \<open>The decimal literal of \<open>Number(s)\<close> without its sign: digits, an optional fraction, an optional
  exponent; at least one digit before the exponent.\<close>

definition unsigned_exponent :: "string \<Rightarrow> int option" where
  "unsigned_exponent s =
     (let (sg, ds) = (case s of c # r \<Rightarrow> if c = CHR ''-'' then (-1, r) else if c = CHR ''+'' then (1, r) else (1, s) | [] \<Rightarrow> (1, s))
      in if ds \<noteq> [] \<and> list_all is_digit ds then Some (sg * int (digits_val 0 ds)) else None)"

definition pow10 :: "int \<Rightarrow> real" where
  "pow10 e = (if e < 0 then 1 / 10 ^ nat (- e) else 10 ^ nat e)"

definition unsigned_decimal :: "string \<Rightarrow> jnum" where
  "unsigned_decimal s =
     (let ip = takeWhile is_digit s; r1 = dropWhile is_digit s;
          (fp, r2) = (case r1 of c # r \<Rightarrow> if c = CHR ''.'' then (takeWhile is_digit r, dropWhile is_digit r) else ([], r1) | [] \<Rightarrow> ([], []));
          m = of_nat (digits_val 0 (ip @ fp)) / 10 ^ length fp
      in if ip = [] \<and> fp = [] then NaN
         else case r2 of
             [] \<Rightarrow> Fin m
           | c # r \<Rightarrow> if c = CHR ''e'' \<or> c = CHR ''E''
                     then (case unsigned_exponent r of Some e \<Rightarrow> Fin (m * pow10 e) | None \<Rightarrow> NaN)
                     else NaN)"

fun jneg :: "jnum \<Rightarrow> jnum" where
  "jneg (Fin a) = Fin (- a)"
| "jneg PInf = NInf"
| "jneg NInf = PInf"
| "jneg NaN = NaN"

definition unsigned_literal :: "string \<Rightarrow> jnum" where
  "unsigned_literal s = (if s = ''Infinity'' then PInf else unsigned_decimal s)"

definition radix_digit :: "nat \<Rightarrow> char \<Rightarrow> nat option" where
  "radix_digit b c =
     (let n = of_char c :: nat;
          d = (if 48 \<le> n \<and> n \<le> 57 then n - 48 else if 97 \<le> n \<and> n \<le> 102 then n - 87 else if 65 \<le> n \<and> n \<le> 70 then n - 55 else b)
      in if d < b then Some d else None)"

fun radix_val :: "nat \<Rightarrow> nat \<Rightarrow> string \<Rightarrow> jnum" where
  "radix_val b acc [] = Fin (of_nat acc)"
| "radix_val b acc (c # cs) = (case radix_digit b c of None \<Rightarrow> NaN | Some d \<Rightarrow> radix_val b (b * acc + d) cs)"

definition str_to_number :: "string \<Rightarrow> jnum" where
  "str_to_number s0 =
     (let s = trim s0
      in case s of
           [] \<Rightarrow> Fin 0
         | c # r \<Rightarrow>
             if c = CHR ''-'' then jneg (unsigned_literal r)
             else if c = CHR ''+'' then unsigned_literal r
             else if c = CHR ''0'' \<and> r \<noteq> [] \<and> hd r \<in> set ''xXoObB'' then
               (if tl r = [] then NaN
                else radix_val (if hd r \<in> set ''xX'' then 16 else if hd r \<in> set ''oO'' then 8 else 2) 0 (tl r))
             else unsigned_literal s)"

text \<open>
  \<open>Number(v)\<close>. An array is coerced through its string: the empty array is the empty string, one
  element is that element's string, more have a comma in it. An object's string is never a literal.
\<close>

fun to_number :: "jv \<Rightarrow> jnum" and arr_elem_number :: "jv \<Rightarrow> jnum" where
  "to_number JUndef = NaN"
| "to_number JNull = Fin 0"
| "to_number (JBool b) = Fin (if b then 1 else 0)"
| "to_number (JNum n) = n"
| "to_number (JStr s) = str_to_number s"
| "to_number (JArr []) = Fin 0"
| "to_number (JArr [v]) = arr_elem_number v"
| "to_number (JArr (_ # _ # _)) = NaN"
| "to_number (JObj _) = NaN"
| "arr_elem_number JUndef = Fin 0"
| "arr_elem_number JNull = Fin 0"
| "arr_elem_number (JBool _) = NaN"
| "arr_elem_number (JNum n) = n"
| "arr_elem_number (JStr s) = str_to_number s"
| "arr_elem_number (JArr []) = Fin 0"
| "arr_elem_number (JArr [v]) = arr_elem_number v"
| "arr_elem_number (JArr (_ # _ # _)) = NaN"
| "arr_elem_number (JObj _) = NaN"

section \<open>Exceptions\<close>

text \<open>The outcome of a call that may throw: the code's own \<open>catch\<close> clauses are case distinctions on it.\<close>

datatype 'a outcome = Returns 'a | Throws

fun catch :: "'a outcome \<Rightarrow> 'a \<Rightarrow> 'a" where
  "catch (Returns a) d = a"
| "catch Throws d = d"

fun and_then :: "'a outcome \<Rightarrow> ('a \<Rightarrow> 'b outcome) \<Rightarrow> 'b outcome" where
  "and_then (Returns a) f = f a"
| "and_then Throws f = Throws"

section \<open>The process environment\<close>

text \<open>\<open>process.env\<close>: a variable is unset or a string.\<close>

type_synonym env = "string \<Rightarrow> string option"

definition env_str :: "env \<Rightarrow> string \<Rightarrow> string" where
  "env_str e k = (case e k of Some s \<Rightarrow> s | None \<Rightarrow> [])"

text \<open>\<open>Number(env.X)\<close>: an unset variable is \<open>undefined\<close>, so NaN.\<close>

definition env_number :: "env \<Rightarrow> string \<Rightarrow> jnum" where
  "env_number e k = (case e k of Some s \<Rightarrow> str_to_number s | None \<Rightarrow> NaN)"

section \<open>Generic list lemmas\<close>

lemma find_Some_in: "find P xs = Some x \<Longrightarrow> x \<in> set xs \<and> P x"
  by (induction xs) (auto split: if_splits)

lemma find_Some_first:
  "find P xs = Some x \<Longrightarrow> \<exists>ys zs. xs = ys @ x # zs \<and> P x \<and> (\<forall>y\<in>set ys. \<not> P y)"
proof (induction xs)
  case Nil
  then show ?case by simp
next
  case (Cons a xs)
  show ?case
  proof (cases "P a")
    case True
    with Cons.prems have "a # xs = [] @ x # xs \<and> P x \<and> (\<forall>y\<in>set []. \<not> P y)" by simp
    then show ?thesis by blast
  next
    case False
    with Cons.prems Cons.IH obtain ys zs where "xs = ys @ x # zs" "P x" "\<forall>y\<in>set ys. \<not> P y"
      by auto
    with False show ?thesis by (intro exI[of _ "a # ys"] exI[of _ zs]) simp
  qed
qed

lemma find_None_all: "find P xs = None \<longleftrightarrow> (\<forall>x\<in>set xs. \<not> P x)"
  by (auto simp: find_None_iff)

lemma kv_put_map_of: "map_of (kv_put kvs k v) = (map_of kvs)(k \<mapsto> v)"
  by (induction kvs) (auto simp: fun_eq_iff)

lemma kv_put_keys: "fst ` set (kv_put kvs k v) = insert k (fst ` set kvs)"
proof (induction kvs)
  case Nil
  then show ?case by simp
next
  case (Cons p kvs)
  then show ?case by (cases p) (auto simp: insert_commute)
qed

lemma kv_put_distinct: "distinct (map fst kvs) \<Longrightarrow> distinct (map fst (kv_put kvs k v))"
  by (induction kvs) (auto simp: kv_put_keys)

end
