(* ===== verification/JsText.thy ===== *)
theory JsText
  imports Prelude
begin

text \<open>
  Text helpers of the language: \<open>String(v)\<close>, \<open>padStart\<close>, splitting and joining, set-like lists. A
  whole number prints in decimal; a fraction prints its decimal expansion when that has at most
  twenty places, which the numbers of configuration files have. Exponent notation is not modelled.
\<close>

definition digit_char :: "nat \<Rightarrow> char" where
  "digit_char d = char_of (48 + d)"

fun nat_str :: "nat \<Rightarrow> string" where
  "nat_str n = (if n < 10 then [digit_char n] else nat_str (n div 10) @ [digit_char (n mod 10)])"

declare nat_str.simps [simp del]

definition pad_start :: "nat \<Rightarrow> char \<Rightarrow> string \<Rightarrow> string" where
  "pad_start n c s = replicate (n - length s) c @ s"

definition int_str :: "int \<Rightarrow> string" where
  "int_str i = (if i < 0 then CHR ''-'' # nat_str (nat (- i)) else nat_str (nat i))"

definition decimal_places :: "real \<Rightarrow> nat" where
  "decimal_places q =
     (case find (\<lambda>k. q * 10 ^ k = of_int \<lfloor>q * 10 ^ k\<rfloor>) [0..<21] of Some k \<Rightarrow> k | None \<Rightarrow> 0)"

definition num_str :: "jnum \<Rightarrow> string" where
  "num_str n =
     (case n of
        NaN \<Rightarrow> ''NaN'' | PInf \<Rightarrow> ''Infinity'' | NInf \<Rightarrow> ''-Infinity''
      | Fin q \<Rightarrow>
          (let k = decimal_places q; m = \<lfloor>q * 10 ^ k\<rfloor>; a = nat \<bar>m\<bar>
           in (if m < 0 then ''-'' else []) @ nat_str (a div 10 ^ k)
              @ (if k = 0 then [] else CHR ''.'' # pad_start k (CHR ''0'') (nat_str (a mod 10 ^ k)))))"

fun join :: "string \<Rightarrow> string list \<Rightarrow> string" where
  "join sep [] = []"
| "join sep [s] = s"
| "join sep (s # t # ss) = s @ sep @ join sep (t # ss)"

fun to_str :: "jv \<Rightarrow> string" and elem_str :: "jv \<Rightarrow> string" and elem_strs :: "jv list \<Rightarrow> string list" where
  "to_str JUndef = ''undefined''"
| "to_str JNull = ''null''"
| "to_str (JBool b) = (if b then ''true'' else ''false'')"
| "to_str (JNum n) = num_str n"
| "to_str (JStr s) = s"
| "to_str (JArr xs) = join '','' (elem_strs xs)"
| "to_str (JObj _) = ''[object Object]''"
| "elem_str v = (if nullish v then [] else to_str v)"
| "elem_strs [] = []"
| "elem_strs (v # vs) = elem_str v # elem_strs vs"

text \<open>\<open>[...new Set(xs)]\<close>: the first occurrence of each value, in order.\<close>

definition uniq :: "'a list \<Rightarrow> 'a list" where
  "uniq xs = rev (remdups (rev xs))"

lemma set_uniq [simp]: "set (uniq xs) = set xs"
  by (simp add: uniq_def)

lemma distinct_uniq [simp]: "distinct (uniq xs)"
  by (simp add: uniq_def)

lemma uniq_Nil_iff [simp]: "uniq xs = [] \<longleftrightarrow> xs = []"
  by (simp add: uniq_def)

text \<open>Splitting on runs of white space, without empty tokens.\<close>

function words :: "string \<Rightarrow> string list" where
  "words s =
     (let s' = dropWhile is_space s
      in if s' = [] then [] else takeWhile (\<lambda>c. \<not> is_space c) s' # words (dropWhile (\<lambda>c. \<not> is_space c) s'))"
  by pat_completeness auto
termination
proof (relation "measure length", goal_cases)
  case 1
  then show ?case by simp
next
  case (2 s s')
  from 2(2) obtain c r where "s' = c # r" by (meson list.exhaust)
  moreover from this 2(1) have "\<not> is_space c"
    by (metis hd_dropWhile list.sel(1) list.simps(3))
  ultimately have "length (dropWhile (\<lambda>c. \<not> is_space c) s') \<le> length r"
    by (simp add: length_dropWhile_le)
  also have "\<dots> < length s"
    using \<open>s' = c # r\<close> 2(1) length_dropWhile_le [of is_space s] by (metis Suc_le_eq length_Cons)
  finally show ?case by simp
qed

declare words.simps [simp del]

section \<open>Decimal strings compare as numbers\<close>

lemma nat_str_not_Nil [simp]: "nat_str n \<noteq> []"
  by (subst nat_str.simps) simp

lemma digit_char_code: "d < 10 \<Longrightarrow> of_char (digit_char d) = (48 + d :: nat)"
  by (simp add: digit_char_def of_char_of)

lemma digit_char_is_digit: "d < 10 \<Longrightarrow> is_digit (digit_char d)"
  by (simp add: is_digit_def digit_char_code)

lemma nat_str_digits: "list_all is_digit (nat_str n)"
proof (induction n rule: nat_str.induct)
  case (1 n)
  then show ?case
    by (subst nat_str.simps) (simp add: digit_char_is_digit)
qed

lemma digits_val_append: "digits_val a (xs @ [c]) = 10 * digits_val a xs + (of_char c - 48)"
  by (induction xs arbitrary: a) auto

lemma digits_val_nat_str: "digits_val 0 (nat_str n) = n"
proof (induction n rule: nat_str.induct)
  case (1 n)
  show ?case
  proof (cases "n < 10")
    case True
    then show ?thesis by (subst nat_str.simps) (simp add: digit_char_code)
  next
    case False
    with 1 have "digits_val 0 (nat_str (n div 10)) = n div 10" by simp
    with False show ?thesis
      by (subst nat_str.simps) (simp add: digits_val_append digit_char_code)
  qed
qed

lemma digits_val_zeros: "digits_val a (replicate k (CHR ''0'') @ s) = digits_val (a * 10 ^ k) s"
  by (induction k arbitrary: a) (auto simp: algebra_simps)

lemma digits_val_pad: "digits_val 0 (pad_start k (CHR ''0'') s) = digits_val 0 s"
  by (simp add: pad_start_def digits_val_zeros)

lemma nat_str_length: "n < 10 ^ k \<Longrightarrow> 0 < k \<Longrightarrow> length (nat_str n) \<le> k"
proof (induction n arbitrary: k rule: nat_str.induct)
  case (1 n)
  show ?case
  proof (cases "n < 10")
    case True
    with 1 show ?thesis by (subst nat_str.simps) simp
  next
    case False
    with 1(2) have "k \<noteq> 1" by auto
    with 1(3) obtain j where j: "k = Suc j" "0 < j" by (cases k) auto
    with 1(2) have "n div 10 < 10 ^ j" by (simp add: div_less_iff_less_mult mult.commute)
    with False j 1(1) have "length (nat_str (n div 10)) \<le> j" by blast
    with False j show ?thesis by (subst nat_str.simps) simp
  qed
qed

text \<open>Equal-length digit strings compare as their values, which is what a zero-padded clock reading in
  a file name relies on.\<close>

lemma digits_val_mono_acc:
  "a < b \<Longrightarrow> length xs = length ys \<Longrightarrow> list_all is_digit xs \<Longrightarrow> list_all is_digit ys \<Longrightarrow>
     digits_val a xs < digits_val b ys"
proof (induction xs arbitrary: a b ys)
  case Nil
  then show ?case by simp
next
  case (Cons x xs)
  then obtain y ys' where ys: "ys = y # ys'" by (cases ys) auto
  have "(of_char x :: nat) \<le> 57"
    using Cons.prems(3) by (simp add: is_digit_def)
  then have "(of_char x :: nat) - 48 < 10" by linarith
  with Cons.prems(1) have "10 * a + (of_char x - 48) < 10 * b + (of_char y - 48)" by linarith
  with Cons ys show ?case by simp
qed

lemma digit_strings_less:
  "length xs = length ys \<Longrightarrow> list_all is_digit xs \<Longrightarrow> list_all is_digit ys \<Longrightarrow>
     digits_val a xs < digits_val a ys \<Longrightarrow> xs @ us < ys @ vs"
proof (induction xs arbitrary: a ys)
  case Nil
  then show ?case by simp
next
  case (Cons x xs)
  then obtain y ys' where ys: "ys = y # ys'" by (cases ys) auto
  show ?case
  proof (cases "x = y")
    case True
    with Cons ys show ?thesis by simp
  next
    case False
    have "\<not> (of_char y < (of_char x :: nat))"
    proof
      assume "of_char y < (of_char x :: nat)"
      moreover have "48 \<le> (of_char y :: nat)"
        using Cons.prems(3) ys by (simp add: is_digit_def)
      ultimately have "10 * a + (of_char y - 48) < 10 * a + ((of_char x :: nat) - 48)"
        by linarith
      then have "digits_val a ys < digits_val a (x # xs)"
        using digits_val_mono_acc [of _ _ ys' xs] Cons.prems ys by simp
      with Cons.prems show False by simp
    qed
    with False have "x < y" by (simp add: less_char_def) (metis of_char_eq_iff linorder_neqE_nat)
    with ys show ?thesis by simp
  qed
qed

lemma pad_nat_str_length: "n < 10 ^ k \<Longrightarrow> 0 < k \<Longrightarrow> length (pad_start k (CHR ''0'') (nat_str n)) = k"
  using nat_str_length [of n k] by (simp add: pad_start_def)

lemma pad_nat_str_digits: "list_all is_digit (pad_start k (CHR ''0'') (nat_str n))"
  using nat_str_digits [of n] by (auto simp: pad_start_def list_all_iff is_digit_def)

lemma padded_less:
  assumes "m < n" and "n < 10 ^ k" and "0 < k"
  shows "pad_start k (CHR ''0'') (nat_str m) @ us < pad_start k (CHR ''0'') (nat_str n) @ vs"
  using assms digit_strings_less [where a = 0]
  by (simp add: pad_nat_str_length pad_nat_str_digits digits_val_pad digits_val_nat_str)

text \<open>\<open>s.includes(w)\<close>\<close>

fun contains :: "string \<Rightarrow> string \<Rightarrow> bool" where
  "contains needle [] = (needle = [])"
| "contains needle (c # cs) = (starts_with needle (c # cs) \<or> contains needle cs)"

end
