(* ===== verification/JsSort.thy ===== *)
theory JsSort
  imports Prelude "HOL-Library.Multiset"
begin

text \<open>
  \<open>Array.prototype.sort\<close> with a comparator, and the contract a comparator must meet for its result to be
  determined. A comparator answers a number: at most zero (or NaN, which the language reads as zero)
  keeps the first argument in front. The language guarantees a stable sort; the order is only
  specified when the comparator is consistent. The locale \<open>comparator\<close> is that consistency, stated
  through a key in a linear order. Inside it the sort is the library's \<open>sort_key\<close>, so the library's
  lemmas on sortedness, permutation and stability apply to every sort of the program.
\<close>

definition keeps_front :: "jnum \<Rightarrow> bool" where
  "keeps_front c \<longleftrightarrow> c = NaN \<or> c = NInf \<or> (\<exists>q \<le> 0. c = Fin q)"

lemma keeps_front_simps [simp]:
  "keeps_front NaN" "keeps_front NInf" "\<not> keeps_front PInf" "keeps_front (Fin q) = (q \<le> 0)"
  by (auto simp: keeps_front_def)

lemma keeps_front_code [code]:
  "keeps_front c = (case c of NaN \<Rightarrow> True | NInf \<Rightarrow> True | PInf \<Rightarrow> False | Fin q \<Rightarrow> q \<le> 0)"
  by (cases c) auto

fun sort_insert :: "('a \<Rightarrow> 'a \<Rightarrow> jnum) \<Rightarrow> 'a \<Rightarrow> 'a list \<Rightarrow> 'a list" where
  "sort_insert cmp x [] = [x]"
| "sort_insert cmp x (y # ys) = (if keeps_front (cmp x y) then x # y # ys else y # sort_insert cmp x ys)"

text \<open>The stable sort: an element goes in front of the equal elements that follow it in the input.\<close>

definition js_sort :: "('a \<Rightarrow> 'a \<Rightarrow> jnum) \<Rightarrow> 'a list \<Rightarrow> 'a list" where
  "js_sort cmp xs = foldr (sort_insert cmp) xs []"

lemma js_sort_simps [simp]:
  "js_sort cmp [] = []"
  "js_sort cmp (x # xs) = sort_insert cmp x (js_sort cmp xs)"
  by (simp_all add: js_sort_def)

lemma mset_sort_insert: "mset (sort_insert cmp x xs) = add_mset x (mset xs)"
  by (induction xs) auto

lemma mset_js_sort [simp]: "mset (js_sort cmp xs) = mset xs"
  by (induction xs) (auto simp: mset_sort_insert)

lemma set_js_sort [simp]: "set (js_sort cmp xs) = set xs"
  by (metis mset_js_sort set_mset_mset)

lemma length_js_sort [simp]: "length (js_sort cmp xs) = length xs"
  by (metis mset_js_sort size_mset)

lemma distinct_map_js_sort [simp]: "distinct (map f (js_sort cmp xs)) = distinct (map f xs)"
  by (metis mset_js_sort mset_eq_imp_distinct_iff mset_map)

lemma distinct_js_sort [simp]: "distinct (js_sort cmp xs) = distinct xs"
  using distinct_map_js_sort [where f = "\<lambda>x. x"] by simp

section \<open>Comparators\<close>

locale comparator =
  fixes cmp :: "'a \<Rightarrow> 'a \<Rightarrow> jnum"
    and ok :: "'a \<Rightarrow> bool"
    and key :: "'a \<Rightarrow> 'k :: linorder"
  assumes cmp_key: "ok a \<Longrightarrow> ok b \<Longrightarrow> keeps_front (cmp a b) \<longleftrightarrow> key a \<le> key b"
begin

lemma sort_insert_key:
  "ok x \<Longrightarrow> \<forall>y\<in>set ys. ok y \<Longrightarrow> sort_insert cmp x ys = insort_key key x ys"
  by (induction ys) (auto simp: cmp_key)

lemma js_sort_key: "\<forall>x\<in>set xs. ok x \<Longrightarrow> js_sort cmp xs = sort_key key xs"
proof (induction xs)
  case Nil
  then show ?case by simp
next
  case (Cons x xs)
  then have "js_sort cmp xs = sort_key key xs" by simp
  with Cons.prems show ?case by (simp add: sort_insert_key del: insort_key.simps)
qed

lemma sorted_js_sort: "\<forall>x\<in>set xs. ok x \<Longrightarrow> sorted (map key (js_sort cmp xs))"
  by (simp add: js_sort_key)

lemma stable_js_sort:
  assumes "\<forall>x\<in>set xs. ok x"
  shows "filter (\<lambda>x. key x = k) (js_sort cmp xs) = filter (\<lambda>x. key x = k) xs"
  using sort_key_stable [of key k xs] assms by (simp add: js_sort_key)

lemma head_least:
  assumes "\<forall>x\<in>set xs. ok x" and "js_sort cmp xs = y # ys" and "x \<in> set xs"
  shows "key y \<le> key x"
proof -
  have "sorted (map key (y # ys))"
    using sorted_js_sort [OF assms(1)] assms(2) by simp
  moreover have "x \<in> set (y # ys)"
    using assms(2,3) by (metis set_js_sort)
  ultimately show ?thesis by auto
qed

text \<open>The language fixes the result completely: any stable ordered rearrangement is this one.\<close>

lemma stable_sort_unique:
  assumes "\<forall>x\<in>set xs. ok x" and "mset ys = mset xs" and "sorted (map key ys)"
    and "\<And>k. filter (\<lambda>x. key x = k) ys = filter (\<lambda>x. key x = k) xs"
  shows "ys = js_sort cmp xs"
proof -
  have "filter (\<lambda>x. key k = key x) ys = filter (\<lambda>x. key k = key x) xs" for k
    using assms(4) [of "key k"] by (simp add: eq_commute)
  with assms(2,3) have "sort_key key xs = ys"
    by (intro properties_for_sort_key) auto
  then show ?thesis using assms(1) by (simp add: js_sort_key)
qed

lemma before_lt:
  assumes "\<forall>x\<in>set xs. ok x" and "js_sort cmp xs = us @ x # vs" and "y \<in> set vs"
  shows "key x \<le> key y"
  using sorted_js_sort [OF assms(1)] assms(2,3) by (auto simp: sorted_append)

end

section \<open>Combining keys\<close>

text \<open>Chained keys, \<open>(a.p - b.p) || rest\<close>. Two equal infinities subtract to NaN, which falls through
  to the next key exactly as a zero does.\<close>

lemma num_or_sub_front:
  assumes "a \<noteq> NaN" and "b \<noteq> NaN"
  shows "keeps_front (num_or (jsub a b) r) \<longleftrightarrow> a < b \<or> (a = b \<and> keeps_front r)"
  using assms by (cases a; cases b) (auto simp: num_or_def less_jnum_def)

lemma sub_front:
  assumes "a \<noteq> NaN" and "b \<noteq> NaN"
  shows "keeps_front (jsub a b) \<longleftrightarrow> a \<le> b"
  using assms by (cases a; cases b) auto

text \<open>\<open>a < b ? -1 : a > b ? 1 : 0\<close> on strings.\<close>

definition str_cmp :: "string \<Rightarrow> string \<Rightarrow> jnum" where
  "str_cmp a b = (if a < b then Fin (- 1) else if b < a then Fin 1 else Fin 0)"

lemma str_cmp_front [simp]: "keeps_front (str_cmp a b) \<longleftrightarrow> a \<le> b"
  by (auto simp: str_cmp_def)

lemma num_truthy_str_cmp [simp]: "num_truthy (str_cmp a b) \<longleftrightarrow> a \<noteq> b"
  by (auto simp: str_cmp_def)

interpretation by_string: comparator str_cmp "\<lambda>_. True" "\<lambda>s. s"
  by unfold_locales simp

end
