(* ===== verification/JsObject.thy ===== *)
theory JsObject
  imports JsText JsSort
begin

text \<open>
  Objects that are built from other objects: \<open>{...o}\<close>, \<open>o.k = v\<close>, \<open>Object.entries\<close>, set membership of
  arbitrary values, \<open><\<close> on arbitrary values, and the two orders the workflow graph sorts its nodes and
  edges by (\<open>byKindThenId\<close>, \<open>byId\<close> in \<open>src/workflow-graph.js\<close>, \<open>src/workflow-split.js\<close> and
  \<open>src/workflow-overlay.js\<close>). Properties whose names are array indices come first in the language;
  the names here are not indices, and insertion order is kept.
\<close>

section \<open>Building objects\<close>

fun indexed :: "nat \<Rightarrow> jv list \<Rightarrow> (string \<times> jv) list" where
  "indexed i [] = []"
| "indexed i (v # vs) = (nat_str i, v) # indexed (Suc i) vs"

text \<open>\<open>Object.entries(o)\<close> and what \<open>{...o}\<close> copies: one entry per key, the last value at the place of the
  first; arrays and strings have their indices as keys, other values none.\<close>

fun obj_entries :: "jv \<Rightarrow> (string \<times> jv) list" where
  "obj_entries (JObj kvs) = fold (\<lambda>(k, v) m. kv_put m k v) kvs []"
| "obj_entries (JArr vs) = indexed 0 vs"
| "obj_entries (JStr s) = indexed 0 (map (\<lambda>c. JStr [c]) s)"
| "obj_entries _ = []"

definition spread :: "jv \<Rightarrow> jv" where
  "spread v = JObj (obj_entries v)"

fun obj_put :: "jv \<Rightarrow> string \<Rightarrow> jv \<Rightarrow> jv" where
  "obj_put (JObj kvs) k v = JObj (kv_put kvs k v)"
| "obj_put o' k v = o'"

lemma fold_put_map_of: "map_of (fold (\<lambda>(k, v) m. kv_put m k v) kvs acc) = map_of acc ++ map_of (rev kvs)"
proof (induction kvs arbitrary: acc)
  case Nil
  then show ?case by simp
next
  case (Cons p kvs)
  then show ?case by (cases p) (simp add: kv_put_map_of map_add_def fun_eq_iff split: option.splits)
qed

lemma fold_put_distinct: "distinct (map fst acc) \<Longrightarrow> distinct (map fst (fold (\<lambda>(k, v) m. kv_put m k v) kvs acc))"
  by (induction kvs arbitrary: acc) (auto simp: kv_put_distinct)

lemma map_of_rev_distinct: "distinct (map fst kvs) \<Longrightarrow> map_of (rev kvs) = map_of kvs"
  by (intro ext option.expand map_of_eqI) (auto simp: rev_map [symmetric] map_of_eq_Some_iff)

text \<open>Distinct keys, as every value has that was read from JSON by the program or built by spreading.\<close>

fun keyed :: "jv \<Rightarrow> bool" where
  "keyed (JObj kvs) = distinct (map fst kvs)"
| "keyed _ = False"

lemma keyed_object: "keyed v \<Longrightarrow> is_object v"
  by (cases v) auto

lemma indexed_keys: "map fst (indexed i vs) = map nat_str [i..<i + length vs]"
  by (induction vs arbitrary: i) (auto simp: upt_rec)

lemma nat_str_inj: "nat_str a = nat_str b \<Longrightarrow> a = b"
  using digits_val_nat_str by metis

lemma indexed_distinct: "distinct (map fst (indexed i vs))"
  unfolding indexed_keys distinct_map by (auto simp: inj_on_def dest: nat_str_inj)

lemma keyed_spread [simp]: "keyed (spread v)"
  by (cases v) (simp_all add: spread_def indexed_distinct fold_put_distinct)

lemma keyed_put [simp]: "keyed v \<Longrightarrow> keyed (obj_put v k x)"
  by (cases v) (auto simp: kv_put_distinct)

lemma jget_spread: "is_object v \<Longrightarrow> jget (spread v) k = jget v k"
  by (cases v) (auto simp: spread_def map_of_rev_distinct [OF fold_put_distinct] fold_put_map_of)

lemma jget_put: "keyed v \<Longrightarrow> jget (obj_put v k x) k' = (if k' = k then x else jget v k')"
  by (cases v) (auto simp: map_of_rev_distinct kv_put_distinct kv_put_map_of)

section \<open>\<open>JSON.stringify\<close>\<close>

definition hex_digit :: "nat \<Rightarrow> char" where
  "hex_digit d = (if d < 10 then char_of (48 + d) else char_of (87 + d))"

definition json_char :: "char \<Rightarrow> string" where
  "json_char c =
     (let n = (of_char c :: nat)
      in if n = 34 then [CHR 0x5C, CHR 0x22] else if n = 92 then [CHR 0x5C, CHR 0x5C]
         else if n = 8 then CHR 0x5C # ''b'' else if n = 9 then CHR 0x5C # ''t'' else if n = 10 then CHR 0x5C # ''n''
         else if n = 12 then CHR 0x5C # ''f'' else if n = 13 then CHR 0x5C # ''r''
         else if n < 32 then CHR 0x5C # ''u00'' @ [hex_digit (n div 16), hex_digit (n mod 16)] else [c])"

definition json_string :: "string \<Rightarrow> string" where
  "json_string s = [CHR 0x22] @ concat (map json_char s) @ [CHR 0x22]"

text \<open>\<open>undefined\<close> has no text: at the top the result is \<open>undefined\<close>, in an array it is written \<open>null\<close>, and a
  property that holds it is left out.\<close>

fun json_text :: "jv \<Rightarrow> string" and json_elems :: "jv list \<Rightarrow> string list" and json_fields :: "(string \<times> jv) list \<Rightarrow> string list" where
  "json_text JUndef = ''null''"
| "json_text JNull = ''null''"
| "json_text (JBool b) = (if b then ''true'' else ''false'')"
| "json_text (JNum n) = (if is_finite n then num_str n else ''null'')"
| "json_text (JStr s) = json_string s"
| "json_text (JArr vs) = ''['' @ join '','' (json_elems vs) @ '']''"
| "json_text (JObj kvs) = ''{'' @ join '','' (json_fields kvs) @ ''}''"
| "json_elems [] = []"
| "json_elems (v # vs) = json_text v # json_elems vs"
| "json_fields [] = []"
| "json_fields ((k, v) # kvs) =
     (if v = JUndef then json_fields kvs else (json_string k @ '':'' @ json_text v) # json_fields kvs)"

definition json_stringify :: "jv \<Rightarrow> jv" where
  "json_stringify v = (if v = JUndef then JUndef else JStr (json_text v))"

text \<open>What \<open>JSON.parse(JSON.stringify(v))\<close> is for a value that is not \<open>undefined\<close> itself.\<close>

fun json_image :: "jv \<Rightarrow> jv" and image_elems :: "jv list \<Rightarrow> jv list" and image_fields :: "(string \<times> jv) list \<Rightarrow> (string \<times> jv) list" where
  "json_image JUndef = JNull"
| "json_image JNull = JNull"
| "json_image (JBool b) = JBool b"
| "json_image (JNum n) = (if is_finite n then JNum n else JNull)"
| "json_image (JStr s) = JStr s"
| "json_image (JArr vs) = JArr (image_elems vs)"
| "json_image (JObj kvs) = JObj (image_fields kvs)"
| "image_elems [] = []"
| "image_elems (v # vs) = json_image v # image_elems vs"
| "image_fields [] = []"
| "image_fields ((k, v) # kvs) = (if v = JUndef then image_fields kvs else (k, json_image v) # image_fields kvs)"

section \<open>Comparing and looking up values\<close>

text \<open>The key of \<open>Set\<close> and \<open>Map\<close> and of \<open>includes\<close>: \<open>===\<close>, with NaN equal to itself.\<close>

fun same_value :: "jv \<Rightarrow> jv \<Rightarrow> bool" where
  "same_value (JArr _) _ = False"
| "same_value (JObj _) _ = False"
| "same_value a b = (a = b)"

definition has_value :: "jv list \<Rightarrow> jv \<Rightarrow> bool" where
  "has_value xs v \<longleftrightarrow> (\<exists>x\<in>set xs. same_value v x)"

lemma has_value_JStr [simp]: "has_value xs (JStr s) \<longleftrightarrow> JStr s \<in> set xs"
  by (auto simp: has_value_def)

fun to_prim :: "jv \<Rightarrow> jv" where
  "to_prim (JArr xs) = JStr (to_str (JArr xs))"
| "to_prim (JObj kvs) = JStr (to_str (JObj kvs))"
| "to_prim v = v"

text \<open>\<open>a < b\<close>: strings by code unit, everything else as numbers.\<close>

definition jv_lt :: "jv \<Rightarrow> jv \<Rightarrow> bool" where
  "jv_lt a b =
     (let p = to_prim a; q = to_prim b
      in if is_string p \<and> is_string q then str_of p < str_of q else jlt (to_number p) (to_number q))"

definition jv_cmp :: "jv \<Rightarrow> jv \<Rightarrow> jnum" where
  "jv_cmp a b = (if jv_lt a b then Fin (- 1) else if jv_lt b a then Fin 1 else Fin 0)"

lemma jv_cmp_str: "is_string a \<Longrightarrow> is_string b \<Longrightarrow> jv_cmp a b = str_cmp (str_of a) (str_of b)"
  by (cases a; cases b) (auto simp: jv_cmp_def jv_lt_def str_cmp_def)

section \<open>The order of nodes and edges\<close>

definition by_id :: "jv \<Rightarrow> jv \<Rightarrow> jnum" where
  "by_id a b = jv_cmp (jget a ''id'') (jget b ''id'')"

definition KIND_ORDER :: "(string \<times> nat) list" where
  "KIND_ORDER = [(''stage'', 0), (''service'', 1), (''loop'', 2), (''source'', 3)]"

definition kind_order :: "jv \<Rightarrow> nat option" where
  "kind_order node = map_of KIND_ORDER (to_str (jget node ''kind''))"

text \<open>Kinds that are not in the table: \<open>ka - kb\<close> is NaN, unless both are missing.\<close>

definition by_kind_then_id :: "jv \<Rightarrow> jv \<Rightarrow> jnum" where
  "by_kind_then_id a b =
     (if kind_order a \<noteq> kind_order b
      then (case (kind_order a, kind_order b) of (Some i, Some j) \<Rightarrow> Fin (real i - real j) | _ \<Rightarrow> NaN)
      else by_id a b)"

text \<open>The same order with a default rank for a kind that is not in the table.\<close>

definition kind_rank :: "jv \<Rightarrow> nat" where
  "kind_rank node = (case kind_order node of Some i \<Rightarrow> i | None \<Rightarrow> 9)"

definition by_kind_rank :: "jv \<Rightarrow> jv \<Rightarrow> jnum" where
  "by_kind_rank a b =
     (if kind_order a \<noteq> kind_order b then Fin (real (kind_rank a) - real (kind_rank b)) else by_id a b)"

definition node_key :: "jv \<Rightarrow> nat \<times> string" where
  "node_key v = (kind_rank v, str_of (jget v ''id''))"

interpretation id_order: comparator by_id "\<lambda>v. is_string (jget v ''id'')" "\<lambda>v. str_of (jget v ''id'')"
  by unfold_locales (simp add: by_id_def jv_cmp_str)

lemma kind_order_less: "kind_order v = Some i \<Longrightarrow> i < 4"
  by (auto simp: kind_order_def KIND_ORDER_def split: if_splits)

interpretation rank_order: comparator by_kind_rank "\<lambda>v. is_string (jget v ''id'')" node_key
proof
  fix a b assume s: "is_string (jget a ''id'')" "is_string (jget b ''id'')"
  have "kind_order a \<noteq> kind_order b \<Longrightarrow> kind_rank a \<noteq> kind_rank b"
    using kind_order_less [of a] kind_order_less [of b] by (fastforce simp: kind_rank_def split: option.splits)
  moreover have "kind_order a = kind_order b \<Longrightarrow> kind_rank a = kind_rank b" by (simp add: kind_rank_def)
  ultimately show "keeps_front (by_kind_rank a b) \<longleftrightarrow> node_key a \<le> node_key b"
    using s by (auto simp: by_kind_rank_def node_key_def by_id_def jv_cmp_str less_eq_prod_def)
qed

interpretation kind_id_order: comparator by_kind_then_id
  "\<lambda>v. is_string (jget v ''id'') \<and> kind_order v \<noteq> None" node_key
proof
  fix a b assume s: "is_string (jget a ''id'') \<and> kind_order a \<noteq> None" "is_string (jget b ''id'') \<and> kind_order b \<noteq> None"
  then have "by_kind_then_id a b = by_kind_rank a b"
    by (auto simp: by_kind_then_id_def by_kind_rank_def kind_rank_def)
  with s show "keeps_front (by_kind_then_id a b) \<longleftrightarrow> node_key a \<le> node_key b"
    using rank_order.cmp_key by simp
qed

section \<open>Edge names\<close>

definition edge_id :: "jv \<Rightarrow> jv \<Rightarrow> jv \<Rightarrow> string" where
  "edge_id f t k = to_str f @ ''->'' @ to_str t @ '':'' @ to_str k"

definition id_of :: "jv \<Rightarrow> jv" where
  "id_of v = jget v ''id''"

lemma strict_eq_imp: "strict_eq a b \<Longrightarrow> a = b"
  by (cases "(a, b)" rule: strict_eq.cases) auto

section \<open>Graphs\<close>

definition nodes_of :: "jv \<Rightarrow> jv list" where "nodes_of g = elems (jget g ''nodes'')"
definition edges_of :: "jv \<Rightarrow> jv list" where "edges_of g = elems (jget g ''edges'')"

lemma nat_str_not_id: "nat_str i \<noteq> ''id''"
  using nat_str_digits [of i] by (auto simp: is_digit_def)

lemma indexed_no_id: "map_of (rev (indexed i vs)) ''id'' = None"
proof -
  have "''id'' \<notin> set (map fst (indexed i vs))" unfolding indexed_keys using nat_str_not_id by (auto dest: sym)
  then show ?thesis by (simp add: map_of_eq_None_iff)
qed

lemma id_spread [simp]: "id_of (spread v) = id_of v"
  by (cases v) (simp_all add: id_of_def jget_spread, simp_all add: spread_def indexed_no_id)

lemma id_put: "keyed v \<Longrightarrow> k \<noteq> ''id'' \<Longrightarrow> id_of (obj_put v k x) = id_of v"
  by (simp add: id_of_def jget_put)

text \<open>\<open>delete o.k\<close>\<close>

fun obj_del :: "jv \<Rightarrow> string \<Rightarrow> jv" where
  "obj_del (JObj kvs) k = JObj (filter (\<lambda>p. fst p \<noteq> k) kvs)"
| "obj_del o' k = o'"

lemma map_of_filter_key: "map_of (filter (\<lambda>p. fst p \<noteq> k) kvs) k' = (if k' = k then None else map_of kvs k')"
  by (induction kvs) auto

lemma jget_del: "is_object v \<Longrightarrow> jget (obj_del v k) k' = (if k' = k then JUndef else jget v k')"
  by (cases v) (auto simp: rev_filter map_of_filter_key)

lemma keyed_del [simp]: "keyed v \<Longrightarrow> keyed (obj_del v k)"
  by (cases v) (auto simp: distinct_map_filter)

text \<open>A field other than the one that is set, also of an object whose keys repeat.\<close>

lemma jget_put_other: "k' \<noteq> k \<Longrightarrow> jget (obj_put v k x) k' = jget v k'"
proof (cases v)
  case (JObj kvs)
  assume "k' \<noteq> k"
  have "map_of (rev (kv_put kvs k x)) k' = map_of (rev kvs) k'"
    using \<open>k' \<noteq> k\<close> by (induction kvs) (auto simp: map_add_def split: option.splits)
  then show ?thesis using JObj by simp
qed auto

section \<open>Values read from JSON\<close>

text \<open>Values without \<open>undefined\<close> and with finite numbers, as every value read from JSON is.\<close>

fun json_value :: "jv \<Rightarrow> bool" where
  "json_value JUndef = False"
| "json_value (JNum n) = is_finite n"
| "json_value (JArr vs) = list_all json_value vs"
| "json_value (JObj kvs) = list_all (\<lambda>(k, v). json_value v) kvs"
| "json_value _ = True"

lemma jget_member: "jget (JObj kvs) k = (case map_of (rev kvs) k of Some v \<Rightarrow> v | None \<Rightarrow> JUndef)"
  by simp

lemma json_value_get: "json_value v \<Longrightarrow> jget v k \<noteq> JUndef \<Longrightarrow> json_value (jget v k)"
proof (cases v)
  case (JObj kvs)
  moreover assume "json_value v" "jget v k \<noteq> JUndef"
  moreover have "map_of (rev kvs) k = Some x \<Longrightarrow> (k, x) \<in> set kvs" for x by (auto dest: map_of_SomeD)
  ultimately show ?thesis by (auto simp: list_all_iff split: option.splits)
qed auto

lemma json_image_id:
  "json_value v \<Longrightarrow> json_image v = v"
  "list_all json_value vs \<Longrightarrow> image_elems vs = vs"
  "list_all (\<lambda>(k, v). json_value v) kvs \<Longrightarrow> image_fields kvs = kvs"
  by (induction v and vs and kvs rule: json_image_image_elems_image_fields.induct) auto

lemma kv_put_values: "list_all (\<lambda>(k, v). json_value v) kvs \<Longrightarrow> json_value x \<Longrightarrow> list_all (\<lambda>(k, v). json_value v) (kv_put kvs k x)"
  by (induction kvs k x rule: kv_put.induct) auto

lemma json_value_put [simp]: "json_value v \<Longrightarrow> json_value x \<Longrightarrow> json_value (obj_put v k x)"
  by (cases v) (simp_all add: kv_put_values)

lemma json_value_del [simp]: "json_value v \<Longrightarrow> json_value (obj_del v k)"
  by (cases v) (auto simp: list_all_iff)

lemma json_value_elems: "json_value v \<Longrightarrow> list_all json_value (elems v)"
  by (cases v) simp_all

end
