(* ===== verification/JsDate.thy ===== *)
theory JsDate
  imports Prelude
begin

text \<open>
  \<open>Date.parse\<close> on the timestamps the program writes: \<open>new Date().toISOString()\<close>, that is
  \<open>YYYY-MM-DDTHH:MM:SS.mmmZ\<close>, also without the milliseconds. Every other string is NaN here; the
  language accepts more formats, none of which the program writes. A day is counted with the
  proleptic Gregorian calendar from 1970-01-01, in UTC.
\<close>

definition days_from_civil :: "int \<Rightarrow> int \<Rightarrow> int \<Rightarrow> int" where
  "days_from_civil y m d =
     (let y' = (if m \<le> 2 then y - 1 else y); m' = (if m \<le> 2 then m + 9 else m - 3)
      in 365 * y' + y' div 4 - y' div 100 + y' div 400 + (153 * m' + 2) div 5 + d - 1 - 719468)"

definition field :: "string \<Rightarrow> nat \<Rightarrow> nat \<Rightarrow> int" where
  "field s i n = int (digits_val 0 (take n (drop i s)))"

text \<open>The fixed layout: \<open>9\<close> stands for a digit, every other character for itself.\<close>

fun matches_layout :: "string \<Rightarrow> string \<Rightarrow> bool" where
  "matches_layout [] [] = True"
| "matches_layout (p # ps) (c # cs) = ((if p = CHR ''9'' then is_digit c else p = c) \<and> matches_layout ps cs)"
| "matches_layout _ _ = False"

definition date_of_iso :: "string \<Rightarrow> jnum" where
  "date_of_iso s =
     (if matches_layout ''9999-99-99T99:99:99.999Z'' s \<or> matches_layout ''9999-99-99T99:99:99Z'' s
      then let y = field s 0 4; mo = field s 5 2; d = field s 8 2;
               h = field s 11 2; mi = field s 14 2; sec = field s 17 2;
               ms = (if length s = 24 then field s 20 3 else 0)
           in if 1 \<le> mo \<and> mo \<le> 12 \<and> 1 \<le> d \<and> d \<le> 31 \<and> mi \<le> 59 \<and> sec \<le> 59
                 \<and> (h \<le> 23 \<or> (h = 24 \<and> mi = 0 \<and> sec = 0 \<and> ms = 0))
              then Fin (of_int ((((days_from_civil y mo d * 24 + h) * 60 + mi) * 60 + sec) * 1000 + ms))
              else NaN
      else NaN)"

definition date_parse :: "jv \<Rightarrow> jnum" where
  "date_parse v = (case v of JStr s \<Rightarrow> date_of_iso s | _ \<Rightarrow> NaN)"

lemma epoch_day: "days_from_civil 1970 1 1 = 0"
  by (simp add: days_from_civil_def)

lemma date_parse_example: "date_parse (JStr ''2026-10-17T00:00:01.500Z'') = Fin 1792195201500"
  by code_simp

lemma date_parse_nonstring [simp]:
  "date_parse JUndef = NaN" "date_parse JNull = NaN" "date_parse (JStr []) = NaN"
  by (simp_all add: date_parse_def date_of_iso_def)

end
