(* ===== verification/QueueFiles.thy ===== *)
theory QueueFiles
  imports JsObject JsDate "HOL-Library.AList"
begin

text \<open>
  The queue directory: a task is a file \<open>queue/<state>/<name>\<close> and moves between the states' directories. The store
  lists the files with their directory and name, in the order \<open>readdirSync\<close> gives; an empty file and one that is no
  JSON are kept apart. Beside it the history that every move appends to (\<open>src/task-history.js\<close>), and the contract of
  the sweeps that move tasks: no task is lost and none is in two places.
\<close>

section \<open>The store\<close>

datatype qfile = Blank | Torn | Doc jv

type_synonym qstore = "((string \<times> string) \<times> qfile) list"

definition q_get :: "qstore \<Rightarrow> string \<Rightarrow> string \<Rightarrow> qfile option" where
  "q_get s d n = map_of s (d, n)"

definition q_has :: "qstore \<Rightarrow> string \<Rightarrow> string \<Rightarrow> bool" where
  "q_has s d n \<longleftrightarrow> q_get s d n \<noteq> None"

definition q_put :: "qstore \<Rightarrow> string \<Rightarrow> string \<Rightarrow> qfile \<Rightarrow> qstore" where
  "q_put s d n f = AList.update (d, n) f s"

definition q_del :: "qstore \<Rightarrow> string \<Rightarrow> string \<Rightarrow> qstore" where
  "q_del s d n = AList.delete (d, n) s"

text \<open>\<open>renameSync\<close> of a file that is there; what is at the destination is replaced.\<close>

definition q_move :: "qstore \<Rightarrow> string \<Rightarrow> string \<Rightarrow> string \<Rightarrow> qstore" where
  "q_move s d d' n = (case q_get s d n of Some f \<Rightarrow> q_put (q_del s d n) d' n f | None \<Rightarrow> s)"

definition q_names :: "qstore \<Rightarrow> string \<Rightarrow> string list" where
  "q_names s d = map snd (filter (\<lambda>k. fst k = d) (map fst s))"

definition q_json :: "qstore \<Rightarrow> string \<Rightarrow> string list" where
  "q_json s d = filter (ends_with ''.json'') (q_names s d)"

text \<open>\<open>readJson\<close>: \<open>null\<close> for what cannot be read.\<close>

definition q_read :: "qstore \<Rightarrow> string \<Rightarrow> string \<Rightarrow> jv" where
  "q_read s d n = (case q_get s d n of Some (Doc v) \<Rightarrow> v | _ \<Rightarrow> JNull)"

text \<open>A task is written as JSON.\<close>

definition q_write :: "qstore \<Rightarrow> string \<Rightarrow> string \<Rightarrow> jv \<Rightarrow> qstore" where
  "q_write s d n v = q_put s d n (Doc (json_image v))"

text \<open>The directories in one that hold a file, in order of first appearance.\<close>

definition q_subdirs :: "qstore \<Rightarrow> string \<Rightarrow> string list" where
  "q_subdirs s base =
     uniq (List.map_filter (\<lambda>((d, n), f). if starts_with (base @ ''/'') d then Some (takeWhile (\<lambda>c. c \<noteq> CHR ''/'') (drop (length base + 1) d)) else None) s)"

lemma q_get_put [simp]: "q_get (q_put s d n f) d' n' = (if d' = d \<and> n' = n then Some f else q_get s d' n')"
  by (simp add: q_get_def q_put_def update_conv')

lemma q_get_del [simp]: "q_get (q_del s d n) d' n' = (if d' = d \<and> n' = n then None else q_get s d' n')"
  by (simp add: q_get_def q_del_def delete_conv')

lemma q_read_write [simp]: "q_read (q_write s d n v) d' n' = (if d' = d \<and> n' = n then json_image v else q_read s d' n')"
  by (simp add: q_read_def q_write_def)

lemma q_read_del [simp]: "q_read (q_del s d n) d' n' = (if d' = d \<and> n' = n then JNull else q_read s d' n')"
  by (simp add: q_read_def)

lemma read_has: "truthy (q_read s d n) \<Longrightarrow> q_has s d n"
  by (cases "q_get s d n") (simp_all add: q_read_def q_has_def)

text \<open>A store whose readable files are objects with distinct keys, as parsed JSON is.\<close>

definition sound_store :: "qstore \<Rightarrow> bool" where
  "sound_store s \<longleftrightarrow> (\<forall>((d, n), f)\<in>set s. case f of Doc v \<Rightarrow> keyed v \<and> json_value v | _ \<Rightarrow> True)"

lemma sound_read: "sound_store s \<Longrightarrow> truthy (q_read s d n) \<Longrightarrow> keyed (q_read s d n) \<and> json_value (q_read s d n)"
  by (auto simp: sound_store_def q_read_def q_get_def dest!: map_of_SomeD split: option.splits qfile.splits)

section \<open>The tasks of a store\<close>

definition task_names :: "qstore \<Rightarrow> string list" where
  "task_names s = map (snd \<circ> fst) s"

definition one_place :: "qstore \<Rightarrow> bool" where
  "one_place s \<longleftrightarrow> distinct (task_names s)"

text \<open>An operation's contract: from a store in which every task is in one place it leads to another, with the same tasks.\<close>

definition keeps_tasks :: "qstore \<Rightarrow> qstore \<Rightarrow> bool" where
  "keeps_tasks s s' \<longleftrightarrow> (one_place s \<longrightarrow> one_place s' \<and> set (task_names s') = set (task_names s))"

lemma keeps_refl [simp, intro]: "keeps_tasks s s"
  by (simp add: keeps_tasks_def)

lemma keeps_trans [trans]: "keeps_tasks s t \<Longrightarrow> keeps_tasks t u \<Longrightarrow> keeps_tasks s u"
  by (simp add: keeps_tasks_def)

lemma q_has_key: "q_has s d n \<longleftrightarrow> (d, n) \<in> fst ` set s"
  by (simp add: q_has_def q_get_def map_of_eq_None_iff)

lemma task_names_keys: "task_names s = map snd (map fst s)"
  by (simp add: task_names_def)

lemma task_names_put: "task_names (q_put s d n f) = (if q_has s d n then task_names s else task_names s @ [n])"
  unfolding task_names_keys q_put_def update_keys q_has_key by simp

lemma task_names_del: "task_names (q_del s d n) = map snd (filter (\<lambda>k. (d, n) \<noteq> k) (map fst s))"
  unfolding task_names_keys q_del_def delete_keys removeAll_filter_not_eq ..

lemma put_keeps: "q_has s d n \<Longrightarrow> keeps_tasks s (q_put s d n f)"
  by (simp add: keeps_tasks_def one_place_def task_names_put)

lemma write_keeps: "q_has s d n \<Longrightarrow> keeps_tasks s (q_write s d n v)"
  by (simp add: q_write_def put_keeps)

lemma one_place_key: "one_place s \<Longrightarrow> q_has s d n \<Longrightarrow> q_has s d' n \<Longrightarrow> d' = d"
  unfolding one_place_def task_names_keys q_has_key distinct_map
  by (metis inj_onD list.set_map prod.inject snd_conv)

lemma q_has_put [simp]: "q_has (q_put s d n f) d' n' \<longleftrightarrow> (d' = d \<and> n' = n) \<or> q_has s d' n'"
  by (auto simp: q_has_def q_get_def q_put_def update_conv')

lemma q_has_write [simp]: "q_has (q_write s d n v) d' n' \<longleftrightarrow> (d' = d \<and> n' = n) \<or> q_has s d' n'"
  by (simp add: q_write_def)

lemma q_has_del [simp]: "q_has (q_del s d n) d' n' \<longleftrightarrow> (d', n') \<noteq> (d, n) \<and> q_has s d' n'"
  by (auto simp: q_has_def q_get_def q_del_def delete_conv')

lemma names_without:
  assumes "one_place s" "q_has s d n"
  shows "distinct (task_names (q_del s d n)) \<and> n \<notin> set (task_names (q_del s d n))
    \<and> insert n (set (task_names (q_del s d n))) = set (task_names s)"
proof -
  have inj: "inj_on snd (set (map fst s))" and dist: "distinct (map fst s)"
    using assms(1) [unfolded one_place_def task_names_keys distinct_map [of snd]] by blast+
  have mem: "(d, n) \<in> set (map fst s)" using assms(2) by (simp add: q_has_key)
  have keys: "set (filter (\<lambda>k. (d, n) \<noteq> k) (map fst s)) = set (map fst s) - {(d, n)}" by auto
  have "n \<notin> snd ` (set (map fst s) - {(d, n)})"
  proof
    assume "n \<in> snd ` (set (map fst s) - {(d, n)})"
    then obtain k where k: "k \<in> set (map fst s)" "k \<noteq> (d, n)" "snd k = n" by blast
    then show False using inj_onD [OF inj, of k "(d, n)"] mem by simp
  qed
  moreover have "distinct (map snd (filter (\<lambda>k. (d, n) \<noteq> k) (map fst s)))"
    using distinct_filter [OF dist] inj_on_subset [OF inj filter_is_subset] unfolding distinct_map [of snd] by blast
  moreover have "insert n (snd ` (set (map fst s) - {(d, n)})) = set (task_names s)"
    using mem unfolding task_names_keys by force
  ultimately show ?thesis unfolding task_names_del set_map keys by blast
qed

text \<open>Moving a file, and writing a task to another directory and removing it from its own.\<close>

lemma move_keeps:
  assumes "d' \<noteq> d"
  shows "keeps_tasks s (q_move s d d' n)"
proof (cases "q_get s d n")
  case (Some f)
  show ?thesis
    unfolding keeps_tasks_def
  proof
    assume one: "one_place s"
    have has: "q_has s d n" by (simp add: q_has_def Some)
    have "\<not> q_has s d' n" using one_place_key [OF one has] assms by blast
    then have "task_names (q_move s d d' n) = task_names (q_del s d n) @ [n]"
      by (simp add: q_move_def Some task_names_put)
    then show "one_place (q_move s d d' n) \<and> set (task_names (q_move s d d' n)) = set (task_names s)"
      using names_without [OF one has] by (auto simp: one_place_def)
  qed
qed (simp add: q_move_def)

lemma del_put_swap: "(d', n') \<noteq> (d, n) \<Longrightarrow> q_del (q_put s d' n' f) d n = q_put (q_del s d n) d' n' f"
  unfolding q_del_def q_put_def by (rule delete_update) simp

lemma relocate_keeps:
  assumes "q_has s d n" "d' \<noteq> d"
  shows "keeps_tasks s (q_del (q_put s d' n f) d n)"
  unfolding keeps_tasks_def
proof
  assume one: "one_place s"
  have "\<not> q_has s d' n" using one_place_key [OF one assms(1)] assms(2) by blast
  then have "task_names (q_del (q_put s d' n f) d n) = task_names (q_del s d n) @ [n]"
    using assms(2) by (simp add: del_put_swap task_names_put)
  then show "one_place (q_del (q_put s d' n f) d n) \<and> set (task_names (q_del (q_put s d' n f) d n)) = set (task_names s)"
    using names_without [OF one assms(1)] by (auto simp: one_place_def)
qed

lemma rewrite_keeps: "q_has s d n \<Longrightarrow> d' \<noteq> d \<Longrightarrow> keeps_tasks s (q_del (q_write s d' n v) d n)"
  by (simp add: q_write_def relocate_keeps)

lemma q_has_move [simp]: "q_has (q_move s d d' n) e m \<longleftrightarrow> (if q_has s d n then (e = d' \<and> m = n) \<or> ((e, m) \<noteq> (d, n) \<and> q_has s e m) else q_has s e m)"
  by (auto simp: q_move_def q_has_def [of s d n] split: option.splits)

section \<open>Sweeps\<close>

text \<open>A family of sweeps that keep the tasks; any sequence of them does.\<close>

locale task_mover =
  fixes sweep :: "'e \<Rightarrow> qstore \<Rightarrow> qstore"
  assumes sweep_keeps: "keeps_tasks s (sweep e s)"
begin

lemma sweeps_keep: "keeps_tasks s (fold sweep es s)"
  by (induction es arbitrary: s) (auto intro: keeps_trans sweep_keeps)

lemma never_lost: "one_place s \<Longrightarrow> n \<in> set (task_names s) \<Longrightarrow> \<exists>!d. q_has (fold sweep es s) d n"
proof -
  assume "one_place s" "n \<in> set (task_names s)"
  then have "one_place (fold sweep es s)" "n \<in> set (task_names (fold sweep es s))"
    using sweeps_keep [of s es] by (simp_all add: keeps_tasks_def)
  then show ?thesis
    using one_place_key [of "fold sweep es s"] by (force simp: task_names_def q_has_key)
qed

end

section \<open>History\<close>

definition COLLAPSIBLE_REPEAT_STAGES :: "string list" where
  "COLLAPSIBLE_REPEAT_STAGES = [''exhausted'']"

text \<open>\<open>v + 1\<close>\<close>

definition plus_one :: "jv \<Rightarrow> jv" where
  "plus_one v = (case to_prim v of JStr s \<Rightarrow> JStr (s @ ''1'') | p \<Rightarrow> JNum (jadd (to_number p) (Fin 1)))"

definition with_detail :: "string option \<Rightarrow> jv \<Rightarrow> jv" where
  "with_detail detail e = (case detail of Some d \<Rightarrow> if d = [] then e else obj_put e ''detail'' (JStr d) | None \<Rightarrow> e)"

definition repeated_entry :: "string \<Rightarrow> string option \<Rightarrow> jv \<Rightarrow> jv" where
  "repeated_entry now detail l =
     (let l1 = (if truthy (jget l ''firstAt'') then l else obj_put l ''firstAt'' (jget l ''at''));
          l2 = obj_put l1 ''at'' (JStr now);
          l3 = obj_put l2 ''count'' (plus_one (if truthy (jget l ''count'') then jget l ''count'' else JNum (Fin 1)))
      in with_detail detail l3)"

definition append_history_event :: "string \<Rightarrow> string \<Rightarrow> string option \<Rightarrow> jv \<Rightarrow> jv" where
  "append_history_event now stage detail task =
     (let hs = elems (jget task ''history'')
      in obj_put task ''history'' (JArr
           (if hs \<noteq> [] \<and> truthy (last hs) \<and> jget (last hs) ''stage'' = JStr stage \<and> stage \<in> set COLLAPSIBLE_REPEAT_STAGES
            then butlast hs @ [repeated_entry now detail (last hs)]
            else hs @ [with_detail detail (JObj [(''stage'', JStr stage), (''at'', JStr now)])])))"

text \<open>Setting a field of a value that is no object throws.\<close>

definition settable :: "jv \<Rightarrow> bool" where
  "settable v \<longleftrightarrow> is_object v \<or> is_array v"

definition has_stage :: "string \<Rightarrow> jv \<Rightarrow> bool" where
  "has_stage st task \<longleftrightarrow> (\<exists>h\<in>set (elems (jget task ''history'')). jget h ''stage'' = JStr st)"

lemma append_history_frame: "keyed task \<Longrightarrow> k \<noteq> ''history'' \<Longrightarrow> jget (append_history_event now st d task) k = jget task k"
  by (simp add: append_history_event_def Let_def jget_put)

lemma keyed_append_history [simp]: "keyed task \<Longrightarrow> keyed (append_history_event now st d task)"
  by (simp add: append_history_event_def Let_def)

lemma append_history_last:
  "keyed task \<Longrightarrow> st \<notin> set COLLAPSIBLE_REPEAT_STAGES \<Longrightarrow>
   elems (jget (append_history_event now st d task) ''history'') =
     elems (jget task ''history'') @ [with_detail d (JObj [(''stage'', JStr st), (''at'', JStr now)])]"
  by (simp add: append_history_event_def Let_def jget_put)

lemma append_history_length:
  "keyed task \<Longrightarrow> elems (jget task ''history'') \<noteq> [] \<Longrightarrow> jget (last (elems (jget task ''history''))) ''stage'' = JStr ''exhausted'' \<Longrightarrow>
   length (elems (jget (append_history_event now ''exhausted'' d task) ''history'')) = length (elems (jget task ''history''))"
  by (cases "last (elems (jget task ''history''))") (auto simp: append_history_event_def Let_def jget_put COLLAPSIBLE_REPEAT_STAGES_def)

lemma json_value_detail: "json_value e \<Longrightarrow> json_value (with_detail d e)"
  by (simp add: with_detail_def split: option.splits)

lemma json_value_append_history:
  assumes "json_value task" "st \<notin> set COLLAPSIBLE_REPEAT_STAGES"
  shows "json_value (append_history_event now st d task)"
proof -
  have "list_all json_value (elems (jget task ''history''))"
    using json_value_get [OF assms(1), of "''history''"] json_value_elems by (cases "jget task ''history'' = JUndef") auto
  then show ?thesis
    using assms by (simp add: append_history_event_def Let_def json_value_detail)
qed

end
