(* ===== verification/QueueSweeps.thy ===== *)
theory QueueSweeps
  imports QueueFiles
begin

text \<open>
  Sweeps over the queue directory: tasks that aged out while queued (\<open>src/expiry-sweep.js\<close>), drafts a dead worker left
  behind (\<open>src/reclaim-orphaned-drafts.js\<close>) and the archive of finished tasks (\<open>src/done-archive.js\<close>). A source's
  expiry hooks are arguments, as are the clock with its text, the heartbeats and the files' times. File operations
  succeed unless the file they need is missing.
\<close>

section \<open>Tasks that aged out\<close>

definition EXPIRY_INTERVAL_MINUTES :: real where "EXPIRY_INTERVAL_MINUTES = 30"
definition STAGING_DIR :: string where "STAGING_DIR = ''.expiry-staging''"
definition NO_ACTION_DIR :: string where "NO_ACTION_DIR = ''done/_archived_no_action''"

definition expiry_enabled :: "env \<Rightarrow> bool" where
  "expiry_enabled e \<longleftrightarrow> e ''AGENT_MANAGER_EXPIRY_SWEEP'' \<noteq> Some ''false''"

definition expiry_interval :: "env \<Rightarrow> jnum" where
  "expiry_interval e =
     (case env_number e ''AGENT_MANAGER_EXPIRY_SWEEP_MINUTES'' of
        Fin n \<Rightarrow> Fin ((if 0 \<le> n then n else EXPIRY_INTERVAL_MINUTES) * 60 * 1000)
      | _ \<Rightarrow> Fin (EXPIRY_INTERVAL_MINUTES * 60 * 1000))"

record expiry_hook =
  eh_prefixes :: "string list"
  eh_findExpired :: "(string \<times> jv) list \<Rightarrow> jv list outcome"
  eh_record :: "((jv \<times> jv) list \<Rightarrow> bool) option"

record expiry_source =
  es_name :: jv
  es_expiry :: "expiry_hook option"

record expiry_summary =
  xs_sources :: nat
  xs_checked :: nat
  xs_archived :: nat
  xs_released :: nat
  xs_skipped :: nat
  xs_errors :: nat
  xs_throttled :: bool

definition no_expiry :: expiry_summary where
  "no_expiry = \<lparr>xs_sources = 0, xs_checked = 0, xs_archived = 0, xs_released = 0, xs_skipped = 0, xs_errors = 0, xs_throttled = False\<rparr>"

definition source_tasks :: "qstore \<Rightarrow> string list \<Rightarrow> jv \<Rightarrow> string list \<Rightarrow> (string \<times> jv) list" where
  "source_tasks s pending_names source_name prefixes =
     List.map_filter (\<lambda>name.
       let task = q_read s ''pending'' name
       in if (prefixes = [] \<or> list_ex (\<lambda>p. starts_with p name) prefixes)
             \<and> settable task \<and> strict_eq (jget task ''source'') source_name
          then Some (strip_json name, task) else None) pending_names"

definition aged_out_task :: "string \<Rightarrow> jv \<Rightarrow> jv \<Rightarrow> jv" where
  "aged_out_task now_iso item task =
     (let reason = take 400 (to_str (if truthy (jget item ''reason'') then jget item ''reason'' else JStr ''aged out while queued''))
      in obj_put (obj_put (append_history_event now_iso ''aged-out'' (Some reason) task) ''terminalDisposition'' (JStr ''aged-out''))
           ''manualArchive'' (JObj [(''at'', JStr now_iso), (''from'', JStr ''pending''), (''reason'', JStr reason)]))"

definition released_task :: "string \<Rightarrow> jv \<Rightarrow> jv \<Rightarrow> jv" where
  "released_task now_iso item task =
     append_history_event now_iso ''approved''
       (Some (''expiry-sweep: ''
          @ to_str (if truthy (jget item ''reason'') then jget item ''reason'' else JStr ''subject aged out, but this task already holds an approved result'')
          @ '' -- applying it, no redraft''))
       (obj_put (obj_del (obj_del task ''blockedReason'') ''blockedStage'') ''status'' (JStr ''approved''))"

type_synonym expiry_progress = "qstore \<times> expiry_summary \<times> (jv \<times> jv) list"

definition expire_item :: "string \<Rightarrow> bool \<Rightarrow> jv \<Rightarrow> expiry_progress \<Rightarrow> expiry_progress" where
  "expire_item now_iso dry item p =
     (case p of (s, sm, dn) \<Rightarrow>
       let name = to_str (jget item ''id'') @ ''.json''; archiving = jget item ''action'' = JStr ''archive''
       in if \<not> truthy item \<or> \<not> truthy (jget item ''id'') \<or> (\<not> archiving \<and> jget item ''action'' \<noteq> JStr ''apply'') then (s, sm, dn)
          else if dry
          then (s, if archiving then sm\<lparr>xs_archived := xs_archived sm + 1\<rparr> else sm\<lparr>xs_released := xs_released sm + 1\<rparr>, dn @ [(item, JNull)])
          else if \<not> q_has s ''pending'' name then (s, sm\<lparr>xs_skipped := xs_skipped sm + 1\<rparr>, dn)
          else let s1 = q_move s ''pending'' STAGING_DIR name; task = q_read s1 STAGING_DIR name;
                   put_back = q_move s1 STAGING_DIR ''pending'' name
               in if \<not> truthy task \<or> (archiving \<and> q_has s1 NO_ACTION_DIR name)
                  then (put_back, sm\<lparr>xs_skipped := xs_skipped sm + 1\<rparr>, dn)
                  else if \<not> settable task then (put_back, sm\<lparr>xs_errors := xs_errors sm + 1\<rparr>, dn)
                  else if archiving
                  then let t = aged_out_task now_iso item task
                       in (q_move (q_write s1 STAGING_DIR name t) STAGING_DIR NO_ACTION_DIR name,
                           sm\<lparr>xs_archived := xs_archived sm + 1\<rparr>, dn @ [(item, t)])
                  else let t = released_task now_iso item task
                       in (q_move (q_write s1 STAGING_DIR name t) STAGING_DIR ''approved'' name,
                           sm\<lparr>xs_released := xs_released sm + 1\<rparr>, dn @ [(item, t)]))"

definition expire_source :: "string \<Rightarrow> bool \<Rightarrow> string list \<Rightarrow> expiry_source \<Rightarrow> qstore \<times> expiry_summary \<Rightarrow> qstore \<times> expiry_summary" where
  "expire_source now_iso dry pending_names src p =
     (case p of (s, sm) \<Rightarrow>
       case es_expiry src of
         None \<Rightarrow> (s, sm)
       | Some ex \<Rightarrow>
           let tasks = source_tasks s pending_names (es_name src) (eh_prefixes ex);
               sm1 = sm\<lparr>xs_sources := xs_sources sm + 1, xs_checked := xs_checked sm + length tasks\<rparr>
           in if tasks = [] then (s, sm1)
              else case eh_findExpired ex tasks of
                Throws \<Rightarrow> (s, sm1\<lparr>xs_errors := xs_errors sm1 + 1\<rparr>)
              | Returns expired \<Rightarrow>
                  let (s2, sm2, dn) = fold (expire_item now_iso dry) expired (s, sm1, [])
                  in if dn \<noteq> [] \<and> \<not> dry \<and> (\<exists>r. eh_record ex = Some r \<and> \<not> r dn)
                     then (s2, sm2\<lparr>xs_errors := xs_errors sm2 + 1\<rparr>) else (s2, sm2))"

definition summary_json :: "expiry_summary \<Rightarrow> jv" where
  "summary_json sm =
     JObj [(''sources'', JNum (Fin (real (xs_sources sm)))), (''checked'', JNum (Fin (real (xs_checked sm)))),
           (''archived'', JNum (Fin (real (xs_archived sm)))), (''released'', JNum (Fin (real (xs_released sm)))),
           (''skipped'', JNum (Fin (real (xs_skipped sm)))), (''errors'', JNum (Fin (real (xs_errors sm)))),
           (''throttled'', JBool (xs_throttled sm))]"

text \<open>The third component is the state file, \<open>null\<close> when there is none.\<close>

definition sweep_expiry ::
  "env \<Rightarrow> real \<Rightarrow> string \<Rightarrow> bool \<Rightarrow> bool \<Rightarrow> expiry_source list \<Rightarrow> qstore \<times> jv \<Rightarrow> qstore \<times> expiry_summary \<times> jv" where
  "sweep_expiry e now now_iso dry force sources p =
     (case p of (s, state) \<Rightarrow>
       if \<not> expiry_enabled e then (s, no_expiry, state)
       else if \<not> force \<and> \<not> dry \<and> truthy state \<and> truthy (jget state ''lastRunAt'')
               \<and> jlt (jsub (Fin now) (date_parse (jget state ''lastRunAt''))) (expiry_interval e)
       then (s, no_expiry\<lparr>xs_throttled := True\<rparr>, state)
       else let (s', sm) = fold (expire_source now_iso dry (q_json s ''pending'')) sources (s, no_expiry)
            in (s', sm, if dry then state else JObj [(''lastRunAt'', JStr now_iso), (''lastSummary'', summary_json sm)]))"

section \<open>Orphaned drafts\<close>

record reclaim_result =
  rc_store :: qstore
  rc_ids :: "jv list"
  rc_threw :: bool

definition lane_dir :: "string \<Rightarrow> string" where
  "lane_dir i = ''drafting/'' @ i"

definition reclaimed_task :: "string \<Rightarrow> string \<Rightarrow> jv \<Rightarrow> jv" where
  "reclaimed_task now_iso i task =
     append_history_event now_iso ''reclaimed''
       (Some (''Orphaned claim from a prior '' @ i @ '' process, recovered at startup -- sent back to queue/pending/'')) task"

text \<open>The loop over the directory's files; a task that is \<open>null\<close> or no object ends it with an exception.\<close>

fun reclaim_walk :: "string \<Rightarrow> string \<Rightarrow> string list \<Rightarrow> qstore \<Rightarrow> jv list \<Rightarrow> reclaim_result" where
  "reclaim_walk now_iso i [] s ids = \<lparr>rc_store = s, rc_ids = ids, rc_threw = False\<rparr>"
| "reclaim_walk now_iso i (name # names) s ids =
     (case q_get s (lane_dir i) name of
        Some (Doc task) \<Rightarrow>
          if nullish task then \<lparr>rc_store = s, rc_ids = ids, rc_threw = True\<rparr>
          else if q_has s ''pending'' name then reclaim_walk now_iso i names s ids
          else if \<not> settable task then \<lparr>rc_store = s, rc_ids = ids, rc_threw = True\<rparr>
          else reclaim_walk now_iso i names
                 (q_move (q_write s (lane_dir i) name (reclaimed_task now_iso i task)) (lane_dir i) ''pending'' name)
                 (ids @ [if truthy (jget task ''id'') then jget task ''id'' else JStr (strip_json name)])
      | _ \<Rightarrow> reclaim_walk now_iso i names s ids)"

definition reclaim_orphaned_drafts :: "string \<Rightarrow> string \<Rightarrow> qstore \<Rightarrow> reclaim_result" where
  "reclaim_orphaned_drafts now_iso i s = reclaim_walk now_iso i (q_json s (lane_dir i)) s []"

record retired_result =
  rr_retired :: "string list"
  rr_ids :: "jv list"
  rr_store :: qstore
  rr_threw :: bool

text \<open>\<open>dirs\<close> are the directories of \<open>drafting/\<close>; \<open>hb\<close> gives a lane's heartbeat, \<open>null\<close> when there is none. The
  heartbeat files of the retired lanes are deleted.\<close>

fun reclaim_retired :: "string \<Rightarrow> string list \<Rightarrow> (string \<Rightarrow> jv) \<Rightarrow> (jv \<Rightarrow> bool) \<Rightarrow> string list \<Rightarrow> retired_result \<Rightarrow> retired_result" where
  "reclaim_retired now_iso lane_ids hb alive [] r = r"
| "reclaim_retired now_iso lane_ids hb alive (d # ds) r =
     (if d \<in> set lane_ids \<or> (truthy (hb d) \<and> alive (jget (hb d) ''pid'')) then reclaim_retired now_iso lane_ids hb alive ds r
      else let c = reclaim_orphaned_drafts now_iso d (rr_store r)
           in if rc_threw c then r\<lparr>rr_store := rc_store c, rr_threw := True\<rparr>
              else reclaim_retired now_iso lane_ids hb alive ds
                     (r\<lparr>rr_retired := rr_retired r @ [d], rr_ids := rr_ids r @ rc_ids c, rr_store := rc_store c\<rparr>))"

definition reclaim_retired_lane_drafts :: "string \<Rightarrow> string list \<Rightarrow> (string \<Rightarrow> jv) \<Rightarrow> (jv \<Rightarrow> bool) \<Rightarrow> string list \<Rightarrow> qstore \<Rightarrow> retired_result" where
  "reclaim_retired_lane_drafts now_iso lane_ids hb alive dirs s =
     reclaim_retired now_iso lane_ids hb alive (filter (starts_with ''worker-'') dirs)
       \<lparr>rr_retired = [], rr_ids = [], rr_store = s, rr_threw = False\<rparr>"

section \<open>The archive of finished tasks\<close>

definition DEFAULT_RETENTION_DAYS :: real where "DEFAULT_RETENTION_DAYS = 30"
definition RECHECK_INTERVAL_MS :: real where "RECHECK_INTERVAL_MS = 24 * 60 * 60 * 1000"

definition retention_ms :: "env \<Rightarrow> jnum" where
  "retention_ms e =
     (case num_or (env_number e ''AGENT_MANAGER_DONE_ARCHIVE_AFTER_DAYS'') (Fin DEFAULT_RETENTION_DAYS) of
        Fin d \<Rightarrow> Fin (d * 24 * 60 * 60 * 1000) | n \<Rightarrow> n)"

definition archive_dir :: "string \<Rightarrow> string" where
  "archive_dir month = ''done/_archived/'' @ month"

record archive_result =
  av_moved :: nat
  av_left :: nat
  av_errors :: "string list"

text \<open>\<open>mtime\<close> is \<open>None\<close> for a file that is gone; \<open>month\<close> is the calendar month of the clock.\<close>

fun archive_walk :: "jnum \<Rightarrow> (string \<Rightarrow> real option) \<Rightarrow> string \<Rightarrow> string list \<Rightarrow> qstore \<Rightarrow> archive_result \<Rightarrow> qstore \<times> archive_result" where
  "archive_walk cutoff mtime month [] s r = (s, r)"
| "archive_walk cutoff mtime month (n # ns) s r =
     (case mtime n of
        None \<Rightarrow> archive_walk cutoff mtime month ns s (r\<lparr>av_errors := av_errors r @ [n]\<rparr>)
      | Some m \<Rightarrow>
          if jle cutoff (Fin m) then archive_walk cutoff mtime month ns s (r\<lparr>av_left := av_left r + 1\<rparr>)
          else archive_walk cutoff mtime month ns (q_move s ''done'' (archive_dir month) n) (r\<lparr>av_moved := av_moved r + 1\<rparr>))"

definition archive_done_tasks :: "env \<Rightarrow> real \<Rightarrow> string \<Rightarrow> (string \<Rightarrow> real option) \<Rightarrow> qstore \<Rightarrow> qstore \<times> archive_result" where
  "archive_done_tasks e now month mtime s =
     archive_walk (jsub (Fin now) (retention_ms e)) mtime month (q_json s ''done'') s \<lparr>av_moved = 0, av_left = 0, av_errors = []\<rparr>"

text \<open>The second number counts the ids without a file.\<close>

fun archive_specific :: "string \<Rightarrow> string list \<Rightarrow> qstore \<Rightarrow> nat \<Rightarrow> nat \<Rightarrow> qstore \<times> nat \<times> nat" where
  "archive_specific month [] s moved missing = (s, moved, missing)"
| "archive_specific month (i # ids) s moved missing =
     (if q_has s ''done'' (i @ ''.json'')
      then archive_specific month ids (q_move s ''done'' (archive_dir month) (i @ ''.json'')) (moved + 1) missing
      else archive_specific month ids s moved (missing + 1))"

text \<open>The state that is read throws when its file is corrupt; no file is an empty object.\<close>

definition check_due :: "env \<Rightarrow> real \<Rightarrow> string \<Rightarrow> string \<Rightarrow> (string \<Rightarrow> real option) \<Rightarrow> jv outcome \<Rightarrow> qstore \<Rightarrow> (qstore \<times> archive_result option \<times> jv) outcome" where
  "check_due e now now_iso month mtime state s =
     (case state of
        Throws \<Rightarrow> Throws
      | Returns st \<Rightarrow>
          if nullish st then Throws
          else let l = (if truthy (jget st ''lastArchivedAt'') then date_parse (jget st ''lastArchivedAt'') else NaN)
               in if l = NaN \<or> jle (Fin RECHECK_INTERVAL_MS) (jsub (Fin now) l)
                  then let (s', r) = archive_done_tasks e now month mtime s
                       in Returns (s', Some r, JObj [(''lastArchivedAt'', JStr now_iso)])
                  else Returns (s, None, st))"

section \<open>No task is lost\<close>

lemma staged_keeps:
  assumes "q_has s d n" "m \<noteq> d"
  shows "keeps_tasks s (q_move (q_write s d n v) d m n)"
  using write_keeps [OF assms(1)] move_keeps [OF assms(2)] by (rule keeps_trans)

lemma dirs_distinct [simp]:
  "STAGING_DIR \<noteq> ''pending''" "NO_ACTION_DIR \<noteq> STAGING_DIR" "''approved'' \<noteq> STAGING_DIR" "''pending'' \<noteq> STAGING_DIR"
  "''pending'' \<noteq> lane_dir i" "archive_dir m \<noteq> ''done''"
  by (simp_all add: STAGING_DIR_def NO_ACTION_DIR_def lane_dir_def archive_dir_def)

lemma expire_item_keeps: "keeps_tasks s (fst (expire_item now_iso dry item (s, sm, dn)))"
proof -
  let ?name = "to_str (jget item ''id'') @ ''.json''"
  let ?s1 = "q_move s ''pending'' STAGING_DIR ?name"
  have staged: "keeps_tasks s ?s1" by (rule move_keeps) simp
  have has: "q_has s ''pending'' ?name \<Longrightarrow> q_has ?s1 STAGING_DIR ?name" by simp
  have undo: "keeps_tasks s (q_move ?s1 STAGING_DIR ''pending'' ?name)"
    by (rule keeps_trans [OF staged move_keeps]) simp
  have out: "q_has s ''pending'' ?name \<Longrightarrow> m \<noteq> STAGING_DIR \<Longrightarrow> keeps_tasks s (q_move (q_write ?s1 STAGING_DIR ?name v) STAGING_DIR m ?name)" for m v
    by (rule keeps_trans [OF staged staged_keeps]) (simp_all add: has)
  show ?thesis
    unfolding expire_item_def Let_def prod.case using undo out by (auto split: if_splits)
qed

lemma expire_items_keep: "keeps_tasks s (fst (fold (expire_item now_iso dry) items (s, sm, dn)))"
proof (induction items arbitrary: s sm dn)
  case (Cons i items)
  obtain s' sm' dn' where i: "expire_item now_iso dry i (s, sm, dn) = (s', sm', dn')" by (metis prod.exhaust)
  have "keeps_tasks s s'" using expire_item_keeps [of s now_iso dry i sm dn] i by simp
  also have "keeps_tasks s' (fst (fold (expire_item now_iso dry) items (s', sm', dn')))" by (rule Cons.IH)
  finally show ?case by (simp add: i)
qed simp

lemma expire_source_keeps: "keeps_tasks s (fst (expire_source now_iso dry ns src (s, sm)))"
proof (cases "es_expiry src")
  case (Some ex)
  show ?thesis
  proof (cases "eh_findExpired ex (source_tasks s ns (es_name src) (eh_prefixes ex))")
    case (Returns expired)
    have "keeps_tasks s (fst (fold (expire_item now_iso dry) expired (s, sm2, [])))" for sm2
      by (rule expire_items_keep)
    then show ?thesis
      using Some Returns by (auto simp: expire_source_def Let_def split_def)
  qed (simp add: expire_source_def Let_def Some)
qed (simp add: expire_source_def)

lemma expire_sources_keep: "keeps_tasks s (fst (fold (expire_source now_iso dry ns) sources (s, sm)))"
proof (induction sources arbitrary: s sm)
  case (Cons src sources)
  obtain s' sm' where i: "expire_source now_iso dry ns src (s, sm) = (s', sm')" by (metis prod.exhaust)
  have "keeps_tasks s s'" using expire_source_keeps [of s now_iso dry ns src sm] i by simp
  also have "keeps_tasks s' (fst (fold (expire_source now_iso dry ns) sources (s', sm')))" by (rule Cons.IH)
  finally show ?case by (simp add: i)
qed simp

lemma sweep_expiry_keeps: "keeps_tasks s (fst (sweep_expiry e now now_iso dry force sources (s, state)))"
  using expire_sources_keep [of s now_iso dry "q_json s ''pending''" sources no_expiry]
  by (auto simp: sweep_expiry_def split_def Let_def)

lemma reclaim_walk_keeps: "keeps_tasks s (rc_store (reclaim_walk now_iso i ns s ids))"
proof (induction now_iso i ns s ids rule: reclaim_walk.induct)
  case (2 now_iso i name names s ids)
  show ?case
  proof (cases "\<exists>task. q_get s (lane_dir i) name = Some (Doc task) \<and> \<not> nullish task \<and> \<not> q_has s ''pending'' name \<and> settable task")
    case True
    then obtain task where t: "q_get s (lane_dir i) name = Some (Doc task)" "\<not> nullish task" "\<not> q_has s ''pending'' name" "settable task" by blast
    let ?s1 = "q_move (q_write s (lane_dir i) name (reclaimed_task now_iso i task)) (lane_dir i) ''pending'' name"
    let ?ids = "ids @ [if truthy (jget task ''id'') then jget task ''id'' else JStr (strip_json name)]"
    have "keeps_tasks s ?s1" using t(1) by (intro staged_keeps) (simp_all add: q_has_def)
    also have "keeps_tasks ?s1 (rc_store (reclaim_walk now_iso i names ?s1 ?ids))"
      by (rule 2) (use t in simp_all)
    finally show ?thesis using t by simp
  next
    case False
    then show ?thesis using 2 by (auto split: option.splits qfile.splits)
  qed
qed simp

lemma reclaim_keeps: "keeps_tasks s (rc_store (reclaim_orphaned_drafts now_iso i s))"
  by (simp add: reclaim_orphaned_drafts_def reclaim_walk_keeps)

lemma reclaim_retired_keeps: "keeps_tasks (rr_store r) (rr_store (reclaim_retired now_iso ids hb alive ds r))"
proof (induction now_iso ids hb alive ds r rule: reclaim_retired.induct)
  case (2 now_iso ids hb alive d ds r)
  have "keeps_tasks (rr_store r) (rc_store (reclaim_orphaned_drafts now_iso d (rr_store r)))" by (rule reclaim_keeps)
  then show ?case using 2 keeps_trans by (auto simp: Let_def)
qed simp

lemma reclaim_retired_lane_drafts_keeps: "keeps_tasks s (rr_store (reclaim_retired_lane_drafts now_iso ids hb alive dirs s))"
  unfolding reclaim_retired_lane_drafts_def by (rule reclaim_retired_keeps [of "\<lparr>rr_retired = [], rr_ids = [], rr_store = s, rr_threw = False\<rparr>", simplified])

lemma archive_walk_keeps: "keeps_tasks s (fst (archive_walk c mtime m ns s r))"
proof (induction c mtime m ns s r rule: archive_walk.induct)
  case (2 cutoff mtime month n ns s r)
  have "keeps_tasks s (q_move s ''done'' (archive_dir month) n)" by (rule move_keeps) simp
  then show ?case using 2 keeps_trans by (auto split: option.splits)
qed simp

lemma archive_done_keeps: "keeps_tasks s (fst (archive_done_tasks e now m mtime s))"
  by (simp add: archive_done_tasks_def archive_walk_keeps)

lemma archive_specific_keeps: "keeps_tasks s (fst (archive_specific m ids s a b))"
proof (induction m ids s a b rule: archive_specific.induct)
  case (2 month i ids s moved missing)
  have "keeps_tasks s (q_move s ''done'' (archive_dir month) (i @ ''.json''))" by (rule move_keeps) simp
  then show ?case using 2 keeps_trans by auto
qed simp

section \<open>What the sweeps do\<close>

text \<open>A draft that is \<open>null\<close> ends the reclaim at startup: neither it nor the drafts after it are recovered.\<close>

lemma null_draft_stops_reclaim:
  "q_get s (lane_dir i) n = Some (Doc JNull) \<Longrightarrow> reclaim_walk now_iso i (n # ns) s ids = \<lparr>rc_store = s, rc_ids = ids, rc_threw = True\<rparr>"
  by (simp add: nullish_def)

text \<open>After a reclaim that did not throw, every draft of the lane that is JSON is in \<open>pending\<close>.\<close>

lemma reclaim_frame: "q_has s ''pending'' m \<Longrightarrow> q_has (rc_store (reclaim_walk now_iso i ns s ids)) ''pending'' m"
  by (induction now_iso i ns s ids rule: reclaim_walk.induct) (auto simp: Let_def q_has_def [of _ "lane_dir _"] split: option.splits qfile.splits)

lemma q_get_other:
  "m \<noteq> n \<Longrightarrow> q_get (q_move (q_write s d n v) d d' n) e m = q_get s e m"
  by (simp add: q_get_def q_move_def q_write_def q_put_def q_del_def update_conv' delete_conv' split: option.splits)

lemma reclaim_walk_complete:
  "\<lbrakk>\<not> rc_threw (reclaim_walk now_iso i ns s ids); n \<in> set ns; distinct ns; q_get s (lane_dir i) n = Some (Doc v)\<rbrakk>
   \<Longrightarrow> q_has (rc_store (reclaim_walk now_iso i ns s ids)) ''pending'' n"
proof (induction ns arbitrary: s ids)
  case (Cons name names)
  show ?case
  proof (cases "n = name")
    case True
    have "q_has s (lane_dir i) name" using True Cons.prems(4) by (simp add: q_has_def)
    then show ?thesis
      using Cons.prems(1, 4) True by (auto intro!: reclaim_frame split: if_splits)
  next
    case False
    then have n: "n \<in> set names" "distinct names" using Cons.prems(2, 3) by auto
    show ?thesis
    proof (cases "q_get s (lane_dir i) name")
      case None
      then show ?thesis using Cons.IH [OF _ n Cons.prems(4)] Cons.prems(1) by simp
    next
      case (Some f)
      have g: "q_get (q_move (q_write s (lane_dir i) name w) (lane_dir i) ''pending'' name) (lane_dir i) n = Some (Doc v)" for w
        using False Cons.prems(4) by (simp add: q_get_other)
      show ?thesis
        using Some Cons.IH [OF _ n Cons.prems(4)] Cons.IH [OF _ n g] Cons.prems(1)
        by (cases f) (simp_all split: if_splits)
    qed
  qed
qed simp

end
