(* ===== verification/PatchFailure.thy ===== *)
theory PatchFailure
  imports JsText
begin

text \<open>
  \<open>src/patch-failure-classifier.js\<close>: why \<open>git apply\<close> rejected a patch. The diff is parsed into files and hunks, and each
  hunk's context lines are looked up in the file as it is now. The repository is an argument: what there is at a path.
  Line numbers are \<open>parseInt\<close> of digit strings and are exact here. A reference to an undeclared name is \<open>Throws\<close>.
\<close>

section \<open>Lines\<close>

text \<open>\<open>s.split('\n')\<close>\<close>

definition is_newline :: "char \<Rightarrow> bool" where
  "is_newline c \<longleftrightarrow> c = CHR 0x0A"

fun lines_of :: "string \<Rightarrow> string list" where
  "lines_of [] = [[]]"
| "lines_of (c # cs) =
     (if is_newline c then [] # lines_of cs
      else case lines_of cs of l # ls \<Rightarrow> (c # l) # ls | [] \<Rightarrow> [[c]])"

text \<open>What the dot of a regular expression matches.\<close>

definition re_dot_char :: "char \<Rightarrow> bool" where
  "re_dot_char c \<longleftrightarrow> c \<noteq> CHR 0x0A \<and> c \<noteq> CHR 0x0D"

definition after_prefix :: "string \<Rightarrow> string \<Rightarrow> string option" where
  "after_prefix p s = (if starts_with p s then Some (drop (length p) s) else None)"

section \<open>Parsing\<close>

record patch_hunk =
  hk_oldStart :: nat
  hk_oldCount :: nat
  hk_newStart :: nat
  hk_newCount :: nat
  hk_contextLines :: "string list"

record patch_file =
  pf_path :: string
  pf_hunks :: "patch_hunk list"

text \<open>The second group of \<open>(.+?) b\/(.+?)$\<close>: what follows the first \<open> b/\<close> that has something on both sides.\<close>

fun second_path :: "string \<Rightarrow> string option" where
  "second_path [] = None"
| "second_path (c # cs) =
     (case after_prefix '' b/'' cs of
        Some (d # ds) \<Rightarrow> Some (d # ds)
      | _ \<Rightarrow> second_path cs)"

definition file_header :: "string \<Rightarrow> string option" where
  "file_header line =
     (case after_prefix ''diff --git a/'' line of
        Some r \<Rightarrow> if list_all re_dot_char r then second_path r else None
      | None \<Rightarrow> None)"

text \<open>\<open>(\d+)\<close>: the next character of each pattern is no digit, so the longest run is the match.\<close>

definition take_number :: "string \<Rightarrow> (nat \<times> string) option" where
  "take_number s =
     (let ds = takeWhile is_digit s in if ds = [] then None else Some (digits_val 0 ds, dropWhile is_digit s))"

definition number_then :: "string \<Rightarrow> string \<Rightarrow> (nat \<times> string) option" where
  "number_then sep s =
     (case take_number s of
        Some (n, r) \<Rightarrow> (case after_prefix sep r of Some r' \<Rightarrow> Some (n, r') | None \<Rightarrow> None)
      | None \<Rightarrow> None)"

definition hunk_header :: "string \<Rightarrow> patch_hunk option" where
  "hunk_header line =
     (case after_prefix ''@@ -'' line of None \<Rightarrow> None | Some r0 \<Rightarrow>
      case number_then '','' r0 of None \<Rightarrow> None | Some (a, r1) \<Rightarrow>
      case number_then '' +'' r1 of None \<Rightarrow> None | Some (b, r2) \<Rightarrow>
      case number_then '','' r2 of None \<Rightarrow> None | Some (c, r3) \<Rightarrow>
      case number_then '' @@'' r3 of None \<Rightarrow> None | Some (d, _) \<Rightarrow>
        Some \<lparr>hk_oldStart = a, hk_oldCount = b, hk_newStart = c, hk_newCount = d, hk_contextLines = []\<rparr>)"

text \<open>The loop's state: the files that are complete, the current one, and whether \<open>currentHunk\<close> (the last of its hunks) is set.\<close>

record parse_state =
  ps_files :: "patch_file list"
  ps_current :: "patch_file option"
  ps_open :: bool

definition parse_start :: parse_state where
  "parse_start = \<lparr>ps_files = [], ps_current = None, ps_open = False\<rparr>"

definition finished_files :: "parse_state \<Rightarrow> patch_file list" where
  "finished_files st = ps_files st @ (case ps_current st of Some f \<Rightarrow> [f] | None \<Rightarrow> [])"

definition add_context :: "string \<Rightarrow> patch_hunk list \<Rightarrow> patch_hunk list" where
  "add_context l hs = butlast hs @ [(last hs)\<lparr>hk_contextLines := hk_contextLines (last hs) @ [l]\<rparr>]"

definition parse_line :: "parse_state \<Rightarrow> string \<Rightarrow> parse_state" where
  "parse_line st line =
     (case file_header line of
        Some p \<Rightarrow> \<lparr>ps_files = finished_files st, ps_current = Some \<lparr>pf_path = p, pf_hunks = []\<rparr>, ps_open = False\<rparr>
      | None \<Rightarrow>
          (case ps_current st of
             None \<Rightarrow> st
           | Some f \<Rightarrow>
               (case hunk_header line of
                  Some h \<Rightarrow> st\<lparr>ps_current := Some (f\<lparr>pf_hunks := pf_hunks f @ [h]\<rparr>), ps_open := True\<rparr>
                | None \<Rightarrow>
                    if starts_with '' '' line \<and> ps_open st
                    then st\<lparr>ps_current := Some (f\<lparr>pf_hunks := add_context (drop 1 line) (pf_hunks f)\<rparr>)\<rparr>
                    else st)))"

definition parse_patch_files :: "string \<Rightarrow> patch_file list" where
  "parse_patch_files raw = finished_files (foldl parse_line parse_start (lines_of raw))"

section \<open>Classifying\<close>

fun first_line_with :: "nat \<Rightarrow> string \<Rightarrow> string list \<Rightarrow> nat option" where
  "first_line_with i needle [] = None"
| "first_line_with i needle (l # ls) = (if contains needle l then Some (i + 1) else first_line_with (i + 1) needle ls)"

definition find_substring_in_text :: "string \<Rightarrow> string \<Rightarrow> nat option" where
  "find_substring_in_text needle haystack =
     (if needle = [] \<or> haystack = [] then None else first_line_with 0 needle (lines_of haystack))"

text \<open>\<open>foundAnyContext\<close> is that \<open>nearestLine\<close> is set.\<close>

definition nearer :: "nat \<Rightarrow> nat option \<Rightarrow> nat \<Rightarrow> nat option" where
  "nearer start best n =
     (case best of None \<Rightarrow> Some n
      | Some m \<Rightarrow> if \<bar>int n - int start\<bar> < \<bar>int m - int start\<bar> then Some n else Some m)"

definition nearest_line :: "string \<Rightarrow> patch_hunk \<Rightarrow> nat option" where
  "nearest_line text h =
     foldl (\<lambda>best l. case find_substring_in_text l text of Some n \<Rightarrow> nearer (hk_oldStart h) best n | None \<Rightarrow> best)
       None (hk_contextLines h)"

datatype hunk_state = HunkOk | ConflictHere | Stale "int option"

definition looks_changed :: "string \<Rightarrow> bool" where
  "looks_changed l \<longleftrightarrow> contains ''+++'' l \<or> contains ''---'' l \<or> starts_with ''+'' l \<or> starts_with ''-'' l"

definition has_nearby_changes :: "string \<Rightarrow> patch_hunk \<Rightarrow> bool" where
  "has_nearby_changes text h =
     (let ls = lines_of text; from = hk_oldStart h - 5; to = min (length ls) (hk_oldStart h + hk_oldCount h + 5)
      in list_ex looks_changed (take (to - from) (drop from ls)))"

definition hunk_verdict :: "string \<Rightarrow> patch_hunk \<Rightarrow> hunk_state" where
  "hunk_verdict text h =
     (case nearest_line text h of
        None \<Rightarrow> if hk_contextLines h = [] then HunkOk
                else if has_nearby_changes text h then ConflictHere else Stale None
      | Some n \<Rightarrow> if n \<noteq> hk_oldStart h then Stale (Some (int n - int (hk_oldStart h))) else HunkOk)"

text \<open>The loop over a file's hunks ends at the first one that is not in its place.\<close>

fun file_state :: "string \<Rightarrow> patch_hunk list \<Rightarrow> hunk_state" where
  "file_state text [] = HunkOk"
| "file_state text (h # hs) = (if hunk_verdict text h = HunkOk then file_state text hs else hunk_verdict text h)"

datatype classification = StaleContext | ConflictingEdit | MalformedHunk | MissingFile

text \<open>What is at a path: nothing, something that cannot be read as a file, or a text.\<close>

type_synonym repo_files = "string \<Rightarrow> string outcome option"

fun file_states :: "repo_files \<Rightarrow> patch_file list \<Rightarrow> (string \<times> hunk_state) list outcome" where
  "file_states repo [] = Returns []"
| "file_states repo (f # fs) =
     and_then (case repo (pf_path f) of Some r \<Rightarrow> r | None \<Rightarrow> Throws) (\<lambda>text.
       and_then (file_states repo fs) (\<lambda>ss. Returns ((pf_path f, file_state text (pf_hunks f)) # ss)))"

fun is_stale :: "hunk_state \<Rightarrow> bool" where
  "is_stale (Stale _) = True"
| "is_stale _ = False"

fun shift_text :: "hunk_state \<Rightarrow> string" where
  "shift_text (Stale (Some d)) = int_str d"
| "shift_text _ = ''?''"

text \<open>Where some file has a conflict the text of the answer names \<open>file\<close>, which is declared in the loops above only.\<close>

definition classify_patch_failure :: "repo_files \<Rightarrow> string \<Rightarrow> (classification \<times> string) outcome" where
  "classify_patch_failure repo raw =
     (let files = parse_patch_files raw
      in if files = [] then Returns (MalformedHunk, ''patch has no parseable file sections -- the diff format is corrupted'')
         else case find (\<lambda>f. repo (pf_path f) = None) files of
           Some f \<Rightarrow> Returns (MissingFile, ''patch references '' @ pf_path f @ '' which does not exist in the repo'')
         | None \<Rightarrow>
             and_then (file_states repo files) (\<lambda>ss.
               if list_ex (\<lambda>(p, s). s = ConflictHere) ss then Throws
               else case find (\<lambda>(p, s). is_stale s) ss of
                 Some (p, s) \<Rightarrow> Returns (StaleContext, ''context lines in '' @ p @ '' exist but shifted by ~'' @ shift_text s @ '' lines'')
               | None \<Rightarrow> Returns (MalformedHunk, ''unable to classify -- patch format unclear'')))"

section \<open>The diff format\<close>

text \<open>A patch as a value, and how \<open>git diff\<close> writes it. A hunk has context, added and removed lines; between the header of a
  file and its first hunk there may be other lines.\<close>

datatype body_line = Context string | Added string | Removed string

fun body_text :: "body_line \<Rightarrow> string" where
  "body_text (Context l) = '' '' @ l"
| "body_text (Added l) = ''+'' @ l"
| "body_text (Removed l) = ''-'' @ l"

fun context_of :: "body_line list \<Rightarrow> string list" where
  "context_of [] = []"
| "context_of (Context l # bs) = l # context_of bs"
| "context_of (Added _ # bs) = context_of bs"
| "context_of (Removed _ # bs) = context_of bs"

type_synonym hunk_text = "(nat \<times> nat \<times> nat \<times> nat) \<times> string \<times> body_line list"

fun hunk_lines :: "hunk_text \<Rightarrow> string list" where
  "hunk_lines ((a, b, c, d), rest, body) =
     (''@@ -'' @ nat_str a @ '','' @ nat_str b @ '' +'' @ nat_str c @ '','' @ nat_str d @ '' @@'' @ rest) # map body_text body"

fun hunk_value :: "hunk_text \<Rightarrow> patch_hunk" where
  "hunk_value ((a, b, c, d), rest, body) =
     \<lparr>hk_oldStart = a, hk_oldCount = b, hk_newStart = c, hk_newCount = d, hk_contextLines = context_of body\<rparr>"

type_synonym file_text = "string \<times> string list \<times> hunk_text list"

fun file_lines :: "file_text \<Rightarrow> string list" where
  "file_lines (p, extra, hs) = (''diff --git a/'' @ p @ '' b/'' @ p) # extra @ concat (map hunk_lines hs)"

fun file_value :: "file_text \<Rightarrow> patch_file" where
  "file_value (p, extra, hs) = \<lparr>pf_path = p, pf_hunks = map hunk_value hs\<rparr>"

definition patch_text :: "file_text list \<Rightarrow> string" where
  "patch_text fs = join [CHR 0x0A] (concat (map file_lines fs))"

definition plain_line :: "string \<Rightarrow> bool" where
  "plain_line l \<longleftrightarrow> list_all (\<lambda>c. \<not> is_newline c) l"

fun file_text_ok :: "file_text \<Rightarrow> bool" where
  "file_text_ok (p, extra, hs) \<longleftrightarrow>
     p \<noteq> [] \<and> list_all re_dot_char p \<and> \<not> contains '' b/'' p
     \<and> (\<forall>l\<in>set extra. plain_line l \<and> file_header l = None \<and> hunk_header l = None)
     \<and> (\<forall>(_, rest, body)\<in>set hs. plain_line rest \<and> (\<forall>b\<in>set body. plain_line (body_text b)))"

lemma lines_of_plain: "plain_line l \<Longrightarrow> lines_of l = [l]"
  by (induction l) (auto simp: plain_line_def)

lemma lines_of_append: "plain_line l \<Longrightarrow> lines_of (l @ CHR 0x0A # s) = l # lines_of s"
  by (induction l) (auto simp: plain_line_def is_newline_def)

lemma lines_of_join: "ls \<noteq> [] \<Longrightarrow> \<forall>l\<in>set ls. plain_line l \<Longrightarrow> lines_of (join [CHR 0x0A] ls) = ls"
proof (induction ls rule: induct_list012)
  case (2 l)
  then show ?case by (simp add: lines_of_plain)
next
  case (3 l l' ls)
  then show ?case by (simp add: lines_of_append)
qed simp

lemma after_prefix_append [simp]: "after_prefix p (p @ s) = Some s"
  by (simp add: after_prefix_def starts_with_def)

lemma take_number_nat_str: "\<lbrakk>s = [] \<or> \<not> is_digit (hd s)\<rbrakk> \<Longrightarrow> take_number (nat_str n @ s) = Some (n, s)"
proof -
  assume s: "s = [] \<or> \<not> is_digit (hd s)"
  have "takeWhile is_digit (nat_str n @ s) = nat_str n" "dropWhile is_digit (nat_str n @ s) = s"
    using nat_str_digits [of n] s by (auto simp: list_all_iff takeWhile_append dropWhile_append takeWhile_eq_all_conv dropWhile_eq_Nil_conv
        split: if_splits) (cases s; simp)+
  then show ?thesis by (simp add: take_number_def digits_val_nat_str)
qed

lemma number_then_nat_str: "sep \<noteq> [] \<Longrightarrow> \<not> is_digit (hd sep) \<Longrightarrow> number_then sep (nat_str n @ sep @ s) = Some (n, s)"
  by (simp add: number_then_def take_number_nat_str)

lemma hunk_header_text:
  "hunk_header (''@@ -'' @ nat_str a @ '','' @ nat_str b @ '' +'' @ nat_str c @ '','' @ nat_str d @ '' @@'' @ rest)
    = Some \<lparr>hk_oldStart = a, hk_oldCount = b, hk_newStart = c, hk_newCount = d, hk_contextLines = []\<rparr>"
proof -
  have 1: "number_then '','' (nat_str n @ '','' @ s) = Some (n, s)" for n s
    by (rule number_then_nat_str) (simp_all add: is_digit_def)
  have 2: "number_then '' +'' (nat_str n @ '' +'' @ s) = Some (n, s)" for n s
    by (rule number_then_nat_str) (simp_all add: is_digit_def)
  have 3: "number_then '' @@'' (nat_str n @ '' @@'' @ s) = Some (n, s)" for n s
    by (rule number_then_nat_str) (simp_all add: is_digit_def)
  show ?thesis
    by (simp only: hunk_header_def after_prefix_append option.case prod.case 1 2 3)
qed

lemma second_path_text: "\<not> contains '' b/'' p \<Longrightarrow> p \<noteq> [] \<Longrightarrow> q \<noteq> [] \<Longrightarrow> second_path (p @ '' b/'' @ q) = Some q"
proof (induction p)
  case (Cons c p)
  show ?case
  proof (cases "p = []")
    case True
    then show ?thesis using Cons.prems by (cases q) (simp_all add: after_prefix_def starts_with_def)
  next
    case False
    have "\<not> starts_with '' b/'' (p @ '' b/'' @ q)"
      using Cons.prems False by (cases p rule: list.exhaust; cases "tl p"; cases "tl (tl p)") (auto simp: starts_with_def)
    then show ?thesis using Cons False by (simp add: after_prefix_def)
  qed
qed simp

lemma file_header_text:
  "\<lbrakk>p \<noteq> []; list_all re_dot_char p; \<not> contains '' b/'' p\<rbrakk> \<Longrightarrow> file_header (''diff --git a/'' @ p @ '' b/'' @ p) = Some p"
  unfolding file_header_def after_prefix_append option.case using second_path_text [of p p] by (simp add: re_dot_char_def)

lemma header_needs_d: "l = [] \<or> hd l \<noteq> CHR ''d'' \<Longrightarrow> file_header l = None"
  by (cases l) (auto simp: file_header_def after_prefix_def starts_with_def)

lemma header_needs_at: "l = [] \<or> hd l \<noteq> CHR ''@'' \<Longrightarrow> hunk_header l = None"
  by (cases l) (auto simp: hunk_header_def after_prefix_def starts_with_def)

lemma body_no_header [simp]: "file_header (body_text b) = None" "hunk_header (body_text b) = None"
  by (cases b; simp add: header_needs_d header_needs_at)+

lemma body_context: "starts_with '' '' (body_text b) \<longleftrightarrow> (\<exists>l. b = Context l)"
  by (cases b) (simp_all add: starts_with_def)

lemma add_context_snoc [simp]: "add_context l (hs @ [h]) = hs @ [h\<lparr>hk_contextLines := hk_contextLines h @ [l]\<rparr>]"
  by (simp add: add_context_def)

lemma parse_body:
  "foldl parse_line \<lparr>ps_files = fs, ps_current = Some \<lparr>pf_path = p, pf_hunks = hs @ [h]\<rparr>, ps_open = True\<rparr> (map body_text bs)
    = \<lparr>ps_files = fs, ps_current = Some \<lparr>pf_path = p, pf_hunks = hs @ [h\<lparr>hk_contextLines := hk_contextLines h @ context_of bs\<rparr>]\<rparr>, ps_open = True\<rparr>"
  by (induction bs arbitrary: h rule: context_of.induct) (simp_all add: parse_line_def body_context header_needs_d header_needs_at starts_with_def)

lemma parse_hunk:
  assumes "plain_line rest"
  shows "foldl parse_line \<lparr>ps_files = fs, ps_current = Some \<lparr>pf_path = p, pf_hunks = hs\<rparr>, ps_open = b\<rparr> (hunk_lines ((k, l, m, n), rest, body))
    = \<lparr>ps_files = fs, ps_current = Some \<lparr>pf_path = p, pf_hunks = hs @ [hunk_value ((k, l, m, n), rest, body)]\<rparr>, ps_open = True\<rparr>"
proof -
  let ?line = "''@@ -'' @ nat_str k @ '','' @ nat_str l @ '' +'' @ nat_str m @ '','' @ nat_str n @ '' @@'' @ rest"
  have "parse_line \<lparr>ps_files = fs, ps_current = Some \<lparr>pf_path = p, pf_hunks = hs\<rparr>, ps_open = b\<rparr> ?line
    = \<lparr>ps_files = fs, ps_current = Some \<lparr>pf_path = p, pf_hunks = hs @ [hunk_value ((k, l, m, n), rest, [])]\<rparr>, ps_open = True\<rparr>"
    using header_needs_d [of ?line] hunk_header_text [of k l m n rest] by (simp add: parse_line_def)
  then show ?thesis by (simp only: hunk_lines.simps foldl.simps) (simp add: parse_body)
qed

lemma parse_hunks:
  assumes "\<forall>(_, rest, body)\<in>set hts. plain_line rest"
  shows "ps_files (foldl parse_line \<lparr>ps_files = fs, ps_current = Some \<lparr>pf_path = p, pf_hunks = hs\<rparr>, ps_open = b\<rparr> (concat (map hunk_lines hts))) = fs
    \<and> ps_current (foldl parse_line \<lparr>ps_files = fs, ps_current = Some \<lparr>pf_path = p, pf_hunks = hs\<rparr>, ps_open = b\<rparr> (concat (map hunk_lines hts)))
       = Some \<lparr>pf_path = p, pf_hunks = hs @ map hunk_value hts\<rparr>"
  using assms
proof (induction hts arbitrary: hs b)
  case (Cons ht hts)
  obtain k l m n rest body where ht: "ht = ((k, l, m, n), rest, body)" by (metis prod.exhaust)
  have "plain_line rest" using Cons.prems ht by simp
  then show ?case using Cons.IH [of "hs @ [hunk_value ht]" True] Cons.prems
    unfolding list.map concat.simps foldl_append by (simp only: ht parse_hunk) simp
qed simp

lemma parse_extra:
  "\<forall>l\<in>set extra. file_header l = None \<and> hunk_header l = None \<Longrightarrow>
   foldl parse_line \<lparr>ps_files = fs, ps_current = Some f, ps_open = False\<rparr> extra = \<lparr>ps_files = fs, ps_current = Some f, ps_open = False\<rparr>"
  by (induction extra) (auto simp: parse_line_def)

lemma parse_file:
  assumes "file_text_ok ft"
  shows "finished_files (foldl parse_line st (file_lines ft)) = finished_files st @ [file_value ft]"
proof -
  obtain p extra hs where ft: "ft = (p, extra, hs)" by (metis prod.exhaust)
  have "parse_line st (''diff --git a/'' @ p @ '' b/'' @ p) = \<lparr>ps_files = finished_files st, ps_current = Some \<lparr>pf_path = p, pf_hunks = []\<rparr>, ps_open = False\<rparr>"
    using assms ft file_header_text [of p] by (simp add: parse_line_def)
  then have "foldl parse_line st (file_lines ft)
    = foldl parse_line \<lparr>ps_files = finished_files st, ps_current = Some \<lparr>pf_path = p, pf_hunks = []\<rparr>, ps_open = False\<rparr> (concat (map hunk_lines hs))"
    unfolding ft file_lines.simps foldl.simps foldl_append using assms ft parse_extra by simp
  then show ?thesis
    using parse_hunks [of hs "finished_files st" p "[]" False] assms ft by (fastforce simp: finished_files_def)
qed

lemma parse_files:
  "\<forall>ft\<in>set fts. file_text_ok ft \<Longrightarrow>
   finished_files (foldl parse_line st (concat (map file_lines fts))) = finished_files st @ map file_value fts"
  by (induction fts arbitrary: st) (simp_all add: parse_file)

lemma nat_str_plain: "plain_line (nat_str n)"
  using nat_str_digits [of n] by (auto simp: plain_line_def is_newline_def is_digit_def list_all_iff)

lemma plain_append [simp]: "plain_line (a @ b) \<longleftrightarrow> plain_line a \<and> plain_line b"
  by (auto simp: plain_line_def)

lemma file_lines_plain: "file_text_ok ft \<Longrightarrow> \<forall>l\<in>set (file_lines ft). plain_line l"
proof (cases ft)
  case (fields p extra hs)
  assume ok: "file_text_ok ft"
  have p: "plain_line p" using ok fields by (auto simp: plain_line_def is_newline_def re_dot_char_def list_all_iff)
  have lits: "plain_line ''diff --git a/''" "plain_line '' b/''" "plain_line ''@@ -''" "plain_line '',''" "plain_line '' +''" "plain_line '' @@''"
    by (simp_all add: plain_line_def is_newline_def)
  show "\<forall>l\<in>set (file_lines ft). plain_line l"
  proof
    fix l assume "l \<in> set (file_lines ft)"
    then consider "l = ''diff --git a/'' @ p @ '' b/'' @ p" | "l \<in> set extra" | ht where "ht \<in> set hs" "l \<in> set (hunk_lines ht)"
      unfolding fields file_lines.simps set_simps set_append set_concat set_map insert_iff Un_iff UN_iff by blast
    then show "plain_line l"
    proof cases
      case 1
      then show ?thesis by (simp only: plain_append p lits)
    next
      case 2
      then show ?thesis using ok fields by simp
    next
      case 3
      obtain a b c d rest body where ht: "ht = ((a, b, c, d), rest, body)" by (metis prod.exhaust)
      have rest: "plain_line rest" and body: "\<forall>x\<in>set body. plain_line (body_text x)" using ok 3(1) fields ht by auto
      show ?thesis
      proof (cases "l \<in> set (map body_text body)")
        case True
        then show ?thesis using body by auto
      next
        case False
        then show ?thesis using 3(2) rest lits nat_str_plain unfolding ht hunk_lines.simps set_simps insert_iff
          by (simp only: plain_append simp_thms)
      qed
    qed
  qed
qed



section \<open>What is answered\<close>

lemma file_states_conv:
  "\<forall>f\<in>set fs. \<exists>t. repo (pf_path f) = Some (Returns t) \<Longrightarrow>
   \<exists>ss. file_states repo fs = Returns ss
     \<and> ss = map (\<lambda>f. (pf_path f, case repo (pf_path f) of Some (Returns t) \<Rightarrow> file_state t (pf_hunks f) | _ \<Rightarrow> HunkOk)) fs"
  by (induction fs) fastforce+

definition in_conflict :: "repo_files \<Rightarrow> patch_file \<Rightarrow> bool" where
  "in_conflict repo f \<longleftrightarrow> (\<exists>t. repo (pf_path f) = Some (Returns t) \<and> file_state t (pf_hunks f) = ConflictHere)"

text \<open>C20: The classifier never answers \<open>conflicting_edit\<close>: when every file the patch names is there and readable and one of
  them has a conflict it throws, and in every other case it answers something else.\<close>

theorem conflict_never_reported:
  assumes "\<forall>p. repo p \<noteq> Some Throws"
  shows "(\<forall>d. classify_patch_failure repo raw \<noteq> Returns (ConflictingEdit, d))
    \<and> (classify_patch_failure repo raw = Throws
        \<longleftrightarrow> (\<forall>f\<in>set (parse_patch_files raw). repo (pf_path f) \<noteq> None) \<and> (\<exists>f\<in>set (parse_patch_files raw). in_conflict repo f))"
proof (cases "parse_patch_files raw = [] \<or> (\<exists>f\<in>set (parse_patch_files raw). repo (pf_path f) = None)")
  case True
  then show ?thesis
    by (auto simp: classify_patch_failure_def Let_def find_None_all split: option.splits)
next
  case False
  define files where "files = parse_patch_files raw"
  have readable: "\<forall>f\<in>set files. \<exists>t. repo (pf_path f) = Some (Returns t)"
    using False assms unfolding files_def by (metis not_None_eq outcome.exhaust)
  obtain ss where ss: "file_states repo files = Returns ss"
    "ss = map (\<lambda>f. (pf_path f, case repo (pf_path f) of Some (Returns t) \<Rightarrow> file_state t (pf_hunks f) | _ \<Rightarrow> HunkOk)) files"
    using file_states_conv [OF readable] by blast
  have conflict: "list_ex (\<lambda>(p, s). s = ConflictHere) ss \<longleftrightarrow> (\<exists>f\<in>set files. in_conflict repo f)"
  proof -
    have "(case repo (pf_path f) of Some (Returns t) \<Rightarrow> file_state t (pf_hunks f) | _ \<Rightarrow> HunkOk) = ConflictHere \<longleftrightarrow> in_conflict repo f"
      if "f \<in> set files" for f
      using readable that by (auto simp: in_conflict_def)
    then show ?thesis by (simp add: ss(2) list_ex_iff)
  qed
  have "find (\<lambda>f. repo (pf_path f) = None) files = None" "files \<noteq> []"
    using False files_def by (auto simp: find_None_all)
  then have "classify_patch_failure repo raw =
    (if list_ex (\<lambda>(p, s). s = ConflictHere) ss then Throws
     else case find (\<lambda>(p, s). is_stale s) ss of
            Some (p, s) \<Rightarrow> Returns (StaleContext, ''context lines in '' @ p @ '' exist but shifted by ~'' @ shift_text s @ '' lines'')
          | None \<Rightarrow> Returns (MalformedHunk, ''unable to classify -- patch format unclear''))"
    using ss(1) by (simp only: classify_patch_failure_def files_def [symmetric] Let_def if_False option.case and_then.simps)
  moreover have "\<forall>f\<in>set files. repo (pf_path f) \<noteq> None" using readable by fastforce
  ultimately show ?thesis
    unfolding conflict files_def [symmetric] by (auto split: option.splits)
qed

definition CONFLICT_PATCH :: string where
  "CONFLICT_PATCH = ''diff --git a/a b/a'' @ [CHR 0x0A] @ ''@@ -1,1 +1,1 @@'' @ [CHR 0x0A] @ '' x''"

lemma conflict_patch: "parse_patch_files CONFLICT_PATCH =
   [\<lparr>pf_path = ''a'', pf_hunks = [\<lparr>hk_oldStart = 1, hk_oldCount = 1, hk_newStart = 1, hk_newCount = 1, hk_contextLines = [''x'']\<rparr>]\<rparr>]"
  by code_simp

lemma conflict_never_reported_witness:
  "classify_patch_failure (\<lambda>p. if p = ''a'' then Some (Returns ''- y'') else None) CONFLICT_PATCH = Throws"
proof -
  have r: "\<forall>p. (if p = ''a'' then Some (Returns ''- y'') else None) \<noteq> Some (Throws :: string outcome)" by simp
  show ?thesis
    using conflict_never_reported [OF r, of CONFLICT_PATCH]
    by (simp add: conflict_patch in_conflict_def hunk_verdict_def nearest_line_def find_substring_in_text_def starts_with_def is_newline_def
        has_nearby_changes_def looks_changed_def)
qed

end
