(* ===== verification/JsRegex.thy ===== *)
theory JsRegex
  imports JsText
begin

text \<open>
  Regular expressions as the program writes them, without back references and look-around: the positions at
  which a match that starts at a position can end, in the order in which a backtracking matcher tries them, so the first
  one is where the match ends (repetitions are greedy). \<open>test\<close> only asks whether there is one. The
  relation \<open>re_matches\<close> is the usual meaning of an expression, and \<open>ends\<close> computes it.
\<close>

datatype re =
    Eps
  | Sym "char \<Rightarrow> bool"
  | Seq re re
  | Alt re re
  | Star re
  | WordB
  | StartB

definition is_word :: "char \<Rightarrow> bool" where
  "is_word c \<longleftrightarrow> is_digit c \<or> c = CHR ''_'' \<or> (97 \<le> (of_char (lower_char c) :: nat) \<and> (of_char (lower_char c) :: nat) \<le> 122)"

definition word_edge :: "string \<Rightarrow> nat \<Rightarrow> bool" where
  "word_edge s i \<longleftrightarrow> (0 < i \<and> i \<le> length s \<and> is_word (s ! (i - 1))) \<noteq> (i < length s \<and> is_word (s ! i))"

text \<open>\<open>n\<close> bounds the number of rounds; a round that consumes nothing is not repeated.\<close>

fun rounds :: "nat \<Rightarrow> (nat \<Rightarrow> nat list) \<Rightarrow> nat \<Rightarrow> nat list" where
  "rounds 0 f i = [i]"
| "rounds (Suc n) f i = concat (map (rounds n f) (filter (\<lambda>j. i < j) (f i))) @ [i]"

primrec ends :: "re \<Rightarrow> string \<Rightarrow> nat \<Rightarrow> nat list" where
  "ends Eps s i = [i]"
| "ends (Sym p) s i = (if i < length s \<and> p (s ! i) then [Suc i] else [])"
| "ends (Seq a b) s i = concat (map (ends b s) (ends a s i))"
| "ends (Alt a b) s i = ends a s i @ ends b s i"
| "ends (Star a) s i = rounds (length s - i) (ends a s) i"
| "ends WordB s i = (if word_edge s i then [i] else [])"
| "ends StartB s i = (if i = 0 then [i] else [])"

definition re_test :: "re \<Rightarrow> string \<Rightarrow> bool" where
  "re_test r s = list_ex (\<lambda>i. ends r s i \<noteq> []) [0..<Suc (length s)]"

inductive re_matches :: "string \<Rightarrow> re \<Rightarrow> nat \<Rightarrow> nat \<Rightarrow> bool" for s :: string where
  eps: "re_matches s Eps i i"
| sym: "i < length s \<Longrightarrow> p (s ! i) \<Longrightarrow> re_matches s (Sym p) i (Suc i)"
| seq: "re_matches s a i j \<Longrightarrow> re_matches s b j k \<Longrightarrow> re_matches s (Seq a b) i k"
| alt1: "re_matches s a i j \<Longrightarrow> re_matches s (Alt a b) i j"
| alt2: "re_matches s b i j \<Longrightarrow> re_matches s (Alt a b) i j"
| star0: "re_matches s (Star a) i i"
| star: "re_matches s a i j \<Longrightarrow> re_matches s (Star a) j k \<Longrightarrow> re_matches s (Star a) i k"
| word_b: "word_edge s i \<Longrightarrow> re_matches s WordB i i"
| start_b: "re_matches s StartB 0 0"

inductive_cases matches_epsE: "re_matches s Eps i j"
inductive_cases matches_symE: "re_matches s (Sym p) i j"
inductive_cases matches_seqE: "re_matches s (Seq a b) i j"
inductive_cases matches_altE: "re_matches s (Alt a b) i j"
inductive_cases matches_wordE: "re_matches s WordB i j"
inductive_cases matches_startE: "re_matches s StartB i j"

lemma matches_le: "re_matches s r i j \<Longrightarrow> i \<le> length s \<Longrightarrow> i \<le> j \<and> j \<le> length s"
  by (induction rule: re_matches.induct) auto

lemma rounds_sound: "(\<And>i j. j \<in> set (f i) \<Longrightarrow> re_matches s a i j) \<Longrightarrow> k \<in> set (rounds n f i) \<Longrightarrow> re_matches s (Star a) i k"
  by (induction n f i rule: rounds.induct) (auto intro: re_matches.intros)

lemma ends_sound: "j \<in> set (ends r s i) \<Longrightarrow> re_matches s r i j"
proof (induction r arbitrary: i j)
  case (Seq a b)
  then obtain k where "k \<in> set (ends a s i)" "j \<in> set (ends b s k)" by auto
  with Seq.IH show ?case by (blast intro: re_matches.seq)
next
  case (Star r)
  then show ?case by (auto intro: rounds_sound)
qed (auto intro: re_matches.intros split: if_splits)

text \<open>A repetition leaves out the rounds that consume nothing.\<close>

lemma rounds_complete:
  assumes "\<And>i j. re_matches s a i j \<Longrightarrow> i \<le> length s \<Longrightarrow> j \<in> set (ends a s i)"
  shows "re_matches s r i k \<Longrightarrow> r = Star a \<Longrightarrow> i \<le> length s \<Longrightarrow> length s - i \<le> n \<Longrightarrow> k \<in> set (rounds n (ends a s) i)"
proof (induction arbitrary: n rule: re_matches.induct)
  case (star0 a' i)
  then show ?case by (cases n) auto
next
  case (star a' i j k)
  then have j: "j \<in> set (ends a s i)" and le: "i \<le> j" "j \<le> length s" using assms matches_le by blast+
  show ?case
  proof (cases "i = j")
    case True
    with star show ?thesis by blast
  next
    case False
    with le star.prems obtain m where n: "n = Suc m" by (cases n) auto
    with star.IH(2) [of m] star.prems le False have "k \<in> set (rounds m (ends a s) j)" by auto
    with n j False le show ?thesis by (auto intro!: bexI [of _ j])
  qed
qed auto

lemma ends_complete: "re_matches s r i j \<Longrightarrow> i \<le> length s \<Longrightarrow> j \<in> set (ends r s i)"
proof (induction r arbitrary: i j)
  case (Seq a b)
  then show ?case by (fastforce elim!: matches_seqE dest: matches_le)
next
  case (Star a)
  then show ?case using rounds_complete [of s a, OF Star.IH] by auto
qed (auto elim: matches_epsE matches_symE matches_altE matches_wordE matches_startE)

theorem ends_iff: "i \<le> length s \<Longrightarrow> j \<in> set (ends r s i) \<longleftrightarrow> re_matches s r i j"
  using ends_sound ends_complete by blast

section \<open>Notation\<close>

definition chr :: "char \<Rightarrow> re" where "chr c = Sym (\<lambda>x. x = c)"
definition chri :: "char \<Rightarrow> re" where "chri c = Sym (\<lambda>x. lower_char x = lower_char c)"

fun re_lit :: "string \<Rightarrow> re" where
  "re_lit [] = Eps"
| "re_lit (c # cs) = Seq (chr c) (re_lit cs)"

text \<open>Literals under the flag \<open>i\<close>.\<close>

fun re_liti :: "string \<Rightarrow> re" where
  "re_liti [] = Eps"
| "re_liti (c # cs) = Seq (chri c) (re_liti cs)"

definition re_plus :: "re \<Rightarrow> re" where "re_plus r = Seq r (Star r)"
definition re_opt :: "re \<Rightarrow> re" where "re_opt r = Alt r Eps"
definition re_space :: re where "re_space = Sym is_space"
definition re_nonspace :: re where "re_nonspace = Sym (\<lambda>c. \<not> is_space c)"
definition re_digit :: re where "re_digit = Sym is_digit"

fun re_any :: "re list \<Rightarrow> re" where
  "re_any [] = Sym (\<lambda>_. False)"
| "re_any [r] = r"
| "re_any (r # rs) = Alt r (re_any rs)"

fun re_all :: "re list \<Rightarrow> re" where
  "re_all [] = Eps"
| "re_all [r] = r"
| "re_all (r # rs) = Seq r (re_all rs)"

text \<open>A class repeated at least \<open>n\<close> times.\<close>

fun re_times :: "nat \<Rightarrow> re \<Rightarrow> re" where
  "re_times 0 r = Eps"
| "re_times (Suc n) r = Seq r (re_times n r)"

definition re_at_least :: "nat \<Rightarrow> re \<Rightarrow> re" where
  "re_at_least n r = Seq (re_times n r) (Star r)"

text \<open>\<open>r{0,n}\<close>\<close>

fun re_up_to :: "nat \<Rightarrow> re \<Rightarrow> re" where
  "re_up_to 0 r = Eps"
| "re_up_to (Suc n) r = re_opt (Seq r (re_up_to n r))"

text \<open>Testing an expression by its parts.\<close>

lemma re_test_iff: "re_test r s \<longleftrightarrow> (\<exists>i\<le>length s. ends r s i \<noteq> [])"
  unfolding re_test_def list_ex_iff by (metis atLeastLessThan_iff le0 less_Suc_eq_le set_upt)

lemma re_test_alt: "re_test (Alt a b) s \<longleftrightarrow> re_test a s \<or> re_test b s"
  by (auto simp: re_test_def list_ex_iff)

lemma re_test_prefix: "re_test (Seq a (Seq b r)) s \<Longrightarrow> re_test (Seq a b) s"
  by (auto simp: re_test_def list_ex_iff)

lemma re_test_second:
  assumes "re_test (Seq a b) s"
  shows "re_test b s"
proof -
  obtain i j where i: "i \<le> length s" "j \<in> set (ends a s i)" "ends b s j \<noteq> []"
    using assms unfolding re_test_iff by fastforce
  then have "j \<le> length s" using matches_le [OF ends_sound] by blast
  then show ?thesis using i(3) unfolding re_test_iff by blast
qed

text \<open>A literal under the flag \<open>i\<close> is contained, letter case aside.\<close>

lemma ends_liti: "i \<le> length s \<Longrightarrow> ends (re_liti p) s i = (if starts_with (to_lower p) (to_lower (drop i s)) then [i + length p] else [])"
proof (induction p arbitrary: i)
  case (Cons c p)
  then show ?case
    by (cases "i < length s") (auto simp: chri_def starts_with_def to_lower_def Cons_nth_drop_Suc [symmetric])
qed (simp add: starts_with_def to_lower_def)

lemma contains_drop: "contains p s \<longleftrightarrow> (\<exists>i\<le>length s. starts_with p (drop i s))"
proof (induction p s rule: contains.induct)
  case (2 p c s)
  have "(\<exists>i\<le>length (c # s). starts_with p (drop i (c # s))) \<longleftrightarrow> starts_with p (c # s) \<or> (\<exists>i\<le>length s. starts_with p (drop i s))"
    by (metis Suc_le_mono drop0 drop_Suc_Cons le0 length_Cons not0_implies_Suc)
  then show ?case using 2 by simp
qed (auto simp: starts_with_def)

lemma re_test_liti: "re_test (re_liti p) s \<longleftrightarrow> contains (to_lower p) (to_lower s)"
proof -
  have "re_test (re_liti p) s \<longleftrightarrow> (\<exists>i\<le>length s. starts_with (to_lower p) (to_lower (drop i s)))"
    unfolding re_test_iff by (intro ex_cong1 conj_cong refl) (simp add: ends_liti)
  also have "\<dots> \<longleftrightarrow> contains (to_lower p) (to_lower s)"
    unfolding contains_drop by (simp add: to_lower_def drop_map)
  finally show ?thesis .
qed

section \<open>Replacing\<close>

text \<open>\<open>s.replace(/(g)r/g, '$1' + by)\<close> from a position on: the group \<open>g\<close> is kept and what \<open>r\<close> matches is replaced. A match
  that is empty does not occur in the program and moves on by one character.\<close>

definition group_match :: "re \<Rightarrow> re \<Rightarrow> string \<Rightarrow> nat \<Rightarrow> (nat \<times> nat) option" where
  "group_match g r s i =
     (case filter (\<lambda>j. ends r s j \<noteq> []) (ends g s i) of [] \<Rightarrow> None | j # _ \<Rightarrow> Some (j, hd (ends r s j)))"

function replace_from :: "re \<Rightarrow> re \<Rightarrow> string \<Rightarrow> string \<Rightarrow> nat \<Rightarrow> string" where
  "replace_from g r b s i =
     (if length s \<le> i then []
      else case group_match g r s i of
        None \<Rightarrow> s ! i # replace_from g r b s (Suc i)
      | Some (j, k) \<Rightarrow>
          if i < k then take (j - i) (drop i s) @ b @ replace_from g r b s k
          else s ! i # replace_from g r b s (Suc i))"
  by pat_completeness auto
termination by (relation "measure (\<lambda>(g, r, b, s, i). length s - i)") auto

declare replace_from.simps [simp del]

definition replace_all :: "re \<Rightarrow> re \<Rightarrow> string \<Rightarrow> string \<Rightarrow> string" where
  "replace_all g r b s = replace_from g r b s 0"

end
