(* ===== verification/ApplyRetry.thy ===== *)
theory ApplyRetry
  imports QueueFiles PatchFailure JsRegex
begin

text \<open>
  \<open>src/apply-retry-check.js\<close>: what becomes of a task whose approved change could not be applied. An infrastructure
  failure is released or held without using up a retry, a diverged history is handed to a human, a finding that a
  re-scan shows resolved is closed, and everything else is redrafted at most twice before a human is asked. The sweep
  works on the directories of the queue; the state of the apply clone, the re-scan (\<open>premise-recheck-decision.js\<close>), the
  replay of the edits (\<open>lib/find-recheck.js\<close>) and the repository's files are arguments. What it files as debt and
  records about the model is logged. An exception while handling a file is counted and leaves the file as it is.
\<close>

definition MAX_APPLY_RETRIES :: nat where "MAX_APPLY_RETRIES = 2"
definition APPLY_TIMEOUT_MAX_RELEASES :: nat where "APPLY_TIMEOUT_MAX_RELEASES = 4"

section \<open>Kinds of failure\<close>

definition is_apply_failure :: "jv \<Rightarrow> bool" where
  "is_apply_failure task \<longleftrightarrow> jget task ''blockedStage'' = JStr ''apply''"

text \<open>\<open>String(task.blockedReason || '')\<close>\<close>

definition reason_text :: "jv \<Rightarrow> string" where
  "reason_text task = (let r = jget task ''blockedReason'' in if truthy r then to_str r else [])"

definition GIT_DIVERGED_RE :: re where
  "GIT_DIVERGED_RE = re_liti ''have diverged (each has commit(s) the other lacks) -- needs a human to reconcile''"

definition is_diverged_history_failure :: "jv \<Rightarrow> bool" where
  "is_diverged_history_failure task \<longleftrightarrow> is_apply_failure task \<and> re_test GIT_DIVERGED_RE (reason_text task)"

definition FIND_NOT_FOUND_RE :: re where
  "FIND_NOT_FOUND_RE = re_liti ''find string not found in ''"

definition is_find_string_miss :: "jv \<Rightarrow> bool" where
  "is_find_string_miss task \<longleftrightarrow> is_apply_failure task \<and> re_test FIND_NOT_FOUND_RE (reason_text task)"

definition INFRA_APPLY_RE :: re where
  "INFRA_APPLY_RE = re_any [re_liti ''apply clone is dirty'', re_liti ''local changes to the following files would be overwritten'',
     re_liti ''cannot rebase: you have unstaged changes'', re_liti ''is outside repository at'']"

definition GIT_TIMEOUT_RE :: re where
  "GIT_TIMEOUT_RE = re_any [re_liti ''spawnSync git ETIMEDOUT'',
     re_all [WordB, re_liti ''git '', re_plus (Sym (\<lambda>c. is_word c \<or> c = CHR ''-'')), re_up_to 80 (Sym (\<lambda>c. \<not> is_newline c)),
             re_liti '' timed out after '', re_plus re_digit, re_liti ''ms'']]"

text \<open>\<open>Number(v) || 0\<close>\<close>

definition number_or_zero :: "jv \<Rightarrow> jnum" where
  "number_or_zero v = num_or (to_number v) (Fin 0)"

definition is_git_timeout_failure :: "jv \<Rightarrow> bool" where
  "is_git_timeout_failure task \<longleftrightarrow> is_apply_failure task \<and> re_test GIT_TIMEOUT_RE (reason_text task)"

definition is_git_timeout_apply_failure :: "jv \<Rightarrow> bool" where
  "is_git_timeout_apply_failure task \<longleftrightarrow>
     is_git_timeout_failure task \<and> jlt (number_or_zero (jget task ''applyTimeoutReleases'')) (Fin (real APPLY_TIMEOUT_MAX_RELEASES))"

definition is_infra_apply_failure :: "jv \<Rightarrow> bool" where
  "is_infra_apply_failure task \<longleftrightarrow>
     is_apply_failure task \<and> (re_test INFRA_APPLY_RE (reason_text task) \<or> is_git_timeout_apply_failure task)"

section \<open>What the history says\<close>

text \<open>\<open>history.some((h) => h.stage === st)\<close>, which throws on an entry that is \<open>null\<close>.\<close>

fun some_stage :: "string \<Rightarrow> jv list \<Rightarrow> bool outcome" where
  "some_stage st [] = Returns False"
| "some_stage st (h # hs) =
     (if nullish h then Throws else if jget h ''stage'' = JStr st then Returns True else some_stage st hs)"

text \<open>\<open>src/lib/reject-retry-check.js\<close>: escalated, and no draft has started since the last escalation.\<close>

definition after_last :: "('a \<Rightarrow> bool) \<Rightarrow> 'a list \<Rightarrow> 'a list option" where
  "after_last P xs = (if list_ex P xs then Some (rev (takeWhile (\<lambda>x. \<not> P x) (rev xs))) else None)"

definition already_escalated_since_last_readmission :: "jv \<Rightarrow> bool" where
  "already_escalated_since_last_readmission task =
     (case after_last (\<lambda>h. jget h ''stage'' = JStr ''needs-clarification'') (elems (jget task ''history'')) of
        None \<Rightarrow> False
      | Some later \<Rightarrow> \<not> list_ex (\<lambda>h. jget h ''stage'' = JStr ''draft-started'') later)"

section \<open>The question to a human\<close>

text \<open>\<open>detail.split(' ')[3] || 'the file'\<close>\<close>

fun split_char :: "char \<Rightarrow> string \<Rightarrow> string list" where
  "split_char x [] = [[]]"
| "split_char x (c # cs) =
     (if c = x then [] # split_char x cs
      else case split_char x cs of l # ls \<Rightarrow> (c # l) # ls | [] \<Rightarrow> [[c]])"

definition named_file :: "string \<Rightarrow> string" where
  "named_file detail =
     (let ws = split_char (CHR '' '') detail in if 3 < length ws \<and> ws ! 3 \<noteq> [] then ws ! 3 else ''the file'')"

definition build_exhausted_apply_question :: "jv \<Rightarrow> string outcome" where
  "build_exhausted_apply_question task =
     (let c = jget task ''applyRetryClassification''; nl = [CHR 0x0A];
          intro_line = ''An apply failure survived 2 automatic redraft attempts: ''
            @ (if truthy (jget task ''blockedReason'') then to_str (jget task ''blockedReason'') else ''(no reason recorded)'');
          note_line = (if truthy c then ''Classification: '' @ to_str (jget c ''classification'') @ '' -- '' @ to_str (jget c ''detail'') else []);
          answer = (\<lambda>t. Returns (intro_line @ nl @ note_line @ nl @ t))
      in if is_find_string_miss task
         then answer (''The draft's edit could not be matched against the real file. Common cause: the ''
            @ ''candidate's citation is stale -- something else may have already changed or fixed ''
            @ ''that code, and a deterministic re-scan could not confirm it either way. Check the ''
            @ ''real file: if the issue is already fixed, Archive this task; if the citation is ''
            @ ''merely stale, correct it and requeue.'')
         else if jget c ''classification'' = JStr ''conflicting_edit''
         then if \<not> is_string (jget c ''detail'') then Throws
              else answer (''Another task changed the lines this patch was editing. Check which task made the conflicting change (look at recent commits to ''
                 @ named_file (str_of (jget c ''detail''))
                 @ ''), then either requeue after reconciling or Archive if the conflict is already resolved.'')
         else answer (''A fresh draft against current code kept failing to apply. Check whether another task ''
            @ ''changed the same lines, and either requeue after reconciling or Archive it.''))"

section \<open>One file\<close>

record retry_world =
  rw_approved :: bool
  rw_clarify :: bool
  rw_pipeline :: bool
  rw_cloneClean :: "string \<Rightarrow> bool"
  rw_resolved :: "jv \<Rightarrow> bool outcome"
  rw_recheck :: "jv \<Rightarrow> string option"
  rw_repo :: repo_files

datatype retry_action =
    Ignored
  | Released | Held | Resolved | Exhausted | Requeued
  | Failed

text \<open>Where a handled file goes: it stays as it is, is written in place, or is written to another directory and removed.\<close>

datatype placement = Untouched | InPlace jv | MovedTo string jv

record retry_step =
  rt_action :: retry_action
  rt_place :: placement
  rt_debt :: "string option"
  rt_outcome :: "(jv \<times> jv) option"

definition retry_step_of :: "retry_action \<Rightarrow> placement \<Rightarrow> retry_step" where
  "retry_step_of a p = \<lparr>rt_action = a, rt_place = p, rt_debt = None, rt_outcome = None\<rparr>"

definition with_debt :: "retry_world \<Rightarrow> string \<Rightarrow> retry_step \<Rightarrow> retry_step" where
  "with_debt w site st = (if rw_pipeline w then st\<lparr>rt_debt := Some site\<rparr> else st)"

definition failed_step :: retry_step where
  "failed_step = retry_step_of Failed Untouched"

definition unblocked :: "jv \<Rightarrow> jv" where
  "unblocked task = obj_del (obj_del task ''blockedReason'') ''blockedStage''"

definition infra_step :: "string \<Rightarrow> retry_world \<Rightarrow> string \<Rightarrow> jv \<Rightarrow> retry_step" where
  "infra_step now w name task =
     (if rw_approved w \<and> rw_cloneClean w name
      then let t = (if is_git_timeout_apply_failure task
                    then obj_put task ''applyTimeoutReleases'' (JNum (jadd (number_or_zero (jget task ''applyTimeoutReleases'')) (Fin 1))) else task)
           in retry_step_of Released (MovedTo ''approved'' (append_history_event now ''approved''
                (Some ''apply-retry-check: apply-clone infrastructure failure cleared -- re-applying the already-approved result, no redraft'')
                (obj_put (unblocked t) ''status'' (JStr ''approved''))))
      else retry_step_of Held (if has_stage ''infra-held'' task then Untouched
             else InPlace (append_history_event now ''infra-held''
                (Some ''apply-clone infrastructure failure -- held (no retry burned) until the apply clone is clean'') task)))"

definition timeout_step :: "string \<Rightarrow> jv \<Rightarrow> retry_step" where
  "timeout_step now task =
     retry_step_of Held (if has_stage ''git-timeout-exhausted'' task then Untouched
       else InPlace (append_history_event now ''git-timeout-exhausted''
         (Some (''Git fetch timed out after 4 automatic re-apply attempts (no redraft burned -- a timeout cannot be fixed by redrafting): '' @ reason_text task)) task))"

definition diverged_step :: "string \<Rightarrow> retry_world \<Rightarrow> jv \<Rightarrow> retry_step" where
  "diverged_step now w task =
     with_debt w ''apply-retry-check:diverged-history'' (retry_step_of Exhausted (MovedTo ''needs-clarification''
       (append_history_event now ''needs-clarification'' (Some ''escalated immediately -- diverged git history, a blind retry cannot differ'')
         (obj_put task ''needsClarification'' (JObj [(''reason'', JStr ''git-state-diverged''), (''openQuestions'', JArr
           [JStr (''Apply failed because the pipeline's own working checkout and origin/<main> have diverged (each has commits the other lacks) -- a git-state problem, not a content/draft-quality one: '' @ reason_text task),
            JStr (''A fresh redraft cannot fix this -- the SAME diverged branch will reject any diff. Reconcile the branch by hand (confirm which side''
              @ '' has the real intended history, then either fast-forward, rebase, or reset the working checkout to match), then requeue this task.'')])])))))"

definition resolved_why :: string where
  "resolved_why = ''the candidate's own code site no longer matches, and the source's deterministic scanner rules find nothing flagged at it in the current file''"

definition resolved_task :: "string \<Rightarrow> jv \<Rightarrow> jv" where
  "resolved_task now task =
     append_history_event now ''approved''
       (Some ''apply-retry-check: deterministic-apply-site-resolved -- find string not found, but the candidate site is clean in the current file'')
       (unblocked (obj_put (obj_put (obj_put (obj_put task
          ''implementResponse'' (JStr (''FALSE POSITIVE -- '' @ resolved_why))) ''reviewedAt'' (JStr now))
          ''reviewProvider'' (JStr ''deterministic-apply-site-resolved''))
          ''localVerdict'' (JStr (''Auto-approved: apply failed with '' @ [CHR 0x22] @ take 120 (reason_text task) @ [CHR 0x22]
            @ '', and a deterministic re-scan ('' @ resolved_why @ '') confirms the finding is already resolved -- verified, not a judgment call (no model call spent).''))))"

text \<open>The classification: nothing when it threw.\<close>

definition classified :: "retry_world \<Rightarrow> jv \<Rightarrow> (classification \<times> string) option" where
  "classified w task =
     (let d = jget task ''rawDiff''
      in if truthy d \<and> \<not> is_string d then None
         else case classify_patch_failure (rw_repo w) (if truthy d then str_of d else []) of Returns c \<Rightarrow> Some c | Throws \<Rightarrow> None)"

definition conflict_step :: "string \<Rightarrow> retry_world \<Rightarrow> jv \<Rightarrow> string \<Rightarrow> retry_step" where
  "conflict_step now w task detail =
     with_debt w ''apply-retry-check:conflicting-edit'' (retry_step_of Exhausted (MovedTo ''needs-clarification''
       (append_history_event now ''needs-clarification'' (Some (''escalated: conflicting edit ('' @ detail @ '')''))
         (obj_put task ''needsClarification'' (JObj [(''reason'', JStr ''conflicting-edit''), (''openQuestions'', JArr
           [JStr (''Apply failed because another task changed the lines this patch was editing: '' @ detail),
            JStr (''The patch's context lines no longer exist at the expected location. Check which task made the conflicting change (look at recent commits to ''
              @ named_file detail @ ''), then either requeue after reconciling or Archive if the conflict is already resolved.'')])])))))"

definition noted :: "(classification \<times> string) option \<Rightarrow> jv \<Rightarrow> jv" where
  "noted c task =
     (case c of
        Some (StaleContext, d) \<Rightarrow> obj_put task ''applyRetryNote'' (JStr (''stale context: '' @ d @ '' -- redraft against current code''))
      | Some (MalformedHunk, d) \<Rightarrow> obj_put task ''applyRetryNote'' (JStr (''malformed hunk: '' @ d @ '' -- regenerate the edit''))
      | _ \<Rightarrow> task)"

definition used_text :: "jnum \<Rightarrow> string" where
  "used_text n = num_str n @ ''/2 apply retries used''"

text \<open>The retries are used up; \<open>stamped\<close> is that the history says so already.\<close>

definition exhausted_step :: "string \<Rightarrow> retry_world \<Rightarrow> jv \<Rightarrow> jnum \<Rightarrow> bool \<Rightarrow> retry_step" where
  "exhausted_step now w task n stamped =
     (if rw_clarify w \<and> \<not> already_escalated_since_last_readmission task
      then case build_exhausted_apply_question task of
        Throws \<Rightarrow> failed_step
      | Returns q \<Rightarrow>
          let t1 = obj_put task ''needsClarification'' (JObj [(''reason'', JStr ''design-decision''), (''openQuestions'', JStr q)]);
              t2 = (if stamped then t1 else append_history_event now ''exhausted'' (Some (used_text n)) t1)
          in with_debt w ''apply-retry-check:retry-cap-exhausted'' (retry_step_of Exhausted (MovedTo ''needs-clarification''
               (append_history_event now ''needs-clarification'' (Some ''escalated to a human after exhausting apply retries'') t2)))
      else retry_step_of Exhausted (if stamped then Untouched
             else InPlace (append_history_event now ''exhausted'' (Some (used_text n)) task)))"

definition with_feedback :: "retry_world \<Rightarrow> jv \<Rightarrow> jv" where
  "with_feedback w task =
     (case (if is_find_string_miss task then rw_recheck w task else None) of
        None \<Rightarrow> task
      | Some feedback \<Rightarrow>
          let text = take 900 (''Last attempt's edit set could not apply: '' @ feedback); prior = elems (jget task ''priorRejectionFeedback'')
          in if JStr text \<in> set prior then task else obj_put task ''priorRejectionFeedback'' (JArr (prior @ [JStr text])))"

definition requeue_step :: "string \<Rightarrow> retry_world \<Rightarrow> jv \<Rightarrow> jnum \<Rightarrow> retry_step" where
  "requeue_step now w task n =
     (let t = with_feedback w (obj_put task ''applyRetryCount'' (JNum (jadd n (Fin 1)))); r = jget t ''blockedReason''
      in (retry_step_of Requeued (MovedTo ''pending'' (append_history_event now ''requeued'' (if truthy r then Some (to_str r) else None) t)))
           \<lparr>rt_outcome := Some (jget t ''abCallId'', if truthy r then r else JNull)\<rparr>)"

definition retry_or_ask :: "string \<Rightarrow> retry_world \<Rightarrow> jv \<Rightarrow> retry_step" where
  "retry_or_ask now w task =
     (let n = number_or_zero (jget task ''applyRetryCount'')
      in if jle (Fin (real MAX_APPLY_RETRIES)) n
         then (case some_stage ''exhausted'' (elems (jget task ''history'')) of
                 Throws \<Rightarrow> failed_step | Returns stamped \<Rightarrow> exhausted_step now w task n stamped)
         else requeue_step now w task n)"

definition classify_and_retry :: "string \<Rightarrow> retry_world \<Rightarrow> jv \<Rightarrow> retry_step" where
  "classify_and_retry now w task =
     (if is_diverged_history_failure task then retry_or_ask now w task
      else case classified w task of
        Some (ConflictingEdit, d) \<Rightarrow>
          if rw_clarify w \<and> \<not> already_escalated_since_last_readmission task then conflict_step now w task d else retry_or_ask now w task
      | c \<Rightarrow> retry_or_ask now w (noted c task))"

definition resolve_or_retry :: "string \<Rightarrow> retry_world \<Rightarrow> jv \<Rightarrow> retry_step" where
  "resolve_or_retry now w task =
     (if is_find_string_miss task \<and> rw_approved w
      then case rw_resolved w task of
        Throws \<Rightarrow> failed_step
      | Returns True \<Rightarrow> retry_step_of Resolved (MovedTo ''approved'' (resolved_task now task))
      | Returns False \<Rightarrow> classify_and_retry now w task
      else classify_and_retry now w task)"

definition retry_task :: "string \<Rightarrow> retry_world \<Rightarrow> string \<Rightarrow> jv \<Rightarrow> retry_step" where
  "retry_task now w name task =
     (if nullish task then failed_step
      else if \<not> is_apply_failure task then retry_step_of Ignored Untouched
      else if is_infra_apply_failure task then infra_step now w name task
      else if is_git_timeout_failure task then timeout_step now task
      else if is_diverged_history_failure task \<and> rw_clarify w
      then (case some_stage ''needs-clarification'' (elems (jget task ''history'')) of
              Throws \<Rightarrow> failed_step
            | Returns True \<Rightarrow> resolve_or_retry now w task
            | Returns False \<Rightarrow> diverged_step now w task)
      else resolve_or_retry now w task)"

section \<open>The sweep\<close>

record retry_summary =
  ru_checked :: nat
  ru_actions :: "retry_action list"
  ru_debts :: "(jv \<times> string) list"
  ru_outcomes :: "(jv \<times> jv) list"

definition place_file :: "string \<Rightarrow> placement \<Rightarrow> qstore \<Rightarrow> qstore" where
  "place_file name p s =
     (case p of Untouched \<Rightarrow> s | InPlace t \<Rightarrow> q_write s ''blocked'' name t
      | MovedTo d t \<Rightarrow> q_del (q_write s d name t) ''blocked'' name)"

definition option_list :: "'a option \<Rightarrow> 'a list" where
  "option_list x = (case x of Some v \<Rightarrow> [v] | None \<Rightarrow> [])"

definition retry_file :: "string \<Rightarrow> retry_world \<Rightarrow> string \<Rightarrow> qstore \<times> retry_summary \<Rightarrow> qstore \<times> retry_summary" where
  "retry_file now w name p =
     (case p of (s, u) \<Rightarrow>
       case q_get s ''blocked'' name of
         Some Blank \<Rightarrow> (s, u)
       | Some (Doc task) \<Rightarrow>
           let st = retry_task now w name task
           in (place_file name (rt_place st) s,
               u\<lparr>ru_checked := ru_checked u + 1, ru_actions := ru_actions u @ [rt_action st],
                 ru_debts := ru_debts u @ map (\<lambda>d. (jget task ''id'', d)) (option_list (rt_debt st)),
                 ru_outcomes := ru_outcomes u @ option_list (rt_outcome st)\<rparr>)
       | _ \<Rightarrow> (s, u\<lparr>ru_actions := ru_actions u @ [Failed]\<rparr>))"

definition apply_retry_check :: "string \<Rightarrow> retry_world \<Rightarrow> qstore \<Rightarrow> qstore \<times> retry_summary" where
  "apply_retry_check now w s =
     fold (retry_file now w) (q_json s ''blocked'') (s, \<lparr>ru_checked = 0, ru_actions = [], ru_debts = [], ru_outcomes = []\<rparr>)"

section \<open>No task is lost, no task is retried for ever\<close>

lemma place_file_keeps:
  assumes "q_has s ''blocked'' name" "\<forall>d t. p = MovedTo d t \<longrightarrow> d \<noteq> ''blocked''"
  shows "keeps_tasks s (place_file name p s)"
  using assms by (cases p) (auto simp: place_file_def write_keeps rewrite_keeps)

lemma rt_simps [simp]:
  "rt_place (retry_step_of a p) = p" "rt_action (retry_step_of a p) = a"
  "rt_place (with_debt w site st) = rt_place st" "rt_action (with_debt w site st) = rt_action st"
  "rt_place failed_step = Untouched" "rt_action failed_step = Failed"
  by (simp_all add: retry_step_of_def with_debt_def failed_step_def)

text \<open>The places and actions each kind of step can have.\<close>

definition step_ok :: "jv \<Rightarrow> retry_step \<Rightarrow> bool" where
  "step_ok task st \<longleftrightarrow>
     (\<forall>d t. rt_place st = MovedTo d t \<longrightarrow> d \<in> {''approved'', ''pending'', ''needs-clarification''})
     \<and> (rt_action st = Requeued \<longleftrightarrow> (\<exists>t. rt_place st = MovedTo ''pending'' t))
     \<and> (\<forall>t. rt_place st = MovedTo ''pending'' t \<longrightarrow>
          \<not> jle (Fin 2) (number_or_zero (jget task ''applyRetryCount''))
          \<and> (keyed task \<longrightarrow> jget t ''applyRetryCount'' = JNum (jadd (number_or_zero (jget task ''applyRetryCount'')) (Fin 1))))"

lemma with_feedback_frame: "keyed t \<Longrightarrow> keyed (with_feedback w t) \<and> (k \<noteq> ''priorRejectionFeedback'' \<longrightarrow> jget (with_feedback w t) k = jget t k)"
  by (auto simp: with_feedback_def Let_def jget_put split: option.splits)

lemma requeue_step_ok:
  assumes "\<not> jle (Fin 2) (number_or_zero (jget task ''applyRetryCount''))" "keyed task0 \<longrightarrow> keyed task"
    "jget task ''applyRetryCount'' = jget task0 ''applyRetryCount''"
  shows "step_ok task0 (requeue_step now w task (number_or_zero (jget task ''applyRetryCount'')))"
proof -
  let ?t = "with_feedback w (obj_put task ''applyRetryCount'' (JNum (jadd (number_or_zero (jget task ''applyRetryCount'')) (Fin 1))))"
  have p: "keyed task \<Longrightarrow> keyed ?t \<and> jget ?t ''applyRetryCount'' = JNum (jadd (number_or_zero (jget task ''applyRetryCount'')) (Fin 1))"
    using with_feedback_frame [of "obj_put task ''applyRetryCount'' (JNum (jadd (number_or_zero (jget task ''applyRetryCount'')) (Fin 1)))" w "''applyRetryCount''"]
    by (simp add: jget_put)
  show ?thesis
    using assms p by (auto simp: step_ok_def requeue_step_def Let_def append_history_frame retry_step_of_def)
qed

lemma exhausted_step_ok: "step_ok task0 (exhausted_step now w task n b)"
  by (auto simp: step_ok_def exhausted_step_def Let_def split: outcome.splits)

lemma retry_or_ask_ok:
  assumes "keyed task0 \<longrightarrow> keyed task" "jget task ''applyRetryCount'' = jget task0 ''applyRetryCount''"
  shows "step_ok task0 (retry_or_ask now w task)"
proof (cases "jle (Fin 2) (number_or_zero (jget task ''applyRetryCount''))")
  case True
  then show ?thesis
    using exhausted_step_ok [of task0]
    by (auto simp: retry_or_ask_def Let_def MAX_APPLY_RETRIES_def step_ok_def [of _ failed_step] split: outcome.splits)
next
  case False
  then show ?thesis
    using requeue_step_ok [OF False assms] by (simp add: retry_or_ask_def Let_def MAX_APPLY_RETRIES_def)
qed

lemma noted_frame: "keyed task \<Longrightarrow> keyed (noted c task)" "jget (noted c task) ''applyRetryCount'' = jget task ''applyRetryCount''"
proof -
  show "keyed task \<Longrightarrow> keyed (noted c task)"
    by (auto simp: noted_def split: option.splits classification.splits)
  show "jget (noted c task) ''applyRetryCount'' = jget task ''applyRetryCount''"
    by (auto simp: noted_def jget_put_other split: option.splits classification.splits)
qed

lemma classify_and_retry_ok: "step_ok task (classify_and_retry now w task)"
proof -
  have "step_ok task (retry_or_ask now w task)" by (rule retry_or_ask_ok) simp_all
  moreover have "step_ok task (retry_or_ask now w (noted c task))" for c
    by (rule retry_or_ask_ok) (simp_all add: noted_frame)
  moreover have "step_ok task (conflict_step now w task d)" for d
    by (simp add: step_ok_def conflict_step_def)
  ultimately show ?thesis
    by (auto simp: classify_and_retry_def split: option.splits classification.splits)
qed

lemma resolve_or_retry_ok: "step_ok task (resolve_or_retry now w task)"
  using classify_and_retry_ok [of task]
  by (auto simp: resolve_or_retry_def step_ok_def [of _ failed_step] step_ok_def [of _ "retry_step_of Resolved _"] split: outcome.splits bool.splits)

lemma retry_task_ok: "step_ok task (retry_task now w name task)"
proof -
  have "step_ok task (infra_step now w name task)" "step_ok task (timeout_step now task)" "step_ok task (diverged_step now w task)"
    by (simp_all add: step_ok_def infra_step_def timeout_step_def diverged_step_def Let_def)
  then show ?thesis
    using resolve_or_retry_ok [of task]
    by (auto simp: retry_task_def step_ok_def [of _ failed_step] step_ok_def [of _ "retry_step_of Ignored _"] split: outcome.splits bool.splits)
qed

lemma retry_file_keeps: "keeps_tasks s (fst (retry_file now w name (s, u)))"
proof (cases "\<exists>task. q_get s ''blocked'' name = Some (Doc task)")
  case True
  then obtain task where t: "q_get s ''blocked'' name = Some (Doc task)" by blast
  have "keeps_tasks s (place_file name (rt_place (retry_task now w name task)) s)"
    using retry_task_ok [of task now w name] t by (intro place_file_keeps) (auto simp: step_ok_def q_has_def)
  then show ?thesis using t by (simp add: retry_file_def Let_def)
qed (auto simp: retry_file_def split: option.splits qfile.splits)

lemma retry_files_keep: "keeps_tasks s (fst (fold (retry_file now w) ns (s, u)))"
proof (induction ns arbitrary: s u)
  case (Cons n ns)
  obtain s' u' where i: "retry_file now w n (s, u) = (s', u')" by (metis prod.exhaust)
  have "keeps_tasks s s'" using retry_file_keeps [of s now w n u] i by simp
  also have "keeps_tasks s' (fst (fold (retry_file now w) ns (s', u')))" by (rule Cons.IH)
  finally show ?case by (simp add: i)
qed simp

lemma apply_retry_keeps: "keeps_tasks s (fst (apply_retry_check now w s))"
  by (simp add: apply_retry_check_def retry_files_keep)

text \<open>A task's life in this sweep: it is requeued, redrafted, and blocked again with the count the sweep gave it. \<open>n\<close> counts
  the requeues.\<close>

inductive requeued :: "jv \<Rightarrow> nat \<Rightarrow> jv \<Rightarrow> bool" for task :: jv where
  no_retry: "requeued task 0 task"
| retry: "requeued task n a \<Longrightarrow> keyed a \<Longrightarrow> rt_place (retry_task now w name a) = MovedTo ''pending'' t
    \<Longrightarrow> jget b ''applyRetryCount'' = jget t ''applyRetryCount'' \<Longrightarrow> requeued task (Suc n) b"

lemma requeued_count:
  "requeued task n b \<Longrightarrow> number_or_zero (jget task ''applyRetryCount'') = Fin 0 \<Longrightarrow>
   number_or_zero (jget b ''applyRetryCount'') = Fin (real n) \<and> n \<le> MAX_APPLY_RETRIES"
proof (induction rule: requeued.induct)
  case (retry n a now w name t b)
  have ok: "\<not> jle (Fin 2) (number_or_zero (jget a ''applyRetryCount''))"
    "jget t ''applyRetryCount'' = JNum (jadd (number_or_zero (jget a ''applyRetryCount'')) (Fin 1))"
    using retry_task_ok [of a now w name] retry.hyps(2, 3) by (auto simp: step_ok_def)
  then show ?case
    using retry.IH retry.prems retry.hyps(4) by (auto simp: number_or_zero_def num_or_def jle_def MAX_APPLY_RETRIES_def)
qed simp


definition PLAIN_FAILURE :: jv where
  "PLAIN_FAILURE = JObj [(''blockedStage'', JStr ''apply''), (''blockedReason'', JStr ''x'')]"

definition CALM_WORLD :: retry_world where
  "CALM_WORLD = \<lparr>rw_approved = True, rw_clarify = True, rw_pipeline = True, rw_cloneClean = (\<lambda>_. False),
     rw_resolved = (\<lambda>_. Returns False), rw_recheck = (\<lambda>_. None), rw_repo = (\<lambda>_. None)\<rparr>"

lemma requeued_moves: "rt_action (retry_task now w name task) = Requeued \<Longrightarrow> \<exists>t. rt_place (retry_task now w name task) = MovedTo ''pending'' t"
  using retry_task_ok [of task now w name] by (simp add: step_ok_def)

lemma plain_failure_requeued: "rt_action (retry_task ''now'' CALM_WORLD ''x.json'' PLAIN_FAILURE) = Requeued"
  by code_simp


text \<open>A diverged history is escalated once in a task's life: after a human sent the task back, the next diverged failure is
  redrafted, although the question says that a redraft cannot help.\<close>

lemma diverged_again_redrafted:
  assumes "\<not> nullish task" "is_diverged_history_failure task" "\<not> is_infra_apply_failure task" "\<not> is_git_timeout_failure task"
    "\<not> is_find_string_miss task" "some_stage ''needs-clarification'' (elems (jget task ''history'')) = Returns True"
    "\<not> jle (Fin 2) (number_or_zero (jget task ''applyRetryCount''))"
  shows "rt_action (retry_task now w name task) = Requeued"
proof -
  have "is_apply_failure task" using assms(2) by (simp add: is_diverged_history_failure_def)
  then show ?thesis
    using assms by (simp add: retry_task_def resolve_or_retry_def classify_and_retry_def retry_or_ask_def requeue_step_def
        MAX_APPLY_RETRIES_def Let_def)
qed

text \<open>A task whose automatic re-applies are used up: it stays in \<open>blocked\<close>, whatever state the apply clone is in, and is such a
  task again in the next sweep.\<close>

definition timed_out_for_good :: "jv \<Rightarrow> bool" where
  "timed_out_for_good task \<longleftrightarrow> keyed task \<and> is_git_timeout_failure task \<and> \<not> re_test INFRA_APPLY_RE (reason_text task)
     \<and> \<not> jlt (number_or_zero (jget task ''applyTimeoutReleases'')) (Fin 4)"

lemma timed_out_frame:
  assumes "\<And>k. k \<noteq> ''history'' \<Longrightarrow> jget t k = jget task k" "keyed t"
  shows "timed_out_for_good t \<longleftrightarrow> timed_out_for_good task \<or> \<not> keyed task \<and> timed_out_for_good t"
  using assms by (auto simp: timed_out_for_good_def is_git_timeout_failure_def is_apply_failure_def reason_text_def)

lemma timed_out_stays:
  assumes "timed_out_for_good task"
  shows "rt_action (retry_task now w name task) = Held \<and>
    (case rt_place (retry_task now w name task) of Untouched \<Rightarrow> True | InPlace t \<Rightarrow> timed_out_for_good t | MovedTo d t \<Rightarrow> False)"
proof -
  have k: "keyed task" "\<not> nullish task" using assms by (auto simp: timed_out_for_good_def nullish_def)
  have a: "is_apply_failure task" "is_git_timeout_failure task" "\<not> is_infra_apply_failure task"
    using assms by (auto simp: timed_out_for_good_def is_infra_apply_failure_def is_git_timeout_failure_def
        is_git_timeout_apply_failure_def APPLY_TIMEOUT_MAX_RELEASES_def)
  have "timed_out_for_good (append_history_event now st d task)" for st d
    using timed_out_frame [of "append_history_event now st d task" task] assms k(1) by (simp add: append_history_frame)
  then show ?thesis using k a by (simp add: retry_task_def timeout_step_def)
qed

end
