(* ===== verification/TaskRecords.thy ===== *)
theory TaskRecords
  imports QueueSweeps JsSort
begin

text \<open>
  Where a task's record is (\<open>src/task-anywhere.js\<close>) and closing a task whose work a person did outside the pipeline
  (\<open>src/manual-close.js\<close>). Git is an argument: what a commit name resolves to, the default branch, and whether a commit
  is on it.
\<close>

section \<open>Finding a record\<close>

definition QUEUE_STATES :: "string list" where
  "QUEUE_STATES = [''pending'', ''review'', ''approved'', ''blocked'', ''done'', ''needs-clarification'', ''awaiting-confirm'', ''coordinating'']"

definition months_newest_first :: "qstore \<Rightarrow> string list" where
  "months_newest_first s = rev (js_sort str_cmp (q_subdirs s ''done/_archived''))"

definition search_places :: "qstore \<Rightarrow> (string \<times> string) list" where
  "search_places s =
     map (\<lambda>lane. (''drafting'', ''drafting/'' @ lane)) (q_subdirs s ''drafting'')
     @ map (\<lambda>st. (st, st)) QUEUE_STATES
     @ [(''adhoc'', ''adhoc''), (''derived'', ''derived''), (''archived'', NO_ACTION_DIR)]
     @ map (\<lambda>m. (''archived'', ''done/_archived/'' @ m)) (months_newest_first s)"

definition find_task_anywhere :: "qstore \<Rightarrow> string \<Rightarrow> (jv \<times> string) option" where
  "find_task_anywhere s i =
     (if i = [] then None
      else map_option (\<lambda>(st, d). (q_read s d (i @ ''.json''), st))
             (find (\<lambda>(st, d). truthy (q_read s d (i @ ''.json''))) (search_places s)))"

section \<open>Closing by hand\<close>

definition CLOSABLE_LIVE_STATES :: "string list" where
  "CLOSABLE_LIVE_STATES = [''blocked'', ''needs-clarification'', ''awaiting-confirm'']"

definition IN_PIPELINE_STATES :: "string list" where
  "IN_PIPELINE_STATES = [''pending'', ''drafting'', ''review'', ''approved'', ''coordinating'']"

definition ALREADY_LANDED :: "string list" where
  "ALREADY_LANDED = [''merged'', ''applied-direct'']"

text \<open>What git answers.\<close>

record git_view =
  gv_resolve :: "string \<Rightarrow> string option"
  gv_onMain :: "string \<Rightarrow> bool"

definition is_hex :: "char \<Rightarrow> bool" where
  "is_hex c \<longleftrightarrow> c \<in> set ''0123456789abcdefABCDEF''"

datatype commit_check = NoSha | NotFound | NotOnMain string | OnMain string

definition verify_commit_on_main :: "git_view \<Rightarrow> string \<Rightarrow> commit_check" where
  "verify_commit_on_main g commit =
     (if \<not> (4 \<le> length commit \<and> length commit \<le> 40 \<and> list_all is_hex commit) then NoSha
      else case gv_resolve g commit of
        None \<Rightarrow> NotFound
      | Some sha \<Rightarrow> if gv_onMain g sha then OnMain sha else NotOnMain sha)"

definition record_places :: "qstore \<Rightarrow> (string \<times> string) list" where
  "record_places s =
     [(''done'', ''done''), (''archived'', NO_ACTION_DIR)]
     @ map (\<lambda>m. (''archived'', ''done/_archived/'' @ m)) (q_subdirs s ''done/_archived'')
     @ concat (map (\<lambda>st. (st, st) # (if st = ''drafting'' then map (\<lambda>lane. (''drafting'', ''drafting/'' @ lane)) (q_subdirs s ''drafting'') else []))
         (CLOSABLE_LIVE_STATES @ IN_PIPELINE_STATES))"

definition locate_record :: "qstore \<Rightarrow> string \<Rightarrow> (string \<times> string) option" where
  "locate_record s i = find (\<lambda>(st, d). q_has s d (i @ ''.json'')) (record_places s)"

text \<open>\<open>/^(.+)-ac-(\d+)$/\<close>\<close>

definition candidate_identity :: "string \<Rightarrow> (string \<times> string) option" where
  "candidate_identity i =
     (let n = length (takeWhile is_digit (rev i)); front = take (length i - n) i; stem = take (length front - 4) front
      in if 0 < n \<and> ends_with ''-ac-'' front \<and> stem \<noteq> [] \<and> CHR 0x0A \<notin> set stem \<and> CHR 0x0D \<notin> set stem
         then Some (map (\<lambda>c. if c = CHR ''-'' then CHR ''_'' else c) stem, ''AC-'' @ drop (length i - n) i) else None)"

datatype close_result =
    NoRecord | WouldCreate | Created
  | InPipeline string | Unreadable | DestExists
  | AlreadyLanded string | AlreadyClosed string
  | WouldStamp string string | Stamped string string

definition close_ok :: "close_result \<Rightarrow> bool" where
  "close_ok r \<longleftrightarrow> r \<notin> {NoRecord, Unreadable, DestExists} \<and> (\<forall>st. r \<noteq> InPipeline st)"

text \<open>\<open>now\<close> is the clock's text.\<close>

definition close_stamp :: "string \<Rightarrow> string \<Rightarrow> string \<Rightarrow> jv" where
  "close_stamp now sha note =
     JObj [(''commit'', JStr sha), (''note'', if note = [] then JNull else JStr note), (''closedAt'', JStr now), (''closedBy'', JStr ''manual-close.js'')]"

definition close_detail :: "string \<Rightarrow> string \<Rightarrow> string" where
  "close_detail sha note =
     ''implemented outside the pipeline by commit '' @ take 10 sha @ '' (on origin/<main>)'' @ (if note = [] then [] else '' -- '' @ note)"

definition created_record :: "string \<Rightarrow> string \<Rightarrow> string \<Rightarrow> string \<Rightarrow> string \<times> string \<Rightarrow> jv" where
  "created_record now sha note i ident =
     append_history_event now ''superseded'' (Some (close_detail sha note))
       (append_history_event now ''created'' (Some ''closed record created by manual-close.js -- the candidate was never tasked'')
         (JObj [(''id'', JStr i), (''domain'', JStr ''default''), (''source'', JStr (fst ident)),
           (''title'', JStr (snd ident @ '' (implemented manually)'')),
           (''promptContext'', JStr (json_text (JObj [(''candidateId'', JStr (snd ident))]))),
           (''status'', JStr ''done''), (''createdAt'', JStr now), (''terminalDisposition'', JStr ''superseded''),
           (''manualClose'', close_stamp now sha note), (''history'', JArr [])]))"

definition stamped_record :: "string \<Rightarrow> string \<Rightarrow> string \<Rightarrow> jv \<Rightarrow> jv" where
  "stamped_record now sha note rec =
     append_history_event now ''superseded'' (Some (close_detail sha note))
       (obj_del (obj_del (obj_put (obj_put rec ''terminalDisposition'' (JStr ''superseded'')) ''manualClose'' (close_stamp now sha note))
         ''mergedAt'') ''mergedAtSource'')"

text \<open>A record that is no object makes the stamping throw.\<close>

definition close_one :: "string \<Rightarrow> string \<Rightarrow> string \<Rightarrow> bool \<Rightarrow> string \<Rightarrow> qstore \<Rightarrow> (qstore \<times> close_result) outcome" where
  "close_one now sha note dry i s =
     (let name = i @ ''.json''
      in case locate_record s i of
        None \<Rightarrow>
          (case candidate_identity i of
             None \<Rightarrow> Returns (s, NoRecord)
           | Some ident \<Rightarrow>
               if dry then Returns (s, WouldCreate)
               else Returns (q_write s NO_ACTION_DIR name (created_record now sha note i ident), Created))
      | Some (st, d) \<Rightarrow>
          if st \<in> set IN_PIPELINE_STATES then Returns (s, InPipeline st)
          else let rec = q_read s d name; disposition = jget rec ''terminalDisposition'';
                   dest = (if st \<in> set CLOSABLE_LIVE_STATES then NO_ACTION_DIR else d);
                   goes = (if dest = d then st else ''archived'')
               in if \<not> truthy rec then Returns (s, Unreadable)
                  else if disposition \<in> JStr ` set ALREADY_LANDED then Returns (s, AlreadyLanded st)
                  else if disposition = JStr ''superseded'' \<and> truthy (jget rec ''manualClose'') then Returns (s, AlreadyClosed st)
                  else if dry then Returns (s, WouldStamp st goes)
                  else if \<not> settable rec then Throws
                  else let rec' = stamped_record now sha note rec
                       in if dest = d then Returns (q_write s d name rec', Stamped st goes)
                          else if q_has s dest name then Returns (s, DestExists)
                          else Returns (q_del (q_write s dest name rec') d name, Stamped st goes))"

fun close_each :: "string \<Rightarrow> string \<Rightarrow> string \<Rightarrow> bool \<Rightarrow> string list \<Rightarrow> qstore \<Rightarrow> qstore \<times> close_result list option" where
  "close_each now sha note dry [] s = (s, Some [])"
| "close_each now sha note dry (i # ids) s =
     (case close_one now sha note dry (trim i) s of
        Throws \<Rightarrow> (s, None)
      | Returns (s', r) \<Rightarrow> (case close_each now sha note dry ids s' of (s'', rs) \<Rightarrow> (s'', map_option (\<lambda>rs. r # rs) rs)))"

datatype close_answer = Refused commit_check | NoIds | Answer bool "close_result list" | CloseThrew

definition close_as_implemented :: "git_view \<Rightarrow> string \<Rightarrow> string \<Rightarrow> string \<Rightarrow> bool \<Rightarrow> string list \<Rightarrow> qstore \<Rightarrow> qstore \<times> close_answer" where
  "close_as_implemented g now commit note dry ids s =
     (if ids = [] then (s, NoIds)
      else case verify_commit_on_main g commit of
        OnMain sha \<Rightarrow>
          (case close_each now sha note dry ids s of
             (s', None) \<Rightarrow> (s', CloseThrew)
           | (s', Some rs) \<Rightarrow> (s', Answer (list_all close_ok rs) rs))
      | bad \<Rightarrow> (s, Refused bad))"

text \<open>The arguments; \<open>out\<close> holds the ids, the note, the commit and whether it is a dry run.\<close>

fun parse_args :: "string list \<Rightarrow> string list \<times> string option \<times> string option \<times> bool \<Rightarrow> string list \<times> string option \<times> string option \<times> bool" where
  "parse_args [] out = out"
| "parse_args [a] (ids, note, commit, dry) =
     (if a = ''--commit'' then (ids, note, None, dry)
      else if a = ''--note'' then (ids, None, commit, dry)
      else if a = ''--dry-run'' then (ids, note, commit, True)
      else (ids @ [a], note, commit, dry))"
| "parse_args (a # v # as) (ids, note, commit, dry) =
     (if a = ''--commit'' then parse_args as (ids, note, Some v, dry)
      else if a = ''--note'' then parse_args as (ids, Some v, commit, dry)
      else if a = ''--dry-run'' then parse_args (v # as) (ids, note, commit, True)
      else parse_args (v # as) (ids @ [a], note, commit, dry))"

section \<open>A task is found wherever it is\<close>

definition state_of_dir :: "string \<Rightarrow> string" where
  "state_of_dir d = (if starts_with ''drafting/'' d then ''drafting'' else if starts_with ''done/_archived'' d then ''archived'' else d)"

text \<open>The directories the search knows: a lane's name and a month's contain no slash.\<close>

definition known_dir :: "string \<Rightarrow> bool" where
  "known_dir d \<longleftrightarrow> d \<in> set QUEUE_STATES \<union> {''adhoc'', ''derived'', NO_ACTION_DIR}
     \<or> (\<exists>l. CHR ''/'' \<notin> set l \<and> (d = ''drafting/'' @ l \<or> d = ''done/_archived/'' @ l))"

lemma map_filter_mem: "x \<in> set xs \<Longrightarrow> f x = Some y \<Longrightarrow> y \<in> set (List.map_filter f xs)"
  by (force simp: map_filter_def)

lemma subdir_listed:
  assumes "q_has s (b @ ''/'' @ l) n" "CHR ''/'' \<notin> set l"
  shows "l \<in> set (q_subdirs s b)"
proof -
  obtain f where f: "((b @ ''/'' @ l, n), f) \<in> set s" using assms(1) by (auto simp: q_has_key)
  have "takeWhile (\<lambda>c. c \<noteq> CHR ''/'') l = l" using assms(2) by (auto simp: takeWhile_eq_all_conv)
  then show ?thesis
    unfolding q_subdirs_def set_uniq by (intro map_filter_mem [OF f]) (simp add: starts_with_def)
qed

lemma state_of_dirs:
  "state_of_dir (''drafting/'' @ l) = ''drafting''" "state_of_dir (''done/_archived/'' @ l) = ''archived''"
  "state_of_dir ''adhoc'' = ''adhoc''" "state_of_dir ''derived'' = ''derived''" "state_of_dir NO_ACTION_DIR = ''archived''"
  by (simp_all add: state_of_dir_def starts_with_def NO_ACTION_DIR_def)

lemma state_of_queue_state: "\<forall>st\<in>set QUEUE_STATES. state_of_dir st = st"
  by (simp add: QUEUE_STATES_def state_of_dir_def starts_with_def)

text \<open>The directories that are searched, as a set.\<close>

lemma search_dirs: "set (search_places s) =
    (\<lambda>l. (''drafting'', ''drafting/'' @ l)) ` set (q_subdirs s ''drafting'') \<union> (\<lambda>st. (st, st)) ` set QUEUE_STATES
    \<union> {(''adhoc'', ''adhoc''), (''derived'', ''derived''), (''archived'', NO_ACTION_DIR)}
    \<union> (\<lambda>m. (''archived'', ''done/_archived/'' @ m)) ` set (q_subdirs s ''done/_archived'')"
  unfolding search_places_def months_newest_first_def set_append set_map set_rev set_js_sort by (simp only: list.set Un_assoc)

lemma places_state: "(st, d) \<in> set (search_places s) \<Longrightarrow> st = state_of_dir d"
  unfolding search_dirs
  by (elim UnE imageE insertE emptyE) (simp_all only: prod.inject state_of_dirs state_of_queue_state [rule_format])

lemma places_known:
  assumes "known_dir d" "q_has s d n"
  shows "(state_of_dir d, d) \<in> set (search_places s)"
  using assms(1) unfolding known_dir_def
proof (elim disjE exE conjE)
  fix l assume l: "CHR ''/'' \<notin> set l" "d = ''drafting/'' @ l"
  then have "l \<in> set (q_subdirs s ''drafting'')" using assms(2) by (intro subdir_listed) simp_all
  then show ?thesis unfolding search_dirs l(2) state_of_dirs by blast
next
  fix l assume l: "CHR ''/'' \<notin> set l" "d = ''done/_archived/'' @ l"
  then have "l \<in> set (q_subdirs s ''done/_archived'')" using assms(2) by (intro subdir_listed) simp_all
  then show ?thesis unfolding search_dirs l(2) state_of_dirs by blast
next
  assume "d \<in> set QUEUE_STATES \<union> {''adhoc'', ''derived'', NO_ACTION_DIR}"
  then show ?thesis unfolding search_dirs using state_of_dirs state_of_queue_state by force
qed

text \<open>A task is found wherever it is: when every task is in one place, the search answers the record and the state of the
  directory that holds it, be it a lane's drafts, a queue state, an inbox or an archive.\<close>

theorem task_found_anywhere:
  assumes "one_place s" "known_dir d" "q_get s d (i @ ''.json'') = Some (Doc v)" "truthy v" "i \<noteq> []"
  shows "find_task_anywhere s i = Some (v, state_of_dir d)"
proof -
  let ?n = "i @ ''.json''"
  let ?P = "\<lambda>(st, d). truthy (q_read s d ?n)"
  have has: "q_has s d ?n" and rd: "q_read s d ?n = v" using assms(3) by (simp_all add: q_has_def q_read_def)
  have "find ?P (search_places s) \<noteq> None"
    using places_known [OF assms(2) has] rd assms(4) by (auto simp: find_None_iff)
  then obtain st d' where f: "find ?P (search_places s) = Some (st, d')" by auto
  then have p: "(st, d') \<in> set (search_places s)" "truthy (q_read s d' ?n)"
    using f by (auto simp: find_Some_iff in_set_conv_nth)
  have "q_has s d' ?n" using p(2) by (auto simp: q_read_def q_has_def split: option.splits)
  then have "d' = d" using one_place_key [OF assms(1) has] by blast
  then show ?thesis using f places_state [OF p(1)] rd assms(5) by (simp add: find_task_anywhere_def)
qed

lemma task_found_anywhere_witness:
  "find_task_anywhere [((''drafting/worker-1'', ''a.json''), Doc (JObj []))] ''a'' = Some (JObj [], ''drafting'')"
proof -
  have "known_dir ''drafting/worker-1''" unfolding known_dir_def by (intro disjI2 exI [of _ "''worker-1''"]) simp
  then show ?thesis
    using task_found_anywhere [of "[((''drafting/worker-1'', ''a.json''), Doc (JObj []))]" "''drafting/worker-1''" "''a''" "JObj []"]
    by (simp add: one_place_def task_names_def q_get_def state_of_dir_def starts_with_def)
qed

section \<open>Closing settles a task\<close>

lemma record_places_front: "record_places s = (''done'', ''done'') # (''archived'', NO_ACTION_DIR) # drop 2 (record_places s)"
  by (simp add: record_places_def)

lemma locate_has: "locate_record s i = Some (st, d) \<Longrightarrow> q_has s d (i @ ''.json'') \<and> (st, d) \<in> set (record_places s)"
  by (auto simp: locate_record_def find_Some_iff in_set_conv_nth)

lemma locate_archived:
  "\<not> q_has s ''done'' (i @ ''.json'') \<Longrightarrow> q_has s NO_ACTION_DIR (i @ ''.json'') \<Longrightarrow> locate_record s i = Some (''archived'', NO_ACTION_DIR)"
  unfolding locate_record_def by (subst record_places_front) simp

lemma locate_not_done: "locate_record s i = None \<or> (\<exists>st d. locate_record s i = Some (st, d) \<and> st \<noteq> ''done'') \<Longrightarrow> \<not> q_has s ''done'' (i @ ''.json'')"
  unfolding locate_record_def by (subst (asm) (1 2) record_places_front) auto

lemma map_filter_keys: "List.map_filter (\<lambda>((d, n), f). g d) s = List.map_filter (\<lambda>(d, n). g d) (map fst s)" for s :: qstore
  by (induction s) (auto simp: List.map_filter_simps split: option.splits)

lemma q_subdirs_keys:
  assumes "map fst s = map fst s'"
  shows "q_subdirs s b = q_subdirs s' b"
  unfolding q_subdirs_def map_filter_keys assms ..

lemma locate_rewrite:
  assumes "q_has s d n"
  shows "locate_record (q_write s d n v) i = locate_record s i"
proof -
  have k: "map fst (q_write s d n v) = map fst s"
    using assms by (simp add: q_write_def q_put_def update_keys q_has_key)
  have h: "q_has (q_write s d n v) d' n' = q_has s d' n'" for d' n' using assms by auto
  show ?thesis unfolding locate_record_def record_places_def q_subdirs_keys [OF k] h ..
qed

lemma stamped_fields:
  assumes "keyed rec" "json_value rec"
  shows "jget (json_image (stamped_record now sha note rec)) ''terminalDisposition'' = JStr ''superseded''"
    and "truthy (jget (json_image (stamped_record now sha note rec)) ''manualClose'')"
    and "truthy (json_image (stamped_record now sha note rec))"
proof -
  let ?c = "obj_put (obj_put rec ''terminalDisposition'' (JStr ''superseded'')) ''manualClose'' (close_stamp now sha note)"
  let ?t = "obj_del (obj_del ?c ''mergedAt'') ''mergedAtSource''"
  have k: "keyed ?t" "json_value ?t" using assms by (simp_all add: close_stamp_def)
  have im: "json_image (stamped_record now sha note rec) = append_history_event now ''superseded'' (Some (close_detail sha note)) ?t"
    unfolding stamped_record_def by (rule json_image_id(1), rule json_value_append_history [OF k(2)]) (simp add: COLLAPSIBLE_REPEAT_STAGES_def)
  have o': "is_object ?c" "is_object (obj_del ?c ''mergedAt'')" using assms(1) keyed_object by simp_all
  have f: "jget ?t ''terminalDisposition'' = JStr ''superseded''" "jget ?t ''manualClose'' = close_stamp now sha note"
    using assms o' by (simp_all add: jget_del jget_put)
  show "jget (json_image (stamped_record now sha note rec)) ''terminalDisposition'' = JStr ''superseded''"
    "truthy (jget (json_image (stamped_record now sha note rec)) ''manualClose'')"
    unfolding im using k f by (simp_all add: append_history_frame close_stamp_def)
  have "keyed (json_image (stamped_record now sha note rec))" unfolding im using k by simp
  then show "truthy (json_image (stamped_record now sha note rec))" by (cases "json_image (stamped_record now sha note rec)") auto
qed

lemma created_fields:
  "jget (json_image (created_record now sha note i ident)) ''terminalDisposition'' = JStr ''superseded''"
  "truthy (jget (json_image (created_record now sha note i ident)) ''manualClose'')"
  "truthy (json_image (created_record now sha note i ident))"
  by (simp_all add: created_record_def append_history_event_def Let_def with_detail_def close_stamp_def close_detail_def COLLAPSIBLE_REPEAT_STAGES_def)

text \<open>What closing a settled task again answers.\<close>

definition settled :: "qstore \<Rightarrow> string \<Rightarrow> string \<Rightarrow> bool" where
  "settled s i st \<longleftrightarrow> st \<notin> set IN_PIPELINE_STATES
     \<and> (\<exists>d. locate_record s i = Some (st, d) \<and> truthy (q_read s d (i @ ''.json''))
         \<and> (let rec = q_read s d (i @ ''.json'')
            in jget rec ''terminalDisposition'' \<in> JStr ` set ALREADY_LANDED
               \<or> (jget rec ''terminalDisposition'' = JStr ''superseded'' \<and> truthy (jget rec ''manualClose''))))"

lemma settled_close: "settled s i st \<Longrightarrow>
    close_one now sha note dry i s \<in> {Returns (s, AlreadyLanded st), Returns (s, AlreadyClosed st)}"
  unfolding settled_def by (elim conjE exE) (auto simp: close_one_def Let_def)

lemma archived_settled:
  assumes "\<not> q_has s ''done'' (i @ ''.json'')" "q_get s NO_ACTION_DIR (i @ ''.json'') = Some (Doc v)"
    "jget v ''terminalDisposition'' = JStr ''superseded''" "truthy (jget v ''manualClose'')" "truthy v"
  shows "settled s i ''archived''"
proof -
  have "locate_record s i = Some (''archived'', NO_ACTION_DIR)"
    using locate_archived [OF assms(1)] assms(2) by (simp add: q_has_def)
  then show ?thesis using assms(2-5) by (simp add: settled_def q_read_def Let_def IN_PIPELINE_STATES_def)
qed

text \<open>Closing a task settles it: after a close that reports success the record is found as one that is closed or has landed,
  so the tasks that wait for it are released, and closing it again, by whatever commit, changes nothing and says so.\<close>

theorem close_settles:
  assumes "sound_store s" "close_one now sha note False i s = Returns (s', r)" "close_ok r"
  shows "\<exists>st. settled s' i st \<and> (\<forall>now' sha' note' dry. close_one now' sha' note' dry i s' \<in> {Returns (s', AlreadyLanded st), Returns (s', AlreadyClosed st)})"
proof -
  let ?n = "i @ ''.json''"
  have "\<exists>st. settled s' i st"
  proof (cases "locate_record s i")
    case None
    then obtain ident where c: "s' = q_write s NO_ACTION_DIR ?n (created_record now sha note i ident)"
      using assms(2, 3) by (auto simp: close_one_def Let_def close_ok_def split: option.splits)
    have "\<not> q_has s' ''done'' ?n" using locate_not_done None by (simp add: c NO_ACTION_DIR_def)
    moreover have "q_get s' NO_ACTION_DIR ?n = Some (Doc (json_image (created_record now sha note i ident)))" by (simp add: c q_write_def)
    ultimately show ?thesis using archived_settled created_fields by blast
  next
    case (Some p)
    obtain st d where p: "locate_record s i = Some (st, d)" using Some by (cases p) auto
    define rec where "rec = q_read s d ?n"
    define dest where "dest = (if st \<in> set CLOSABLE_LIVE_STATES then NO_ACTION_DIR else d)"
    have notp: "st \<notin> set IN_PIPELINE_STATES" and tr: "truthy rec"
      using assms(2, 3) p by (auto simp: close_one_def Let_def close_ok_def rec_def split: if_splits)
    note ok = sound_read [OF assms(1), of d ?n, folded rec_def, OF tr]
    consider
        (old) "s' = s" "jget rec ''terminalDisposition'' \<in> JStr ` set ALREADY_LANDED
            \<or> (jget rec ''terminalDisposition'' = JStr ''superseded'' \<and> truthy (jget rec ''manualClose''))"
      | (here) "dest = d" "s' = q_write s d ?n (stamped_record now sha note rec)"
      | (moved) "dest \<noteq> d" "s' = q_del (q_write s dest ?n (stamped_record now sha note rec)) d ?n"
      using assms(2, 3) p notp tr
      by (auto simp: close_one_def Let_def close_ok_def rec_def [symmetric] dest_def [symmetric] split: if_splits)
    then show ?thesis
    proof cases
      case old
      then show ?thesis using p notp tr by (auto simp: settled_def rec_def Let_def)
    next
      case here
      have "q_has s d ?n" using locate_has [OF p] by blast
      then have "locate_record s' i = Some (st, d)" using p by (simp add: here(2) locate_rewrite)
      then show ?thesis
        using notp stamped_fields ok by (intro exI [of _ st]) (simp add: settled_def here(2) Let_def)
    next
      case moved
      then have closable: "st \<in> set CLOSABLE_LIVE_STATES" "dest = NO_ACTION_DIR" by (auto simp: dest_def split: if_splits)
      then have "\<not> q_has s ''done'' ?n" using locate_not_done [of s i] p by (auto simp: CLOSABLE_LIVE_STATES_def)
      then have "\<not> q_has s' ''done'' ?n" using moved(2) closable(2) by (auto simp: NO_ACTION_DIR_def)
      moreover have "q_get s' NO_ACTION_DIR ?n = Some (Doc (json_image (stamped_record now sha note rec)))"
        using moved closable(2) by (simp add: q_write_def)
      ultimately show ?thesis using archived_settled stamped_fields ok by blast
    qed
  qed
  then show ?thesis using settled_close by blast
qed

definition WAITING :: qstore where
  "WAITING = [((''blocked'', ''a.json''), Doc (JObj []))]"

lemma close_waiting: "close_one ''now'' ''abcd'' [] False ''a'' WAITING
    = Returns (q_del (q_write WAITING NO_ACTION_DIR ''a.json'' (stamped_record ''now'' ''abcd'' [] (JObj []))) ''blocked'' ''a.json'', Stamped ''blocked'' ''archived'')"
  by (simp add: close_one_def locate_record_def record_places_def q_subdirs_def WAITING_def q_has_def q_get_def NO_ACTION_DIR_def
      CLOSABLE_LIVE_STATES_def IN_PIPELINE_STATES_def q_read_def Let_def settable_def List.map_filter_simps starts_with_def uniq_def
      ALREADY_LANDED_def)

lemma close_settles_witness:
  "\<exists>s' r. close_one ''now'' ''abcd'' [] False ''a'' WAITING = Returns (s', r) \<and> (\<exists>st. settled s' ''a'' st)"
  using close_settles [OF _ close_waiting] close_waiting by (auto simp: sound_store_def WAITING_def close_ok_def)

text \<open>Closing loses no task, and brings in none when the task has a record.\<close>

lemma close_keeps:
  assumes "close_one now sha note dry i s = Returns (s', r)" "r \<noteq> Created"
  shows "keeps_tasks s s'"
proof (cases "locate_record s i")
  case None
  then show ?thesis using assms by (auto simp: close_one_def Let_def split: option.splits if_splits)
next
  case (Some p)
  obtain st d where p: "locate_record s i = Some (st, d)" using Some by (cases p) auto
  then have has: "q_has s d (i @ ''.json'')" using locate_has by blast
  show ?thesis
    using assms p write_keeps [OF has] rewrite_keeps [OF has] by (auto simp: close_one_def Let_def split: if_splits)
qed

text \<open>A task that waits in an inbox has no record for this program: closing it writes a closed record beside the task, which is
  then in two places and still drafted.\<close>

lemma not_located:
  assumes "one_place s" "q_has s ''adhoc'' (i @ ''.json'')"
  shows "locate_record s i = None"
proof (rule ccontr)
  assume "locate_record s i \<noteq> None"
  then obtain st d where "locate_record s i = Some (st, d)" by auto
  from locate_has [OF this] have h: "q_has s d (i @ ''.json'')" "(st, d) \<in> set (record_places s)" by blast+
  have "d = ''adhoc''" using one_place_key [OF assms h(1)] .
  then show False using h(2)
    by (auto simp: record_places_def NO_ACTION_DIR_def CLOSABLE_LIVE_STATES_def IN_PIPELINE_STATES_def)
qed

lemma close_duplicates_inbox:
  assumes "one_place s" "q_has s ''adhoc'' (i @ ''.json'')" "candidate_identity i = Some ident"
  shows "\<exists>s'. close_one now sha note False i s = Returns (s', Created) \<and> q_has s' ''adhoc'' (i @ ''.json'') \<and> \<not> one_place s'"
proof -
  let ?s = "q_write s NO_ACTION_DIR (i @ ''.json'') (created_record now sha note i ident)"
  have "close_one now sha note False i s = Returns (?s, Created)"
    using not_located [OF assms(1, 2)] assms(3) by (simp add: close_one_def Let_def)
  moreover have h: "q_has ?s ''adhoc'' (i @ ''.json'')" "q_has ?s NO_ACTION_DIR (i @ ''.json'')" using assms(2) by simp_all
  moreover have "\<not> one_place ?s" using one_place_key [OF _ h] by (auto simp: NO_ACTION_DIR_def)
  ultimately show ?thesis by blast
qed

end
