(* ===== verification/BlockedTasks.thy ===== *)
theory BlockedTasks
  imports JsRegex
begin

text \<open>
  \<open>src/blocked-task-classifiers.js\<close>: why a task is blocked, whose fault it is and whether a blind redraft can help.
  The classifiers are tried in order and the first that applies decides. A verdict that is not retryable comes with the
  question a person is asked. A task is arbitrary JSON; a block reason that is neither a string nor falsy makes the
  keyword classifiers throw.
\<close>

section \<open>What the classifiers look at\<close>

definition reason_of :: "jv \<Rightarrow> string" where
  "reason_of task = (if truthy (jget task ''blockedReason'') then to_str (jget task ''blockedReason'') else [])"

definition text_of :: "jv \<Rightarrow> string" where
  "text_of v = (if truthy v then to_str v else [])"

definition ZERO_HITS :: re where
  "ZERO_HITS = re_all [WordB, re_lit ''0'', re_plus re_space, re_any [re_lit ''hit'', re_lit ''result''], re_lit ''(s)'']"

text \<open>A \<open>null\<close> in the history makes the search throw when it is reached.\<close>

fun zero_hit_search :: "jv list \<Rightarrow> bool outcome" where
  "zero_hit_search [] = Returns False"
| "zero_hit_search (h # hs) =
     (if nullish h then Throws
      else if jget h ''stage'' = JStr ''harness-search'' \<and> re_test ZERO_HITS (text_of (jget h ''detail'')) then Returns True
      else zero_hit_search hs)"

definition has_zero_hit_harness_search :: "jv \<Rightarrow> bool outcome" where
  "has_zero_hit_harness_search task = zero_hit_search (elems (jget task ''history''))"

definition bad_anchor :: "jv \<Rightarrow> bool" where
  "bad_anchor f \<longleftrightarrow> truthy f \<and> \<not> truthy (jget f ''context'') \<and> jget f ''anchorConfidence'' = JStr ''none''"

definition fetched_files :: "jv \<Rightarrow> jv list" where
  "fetched_files task = elems (jget (jget task ''promptContext'') ''fetchedFiles'')"

definition has_unreliable_grounding :: "jv \<Rightarrow> bool" where
  "has_unreliable_grounding task = list_ex bad_anchor (fetched_files task)"

definition has_invalid_premise :: "jv \<Rightarrow> bool" where
  "has_invalid_premise task = re_test (Seq StartB (re_liti ''invalid premise:'')) (trim (reason_of task))"

definition has_policy_change_escalation :: "jv \<Rightarrow> bool" where
  "has_policy_change_escalation task = re_test (Seq StartB (re_liti ''policy change:'')) (trim (reason_of task))"

definition has_fabricated_file_path :: "jv \<Rightarrow> bool" where
  "has_fabricated_file_path task =
     re_test (re_all [StartB, re_liti ''ungrounded draft:'', Star re_space, re_liti ''fabricated file path'']) (trim (reason_of task))"

definition has_fabricated_symbol_citation :: "jv \<Rightarrow> bool" where
  "has_fabricated_symbol_citation task =
     re_test (re_all [StartB, re_liti ''ungrounded draft:'', Star re_space, re_liti ''fabricated symbol citation'']) (trim (reason_of task))"

definition has_no_context_files :: "jv \<Rightarrow> bool" where
  "has_no_context_files task =
     re_test (re_all [StartB, re_liti ''deterministic gate: '', re_plus re_nonspace, re_liti '' was given no source files'']) (trim (reason_of task))"

section \<open>Infrastructure errors\<close>

text \<open>The character class \<open>[ -_]\<close> is the range from the space to the underscore, under the flag \<open>i\<close>.\<close>

definition space_to_underscore :: re where
  "space_to_underscore = Sym (\<lambda>c. let u = (of_char c :: nat); v = (if 97 \<le> u \<and> u \<le> 122 then u - 32 else u) in 32 \<le> v \<and> v \<le> 95)"

definition INFRA_BLOCKED_REASON_PATTERNS :: "re list" where
  "INFRA_BLOCKED_REASON_PATTERNS =
     [re_any [re_lit ''ECONNRESET'', re_lit ''ECONNREFUSED'', re_lit ''ETIMEDOUT'', re_lit ''EAI_AGAIN'', re_lit ''ENOTFOUND'', re_lit ''EPIPE''],
      re_any
        [re_all
           [re_any
              [re_all [re_liti ''HTTP/'', re_plus (Sym (\<lambda>c. is_digit c \<or> c = CHR ''.'')), re_plus re_space],
               re_all [re_liti ''HTTP'', re_plus re_space],
               re_all [re_liti ''status'', re_plus re_space, re_opt (re_all [re_liti ''code'', re_plus re_space])],
               re_all [re_liti ''status'', Star re_space, re_liti '':'', Star re_space]],
            re_digit, re_digit, re_digit],
         re_all [re_liti ''Service'', re_plus re_space, re_liti ''Unavailable''],
         re_all [re_liti ''Bad'', re_plus re_space, re_liti ''Gateway''],
         re_all [re_liti ''Gateway'', re_plus re_space, re_liti ''Timeout'']],
      re_all [re_liti ''pool'', re_opt space_to_underscore, re_liti ''exhaust'']]"

definition is_infra_error :: "jv \<Rightarrow> bool" where
  "is_infra_error task =
     (let r = jget task ''blockedReason''
      in if \<not> (is_object task \<or> is_array task) then False
         else if jget task ''category'' = JStr ''infra-error'' then True
         else if jget task ''infraErrorBefore'' = JBool True then True
         else if is_string (jget task ''infraErrorNote'') \<and> str_of (jget task ''infraErrorNote'') \<noteq> [] then True
         else is_string r \<and> (contains ''apparent infra outage'' (str_of r) \<or> list_ex (\<lambda>p. re_test p (str_of r)) INFRA_BLOCKED_REASON_PATTERNS))"

section \<open>Questions\<close>

text \<open>\<open>s.replace(/^prefix\s*/i, '')\<close>\<close>

definition cut_prefix :: "string \<Rightarrow> string \<Rightarrow> string" where
  "cut_prefix p s = (if starts_with (to_lower p) (to_lower s) then dropWhile is_space (drop (length p) s) else s)"

definition newline :: string where "newline = [CHR 0x0A]"

definition build_unreliable_grounding_question :: "jv \<Rightarrow> string" where
  "build_unreliable_grounding_question task =
     (let bad = filter truthy (map (\<lambda>f. jget f ''path'') (filter bad_anchor (fetched_files task)));
          names = join '', '' (map to_str bad)
      in join newline
        [''The grounding-fetch could not find a reliable anchor for this candidate's cited code in ''
         @ (if names = [] then ''its target file'' else names) @ '' -- every draft attempt sees the same ''
         @ ''unstructured, low-confidence file slice (a blind requeue cannot fix this; the anchor ''
         @ ''search is deterministic against unchanged file content), so this was escalated after ''
         @ ''ONE rejection instead of burning further identical retries.'',
         [],
         ''Likely causes: the candidate's own citation of the target code is stale or wrong (check ''
         @ ''whether the described code still exists, possibly already fixed by a sibling task), ''
         @ ''or the anchor-matching heuristic missed a real match that does exist. If the ''
         @ ''underlying issue is already resolved, Archive this task. If the citation is wrong but ''
         @ ''the issue is real, re-file the candidate with an accurate code citation.''])"

definition build_invalid_premise_question :: "jv \<Rightarrow> string" where
  "build_invalid_premise_question task =
     join newline
       [''This candidate's own Problem statement makes a claim about agent-manager's current ''
        @ ''code that a deterministic/model check found does not hold up: ''
        @ [CHR 0x22] @ cut_prefix ''invalid premise:'' (reason_of task) @ [CHR 0x22] @ ''.'',
        [],
        ''A blind redraft cannot fix this -- the false premise is in the candidate itself, not ''
        @ ''in how it was implemented. Check whether the premise was ever true (a prerequisite ''
        @ ''that was simply never built, or already superseded by a sibling task) and either ''
        @ ''Archive this candidate or re-file it with an accurate premise.'']"

definition build_policy_change_question :: "jv \<Rightarrow> string" where
  "build_policy_change_question task =
     (let brief = str_of (jget (jget task ''policyChange'') ''brief'')
      in if brief \<noteq> [] then brief
         else cut_prefix ''policy change:'' (reason_of task) @ newline @ newline
              @ ''This draft changes how the pipeline itself behaves and no replay can settle it: ship it as drafted, ''
              @ ''ship it with constraints (say which), or Archive the task.'')"

definition build_fabricated_file_path_question :: "jv \<Rightarrow> string" where
  "build_fabricated_file_path_question task =
     join newline
       [''This candidate's implement pass cited destination file path(s) that do not exist in the ''
        @ ''target repo: '' @ trim (cut_prefix ''ungrounded draft:'' (reason_of task)),
        [],
        ''A blind redraft cannot fix this -- the plan proposes different search terms each attempt ''
        @ ''but the model keeps inventing the Files: line. Either the underlying finding maps to a ''
        @ ''real file the search simply missed (re-file the candidate with the accurate path), or ''
        @ ''there is genuinely no applicable site in the target repo (Archive this task).'']"

definition build_no_context_files_question :: "jv \<Rightarrow> string" where
  "build_no_context_files_question task =
     join newline
       [''This task was drafted with no source files in its context: '' @ cut_prefix ''deterministic gate:'' (reason_of task),
        [],
        ''A blind requeue cannot fix this -- it re-sends the same stored (empty) context. Check whether the ''
        @ ''graph/community names files that no longer exist or cannot be read (rebuild the graph), or ''
        @ ''regenerate the task so its context is rebuilt from the current generator, then requeue.'']"

definition build_fabricated_symbol_citation_question :: "jv \<Rightarrow> string" where
  "build_fabricated_symbol_citation_question task =
     join newline
       [''This candidate's implement pass cited a symbol name that does not appear anywhere in ''
        @ ''the file(s) it named: '' @ trim (cut_prefix ''ungrounded draft:'' (reason_of task)),
        [],
        ''A blind redraft cannot fix this -- the cited file is unchanged each attempt, so the ''
        @ ''model keeps re-citing the same non-existent name. Either the finding is about a ''
        @ ''differently-named real symbol (re-file the candidate with the accurate citation), or ''
        @ ''there is genuinely no applicable site (Archive this task).'']"

section \<open>The classifiers\<close>

datatype fault_side = ModelFault | EnvironmentFault | DesignFault | HarnessFault

record blocked_verdict =
  vd_category :: string
  vd_faultSide :: fault_side
  vd_retryable :: bool

record classifier =
  cf_name :: string
  cf_classify :: "jv \<Rightarrow> blocked_verdict option outcome"
  cf_buildQuestion :: "(jv \<Rightarrow> string) option"

definition REASON_CATEGORIES :: "(string \<times> string list) list" where
  "REASON_CATEGORIES =
     [(''fabricated-ungrounded-claim'', [''fabricat'', ''hallucinat'', ''unverified claim'', ''ungrounded'']),
      (''refusal-no-changes-needed'', [''no-changes-needed'', ''refus'']),
      (''empty-degenerate-draft'', [''empty'', ''degenerate'', ''no actual implementation'', ''no implementation'', ''no code'']),
      (''truncated-draft'', [''truncat'']),
      (''inconclusive-review'', [''inconclusive'']),
      (''json-parse-failure'', [''invalid json'', ''unexpected end of json'', ''unexpected token'', ''false positive''])]"

text \<open>\<open>(reason || '').toLowerCase()\<close>\<close>

definition lower_reason :: "jv \<Rightarrow> string outcome" where
  "lower_reason r = (if \<not> truthy r then Returns [] else if is_string r then Returns (to_lower (str_of r)) else Throws)"

definition names_keyword :: "string list \<Rightarrow> string \<Rightarrow> bool" where
  "names_keyword ws s = list_ex (\<lambda>w. contains w s) ws"

definition categorize_blocked_reason :: "jv \<Rightarrow> string option outcome" where
  "categorize_blocked_reason r =
     and_then (lower_reason r) (\<lambda>s. Returns (map_option fst (find (\<lambda>(key, ws). names_keyword ws s) REASON_CATEGORIES)))"

definition rule :: "string \<Rightarrow> (jv \<Rightarrow> bool) \<Rightarrow> fault_side \<Rightarrow> bool \<Rightarrow> (jv \<Rightarrow> string) option \<Rightarrow> classifier" where
  "rule name applies side retry ask =
     \<lparr>cf_name = name,
      cf_classify = (\<lambda>t. Returns (if applies t then Some \<lparr>vd_category = name, vd_faultSide = side, vd_retryable = retry\<rparr> else None)),
      cf_buildQuestion = ask\<rparr>"

definition keyword_rule :: "string \<times> string list \<Rightarrow> classifier" where
  "keyword_rule kw =
     \<lparr>cf_name = fst kw,
      cf_classify = (\<lambda>t. and_then (lower_reason (jget t ''blockedReason''))
        (\<lambda>s. Returns (if names_keyword (snd kw) s then Some \<lparr>vd_category = fst kw, vd_faultSide = ModelFault, vd_retryable = True\<rparr> else None))),
      cf_buildQuestion = None\<rparr>"

text \<open>The flag of an inconclusive review has the category of the keyword classifier of the same kind.\<close>

definition inconclusive_flag :: classifier where
  "inconclusive_flag =
     \<lparr>cf_name = ''inconclusive-review-flag'',
      cf_classify = (\<lambda>t. Returns (if jget t ''reviewInconclusive'' = JBool True
        then Some \<lparr>vd_category = ''inconclusive-review'', vd_faultSide = ModelFault, vd_retryable = True\<rparr> else None)),
      cf_buildQuestion = None\<rparr>"

definition zero_results_rule :: classifier where
  "zero_results_rule =
     \<lparr>cf_name = ''harness-search-zero-results'',
      cf_classify = (\<lambda>t. and_then (has_zero_hit_harness_search t) (\<lambda>hit. Returns (if hit
        then Some \<lparr>vd_category = ''harness-search-zero-results'', vd_faultSide = HarnessFault, vd_retryable = True\<rparr> else None))),
      cf_buildQuestion = None\<rparr>"

definition SPECIAL_CLASSIFIERS :: "classifier list" where
  "SPECIAL_CLASSIFIERS =
     [inconclusive_flag,
      rule ''external-dependency'' (\<lambda>t. jget (jget t ''needsClarification'') ''reason'' = JStr ''external-dependency'') EnvironmentFault False None,
      rule ''policy-change'' has_policy_change_escalation DesignFault False (Some build_policy_change_question),
      rule ''unreliable-grounding'' has_unreliable_grounding HarnessFault False (Some build_unreliable_grounding_question),
      rule ''invalid-premise'' has_invalid_premise EnvironmentFault False (Some build_invalid_premise_question),
      rule ''fabricated-file-path'' has_fabricated_file_path ModelFault False (Some build_fabricated_file_path_question),
      rule ''fabricated-symbol-citation'' has_fabricated_symbol_citation ModelFault False (Some build_fabricated_symbol_citation_question),
      rule ''no-context-files'' has_no_context_files HarnessFault False (Some build_no_context_files_question),
      zero_results_rule]"

definition CLASSIFIERS :: "classifier list" where
  "CLASSIFIERS = SPECIAL_CLASSIFIERS @ map keyword_rule REASON_CATEGORIES"

fun first_verdict :: "classifier list \<Rightarrow> jv \<Rightarrow> (blocked_verdict \<times> string option) outcome" where
  "first_verdict [] task = Returns (\<lparr>vd_category = ''uncategorized'', vd_faultSide = ModelFault, vd_retryable = True\<rparr>, None)"
| "first_verdict (c # cs) task =
     and_then (cf_classify c task) (\<lambda>r. case r of Some v \<Rightarrow> Returns (v, Some (cf_name c)) | None \<Rightarrow> first_verdict cs task)"

text \<open>A task that is \<open>null\<close> or missing makes the second classifier throw.\<close>

definition classify_blocked_task :: "jv \<Rightarrow> (blocked_verdict \<times> string option) outcome" where
  "classify_blocked_task task = (if nullish task then Throws else first_verdict CLASSIFIERS task)"

definition signature_for_task :: "jv \<Rightarrow> string option outcome" where
  "signature_for_task task =
     and_then (classify_blocked_task task) (\<lambda>(v, name).
       Returns (if name = None \<or> vd_category v = ''uncategorized'' then None
                else Some ((if truthy (jget task ''source'') then to_str (jget task ''source'') else ''unknown'') @ ''::'' @ vd_category v)))"

definition find_classifier :: "string \<Rightarrow> classifier option" where
  "find_classifier name = find (\<lambda>c. cf_name c = name) CLASSIFIERS"

section \<open>Properties\<close>

lemma first_verdict_from: "first_verdict cs task = Returns (v, n) \<Longrightarrow>
   (n = None \<and> vd_retryable v) \<or> (\<exists>c\<in>set cs. n = Some (cf_name c) \<and> cf_classify c task = Returns (Some v))"
proof (induction cs)
  case Nil
  then show ?case by auto
next
  case (Cons c cs)
  then show ?case by (cases "cf_classify c task") (auto split: option.splits)
qed

lemma distinct_find: "distinct (map f xs) \<Longrightarrow> x \<in> set xs \<Longrightarrow> find (\<lambda>y. f y = f x) xs = Some x"
  by (induction xs) (auto simp: image_iff)

lemma classifier_names: "distinct (map cf_name CLASSIFIERS)"
  by (simp add: CLASSIFIERS_def SPECIAL_CLASSIFIERS_def REASON_CATEGORIES_def inconclusive_flag_def rule_def zero_results_rule_def keyword_rule_def)

lemma join_nonempty: "x \<noteq> [] \<Longrightarrow> join sep (x # xs) \<noteq> []"
  by (cases xs) simp_all

lemma questions_nonempty:
  "build_unreliable_grounding_question task \<noteq> []" "build_invalid_premise_question task \<noteq> []" "build_policy_change_question task \<noteq> []"
  "build_fabricated_file_path_question task \<noteq> []" "build_no_context_files_question task \<noteq> []"
  "build_fabricated_symbol_citation_question task \<noteq> []"
  by (simp_all add: build_unreliable_grounding_question_def build_invalid_premise_question_def build_policy_change_question_def
    build_fabricated_file_path_question_def build_no_context_files_question_def build_fabricated_symbol_citation_question_def Let_def join_nonempty)

text \<open>A blocked task that must not be redrafted blindly is never left without a question: either the classifier that
  decided builds one that is not empty, or the task already carries the clarification of an external dependency.\<close>

theorem not_retryable_asks:
  assumes "classify_blocked_task task = Returns (v, n)" and "\<not> vd_retryable v"
  shows "\<exists>name c. n = Some name \<and> find_classifier name = Some c
    \<and> (case cf_buildQuestion c of Some q \<Rightarrow> q task \<noteq> []
       | None \<Rightarrow> jget (jget task ''needsClarification'') ''reason'' = JStr ''external-dependency'')"
proof -
  have "first_verdict CLASSIFIERS task = Returns (v, n)" using assms(1) by (simp add: classify_blocked_task_def split: if_splits)
  from first_verdict_from [OF this] assms(2) obtain c where c: "c \<in> set CLASSIFIERS" "n = Some (cf_name c)" "cf_classify c task = Returns (Some v)"
    by blast
  have "find_classifier (cf_name c) = Some c" unfolding find_classifier_def by (rule distinct_find [OF classifier_names c(1)])
  moreover have "c \<in> set SPECIAL_CLASSIFIERS"
  proof (rule ccontr)
    assume "c \<notin> set SPECIAL_CLASSIFIERS"
    with c(1) obtain kw where "c = keyword_rule kw" by (auto simp: CLASSIFIERS_def)
    with c(3) assms(2) show False by (cases "lower_reason (jget task ''blockedReason'')") (auto simp: keyword_rule_def split: if_splits)
  qed
  then have "case cf_buildQuestion c of Some q \<Rightarrow> q task \<noteq> []
       | None \<Rightarrow> jget (jget task ''needsClarification'') ''reason'' = JStr ''external-dependency''"
    using c(3) assms(2) questions_nonempty [of task]
    by (cases "has_zero_hit_harness_search task")
      (auto simp: SPECIAL_CLASSIFIERS_def inconclusive_flag_def rule_def zero_results_rule_def split: if_splits)
  ultimately show ?thesis using c(2) by blast
qed

lemma not_retryable_asks_witness:
  "\<exists>c. find_classifier ''unreliable-grounding'' = Some c
     \<and> (case cf_buildQuestion c of Some q \<Rightarrow> q (JObj [(''promptContext'', JObj [(''fetchedFiles'', JArr [JObj [(''anchorConfidence'', JStr ''none'')]])])]) \<noteq> []
        | None \<Rightarrow> False)"
proof -
  let ?t = "JObj [(''promptContext'', JObj [(''fetchedFiles'', JArr [JObj [(''anchorConfidence'', JStr ''none'')]])])]"
  have "\<not> has_policy_change_escalation ?t"
    by (simp add: has_policy_change_escalation_def reason_of_def trim_def re_test_def chri_def)
  moreover have "has_unreliable_grounding ?t" by (simp add: has_unreliable_grounding_def fetched_files_def bad_anchor_def)
  ultimately have "classify_blocked_task ?t =
      Returns (\<lparr>vd_category = ''unreliable-grounding'', vd_faultSide = HarnessFault, vd_retryable = False\<rparr>, Some ''unreliable-grounding'')"
    by (simp add: classify_blocked_task_def nullish_def CLASSIFIERS_def SPECIAL_CLASSIFIERS_def inconclusive_flag_def rule_def)
  from not_retryable_asks [OF this] show ?thesis by (auto split: option.splits)
qed

lemma keyword_rules_verdict:
  assumes "kws \<noteq> []"
  shows "first_verdict (map keyword_rule kws) task =
   and_then (lower_reason (jget task ''blockedReason'')) (\<lambda>s. Returns (case find (\<lambda>(key, ws). names_keyword ws s) kws of
     Some kw \<Rightarrow> (\<lparr>vd_category = fst kw, vd_faultSide = ModelFault, vd_retryable = True\<rparr>, Some (fst kw))
   | None \<Rightarrow> (\<lparr>vd_category = ''uncategorized'', vd_faultSide = ModelFault, vd_retryable = True\<rparr>, None)))"
proof (cases "lower_reason (jget task ''blockedReason'')")
  case (Returns s)
  then show ?thesis by (induction kws) (auto simp: keyword_rule_def)
next
  case Throws
  with assms show ?thesis by (cases kws) (simp_all add: keyword_rule_def)
qed

lemma no_special: "\<forall>c\<in>set cs. cf_classify c task = Returns None \<Longrightarrow> first_verdict (cs @ ds) task = first_verdict ds task"
  by (induction cs) auto

text \<open>Where no structural classifier applies, the verdict on a blocked task is the category its block reason has on its
  own (none when it has none), it is retryable, and both throw together.\<close>

theorem keyword_verdict_agrees:
  assumes "\<not> nullish task" and "\<forall>c\<in>set SPECIAL_CLASSIFIERS. cf_classify c task = Returns None"
  shows "and_then (classify_blocked_task task) (\<lambda>(v, n). Returns (n, vd_retryable v))
    = and_then (categorize_blocked_reason (jget task ''blockedReason'')) (\<lambda>k. Returns (k, True))"
proof -
  have "classify_blocked_task task = first_verdict (map keyword_rule REASON_CATEGORIES) task"
    using assms(1) unfolding classify_blocked_task_def CLASSIFIERS_def no_special [OF assms(2)] by simp
  also have "\<dots> = and_then (lower_reason (jget task ''blockedReason'')) (\<lambda>s. Returns (case find (\<lambda>(key, ws). names_keyword ws s) REASON_CATEGORIES of
     Some kw \<Rightarrow> (\<lparr>vd_category = fst kw, vd_faultSide = ModelFault, vd_retryable = True\<rparr>, Some (fst kw))
   | None \<Rightarrow> (\<lparr>vd_category = ''uncategorized'', vd_faultSide = ModelFault, vd_retryable = True\<rparr>, None)))"
    by (rule keyword_rules_verdict) (simp add: REASON_CATEGORIES_def)
  finally show ?thesis
    by (cases "lower_reason (jget task ''blockedReason'')") (simp_all add: categorize_blocked_reason_def split: option.splits)
qed

lemma empty_test: "re_test r [] \<longleftrightarrow> ends r [] 0 \<noteq> []"
  by (simp add: re_test_def)

lemma empty_lit: "ends (re_liti (c # cs)) [] 0 = []"
  by (simp add: chri_def)

lemma no_reason_silent: "\<not> has_policy_change_escalation (JObj [])" "\<not> has_invalid_premise (JObj [])"
  "\<not> has_fabricated_file_path (JObj [])" "\<not> has_fabricated_symbol_citation (JObj [])" "\<not> has_no_context_files (JObj [])"
  by (simp_all add: has_policy_change_escalation_def has_invalid_premise_def has_fabricated_file_path_def
    has_fabricated_symbol_citation_def has_no_context_files_def reason_of_def trim_def empty_test empty_lit del: re_liti.simps)

lemma keyword_verdict_agrees_witness:
  "and_then (classify_blocked_task (JObj [])) (\<lambda>(v, n). Returns (n, vd_retryable v)) = Returns (None, True)"
proof -
  have "\<forall>c\<in>set SPECIAL_CLASSIFIERS. cf_classify c (JObj []) = Returns None"
    by (simp add: SPECIAL_CLASSIFIERS_def inconclusive_flag_def rule_def zero_results_rule_def no_reason_silent
      has_unreliable_grounding_def fetched_files_def has_zero_hit_harness_search_def)
  moreover have "categorize_blocked_reason (jget (JObj []) ''blockedReason'') = Returns None"
    by (simp add: categorize_blocked_reason_def lower_reason_def REASON_CATEGORIES_def names_keyword_def)
  ultimately show ?thesis using keyword_verdict_agrees [of "JObj []"] by (simp add: nullish_def)
qed

text \<open>The pattern for server errors takes any status of three digits.\<close>

lemma infra_not_found: "is_infra_error (JObj [(''blockedReason'', JStr ''HTTP 404'')])"
proof -
  have "re_test (INFRA_BLOCKED_REASON_PATTERNS ! 1) ''HTTP 404''"
    by code_simp
  then show ?thesis by (simp add: is_infra_error_def Let_def INFRA_BLOCKED_REASON_PATTERNS_def)
qed

end
