(* ===== verification/Forensics.thy ===== *)
theory Forensics
  imports BlockedTasks JsDate JsSort JsObject
begin

text \<open>
  Patterns among the tasks that got stuck: \<open>src/pipeline-self-audit.js\<close> clusters the blocked tasks by their failure
  signature and writes the audit task, \<open>src/pipeline-forensics.js\<close> does the same for tasks that wait for a human and
  finds the source that costs most and delivers least. The coverage (what was reported before) is an object read
  from disk.
\<close>

section \<open>Clusters\<close>

text \<open>A \<open>Map\<close> from a key to the list of its values, in order of insertion.\<close>

fun file_under :: "'k \<Rightarrow> 'v \<Rightarrow> ('k \<times> 'v list) list \<Rightarrow> ('k \<times> 'v list) list" where
  "file_under k v [] = [(k, [v])]"
| "file_under k v ((k', vs) # gs) = (if k' = k then (k', vs @ [v]) # gs else (k', vs) # file_under k v gs)"

type_synonym clusters = "(string \<times> jv list) list"

fun by_signature :: "(jv \<Rightarrow> string option outcome) \<Rightarrow> jv list \<Rightarrow> clusters \<Rightarrow> clusters outcome" where
  "by_signature sig [] acc = Returns acc"
| "by_signature sig (t # ts) acc =
     and_then (sig t) (\<lambda>s. by_signature sig ts (case s of Some k \<Rightarrow> file_under k t acc | None \<Rightarrow> acc))"

definition by_cluster_size :: "string \<times> jv list \<Rightarrow> string \<times> jv list \<Rightarrow> jnum" where
  "by_cluster_size a b = jsub (Fin (real (length (snd b)))) (Fin (real (length (snd a))))"

definition clusters_of :: "(jv \<Rightarrow> string option outcome) \<Rightarrow> nat \<Rightarrow> (string \<Rightarrow> bool) \<Rightarrow> jv list \<Rightarrow> clusters outcome" where
  "clusters_of sig threshold covered tasks =
     and_then (by_signature sig tasks []) (\<lambda>gs. Returns (js_sort by_cluster_size
       (filter (\<lambda>(s, ts). threshold \<le> length ts \<and> \<not> covered s) gs)))"

section \<open>The self-audit\<close>

definition CLUSTER_THRESHOLD :: nat where "CLUSTER_THRESHOLD = 5"
definition MAX_EXAMPLES :: nat where "MAX_EXAMPLES = 5"
definition MAX_REASON_CHARS :: nat where "MAX_REASON_CHARS = 220"
definition MAX_DEBRIEF_ACTIONS :: nat where "MAX_DEBRIEF_ACTIONS = 3"

definition find_audit_clusters :: "jv list \<Rightarrow> jv \<Rightarrow> clusters outcome" where
  "find_audit_clusters blocked coverage =
     and_then (clusters_of signature_for_task CLUSTER_THRESHOLD (\<lambda>s. truthy (jget coverage s)) blocked)
       (\<lambda>gs. Returns (take MAX_DEBRIEF_ACTIONS gs))"

text \<open>A signature at its last \<open>::\<close>.\<close>

fun cut_last :: "string \<Rightarrow> (string \<times> string) option" where
  "cut_last [] = None"
| "cut_last (c # cs) =
     (case cut_last cs of
        Some (a, b) \<Rightarrow> Some (c # a, b)
      | None \<Rightarrow> if starts_with ''::'' (c # cs) then Some ([], tl cs) else None)"

definition source_and_category :: "string \<Rightarrow> string \<times> string" where
  "source_and_category s = (case cut_last s of Some p \<Rightarrow> p | None \<Rightarrow> (butlast s, tl s))"

definition example_line :: "jv \<Rightarrow> string outcome" where
  "example_line t =
     (let r = jget t ''blockedReason''
      in if nullish t \<or> (truthy r \<and> \<not> is_string r) then Throws
         else Returns (''- '' @ to_str (jget t ''id'') @ '': ''
           @ take MAX_REASON_CHARS (if truthy r then str_of r else ''(no blockedReason recorded)'')))"

fun all_of :: "'a outcome list \<Rightarrow> 'a list outcome" where
  "all_of [] = Returns []"
| "all_of (x # xs) = and_then x (\<lambda>v. and_then (all_of xs) (\<lambda>vs. Returns (v # vs)))"

definition fault_side_note :: "fault_side \<Rightarrow> string" where
  "fault_side_note side =
     (case side of
        HarnessFault \<Rightarrow> ''Classified as: harness-side (a tool/fetch/scaffolding bug, not a bad model attempt).''
      | EnvironmentFault \<Rightarrow> ''Classified as: environment-side (an external resource/dependency this sandbox cannot provide).''
      | ModelFault \<Rightarrow> ''Classified as: model-side (the draft itself is wrong -- targeted feedback may fix it on redraft).''
      | _ \<Rightarrow> [])"

definition AUDIT_EXPLANATION :: string where
  "AUDIT_EXPLANATION = ''This many tasks failing identically usually means the root cause is in this ''
     @ ''pipeline's OWN code (a harness/fetch bug, a prompt gap, a broken tool) rather ''
     @ ''than every one of these tasks independently being a bad idea -- the precedent for ''
     @ ''this exact shape of bug is grep-codebase-tool.js, found 2026-08-19: it silently ''
     @ ''returned zero search results for 92% of arch_import tasks (only JS/TS file ''
     @ ''extensions were searched, and multi-word queries never exact-matched a line of ''
     @ ''real code), which every one of those blocked tasks correctly reported as '' @ [CHR 0x22] @ ''no ''
     @ ''grounding available'' @ [CHR 0x22] @ '' -- the individual drafts were not wrong, the tool feeding ''
     @ ''them was.''"

definition quoted :: "string \<Rightarrow> string" where
  "quoted s = [CHR 0x22] @ s @ [CHR 0x22]"

definition build_audit_raw_text :: "string \<times> jv list \<Rightarrow> string outcome" where
  "build_audit_raw_text cl =
     (case cl of (sig, ts) \<Rightarrow> case source_and_category sig of (source, category) \<Rightarrow>
       and_then (all_of (map example_line (take MAX_EXAMPLES ts))) (\<lambda>examples.
       and_then (if ts = [] then Throws else classify_blocked_task (ts ! 0)) (\<lambda>(v, _).
         if list_ex nullish ts then Throws
         else let remainder = length ts - length examples;
                  note = (if list_ex (\<lambda>t. jget t ''reviewInconclusive'' = JBool True) ts
                          then ''gate-inconclusive (stochastic re-roll, not a genuine reviewer rejection)'' else fault_side_note (vd_faultSide v))
              in Returns (join newline (filter (\<lambda>l. l \<noteq> [])
                   ([''A deterministic scan of this pipeline's own queue/blocked/ found '' @ nat_str (length ts) @ '' tasks (source='' @ quoted source
                       @ '') all failing the SAME way: '' @ category @ ''.'', note, [], ''Example blocked tasks (id: blockedReason, truncated):'']
                    @ examples
                    @ [if 0 < remainder then ''...and '' @ nat_str remainder @ '' more with the same signature.'' else [], [], AUDIT_EXPLANATION, []]))))))"

definition build_audit_task :: "nat \<Rightarrow> string \<times> jv list \<Rightarrow> jv \<Rightarrow> jv outcome" where
  "build_audit_task now cl domain_name =
     (case source_and_category (fst cl) of (source, category) \<Rightarrow>
       and_then (build_audit_raw_text cl) (\<lambda>text. Returns (JObj
         [(''id'', JStr (''pipeline-self-audit-'' @ source @ ''-'' @ category @ ''-'' @ nat_str now)),
          (''domain'', domain_name),
          (''source'', JStr ''pipeline_self_audit''),
          (''title'', JStr (''Pipeline self-audit: '' @ nat_str (length (snd cl)) @ '' '' @ quoted source @ '' tasks blocked the same way ('' @ category @ '')'')),
          (''promptContext'', JObj [(''evidenceText'', JStr text), (''signature'', JStr (fst cl)), (''taskCount'', JNum (Fin (real (length (snd cl)))))])])))"

section \<open>Tasks that wait for a human\<close>

definition CLARIFICATION_CLUSTER_THRESHOLD :: nat where "CLARIFICATION_CLUSTER_THRESHOLD = 3"

definition source_name_of :: "jv \<Rightarrow> string" where
  "source_name_of task = (if truthy (jget task ''source'') then to_str (jget task ''source'') else ''unknown'')"

text \<open>The search stops at the first entry it accepts and throws on a \<open>null\<close> before it.\<close>

fun find_terminal :: "jv list \<Rightarrow> jv outcome" where
  "find_terminal [] = Returns JUndef"
| "find_terminal (h # hs) =
     (if nullish h then Throws
      else if jget h ''stage'' = JStr ''needs-clarification'' \<or> jget h ''stage'' = JStr ''exhausted'' then Returns h
      else find_terminal hs)"

fun first_category :: "jv list \<Rightarrow> string option outcome" where
  "first_category [] = Returns None"
| "first_category (v # vs) =
     and_then (categorize_blocked_reason v) (\<lambda>c. case c of Some k \<Rightarrow> Returns (Some k) | None \<Rightarrow> first_category vs)"

definition haystacks :: "jv \<Rightarrow> jv \<Rightarrow> jv list" where
  "haystacks task terminal =
     (let nc = jget task ''needsClarification''; r = jget nc ''reason''
      in filter truthy [jget task ''blockedReason'', if truthy r \<and> r \<noteq> JStr ''design-decision'' then r else JNull,
           jget nc ''openQuestions'', if truthy terminal then jget terminal ''detail'' else terminal])"

definition NO_RESOLUTION_RE :: re where
  "NO_RESOLUTION_RE = re_all [re_lit ''no resolution'', re_up_to 3 (Sym (\<lambda>c. c \<noteq> CHR 0x0A \<and> c \<noteq> CHR 0x0D)), re_lit ''line'']"

definition category_of_text :: "string \<Rightarrow> string option" where
  "category_of_text s =
     (if contains ''decompose'' s \<and> list_ex (\<lambda>w. contains w s) [''malformed'', ''did not follow'', ''json''] then Some ''botched-decompose''
      else if list_ex (\<lambda>w. contains w s) [''turn budget'', ''made zero edits'', ''without making any edits'', ''out of turns''] then Some ''turn-budget-exhausted''
      else if contains ''did not end with a resolution'' s \<or> contains ''cannot determine outcome'' s \<or> re_test NO_RESOLUTION_RE s then Some ''no-resolution-line''
      else None)"

definition signature_for_clarification_task :: "jv \<Rightarrow> string option outcome" where
  "signature_for_clarification_task task =
     (if nullish task then Throws
      else let signed = (\<lambda>c. source_name_of task @ ''::'' @ c)
      in and_then (has_zero_hit_harness_search task) (\<lambda>zero.
         if zero then Returns (Some (signed ''harness-search-zero-results''))
         else and_then (find_terminal (rev (elems (jget task ''history'')))) (\<lambda>terminal.
           let hs = haystacks task terminal
           in and_then (first_category hs) (\<lambda>c. Returns (map_option signed (case c of
                Some k \<Rightarrow> Some k
              | None \<Rightarrow> case category_of_text (to_lower (join '' '' (map to_str hs))) of
                  Some k \<Rightarrow> Some k
                | None \<Rightarrow> if jget task ''turnBudgetExhausted'' = JBool True then Some ''turn-budget-exhausted''
                          else if jget task ''retryableDraftBlock'' = JBool True then Some ''retryable-draft-block'' else None))))))"

definition coverage_entry_active :: "jv \<Rightarrow> jnum \<Rightarrow> bool" where
  "coverage_entry_active e now \<longleftrightarrow>
     truthy e \<and> \<not> (truthy (jget e ''eligibleAgainAt'') \<and> jle (date_parse (jget e ''eligibleAgainAt'')) now)"

definition find_clarification_clusters :: "jv list \<Rightarrow> jv \<Rightarrow> jnum \<Rightarrow> clusters outcome" where
  "find_clarification_clusters tasks coverage now =
     clusters_of signature_for_clarification_task CLARIFICATION_CLUSTER_THRESHOLD (\<lambda>s. coverage_entry_active (jget coverage s) now) tasks"

section \<open>The source that is not worth its cost\<close>

definition VALUE_MIN_TASKS :: nat where "VALUE_MIN_TASKS = 5"
definition VALUE_COST_FLOOR_USD :: real where "VALUE_COST_FLOOR_USD = 3"
definition VALUE_BENEFIT_RATIO_MAX :: real where "VALUE_BENEFIT_RATIO_MAX = 15 / 100"
definition VALUE_SHIPPED_MAX :: nat where "VALUE_SHIPPED_MAX = 1"

record source_value =
  sv_source :: jv
  sv_total :: nat
  sv_benefit :: nat
  sv_shipped :: nat

definition value_source :: "jv \<Rightarrow> jv" where
  "value_source t = (if truthy (jget t ''source'') then jget t ''source'' else JStr ''unknown'')"

text \<open>\<open>merged\<close> tells whether an id is among the merged ones.\<close>

definition count_task :: "(jv \<Rightarrow> bool) \<Rightarrow> jv \<Rightarrow> source_value \<Rightarrow> source_value" where
  "count_task merged t v =
     v\<lparr>sv_total := sv_total v + 1,
       sv_benefit := sv_benefit v + (if jget t ''classification'' = JStr ''benefit'' \<and> jget t ''queueState'' = JStr ''done'' then 1 else 0),
       sv_shipped := sv_shipped v + (if merged (jget t ''id'') then 1 else 0)\<rparr>"

fun source_tally :: "(jv \<Rightarrow> bool) \<Rightarrow> jv \<Rightarrow> source_value list \<Rightarrow> source_value list" where
  "source_tally merged t [] = [count_task merged t \<lparr>sv_source = value_source t, sv_total = 0, sv_benefit = 0, sv_shipped = 0\<rparr>]"
| "source_tally merged t (v # vs) = (if same_value (sv_source v) (value_source t) then count_task merged t v # vs else v # source_tally merged t vs)"

definition by_source :: "(jv \<Rightarrow> bool) \<Rightarrow> jv list \<Rightarrow> source_value list" where
  "by_source merged tasks = fold (source_tally merged) tasks []"

text \<open>\<open>new Map(entries)\<close>: the last entry of a key counts. A cost that is missing or no number is zero.\<close>

definition cost_of :: "jv list \<Rightarrow> jv \<Rightarrow> jv" where
  "cost_of acct source =
     (case find (\<lambda>e. same_value (jget e ''source'') source) (rev acct) of
        Some e \<Rightarrow> if truthy (jget e ''costUsd'') then jget e ''costUsd'' else JNum (Fin 0)
      | None \<Rightarrow> JNum (Fin 0))"

definition benefit_ratio :: "source_value \<Rightarrow> real" where
  "benefit_ratio v = (if sv_total v = 0 then 0 else real (sv_benefit v) / real (sv_total v))"

definition low_value :: "jv list \<Rightarrow> jv \<Rightarrow> jnum \<Rightarrow> source_value \<Rightarrow> bool" where
  "low_value acct coverage now v \<longleftrightarrow>
     VALUE_MIN_TASKS \<le> sv_total v
     \<and> \<not> coverage_entry_active (jget coverage (''value::'' @ to_str (sv_source v))) now
     \<and> jle (Fin VALUE_COST_FLOOR_USD) (to_number (cost_of acct (sv_source v)))
     \<and> benefit_ratio v < VALUE_BENEFIT_RATIO_MAX \<and> sv_shipped v \<le> VALUE_SHIPPED_MAX"

definition by_cost :: "jv list \<Rightarrow> source_value \<Rightarrow> source_value \<Rightarrow> jnum" where
  "by_cost acct a b = jsub (to_number (cost_of acct (sv_source b))) (to_number (cost_of acct (sv_source a)))"

definition find_low_value_source :: "jv list \<Rightarrow> (jv \<Rightarrow> bool) \<Rightarrow> jv list \<Rightarrow> jv \<Rightarrow> jnum \<Rightarrow> source_value option outcome" where
  "find_low_value_source tasks merged acct coverage now =
     (if list_ex nullish tasks \<or> list_ex nullish acct then Throws
      else Returns (case js_sort (by_cost acct) (filter (low_value acct coverage now) (by_source merged tasks)) of
             [] \<Rightarrow> None | v # _ \<Rightarrow> Some v))"

section \<open>Clusters are the tasks with the signature\<close>

lemma map_of_file_under: "map_of (file_under k v gs) k' =
    (if k' = k then Some ((case map_of gs k of Some vs \<Rightarrow> vs | None \<Rightarrow> []) @ [v]) else map_of gs k')"
  by (induction k v gs rule: file_under.induct) auto

lemma keys_file_under: "fst ` set (file_under k v gs) = insert k (fst ` set gs)"
  by (induction k v gs rule: file_under.induct) auto

lemma distinct_file_under: "distinct (map fst gs) \<Longrightarrow> distinct (map fst (file_under k v gs))"
proof (induction k v gs rule: file_under.induct)
  case (2 k v k' vs gs)
  then show ?case using keys_file_under [of k v gs] by auto
qed simp

text \<open>The signature a task has, when it has one.\<close>

definition has_signature :: "(jv \<Rightarrow> string option outcome) \<Rightarrow> string \<Rightarrow> jv \<Rightarrow> bool" where
  "has_signature sig k t \<longleftrightarrow> sig t = Returns (Some k)"

lemma by_signature_groups:
  "by_signature sig ts acc = Returns gs \<Longrightarrow> distinct (map fst acc) \<Longrightarrow>
   distinct (map fst gs)
   \<and> (\<forall>k. (case map_of gs k of Some vs \<Rightarrow> vs | None \<Rightarrow> []) = (case map_of acc k of Some vs \<Rightarrow> vs | None \<Rightarrow> []) @ filter (has_signature sig k) ts)"
proof (induction ts arbitrary: acc)
  case (Cons t ts)
  then obtain s where s: "sig t = Returns s" by (cases "sig t") auto
  show ?case
  proof (cases s)
    case None
    then show ?thesis using Cons s by (simp add: has_signature_def)
  next
    case (Some k)
    have r: "by_signature sig ts (file_under k t acc) = Returns gs" using Cons.prems(1) s Some by simp
    show ?thesis
      using Cons.IH [OF r distinct_file_under [OF Cons.prems(2)]] s Some
      by (auto simp: map_of_file_under has_signature_def)
  qed
qed simp

lemma by_signature_nonempty:
  "by_signature sig ts acc = Returns gs \<Longrightarrow> \<forall>(k, vs)\<in>set acc. vs \<noteq> [] \<Longrightarrow> \<forall>(k, vs)\<in>set gs. vs \<noteq> []"
proof (induction ts arbitrary: acc)
  case (Cons t ts)
  have "\<forall>(k, vs)\<in>set (file_under k t acc). vs \<noteq> []" for k
    using Cons.prems(2) by (induction k t acc rule: file_under.induct) auto
  then show ?case using Cons by (cases "sig t") (auto split: option.splits)
qed simp

interpretation by_cluster_size: comparator by_cluster_size "\<lambda>_. True" "\<lambda>g. - int (length (snd g))"
  by unfold_locales (simp add: by_cluster_size_def)

lemma clusters_of_exact:
  assumes "clusters_of sig n covered tasks = Returns gs"
  shows "set gs = {(k, ts). ts = filter (has_signature sig k) tasks \<and> ts \<noteq> [] \<and> n \<le> length ts \<and> \<not> covered k}"
    and "distinct (map fst gs)" and "sorted_wrt (\<lambda>a b. length (snd b) \<le> length (snd a)) gs"
proof -
  obtain all where all: "by_signature sig tasks [] = Returns all" "gs = js_sort by_cluster_size (filter (\<lambda>(s, ts). n \<le> length ts \<and> \<not> covered s) all)"
    using assms unfolding clusters_of_def by (cases "by_signature sig tasks []") auto
  note g = by_signature_groups [OF all(1), simplified] by_signature_nonempty [OF all(1), simplified]
  have "(k, ts) \<in> set all \<longleftrightarrow> ts = filter (has_signature sig k) tasks \<and> ts \<noteq> []" for k ts
  proof
    assume "(k, ts) \<in> set all"
    then have "map_of all k = Some ts" using g(1) by (simp add: map_of_eq_Some_iff)
    then show "ts = filter (has_signature sig k) tasks \<and> ts \<noteq> []"
      using g \<open>(k, ts) \<in> set all\<close> by (metis (mono_tags, lifting) case_prodD option.case(2))
  next
    assume a: "ts = filter (has_signature sig k) tasks \<and> ts \<noteq> []"
    then have "(case map_of all k of Some vs \<Rightarrow> vs | None \<Rightarrow> []) = ts" using g(1) by simp
    then have "map_of all k = Some ts" using a by (cases "map_of all k") auto
    then show "(k, ts) \<in> set all" by (rule map_of_SomeD)
  qed
  then show "set gs = {(k, ts). ts = filter (has_signature sig k) tasks \<and> ts \<noteq> [] \<and> n \<le> length ts \<and> \<not> covered k}"
    unfolding all(2) set_js_sort set_filter by auto
  show "distinct (map fst gs)"
    using g(1) unfolding all(2) distinct_map_js_sort by (simp add: distinct_map_filter)
  have "sorted (map (\<lambda>g. - int (length (snd g))) gs)"
    unfolding all(2) by (rule by_cluster_size.sorted_js_sort) simp
  then show "sorted_wrt (\<lambda>a b. length (snd b) \<le> length (snd a)) gs"
    by (simp add: sorted_map)
qed

text \<open>The self-audit reports exactly the patterns it should: each cluster holds all the blocked tasks with its signature, at
  least five, and the signature is not covered yet; a signature with five tasks that is left out, not being covered, comes after
  three clusters that are reported and are at least as large.\<close>

theorem audit_clusters_exact:
  assumes "find_audit_clusters blocked coverage = Returns gs"
  shows "(\<forall>(k, ts)\<in>set gs. ts = filter (has_signature signature_for_task k) blocked \<and> 5 \<le> length ts \<and> \<not> truthy (jget coverage k))
    \<and> distinct (map fst gs) \<and> length gs \<le> 3
    \<and> (\<forall>k. 5 \<le> length (filter (has_signature signature_for_task k) blocked) \<and> \<not> truthy (jget coverage k) \<and> k \<notin> fst ` set gs \<longrightarrow>
         length gs = 3 \<and> (\<forall>(k', ts)\<in>set gs. length (filter (has_signature signature_for_task k) blocked) \<le> length ts))"
proof -
  let ?sig = "has_signature signature_for_task"
  obtain all where all: "clusters_of signature_for_task 5 (\<lambda>s. truthy (jget coverage s)) blocked = Returns all" "gs = take 3 all"
    using assms unfolding find_audit_clusters_def CLUSTER_THRESHOLD_def MAX_DEBRIEF_ACTIONS_def
    by (cases "clusters_of signature_for_task 5 (\<lambda>s. truthy (jget coverage s)) blocked") auto
  note ex = clusters_of_exact [OF all(1)]
  have out: "length gs = 3 \<and> (\<forall>(k', ts)\<in>set gs. length (filter (?sig k) blocked) \<le> length ts)"
    if "5 \<le> length (filter (?sig k) blocked)" "\<not> truthy (jget coverage k)" "k \<notin> fst ` set gs" for k
  proof -
    have "(k, filter (?sig k) blocked) \<in> set all" unfolding ex(1) using that(1, 2) by auto
    then have "(k, filter (?sig k) blocked) \<in> set (take 3 all) \<or> (k, filter (?sig k) blocked) \<in> set (drop 3 all)"
      by (metis Un_iff append_take_drop_id set_append)
    then have d: "(k, filter (?sig k) blocked) \<in> set (drop 3 all)" using that(3) all(2) by force
    have "sorted_wrt (\<lambda>a b. length (snd b) \<le> length (snd a)) (take 3 all @ drop 3 all)" using ex(3) by simp
    then have "\<forall>g\<in>set gs. length (snd (k, filter (?sig k) blocked)) \<le> length (snd g)"
      using d unfolding sorted_wrt_append all(2) by blast
    moreover have "length gs = 3" using d all(2) by (cases "length all \<le> 3") auto
    ultimately show ?thesis by auto
  qed
  have sub: "set gs \<subseteq> set all" unfolding all(2) by (rule set_take_subset)
  have "\<forall>(k, ts)\<in>set gs. ts = filter (?sig k) blocked \<and> 5 \<le> length ts \<and> \<not> truthy (jget coverage k)"
    using sub unfolding ex(1) by auto
  moreover have "distinct (map fst gs)" unfolding all(2) take_map [symmetric] by (rule distinct_take [OF ex(2)])
  moreover have "length gs \<le> 3" unfolding all(2) by simp
  ultimately show ?thesis using out by blast
qed

definition FLAKED :: jv where
  "FLAKED = JObj [(''source'', JStr ''s''), (''reviewInconclusive'', JBool True)]"

lemma flaked_signature: "signature_for_task FLAKED = Returns (Some ''s::inconclusive-review'')"
  by (simp add: signature_for_task_def classify_blocked_task_def CLASSIFIERS_def SPECIAL_CLASSIFIERS_def inconclusive_flag_def FLAKED_def nullish_def)

lemma flaked_clusters: "find_audit_clusters (replicate 5 FLAKED) (JObj []) = Returns [(''s::inconclusive-review'', replicate 5 FLAKED)]"
  by (simp add: find_audit_clusters_def clusters_of_def flaked_signature numeral_eq_Suc CLUSTER_THRESHOLD_def MAX_DEBRIEF_ACTIONS_def)

lemma audit_clusters_exact_witness: "length (filter (has_signature signature_for_task ''s::inconclusive-review'') (replicate 5 FLAKED)) = 5"
  using audit_clusters_exact [OF flaked_clusters] by simp

text \<open>A signature is taken apart at its last \<open>::\<close>, so the category comes back whatever the source is called.\<close>

lemma cut_last_none: "CHR '':'' \<notin> set s \<Longrightarrow> cut_last s = None \<and> cut_last (CHR '':'' # s) = None"
proof (induction s)
  case (Cons c s)
  then show ?case by (cases s) (auto simp: starts_with_def)
qed (simp add: starts_with_def)

lemma cut_last_signature: "CHR '':'' \<notin> set c \<Longrightarrow> cut_last (s @ ''::'' @ c) = Some (s, c)"
  using cut_last_none [of c] by (induction s) (auto simp: starts_with_def)

section \<open>The offender is the most expensive source that qualifies\<close>

lemma jneg_mono: "a \<noteq> NaN \<Longrightarrow> b \<noteq> NaN \<Longrightarrow> jneg a \<le> jneg b \<longleftrightarrow> b \<le> a"
  by (cases a; cases b) auto

interpretation by_cost: comparator "by_cost acct" "\<lambda>v. to_number (cost_of acct (sv_source v)) \<noteq> NaN" "\<lambda>v. jneg (to_number (cost_of acct (sv_source v)))" for acct
  by unfold_locales (simp add: by_cost_def sub_front jneg_mono)

lemma low_value_cost: "low_value acct coverage now v \<Longrightarrow> to_number (cost_of acct (sv_source v)) \<noteq> NaN"
  by (auto simp: low_value_def jle_def)

text \<open>The source the forensics reports qualifies (at least five tasks, not covered, at least three dollars, under 15% benefit, at
  most one shipped) and no source that qualifies costs more; nothing is reported only when no source qualifies.\<close>

theorem low_value_worst_offender:
  assumes "find_low_value_source tasks merged acct coverage now = Returns r"
  shows "(case r of
      None \<Rightarrow> \<forall>u\<in>set (by_source merged tasks). \<not> low_value acct coverage now u
    | Some v \<Rightarrow> v \<in> set (by_source merged tasks) \<and> low_value acct coverage now v
        \<and> (\<forall>u\<in>set (by_source merged tasks). low_value acct coverage now u \<longrightarrow>
             to_number (cost_of acct (sv_source u)) \<le> to_number (cost_of acct (sv_source v))))"
proof -
  let ?vs = "filter (low_value acct coverage now) (by_source merged tasks)"
  have r: "r = (case js_sort (by_cost acct) ?vs of [] \<Rightarrow> None | v # _ \<Rightarrow> Some v)"
    using assms by (simp add: find_low_value_source_def split: if_splits)
  have ok: "\<forall>v\<in>set ?vs. to_number (cost_of acct (sv_source v)) \<noteq> NaN" using low_value_cost by auto
  show ?thesis
  proof (cases "js_sort (by_cost acct) ?vs")
    case Nil
    then have "set ?vs = {}" by (metis list.set(1) set_js_sort)
    then show ?thesis using r Nil by (simp add: filter_empty_conv)
  next
    case (Cons v vs)
    have "v \<in> set ?vs" using Cons by (metis list.set_intros(1) set_js_sort)
    moreover have "to_number (cost_of acct (sv_source u)) \<le> to_number (cost_of acct (sv_source v))" if "u \<in> set ?vs" for u
      using by_cost.head_least [OF ok Cons that] ok that \<open>v \<in> set ?vs\<close> by (simp add: jneg_mono)
    ultimately show ?thesis using r Cons by auto
  qed
qed

lemma low_value_worst_offender_witness:
  "\<exists>v. find_low_value_source (replicate 5 (JObj [])) (\<lambda>_. False) [JObj [(''source'', JStr ''unknown''), (''costUsd'', JNum (Fin 4))]] (JObj []) (Fin 0) = Returns (Some v)
     \<and> sv_source v = JStr ''unknown'' \<and> low_value [JObj [(''source'', JStr ''unknown''), (''costUsd'', JNum (Fin 4))]] (JObj []) (Fin 0) v"
proof -
  let ?acct = "[JObj [(''source'', JStr ''unknown''), (''costUsd'', JNum (Fin 4))]]"
  have "case find_low_value_source (replicate 5 (JObj [])) (\<lambda>_. False) ?acct (JObj []) (Fin 0) of
      Returns (Some v) \<Rightarrow> sv_source v = JStr ''unknown'' | _ \<Rightarrow> False"
    by code_simp
  then obtain v where v: "find_low_value_source (replicate 5 (JObj [])) (\<lambda>_. False) ?acct (JObj []) (Fin 0) = Returns (Some v)" "sv_source v = JStr ''unknown''"
    by (auto split: outcome.splits option.splits)
  then show ?thesis using low_value_worst_offender [OF v(1)] by auto
qed

end
