(* ===== verification/QueueRequeues.thy ===== *)
theory QueueRequeues
  imports QueueSweeps Forensics
begin

text \<open>
  Two ways back to \<open>pending\<close>: the tasks with a failure signature whose fix landed (\<open>src/blocked-drain.js\<close>), and the finished
  tasks whose branch a merged one superseded (\<open>src/done-unmerged-requeue.js\<close>). The clock is an argument, as number and
  as text; the attribution of a requeue, which is recorded in the background, is left out.
\<close>

section \<open>Draining a signature\<close>

definition task_matches_signature :: "jv \<Rightarrow> string \<Rightarrow> bool outcome" where
  "task_matches_signature data sig =
     and_then (signature_for_task data) (\<lambda>a. if a = Some sig then Returns True
       else and_then (signature_for_clarification_task data) (\<lambda>b. Returns (b = Some sig)))"

text \<open>\<open>history.some((h) => (h.stage || h.status) === 'exhausted')\<close>\<close>

fun some_exhausted :: "jv list \<Rightarrow> bool outcome" where
  "some_exhausted [] = Returns False"
| "some_exhausted (h # hs) =
     (if nullish h then Throws
      else if (if truthy (jget h ''stage'') then jget h ''stage'' else jget h ''status'') = JStr ''exhausted'' then Returns True
      else some_exhausted hs)"

definition is_design_decision :: "jv \<Rightarrow> bool" where
  "is_design_decision data \<longleftrightarrow> jget (jget data ''needsClarification'') ''reason'' = JStr ''design-decision''"

definition drainable :: "jv \<Rightarrow> string \<Rightarrow> bool outcome" where
  "drainable data sig =
     and_then (task_matches_signature data sig) (\<lambda>hit.
       if \<not> hit \<or> truthy (jget data ''reviewInconclusive'') then Returns False
       else and_then (some_exhausted (elems (jget data ''history''))) (\<lambda>worn.
         Returns (\<not> (is_design_decision data \<and> \<not> worn) \<and> JStr sig \<notin> set (elems (jget data ''requeuedForSignatures'')))))"

definition rejections_of :: "jv \<Rightarrow> jv list" where
  "rejections_of data = elems (jget data ''priorRejectionFeedback'')"

definition retry_context :: "string \<Rightarrow> jv \<Rightarrow> jv" where
  "retry_context now data =
     JObj [(''blockedReason'', if truthy (jget data ''blockedReason'') then jget data ''blockedReason'' else JNull),
       (''mostRecentRejection'', if rejections_of data = [] then JNull else last (rejections_of data)),
       (''allPriorRejections'', JArr (rejections_of data)),
       (''stampedAt'', JStr now), (''stampedBy'', JStr ''blocked-drain'')]"

definition fresh_task :: "string \<Rightarrow> string \<Rightarrow> jv \<Rightarrow> jv" where
  "fresh_task now sig data =
     JObj [(''id'', jget data ''id''), (''domain'', jget data ''domain''), (''source'', jget data ''source''), (''title'', jget data ''title''),
       (''promptContext'', jget data ''promptContext''), (''retryPromptContext'', retry_context now data),
       (''requeuedForSignatures'', JArr (elems (jget data ''requeuedForSignatures'') @ [JStr sig])),
       (''status'', JStr ''pending''), (''createdAt'', JStr now), (''history'', JArr [])]"

definition drained_task :: "string \<Rightarrow> string \<Rightarrow> string \<Rightarrow> jv \<Rightarrow> jv" where
  "drained_task now dir sig data =
     (let recent = jget (retry_context now data) ''mostRecentRejection''
      in append_history_event now ''retry-context-stamped'' (Some (if truthy recent then to_str recent else ''no prior rejections''))
           (append_history_event now ''pending''
             (Some (''auto-requeued from '' @ dir @ ''/: the fix for '' @ quoted sig @ '' was confirmed and applied'')) (fresh_task now sig data)))"

record drain_result =
  dr_store :: qstore
  dr_ids :: "jv list"
  dr_threw :: bool

fun drain_walk :: "string \<Rightarrow> string \<Rightarrow> string \<Rightarrow> string list \<Rightarrow> drain_result \<Rightarrow> drain_result" where
  "drain_walk now sig dir [] r = r"
| "drain_walk now sig dir (name # names) r =
     (case q_get (dr_store r) dir name of
        Some (Doc data) \<Rightarrow>
          (case drainable data sig of
             Throws \<Rightarrow> r\<lparr>dr_threw := True\<rparr>
           | Returns ok \<Rightarrow>
               drain_walk now sig dir names
                 (if ok \<and> \<not> q_has (dr_store r) ''pending'' name
                  then r\<lparr>dr_store := q_del (q_write (dr_store r) ''pending'' name (drained_task now dir sig data)) dir name,
                         dr_ids := dr_ids r @ [jget data ''id'']\<rparr>
                  else r))
      | _ \<Rightarrow> drain_walk now sig dir names r)"

fun drain_dirs :: "string \<Rightarrow> string \<Rightarrow> string list \<Rightarrow> drain_result \<Rightarrow> drain_result" where
  "drain_dirs now sig [] r = r"
| "drain_dirs now sig (dir # dirs) r =
     (let r' = drain_walk now sig dir (q_json (dr_store r) dir) r in if dr_threw r' then r' else drain_dirs now sig dirs r')"

definition requeue_blocked_tasks_for_signature :: "string \<Rightarrow> string \<Rightarrow> string list \<Rightarrow> qstore \<Rightarrow> drain_result" where
  "requeue_blocked_tasks_for_signature now sig dirs s = drain_dirs now sig dirs \<lparr>dr_store = s, dr_ids = [], dr_threw = False\<rparr>"

section \<open>Finished tasks whose branch was superseded\<close>

definition SETTLE_MS :: real where "SETTLE_MS = 5 * 60 * 1000"

text \<open>\<open>task.history?.find(p)\<close> on an entry's field.\<close>

fun find_entry :: "(jv \<Rightarrow> bool) \<Rightarrow> jv list \<Rightarrow> jv outcome" where
  "find_entry p [] = Returns JUndef"
| "find_entry p (h # hs) = (if nullish h then Throws else if p h then Returns h else find_entry p hs)"

definition history_find :: "(jv \<Rightarrow> bool) \<Rightarrow> jv \<Rightarrow> jv outcome" where
  "history_find p task =
     (let h = jget task ''history'' in if nullish h then Returns JUndef else if is_array h then find_entry p (elems h) else Throws)"

definition stage_is :: "string \<Rightarrow> jv \<Rightarrow> bool" where
  "stage_is st h \<longleftrightarrow> jget h ''stage'' = JStr st"

definition is_already_requeued :: "jv \<Rightarrow> bool outcome" where
  "is_already_requeued task =
     and_then (find_entry (\<lambda>h. stage_is ''requeued'' h \<or> stage_is ''requeued-from-done'' h) (elems (jget task ''history''))) (\<lambda>h. Returns (h \<noteq> JUndef))"

definition all_siblings_merged :: "qstore \<Rightarrow> jv \<Rightarrow> bool" where
  "all_siblings_merged s task \<longleftrightarrow>
     elems (jget task ''siblings'') \<noteq> []
     \<and> list_all (\<lambda>i. let d = q_read s ''done'' (to_str i @ ''.json'')
                     in truthy d \<and> jget d ''status'' = JStr ''approved'' \<and> jget d ''terminalDisposition'' = JStr ''merged'')
         (elems (jget task ''siblings''))"

fun match_shipped :: "jv \<Rightarrow> jv \<Rightarrow> jv list \<Rightarrow> jv outcome" where
  "match_shipped i branch [] = Returns JUndef"
| "match_shipped i branch (e # es) =
     (if nullish e then Throws
      else if strict_eq (jget e ''taskId'') i \<and> strict_eq (jget e ''branch'') branch then Returns e
      else match_shipped i branch es)"

definition history_pushed :: "jv \<Rightarrow> jv \<Rightarrow> jv" where
  "history_pushed task entry = obj_put task ''history'' (JArr (elems (jget task ''history'') @ [entry]))"

definition discarded_task :: "string \<Rightarrow> jv \<Rightarrow> jv" where
  "discarded_task now task = history_pushed task (JObj [(''stage'', JStr ''discarded''), (''at'', JStr now), (''reason'', JStr ''all siblings merged'')])"

text \<open>Adding the feedback throws when the prompt context is a primitive value that is not falsy.\<close>

definition attach_feedback :: "string \<Rightarrow> string \<Rightarrow> jv \<Rightarrow> jv outcome" where
  "attach_feedback now feedback task =
     (let c = jget task ''promptContext''; c' = (if truthy c then c else JObj []); old = jget c' ''rawText''
      in if \<not> settable c' then Throws
         else Returns (obj_put task ''promptContext'' (obj_put c' ''rawText''
                (JStr ((if truthy old then to_str old else []) @ newline @ newline @ ''--- REQUEUE FEEDBACK ('' @ now @ '') ---''
                  @ newline @ feedback @ newline)))))"

definition reopened_task :: "string \<Rightarrow> jv \<Rightarrow> jv \<Rightarrow> jv" where
  "reopened_task now entry task =
     history_pushed (obj_put (obj_put task ''status'' (JStr ''pending'')) ''project''
         (if truthy (jget entry ''targetProject'') then jget entry ''targetProject'' else jget task ''project''))
       (JObj [(''stage'', JStr ''requeued''), (''at'', JStr now), (''source'', JStr ''sweep''), (''reason'', JStr ''shipped entry match'')])"

datatype done_action = Unreadable_task | Unchanged | Discard jv | Reopen jv

definition superseded_feedback :: "jv \<Rightarrow> string" where
  "superseded_feedback entry =
     ''This task was requeued because its branch ('' @ to_str (jget entry ''branch'')
       @ '') was superseded by a merged shipped entry. The work is still relevant and should be addressed.''"

definition review_time :: "jv \<Rightarrow> jnum" where
  "review_time review = (if truthy (jget review ''at'') then date_parse (jget review ''at'') else Fin 0)"

definition done_step :: "string \<Rightarrow> jnum \<Rightarrow> jv list \<Rightarrow> qstore \<Rightarrow> jv \<Rightarrow> done_action outcome" where
  "done_step now clock shipped s task =
     (if \<not> truthy task then Returns Unreadable_task
      else if jget task ''status'' \<noteq> JStr ''needs-work'' then Returns Unchanged
      else and_then (is_already_requeued task) (\<lambda>again.
        if again then Returns Unchanged
        else and_then (history_find (stage_is ''applied'') task) (\<lambda>applied.
          let branch = jget applied ''detail''
          in if \<not> truthy branch then Returns Unchanged
             else if all_siblings_merged s task then Returns (Discard (discarded_task now task))
             else and_then (match_shipped (jget task ''id'') branch shipped) (\<lambda>entry.
               if \<not> truthy entry then Returns Unchanged
               else and_then (history_find (\<lambda>h. jget h ''verdict'' = JStr ''needs-work'') task) (\<lambda>review.
                 if jlt (jsub clock (review_time review)) (Fin SETTLE_MS) then Returns Unchanged
                 else and_then (attach_feedback now (superseded_feedback entry) task)
                   (\<lambda>t. Returns (Reopen (reopened_task now entry t))))))))"

record done_sweep =
  ds_store :: qstore
  ds_other :: "qstore option"
  ds_requeued :: nat
  ds_unchanged :: nat
  ds_discarded :: nat
  ds_errors :: nat
  ds_threw :: bool

definition done_apply :: "string \<Rightarrow> done_action \<Rightarrow> done_sweep \<Rightarrow> done_sweep" where
  "done_apply name a r =
     (case a of
        Unreadable_task \<Rightarrow> r\<lparr>ds_errors := ds_errors r + 1\<rparr>
      | Unchanged \<Rightarrow> r\<lparr>ds_unchanged := ds_unchanged r + 1\<rparr>
      | Discard t \<Rightarrow> r\<lparr>ds_store := q_del (q_write (ds_store r) NO_ACTION_DIR name t) ''done'' name, ds_discarded := ds_discarded r + 1\<rparr>
      | Reopen t \<Rightarrow>
          (case ds_other r of
             None \<Rightarrow> r\<lparr>ds_store := q_del (q_write (ds_store r) ''pending'' name t) ''done'' name, ds_requeued := ds_requeued r + 1\<rparr>
           | Some o' \<Rightarrow> r\<lparr>ds_store := q_del (ds_store r) ''done'' name, ds_other := Some (q_write o' ''pending'' name t), ds_requeued := ds_requeued r + 1\<rparr>))"

fun done_walk :: "string \<Rightarrow> jnum \<Rightarrow> jv list \<Rightarrow> string list \<Rightarrow> done_sweep \<Rightarrow> done_sweep" where
  "done_walk now clock shipped [] r = r"
| "done_walk now clock shipped (name # names) r =
     (case done_step now clock shipped (ds_store r) (q_read (ds_store r) ''done'' name) of
        Throws \<Rightarrow> r\<lparr>ds_threw := True\<rparr>
      | Returns a \<Rightarrow> done_walk now clock shipped names (done_apply name a r))"

definition sweep_done_unmerged :: "string \<Rightarrow> jnum \<Rightarrow> jv list \<Rightarrow> qstore \<Rightarrow> qstore option \<Rightarrow> done_sweep" where
  "sweep_done_unmerged now clock shipped s other =
     done_walk now clock shipped (q_json s ''done'')
       \<lparr>ds_store = s, ds_other = other, ds_requeued = 0, ds_unchanged = 0, ds_discarded = 0, ds_errors = 0, ds_threw = False\<rparr>"

section \<open>No task is lost\<close>

lemma drain_walk_keeps: "dir \<noteq> ''pending'' \<Longrightarrow> keeps_tasks (dr_store r) (dr_store (drain_walk now sig dir names r))"
proof (induction names arbitrary: r)
  case (Cons name names)
  show ?case
  proof (cases "\<exists>data ok. q_get (dr_store r) dir name = Some (Doc data) \<and> drainable data sig = Returns ok")
    case True
    then obtain data ok where d: "q_get (dr_store r) dir name = Some (Doc data)" "drainable data sig = Returns ok" by blast
    have has: "q_has (dr_store r) dir name" using d(1) by (simp add: q_has_def)
    let ?r = "if ok \<and> \<not> q_has (dr_store r) ''pending'' name
        then r\<lparr>dr_store := q_del (q_write (dr_store r) ''pending'' name (drained_task now dir sig data)) dir name, dr_ids := dr_ids r @ [jget data ''id'']\<rparr> else r"
    have "keeps_tasks (dr_store r) (dr_store ?r)" using rewrite_keeps [OF has] Cons.prems by auto
    also have "keeps_tasks (dr_store ?r) (dr_store (drain_walk now sig dir names ?r))" by (rule Cons.IH [OF Cons.prems])
    finally show ?thesis using d by simp
  next
    case False
    then show ?thesis using Cons by (auto split: option.splits qfile.splits outcome.splits)
  qed
qed simp

lemma drain_dirs_keeps: "''pending'' \<notin> set dirs \<Longrightarrow> keeps_tasks (dr_store r) (dr_store (drain_dirs now sig dirs r))"
proof (induction now sig dirs r rule: drain_dirs.induct)
  case (2 now sig dir dirs r)
  have "keeps_tasks (dr_store r) (dr_store (drain_walk now sig dir (q_json (dr_store r) dir) r))"
    using "2.prems" by (intro drain_walk_keeps) auto
  then show ?case using 2 keeps_trans by (auto simp: Let_def)
qed simp

lemma drain_keeps: "''pending'' \<notin> set dirs \<Longrightarrow> keeps_tasks s (dr_store (requeue_blocked_tasks_for_signature now sig dirs s))"
  unfolding requeue_blocked_tasks_for_signature_def using drain_dirs_keeps [of dirs "\<lparr>dr_store = s, dr_ids = [], dr_threw = False\<rparr>"] by simp

lemma done_apply_keeps:
  assumes "ds_other r = None" "a = Unreadable_task \<or> a = Unchanged \<or> q_has (ds_store r) ''done'' name"
  shows "keeps_tasks (ds_store r) (ds_store (done_apply name a r)) \<and> ds_other (done_apply name a r) = None"
  using assms rewrite_keeps [of "ds_store r" "''done''" name]
  by (cases a) (auto simp: done_apply_def NO_ACTION_DIR_def)

lemma done_step_readable: "done_step now clock shipped s task = Returns a \<Longrightarrow> a = Unreadable_task \<or> truthy task"
  by (cases "truthy task") (simp_all add: done_step_def)

lemma done_walk_keeps:
  "ds_other r = None \<Longrightarrow> keeps_tasks (ds_store r) (ds_store (done_walk now clock shipped names r))"
proof (induction now clock shipped names r rule: done_walk.induct)
  case (2 now clock shipped name names r)
  show ?case
  proof (cases "done_step now clock shipped (ds_store r) (q_read (ds_store r) ''done'' name)")
    case (Returns a)
    have "a = Unreadable_task \<or> q_has (ds_store r) ''done'' name"
      using done_step_readable [OF Returns] read_has by blast
    then have k: "keeps_tasks (ds_store r) (ds_store (done_apply name a r))" "ds_other (done_apply name a r) = None"
      using done_apply_keeps [OF "2.prems", of a name] by auto
    note k(1)
    also have "keeps_tasks (ds_store (done_apply name a r)) (ds_store (done_walk now clock shipped names (done_apply name a r)))"
      by (rule 2(1) [OF Returns k(2)])
    finally show ?thesis using Returns by simp
  qed simp
qed simp

lemma done_unmerged_keeps: "keeps_tasks s (ds_store (sweep_done_unmerged now clock shipped s None))"
  unfolding sweep_done_unmerged_def
  using done_walk_keeps [of "\<lparr>ds_store = s, ds_other = None, ds_requeued = 0, ds_unchanged = 0, ds_discarded = 0, ds_errors = 0, ds_threw = False\<rparr>"] by simp

section \<open>What comes back, and what does not\<close>

lemma json_rejections: "json_value data \<Longrightarrow> list_all json_value (rejections_of data)"
  using json_value_get [of data "''priorRejectionFeedback''"] json_value_elems
  by (cases "jget data ''priorRejectionFeedback'' = JUndef") (auto simp: rejections_of_def)

lemma image_keeps_signatures:
  assumes "json_value data"
  shows "elems (jget (json_image (drained_task now dir sig data)) ''requeuedForSignatures'') = elems (jget data ''requeuedForSignatures'') @ [JStr sig]"
proof -
  have l: "list_all json_value (elems (jget data ''requeuedForSignatures''))"
    using json_value_get [OF assms, of "''requeuedForSignatures''"] json_value_elems
    by (cases "jget data ''requeuedForSignatures'' = JUndef") auto
  have im: "image_elems (elems (jget data ''requeuedForSignatures'') @ [JStr sig]) = elems (jget data ''requeuedForSignatures'') @ [JStr sig]"
    using l by (intro json_image_id(2)) simp
  show ?thesis
    by (simp add: drained_task_def fresh_task_def append_history_event_def Let_def COLLAPSIBLE_REPEAT_STAGES_def with_detail_def im retry_context_def)
qed

text \<open>C23: A fix brings a task back at most once: the task the drain puts in \<open>pending\<close> carries the signature among the ones it was
  requeued for, next to the earlier ones, and whatever becomes of it, as long as it carries it, no drain of that signature
  takes it again.\<close>

theorem drained_once:
  assumes "json_value data" "jget later ''requeuedForSignatures'' = jget (json_image (drained_task now dir sig data)) ''requeuedForSignatures''"
    "old = sig \<or> JStr old \<in> set (elems (jget data ''requeuedForSignatures''))"
  shows "drainable later old \<noteq> Returns True"
proof -
  have "JStr old \<in> set (elems (jget later ''requeuedForSignatures''))"
    using assms(2, 3) image_keeps_signatures [OF assms(1)] by auto
  then show ?thesis
    by (cases "task_matches_signature later old"; cases "some_exhausted (elems (jget later ''history''))") (auto simp: drainable_def)
qed

lemma drained_once_witness: "drainable (json_image (drained_task ''now'' ''blocked'' ''s::c'' (JObj []))) ''s::c'' \<noteq> Returns True"
  by (rule drained_once [of "JObj []" _ "''now''" "''blocked''" "''s::c''"]) simp_all

text \<open>A finished task to be reopened whose prompt context is a string makes the sweep throw; the tasks after it are not swept.\<close>

lemma string_context_throws:
  assumes "jget task ''promptContext'' = JStr (c # cs)"
  shows "attach_feedback now feedback task = Throws"
  using assms by (simp add: attach_feedback_def settable_def)

lemma done_walk_throws: "done_step now clock shipped (ds_store r) (q_read (ds_store r) ''done'' name) = Throws
    \<Longrightarrow> done_walk now clock shipped (name # names) r = r\<lparr>ds_threw := True\<rparr>"
  by simp

end
