(* ===== verification/RejectChecks.thy ===== *)
theory RejectChecks
  imports ApplyRetry BlockedTasks
begin

text \<open>
  \<open>src/lib/reject-retry-check.js\<close>: the questions the reject-retry sweep asks of a blocked task, among them whether the gate
  that blocked it would still block it. The gates themselves, the registered source's validator, the targets that a plan
  declares (\<open>extractDeclaredTargets\<close>) and the files of the repository are arguments.
\<close>

section \<open>Stages\<close>

definition stage_blocked :: "string \<Rightarrow> jv \<Rightarrow> bool" where
  "stage_blocked st task \<longleftrightarrow> jget task ''blockedStage'' = JStr st"

definition is_review_rejection :: "jv \<Rightarrow> bool" where
  "is_review_rejection task \<longleftrightarrow> stage_blocked ''review'' task \<and> \<not> truthy (jget task ''reviewInconclusive'')"

definition is_pre_critique_block :: "jv \<Rightarrow> bool" where
  "is_pre_critique_block = stage_blocked ''pre-critique''"

definition is_pre_implement_block :: "jv \<Rightarrow> bool" where
  "is_pre_implement_block = stage_blocked ''pre-implement''"

definition is_draft_failure_block :: "jv \<Rightarrow> bool" where
  "is_draft_failure_block = stage_blocked ''draft''"

definition is_plan_degenerate_block :: "jv \<Rightarrow> bool" where
  "is_plan_degenerate_block = stage_blocked ''plan''"

definition is_implement_degenerate_block :: "jv \<Rightarrow> bool" where
  "is_implement_degenerate_block = stage_blocked ''implement''"

definition is_critique_degenerate_block :: "jv \<Rightarrow> bool" where
  "is_critique_degenerate_block = stage_blocked ''critique''"

definition DRAFT_STRUCTURALLY_OVERSIZED_RE :: re where
  "DRAFT_STRUCTURALLY_OVERSIZED_RE = re_liti ''STRUCTURALLY OVERSIZED''"

definition is_structurally_oversized :: "jv \<Rightarrow> bool" where
  "is_structurally_oversized task \<longleftrightarrow> is_draft_failure_block task \<and> re_test DRAFT_STRUCTURALLY_OVERSIZED_RE (reason_text task)"

section \<open>The validator again\<close>

text \<open>\<open>validate\<close> is the validator of the task's source, if it has one: whether its outcome is ok, or that it threw.\<close>

definition deterministic_review_recovery_check :: "(jv \<Rightarrow> bool outcome) option \<Rightarrow> jv \<Rightarrow> bool" where
  "deterministic_review_recovery_check validate task \<longleftrightarrow>
     stage_blocked ''review'' task \<and> (case validate of Some v \<Rightarrow> v task = Returns True | None \<Rightarrow> False)"

section \<open>A forbidden path that is the task's own target\<close>

definition prior_feedback :: "jv \<Rightarrow> jv list" where
  "prior_feedback task = elems (jget task ''priorRejectionFeedback'')"

definition block_text :: "jv \<Rightarrow> string" where
  "block_text task = join newline (reason_text task # map to_str (prior_feedback task))"

text \<open>What \<open>matchAll\<close> captures for an expression \<open>prefix([^close]+)close\<close> under the flag \<open>i\<close>.\<close>

function captures :: "string \<Rightarrow> char \<Rightarrow> string \<Rightarrow> string list" where
  "captures prefix e [] = []"
| "captures prefix e (c # cs) =
     (let s = c # cs; rest = drop (length prefix) s; body = takeWhile (\<lambda>x. x \<noteq> e) rest
      in if starts_with (to_lower prefix) (to_lower s) \<and> body \<noteq> [] \<and> length body < length rest
         then body # captures prefix e (drop (length body + 1) rest)
         else captures prefix e cs)"
  by pat_completeness auto
termination by (relation "measure (\<lambda>(p, e, s). length s)") auto

definition MATCHES_FORBIDDEN :: string where "MATCHES_FORBIDDEN = ''matches forbidden '' @ [CHR 0x22]"
definition EXPLICITLY_FORBIDS :: string where "EXPLICITLY_FORBIDS = ''EXPLICITLY forbids (''"

definition is_quote_or_space :: "char \<Rightarrow> bool" where
  "is_quote_or_space c \<longleftrightarrow> is_space c \<or> c \<in> {CHR 0x22, CHR 0x27, CHR 0x60}"

definition strip_quotes :: "string \<Rightarrow> string" where
  "strip_quotes s = rev (dropWhile is_quote_or_space (rev (dropWhile is_quote_or_space s)))"

definition forbidden_names :: "string \<Rightarrow> string list" where
  "forbidden_names text =
     captures MATCHES_FORBIDDEN (CHR 0x22) text
     @ filter (\<lambda>s. s \<noteq> []) (map strip_quotes (concat (map (split_char (CHR '','')) (captures EXPLICITLY_FORBIDS (CHR '')'') text))))"

text \<open>\<open>pathsRefEqual\<close> of \<open>src/adhoc-diff-sanity.js\<close>; an extension is a dot and word characters at the end.\<close>

definition cut_dot_slash :: "string \<Rightarrow> string" where
  "cut_dot_slash s = (if starts_with ''./'' s then drop 2 s else s)"

definition has_ext :: "string \<Rightarrow> bool" where
  "has_ext s = (let r = dropWhile is_word (rev s) in r \<noteq> [] \<and> r \<noteq> rev s \<and> hd r = CHR ''.'')"

definition base_of :: "string \<Rightarrow> string" where
  "base_of s = rev (takeWhile (\<lambda>c. c \<noteq> CHR ''/'') (rev s))"

definition covers_ref :: "string \<Rightarrow> string \<Rightarrow> bool" where
  "covers_ref a b \<longleftrightarrow> CHR ''/'' \<in> set a \<and> \<not> has_ext a \<and> (b = a \<or> starts_with (a @ ''.'') b)"

definition paths_ref_equal :: "string \<Rightarrow> string \<Rightarrow> bool" where
  "paths_ref_equal a b =
     (let na = cut_dot_slash a; nb = cut_dot_slash b
      in if na = [] \<or> nb = [] then False
         else if na = nb then True
         else if ends_with ''/'' na \<and> starts_with na nb \<or> ends_with ''/'' nb \<and> starts_with nb na then True
         else if covers_ref na nb \<or> covers_ref nb na then True
         else has_ext na \<and> has_ext nb \<and> \<not> ends_with ''/'' na \<and> \<not> ends_with ''/'' nb \<and> base_of na = base_of nb)"

definition forbidden_path_block_names_own_target :: "(jv \<Rightarrow> string list outcome) \<Rightarrow> jv \<Rightarrow> bool" where
  "forbidden_path_block_names_own_target targets task =
     (let text = block_text task; named = forbidden_names text
      in if \<not> (re_test (re_liti MATCHES_FORBIDDEN) text \<or> re_test (re_liti EXPLICITLY_FORBIDS) text) \<or> named = [] then False
         else case targets task of
           Throws \<Rightarrow> False
         | Returns ts \<Rightarrow> list_ex (\<lambda>n. list_ex (paths_ref_equal n) ts) named)"

section \<open>The signature of a deterministic block\<close>

text \<open>\<open>file_hash\<close> gives the hash of a file of the repository, \<open>None\<close> for a path outside of it or a file that cannot be read.\<close>

definition DETERMINISTIC_MARKERS :: "string list" where
  "DETERMINISTIC_MARKERS = [''deterministic recheck'', ''deterministic-rescan'']"

definition has_marker :: "string \<Rightarrow> bool" where
  "has_marker text \<longleftrightarrow> list_ex (\<lambda>m. re_test (re_liti m) text) DETERMINISTIC_MARKERS"

definition compute_block_signature :: "(string \<Rightarrow> string option) \<Rightarrow> jv \<Rightarrow> string option" where
  "compute_block_signature file_hash task =
     (let c = jget task ''promptContext''; f = jget c ''originalFile'';
          r = (if truthy (jget c ''originalRule'') then to_str (jget c ''originalRule'') else [])
      in if \<not> has_marker (block_text task) \<or> \<not> is_string f \<or> \<not> truthy f then None
         else map_option (\<lambda>h. h @ ''|'' @ r) (file_hash (str_of f)))"

section \<open>Gates that no longer fire\<close>

definition or_empty :: "jv \<Rightarrow> string" where
  "or_empty v = (if truthy v then to_str v else [])"

definition invalid_premise_before_check_existed :: "jv \<Rightarrow> bool" where
  "invalid_premise_before_check_existed task =
     (if truthy (jget task ''premiseReadmitCount'') then False
      else if stage_blocked ''review'' task
      then re_test (re_liti ''Invalid premise:'') (or_empty (jget task ''blockedReason'') @ '' '' @ or_empty (jget task ''priorRejectionFeedback''))
      else has_invalid_premise task)"

text \<open>The files a list of scope lines names. Lines that are a text are read character by character and name none; other values
  that are not falsy cannot be iterated over.\<close>

definition scope_lines :: "jv \<Rightarrow> jv list outcome" where
  "scope_lines v = (if \<not> truthy v \<or> is_string v then Returns [] else if is_array v then Returns (elems v) else Throws)"

definition scope_file :: "jv \<Rightarrow> string option" where
  "scope_file l =
     (if is_string l \<and> starts_with ''Files:'' (str_of l) \<and> trim (drop 6 (str_of l)) \<noteq> [] then Some (trim (drop 6 (str_of l))) else None)"

definition scope_files :: "jv \<Rightarrow> string list outcome" where
  "scope_files piece = and_then (scope_lines (jget piece ''scopeLines'')) (\<lambda>ls. Returns (List.map_filter scope_file ls))"

definition decompose_pieces :: "jv \<Rightarrow> jv" where
  "decompose_pieces task = jget (jget (jget task ''promptContext'') ''decomposedFrom'') ''pieces''"

definition extract_scope_files :: "jv \<Rightarrow> string list outcome" where
  "extract_scope_files task =
     (let ps = decompose_pieces task in if elems ps = [] then Returns [] else and_then (scope_files (elems ps ! 0)) (\<lambda>fs. Returns (uniq fs)))"

fun concat_outcomes :: "'a list outcome list \<Rightarrow> 'a list outcome" where
  "concat_outcomes [] = Returns []"
| "concat_outcomes (x # xs) = and_then x (\<lambda>a. and_then (concat_outcomes xs) (\<lambda>b. Returns (a @ b)))"

definition extract_sibling_scope_files :: "jv \<Rightarrow> string list outcome" where
  "extract_sibling_scope_files task =
     and_then (scope_lines (decompose_pieces task)) (\<lambda>ps. and_then (concat_outcomes (map scope_files ps)) (\<lambda>fs. Returns (uniq fs)))"

text \<open>\<open>detect\<close> tells whether the premise is stale still, given the files the piece and its siblings create; \<open>None\<close> when there is no
  repository to look at.\<close>

definition stale_premise_gate_no_longer_fires :: "(jv \<Rightarrow> string list \<Rightarrow> string list \<Rightarrow> bool outcome) option \<Rightarrow> jv \<Rightarrow> bool" where
  "stale_premise_gate_no_longer_fires detect task =
     (if truthy (jget task ''stalePremiseReadmitted'')
         \<or> \<not> re_test (Seq StartB (re_liti ''sub-task premise may be stale'')) (trim (reason_text task)) then False
      else case detect of
        None \<Rightarrow> False
      | Some d \<Rightarrow> and_then (extract_scope_files task) (\<lambda>own. and_then (extract_sibling_scope_files task) (\<lambda>sib. d task own sib)) = Returns False)"

definition external_dep_gate_no_longer_blocks :: "(jv \<Rightarrow> bool outcome) \<Rightarrow> jv \<Rightarrow> bool" where
  "external_dep_gate_no_longer_blocks detect task =
     (if truthy (jget task ''externalDepReadmitted'')
         \<or> \<not> re_test (Seq StartB (re_liti ''task requires external-state operation'')) (trim (reason_text task)) then False
      else detect task = Returns False)"

definition SPLIT_TOO_FEW_REASON_RE :: re where
  "SPLIT_TOO_FEW_REASON_RE = re_all [re_liti ''only '', re_plus re_digit, re_liti '' of '', re_plus re_digit,
     re_liti '' proposed sub-candidate(s) had a real title/problem/solution'']"

definition split_too_few_still_retryable :: "jv \<Rightarrow> bool" where
  "split_too_few_still_retryable task \<longleftrightarrow>
     \<not> truthy (jget task ''splitTooFewRetried'') \<and> \<not> truthy (jget task ''splitTooFewReadmitted'') \<and> re_test SPLIT_TOO_FEW_REASON_RE (reason_text task)"

section \<open>A signature does not change while the text grows\<close>

lemma starts_with_append: "starts_with p s \<Longrightarrow> starts_with p (s @ t)"
  by (metis append.assoc append_take_drop_id starts_with_def take_append append_eq_conv_conj)

lemma contains_append: "contains p s \<Longrightarrow> contains p (s @ t)"
proof (induction s)
  case Nil
  then show ?case by (cases t) (simp_all add: starts_with_def)
next
  case (Cons c s)
  then show ?case using starts_with_append [of p "c # s" t] by auto
qed

lemma has_marker_append: "has_marker s \<Longrightarrow> has_marker (s @ t)"
  by (auto simp: has_marker_def re_test_liti to_lower_def list_ex_iff intro: contains_append)

lemma join_append_more: "xs \<noteq> [] \<Longrightarrow> \<exists>t. join sep (xs @ ys) = join sep xs @ t"
proof (induction xs)
  case (Cons x xs)
  then show ?case by (cases xs; cases ys) auto
qed simp

end
