(* ===== verification/Lanes.thy ===== *)
theory Lanes
  imports JsText JsSort
begin

text \<open>
  \<open>src/lanes.js\<close> (with \<open>tierFromModel\<close> of \<open>src/capability-ledger.js\<close> and
  \<open>src/worker-model-override.js\<close>): the worker lanes, one per GPU endpoint. A registry entry is
  arbitrary JSON; it becomes a lane, is switched off, or is dropped for the first problem found, in
  the code's order. The URL parser of the runtime is the parameter \<open>valid_url\<close>, the name reported by
  \<open>nvidia-smi\<close> the parameter \<open>gpu_name\<close>.
\<close>

section \<open>Model tiers\<close>

text \<open>\<open>/(?:^|[:\-_ ])e?(\d+(?:\.\d+)?)b(?![a-z])/i\<close>: the first position where it matches. After the
  optional \<open>e\<close> the digits are taken greedily; a shorter run would be followed by a digit, never a \<open>b\<close>.\<close>

definition is_letter :: "char \<Rightarrow> bool" where
  "is_letter c \<longleftrightarrow> (let n = of_char (lower_char c) :: nat in 97 \<le> n \<and> n \<le> 122)"

definition tier_ends :: "string \<Rightarrow> bool" where
  "tier_ends s = (case s of [] \<Rightarrow> False
     | b # r \<Rightarrow> lower_char b = CHR ''b'' \<and> (case r of [] \<Rightarrow> True | c # _ \<Rightarrow> \<not> is_letter c))"

definition tier_tail :: "string \<Rightarrow> jnum option" where
  "tier_tail s0 =
     (let s = (case s0 of c # r \<Rightarrow> if lower_char c = CHR ''e'' then r else s0 | [] \<Rightarrow> []);
          ip = takeWhile is_digit s; r = dropWhile is_digit s
      in if ip = [] then None
         else if tier_ends r then Some (unsigned_decimal ip)
         else (case r of
                 c # f \<Rightarrow> let fp = takeWhile is_digit f
                         in if c = CHR ''.'' \<and> fp \<noteq> [] \<and> tier_ends (dropWhile is_digit f)
                            then Some (unsigned_decimal (ip @ CHR ''.'' # fp)) else None
               | [] \<Rightarrow> None))"

fun tier_after_separator :: "string \<Rightarrow> jnum option" where
  "tier_after_separator [] = None"
| "tier_after_separator (c # s) =
     (if c \<in> set '':-_ '' then (case tier_tail s of Some t \<Rightarrow> Some t | None \<Rightarrow> tier_after_separator s)
      else tier_after_separator s)"

definition tier_from_model :: "string option \<Rightarrow> jnum option" where
  "tier_from_model model =
     (let s = (case model of None \<Rightarrow> [] | Some m \<Rightarrow> m)
      in case tier_tail s of Some t \<Rightarrow> Some t | None \<Rightarrow> tier_after_separator s)"

lemma tier_example: "tier_from_model (Some ''qwen3.8:27b-q4_K_M'') = Some (Fin 27)"
  by code_simp

section \<open>Lanes\<close>

datatype preempt_mode = PreemptAlways | PreemptAgeGated | PreemptNever

datatype reserve_mode = ReserveAuto | ReserveAlways | ReserveNever

datatype lane_provider = OllamaProvider | CloudProvider | ScriptProvider

record lane =
  ln_id :: string
  ln_gpu :: string
  ln_env :: "(string \<times> string) list"
  ln_local :: bool
  ln_slow :: bool
  ln_numCtx :: "int option"
  ln_numBatch :: "int option"
  ln_reviewer :: bool
  ln_reviewerId :: string
  ln_preempt :: preempt_mode
  ln_taskClasses :: "string list option"
  ln_model :: "string option"
  ln_tier :: "jnum option"
  ln_reserve :: reserve_mode
  ln_provider :: lane_provider
  ln_registeredModel :: "string option option"

definition lane_url :: "lane \<Rightarrow> string option" where
  "lane_url l = map_of (ln_env l) ''OLLAMA_URL''"

definition slug_char :: "char \<Rightarrow> bool" where
  "slug_char c \<longleftrightarrow> is_digit c \<or> 97 \<le> (of_char c :: nat) \<and> (of_char c :: nat) \<le> 122"

text \<open>\<open>slug(s)\<close>: the falsy values have the empty slug.\<close>

definition slug :: "jv \<Rightarrow> string" where
  "slug v = (if truthy v then filter slug_char (to_lower (to_str v)) else [])"

definition gpu_slug_from_name :: "string \<Rightarrow> string" where
  "gpu_slug_from_name name =
     (let tokens = filter (\<lambda>t. \<exists>c\<in>set t. is_digit c) (words name)
      in if tokens = [] then [] else slug (JStr (last tokens)))"

definition lane_id_ok :: "string \<Rightarrow> bool" where
  "lane_id_ok s \<longleftrightarrow> starts_with ''worker-'' s \<and> drop 7 s \<noteq> [] \<and> list_all slug_char (drop 7 s)"

fun whole_number_between :: "int \<Rightarrow> int \<Rightarrow> jv \<Rightarrow> int option" where
  "whole_number_between lo hi (JNum (Fin q)) =
     (if q = of_int \<lfloor>q\<rfloor> \<and> lo \<le> \<lfloor>q\<rfloor> \<and> \<lfloor>q\<rfloor> \<le> hi then Some \<lfloor>q\<rfloor> else None)"
| "whole_number_between lo hi _ = None"

section \<open>One registry entry\<close>

datatype lane_problem =
    NotAnObject | NoGpu | BadId | BadUrl | BadProvider | NoModel | NeedsTaskClasses | BadSlow
  | BadNumCtx | BadNumBatch | BadReviewer | BoundedReviewer | BadPreempt | BoundedPreempt
  | BadTier | BadReserve | BadTaskClasses | CollidesWithHost | SharedEndpoint

datatype entry_result = Lane lane | SwitchedOff | Dropped lane_problem

fun provider_of :: "jv \<Rightarrow> lane_provider option" where
  "provider_of JUndef = Some OllamaProvider"
| "provider_of (JStr s) =
     (if s = ''ollama'' then Some OllamaProvider else if s = ''cloud'' then Some CloudProvider
      else if s = ''script'' then Some ScriptProvider else None)"
| "provider_of _ = None"

fun preempt_of :: "jv \<Rightarrow> preempt_mode option" where
  "preempt_of JUndef = Some PreemptNever"
| "preempt_of (JStr s) =
     (if s = ''always'' then Some PreemptAlways else if s = ''age-gated'' then Some PreemptAgeGated
      else if s = ''never'' then Some PreemptNever else None)"
| "preempt_of _ = None"

definition reserve_of :: "jv \<Rightarrow> reserve_mode option" where
  "reserve_of v =
     (if nullish v \<or> v = JStr ''auto'' then Some ReserveAuto
      else if v = JStr ''always'' then Some ReserveAlways
      else if v = JBool False then Some ReserveNever else None)"

definition task_class_list :: "jv \<Rightarrow> string list" where
  "task_class_list v = filter (\<lambda>s. s \<noteq> []) (map (\<lambda>c. trim (to_str c)) (elems v))"

definition is_bool_or_undef :: "jv \<Rightarrow> bool" where
  "is_bool_or_undef v \<longleftrightarrow> v = JUndef \<or> v = JBool True \<or> v = JBool False"

definition lane_from_entry :: "(jv \<Rightarrow> bool) \<Rightarrow> jv \<Rightarrow> entry_result" where
  "lane_from_entry valid_url raw =
     (if \<not> is_object raw then Dropped NotAnObject
      else if jget raw ''enabled'' = JBool False then SwitchedOff
      else let gpu = slug (jget raw ''gpu'')
      in if gpu = [] then Dropped NoGpu
      else let id = (if jget raw ''id'' = JUndef then ''worker-'' @ gpu else to_lower (trim (to_str (jget raw ''id''))))
      in if \<not> lane_id_ok id then Dropped BadId
      else if \<not> valid_url (jget raw ''ollamaUrl'') then Dropped BadUrl
      else (case provider_of (jget raw ''provider'') of
        None \<Rightarrow> Dropped BadProvider
      | Some provider \<Rightarrow>
      let script = (provider = ScriptProvider);
          m = jget raw ''model'';
          model = (if is_string m then trim (str_of m) else if script \<and> m = JUndef then ''script'' else [])
      in if model = [] then Dropped NoModel
      else let bounded = (provider \<noteq> OllamaProvider)
      in if bounded \<and> nullish (jget raw ''taskClasses'') then Dropped NeedsTaskClasses
      else if \<not> is_bool_or_undef (jget raw ''slow'') then Dropped BadSlow
      else let ctx = jget raw ''numCtx'';
               ctx_set = (\<not> bounded \<and> \<not> nullish ctx);
               num_ctx = (if ctx_set then whole_number_between 2048 131072 ctx else None)
      in if ctx_set \<and> num_ctx = None then Dropped BadNumCtx
      else let batch = jget raw ''numBatch'';
               batch_set = (\<not> bounded \<and> \<not> nullish batch);
               num_batch = (if batch_set then whole_number_between 32 8192 batch else None)
      in if batch_set \<and> num_batch = None then Dropped BadNumBatch
      else if \<not> is_bool_or_undef (jget raw ''reviewer'') then Dropped BadReviewer
      else if bounded \<and> jget raw ''reviewer'' = JBool True then Dropped BoundedReviewer
      else (case preempt_of (jget raw ''preempt'') of
        None \<Rightarrow> Dropped BadPreempt
      | Some preempt \<Rightarrow>
      if bounded \<and> preempt \<noteq> PreemptNever then Dropped BoundedPreempt
      else let t = jget raw ''tier'';
               tier_set = (\<not> nullish t);
               tier = (if tier_set then (if is_number t \<and> jlt (Fin 0) (to_number t) then Some (to_number t) else None)
                       else tier_from_model (Some model))
      in if tier_set \<and> tier = None then Dropped BadTier
      else (case reserve_of (jget raw ''reserve'') of
        None \<Rightarrow> Dropped BadReserve
      | Some reserve \<Rightarrow>
      let tc = jget raw ''taskClasses'';
          tc_set = (\<not> nullish tc)
      in if tc_set \<and> task_class_list tc = [] then Dropped BadTaskClasses
      else Lane
        \<lparr>ln_id = id, ln_gpu = gpu,
         ln_env = [(''OLLAMA_URL'', trim (to_str (jget raw ''ollamaUrl''))), (''LOCAL_MODEL'', model),
                   (''AGENT_MANAGER_GPU_YIELD_APPS'', [])]
                  @ (case num_ctx of Some n \<Rightarrow> [(''AGENT_MANAGER_LANE_NUM_CTX'', int_str n)] | None \<Rightarrow> [])
                  @ (case num_batch of Some n \<Rightarrow> [(''AGENT_MANAGER_LANE_NUM_BATCH'', int_str n)] | None \<Rightarrow> []),
         ln_local = False, ln_slow = (jget raw ''slow'' = JBool True),
         ln_numCtx = num_ctx, ln_numBatch = num_batch,
         ln_reviewer = (jget raw ''reviewer'' = JBool True), ln_reviewerId = ''reviewer-'' @ gpu,
         ln_preempt = preempt, ln_taskClasses = (if tc_set then Some (uniq (task_class_list tc)) else None),
         ln_model = Some model, ln_tier = tier, ln_reserve = reserve, ln_provider = provider,
         ln_registeredModel = None\<rparr>))))"

section \<open>All lanes\<close>

text \<open>The registry file: absent, unreadable or not JSON, or the value it parses to.\<close>

datatype registry_file = FileAbsent | FileUnreadable | FileJson jv

definition read_registry :: "registry_file \<Rightarrow> jv list" where
  "read_registry f =
     (case f of
        FileJson v \<Rightarrow> if is_array v then elems v
                      else if truthy v \<and> is_array (jget v ''lanes'') then elems (jget v ''lanes'')
                      else []
      | _ \<Rightarrow> [])"

definition nonempty_env :: "env \<Rightarrow> string \<Rightarrow> string option" where
  "nonempty_env e k = (case e k of Some s \<Rightarrow> if s = [] then None else Some s | None \<Rightarrow> None)"

definition local_gpu :: "env \<Rightarrow> string \<Rightarrow> string" where
  "local_gpu e gpu_name =
     (let s = slug (JStr (env_str e ''AGENT_MANAGER_LOCAL_GPU''))
      in if s \<noteq> [] then s
         else if gpu_slug_from_name gpu_name \<noteq> [] then gpu_slug_from_name gpu_name else ''local'')"

definition host_lane :: "env \<Rightarrow> string \<Rightarrow> lane" where
  "host_lane e gpu_name =
     (let gpu = local_gpu e gpu_name; id = ''worker-'' @ gpu;
          own = (case nonempty_env e ''AGENT_MANAGER_INSTANCE_ID'' of None \<Rightarrow> True | Some i \<Rightarrow> i = id);
          model = (case nonempty_env e ''AGENT_MANAGER_HOST_LOCAL_MODEL'' of
                     Some m \<Rightarrow> Some m | None \<Rightarrow> if own then nonempty_env e ''LOCAL_MODEL'' else None)
      in \<lparr>ln_id = id, ln_gpu = gpu, ln_env = [], ln_local = True, ln_slow = False, ln_numCtx = None,
          ln_numBatch = None, ln_reviewer = True, ln_reviewerId = ''reviewer'', ln_preempt = PreemptAlways,
          ln_taskClasses = None, ln_model = model, ln_tier = tier_from_model model, ln_reserve = ReserveAuto,
          ln_provider = OllamaProvider, ln_registeredModel = None\<rparr>)"

definition p40_lane :: "env \<Rightarrow> lane option" where
  "p40_lane e =
     (case (nonempty_env e ''AGENT_MANAGER_P40_OLLAMA_URL'', nonempty_env e ''AGENT_MANAGER_P40_MODEL'') of
        (Some url, Some model) \<Rightarrow> Some
          \<lparr>ln_id = ''worker-p40'', ln_gpu = ''p40'',
           ln_env = [(''OLLAMA_URL'', url), (''LOCAL_MODEL'', model), (''AGENT_MANAGER_GPU_YIELD_APPS'', [])],
           ln_local = False, ln_slow = True, ln_numCtx = None, ln_numBatch = None,
           ln_reviewer = (to_lower (trim (env_str e ''AGENT_MANAGER_P40_REVIEWER'')) \<in> set [''1'', ''true'', ''yes'', ''on'']),
           ln_reviewerId = ''reviewer-p40'', ln_preempt = PreemptNever, ln_taskClasses = None,
           ln_model = Some model, ln_tier = tier_from_model (Some model), ln_reserve = ReserveAuto,
           ln_provider = OllamaProvider, ln_registeredModel = None\<rparr>
      | _ \<Rightarrow> None)"

text \<open>Adding a lane: an entry with the id of an earlier lane replaces it in place, unless that is the host.\<close>

fun place_lane :: "lane \<Rightarrow> lane list \<Rightarrow> lane list" where
  "place_lane l [] = [l]"
| "place_lane l (m # ms) =
     (if ln_id m = ln_id l then (if ln_local m then m # ms else l # ms) else m # place_lane l ms)"

fun add_entries :: "(jv \<Rightarrow> bool) \<Rightarrow> jv list \<Rightarrow> lane list \<Rightarrow> lane list" where
  "add_entries valid_url [] lanes = lanes"
| "add_entries valid_url (raw # raws) lanes =
     (case lane_from_entry valid_url raw of
        Lane l \<Rightarrow> add_entries valid_url raws (place_lane l lanes)
      | _ \<Rightarrow> add_entries valid_url raws lanes)"

text \<open>One lane per endpoint: a later lane with an endpoint already seen is dropped; the empty endpoint
  counts as none.\<close>

fun distinct_endpoints :: "string list \<Rightarrow> lane list \<Rightarrow> lane list" where
  "distinct_endpoints seen [] = []"
| "distinct_endpoints seen (l # ls) =
     (case lane_url l of
        None \<Rightarrow> l # distinct_endpoints seen ls
      | Some url \<Rightarrow>
          if url = [] then l # distinct_endpoints seen ls
          else if url \<in> set seen then distinct_endpoints seen ls
          else l # distinct_endpoints (url # seen) ls)"

definition override_lane :: "(string \<Rightarrow> string option) \<Rightarrow> lane \<Rightarrow> lane" where
  "override_lane overrides l =
     (case overrides (ln_id l) of
        None \<Rightarrow> l
      | Some m \<Rightarrow> if m = [] \<or> ln_model l = Some m then l
                 else l\<lparr>ln_model := Some m, ln_registeredModel := Some (ln_model l), ln_tier := tier_from_model (Some m)\<rparr>)"

definition apply_worker_model_overrides :: "(string \<Rightarrow> string option) \<Rightarrow> lane list \<Rightarrow> lane list" where
  "apply_worker_model_overrides overrides lanes = map (override_lane overrides) lanes"

definition get_lanes ::
  "(jv \<Rightarrow> bool) \<Rightarrow> string \<Rightarrow> registry_file \<Rightarrow> (string \<Rightarrow> string option) \<Rightarrow> env \<Rightarrow> lane list" where
  "get_lanes valid_url gpu_name file overrides e =
     (let base = host_lane e gpu_name # (case p40_lane e of Some l \<Rightarrow> [l] | None \<Rightarrow> []);
          lanes = add_entries valid_url (read_registry file) base
      in apply_worker_model_overrides overrides (distinct_endpoints [] lanes))"

definition reviewer_lanes :: "lane list \<Rightarrow> (string \<times> lane) list" where
  "reviewer_lanes lanes = map (\<lambda>l. (ln_reviewerId l, l)) (filter ln_reviewer lanes)"

definition lane_by_id :: "string \<Rightarrow> lane list \<Rightarrow> lane option" where
  "lane_by_id i lanes = find (\<lambda>l. ln_id l = i) lanes"

definition lane_allows_source :: "lane option \<Rightarrow> jv \<Rightarrow> bool" where
  "lane_allows_source lane source_name =
     (case lane of
        None \<Rightarrow> True
      | Some l \<Rightarrow> (case ln_taskClasses l of
                    None \<Rightarrow> True
                  | Some cs \<Rightarrow> is_string source_name \<and> str_of source_name \<in> set cs))"

definition is_slow_lane :: "string \<Rightarrow> lane list \<Rightarrow> bool" where
  "is_slow_lane i lanes =
     (if i = ''worker-p40'' then True else (case lane_by_id i lanes of Some l \<Rightarrow> ln_slow l | None \<Rightarrow> False))"

definition is_slow_endpoint :: "string \<Rightarrow> lane list \<Rightarrow> bool" where
  "is_slow_endpoint url lanes = (if url = [] then False else (\<exists>l\<in>set lanes. ln_slow l \<and> lane_url l = Some url))"

text \<open>\<open>String(u).trim().replace(/\/+$/, '')\<close>.\<close>

definition norm_url :: "string option \<Rightarrow> string" where
  "norm_url u =
     (let s = trim (case u of Some s \<Rightarrow> s | None \<Rightarrow> ''undefined'')
      in rev (dropWhile (\<lambda>c. c = CHR ''/'') (rev s)))"

definition is_cloud_endpoint :: "string \<Rightarrow> lane list \<Rightarrow> bool" where
  "is_cloud_endpoint url lanes =
     (if url = [] then False else (\<exists>l\<in>set lanes. ln_provider l = CloudProvider \<and> norm_url (lane_url l) = norm_url (Some url)))"

definition is_script_endpoint :: "string \<Rightarrow> lane list \<Rightarrow> bool" where
  "is_script_endpoint url lanes =
     (if url = [] then False else (\<exists>l\<in>set lanes. ln_provider l = ScriptProvider \<and> norm_url (lane_url l) = norm_url (Some url)))"

text \<open>\<open>dashboard-settings.json\<close>'s \<open>workerModelOverrides\<close>, \<open>readWorkerModelOverrides\<close>.\<close>

definition override_of :: "jv \<Rightarrow> string option" where
  "override_of v =
     (if \<not> is_string v then None
      else let s = trim (str_of v)
           in if s = [] \<or> starts_with ''claude:'' s then None
              else if starts_with ''ollama:'' s then Some (drop 7 s) else Some s)"

definition read_worker_model_overrides :: "jv outcome \<Rightarrow> string \<Rightarrow> string option" where
  "read_worker_model_overrides settings =
     (case settings of
        Throws \<Rightarrow> (\<lambda>_. None)
      | Returns raw \<Rightarrow>
          (let m = jget raw ''workerModelOverrides''
           in if \<not> truthy raw \<or> \<not> is_object m then (\<lambda>_. None)
              else (\<lambda>i. if jget m i = JUndef then None else override_of (jget m i))))"

definition effective_lane_model :: "lane \<Rightarrow> (string \<Rightarrow> string option) \<Rightarrow> string option" where
  "effective_lane_model l overrides =
     (let filled = (\<lambda>m. case m of Some s \<Rightarrow> s \<noteq> [] | None \<Rightarrow> False);
          registered = map_of (ln_env l) ''LOCAL_MODEL''
      in if filled (overrides (ln_id l)) then overrides (ln_id l)
         else if filled (ln_model l) then ln_model l
         else if filled registered then registered else None)"

section \<open>What a registry entry can become\<close>

definition registry_lane_ok :: "lane \<Rightarrow> bool" where
  "registry_lane_ok l \<longleftrightarrow>
     lane_id_ok (ln_id l) \<and> \<not> ln_local l \<and> lane_url l \<noteq> None \<and> (\<exists>m. ln_model l = Some m \<and> m \<noteq> [])
     \<and> (\<forall>n. ln_numCtx l = Some n \<longrightarrow> 2048 \<le> n \<and> n \<le> 131072)
     \<and> (\<forall>n. ln_numBatch l = Some n \<longrightarrow> 32 \<le> n \<and> n \<le> 8192)
     \<and> (\<forall>cs. ln_taskClasses l = Some cs \<longrightarrow> cs \<noteq> [] \<and> distinct cs \<and> [] \<notin> set cs)
     \<and> (ln_provider l \<noteq> OllamaProvider \<longrightarrow>
          ln_taskClasses l \<noteq> None \<and> ln_preempt l = PreemptNever \<and> \<not> ln_reviewer l
          \<and> ln_numCtx l = None \<and> ln_numBatch l = None)"

lemma whole_number_between_bounds:
  "whole_number_between lo hi v = Some n \<Longrightarrow> lo \<le> n \<and> n \<le> hi"
  by (induction lo hi v rule: whole_number_between.induct) (auto split: if_splits)

lemma task_class_list_nonempty: "[] \<notin> set (task_class_list v)"
  by (simp add: task_class_list_def)

text \<open>The checks of \<open>lane_from_entry\<close> are a chain; a lane comes out only when each one passes.\<close>

definition any_lane :: "(lane \<Rightarrow> bool) \<Rightarrow> entry_result \<Rightarrow> bool" where
  "any_lane P r \<longleftrightarrow> (\<forall>l. r = Lane l \<longrightarrow> P l)"

lemma any_lane_chain:
  "(\<not> c \<Longrightarrow> any_lane P r) \<Longrightarrow> any_lane P (if c then Dropped p else r)"
  "(\<not> c \<Longrightarrow> any_lane P r) \<Longrightarrow> any_lane P (if c then SwitchedOff else r)"
  "(\<And>y. x = Some y \<Longrightarrow> any_lane P (f y)) \<Longrightarrow> any_lane P (case x of None \<Rightarrow> Dropped p | Some y \<Rightarrow> f y)"
  "(\<And>z. z = a \<Longrightarrow> any_lane P (g z)) \<Longrightarrow> any_lane P (let z = a in g z)"
  "P l \<Longrightarrow> any_lane P (Lane l)"
  by (auto simp: any_lane_def split: option.splits)

lemma whole_number_opt:
  "z = (if c then whole_number_between lo hi v else None) \<Longrightarrow> \<forall>n. z = Some n \<longrightarrow> lo \<le> n \<and> n \<le> hi"
  by (auto split: if_splits dest: whole_number_between_bounds)

lemma unbounded_opt: "z = (if c then x else None) \<Longrightarrow> c = (\<not> b \<and> d) \<Longrightarrow> b \<longrightarrow> z = None"
  by simp

lemma class_list_opt:
  "tc_set = (\<not> nullish tc) \<Longrightarrow> \<not> (tc_set \<and> task_class_list tc = []) \<Longrightarrow>
     \<forall>cs. (if tc_set then Some (uniq (task_class_list tc)) else None) = Some cs
        \<longrightarrow> cs \<noteq> [] \<and> distinct cs \<and> [] \<notin> set cs"
  by (auto simp: task_class_list_nonempty split: if_splits)

lemma lane_from_entry_chain: "any_lane registry_lane_ok (lane_from_entry valid_url raw)"
  unfolding lane_from_entry_def
  apply (intro any_lane_chain)
  apply (unfold registry_lane_ok_def lane.select_convs lane_url_def)
  apply (intro conjI)
  subgoal by simp
  subgoal by simp
  subgoal by simp
  subgoal by simp
  subgoal by (erule whole_number_opt)
  subgoal by (erule whole_number_opt)
  subgoal by (erule (1) class_list_opt)
  subgoal by simp blast
  done

lemma lane_from_entry_ok: "lane_from_entry valid_url raw = Lane l \<Longrightarrow> registry_lane_ok l"
  using lane_from_entry_chain by (simp add: any_lane_def)

lemma lane_from_entry_remote: "lane_from_entry valid_url raw = Lane l \<Longrightarrow> \<not> ln_local l"
  using lane_from_entry_ok registry_lane_ok_def by blast

section \<open>Invariants of the lane list\<close>

definition lanes_wf :: "lane list \<Rightarrow> bool" where
  "lanes_wf ls \<longleftrightarrow> distinct (map ln_id ls) \<and> ls \<noteq> [] \<and> ln_local (hd ls) \<and> lane_url (hd ls) = None
     \<and> (\<forall>l\<in>set (tl ls). \<not> ln_local l)"

lemma place_lane_ids: "set (map ln_id (place_lane l ls)) = insert (ln_id l) (set (map ln_id ls))"
  by (induction ls) auto

lemma place_lane_distinct: "distinct (map ln_id ls) \<Longrightarrow> distinct (map ln_id (place_lane l ls))"
proof (induction ls)
  case Nil
  then show ?case by simp
next
  case (Cons m ms)
  then show ?case using place_lane_ids [of l ms] by auto
qed

lemma place_lane_locals:
  "\<not> ln_local l \<Longrightarrow> \<forall>m\<in>set ls. \<not> ln_local m \<Longrightarrow> m \<in> set (place_lane l ls) \<Longrightarrow> \<not> ln_local m"
  by (induction ls) (auto split: if_splits)

lemma place_lane_wf: "\<not> ln_local l \<Longrightarrow> lanes_wf ls \<Longrightarrow> lanes_wf (place_lane l ls)"
  using place_lane_distinct [of ls l] place_lane_locals [of l "tl ls"]
  by (cases ls) (auto simp: lanes_wf_def)

lemma place_lane_host: "ls \<noteq> [] \<Longrightarrow> ln_local (hd ls) \<Longrightarrow> hd (place_lane l ls) = hd ls"
  by (cases ls) auto

lemma add_entries_wf: "lanes_wf ls \<Longrightarrow> lanes_wf (add_entries valid_url raws ls)"
proof (induction raws arbitrary: ls)
  case Nil
  then show ?case by simp
next
  case (Cons raw raws)
  then show ?case
    using place_lane_wf lane_from_entry_remote by (auto split: entry_result.splits)
qed

lemma add_entries_host: "lanes_wf ls \<Longrightarrow> hd (add_entries valid_url raws ls) = hd ls"
proof (induction raws arbitrary: ls)
  case Nil
  then show ?case by simp
next
  case (Cons raw raws)
  have "hd (add_entries valid_url raws (place_lane l ls)) = hd ls"
    if "lane_from_entry valid_url raw = Lane l" for l
  proof -
    from that Cons.prems have "lanes_wf (place_lane l ls)"
      by (intro place_lane_wf lane_from_entry_remote)
    with Cons show ?thesis by (simp add: place_lane_host lanes_wf_def)
  qed
  with Cons show ?case by (auto split: entry_result.splits)
qed

lemma distinct_endpoints_set: "set (distinct_endpoints seen ls) \<subseteq> set ls"
  by (induction seen ls rule: distinct_endpoints.induct) (auto split: option.splits if_splits)

lemma distinct_endpoints_distinct:
  "distinct (map ln_id ls) \<Longrightarrow> distinct (map ln_id (distinct_endpoints seen ls))"
proof (induction seen ls rule: distinct_endpoints.induct)
  case (1 seen)
  then show ?case by simp
next
  case (2 seen l ls)
  have "ln_id l \<notin> ln_id ` set (distinct_endpoints s ls)" for s
    using 2(5) distinct_endpoints_set [of s ls] by auto
  with 2 show ?case by (auto split: option.splits)
qed

lemma distinct_endpoints_head:
  "ls \<noteq> [] \<Longrightarrow> lane_url (hd ls) = None \<Longrightarrow>
     distinct_endpoints seen ls = hd ls # distinct_endpoints seen (tl ls)"
  by (cases ls) auto

lemma distinct_endpoints_wf: "lanes_wf ls \<Longrightarrow> lanes_wf (distinct_endpoints [] ls)"
  using distinct_endpoints_distinct [of ls "[]"] distinct_endpoints_head [of ls "[]"]
    distinct_endpoints_set [of "[]" "tl ls"]
  by (auto simp: lanes_wf_def)

definition endpoints :: "lane list \<Rightarrow> string list" where
  "endpoints ls = concat (map (\<lambda>l. case lane_url l of None \<Rightarrow> [] | Some u \<Rightarrow> if u = [] then [] else [u]) ls)"

lemma endpoints_simps [simp]:
  "endpoints [] = []"
  "endpoints (l # ls) = (case lane_url l of None \<Rightarrow> [] | Some u \<Rightarrow> if u = [] then [] else [u]) @ endpoints ls"
  by (simp_all add: endpoints_def)

lemma distinct_endpoints_ok:
  "distinct (endpoints (distinct_endpoints seen ls))
   \<and> set (endpoints (distinct_endpoints seen ls)) \<inter> set seen = {}"
  by (induction seen ls rule: distinct_endpoints.induct) (auto split: option.splits)

lemma distinct_endpoints_all:
  "set (endpoints ls) \<subseteq> set (endpoints (distinct_endpoints seen ls)) \<union> set seen"
  by (induction seen ls rule: distinct_endpoints.induct) (auto split: option.splits)

lemma override_lane_frame [simp]:
  "ln_id (override_lane ov l) = ln_id l" "ln_local (override_lane ov l) = ln_local l"
  "ln_env (override_lane ov l) = ln_env l" "ln_taskClasses (override_lane ov l) = ln_taskClasses l"
  by (auto simp: override_lane_def split: option.splits)

lemma override_lane_url [simp]: "lane_url (override_lane ov l) = lane_url l"
  by (simp add: lane_url_def)

lemma overrides_wf: "lanes_wf ls \<Longrightarrow> lanes_wf (apply_worker_model_overrides ov ls)"
  by (cases ls) (auto simp: lanes_wf_def apply_worker_model_overrides_def comp_def)

lemma overrides_endpoints [simp]: "endpoints (apply_worker_model_overrides ov ls) = endpoints ls"
  by (induction ls) (simp_all add: apply_worker_model_overrides_def)

lemma p40_lane_id: "p40_lane e = Some l \<Longrightarrow> ln_id l = ''worker-p40'' \<and> \<not> ln_local l"
  by (auto simp: p40_lane_def split: option.splits)

end
