(* ===== verification/PremiumRotation.thy ===== *)
theory PremiumRotation
  imports Lanes JsDate
begin

text \<open>
  \<open>src/premium-rotation.js\<close>: a premium task that keeps getting blocked rotates behind fresh premium
  work, and a task that failed on a lane is steered to another one while there is one. \<open>now\<close> is the
  clock in milliseconds.
\<close>

definition DEFAULT_ATTEMPTS :: jnum where "DEFAULT_ATTEMPTS = Fin 2"
definition DEFAULT_WINDOW_MIN :: jnum where "DEFAULT_WINDOW_MIN = Fin 180"
definition ROTATION_DEMOTED_PRIORITY :: jnum where "ROTATION_DEMOTED_PRIORITY = Fin (- 1000000000)"

definition off :: "env \<Rightarrow> string \<Rightarrow> bool" where
  "off e k \<longleftrightarrow> to_lower (trim (env_str e k)) = ''off''"

definition rotation_enabled :: "env \<Rightarrow> bool" where
  "rotation_enabled e \<longleftrightarrow> \<not> off e ''AGENT_MANAGER_PREMIUM_ROTATION''"

definition lane_avoidance_enabled :: "env \<Rightarrow> bool" where
  "lane_avoidance_enabled e \<longleftrightarrow> \<not> off e ''AGENT_MANAGER_LANE_AVOIDANCE''"

definition positive_number :: "jnum \<Rightarrow> jnum \<Rightarrow> jnum" where
  "positive_number n fallback = (if is_finite n \<and> jlt (Fin 0) n then n else fallback)"

fun times_minute :: "jnum \<Rightarrow> jnum" where
  "times_minute (Fin q) = Fin (q * 60000)"
| "times_minute x = x"

text \<open>\<open>a.finishedAt || a.at || ''\<close> of a draft attempt.\<close>

definition attempt_time :: "jv \<Rightarrow> jnum" where
  "attempt_time a =
     date_parse (if truthy (jget a ''finishedAt'') then jget a ''finishedAt''
                 else if truthy (jget a ''at'') then jget a ''at'' else JStr [])"

definition blocked_recently :: "jnum \<Rightarrow> jnum \<Rightarrow> jv \<Rightarrow> bool" where
  "blocked_recently window_ms now a \<longleftrightarrow>
     truthy a \<and> jget a ''outcome'' = JStr ''blocked''
     \<and> is_finite (attempt_time a)
     \<and> jle (jsub now (attempt_time a)) window_ms
     \<and> jle (Fin (- 60000)) (jsub now (attempt_time a))"

fun count_blocked :: "jnum \<Rightarrow> jnum \<Rightarrow> jv list \<Rightarrow> nat \<Rightarrow> nat" where
  "count_blocked window_ms now [] n = n"
| "count_blocked window_ms now (a # as) n =
     count_blocked window_ms now as (if blocked_recently window_ms now a then Suc n else n)"

definition recent_blocked_attempts :: "jv \<Rightarrow> jnum \<Rightarrow> jnum \<Rightarrow> nat" where
  "recent_blocked_attempts task window_ms now = count_blocked window_ms now (elems (jget task ''draftAttempts'')) 0"

definition rotation_demoted :: "env \<Rightarrow> jnum \<Rightarrow> jv \<Rightarrow> bool" where
  "rotation_demoted e now task =
     (if \<not> truthy task \<or> \<not> truthy (jget task ''premiumPriority'') \<or> \<not> rotation_enabled e then False
      else
        let attempts = positive_number (env_number e ''AGENT_MANAGER_PREMIUM_ROTATION_ATTEMPTS'') DEFAULT_ATTEMPTS;
            window_ms = times_minute (positive_number (env_number e ''AGENT_MANAGER_PREMIUM_ROTATION_WINDOW_MIN'') DEFAULT_WINDOW_MIN)
        in jle attempts (Fin (real (recent_blocked_attempts task window_ms now))))"

lemma count_blocked_length:
  "count_blocked w now as n = n + length (filter (blocked_recently w now) as)"
  by (induction as arbitrary: n) auto

section \<open>Lane avoidance\<close>

definition avoid_lanes :: "jv \<Rightarrow> jv list" where
  "avoid_lanes task = elems (jget task ''avoidLanes'')"

record avoid_ctx =
  av_lanes :: "lane list"
  av_source :: jv
  av_alive :: "string \<Rightarrow> bool"

definition lane_avoided :: "env \<Rightarrow> jv \<Rightarrow> string \<Rightarrow> nat \<Rightarrow> avoid_ctx option \<Rightarrow> bool" where
  "lane_avoided e task instance_id lane_count ctx =
     (if \<not> truthy task \<or> \<not> lane_avoidance_enabled e then False
      else if \<not> is_array (jget task ''avoidLanes'') \<or> JStr instance_id \<notin> set (avoid_lanes task) then False
      else if jget task ''pinnedWorker'' = JStr instance_id then False
      else if \<not> 1 < lane_count then False
      else (case ctx of
              None \<Rightarrow> True
            | Some c \<Rightarrow> (\<exists>l\<in>set (av_lanes c). ln_id l \<noteq> instance_id \<and> JStr (ln_id l) \<notin> set (avoid_lanes task)
                                            \<and> lane_allows_source (Some l) (av_source c) \<and> av_alive c (ln_id l))))"

definition lane_tier :: "lane \<Rightarrow> jnum option" where
  "lane_tier l = (case ln_tier l of Some t \<Rightarrow> if is_finite t then Some t else None | None \<Rightarrow> None)"

definition has_bigger_lane :: "lane \<Rightarrow> lane list \<Rightarrow> bool" where
  "has_bigger_lane l lanes =
     (case lane_tier l of
        None \<Rightarrow> False
      | Some mine \<Rightarrow> (\<exists>m\<in>set lanes. ln_id m \<noteq> ln_id l
                        \<and> (case lane_tier m of Some t \<Rightarrow> jlt mine t | None \<Rightarrow> False)))"

definition last_lane :: "jv \<Rightarrow> jv" where
  "last_lane task =
     (let attempts = elems (jget task ''draftAttempts'')
      in if attempts = [] then JNull else jget (last attempts) ''lane'')"

fun set_field :: "jv \<Rightarrow> string \<Rightarrow> jv \<Rightarrow> jv" where
  "set_field (JObj kvs) k v = JObj (filter (\<lambda>p. fst p \<noteq> k) kvs @ [(k, v)])"
| "set_field v k x = v"

lemma jget_set_field [simp]:
  "jget (set_field (JObj kvs) k v) k' = (if k' = k then v else jget (JObj kvs) k')"
proof -
  have "map_of (rev (filter (\<lambda>p. fst p \<noteq> k) kvs)) k' = map_of (rev kvs) k'" if "k' \<noteq> k"
    using that by (induction kvs rule: rev_induct) (auto split: if_splits)
  then show ?thesis by simp
qed

text \<open>\<open>recordAvoidedLane\<close> mutates the task; it answers the lane it added, or nothing.\<close>

definition record_avoided_lane :: "env \<Rightarrow> jv \<Rightarrow> nat \<Rightarrow> lane list option \<Rightarrow> jv \<times> string option" where
  "record_avoided_lane e task lane_count lanes =
     (if \<not> truthy task \<or> \<not> lane_avoidance_enabled e \<or> \<not> 1 < lane_count then (task, None)
      else (case last_lane task of
        JStr lane \<Rightarrow>
          if lane = [] then (task, None)
          else if (case lanes of
                     None \<Rightarrow> False
                   | Some ls \<Rightarrow> (case find (\<lambda>l. ln_id l = lane) ls of
                                  None \<Rightarrow> False
                                | Some d \<Rightarrow> lane_tier d \<noteq> None \<and> \<not> has_bigger_lane d ls))
          then (task, None)
          else if JStr lane \<in> set (avoid_lanes task) then (task, None)
          else (set_field task ''avoidLanes'' (JArr (avoid_lanes task @ [JStr lane])), Some lane)
      | _ \<Rightarrow> (task, None)))"

definition describe_top_tier_failure :: "jv \<Rightarrow> lane list option \<Rightarrow> string \<Rightarrow> (string \<times> string) option" where
  "describe_top_tier_failure task lanes failure_class =
     (case (truthy task, lanes) of
        (True, Some ls) \<Rightarrow>
          (case last_lane task of
             JStr lane_id \<Rightarrow>
               (case find (\<lambda>l. ln_id l = lane_id) ls of
                  None \<Rightarrow> None
                | Some lane \<Rightarrow>
                    if lane_tier lane = None \<or> has_bigger_lane lane ls then None
                    else
                      let model = (case ln_model lane of Some m \<Rightarrow> if m = [] then ''unknown model'' else m
                                                       | None \<Rightarrow> ''unknown model'')
                      in Some (failure_class @ '' on the biggest lane ('' @ ln_id lane @ '', '' @ model @ '')'',
                           join (replicate 2 (char_of (10 :: nat)))
                             [''A draft attempt hit \"'' @ failure_class @ ''\" on '' @ ln_id lane @ '' running '' @ model
                              @ '', which is the biggest-tier lane, so there is no bigger lane to steer the retry to and the task was NOT marked to avoid it.'',
                              ''Lane avoidance is for moving a task off a smaller lane. A repeat failure on the biggest lane is a systemic problem (prompt size, output budget, think mode, model), not something to route around.'',
                              ''Look at the draft-attempt records of tasks carrying this failure on this lane: their output length versus the cap, whether thinking was on, and the plan prompt size.'']))
           | _ \<Rightarrow> None)
      | _ \<Rightarrow> None)"

text \<open>A lane that avoidance records always has a strictly bigger one above it, or an unknown tier.\<close>

lemma record_avoided_lane_added:
  assumes "record_avoided_lane e task n (Some ls) = (task', Some lane)"
    and "find (\<lambda>l. ln_id l = lane) ls = Some d" and "lane_tier d \<noteq> None"
  shows "has_bigger_lane d ls"
  using assms by (auto simp: record_avoided_lane_def split: if_splits jv.splits)

end
