(* ===== verification/RejectRetry.thy ===== *)
theory RejectRetry
  imports RejectChecks PremiumRotation QueueSweeps
begin

text \<open>
  \<open>src/reject-retry-check.js\<close>: what becomes of a task that is blocked before or at review. A block whose gate was wrong is
  readmitted once with a clean slate, one that a redraft cannot mend goes to a human at once, and everything else is
  redrafted with feedback at most twice, then escalated or stamped. The sweep reads \<open>blocked\<close> and the blocked tasks of
  the inboxes. The registered sources, the gates, the files of the repository and the lanes are arguments. An exception
  while handling a file is counted and leaves the file as it is. The cross-process lock around a move is left out.
\<close>

definition MAX_LOCAL_REJECT_RETRIES :: nat where "MAX_LOCAL_REJECT_RETRIES = 2"
definition MAX_INFRA_SORT_ATTEMPTS :: nat where "MAX_INFRA_SORT_ATTEMPTS = 10"

definition READMIT_CLEAN_SLATE_FIELDS :: "string list" where
  "READMIT_CLEAN_SLATE_FIELDS =
     [''needsClarification'', ''localRejectCount'', ''ncTriageAttempts'', ''ncTriageBucketAttempts'', ''ncTriageDecision'', ''ncTriageReviewedAt'',
      ''retryableDraftBlock'', ''turnBudgetExhausted'', ''turnBudgetExhaustedBefore'',
      ''infraErrorRetry'', ''infraErrorNote'', ''adhocResolution'', ''subTaskProposals'',
      ''priorRejectionFeedback'', ''rawDiff'', ''implementResponse'', ''blockedReason'', ''blockedStage'', ''claimedAt'',
      ''isAgenticContinuation'', ''agenticContinuationCount'', ''agenticContinuationNote'', ''priorPartialDiff'',
      ''adhocDiffSubstanceFeedback'', ''adhocNoChangesClaimFeedback'', ''premiseReadmitCount'', ''_prevBlockSignature'', ''reviewInconclusive'']"

record reject_world =
  jw_now :: string
  jw_noAutoRetry :: "jv \<Rightarrow> bool outcome"
  jw_validate :: "jv \<Rightarrow> (jv \<Rightarrow> bool outcome) option"
  jw_targets :: "jv \<Rightarrow> string list outcome"
  jw_premise :: "(jv \<Rightarrow> string list \<Rightarrow> string list \<Rightarrow> bool outcome) option"
  jw_external :: "jv \<Rightarrow> bool outcome"
  jw_hash :: "string \<Rightarrow> string option"
  jw_fulfillment :: "jv \<Rightarrow> bool"
  jw_advisory :: "jv \<Rightarrow> bool"
  jw_clarify :: bool
  jw_adhoc :: bool
  jw_derived :: bool
  jw_ghost :: bool
  jw_approved :: bool
  jw_lanes :: "lane list"
  jw_env :: env

definition is_adhoc_task :: "jv \<Rightarrow> bool" where
  "is_adhoc_task task \<longleftrightarrow> jget task ''domain'' = JStr ''adhoc'' \<or> jget task ''source'' = JStr ''manual''"

definition REVIEW_VERDICT_ADVISORY_PROSE_EXCLUDED :: "string list" where
  "REVIEW_VERDICT_ADVISORY_PROSE_EXCLUDED = [''pipeline_forensics'', ''pipeline_debrief'', ''capability_debrief'']"

definition is_review_verdict_source :: "reject_world \<Rightarrow> jv \<Rightarrow> bool" where
  "is_review_verdict_source w source \<longleftrightarrow> jw_advisory w source \<and> source \<notin> JStr ` set REVIEW_VERDICT_ADVISORY_PROSE_EXCLUDED"

section \<open>Questions after the last retry\<close>

definition all_reasons :: "jv \<Rightarrow> jv list" where
  "all_reasons task =
     filter truthy (prior_feedback task @ (if truthy (jget task ''blockedReason'') then [JStr (to_str (jget task ''blockedReason''))] else []))"

definition numbered :: "jv list \<Rightarrow> string list" where
  "numbered rs = map (\<lambda>(i, r). ''  '' @ nat_str (i + 1) @ ''. '' @ to_str r) (zip [0..<length rs] rs)"

definition build_exhausted_adhoc_question :: "jv \<Rightarrow> string" where
  "build_exhausted_adhoc_question task =
     join newline
       ([if jget task ''adhocResolution'' = JStr ''no-changes-needed''
         then ''The automated handler concluded this needs NO changes (RESOLUTION: no-changes-needed), but review rejected that every time:''
         else ''The automated handler could not get this past review after '' @ nat_str (MAX_LOCAL_REJECT_RETRIES + 1) @ '' attempts:'']
        @ numbered (all_reasons task)
        @ [[], ''If this is a request to EXTEND an existing feature (a '' @ [CHR 0x22] @ ''should also'' @ [CHR 0x22] @ '', a '' @ [CHR 0x22]
             @ ''when X, also Y'' @ [CHR 0x22] @ '', ''
             @ ''or it names a different object than a similarly-named feature already covers), say ''
             @ ''exactly what should change and which file(s). If it is genuinely already done, use Archive.''])"

definition build_exhausted_fulfillment_question :: "jv \<Rightarrow> string" where
  "build_exhausted_fulfillment_question task =
     join newline
       ([''The automated handler could not get this candidate past review/apply after '' @ nat_str (MAX_LOCAL_REJECT_RETRIES + 1) @ '' attempts:'']
        @ numbered (all_reasons task)
        @ [[], ''Common cause: the candidate's citation (file/line/find-string) no longer matches the ''
             @ ''real source -- something else may have already changed or fixed it; check the real ''
             @ ''file before redrafting. If the underlying issue is already fixed, Archive this task. ''
             @ ''If the citation is just stale, correct it and requeue. Otherwise, say what a fresh ''
             @ ''draft needs to do differently.''])"

definition build_exhausted_review_verdict_question :: "jv \<Rightarrow> string" where
  "build_exhausted_review_verdict_question task =
     join newline
       ([''The automated handler could not render a verdict that passed review after '' @ nat_str (MAX_LOCAL_REJECT_RETRIES + 1) @ '' attempts:'']
        @ numbered (all_reasons task)
        @ [[], ''Common causes: the flagged snippet genuinely needs more surrounding context to judge ''
             @ ''(the model kept refusing to commit to GENUINE/FALSE POSITIVE/UNCERTAIN, or omitted ''
             @ ''the required verdict label), or a claimed finding is contradicted by the real ''
             @ ''grounding source shown to the model. Read the flagged snippet/finding yourself: if ''
             @ ''it's a real issue, render the verdict directly and Approve; if it's a false positive, ''
             @ ''Archive it. If more real context would let a fresh draft succeed, say what to fetch.''])"

section \<open>One step\<close>

datatype reject_action =
    NotOurs
  | Recovered | Readmitted
  | EscalatedNow | SameBlock | RetriesUsed | Redrafted
  | RejectFailed

record reject_step =
  rj_action :: reject_action
  rj_place :: placement
  rj_debt :: "string option"
  rj_outcome :: "(string \<times> jv) option"
  rj_finding :: "(string \<times> string) option"
  rj_stamps :: bool

definition reject_step_of :: "reject_action \<Rightarrow> placement \<Rightarrow> reject_step" where
  "reject_step_of a p = \<lparr>rj_action = a, rj_place = p, rj_debt = None, rj_outcome = None, rj_finding = None, rj_stamps = False\<rparr>"

definition rejected_failed :: reject_step where
  "rejected_failed = reject_step_of RejectFailed Untouched"

definition owing :: "reject_world \<Rightarrow> string \<Rightarrow> reject_step \<Rightarrow> reject_step" where
  "owing w site st = (if jw_ghost w then st\<lparr>rj_debt := Some site\<rparr> else st)"

definition unblock_status :: "jv \<Rightarrow> jv" where
  "unblock_status task = (if jget task ''status'' = JStr ''blocked'' then obj_put task ''status'' (JStr ''pending'') else task)"

definition requeue_dir :: "reject_world \<Rightarrow> jv \<Rightarrow> string" where
  "requeue_dir w task =
     (if jget task ''source'' = JStr ''derived_task'' \<and> jw_derived w then ''derived''
      else if is_adhoc_task task \<and> jw_adhoc w then ''adhoc'' else ''pending'')"

definition clean_slate :: "jv \<Rightarrow> jv" where
  "clean_slate task = fold (\<lambda>f t. obj_del t f) READMIT_CLEAN_SLATE_FIELDS task"

definition readmit :: "reject_world \<Rightarrow> string \<Rightarrow> jv \<Rightarrow> string \<Rightarrow> string \<Rightarrow> jv \<Rightarrow> reject_step" where
  "readmit w flag v why outcome_reason task =
     (let t = append_history_event (jw_now w) ''requeued'' (Some why) (unblock_status (obj_put (clean_slate task) flag v))
      in (reject_step_of Readmitted (MovedTo (requeue_dir w t) t))\<lparr>rj_outcome := Some (''requeued'', JStr outcome_reason)\<rparr>)"

definition recover :: "reject_world \<Rightarrow> jv \<Rightarrow> reject_step" where
  "recover w task =
     (let t = append_history_event (jw_now w) ''approved''
                (Some ''reject-retry-check: deterministic-review-recovery -- re-validated against the existing implementResponse, now passes'')
                (unblocked (obj_put (obj_put (obj_put task ''reviewedAt'' (JStr (jw_now w)))
                  ''reviewProvider'' (JStr ''deterministic-review-recovery''))
                  ''localVerdict'' (JStr ''Auto-approved on re-check: the deterministic rule that originally blocked this has since been fixed, and the existing (unchanged) classification now passes it -- no redraft needed.'')))
      in (reject_step_of Recovered (if jw_approved w then MovedTo ''approved'' t else Untouched))
           \<lparr>rj_outcome := Some (''approved'', JStr ''deterministic-review-recovery'')\<rparr>)"

definition escalate :: "reject_world \<Rightarrow> string \<Rightarrow> jv \<Rightarrow> jv \<Rightarrow> string \<Rightarrow> jv \<Rightarrow> reject_step" where
  "escalate w site reason question detail task =
     owing w site (reject_step_of EscalatedNow (MovedTo ''needs-clarification''
       (append_history_event (jw_now w) ''needs-clarification'' (Some detail)
         (obj_put task ''needsClarification'' (JObj [(''reason'', reason), (''openQuestions'', question)])))))"

section \<open>The retries are used up\<close>

definition used_retries :: "jnum \<Rightarrow> string" where
  "used_retries n = num_str n @ ''/2 retries used''"

definition exhausted_question :: "reject_world \<Rightarrow> jv \<Rightarrow> string" where
  "exhausted_question w task =
     (if jw_fulfillment w (jget task ''source'') then build_exhausted_fulfillment_question task
      else if is_review_verdict_source w (jget task ''source'') then build_exhausted_review_verdict_question task
      else build_exhausted_adhoc_question task)"

definition handle_exhaustion :: "reject_world \<Rightarrow> jv \<Rightarrow> jnum \<Rightarrow> reject_step" where
  "handle_exhaustion w task n =
     (if (is_adhoc_task task \<or> jw_fulfillment w (jget task ''source'') \<or> is_review_verdict_source w (jget task ''source'')) \<and> jw_clarify w
      then if already_escalated_since_last_readmission task then reject_step_of RetriesUsed Untouched
           else case classify_blocked_task task of
             Throws \<Rightarrow> rejected_failed
           | Returns (v, _) \<Rightarrow>
               let category = (if vd_category v \<noteq> ''uncategorized'' then vd_category v else ''design-decision'');
                   t = obj_put task ''needsClarification'' (JObj
                         [(''reason'', JStr (if truthy (jget task ''infraErrorBefore'') then ''infra-error'' else category)),
                          (''openQuestions'', JStr (exhausted_question w task))])
               in owing w ''reject-retry-check:retry-cap-exhausted'' (reject_step_of RetriesUsed (MovedTo ''needs-clarification''
                    (append_history_event (jw_now w) ''needs-clarification'' (Some ''escalated to a human after exhausting redraft retries'')
                      (append_history_event (jw_now w) ''exhausted'' (Some (used_retries n)) t))))
      else case some_stage ''exhausted'' (elems (jget task ''history'')) of
             Throws \<Rightarrow> rejected_failed
           | Returns True \<Rightarrow> reject_step_of RetriesUsed Untouched
           | Returns False \<Rightarrow>
               (reject_step_of RetriesUsed (InPlace (append_history_event (jw_now w) ''exhausted'' (Some (used_retries n)) task)))\<lparr>rj_stamps := True\<rparr>)"

section \<open>What an exhausted task leaves with its source\<close>

text \<open>The coverage file and the brain dump as they are written, \<open>None\<close> when nothing is: an exception is caught before the write.\<close>

fun find_entry_where :: "(jv \<Rightarrow> bool outcome) \<Rightarrow> jv list \<Rightarrow> nat option outcome" where
  "find_entry_where P [] = Returns None"
| "find_entry_where P (c # cs) =
     and_then (P c) (\<lambda>b. if b then Returns (Some 0) else and_then (find_entry_where P cs) (\<lambda>r. Returns (map_option Suc r)))"

definition put_elem :: "jv \<Rightarrow> string \<Rightarrow> nat \<Rightarrow> jv \<Rightarrow> jv" where
  "put_elem v k i x = obj_put v k (JArr ((elems (jget v k))[i := x]))"

definition stamp_deep_dive_exhausted :: "string \<Rightarrow> jv \<Rightarrow> jv \<Rightarrow> jv option" where
  "stamp_deep_dive_exhausted now task coverage =
     (let c = jget task ''promptContext''; slug = to_str (jget c ''projectSlug''); projects = jget coverage ''projects''; proj = jget projects slug
      in if jget task ''source'' \<noteq> JStr ''deep_dive'' \<or> \<not> truthy c \<or> \<not> truthy (jget c ''projectSlug'') \<or> nullish (jget c ''communityId'') then None
         else if nullish coverage \<or> \<not> truthy proj \<or> \<not> is_array (jget proj ''communities'') then None
         else case find_entry_where (\<lambda>e. if nullish e then Throws else Returns (strict_eq (jget e ''id'') (JNum (to_number (jget c ''communityId'')))))
                     (elems (jget proj ''communities'')) of
           Returns (Some i) \<Rightarrow>
             let e = elems (jget proj ''communities'') ! i
             in if truthy (jget e ''lastReviewedAt'') then None
                else Some (obj_put coverage ''projects'' (obj_put projects slug (put_elem proj ''communities'' i
                       (obj_put (obj_put e ''lastReviewedAt'' (JStr now)) ''actionItemCount'' (JNum (Fin (- 1)))))))
         | _ \<Rightarrow> None)"

text \<open>A failure of the infrastructure has a counter of its own and leaves the sort attempts alone.\<close>

definition or_zero :: "jv \<Rightarrow> jv" where
  "or_zero v = (if truthy v then v else JNum (Fin 0))"

definition infra_sort_attempt :: "string \<Rightarrow> jv \<Rightarrow> jv \<Rightarrow> jv \<Rightarrow> jv" where
  "infra_sort_attempt now endpoint reason entry =
     (let n = plus_one (or_zero (jget entry ''infraSortAttemptCount''))
      in obj_put (obj_put (obj_put entry
           ''infraSortAttempts'' (JArr (elems (jget entry ''infraSortAttempts'') @ [JObj [(''ts'', JStr now), (''endpoint'', endpoint),
              (''blockedReason'', reason), (''category'', JStr ''infra-error'')]])))
           ''infraSortAttemptCount'' n)
           ''infraSortExhausted'' (JBool (jlt (Fin (real MAX_INFRA_SORT_ATTEMPTS)) (to_number n))))"

definition sort_budget_action :: "jv \<Rightarrow> jv \<Rightarrow> string" where
  "sort_budget_action task entry =
     (if is_infra_error task
      then if jlt (Fin (real MAX_INFRA_SORT_ATTEMPTS)) (to_number (plus_one (or_zero (jget entry ''infraSortAttemptCount''))))
           then ''infra-cap-hit'' else ''infra-skip''
      else if jle (Fin 3) (to_number (or_zero (jget entry ''sortAttempt''))) then ''content-cap-hit''
      else if jget entry ''infraSortExhausted'' = JBool True then ''content-skip-infra-exhausted''
      else ''content-skip'')"

definition sort_attempt_entry :: "string \<Rightarrow> jv \<Rightarrow> jv \<Rightarrow> jv" where
  "sort_attempt_entry now task entry =
     (let action = sort_budget_action task entry
      in if is_infra_error task
         then infra_sort_attempt now (if truthy (jget task ''endpoint'') then jget task ''endpoint'' else JNull)
                (if truthy (jget task ''blockedReason'') then jget task ''blockedReason'' else JStr []) entry
         else if action = ''content-skip'' then obj_put entry ''sortAttempt'' (plus_one (or_zero (jget entry ''sortAttempt'')))
         else entry)"

definition stamp_brain_dump_sort_exhausted :: "string \<Rightarrow> jv \<Rightarrow> jv \<Rightarrow> jv option" where
  "stamp_brain_dump_sort_exhausted now task dump =
     (let i = jget (jget task ''promptContext'') ''brainDumpEntryId''
      in if jget task ''source'' \<noteq> JStr ''brain_dump_sort'' \<or> \<not> truthy i \<or> nullish dump then None
         else case find_entry_where (\<lambda>e. Returns (truthy e \<and> strict_eq (jget e ''id'') i)) (elems (jget dump ''entries'')) of
           Returns (Some k) \<Rightarrow>
             let e = elems (jget dump ''entries'') ! k; e' = sort_attempt_entry now task e;
                 event = JObj [(''ts'', JStr now), (''action'', JStr (sort_budget_action task e)),
                   (''endpoint'', if truthy (jget task ''endpoint'') then jget task ''endpoint'' else JNull),
                   (''blockedReason'', if truthy (jget task ''blockedReason'') then jget task ''blockedReason'' else JStr []),
                   (''entryId'', i), (''sortAttemptBefore'', or_zero (jget e ''sortAttempt'')),
                   (''sortAttemptAfter'', or_zero (jget e' ''sortAttempt'')),
                   (''category'', JStr (if is_infra_error task then ''infra-error'' else ''content-error''))]
             in Some (obj_put (put_elem dump ''entries'' k e') ''sortBudgetEvents'' (JArr (elems (jget dump ''sortBudgetEvents'') @ [event])))
         | _ \<Rightarrow> None)"

text \<open>The content budget of an entry never goes beyond three, and a failure of the infrastructure does not spend it.\<close>

lemma sort_budget_kept:
  assumes "keyed entry" "jget entry ''sortAttempt'' = JNum (Fin n) \<or> (jget entry ''sortAttempt'' = JUndef \<and> n = 0)" "n \<in> {0, 1, 2, 3}"
  shows "\<exists>m. or_zero (jget (sort_attempt_entry now task entry) ''sortAttempt'') = JNum (Fin m) \<and> n \<le> m \<and> m \<le> 3
    \<and> (is_infra_error task \<longrightarrow> m = n)"
  using assms by (auto simp: sort_attempt_entry_def infra_sort_attempt_def Let_def jget_put or_zero_def sort_budget_action_def plus_one_def
      jle_def split: if_splits)

section \<open>Feedback for the next draft\<close>

datatype feedback_branch =
    ContinuationFb | RescopedFb | TurnBudgetFb | DiffSubstanceFb | NoChangesClaimFb | InfraErrorFb
  | MalformedDecomposeFb | PreCritiqueFb | PreImplementFb | DraftFailureFb | PlanDegenerateFb | DefaultFb

definition has_text :: "jv \<Rightarrow> bool" where
  "has_text v \<longleftrightarrow> is_string v \<and> trim (str_of v) \<noteq> []"

definition select_feedback_branch :: "bool \<Rightarrow> bool \<Rightarrow> jv \<Rightarrow> feedback_branch" where
  "select_feedback_branch is_continuation retryable task =
     (if is_continuation then ContinuationFb
      else if retryable \<and> jget task ''rescopedFromDecompose'' = JBool True \<and> has_text (jget task ''rescopedRawText'') then RescopedFb
      else if retryable \<and> jget task ''turnBudgetExhausted'' = JBool True then TurnBudgetFb
      else if retryable \<and> has_text (jget task ''adhocDiffSubstanceFeedback'') then DiffSubstanceFb
      else if retryable \<and> has_text (jget task ''adhocNoChangesClaimFeedback'') then NoChangesClaimFb
      else if retryable \<and> has_text (jget task ''infraErrorNote'') then InfraErrorFb
      else if retryable then MalformedDecomposeFb
      else if is_pre_critique_block task then PreCritiqueFb
      else if is_pre_implement_block task then PreImplementFb
      else if is_draft_failure_block task then DraftFailureFb
      else if is_plan_degenerate_block task then PlanDegenerateFb
      else DefaultFb)"

definition continuation_feedback :: "jv \<Rightarrow> string" where
  "continuation_feedback task =
     join newline (filter (\<lambda>l. l \<noteq> [])
       [''This is a CONTINUATION, not a fresh start. A prior pass got partway through and ran out of turns. It reported this remaining work:'',
        [], take 4000 (or_empty (jget task ''agenticContinuationNote'')),
        if truthy (jget task ''priorPartialDiff'')
        then newline @ ''The edits it already made are ALREADY APPLIED to your worktree as uncommitted changes (agentic-draft-common.js applies the carried diff before you start). Run git diff / read the files to confirm what is there; do NOT redo those edits -- build on them.''
        else [],
        [], ''Start editing with edit_file/write_file within your first 1-2 turns from where it left off. Finish the remaining work and end with RESOLUTION: implemented.''])"

definition build_feedback_string :: "feedback_branch \<Rightarrow> jv \<Rightarrow> string" where
  "build_feedback_string branch task =
     (let about = (\<lambda>before after. join newline [before, [], reason_text task, [], after]);
          q = [CHR 0x22]; bt = [CHR 0x60]
      in case branch of
        ContinuationFb \<Rightarrow> continuation_feedback task
      | RescopedFb \<Rightarrow> ''A prior pass decided this task's real scope is exactly: '' @ to_str (jget task ''rescopedRawText'') @ newline
          @ ''That is the task now. Implement THAT with edit_file/write_file in this pass. Do not decompose again.''
      | TurnBudgetFb \<Rightarrow> ''A prior attempt spent its whole turn budget exploring and made ZERO edits. Do not re-explore from scratch: the PLAN and PRIOR INVESTIGATION are already in your prompt -- use them, get to a concrete edit_file within the first few turns, and answer RESOLUTION: decompose if the task is genuinely too large to finish in one pass.''
      | DiffSubstanceFb \<Rightarrow> to_str (jget task ''adhocDiffSubstanceFeedback'')
      | NoChangesClaimFb \<Rightarrow> to_str (jget task ''adhocNoChangesClaimFeedback'')
      | InfraErrorFb \<Rightarrow> join newline
          [''A prior attempt hit a tool/environment failure (not a design question):'', [],
           take 3000 (to_str (jget task ''infraErrorNote'')), [],
           ''Retry the operation from a clean pass. If a command genuinely fails identically again, end with RESOLUTION: needs-human-decision and BLOCKER-TYPE: infra-error, quoting the exact command and its full error output.'']
      | MalformedDecomposeFb \<Rightarrow> ''A prior attempt chose RESOLUTION: decompose but the sub-task JSON was malformed. If this task is doable in one pass, just implement it. If it genuinely needs splitting, end with EXACTLY ''
          @ q @ ''RESOLUTION: decompose'' @ q @ '' then, on the next lines, a single valid JSON array of 2+ objects each shaped {'' @ q @ ''title'' @ q @ '': '' @ q @ ''...'' @ q @ '', ''
          @ q @ ''rawText'' @ q @ '': '' @ q @ ''...'' @ q @ ''} and nothing else.''
      | PreCritiqueFb \<Rightarrow> about ''A prior implementation was blocked before review because it cited a file that does not actually exist in the repo:''
          ''Only reference files that are actually present in the repo (verify with a tool call before citing one). If this task genuinely requires a brand-new file, create it with write_file/edit_file in create mode -- do not just describe or reference it as if it already exists.''
      | PreImplementFb \<Rightarrow> about ''A prior plan was blocked before implementation because it named an edit target that does not actually exist in the repo:''
          (''Only declare edit targets that are actually present in the repo (verify with a tool call before naming one). If this task genuinely requires a brand-new file, say so explicitly (e.g. ''
           @ q @ ''create '' @ bt @ ''path'' @ bt @ q @ '') so it is recognized as a create target, not a citation of an existing file.'')
      | DraftFailureFb \<Rightarrow> about ''A prior draft attempt failed outright (not a content rejection or a design question) after repeated tries:''
          ''Try again from a clean pass.''
      | PlanDegenerateFb \<Rightarrow> about ''A prior plan pass produced a degenerate (truncated or empty) plan even after an internal higher-temperature reroll:''
          ''Try a fresh plan pass. Keep the plan concrete and complete -- do not truncate mid-thought.''
      | DefaultFb \<Rightarrow> reason_text task)"

text \<open>What a branch uses up. A context that is a text, a number or \<open>true\<close> cannot be given a field.\<close>

definition rescope :: "jv \<Rightarrow> jv outcome" where
  "rescope task =
     (let c = jget task ''promptContext''; c' = (if truthy c then c else JObj [])
      in if \<not> settable c' then Throws
         else Returns (obj_del (obj_put task ''promptContext'' (obj_put c' ''rawText'' (jget task ''rescopedRawText''))) ''rescopedRawText''))"

definition spend_feedback :: "feedback_branch \<Rightarrow> jv \<Rightarrow> jv outcome" where
  "spend_feedback branch task =
     (case branch of
        ContinuationFb \<Rightarrow> Returns (obj_del task ''agenticContinuationNote'')
      | RescopedFb \<Rightarrow> rescope task
      | DiffSubstanceFb \<Rightarrow> Returns (obj_del task ''adhocDiffSubstanceFeedback'')
      | NoChangesClaimFb \<Rightarrow> Returns (obj_del task ''adhocNoChangesClaimFeedback'')
      | InfraErrorFb \<Rightarrow> Returns (obj_del task ''infraErrorNote'')
      | _ \<Rightarrow> Returns task)"

text \<open>The feedback is built before the branch's field goes.\<close>

definition fed_back :: "bool \<Rightarrow> bool \<Rightarrow> jv \<Rightarrow> jv outcome" where
  "fed_back is_continuation retryable task =
     (let branch = select_feedback_branch is_continuation retryable task
      in and_then (spend_feedback branch task) (\<lambda>t. Returns
           (obj_put (unblock_status (obj_del (obj_del (obj_del t ''turnBudgetExhausted'') ''infraErrorRetry'') ''retryableDraftBlock''))
              ''priorRejectionFeedback'' (JArr (prior_feedback task @ [JStr (build_feedback_string branch task)])))))"

section \<open>The redraft\<close>

definition UNCHANGED :: string where
  "UNCHANGED = ''deterministic block signature unchanged since previous sweep (_prevBlockSignature match) -- short-circuit: ''"

definition same_signature :: "reject_world \<Rightarrow> jv \<Rightarrow> bool" where
  "same_signature w task \<longleftrightarrow>
     (case compute_block_signature (jw_hash w) task of None \<Rightarrow> False | Some sg \<Rightarrow> jget task ''_prevBlockSignature'' = JStr sg)"

definition signed :: "reject_world \<Rightarrow> jv \<Rightarrow> jv" where
  "signed w task =
     (case compute_block_signature (jw_hash w) task of None \<Rightarrow> task | Some sg \<Rightarrow> obj_put task ''_prevBlockSignature'' (JStr sg))"

definition same_block :: "reject_world \<Rightarrow> string \<Rightarrow> jv \<Rightarrow> reject_step" where
  "same_block w why task =
     reject_step_of SameBlock (InPlace (append_history_event (jw_now w) ''exhausted'' (Some (UNCHANGED @ why))
       (obj_put (obj_put task ''localRejectCount'' (JNum (Fin (real MAX_LOCAL_REJECT_RETRIES)))) ''escalated'' (JBool True))))"

text \<open>What a failed stage left behind is cleared, and noted. A plan that degenerated makes the task avoid its lane, or files a
  finding when there is no bigger lane.\<close>

definition requeue_note :: "reject_world \<Rightarrow> string \<Rightarrow> jv \<Rightarrow> jv" where
  "requeue_note w why task = append_history_event (jw_now w) ''requeued'' (Some why) task"

definition without :: "string list \<Rightarrow> jv \<Rightarrow> jv" where
  "without fs task = fold (\<lambda>f t. obj_del t f) fs task"

definition keep_partial_diff :: "jv \<Rightarrow> jv" where
  "keep_partial_diff task =
     (if has_text (jget task ''carriedPartialDiff'')
      then obj_put (obj_del (obj_put task ''priorPartialDiff'' (jget task ''carriedPartialDiff'')) ''carriedPartialDiff'')
             ''priorRejectionFeedback'' (JArr (prior_feedback task
               @ [JStr ''The edits an earlier pass already made are kept: they are ALREADY APPLIED to your worktree as uncommitted changes (run git diff to see them). Do not redo them, and implement the rest instead of splitting it up.'']))
      else task)"

definition avoid_the_lane :: "reject_world \<Rightarrow> jv \<Rightarrow> jv \<times> (string \<times> string) option" where
  "avoid_the_lane w task =
     (case record_avoided_lane (jw_env w) task (length (jw_lanes w)) (Some (jw_lanes w)) of
        (t, Some avoided) \<Rightarrow>
          (append_history_event (jw_now w) ''lane-avoided'' (Some (''plan degenerated on '' @ avoided @ ''; other lanes get first claim'')) t, None)
      | (t, None) \<Rightarrow>
          (case describe_top_tier_failure t (Some (jw_lanes w)) ''plan-pass degenerate'' of
             None \<Rightarrow> (t, None)
           | Some f \<Rightarrow> (append_history_event (jw_now w) ''advisory'' (Some (
               ''plan degenerated on the biggest lane; no lane avoidance recorded (nowhere bigger to go) -- filed a systemic side finding instead: '' @ fst f)) t, Some f)))"

definition clear_stage :: "reject_world \<Rightarrow> bool \<Rightarrow> jv \<Rightarrow> jv \<times> (string \<times> string) option" where
  "clear_stage w retryable task =
     (if is_review_rejection task
      then (requeue_note w ''review rejection -- cleared stale plan/implement state for fresh redraft''
              (without [''blockedStage'', ''blockedReason''] (keep_partial_diff (without [''planResponse'', ''implementResponse''] task))), None)
      else if is_pre_critique_block task
      then (requeue_note w ''pre-critique missing-file block -- cleared stale implementResponse for fresh redraft'' (without [''implementResponse''] task), None)
      else if is_pre_implement_block task
      then (requeue_note w ''pre-implementation missing-file block -- cleared stale plan/implement state for a fresh plan pass''
              (without [''planResponse'', ''implementResponse''] task), None)
      else if is_draft_failure_block task \<and> \<not> retryable
      then (requeue_note w ''draft-call failure -- cleared stale plan/implement state for fresh redraft'' (without [''planResponse'', ''implementResponse''] task), None)
      else if is_plan_degenerate_block task
      then avoid_the_lane w (requeue_note w ''plan-pass degenerate -- cleared stale plan state for a fresh plan pass'' (without [''planResponse'', ''implementResponse''] task))
      else if is_implement_degenerate_block task
      then (requeue_note w ''implement-pass degenerate -- cleared stale implement state for a fresh implement pass'' (without [''implementResponse''] task), None)
      else if is_critique_degenerate_block task
      then (requeue_note w ''critique-pass degenerate -- the draft was never critiqued; redrafting from the top'' task, None)
      else (task, None))"

definition sent_back :: "reject_world \<Rightarrow> jv \<times> (string \<times> string) option \<Rightarrow> reject_step" where
  "sent_back w cf =
     (case cf of (task, finding) \<Rightarrow>
       let r = jget task ''blockedReason'';
           t = append_history_event (jw_now w) ''requeued'' (if truthy r then Some (to_str r) else None) task
       in (reject_step_of Redrafted (MovedTo (requeue_dir w t) t))
            \<lparr>rj_outcome := Some (''requeued'', if truthy r then r else JNull), rj_finding := finding\<rparr>)"

definition draft_flags :: "jv \<Rightarrow> bool \<times> bool" where
  "draft_flags task =
     (let retryable = is_adhoc_task task \<and> jget task ''retryableDraftBlock'' = JBool True
      in (retryable, retryable \<and> jget task ''isAgenticContinuation'' = JBool True))"

definition count_reject :: "jnum \<Rightarrow> jv \<Rightarrow> jv" where
  "count_reject n task = obj_put task ''localRejectCount'' (JNum (jadd n (Fin 1)))"

definition redraft :: "reject_world \<Rightarrow> jv \<Rightarrow> reject_step" where
  "redraft w task =
     (case draft_flags task of (retryable, continuing) \<Rightarrow>
        let n = number_or_zero (jget task ''localRejectCount'')
        in if same_signature w task then same_block w ''no requeue, escalated for human'' task
           else let t = signed w task
             in if jle (Fin (real MAX_LOCAL_REJECT_RETRIES)) n \<and> \<not> continuing then handle_exhaustion w t n
                else case fed_back continuing retryable t of
                  Throws \<Rightarrow> rejected_failed
                | Returns fb \<Rightarrow>
                    if continuing then sent_back w (clear_stage w retryable fb)
                    else if same_signature w fb then same_block w ''no increment, escalated for human'' fb
                    else sent_back w (clear_stage w retryable (count_reject n (signed w fb))))"

section \<open>The gates before the redraft\<close>

definition eligible :: "reject_world \<Rightarrow> jv \<Rightarrow> bool" where
  "eligible w task \<longleftrightarrow>
     is_review_rejection task \<or> fst (draft_flags task) \<or> is_pre_critique_block task \<or> is_pre_implement_block task
     \<or> is_draft_failure_block task \<or> is_plan_degenerate_block task \<or> is_implement_degenerate_block task \<or> is_critique_degenerate_block task
     \<or> has_invalid_premise task \<or> stale_premise_gate_no_longer_fires (jw_premise w) task
     \<or> external_dep_gate_no_longer_blocks (jw_external w) task \<or> split_too_few_still_retryable task"

definition fault_text :: "fault_side \<Rightarrow> string" where
  "fault_text side =
     (case side of ModelFault \<Rightarrow> ''model'' | EnvironmentFault \<Rightarrow> ''environment'' | DesignFault \<Rightarrow> ''design'' | HarnessFault \<Rightarrow> ''harness'')"

definition open_question :: "blocked_verdict \<Rightarrow> string option \<Rightarrow> jv \<Rightarrow> string" where
  "open_question v name task =
     (case Option.bind name (\<lambda>n. Option.bind (find_classifier n) cf_buildQuestion) of
        Some ask \<Rightarrow> ask task
      | None \<Rightarrow> ''Classified as '' @ vd_category v @ '' ('' @ fault_text (vd_faultSide v)
                @ ''-side), which a blind retry cannot fix -- needs a human decision.'')"

definition oversized_question :: "jv \<Rightarrow> string" where
  "oversized_question task =
     ''A draft attempt ran out of turns twice in a row on the very first pass -- the task is likely too large for one pass:''
     @ newline @ newline @ reason_text task @ newline @ newline
     @ ''Decide whether to split this into smaller sub-tasks (and how), or narrow the scope.''"

definition escalate_or_redraft :: "reject_world \<Rightarrow> jv \<Rightarrow> reject_step" where
  "escalate_or_redraft w task =
     (let may_ask = jw_clarify w \<and> \<not> already_escalated_since_last_readmission task
      in if is_structurally_oversized task \<and> may_ask
         then escalate w ''reject-retry-check:structurally-oversized-draft-failure'' (JStr ''design-decision'') (JStr (oversized_question task))
                ''escalated immediately -- structurally-oversized draft-call failure, a blind retry cannot differ'' task
         else case classify_blocked_task task of
           Throws \<Rightarrow> rejected_failed
         | Returns (v, name) \<Rightarrow>
             if \<not> vd_retryable v \<and> may_ask
             then escalate w ''reject-retry-check:non-retryable-classification'' (JStr (vd_category v)) (JStr (open_question v name task))
                    (''escalated immediately -- '' @ vd_category v @ '' ('' @ fault_text (vd_faultSide v) @ ''-side), a blind retry cannot differ'') task
             else redraft w task)"

definition readmit_or_go_on :: "reject_world \<Rightarrow> jv \<Rightarrow> reject_step" where
  "readmit_or_go_on w task =
     (if \<not> truthy (jget task ''forbiddenPathReadmitted'') \<and> forbidden_path_block_names_own_target (jw_targets w) task
      then readmit w ''forbiddenPathReadmitted'' (JBool True)
        ''reject-retry-check: prior forbidden-path block named one of the task's own declared edit targets (adhoc-diff-sanity gate bug, since fixed) -- re-admitted with a clean slate, retry budget reset''
        ''forbidden-path-false-positive-readmit'' task
      else if stale_premise_gate_no_longer_fires (jw_premise w) task
      then readmit w ''stalePremiseReadmitted'' (JBool True)
        ''reject-retry-check: prior block was a stale-premise verdict from decompose-premise-check that called a cited file missing (it exists under a monorepo sub-root; resolved by path suffix since) -- re-admitted with a clean slate, exactly once''
        ''stale-premise-false-positive-readmit'' task
      else if external_dep_gate_no_longer_blocks (jw_external w) task
      then readmit w ''externalDepReadmitted'' (JBool True)
        ''reject-retry-check: prior block was the external-dependency gate matching credential/network vocabulary in prose, a code span, or the plan echo (code spans and the plan are no longer scanned, and soft markers only advise by default) -- re-admitted with a clean slate, exactly once''
        ''external-dep-false-positive-readmit'' task
      else if split_too_few_still_retryable task
      then readmit w ''splitTooFewReadmitted'' (JBool True)
        ''reject-retry-check: prior block was a candidate split with fewer than 2 usable sub-candidates; the draft now retries that once with the one-file-per-piece rule spelled out -- re-admitted with a clean slate, exactly once''
        ''split-too-few-readmit'' task
      else if invalid_premise_before_check_existed task
      then readmit w ''premiseReadmitCount'' (JNum (Fin 1))
        ''reject-retry-check: prior block was an 'Invalid premise:' verdict from candidate-premise-check (the check itself later invalidated the premise) -- re-admitted with a clean slate, retry budget reset''
        ''invalid-premise-readmit'' task
      else escalate_or_redraft w task)"

definition reject_task :: "reject_world \<Rightarrow> jv \<Rightarrow> reject_step" where
  "reject_task w task =
     (if nullish task then rejected_failed
      else case jw_noAutoRetry w task of
        Throws \<Rightarrow> rejected_failed
      | Returns True \<Rightarrow> reject_step_of NotOurs Untouched
      | Returns False \<Rightarrow>
          if \<not> eligible w task \<or> truthy (jget task ''needsClarification'') then reject_step_of NotOurs Untouched
          else if deterministic_review_recovery_check (jw_validate w task) task then recover w task
          else readmit_or_go_on w task)"

section \<open>The sweep\<close>

record reject_summary =
  ju_checked :: nat
  ju_actions :: "reject_action list"
  ju_debts :: "(jv \<times> string) list"
  ju_outcomes :: "(jv \<times> string \<times> jv) list"
  ju_findings :: "(jv \<times> string \<times> string) list"

definition discover_blocked_entries :: "reject_world \<Rightarrow> qstore \<Rightarrow> (string \<times> string) list" where
  "discover_blocked_entries w s =
     map (Pair ''blocked'') (q_json s ''blocked'')
     @ concat (map (\<lambda>d. map (Pair d) (filter (\<lambda>n. jget (q_read s d n) ''status'' = JStr ''blocked'') (q_json s d)))
         ((if jw_adhoc w then [''adhoc''] else []) @ (if jw_derived w then [''derived''] else [])))"

text \<open>Writing a file to the directory it is in leaves it there.\<close>

definition place_from :: "string \<Rightarrow> string \<Rightarrow> placement \<Rightarrow> qstore \<Rightarrow> qstore" where
  "place_from d name p s =
     (case p of Untouched \<Rightarrow> s | InPlace t \<Rightarrow> q_write s d name t
      | MovedTo d' t \<Rightarrow> if d' = d then q_write s d name t else q_del (q_write s d' name t) d name)"

definition reject_file :: "reject_world \<Rightarrow> string \<times> string \<Rightarrow> qstore \<times> reject_summary \<Rightarrow> qstore \<times> reject_summary" where
  "reject_file w e p =
     (case (e, p) of ((d, name), (s, u)) \<Rightarrow>
       case q_get s d name of
         Some Blank \<Rightarrow> (s, u)
       | Some (Doc task) \<Rightarrow>
           let st = reject_task w task; i = jget task ''id''
           in (place_from d name (rj_place st) s,
               u\<lparr>ju_checked := ju_checked u + 1, ju_actions := ju_actions u @ [rj_action st],
                 ju_debts := ju_debts u @ map (\<lambda>x. (i, x)) (option_list (rj_debt st)),
                 ju_outcomes := ju_outcomes u @ map (\<lambda>x. (jget task ''abCallId'', x)) (option_list (rj_outcome st)),
                 ju_findings := ju_findings u @ map (\<lambda>x. (i, x)) (option_list (rj_finding st))\<rparr>)
       | _ \<Rightarrow> (s, u\<lparr>ju_actions := ju_actions u @ [RejectFailed]\<rparr>))"

definition reject_retry_check :: "reject_world \<Rightarrow> qstore \<Rightarrow> qstore \<times> reject_summary" where
  "reject_retry_check w s =
     fold (reject_file w) (discover_blocked_entries w s)
       (s, \<lparr>ju_checked = 0, ju_actions = [], ju_debts = [], ju_outcomes = [], ju_findings = []\<rparr>)"

section \<open>No task is lost\<close>

lemma place_from_keeps: "q_has s d n \<Longrightarrow> keeps_tasks s (place_from d n p s)"
  by (cases p) (simp_all add: place_from_def write_keeps rewrite_keeps)

lemma reject_file_keeps: "keeps_tasks s (fst (reject_file w e (s, u)))"
  by (cases e) (auto simp: reject_file_def Let_def q_has_def intro!: place_from_keeps split: option.splits qfile.splits)

lemma reject_files_keep: "keeps_tasks (fst p) (fst (fold (reject_file w) es p))"
proof (induction es arbitrary: p)
  case (Cons e es)
  have "keeps_tasks (fst p) (fst (reject_file w e p))" using reject_file_keeps [of "fst p" w e "snd p"] by simp
  from keeps_trans [OF this Cons.IH] show ?case by simp
qed simp

lemma reject_retry_keeps: "keeps_tasks s (fst (reject_retry_check w s))"
  unfolding reject_retry_check_def using reject_files_keep [of "(s, _)"] by simp

end
