(* ===== verification/QueueMachine.thy ===== *)
theory QueueMachine
  imports QueueSweeps ApplyRetry TaskRecords QueueRequeues RejectRetry
begin

text \<open>
  The sweeps that share the queue directory, as one machine: each is a separate process started by a watchdog, so they run
  in any order and any number of times, each with its own view of the clock, the environment and the repositories. Every
  sweep meets the contract \<open>task_mover\<close>, and so does any sequence of them.
\<close>

text \<open>Which directories a landed fix drains, by the source of its task (\<open>src/apply-task.js\<close>).\<close>

definition drain_sources :: "string \<Rightarrow> string list option" where
  "drain_sources = [''pipeline_self_audit'' \<mapsto> [''blocked''], ''pipeline_forensics_fix'' \<mapsto> [''blocked'', ''needs-clarification'']]"

definition drain_after_apply :: "string \<Rightarrow> jv \<Rightarrow> qstore \<Rightarrow> qstore" where
  "drain_after_apply now task s =
     (case drain_sources (str_of (jget task ''source'')) of
        None \<Rightarrow> s
      | Some dirs \<Rightarrow>
          if is_string (jget task ''source'') \<and> truthy (jget (jget task ''promptContext'') ''signature'')
          then dr_store (requeue_blocked_tasks_for_signature now (to_str (jget (jget task ''promptContext'') ''signature'')) dirs s)
          else s)"

datatype queue_event =
    ExpirySweep env real string bool bool "expiry_source list" jv
  | ReclaimLane string string
  | ReclaimRetired string "string list" "string \<Rightarrow> jv" "jv \<Rightarrow> bool" "string list"
  | ArchiveOld env real string "string \<Rightarrow> real option"
  | ArchiveTasks string "string list"
  | RetryApplies string retry_world
  | RetryRejects reject_world
  | DrainSignature string jv
  | RequeueUnmerged string jnum "jv list"

fun queue_step :: "queue_event \<Rightarrow> qstore \<Rightarrow> qstore" where
  "queue_step (ExpirySweep e now now_iso dry force sources state) s = fst (sweep_expiry e now now_iso dry force sources (s, state))"
| "queue_step (ReclaimLane now_iso i) s = rc_store (reclaim_orphaned_drafts now_iso i s)"
| "queue_step (ReclaimRetired now_iso lanes hb alive dirs) s = rr_store (reclaim_retired_lane_drafts now_iso lanes hb alive dirs s)"
| "queue_step (ArchiveOld e now month mtime) s = fst (archive_done_tasks e now month mtime s)"
| "queue_step (ArchiveTasks month ids) s = fst (archive_specific month ids s 0 0)"
| "queue_step (RetryApplies now w) s = fst (apply_retry_check now w s)"
| "queue_step (RetryRejects w) s = fst (reject_retry_check w s)"
| "queue_step (DrainSignature now task) s = drain_after_apply now task s"
| "queue_step (RequeueUnmerged now clock shipped) s = ds_store (sweep_done_unmerged now clock shipped s None)"

lemma drain_sources_safe: "drain_sources src = Some dirs \<Longrightarrow> ''pending'' \<notin> set dirs"
  by (auto simp: drain_sources_def split: if_splits)

lemma drain_after_apply_keeps: "keeps_tasks s (drain_after_apply now task s)"
  by (auto simp: drain_after_apply_def drain_keeps dest: drain_sources_safe split: option.splits)

interpretation queue: task_mover queue_step
proof
  show "keeps_tasks s (queue_step e s)" for s e
    by (cases e) (simp_all add: sweep_expiry_keeps reclaim_keeps reclaim_retired_lane_drafts_keeps archive_done_keeps
        archive_specific_keeps apply_retry_keeps reject_retry_keeps drain_after_apply_keeps done_unmerged_keeps)
qed


definition TWO_FILES :: qstore where
  "TWO_FILES = [((''done'', ''a.json''), Doc (JObj [])), ((''drafting/worker-1'', ''b.json''), Doc (JObj [(''id'', JStr ''b'')]))]"

definition TWO_SWEEPS :: "queue_event list" where
  "TWO_SWEEPS = [ArchiveTasks ''2026-10'' [''a''], ReclaimLane ''now'' ''worker-1'']"


end
