(* ===== verification/RejectBounds.thy ===== *)
theory RejectBounds
  imports RejectRetry
begin

text \<open>
  What the reject-retry sweep guarantees: it sends a task back at most a fixed number of times whatever the drafts in
  between do, and a block with a signature is never drafted again.
\<close>

section \<open>The fields that bound the retries\<close>

definition LEDGER :: "string list" where
  "LEDGER = [''localRejectCount'', ''premiseReadmitCount'', ''forbiddenPathReadmitted'', ''stalePremiseReadmitted'', ''externalDepReadmitted'', ''splitTooFewReadmitted'']"

definition leaves :: "jv \<Rightarrow> jv \<Rightarrow> bool" where
  "leaves t t' \<longleftrightarrow> (keyed t \<longrightarrow> keyed t' \<and> (\<forall>k\<in>set LEDGER. jget t' k = jget t k))"

lemma leaves_refl [simp, intro]: "leaves t t"
  by (simp add: leaves_def)

lemma leaves_trans: "leaves t u \<Longrightarrow> leaves u v \<Longrightarrow> leaves t v"
  by (simp add: leaves_def)

lemma leaves_put: "k \<notin> set LEDGER \<Longrightarrow> leaves t u \<Longrightarrow> leaves t (obj_put u k x)"
  by (auto simp: leaves_def jget_put)

lemma leaves_del: "k \<notin> set LEDGER \<Longrightarrow> leaves t u \<Longrightarrow> leaves t (obj_del u k)"
  by (auto simp: leaves_def jget_del keyed_object)

lemma leaves_history: "leaves t u \<Longrightarrow> leaves t (append_history_event now st d u)"
  by (simp add: append_history_event_def Let_def leaves_put LEDGER_def)

lemma leaves_without: "set fs \<inter> set LEDGER = {} \<Longrightarrow> leaves t u \<Longrightarrow> leaves t (without fs u)"
  unfolding without_def by (induction fs arbitrary: u) (simp_all add: leaves_del)

lemma leaves_unblock: "leaves t u \<Longrightarrow> leaves t (unblock_status u)"
  by (simp add: unblock_status_def leaves_put LEDGER_def)

lemmas leaving = leaves_put leaves_del leaves_history leaves_without leaves_unblock

lemma leaves_set_field:
  assumes "k \<notin> set LEDGER"
  shows "leaves t (set_field t k x)"
proof (cases t)
  case (JObj kvs)
  have "jget (set_field (JObj kvs) k x) k' = jget (JObj kvs) k'" if "k' \<in> set LEDGER" for k'
    using that assms unfolding jget_set_field by auto
  moreover have "keyed (JObj kvs) \<Longrightarrow> keyed (set_field (JObj kvs) k x)"
    by (auto simp: distinct_map_filter)
  ultimately show ?thesis unfolding leaves_def JObj by blast
qed (simp_all add: leaves_def)

lemma leaves_avoided: "leaves t (fst (record_avoided_lane e t n ls))"
  by (auto simp: record_avoided_lane_def leaves_set_field LEDGER_def split: jv.splits option.splits)

lemma leaves_signed: "leaves t (signed w t)"
  by (simp add: signed_def leaves_put LEDGER_def split: option.splits)

lemma leaves_spent: "spend_feedback b t = Returns u \<Longrightarrow> leaves t u"
  by (cases b) (auto simp: spend_feedback_def rescope_def Let_def LEDGER_def intro!: leaving split: if_splits)

lemma leaves_fed_back: "fed_back c r t = Returns u \<Longrightarrow> leaves t u"
  by (cases "spend_feedback (select_feedback_branch c r t) t") (auto simp: fed_back_def Let_def LEDGER_def intro!: leaving dest: leaves_spent)

lemma leaves_avoid_the_lane: "leaves t (fst (avoid_the_lane w t))"
  using leaves_avoided [of t "jw_env w" "length (jw_lanes w)" "Some (jw_lanes w)"]
  by (auto simp: avoid_the_lane_def leaves_history split: prod.splits option.splits)

lemma leaves_partial: "leaves t u \<Longrightarrow> leaves t (keep_partial_diff u)"
  by (simp add: keep_partial_diff_def leaving LEDGER_def)

lemma leaves_cleared: "leaves t (fst (clear_stage w r t))"
proof -
  have "leaves t (fst (avoid_the_lane w (requeue_note w x (without [''planResponse'', ''implementResponse''] t))))" for x
    by (rule leaves_trans [OF _ leaves_avoid_the_lane]) (simp add: requeue_note_def leaving LEDGER_def)
  then show ?thesis
    by (simp add: clear_stage_def requeue_note_def leaving leaves_partial LEDGER_def)
qed

section \<open>A task is sent back at most so often\<close>

definition READMIT_FLAGS :: "string list" where
  "READMIT_FLAGS = [''forbiddenPathReadmitted'', ''stalePremiseReadmitted'', ''externalDepReadmitted'', ''splitTooFewReadmitted'']"

definition unspent :: "jv \<Rightarrow> string \<Rightarrow> nat" where
  "unspent task f = (if truthy (jget task f) then 0 else 1)"

definition retries_left :: "jv \<Rightarrow> nat" where
  "retries_left task = (case number_or_zero (jget task ''localRejectCount'') of Fin n \<Rightarrow> nat \<lceil>2 - n\<rceil> | _ \<Rightarrow> 0)"

text \<open>How often a task can still be sent back.\<close>

definition requeues_left :: "jv \<Rightarrow> nat" where
  "requeues_left task = 6 * sum_list (map (unspent task) READMIT_FLAGS) + 3 * unspent task ''premiseReadmitCount'' + retries_left task"

definition count_ok :: "jv \<Rightarrow> bool" where
  "count_ok task \<longleftrightarrow> jle (Fin 0) (number_or_zero (jget task ''localRejectCount''))"

lemma count_ok_bound: "count_ok task \<Longrightarrow> requeues_left task \<le> 29"
proof -
  assume c: "count_ok task"
  have u: "unspent task f \<le> 1" for f by (simp add: unspent_def)
  have "retries_left task \<le> 2"
    using c by (cases "number_or_zero (jget task ''localRejectCount'')") (auto simp: count_ok_def retries_left_def ceiling_le_iff jle_def)
  then show ?thesis
    using u [of "READMIT_FLAGS ! 0"] u [of "READMIT_FLAGS ! 1"] u [of "READMIT_FLAGS ! 2"] u [of "READMIT_FLAGS ! 3"] u [of "''premiseReadmitCount''"]
    by (simp add: requeues_left_def READMIT_FLAGS_def)
qed

lemma ledger_decides:
  assumes "\<forall>k\<in>set LEDGER. jget t k = jget u k"
  shows "requeues_left t = requeues_left u" "count_ok t = count_ok u"
  using assms by (simp_all add: requeues_left_def unspent_def retries_left_def count_ok_def READMIT_FLAGS_def LEDGER_def)

lemma jget_without: "keyed task \<Longrightarrow> keyed (without fs task) \<and> jget (without fs task) k = (if k \<in> set fs then JUndef else jget task k)"
  unfolding without_def by (induction fs arbitrary: task) (auto simp: jget_del keyed_object)

lemma keyed_unblock [simp]: "keyed task \<Longrightarrow> keyed (unblock_status task)"
  by (simp add: unblock_status_def)

lemma jget_unblock: "k \<noteq> ''status'' \<Longrightarrow> jget (unblock_status task) k = jget task k"
  by (simp add: unblock_status_def jget_put_other)

lemma count_undef [simp]: "number_or_zero JUndef = Fin 0"
  by (simp add: number_or_zero_def num_or_def)

text \<open>A readmission, by the flag it sets.\<close>

definition readmission :: "reject_world \<Rightarrow> string \<Rightarrow> jv \<Rightarrow> string \<Rightarrow> jv \<Rightarrow> jv" where
  "readmission w f v why task = append_history_event (jw_now w) ''requeued'' (Some why) (unblock_status (obj_put (clean_slate task) f v))"

lemma readmission_ledger:
  assumes "keyed task" "f \<in> set LEDGER" "f \<noteq> ''localRejectCount''" "k \<in> set LEDGER"
  shows "keyed (readmission w f v why task)"
    and "jget (readmission w f v why task) k =
      (if k = f then v else if k = ''localRejectCount'' \<or> k = ''premiseReadmitCount'' then JUndef else jget task k)"
proof -
  have c: "keyed (clean_slate task)" "jget (clean_slate task) k = (if k \<in> set READMIT_CLEAN_SLATE_FIELDS then JUndef else jget task k)"
    using jget_without [OF assms(1)] unfolding clean_slate_def without_def by blast+
  have slate: "k \<in> set READMIT_CLEAN_SLATE_FIELDS \<longleftrightarrow> k = ''localRejectCount'' \<or> k = ''premiseReadmitCount''"
    using assms(4) unfolding LEDGER_def READMIT_CLEAN_SLATE_FIELDS_def by auto
  show "keyed (readmission w f v why task)" using c by (simp add: readmission_def)
  have "k \<noteq> ''history''" "k \<noteq> ''status''" using assms(4) by (auto simp: LEDGER_def)
  then show "jget (readmission w f v why task) k =
      (if k = f then v else if k = ''localRejectCount'' \<or> k = ''premiseReadmitCount'' then JUndef else jget task k)"
    using c by (simp add: readmission_def append_history_frame jget_unblock jget_put slate)
qed

lemma readmission_spends:
  fixes w :: reject_world and why :: string
  assumes "keyed task" "\<not> truthy (jget task f)" "truthy v" "f \<in> set READMIT_FLAGS \<or> f = ''premiseReadmitCount''"
  defines "t \<equiv> readmission w f v why task"
  shows "keyed t \<and> count_ok t \<and> requeues_left t < requeues_left task"
proof -
  have f: "f \<in> set LEDGER" "f \<noteq> ''localRejectCount''" using assms(4) by (auto simp: LEDGER_def READMIT_FLAGS_def)
  have g: "jget t k = (if k = f then v else if k = ''localRejectCount'' \<or> k = ''premiseReadmitCount'' then JUndef else jget task k)"
    if "k \<in> set LEDGER" for k
    unfolding t_def by (rule readmission_ledger(2) [OF assms(1) f that])
  have k: "keyed t" unfolding t_def by (rule readmission_ledger(1) [OF assms(1) f f(1)])
  have "jget t ''localRejectCount'' = JUndef" using g f(2) by (simp add: LEDGER_def)
  then have n: "number_or_zero (jget t ''localRejectCount'') = Fin 0" by simp
  then have c: "count_ok t" "retries_left t = 2" by (simp_all add: count_ok_def retries_left_def jle_def)
  have "requeues_left t < requeues_left task"
  proof (cases "f = ''premiseReadmitCount''")
    case True
    have "unspent t x = unspent task x" if "x \<in> set READMIT_FLAGS" for x
      using that g [of x] True by (auto simp: unspent_def LEDGER_def READMIT_FLAGS_def)
    then have "sum_list (map (unspent t) READMIT_FLAGS) = sum_list (map (unspent task) READMIT_FLAGS)" by (simp cong: map_cong)
    moreover have "unspent t f = 0" "unspent task f = 1" using assms(2,3) g [OF f(1)] by (simp_all add: unspent_def)
    ultimately show ?thesis using c(2) True by (simp add: requeues_left_def)
  next
    case False
    then have ff: "f \<in> set READMIT_FLAGS" using assms(4) by blast
    have o: "unspent t x = (if x = f then 0 else unspent task x)" if "x \<in> set READMIT_FLAGS" for x
      using that g [of x] assms(3) by (auto simp: unspent_def LEDGER_def READMIT_FLAGS_def)
    have "unspent task f = 1" using assms(2) by (simp add: unspent_def)
    then have "sum_list (map (unspent task) READMIT_FLAGS) = sum_list (map (unspent t) READMIT_FLAGS) + 1"
      using ff o by (auto simp: READMIT_FLAGS_def)
    moreover have "unspent t ''premiseReadmitCount'' \<le> 1" by (simp add: unspent_def)
    ultimately show ?thesis using c(2) by (simp add: requeues_left_def)
  qed
  then show ?thesis using k c(1) by blast
qed

lemma redraft_counts:
  assumes "keyed task" "count_ok task" "\<not> jle (Fin 2) (number_or_zero (jget task ''localRejectCount''))"
    "leaves (count_reject (number_or_zero (jget task ''localRejectCount'')) u) t" "leaves task u"
  shows "keyed t \<and> count_ok t \<and> requeues_left t < requeues_left task"
proof -
  obtain n where n: "number_or_zero (jget task ''localRejectCount'') = Fin n" "0 \<le> n" "n < 2"
    using assms(2,3) by (cases "number_or_zero (jget task ''localRejectCount'')") (auto simp: count_ok_def jle_def)
  have u: "keyed u" "\<forall>k\<in>set LEDGER. jget u k = jget task k" using assms(1,5) by (simp_all add: leaves_def)
  let ?c = "count_reject (Fin n) u"
  have k: "keyed ?c" using u by (simp add: count_reject_def)
  then have t: "keyed t" "\<forall>k\<in>set LEDGER. jget t k = jget ?c k" using assms(4) n(1) by (simp_all add: leaves_def)
  have same: "jget ?c k = jget task k" if "k \<in> set LEDGER" "k \<noteq> ''localRejectCount''" for k
    using u that by (simp add: count_reject_def jget_put)
  have "number_or_zero (jget ?c ''localRejectCount'') = Fin (n + 1)"
    using u n(2) by (simp add: count_reject_def jget_put number_or_zero_def num_or_def)
  then have "count_ok ?c" "retries_left ?c < retries_left task"
    using n by (simp_all add: count_ok_def retries_left_def jle_def) linarith
  moreover have "sum_list (map (unspent ?c) READMIT_FLAGS) = sum_list (map (unspent task) READMIT_FLAGS)"
    "unspent ?c ''premiseReadmitCount'' = unspent task ''premiseReadmitCount''"
    using same by (simp_all add: unspent_def READMIT_FLAGS_def LEDGER_def)
  ultimately have "count_ok ?c \<and> requeues_left ?c < requeues_left task" unfolding requeues_left_def by simp
  then show ?thesis using ledger_decides [OF t(2)] t(1) by simp
qed

lemma step_simps [simp]:
  "rj_action (reject_step_of a p) = a" "rj_place (reject_step_of a p) = p"
  "rj_action (owing w site st) = rj_action st" "rj_place (owing w site st) = rj_place st"
  "rj_action rejected_failed = RejectFailed" "rj_place rejected_failed = Untouched"
  by (simp_all add: reject_step_of_def owing_def rejected_failed_def)

lemma exhaustion_action: "rj_action (handle_exhaustion w t n) \<in> {RetriesUsed, RejectFailed}"
  by (auto simp: handle_exhaustion_def Let_def reject_step_of_def split: outcome.splits bool.splits prod.splits)

lemma sent_back_place: "rj_place (sent_back w (t, f)) = MovedTo d u \<Longrightarrow> leaves t u"
  by (auto simp: sent_back_def Let_def reject_step_of_def leaves_history)

lemma redraft_inv:
  assumes "rj_action (redraft w task) = Redrafted" "\<not> snd (draft_flags task)"
  obtains r fb where "\<not> jle (Fin 2) (number_or_zero (jget task ''localRejectCount''))" "\<not> same_signature w task"
    "fed_back False r (signed w task) = Returns fb" "\<not> same_signature w fb"
    "redraft w task = sent_back w (clear_stage w r (count_reject (number_or_zero (jget task ''localRejectCount'')) (signed w fb)))"
proof -
  let ?n = "number_or_zero (jget task ''localRejectCount'')"
  obtain r where r: "draft_flags task = (r, False)" using assms(2) by (cases "draft_flags task") simp
  have a: "\<not> same_signature w task" using assms(1) by (auto simp: redraft_def r Let_def same_block_def)
  have b: "\<not> jle (Fin 2) ?n"
    using assms(1) a exhaustion_action [of w "signed w task" ?n] by (auto simp: redraft_def r Let_def MAX_LOCAL_REJECT_RETRIES_def)
  obtain fb where c: "fed_back False r (signed w task) = Returns fb"
    using assms(1) a b by (cases "fed_back False r (signed w task)") (simp_all add: redraft_def r Let_def MAX_LOCAL_REJECT_RETRIES_def)
  have d: "\<not> same_signature w fb"
    using assms(1) a b c by (auto simp: redraft_def r Let_def MAX_LOCAL_REJECT_RETRIES_def same_block_def)
  show thesis
    using that [OF b a c d] a b c d by (simp add: redraft_def r Let_def MAX_LOCAL_REJECT_RETRIES_def)
qed

lemma redraft_requeues:
  assumes "rj_action (redraft w task) = Redrafted" "rj_place (redraft w task) = MovedTo d t"
    "keyed task" "count_ok task" "\<not> snd (draft_flags task)"
  shows "keyed t \<and> count_ok t \<and> requeues_left t < requeues_left task"
proof -
  let ?n = "number_or_zero (jget task ''localRejectCount'')"
  obtain r fb where n: "\<not> jle (Fin 2) ?n" and fb: "fed_back False r (signed w task) = Returns fb"
    and eq: "redraft w task = sent_back w (clear_stage w r (count_reject ?n (signed w fb)))"
    using redraft_inv [OF assms(1,5)] by metis
  have l: "leaves task (signed w fb)"
    by (rule leaves_trans [OF leaves_trans [OF leaves_signed leaves_fed_back [OF fb]] leaves_signed])
  obtain c f where cf: "clear_stage w r (count_reject ?n (signed w fb)) = (c, f)" by fastforce
  have "leaves (count_reject ?n (signed w fb)) c" using leaves_cleared [of "count_reject ?n (signed w fb)" w r] cf by simp
  moreover have "leaves c t" using assms(2) sent_back_place unfolding eq cf by blast
  ultimately show ?thesis using redraft_counts [OF assms(3,4) n leaves_trans l] by blast
qed

lemma readmit_step:
  "rj_action (readmit w f v why oc task) = Readmitted"
  "rj_place (readmit w f v why oc task) = MovedTo (requeue_dir w (readmission w f v why task)) (readmission w f v why task)"
  by (simp_all add: readmit_def readmission_def Let_def reject_step_of_def)

lemma flag_gates:
  "stale_premise_gate_no_longer_fires d task \<Longrightarrow> \<not> truthy (jget task ''stalePremiseReadmitted'')"
  "external_dep_gate_no_longer_blocks e task \<Longrightarrow> \<not> truthy (jget task ''externalDepReadmitted'')"
  "split_too_few_still_retryable task \<Longrightarrow> \<not> truthy (jget task ''splitTooFewReadmitted'')"
  "invalid_premise_before_check_existed task \<Longrightarrow> \<not> truthy (jget task ''premiseReadmitCount'')"
  by (simp_all add: stale_premise_gate_no_longer_fires_def external_dep_gate_no_longer_blocks_def split_too_few_still_retryable_def
      invalid_premise_before_check_existed_def split: if_splits)

definition readmittable :: "jv \<Rightarrow> string \<Rightarrow> jv \<Rightarrow> bool" where
  "readmittable task f v \<longleftrightarrow> \<not> truthy (jget task f) \<and> truthy v \<and> (f \<in> set READMIT_FLAGS \<or> f = ''premiseReadmitCount'')"

definition readmission_step :: "reject_world \<Rightarrow> jv \<Rightarrow> reject_step \<Rightarrow> bool" where
  "readmission_step w task st \<longleftrightarrow> (\<exists>f v why oc. st = readmit w f v why oc task \<and> readmittable task f v)"

lemma readmission_stepI: "readmittable task f v \<Longrightarrow> readmission_step w task (readmit w f v why oc task)"
  by (auto simp: readmission_step_def)

lemma readmit_or_go_on_cases:
  "readmit_or_go_on w task = escalate_or_redraft w task \<or> readmission_step w task (readmit_or_go_on w task)"
  using flag_gates(1) [of "jw_premise w" task] flag_gates(2) [of "jw_external w" task] flag_gates(3,4) [of task]
  by (simp add: readmit_or_go_on_def readmission_stepI readmittable_def READMIT_FLAGS_def)

lemma redraft_action: "rj_action (redraft w task) \<in> {SameBlock, RetriesUsed, RejectFailed, Redrafted}"
proof -
  obtain r c where "draft_flags task = (r, c)" by fastforce
  then show ?thesis
    using exhaustion_action [of w "signed w task" "number_or_zero (jget task ''localRejectCount'')"]
    by (auto simp: redraft_def Let_def same_block_def sent_back_def reject_step_of_def rejected_failed_def split: outcome.splits prod.splits)
qed

lemma escalate_or_redraft_cases:
  "escalate_or_redraft w task = redraft w task \<or> rj_action (escalate_or_redraft w task) \<in> {EscalatedNow, RejectFailed}"
  by (auto simp: escalate_or_redraft_def escalate_def Let_def split: outcome.splits prod.splits)

lemma reject_task_cases:
  "reject_task w task = readmit_or_go_on w task \<or> rj_action (reject_task w task) \<in> {NotOurs, Recovered, RejectFailed}"
  by (auto simp: reject_task_def recover_def Let_def reject_step_of_def split: outcome.splits bool.splits)

definition sends_back :: "reject_step \<Rightarrow> jv \<Rightarrow> bool" where
  "sends_back st t \<longleftrightarrow> rj_action st \<in> {Readmitted, Redrafted} \<and> (\<exists>d. rj_place st = MovedTo d t)"

lemma sent_back_spends:
  assumes "sends_back (reject_task w task) t" "keyed task" "count_ok task" "\<not> snd (draft_flags task)"
  shows "keyed t \<and> count_ok t \<and> requeues_left t < requeues_left task"
proof -
  have "reject_task w task = readmit_or_go_on w task"
    using assms(1) reject_task_cases [of w task] by (auto simp: sends_back_def)
  then consider "reject_task w task = redraft w task" | "reject_task w task = escalate_or_redraft w task" "reject_task w task \<noteq> redraft w task"
    | f v why oc where "reject_task w task = readmit w f v why oc task" "readmittable task f v"
    using readmit_or_go_on_cases [of w task] unfolding readmission_step_def by metis
  then show ?thesis
  proof cases
    case 1
    have "rj_action (redraft w task) \<noteq> Readmitted" using redraft_action [of w task] by auto
    then show ?thesis
      using assms 1 redraft_requeues [of w task _ t] by (auto simp: sends_back_def)
  next
    case 2
    then show ?thesis using assms(1) escalate_or_redraft_cases [of w task] by (auto simp: sends_back_def)
  next
    case 3
    then show ?thesis
      using assms(1,2) readmission_spends [of task f v w why] by (auto simp: sends_back_def readmit_step readmittable_def)
  qed
qed

text \<open>The task that comes back blocked has the fields the sweep gave it; everything else may have changed.\<close>

inductive sent_back_again :: "nat \<Rightarrow> jv \<Rightarrow> jv \<Rightarrow> bool" where
  here: "sent_back_again 0 task task"
| more: "sent_back_again n task a \<Longrightarrow> sends_back (reject_task w a) t \<Longrightarrow> \<not> snd (draft_flags a)
    \<Longrightarrow> keyed b \<Longrightarrow> (\<forall>k\<in>set LEDGER. jget b k = jget t k) \<Longrightarrow> sent_back_again (Suc n) task b"

lemma sent_back_potential:
  "sent_back_again n task b \<Longrightarrow> keyed task \<Longrightarrow> count_ok task \<Longrightarrow> keyed b \<and> count_ok b \<and> n + requeues_left b \<le> requeues_left task"
proof (induction rule: sent_back_again.induct)
  case (more n task a w t b)
  have a: "keyed a" "count_ok a" "n + requeues_left a \<le> requeues_left task" using more.IH more.prems by auto
  have "count_ok t \<and> requeues_left t < requeues_left a" using sent_back_spends [OF more.hyps(2) a(1,2) more.hyps(3)] by blast
  then show ?case using ledger_decides [OF more.hyps(5)] a(3) more.hyps(4) by simp
qed simp

text \<open>C24: The reject-retry sweep sends no task back for ever: whatever the drafts, the gates and the lanes do in between, a task whose
  retry count and readmission marks are left as the sweep wrote them is readmitted and redrafted at most 29 times in all, continuations
  of a draft that ran out of turns apart.\<close>

theorem requeues_bounded:
  assumes "sent_back_again n task b" and "keyed task" and "count_ok task"
  shows "n \<le> 29"
  using sent_back_potential [OF assms] count_ok_bound [OF assms(3)] by simp

section \<open>A block with a signature\<close>

lemma spent_reads:
  assumes "keyed task" "spend_feedback b task = Returns u" "truthy (jget task ''promptContext'')"
  shows "keyed u" "jget u ''blockedReason'' = jget task ''blockedReason''" "jget u ''_prevBlockSignature'' = jget task ''_prevBlockSignature''"
    "k \<noteq> ''rawText'' \<Longrightarrow> jget (jget u ''promptContext'') k = jget (jget task ''promptContext'') k"
  using assms
  by (cases b; auto simp: spend_feedback_def rescope_def Let_def jget_del keyed_object jget_put jget_put_other split: if_splits)+

lemma fed_back_reads:
  assumes "keyed task" "fed_back c r task = Returns fb" "truthy (jget task ''promptContext'')"
  shows "keyed fb" "reason_text fb = reason_text task" "jget fb ''_prevBlockSignature'' = jget task ''_prevBlockSignature''"
    "\<exists>x. prior_feedback fb = prior_feedback task @ [x]"
    "k \<noteq> ''rawText'' \<Longrightarrow> jget (jget fb ''promptContext'') k = jget (jget task ''promptContext'') k"
proof -
  obtain u where u: "spend_feedback (select_feedback_branch c r task) task = Returns u"
    using assms(2) by (cases "spend_feedback (select_feedback_branch c r task) task") (simp_all add: fed_back_def Let_def)
  note s = spent_reads [OF assms(1) u assms(3)]
  let ?v = "obj_del (obj_del (obj_del u ''turnBudgetExhausted'') ''infraErrorRetry'') ''retryableDraftBlock''"
  have v: "keyed ?v" using s(1) by simp
  obtain x where fb: "fb = obj_put (unblock_status ?v) ''priorRejectionFeedback'' (JArr (prior_feedback task @ [x]))"
    using assms(2) u by (auto simp: fed_back_def Let_def)
  have g: "jget fb k' = jget u k'"
    if "k' \<notin> {''turnBudgetExhausted'', ''infraErrorRetry'', ''retryableDraftBlock'', ''status'', ''priorRejectionFeedback''}" for k'
    using that s(1) by (simp add: fb jget_put_other jget_unblock jget_del keyed_object)
  show "keyed fb" using v by (simp add: fb)
  show "reason_text fb = reason_text task" using s(2) by (simp add: reason_text_def g)
  show "jget fb ''_prevBlockSignature'' = jget task ''_prevBlockSignature''" using s(3) by (simp add: g)
  show "\<exists>x. prior_feedback fb = prior_feedback task @ [x]" using v by (simp add: fb prior_feedback_def jget_put)
  show "k \<noteq> ''rawText'' \<Longrightarrow> jget (jget fb ''promptContext'') k = jget (jget task ''promptContext'') k" using s(4) by (simp add: g)
qed

lemma signature_stays:
  assumes "keyed task" "compute_block_signature h task = Some sg" "fed_back c r task = Returns fb"
  shows "compute_block_signature h fb = Some sg"
proof -
  have p: "truthy (jget task ''promptContext'')"
    using assms(2) by (cases "jget task ''promptContext''") (auto simp: compute_block_signature_def Let_def split: if_splits)
  note r = fed_back_reads [OF assms(1,3) p]
  obtain x where x: "prior_feedback fb = prior_feedback task @ [x]" using r(4) by blast
  obtain t where "block_text fb = block_text task @ t"
    using join_append_more [of "reason_text task # map to_str (prior_feedback task)" newline "[to_str x]"] by (auto simp: block_text_def r(2) x)
  then have "has_marker (block_text task) \<Longrightarrow> has_marker (block_text fb)" using has_marker_append by simp
  then show ?thesis using assms(2) r(5) [of "''originalFile''"] r(5) [of "''originalRule''"]
    by (auto simp: compute_block_signature_def Let_def split: if_splits)
qed

lemma signature_ignores:
  assumes "k \<notin> {''blockedReason'', ''priorRejectionFeedback'', ''promptContext''}"
  shows "compute_block_signature h (obj_put task k x) = compute_block_signature h task"
proof -
  have "jget (obj_put task k x) f = jget task f" if "f \<in> {''blockedReason'', ''priorRejectionFeedback'', ''promptContext''}" for f
    by (rule jget_put_other) (use that assms in blast)
  then show ?thesis by (simp add: compute_block_signature_def block_text_def reason_text_def prior_feedback_def)
qed

lemma signature_after_history: "compute_block_signature h (append_history_event now st d task) = compute_block_signature h task"
  by (simp add: append_history_event_def Let_def signature_ignores)

lemma fed_back_signature:
  assumes "keyed task" "compute_block_signature (jw_hash w) task = Some sg" "fed_back c r (signed w task) = Returns fb"
  shows "keyed fb \<and> compute_block_signature (jw_hash w) fb = Some sg \<and> jget fb ''_prevBlockSignature'' = JStr sg"
proof -
  have e: "signed w task = obj_put task ''_prevBlockSignature'' (JStr sg)" using assms(2) by (simp add: signed_def)
  have k: "keyed (signed w task)" using assms(1) e by simp
  have sg: "compute_block_signature (jw_hash w) (signed w task) = Some sg" using assms(2) by (simp add: e signature_ignores)
  have p: "truthy (jget (signed w task) ''promptContext'')"
    using sg by (cases "jget (signed w task) ''promptContext''") (auto simp: compute_block_signature_def Let_def split: if_splits)
  have "jget (signed w task) ''_prevBlockSignature'' = JStr sg" using assms(1) by (simp add: e jget_put)
  then show ?thesis using fed_back_reads [OF k assms(3) p] signature_stays [OF k sg assms(3)] by simp
qed

lemma same_block_stuck:
  assumes "keyed task" "compute_block_signature (jw_hash w) task = Some sg" "jget task ''_prevBlockSignature'' = JStr sg"
  obtains t where "same_block w why task = reject_step_of SameBlock (InPlace t)" "jget t ''escalated'' = JBool True"
    "same_signature w t" "jget t ''blockedStage'' = jget task ''blockedStage''"
proof -
  let ?t = "append_history_event (jw_now w) ''exhausted'' (Some (UNCHANGED @ why))
    (obj_put (obj_put task ''localRejectCount'' (JNum (Fin (real MAX_LOCAL_REJECT_RETRIES)))) ''escalated'' (JBool True))"
  have "same_signature w ?t"
    using assms by (simp add: same_signature_def signature_after_history signature_ignores append_history_frame jget_put)
  moreover have "jget ?t ''escalated'' = JBool True" "jget ?t ''blockedStage'' = jget task ''blockedStage''"
    using assms(1) by (simp_all add: append_history_frame jget_put)
  ultimately show thesis using that [of ?t] by (simp add: same_block_def)
qed


text \<open>The outcome of a review rejection has no reason, since the reason is cleared before it is read.\<close>

lemma review_outcome_null:
  assumes "keyed task" "is_review_rejection task"
  shows "rj_outcome (sent_back w (clear_stage w r task)) = Some (''requeued'', JNull)"
proof -
  have k: "keyed (keep_partial_diff (without [''planResponse'', ''implementResponse''] task))"
    using jget_without [OF assms(1)] by (simp add: keep_partial_diff_def)
  have "keyed (without [''blockedStage'', ''blockedReason''] (keep_partial_diff (without [''planResponse'', ''implementResponse''] task)))"
    "jget (without [''blockedStage'', ''blockedReason''] (keep_partial_diff (without [''planResponse'', ''implementResponse''] task))) ''blockedReason'' = JUndef"
    using jget_without [OF k] by simp_all
  then show ?thesis
    using assms(2) by (simp add: clear_stage_def sent_back_def Let_def requeue_note_def append_history_frame)
qed

definition QUIET_WORLD :: reject_world where
  "QUIET_WORLD =
     \<lparr>jw_now = ''2026-09-24T10:00:00.000Z'', jw_noAutoRetry = (\<lambda>_. Returns False), jw_validate = (\<lambda>_. None), jw_targets = (\<lambda>_. Returns []),
      jw_premise = None, jw_external = (\<lambda>_. Returns True), jw_hash = (\<lambda>f. if f = ''src/a.js'' then Some ''1f0e'' else None),
      jw_fulfillment = (\<lambda>_. False), jw_advisory = (\<lambda>_. False), jw_clarify = True, jw_adhoc = True, jw_derived = True, jw_ghost = True,
      jw_approved = True, jw_lanes = [], jw_env = (\<lambda>_. None)\<rparr>"

definition BAD_CRITIQUE :: jv where
  "BAD_CRITIQUE = JObj [(''id'', JStr ''t1''), (''blockedStage'', JStr ''critique'')]"

definition RESCANNED :: jv where
  "RESCANNED = JObj [(''id'', JStr ''t2''), (''blockedStage'', JStr ''critique''), (''blockedReason'', JStr ''deterministic-rescan''),
     (''promptContext'', JObj [(''originalFile'', JStr ''src/a.js'')])]"


definition REDRAFTED :: jv where
  "REDRAFTED = JObj [(''id'', JStr ''t1''), (''blockedStage'', JStr ''critique''),
     (''priorRejectionFeedback'', JArr [JStr []]), (''localRejectCount'', JNum (Fin 1)),
     (''history'', JArr
       [JObj [(''stage'', JStr ''requeued''), (''at'', JStr ''2026-09-24T10:00:00.000Z''),
          (''detail'', JStr ''critique-pass degenerate -- the draft was never critiqued; redrafting from the top'')],
        JObj [(''stage'', JStr ''requeued''), (''at'', JStr ''2026-09-24T10:00:00.000Z'')]])]"

lemma requeues_bounded_witness: "sent_back_again 1 BAD_CRITIQUE REDRAFTED \<and> (1::nat) \<le> 29"
proof -
  have "reject_task QUIET_WORLD BAD_CRITIQUE = (reject_step_of Redrafted (MovedTo ''pending'' REDRAFTED))\<lparr>rj_outcome := Some (''requeued'', JNull)\<rparr>"
    by code_simp
  then have b: "sends_back (reject_task QUIET_WORLD BAD_CRITIQUE) REDRAFTED" by (simp add: sends_back_def reject_step_of_def)
  have k: "keyed REDRAFTED" "keyed BAD_CRITIQUE" by (simp_all add: REDRAFTED_def BAD_CRITIQUE_def)
  have d: "\<not> snd (draft_flags BAD_CRITIQUE)" by (simp add: draft_flags_def is_adhoc_task_def BAD_CRITIQUE_def)
  have c: "count_ok BAD_CRITIQUE" by (simp add: count_ok_def BAD_CRITIQUE_def jle_def)
  have s: "sent_back_again 1 BAD_CRITIQUE REDRAFTED"
    using sent_back_again.more [OF sent_back_again.here b d k(1)] by simp
  show ?thesis using s requeues_bounded [OF s k(2) c] by blast
qed

end
