(* ===== verification/Dispositions.thy ===== *)
theory Dispositions
  imports TaskRecords RejectChecks
begin

text \<open>
  \<open>src/task-disposition.js\<close> with \<open>src/apply-outcome-classifiers.js\<close> and \<open>src/branch-removal-ledger.js\<close>: what became of a
  task that was applied: merged, waiting on its branch, filed, dismissed, or lost. Git is an argument, from the words of a
  command to its trimmed output, empty when it fails. A ledger is the list of its lines, \<open>None\<close> for one that is no JSON. The
  arrow that some details carry is the character 0x1A.
\<close>

section \<open>Stages\<close>

definition TERMINAL_STAGES :: "string list" where
  "TERMINAL_STAGES = [''merged'', ''applied-direct'', ''filed'', ''dismissed'', ''noop'', ''pending-merge'', ''abandoned'',
     ''superseded'', ''aged-out'', ''recorded'']"

definition STABLE_TERMINAL_STAGES :: "string list" where
  "STABLE_TERMINAL_STAGES = filter (\<lambda>s. s \<noteq> ''pending-merge'') TERMINAL_STAGES"

definition last_event :: "jv \<Rightarrow> jv" where
  "last_event history = (if elems history = [] then JNull else last (elems history))"

definition last_with :: "(jv \<Rightarrow> bool) \<Rightarrow> jv \<Rightarrow> jv" where
  "last_with p history = (case find p (rev (elems history)) of Some h \<Rightarrow> h | None \<Rightarrow> JNull)"

definition last_applied_event :: "jv \<Rightarrow> jv" where
  "last_applied_event = last_with (\<lambda>h. truthy h \<and> jget h ''stage'' = JStr ''applied'')"

section \<open>The ledger of removed branches\<close>

type_synonym git_probe = "string list \<Rightarrow> string"

definition REMOVAL_CAUSES :: "string list" where
  "REMOVAL_CAUSES = [''merged'', ''discarded'', ''superseded-by-requeue'', ''hub-retired'', ''housekeeping'']"

definition drop_prefix :: "string \<Rightarrow> string \<Rightarrow> string" where
  "drop_prefix p s = (if starts_with p s then drop (length p) s else s)"

definition bare_branch :: "string \<Rightarrow> string" where
  "bare_branch b = drop_prefix ''origin/'' (drop_prefix ''remotes/'' (drop_prefix ''refs/'' b))"

definition record_branch_removal :: "string \<Rightarrow> string \<Rightarrow> jv \<Rightarrow> string \<Rightarrow> string \<Rightarrow> string \<Rightarrow> jv option list \<Rightarrow> jv option list \<times> bool" where
  "record_branch_removal now branch task_id cause detail actor ledger =
     (if branch = [] \<or> cause \<notin> set REMOVAL_CAUSES then (ledger, False)
      else (ledger @ [Some (JObj [(''branch'', JStr (bare_branch branch)), (''taskId'', task_id), (''cause'', JStr cause),
              (''detail'', JStr (take 300 detail)), (''actor'', JStr actor), (''at'', JStr now)])], True))"

definition read_ledger :: "jv option list \<Rightarrow> jv list" where
  "read_ledger ledger = filter (\<lambda>e. truthy e \<and> is_string (jget e ''branch'')) (List.map_filter (\<lambda>x. x) ledger)"

definition last_removal :: "jv option list \<Rightarrow> jv \<Rightarrow> jv" where
  "last_removal ledger branch =
     (if \<not> truthy branch then JNull
      else case find (\<lambda>e. jget e ''branch'' = JStr (bare_branch (to_str branch))) (rev (read_ledger ledger)) of Some e \<Rightarrow> e | None \<Rightarrow> JNull)"

section \<open>What git knows\<close>

record ship_context =
  sc_mainBranch :: string
  sc_onMainIds :: "(string \<times> string) list"
  sc_branchAhead :: "(string \<times> jnum) list"

definition NUL :: char where "NUL = CHR 0x00"

fun split_pair :: "char \<Rightarrow> string \<Rightarrow> string list" where
  "split_pair x (a # b # s) =
     (if a = x \<and> b = x then [] # split_pair x s
      else case split_pair x (b # s) of l # ls \<Rightarrow> (a # l) # ls | [] \<Rightarrow> [[a]])"
| "split_pair x s = [s]"

text \<open>\<open>Task: id (\<close> after the start of the text or a space, and \<open>(task id)\<close>; both go on after what they matched.\<close>

definition trailer_at :: "string \<Rightarrow> (string \<times> string) option" where
  "trailer_at s =
     (let r = drop 5 s; r1 = dropWhile is_space r; w = takeWhile (\<lambda>c. \<not> is_space c) r1; r2 = drop (length w) r1; r3 = dropWhile is_space r2
      in if starts_with ''Task:'' s \<and> r1 \<noteq> r \<and> w \<noteq> [] \<and> r3 \<noteq> r2 \<and> starts_with ''('' r3 then Some (w, drop 1 r3) else None)"

definition mention_at :: "string \<Rightarrow> (string \<times> string) option" where
  "mention_at s =
     (let r = drop 5 s; r1 = dropWhile is_space r; w = take 1 r1 @ takeWhile (\<lambda>c. \<not> is_space c \<and> c \<noteq> CHR '')'') (drop 1 r1);
          r2 = drop (length w) r1
      in if starts_with ''(task'' s \<and> r1 \<noteq> r \<and> r1 \<noteq> [] \<and> starts_with '')'' r2 then Some (w, drop 1 r2) else None)"

lemma shorter_parts:
  "length (dropWhile p x) \<le> length (x :: string)" "length (drop n x) \<le> length x"
  "starts_with [c] x \<Longrightarrow> length (drop 1 x) < length x"
  by (simp_all add: length_dropWhile_le starts_with_def) (cases x; simp)

lemma trailer_shorter: "trailer_at s = Some (w, r) \<Longrightarrow> length r < length s"
proof -
  assume "trailer_at s = Some (w, r)"
  then obtain r1 where "r1 = dropWhile is_space (drop (length w) (dropWhile is_space (drop 5 s)))" "starts_with ''('' r1" "r = drop 1 r1"
    by (auto simp: trailer_at_def Let_def split: if_splits)
  then show ?thesis
    using shorter_parts(3) [of "CHR ''(''" r1] shorter_parts(1) [of is_space] shorter_parts(2) by (metis le_less_trans le_trans less_le_trans)
qed

lemma mention_shorter: "mention_at s = Some (w, r) \<Longrightarrow> length r < length s"
proof -
  assume "mention_at s = Some (w, r)"
  then obtain r1 where "r1 = drop (length w) (dropWhile is_space (drop 5 s))" "starts_with '')'' r1" "r = drop 1 r1"
    by (auto simp: mention_at_def Let_def split: if_splits)
  then show ?thesis
    using shorter_parts(3) [of "CHR '')''" r1] shorter_parts(1) [of is_space] shorter_parts(2) by (metis le_less_trans le_trans less_le_trans)
qed

function trailers :: "bool \<Rightarrow> string \<Rightarrow> string list" where
  "trailers first s =
     (case (if first then trailer_at s else None) of
        Some (w, r) \<Rightarrow> w # trailers False r
      | None \<Rightarrow>
          (case s of
             [] \<Rightarrow> []
           | c # cs \<Rightarrow> (case (if is_space c then trailer_at cs else None) of Some (w, r) \<Rightarrow> w # trailers False r | None \<Rightarrow> trailers False cs)))"
  by pat_completeness auto
termination
  by (relation "measure (\<lambda>(b, s). length s)")
     (auto dest!: trailer_shorter split: if_splits)

function task_mentions :: "string \<Rightarrow> string list" where
  "task_mentions s = (case mention_at s of Some (w, r) \<Rightarrow> w # task_mentions r | None \<Rightarrow> (case s of [] \<Rightarrow> [] | c # cs \<Rightarrow> task_mentions cs))"
  by pat_completeness auto
termination by (relation "measure length") (auto dest: mention_shorter)

declare trailers.simps [simp del] task_mentions.simps [simp del]

definition note_ids :: "string \<Rightarrow> string list \<Rightarrow> (string \<times> string) list \<Rightarrow> (string \<times> string) list" where
  "note_ids sha ids m = fold (\<lambda>i m. if map_of m i = None then m @ [(i, sha)] else m) ids m"

definition note_commit :: "string \<Rightarrow> (string \<times> string) list \<Rightarrow> (string \<times> string) list" where
  "note_commit chunk m =
     (case split_char NUL chunk of
        sha # body # rest \<Rightarrow>
          if sha = [] \<or> body = [] then m
          else let short = take 12 (trim sha) in note_ids short (task_mentions body) (note_ids short (trailers True body) m)
      | _ \<Rightarrow> m)"

definition ahead_of :: "string \<Rightarrow> jnum" where
  "ahead_of ab = num_or (str_to_number (takeWhile (\<lambda>c. \<not> is_space c) (trim ab))) (Fin 0)"

definition note_branch :: "string \<Rightarrow> (string \<times> jnum) list \<Rightarrow> (string \<times> jnum) list" where
  "note_branch line m =
     (let ps = split_char NUL line; ref = hd ps; ab = (if length ps > 1 then ps ! 1 else []);
          i = drop_prefix ''agent/'' (drop_prefix ''origin/'' ref);
          old = (case map_of m i of Some n \<Rightarrow> num_or n (Fin 0) | None \<Rightarrow> Fin 0); new = ahead_of ab
      in if ref = [] then m else AList.update i (if jlt old new then new else old) m)"

definition detect_default_branch :: "git_probe \<Rightarrow> env \<Rightarrow> string" where
  "detect_default_branch git e =
     (case find (\<lambda>b. git [''rev-parse'', ''--verify'', ''origin/'' @ b] \<noteq> [])
             (filter (\<lambda>b. b \<noteq> []) [case e ''AGENT_MANAGER_MAIN_BRANCH'' of Some b \<Rightarrow> b | None \<Rightarrow> [], ''main'', ''master'']) of
        Some b \<Rightarrow> b | None \<Rightarrow> ''main'')"

definition build_ship_context :: "git_probe \<Rightarrow> string \<Rightarrow> ship_context" where
  "build_ship_context git main =
     \<lparr>sc_mainBranch = main,
      sc_onMainIds = fold note_commit (split_pair NUL (git [''log'', ''origin/'' @ main, ''--format=%H%x00%B%x00%x00''])) [],
      sc_branchAhead = fold note_branch (split_char (CHR 0x0A)
        (git [''for-each-ref'', ''--format=%(refname:short)%00%(ahead-behind:origin/'' @ main @ '')'', ''refs/heads/agent/'', ''refs/remotes/origin/agent/''])) []\<rparr>"

definition task_commit_on_main :: "git_probe \<Rightarrow> string \<Rightarrow> string \<Rightarrow> string" where
  "task_commit_on_main git main i =
     (let look = (\<lambda>needle. git [''log'', ''origin/'' @ main, ''-n'', ''1'', ''--fixed-strings'', ''--grep='' @ needle, ''--format=%H'']);
          a = look (''Task: '' @ i @ '' ('')
      in if a \<noteq> [] then a else look (''(task '' @ i @ '')''))"

definition branch_ahead_count :: "git_probe \<Rightarrow> string \<Rightarrow> string \<Rightarrow> bool \<times> jnum" where
  "branch_ahead_count git main branch =
     (case find (\<lambda>ref. git [''rev-parse'', ''--verify'', ''--quiet'', ref] \<noteq> []) [''origin/'' @ branch, branch] of
        Some ref \<Rightarrow> (True, num_or (str_to_number (git [''rev-list'', ''--count'', ''origin/'' @ main @ ''..'' @ ref])) (Fin 0))
      | None \<Rightarrow> (False, Fin 0))"

section \<open>Lines of a diff that are on a branch\<close>

definition MIN_LANDED_LINES :: nat where "MIN_LANDED_LINES = 5"
definition LANDED_FRACTION :: real where "LANDED_FRACTION = 9 / 10"
definition LOST_FRACTION :: real where "LOST_FRACTION = 1 / 2"

record presence =
  pr_present :: nat
  pr_checked :: nat
  pr_files :: nat

definition is_line_end :: "char \<Rightarrow> bool" where
  "is_line_end c \<longleftrightarrow> c = CHR 0x0A \<or> c = CHR 0x0D"

text \<open>The files of the diff with their distinctive added lines, and the file the walk is in.\<close>

definition diff_line :: "string \<Rightarrow> string \<times> (string \<times> string list) list \<Rightarrow> string \<times> (string \<times> string list) list" where
  "diff_line line st =
     (case st of (file, m) \<Rightarrow>
       let path = drop 6 line
       in if starts_with ''+++ b/'' line \<and> path \<noteq> [] \<and> list_all (\<lambda>c. \<not> is_line_end c) path
          then (trim path, if map_of m (trim path) = None then m @ [(trim path, [])] else m)
          else if file = [] \<or> \<not> starts_with ''+'' line \<or> starts_with ''+++'' line then (file, m)
          else let t = trim (drop 1 line)
               in (file, if 20 \<le> length t then map (\<lambda>(f, ls). if f = file then (f, ls @ [t]) else (f, ls)) m else m))"

definition added_lines :: "string \<Rightarrow> (string \<times> string list) list" where
  "added_lines diff = snd (fold diff_line (split_char (CHR 0x0A) diff) ([], []))"

definition count_presence :: "git_probe \<Rightarrow> string \<Rightarrow> string \<times> string list \<Rightarrow> presence \<Rightarrow> presence" where
  "count_presence git ref fa p =
     (case fa of (f, added) \<Rightarrow>
       let content = git [''show'', ''origin/'' @ ref @ '':'' @ f]; have_lines = map trim (split_char (CHR 0x0A) content)
       in if added = [] \<or> content = [] then p
          else p\<lparr>pr_present := pr_present p + length (filter (\<lambda>t. t \<in> set have_lines) added),
                 pr_checked := pr_checked p + length added, pr_files := pr_files p + 1\<rparr>)"

definition diff_presence :: "git_probe \<Rightarrow> bool \<Rightarrow> string \<Rightarrow> jv \<Rightarrow> presence option" where
  "diff_presence git repo ref raw =
     (if \<not> repo \<or> \<not> is_string raw \<or> str_of raw = [] then None
      else let p = fold (count_presence git ref) (added_lines (str_of raw)) \<lparr>pr_present = 0, pr_checked = 0, pr_files = 0\<rparr>
           in if 0 < pr_checked p then Some p else None)"

definition share :: "presence \<Rightarrow> real" where
  "share p = real (pr_present p) / real (pr_checked p)"

definition diff_already_on_main :: "git_probe \<Rightarrow> bool \<Rightarrow> string \<Rightarrow> jv \<Rightarrow> presence option" where
  "diff_already_on_main git repo main raw =
     (case diff_presence git repo main raw of
        Some p \<Rightarrow> if MIN_LANDED_LINES \<le> pr_checked p \<and> LANDED_FRACTION \<le> share p then Some p else None
      | None \<Rightarrow> None)"

text \<open>A stacked task whose change its shared branch no longer carries: what is left of it, and whether it is on the main branch.\<close>

definition stacked_sibling_lost :: "git_probe \<Rightarrow> bool \<Rightarrow> string \<Rightarrow> string \<Rightarrow> jv \<Rightarrow> (presence \<times> presence option) option" where
  "stacked_sibling_lost git repo main branch task =
     (let raw = jget task ''rawDiff''; notes = git [''log'', ''origin/'' @ main @ ''..origin/'' @ branch, ''--format=%B'']; i = to_str (jget task ''id'')
      in if \<not> truthy task \<or> \<not> truthy (jget task ''stacked'') \<or> \<not> truthy (jget (jget task ''stacked'') ''branch'') \<or> \<not> repo
            \<or> \<not> is_string raw \<or> str_of raw = [] \<or> notes = []
            \<or> contains (''Task: '' @ i @ '' ('') notes \<or> contains (''(task '' @ i @ '')'') notes then None
         else case diff_presence git repo branch raw of
           None \<Rightarrow> None
         | Some p \<Rightarrow> if pr_checked p < MIN_LANDED_LINES \<or> LOST_FRACTION \<le> share p then None
                    else Some (p, diff_already_on_main git repo main raw))"

section \<open>What an apply said it did\<close>

definition ARROW :: char where "ARROW = CHR 0x1A"

definition FILED_RE :: re where
  "FILED_RE = re_any [re_liti ''filed under'', re_all [re_lit ''->'', Star re_space, re_lit ''/''], re_all [chr ARROW, Star re_space, re_lit ''/''],
     re_liti ''appended'', re_liti ''candidate(s)'', re_all [re_liti ''wrote '', Star (Sym (\<lambda>c. \<not> is_line_end c)), re_liti ''.md'']]"

definition DEBRIEF_ARCHIVED_RE :: re where
  "DEBRIEF_ARCHIVED_RE = re_all [StartB, re_liti ''debriefed '', re_plus re_digit, re_liti '' task'']"

definition re_false_positive :: re where
  "re_false_positive = re_all [re_liti ''false'', re_opt (Sym (\<lambda>c. is_space c \<or> c = CHR ''-'')), re_liti ''positive'']"

definition DISMISSED_RE :: re where "DISMISSED_RE = re_all [WordB, re_false_positive, WordB]"

definition NOOP_RE :: re where
  "NOOP_RE = re_any (map re_liti [''no candidates'', ''no code change'', ''degenerate'', ''false positive'', ''empty implement'', ''no-op'', ''suggested 0'',
     ''nothing to apply'', ''nothing to do'', ''skipped''])"

definition DIRECT_RE :: re where
  "DIRECT_RE = re_any (map re_liti [''committed to master'', ''committed to main'', ''triage batch''])"

definition is_branch_detail :: "string \<Rightarrow> bool" where "is_branch_detail d = starts_with ''agent/'' d"

definition is_noop_apply_detail :: "string \<Rightarrow> bool" where
  "is_noop_apply_detail d \<longleftrightarrow> \<not> is_branch_detail (trim d) \<and> re_test NOOP_RE d"

text \<open>The first branch a detail names.\<close>

definition is_ref_char :: "char \<Rightarrow> bool" where
  "is_ref_char c \<longleftrightarrow> is_word c \<or> c \<in> {CHR ''.'', CHR ''/'', CHR ''-''}"

fun named_branch :: "bool \<Rightarrow> string \<Rightarrow> string option" where
  "named_branch after_word [] = None"
| "named_branch after_word (c # cs) =
     (let rest = takeWhile is_ref_char (drop 6 (c # cs))
      in if \<not> after_word \<and> starts_with ''agent/'' (c # cs) \<and> rest \<noteq> [] then Some (''agent/'' @ rest) else named_branch (is_word c) cs)"

definition ADVISORY_REPORT_SOURCES :: "string list" where
  "ADVISORY_REPORT_SOURCES = [''pipeline_forensics'', ''pipeline_debrief'', ''capability_debrief'', ''pipeline_health_audit'']"

definition detail_or_none :: "string \<Rightarrow> string" where
  "detail_or_none d = (if d = [] then ''(no detail)'' else d)"

definition classify_apply_outcome :: "jv \<Rightarrow> string \<Rightarrow> string \<times> string" where
  "classify_apply_outcome task detail =
     (let src = jget task ''source''
      in if is_string src \<and> str_of src \<in> set ADVISORY_REPORT_SOURCES
         then (''filed'', take 200 (''outcome=filed (advisory report, source='' @ str_of src @ ''): '' @ detail_or_none detail))
         else (''noop'', take 200 (''outcome=unclassified: '' @ detail_or_none detail)))"

section \<open>The disposition\<close>

record disposition_world =
  dw_repo :: bool
  dw_git :: git_probe
  dw_main :: string
  dw_ctx :: "ship_context option"
  dw_reopen :: "string list"
  dw_ledger :: "jv option list option"
  dw_env :: env

type_synonym disposition_verdict = "(string \<times> string) option"

definition main_branch :: "disposition_world \<Rightarrow> string" where
  "main_branch w =
     (case dw_ctx w of
        Some c \<Rightarrow> if sc_mainBranch c \<noteq> [] then sc_mainBranch c else if dw_main w \<noteq> [] then dw_main w
                 else if dw_repo w then detect_default_branch (dw_git w) (dw_env w) else ''master''
      | None \<Rightarrow> if dw_main w \<noteq> [] then dw_main w else if dw_repo w then detect_default_branch (dw_git w) (dw_env w) else ''master'')"

definition capped :: "nat \<Rightarrow> string \<Rightarrow> string \<Rightarrow> disposition_verdict" where
  "capped n stage detail = Some (stage, take n detail)"

definition by_review :: "jv \<Rightarrow> string \<Rightarrow> disposition_verdict" where
  "by_review task detail =
     (let rd = trim (or_empty (jget task ''reviewDisposition''))
      in if rd = ''dismissed''
         then capped 200 ''dismissed'' (''review dismissed a scanner false positive'' @ (if detail = [] then [] else '': '' @ detail))
         else if rd = ''inconclusive''
         then capped 200 ''noop'' (''review reached a verdict but produced nothing: '' @ detail_or_none detail)
         else None)"

definition commit_of :: "disposition_world \<Rightarrow> jv \<Rightarrow> string" where
  "commit_of w task =
     (let i = jget task ''id''
      in if \<not> truthy i then []
         else case dw_ctx w of
           Some c \<Rightarrow> if is_string i then (case map_of (sc_onMainIds c) (str_of i) of Some sha \<Rightarrow> sha | None \<Rightarrow> []) else []
         | None \<Rightarrow> if dw_repo w then task_commit_on_main (dw_git w) (main_branch w) (to_str i) else [])"

definition by_commit :: "disposition_world \<Rightarrow> jv \<Rightarrow> disposition_verdict" where
  "by_commit w task =
     (if commit_of w task = [] then None
      else Some (''merged'', ''on origin/'' @ main_branch w @ '' @ '' @ take 12 (commit_of w task) @ '' (commit-trailer)''))"

definition by_direct :: "string \<Rightarrow> disposition_verdict" where
  "by_direct detail = (if re_test DIRECT_RE detail then capped 200 ''applied-direct'' (''directToMain apply: '' @ detail) else None)"

text \<open>The branch a task is on: the shared one it is stacked on, the one its apply names, or its own. One that is no text throws.\<close>

definition real_branch :: "jv \<Rightarrow> string \<Rightarrow> jv" where
  "real_branch task detail =
     (let b = jget (jget task ''stacked'') ''branch''
      in if truthy (jget task ''stacked'') \<and> truthy b then b
         else case named_branch False detail of Some n \<Rightarrow> JStr n | None \<Rightarrow> JUndef)"

definition branch_state :: "disposition_world \<Rightarrow> jv \<Rightarrow> string \<Rightarrow> bool \<times> jnum" where
  "branch_state w key label =
     (case dw_ctx w of
        Some c \<Rightarrow>
          (case (if is_string key then map_of (sc_branchAhead c) (str_of key) else None) of
             Some n \<Rightarrow> (True, num_or n (Fin 0)) | None \<Rightarrow> (False, Fin 0))
      | None \<Rightarrow> if dw_repo w then branch_ahead_count (dw_git w) (main_branch w) label else (False, Fin 0))"

definition of_lines :: "nat \<Rightarrow> nat \<Rightarrow> string" where
  "of_lines a b = nat_str a @ '' of '' @ nat_str b @ '' distinctive added lines''"

definition judge_branch :: "disposition_world \<Rightarrow> jv \<Rightarrow> jv \<Rightarrow> string \<Rightarrow> bool \<times> jnum \<Rightarrow> disposition_verdict" where
  "judge_branch w task shared label st =
     (case st of (there, ahead) \<Rightarrow>
       if there \<and> jlt (Fin 0) ahead
       then case (if truthy shared \<and> truthy (jget task ''stacked'')
                  then stacked_sibling_lost (dw_git w) (dw_repo w) (main_branch w) (drop_prefix ''origin/'' (str_of shared)) task else None) of
              Some (p, Some m) \<Rightarrow> Some (''superseded'', label @ '' exists but no longer carries this task's change; ''
                 @ of_lines (pr_present m) (pr_checked m) @ '' are already on '' @ main_branch w)
            | Some (p, None) \<Rightarrow> Some (''abandoned'', label @ '' exists but carries none of this task's change (''
                 @ of_lines (pr_present p) (pr_checked p) @ '' present): its commit was lost from the shared branch, and it is not on '' @ main_branch w)
            | None \<Rightarrow> Some (''pending-merge'', label @ '' is '' @ num_str ahead @ '' commit(s) ahead of '' @ main_branch w @ '', not merged'')
       else if there \<and> ahead = Fin 0
       then Some (''merged'', label @ '' fully contained in '' @ main_branch w @ '' (branch not ahead)'')
       else None)"

definition by_branch :: "disposition_world \<Rightarrow> jv \<Rightarrow> string \<Rightarrow> disposition_verdict outcome" where
  "by_branch w task detail =
     (let i = jget task ''id''; shared = real_branch task detail
      in if \<not> truthy i then Returns None
         else if truthy shared \<and> \<not> is_string shared then Throws
         else let key = (if truthy shared then JStr (drop_prefix ''agent/'' (str_of shared)) else i);
                  label = (if truthy shared then str_of shared else ''agent/'' @ to_str i)
              in Returns (judge_branch w task shared label (branch_state w key label)))"

definition by_filing :: "string \<Rightarrow> disposition_verdict" where
  "by_filing detail =
     (if re_test FILED_RE detail then capped 200 ''filed'' (''apply wrote a doc/note: '' @ detail)
      else if re_test DEBRIEF_ARCHIVED_RE detail then capped 200 ''filed'' (''debrief archived its window + filed its findings: '' @ detail)
      else None)"

definition by_review_source :: "jv \<Rightarrow> string \<Rightarrow> disposition_verdict" where
  "by_review_source task detail =
     (let src = or_empty (jget task ''source''); p = jget task ''planResponse'';
          said = detail @ newline @ or_empty (jget task ''implementResponse'') @ newline
            @ or_empty (if truthy p then p else jget task ''lastGoodPlan'')
      in if (ends_with ''_review'' src \<or> ends_with ''_review_digest'' src) \<and> re_test DISMISSED_RE said
         then capped 200 ''dismissed'' (to_str (jget task ''source'') @ '' verdict: false-positive dismissal'') else None)"

definition by_noop :: "string \<Rightarrow> disposition_verdict" where
  "by_noop detail = (if is_noop_apply_detail detail then capped 200 ''noop'' (''no-op verdict: '' @ detail) else None)"

definition removal_of :: "disposition_world \<Rightarrow> jv \<Rightarrow> string \<Rightarrow> jv" where
  "removal_of w task detail =
     (case dw_ledger w of
        None \<Rightarrow> JNull
      | Some ledger \<Rightarrow>
          (case find (\<lambda>r. truthy r) (map (last_removal ledger) (filter truthy
             [if truthy (jget task ''stacked'') then jget (jget task ''stacked'') ''branch'' else JNull,
              JStr (takeWhile (\<lambda>c. \<not> is_space c) detail)])) of
             Some r \<Rightarrow> r | None \<Rightarrow> JNull))"

definition removal_text :: "jv \<Rightarrow> string" where
  "removal_text r =
     (if \<not> truthy r then ''no removal recorded -- deleted outside the pipeline''
      else ''removed '' @ take 10 (or_empty (jget r ''at'')) @ '' by '' @ (if truthy (jget r ''actor'') then to_str (jget r ''actor'') else ''unknown'')
        @ '' ('' @ to_str (jget r ''cause'') @ (if truthy (jget r ''detail'') then '': '' @ to_str (jget r ''detail'') else []) @ '')'')"

definition branch_gone :: "disposition_world \<Rightarrow> jv \<Rightarrow> string \<Rightarrow> disposition_verdict" where
  "branch_gone w task detail =
     (if \<not> is_branch_detail detail then None
      else case diff_already_on_main (dw_git w) (dw_repo w) (main_branch w) (jget task ''rawDiff'') of
        Some p \<Rightarrow> capped 240 ''superseded'' (''applied to '' @ detail @ '' -- branch gone, but '' @ of_lines (pr_present p) (pr_checked p)
          @ '' ('' @ nat_str (pr_files p) @ '' file(s)) are already on '' @ main_branch w @ '': the work landed another way'')
      | None \<Rightarrow> capped 320 ''abandoned'' (''applied to '' @ detail @ '' -- branch gone, not on '' @ main_branch w @ '': work lost; ''
          @ removal_text (removal_of w task detail)))"

text \<open>The rules in order; the answer \<open>None\<close> leaves the classifiers of last resort, which also note the apply in the history.\<close>

fun first_of :: "disposition_verdict list \<Rightarrow> disposition_verdict" where
  "first_of [] = None"
| "first_of (v # vs) = (case v of Some x \<Rightarrow> Some x | None \<Rightarrow> first_of vs)"

definition judge :: "disposition_world \<Rightarrow> jv \<Rightarrow> string \<Rightarrow> disposition_verdict outcome" where
  "judge w task detail =
     (case first_of [by_review task detail, by_commit w task, by_direct detail] of
        Some x \<Rightarrow> Returns (Some x)
      | None \<Rightarrow> and_then (by_branch w task detail) (\<lambda>b. Returns (first_of
          [b, by_filing detail, by_review_source task detail, by_noop detail, branch_gone w task detail])))"

definition closed_already :: "disposition_world \<Rightarrow> jv \<Rightarrow> bool" where
  "closed_already w task \<longleftrightarrow>
     (let tail = last_event (jget task ''history'')
      in truthy tail \<and> jget tail ''stage'' \<in> JStr ` set STABLE_TERMINAL_STAGES \<and> jget tail ''stage'' \<notin> JStr ` set (dw_reopen w))"

definition applied_detail :: "jv \<Rightarrow> string" where
  "applied_detail task = trim (or_empty (jget (last_applied_event (jget task ''history'')) ''detail''))"

definition resolve_disposition :: "string \<Rightarrow> disposition_world \<Rightarrow> jv \<Rightarrow> (jv \<times> disposition_verdict) outcome" where
  "resolve_disposition now w task =
     (if \<not> settable task \<or> \<not> truthy (last_applied_event (jget task ''history'')) \<or> closed_already w task then Returns (task, None)
      else and_then (judge w task (applied_detail task)) (\<lambda>v.
        case v of
          Some x \<Rightarrow> Returns (task, Some x)
        | None \<Rightarrow> let c = classify_apply_outcome task (applied_detail task)
                  in Returns (append_history_event now ''apply'' (Some (snd c)) task, Some c)))"

end
