(* ===== verification/Reconcile.thy ===== *)
theory Reconcile
  imports Dispositions QueueSweeps
begin

text \<open>
  \<open>src/task-log-reconcile.js\<close>: every applied task in \<open>done\<close> gets a closing event, and what is closed is not read again.
  \<open>src/abandoned-recheck.js\<close> looks again at the tasks called lost, and \<open>src/shared-branch-restore.js\<close> applies one again whose
  commit went with a shared branch. The state files are JSON values beside the store. Git, \<open>JSON.parse\<close> and the files' times
  are arguments; the search for a fix's other sites is logged. Writes succeed.
\<close>

section \<open>What a fix is searched for\<close>

definition is_trivial_line :: "string \<Rightarrow> bool" where
  "is_trivial_line l \<longleftrightarrow> list_all (\<lambda>c. c \<in> set ''{}();,[]'') l"

definition pick_representative_line :: "jv \<Rightarrow> string option" where
  "pick_representative_line text =
     (let ls = filter (\<lambda>l. l \<noteq> []) (map trim (split_char (CHR 0x0A) (or_empty text)));
          cs = filter (\<lambda>l. 15 \<le> length l \<and> \<not> is_trivial_line l \<and> \<not> starts_with ''//'' l \<and> \<not> starts_with ''#'' l) ls
      in case js_sort (\<lambda>a b. Fin (real (length b) - real (length a))) cs of [] \<Rightarrow> None | l # _ \<Rightarrow> Some (take 200 l))"

record amplification =
  am_query :: string
  am_excludeFiles :: "jv list"
  am_rootCause :: jv

definition edit_text :: "jv \<Rightarrow> jv" where
  "edit_text item =
     (if jget item ''mode'' = JStr ''edit'' then jget item ''replace''
      else if jget item ''mode'' = JStr ''create'' then jget item ''content'' else JNull)"

text \<open>An entry that is falsy or names no file is passed over.\<close>

definition derive_amplification_request :: "(jv \<Rightarrow> jv outcome) \<Rightarrow> jv \<Rightarrow> amplification option" where
  "derive_amplification_request parse task =
     (case parse (jget task ''implementResponse'') of
        Throws \<Rightarrow> None
      | Returns p \<Rightarrow>
          let items = filter (\<lambda>i. truthy i \<and> truthy (jget i ''file'')) (if is_array p then elems p else [p]);
              title = jget task ''title''; c = jget task ''promptContext''; sig = (if truthy c then jget c ''signature'' else c)
          in case List.map_filter (\<lambda>i. pick_representative_line (edit_text i)) items of
               [] \<Rightarrow> None
             | q # _ \<Rightarrow> Some \<lparr>am_query = q, am_excludeFiles = map (\<lambda>i. jget i ''file'') items,
                 am_rootCause = (if truthy title then title else if truthy sig then sig else JStr ''confirmed systemic fix'')\<rparr>)"

section \<open>Closing a record\<close>

record reconcile_world =
  rc_world :: disposition_world
  rc_now :: string
  rc_clock :: real
  rc_dry :: bool
  rc_backfill :: bool
  rc_parse :: "jv \<Rightarrow> jv outcome"
  rc_mtime :: "string \<Rightarrow> real option"

definition last_terminal_stage :: "jv \<Rightarrow> jv" where
  "last_terminal_stage history =
     jget (last_with (\<lambda>h. truthy h \<and> jget h ''stage'' \<in> JStr ` set TERMINAL_STAGES) history) ''stage''"

definition closing :: "string \<Rightarrow> string \<Rightarrow> string \<Rightarrow> jv \<Rightarrow> jv" where
  "closing now stage detail task =
     (let t = obj_put (append_history_event now stage (Some detail) task) ''terminalDisposition'' (JStr stage)
      in if stage = ''merged'' \<and> \<not> truthy (jget t ''mergedAt'')
         then obj_put (obj_put t ''mergedAt'' (JStr now)) ''mergedAtSource'' (JStr ''task-log-reconcile'') else t)"

text \<open>The verdict, and the record to write: none when its stage is the last terminal one already.\<close>

definition reconcile_record :: "reconcile_world \<Rightarrow> jv \<Rightarrow> (disposition_verdict \<times> jv option) outcome" where
  "reconcile_record w task =
     and_then (resolve_disposition (rc_now w) (rc_world w) task) (\<lambda>(t, v).
       case v of
         None \<Rightarrow> Returns (None, None)
       | Some (stage, detail) \<Rightarrow>
           Returns (v, if last_terminal_stage (jget task ''history'') = JStr stage \<or> rc_dry w then None
                       else Some (closing (rc_now w) stage detail t)))"

record reconcile_state =
  rs_resolved :: "jv list"
  rs_pending :: "jv list"

definition load_reconcile_state :: "jv \<Rightarrow> reconcile_state" where
  "load_reconcile_state f = \<lparr>rs_resolved = uniq (elems (jget f ''resolvedIds'')), rs_pending = uniq (elems (jget f ''pendingIds''))\<rparr>"

definition sorted_ids :: "jv list \<Rightarrow> jv list" where
  "sorted_ids = js_sort (\<lambda>a b. str_cmp (to_str a) (to_str b))"

definition saved_state :: "string \<Rightarrow> reconcile_state \<Rightarrow> jv" where
  "saved_state now st =
     JObj [(''updatedAt'', JStr now), (''resolvedIds'', JArr (sorted_ids (rs_resolved st))), (''pendingIds'', JArr (sorted_ids (rs_pending st)))]"

definition mark_resolved :: "string \<Rightarrow> reconcile_state \<Rightarrow> reconcile_state" where
  "mark_resolved i st = \<lparr>rs_resolved = uniq (rs_resolved st @ [JStr i]), rs_pending = removeAll (JStr i) (rs_pending st)\<rparr>"

definition mark_pending :: "string \<Rightarrow> reconcile_state \<Rightarrow> reconcile_state" where
  "mark_pending i st = \<lparr>rs_resolved = removeAll (JStr i) (rs_resolved st), rs_pending = uniq (rs_pending st @ [JStr i])\<rparr>"

section \<open>The records to look at\<close>

definition still_open :: "bool \<Rightarrow> reconcile_state \<Rightarrow> bool \<Rightarrow> string \<Rightarrow> bool" where
  "still_open backfill st terminal_dir i \<longleftrightarrow>
     backfill \<or> JStr i \<notin> set (rs_resolved st) \<or> (JStr i \<in> set (rs_pending st) \<and> \<not> terminal_dir)"

fun push_names :: "(string \<Rightarrow> bool) \<Rightarrow> string \<Rightarrow> string list \<Rightarrow> (string \<times> string) list \<Rightarrow> (string \<times> string) list" where
  "push_names ok d [] out = out"
| "push_names ok d (n # ns) out =
     (let i = strip_json n
      in push_names ok d ns (if i \<in> fst ` set out \<or> \<not> ok i then out else out @ [(i, d)]))"

definition push_dir :: "bool \<Rightarrow> reconcile_state \<Rightarrow> qstore \<Rightarrow> bool \<Rightarrow> string \<Rightarrow> (string \<times> string) list \<Rightarrow> (string \<times> string) list" where
  "push_dir backfill st s terminal_dir d out = push_names (still_open backfill st terminal_dir) d (q_json s d) out"

definition candidate_records :: "bool \<Rightarrow> reconcile_state \<Rightarrow> qstore \<Rightarrow> (string \<times> string) list" where
  "candidate_records backfill st s =
     (let out = push_dir backfill st s True NO_ACTION_DIR (push_dir backfill st s False ''done'' [])
      in if backfill then fold (push_dir backfill st s True) (map (\<lambda>m. ''done/_archived/'' @ m) (q_subdirs s ''done/_archived'')) out else out)"

section \<open>A pass\<close>

record reconcile_report =
  rp_scanned :: nat
  rp_stages :: "string list"
  rp_errors :: nat
  rp_requests :: "(jv \<times> amplification) list"
  rp_pending :: "jv list"
  rp_abandoned :: "jv list"

definition no_report :: reconcile_report where
  "no_report = \<lparr>rp_scanned = 0, rp_stages = [], rp_errors = 0, rp_requests = [], rp_pending = [], rp_abandoned = []\<rparr>"

type_synonym reconcile_progress = "qstore \<times> reconcile_state \<times> reconcile_report"

definition amplified :: "reconcile_world \<Rightarrow> string \<Rightarrow> jv \<Rightarrow> (jv \<times> amplification) list" where
  "amplified w stage task =
     (if stage \<in> {''merged'', ''applied-direct''} \<and> jget task ''source'' \<in> {JStr ''pipeline_self_audit'', JStr ''pipeline_forensics_fix''}
      then (case derive_amplification_request (rc_parse w) task of Some a \<Rightarrow> [(jget task ''id'', a)] | None \<Rightarrow> []) else [])"

definition noted_verdict :: "reconcile_world \<Rightarrow> string \<Rightarrow> jv \<Rightarrow> string \<Rightarrow> bool \<Rightarrow> bool \<Rightarrow> reconcile_state \<times> reconcile_report \<Rightarrow> reconcile_state \<times> reconcile_report" where
  "noted_verdict w i task stage changed wrote sr =
     (case sr of (st, r) \<Rightarrow>
       let r1 = r\<lparr>rp_stages := rp_stages r @ (if changed then [stage] else []), rp_requests := rp_requests r @ (if wrote then amplified w stage task else [])\<rparr>;
           tid = jget task ''id''
       in if stage = ''pending-merge'' then (mark_pending i st, r1\<lparr>rp_pending := rp_pending r1 @ [tid]\<rparr>)
          else (mark_resolved i st, if stage = ''abandoned'' then r1\<lparr>rp_abandoned := rp_abandoned r1 @ [tid]\<rparr> else r1))"

definition needs_no_verdict :: "jv \<Rightarrow> bool" where
  "needs_no_verdict task \<longleftrightarrow>
     (let tail = last_event (jget task ''history'')
      in (truthy tail \<and> jget tail ''stage'' \<in> JStr ` set STABLE_TERMINAL_STAGES) \<or> \<not> truthy (last_applied_event (jget task ''history'')))"

definition reconcile_file :: "reconcile_world \<Rightarrow> string \<times> string \<Rightarrow> reconcile_progress \<Rightarrow> reconcile_progress" where
  "reconcile_file w c p =
     (case (c, p) of ((i, d), (s, st, r)) \<Rightarrow>
       let name = i @ ''.json''; task = q_read s d name; r1 = r\<lparr>rp_scanned := rp_scanned r + 1\<rparr>
       in if task = JNull then (s, st, r\<lparr>rp_errors := rp_errors r + 1\<rparr>)
          else case reconcile_record w task of
            Throws \<Rightarrow> (s, st, r1\<lparr>rp_errors := rp_errors r1 + 1\<rparr>)
          | Returns (None, _) \<Rightarrow> (s, if needs_no_verdict task then mark_resolved i st else st, r1)
          | Returns (Some (stage, _), t) \<Rightarrow>
              (case t of None \<Rightarrow> s | Some t' \<Rightarrow> q_write s d name t',
               noted_verdict w i task stage (last_terminal_stage (jget task ''history'') \<noteq> JStr stage) (t \<noteq> None) (st, r1)))"

definition reconcile_files :: "reconcile_world \<Rightarrow> qstore \<times> reconcile_state \<Rightarrow> reconcile_progress" where
  "reconcile_files w ss =
     (case ss of (s, st) \<Rightarrow> fold (reconcile_file w) (candidate_records (rc_backfill w) st s) (s, st, no_report))"

definition MIN_COMMITS_FOR_SHIP_CONTEXT_SANITY_CHECK :: nat where
  "MIN_COMMITS_FOR_SHIP_CONTEXT_SANITY_CHECK = 20"

definition real_commit_count :: "git_probe \<Rightarrow> string \<Rightarrow> jnum" where
  "real_commit_count git main = num_or (str_to_number (git [''rev-list'', ''--count'', ''origin/'' @ main])) (Fin 0)"

definition ship_context_looks_broken :: "disposition_world \<Rightarrow> bool" where
  "ship_context_looks_broken w \<longleftrightarrow>
     (case dw_ctx w of
        None \<Rightarrow> False
      | Some c \<Rightarrow> sc_onMainIds c = []
          \<and> jle (Fin (real MIN_COMMITS_FOR_SHIP_CONTEXT_SANITY_CHECK)) (real_commit_count (dw_git w) (sc_mainBranch c)))"

section \<open>Lost work looked at again\<close>

definition TTL_MS :: real where "TTL_MS = 6 * 3600 * 1000"
definition RECHECK_LIMIT :: nat where "RECHECK_LIMIT = 25"

definition RESTORE_DIRS :: "string list" where
  "RESTORE_DIRS = [''done'', ''review'', ''approved'', ''pending'', ''adhoc'', ''blocked'', ''needs-clarification'', ''awaiting-confirm'', ''drafting'']"

definition switched_off :: "string \<Rightarrow> env \<Rightarrow> bool" where
  "switched_off name e \<longleftrightarrow> (case e name of Some v \<Rightarrow> to_lower (trim v) = ''false'' | None \<Rightarrow> False)"

definition restore_enabled :: "env \<Rightarrow> bool" where
  "restore_enabled e \<longleftrightarrow> \<not> switched_off ''AGENT_MANAGER_SHARED_BRANCH_RESTORE'' e"

definition active_copy_exists :: "qstore \<Rightarrow> jv \<Rightarrow> bool" where
  "active_copy_exists s i \<longleftrightarrow> list_ex (\<lambda>d. d \<noteq> ''done'' \<and> q_has s d (to_str i @ ''.json'')) RESTORE_DIRS"

text \<open>\<open>history.filter\<close> throws on what is no list, and is not called on what is falsy.\<close>

definition applied_at :: "jv \<Rightarrow> jnum outcome" where
  "applied_at task =
     (let h = jget task ''history''; evs = filter (\<lambda>e. truthy e \<and> jget e ''stage'' = JStr ''applied'') (elems h)
      in if truthy h \<and> \<not> is_array h then Throws
         else Returns (if evs = [] then Fin 0 else num_or (date_parse (jget (last evs) ''at'')) (Fin 0)))"

definition should_restore :: "disposition_world \<Rightarrow> jv \<Rightarrow> (string \<times> jv) option outcome" where
  "should_restore w task =
     (let b = jget (jget task ''stacked'') ''branch''; branch = bare_branch (to_str b); raw = jget task ''rawDiff'';
          removal = last_removal (case dw_ledger w of Some l \<Rightarrow> l | None \<Rightarrow> []) (JStr branch);
          main = (case dw_ctx w of Some c \<Rightarrow> sc_mainBranch c | None \<Rightarrow> []); gone = date_parse (jget removal ''at'');
          ahead = num_or (str_to_number (dw_git w [''rev-list'', ''--count'', ''origin/'' @ main @ ''..origin/'' @ branch])) (Fin 0)
      in if \<not> truthy task \<or> \<not> truthy (jget task ''id'') \<or> truthy (jget task ''sharedBranchRestored'') then Returns None
         else if \<not> truthy (jget task ''stacked'') \<or> \<not> truthy b \<or> branch = [] \<or> \<not> is_string raw \<or> str_of raw = [] then Returns None
         else if \<not> truthy removal \<or> jget removal ''cause'' \<noteq> JStr ''superseded-by-requeue'' then Returns None
         else if \<not> truthy (jget removal ''taskId'') \<or> strict_eq (jget removal ''taskId'') (jget task ''id'') then Returns None
         else and_then (if num_truthy gone then applied_at task else Returns (Fin 0)) (\<lambda>applied.
           if num_truthy gone \<and> jlt gone applied then Returns None
           else if dw_git w [''rev-parse'', ''--verify'', ''--quiet'', ''origin/'' @ branch] = [] then Returns None
           else if jle ahead (Fin 0) then Returns None
           else case stacked_sibling_lost (dw_git w) (dw_repo w) main branch task of
             Some (_, None) \<Rightarrow> Returns (Some (branch, jget removal ''taskId''))
           | _ \<Rightarrow> Returns None))"

definition restored_record :: "string \<Rightarrow> string \<Rightarrow> jv \<Rightarrow> jv \<Rightarrow> jv" where
  "restored_record now branch removed_by task =
     obj_put (obj_put (obj_del (obj_del (obj_del
       (append_history_event now ''approved'' (Some (''shared-branch-restore: its approved commit was destroyed when '' @ to_str removed_by
          @ '' was requeued (that requeue deleted the shared branch '' @ branch @ ''); re-applying the already-reviewed diff, no redraft'')) task)
       ''terminalDisposition'') ''blockedReason'') ''blockedStage'') ''status'' (JStr ''approved''))
       ''sharedBranchRestored'' (JObj [(''at'', JStr now), (''branch'', JStr branch), (''removedBy'', removed_by)])"

text \<open>The state of the recheck: when the directory was scanned, the lost tasks and when each was looked at.\<close>

record recheck_state =
  ks_scannedAt :: jnum
  ks_abandoned :: "jv list"
  ks_checked :: jv

definition load_recheck :: "jv \<Rightarrow> recheck_state" where
  "load_recheck f =
     \<lparr>ks_scannedAt = num_or (to_number (jget f ''scannedAtMs'')) (Fin 0), ks_abandoned = elems (jget f ''abandoned''),
      ks_checked = (let c = jget f ''checked'' in if is_object c \<or> is_array c then c else JObj [])\<rparr>"

definition saved_recheck :: "string \<Rightarrow> recheck_state \<Rightarrow> jv" where
  "saved_recheck now k =
     JObj [(''updatedAt'', JStr now), (''scannedAtMs'', JNum (ks_scannedAt k)), (''abandoned'', JArr (sorted_ids (uniq (ks_abandoned k)))),
           (''checked'', ks_checked k)]"

definition scan_name :: "reconcile_world \<Rightarrow> qstore \<Rightarrow> jnum \<Rightarrow> string \<Rightarrow> jv list \<Rightarrow> jv list" where
  "scan_name w s since n known =
     (let i = JStr (strip_json n)
      in case rc_mtime w n of
        None \<Rightarrow> known
      | Some m \<Rightarrow>
          if num_truthy since \<and> jlt (Fin m) since \<and> i \<notin> set known then known
          else if jget (q_read s ''done'' n) ''terminalDisposition'' = JStr ''abandoned'' then uniq (known @ [i]) else removeAll i known)"

definition scan_for_abandoned :: "reconcile_world \<Rightarrow> qstore \<Rightarrow> recheck_state \<Rightarrow> recheck_state" where
  "scan_for_abandoned w s k =
     k\<lparr>ks_abandoned := fold (scan_name w s (ks_scannedAt k)) (q_json s ''done'') (uniq (ks_abandoned k)), ks_scannedAt := Fin (rc_clock w - 60000)\<rparr>"

definition due_ids :: "reconcile_world \<Rightarrow> recheck_state \<Rightarrow> jv list" where
  "due_ids w k =
     (let seen = (\<lambda>i. jget (ks_checked k) (to_str i)); rank = (\<lambda>i. num_or (date_parse (seen i)) (Fin 0))
      in take RECHECK_LIMIT (js_sort (\<lambda>a b. jsub (rank a) (rank b))
           (filter (\<lambda>i. \<not> truthy (seen i) \<or> jle (Fin TTL_MS) (jsub (Fin (rc_clock w)) (date_parse (seen i)))) (ks_abandoned k))))"

record recheck_report =
  kr_rechecked :: nat
  kr_corrected :: "(jv \<times> string) list"
  kr_restored :: "(jv \<times> string \<times> jv) list"
  kr_errors :: nat

type_synonym recheck_progress = "qstore \<times> recheck_state \<times> recheck_report"

definition no_longer_lost :: "jv \<Rightarrow> recheck_state \<Rightarrow> recheck_state" where
  "no_longer_lost i k = k\<lparr>ks_abandoned := removeAll i (ks_abandoned k)\<rparr>"

definition looked_at :: "string \<Rightarrow> jv \<Rightarrow> recheck_state \<Rightarrow> recheck_state" where
  "looked_at now i k = k\<lparr>ks_checked := obj_put (ks_checked k) (to_str i) (JStr now)\<rparr>"

definition corrected :: "string \<Rightarrow> string \<Rightarrow> string \<Rightarrow> jv \<Rightarrow> jv" where
  "corrected now stage detail task =
     obj_put (append_history_event now stage (Some (''abandoned-recheck: '' @ detail)) task) ''terminalDisposition'' (JStr stage)"

definition try_restore :: "reconcile_world \<Rightarrow> jv \<Rightarrow> jv \<Rightarrow> recheck_progress \<Rightarrow> recheck_progress outcome" where
  "try_restore w i task p =
     (case p of (s, k, r) \<Rightarrow>
       let stay = Returns (s, looked_at (rc_now w) i k, r); name = to_str i @ ''.json''
       in if \<not> restore_enabled (dw_env (rc_world w)) then stay
          else and_then (should_restore (rc_world w) task) (\<lambda>d.
            case d of
              None \<Rightarrow> stay
            | Some (branch, gone) \<Rightarrow>
                let r' = r\<lparr>kr_restored := kr_restored r @ [(i, branch, gone)]\<rparr>
                in if rc_dry w then Returns (s, looked_at (rc_now w) i k, r')
                   else if active_copy_exists s (jget task ''id'') then stay
                   else Returns (q_del (q_write s ''approved'' (to_str (jget task ''id'') @ ''.json'') (restored_record (rc_now w) branch gone task)) ''done'' name,
                                 no_longer_lost i k, r')))"

definition recheck_one :: "reconcile_world \<Rightarrow> jv \<Rightarrow> recheck_progress \<Rightarrow> recheck_progress" where
  "recheck_one w i p =
     (case p of (s, k, r) \<Rightarrow>
       let name = to_str i @ ''.json''; task = q_read s ''done'' name; r1 = r\<lparr>kr_rechecked := kr_rechecked r + 1\<rparr>
       in if jget task ''terminalDisposition'' \<noteq> JStr ''abandoned'' then (s, no_longer_lost i k, r)
          else case resolve_disposition (rc_now w) ((rc_world w)\<lparr>dw_reopen := [''abandoned'']\<rparr>) task of
            Throws \<Rightarrow> (s, k, r1\<lparr>kr_errors := kr_errors r1 + 1\<rparr>)
          | Returns (t, v) \<Rightarrow>
              (case (if v = None \<or> fst (the v) = ''abandoned'' then None else v) of
                 Some (stage, detail) \<Rightarrow>
                   (if rc_dry w then s else q_write s ''done'' name (corrected (rc_now w) stage detail t),
                    no_longer_lost i k, r1\<lparr>kr_corrected := kr_corrected r1 @ [(i, stage)]\<rparr>)
               | None \<Rightarrow>
                   (case try_restore w i t (s, k, r1) of
                      Returns p' \<Rightarrow> p' | Throws \<Rightarrow> (s, k, r1\<lparr>kr_errors := kr_errors r1 + 1\<rparr>))))"

definition recheck_abandoned :: "reconcile_world \<Rightarrow> qstore \<times> jv \<Rightarrow> qstore \<times> jv \<times> recheck_report" where
  "recheck_abandoned w sf =
     (case sf of (s, f) \<Rightarrow>
       let r0 = \<lparr>kr_rechecked = 0, kr_corrected = [], kr_restored = [], kr_errors = 0\<rparr>
       in if \<not> dw_repo (rc_world w) \<or> dw_ctx (rc_world w) = None \<or> switched_off ''AGENT_MANAGER_ABANDONED_RECHECK'' (dw_env (rc_world w))
          then (s, f, r0)
          else let k0 = scan_for_abandoned w s (load_recheck f);
                   (s', k, r) = fold (recheck_one w) (due_ids w k0) (s, k0, r0)
               in (s', if rc_dry w then f else saved_recheck (rc_now w) k, r))"

text \<open>A whole tick, over the store and the two state files.\<close>

definition reconcile :: "reconcile_world \<Rightarrow> qstore \<times> jv \<times> jv \<Rightarrow> qstore \<times> jv \<times> jv" where
  "reconcile w x =
     (case x of (s, f, g) \<Rightarrow>
       if ship_context_looks_broken (rc_world w) then (s, f, g)
       else let (s1, st, r) = reconcile_files w (s, load_reconcile_state f);
                (s2, g2, k) = (if rc_dry w then (s1, g, \<lparr>kr_rechecked = 0, kr_corrected = [], kr_restored = [], kr_errors = 0\<rparr>)
                               else recheck_abandoned w (s1, g))
            in (s2, if rc_dry w then f else saved_state (rc_now w) st, g2))"

end
