(* ===== verification/ReconcileProperties.thy ===== *)
theory ReconcileProperties
  imports Reconcile
begin

text \<open>
  What the reconciliation of finished tasks guarantees: a record is closed once, work is called lost only without a trace of
  it, and an id that was closed is never read again, whatever happens to its task later.
\<close>

section \<open>What the verdict depends on\<close>

definition JUDGED_FIELDS :: "string list" where
  "JUDGED_FIELDS = [''id'', ''reviewDisposition'', ''stacked'', ''source'', ''implementResponse'', ''planResponse'', ''lastGoodPlan'', ''rawDiff'']"

definition judged_alike :: "jv \<Rightarrow> jv \<Rightarrow> bool" where
  "judged_alike t u \<longleftrightarrow> truthy t = truthy u \<and> (\<forall>k\<in>set JUDGED_FIELDS. jget t k = jget u k)"

lemma alike_refl [simp]: "judged_alike t t"
  by (simp add: judged_alike_def)

lemma alike_trans: "judged_alike t u \<Longrightarrow> judged_alike u v \<Longrightarrow> judged_alike t v"
  by (simp add: judged_alike_def)

lemma alike_put: "k \<notin> set JUDGED_FIELDS \<Longrightarrow> judged_alike (obj_put t k x) t"
  unfolding judged_alike_def by (intro conjI ballI jget_put_other) (cases t; auto)+

lemma alike_history: "judged_alike (append_history_event now st d t) t"
  by (simp add: append_history_event_def Let_def alike_put JUDGED_FIELDS_def)

lemma alike_fields:
  assumes "judged_alike t u"
  shows "truthy t = truthy u" "jget t ''id'' = jget u ''id''" "jget t ''reviewDisposition'' = jget u ''reviewDisposition''"
    "jget t ''stacked'' = jget u ''stacked''" "jget t ''source'' = jget u ''source''"
    "jget t ''implementResponse'' = jget u ''implementResponse''" "jget t ''planResponse'' = jget u ''planResponse''"
    "jget t ''lastGoodPlan'' = jget u ''lastGoodPlan''" "jget t ''rawDiff'' = jget u ''rawDiff''"
  using assms by (simp_all add: judged_alike_def JUDGED_FIELDS_def)

lemma judge_alike:
  assumes "judged_alike t u"
  shows "judge w t d = judge w u d" "classify_apply_outcome t d = classify_apply_outcome u d"
proof -
  note f = alike_fields [OF assms]
  have l: "stacked_sibling_lost g r m b t = stacked_sibling_lost g r m b u" for g r m b
    unfolding stacked_sibling_lost_def f ..
  have "by_branch w t d = by_branch w u d" unfolding by_branch_def judge_branch_def real_branch_def f l ..
  moreover have "by_review t d = by_review u d" "by_commit w t = by_commit w u" "by_review_source t d = by_review_source u d"
    "branch_gone w t d = branch_gone w u d"
    unfolding by_review_def by_commit_def commit_of_def by_review_source_def branch_gone_def removal_of_def f by (rule refl)+
  ultimately show "judge w t d = judge w u d" by (simp only: judge_def)
  show "classify_apply_outcome t d = classify_apply_outcome u d" unfolding classify_apply_outcome_def f ..
qed

section \<open>A verdict is a terminal stage\<close>

definition verdict_ok :: "disposition_verdict \<Rightarrow> bool" where
  "verdict_ok v \<longleftrightarrow> (case v of None \<Rightarrow> True | Some (stage, _) \<Rightarrow> stage \<in> set TERMINAL_STAGES)"

lemma first_of_ok: "list_all verdict_ok vs \<Longrightarrow> verdict_ok (first_of vs)"
  by (induction vs) (auto split: option.splits simp: verdict_ok_def)

lemma capped_ok [simp]: "stage \<in> set TERMINAL_STAGES \<Longrightarrow> verdict_ok (capped n stage d)"
  by (simp add: verdict_ok_def capped_def)

lemma verdict_none [simp]: "verdict_ok None"
  by (simp add: verdict_ok_def)

lemma judge_branch_ok: "verdict_ok (judge_branch w t r l st)"
  by (auto simp: judge_branch_def verdict_ok_def TERMINAL_STAGES_def split: prod.splits option.splits)

lemma rules_ok:
  "verdict_ok (by_review t d)" "verdict_ok (by_commit w t)" "verdict_ok (by_direct d)" "verdict_ok (by_filing d)"
  "verdict_ok (by_review_source t d)" "verdict_ok (by_noop d)" "verdict_ok (branch_gone w t d)"
  by (simp_all add: by_review_def by_direct_def by_filing_def by_review_source_def by_noop_def branch_gone_def TERMINAL_STAGES_def Let_def
      split: option.splits) (simp_all add: by_commit_def verdict_ok_def TERMINAL_STAGES_def)

lemma by_branch_ok: "by_branch w t d = Returns v \<Longrightarrow> verdict_ok v"
  by (auto simp: by_branch_def Let_def judge_branch_ok split: if_splits)

lemma judge_ok: "judge w t d = Returns v \<Longrightarrow> verdict_ok v"
proof -
  assume j: "judge w t d = Returns v"
  let ?a = "first_of [by_review t d, by_commit w t, by_direct d]"
  have a: "verdict_ok ?a" by (rule first_of_ok) (simp add: rules_ok)
  show ?thesis
  proof (cases ?a)
    case (Some x)
    then show ?thesis using j a by (simp add: judge_def del: first_of.simps)
  next
    case None
    then obtain b where b: "by_branch w t d = Returns b" and v: "v = first_of [b, by_filing d, by_review_source t d, by_noop d, branch_gone w t d]"
      using j by (cases "by_branch w t d") (auto simp: judge_def simp del: first_of.simps)
    show ?thesis unfolding v by (rule first_of_ok) (simp add: rules_ok by_branch_ok [OF b])
  qed
qed

lemma classify_ok: "verdict_ok (Some (classify_apply_outcome t d))"
  by (simp add: classify_apply_outcome_def verdict_ok_def TERMINAL_STAGES_def Let_def)

section \<open>A record is closed once\<close>

lemma terminal_facts:
  "stage \<in> set TERMINAL_STAGES \<Longrightarrow> stage \<notin> set COLLAPSIBLE_REPEAT_STAGES \<and> stage \<noteq> ''applied''"
  "''apply'' \<notin> set TERMINAL_STAGES" "''apply'' \<notin> set COLLAPSIBLE_REPEAT_STAGES"
  by (auto simp: TERMINAL_STAGES_def COLLAPSIBLE_REPEAT_STAGES_def)

definition event_of :: "string \<Rightarrow> string \<Rightarrow> string option \<Rightarrow> jv" where
  "event_of now st d = with_detail d (JObj [(''stage'', JStr st), (''at'', JStr now)])"

lemma event_of_facts [simp]: "truthy (event_of now st d)" "jget (event_of now st d) ''stage'' = JStr st"
  by (auto simp: event_of_def with_detail_def jget_put split: option.splits)

lemma history_grows:
  "keyed task \<Longrightarrow> st \<notin> set COLLAPSIBLE_REPEAT_STAGES \<Longrightarrow>
   elems (jget (append_history_event now st d task) ''history'') = elems (jget task ''history'') @ [event_of now st d]"
  by (simp add: append_history_last event_of_def)

lemma last_with_append:
  "elems h = elems h' @ [e] \<Longrightarrow> last_with p h = (if p e then e else last_with p h')"
  by (simp add: last_with_def)

lemma last_event_append: "elems h = elems h' @ [e] \<Longrightarrow> last_event h = e"
  by (simp add: last_event_def)

lemma applied_after:
  assumes "keyed task" "st \<notin> set COLLAPSIBLE_REPEAT_STAGES" "st \<noteq> ''applied''"
  shows "last_applied_event (jget (append_history_event now st d task) ''history'') = last_applied_event (jget task ''history'')"
  unfolding last_applied_event_def
  using last_with_append [OF history_grows [OF assms(1,2)]] assms(3) by simp

lemma closing_facts:
  fixes now d :: string
  assumes "keyed task" "stage \<in> set TERMINAL_STAGES"
  defines "t \<equiv> closing now stage d task"
  shows "keyed t" "judged_alike t task" "elems (jget t ''history'') = elems (jget task ''history'') @ [event_of now stage (Some d)]"
    "json_value task \<Longrightarrow> json_value t"
proof -
  let ?a = "append_history_event now stage (Some d) task"
  have k: "keyed ?a" using assms(1) by simp
  show "keyed t" using k by (auto simp: t_def closing_def Let_def)
  have "judged_alike (closing now stage d task) ?a"
    unfolding closing_def Let_def by (auto intro!: alike_put [THEN alike_trans] alike_put simp: JUDGED_FIELDS_def)
  then show "judged_alike t task" using alike_history alike_trans unfolding t_def by blast
  have "jget t ''history'' = jget ?a ''history''" using k by (auto simp: t_def closing_def Let_def jget_put)
  then show "elems (jget t ''history'') = elems (jget task ''history'') @ [event_of now stage (Some d)]"
    using history_grows [OF assms(1)] terminal_facts(1) [OF assms(2)] by simp
  show "json_value task \<Longrightarrow> json_value t"
    using terminal_facts(1) [OF assms(2)] by (auto simp: t_def closing_def Let_def json_value_append_history)
qed

lemma resolve_inv:
  assumes "resolve_disposition now w task = Returns (t, Some x)" "keyed task"
  shows "truthy (last_applied_event (jget task ''history''))" "fst x \<in> set TERMINAL_STAGES" "keyed t" "judged_alike t task"
    "last_applied_event (jget t ''history'') = last_applied_event (jget task ''history'')"
    "judge w task (applied_detail task) = Returns (Some x)
     \<or> judge w task (applied_detail task) = Returns None \<and> x = classify_apply_outcome task (applied_detail task)"
    "json_value task \<Longrightarrow> json_value t"
proof -
  obtain v where j: "judge w task (applied_detail task) = Returns v" and a: "truthy (last_applied_event (jget task ''history''))"
    using assms(1) by (cases "judge w task (applied_detail task)") (auto simp: resolve_disposition_def split: if_splits)
  have v: "v = Some x \<and> t = task
      \<or> v = None \<and> x = classify_apply_outcome task (applied_detail task) \<and> t = append_history_event now ''apply'' (Some (snd x)) task"
    using assms(1) a j by (auto simp: resolve_disposition_def Let_def split: if_splits option.splits)
  show "truthy (last_applied_event (jget task ''history''))" by (rule a)
  show "judge w task (applied_detail task) = Returns (Some x)
     \<or> judge w task (applied_detail task) = Returns None \<and> x = classify_apply_outcome task (applied_detail task)"
    using v j by blast
  have "verdict_ok (Some x)" using v judge_ok [OF j] classify_ok [of task "applied_detail task"] by auto
  then show "fst x \<in> set TERMINAL_STAGES" by (simp add: verdict_ok_def split: prod.splits)
  show "keyed t" "judged_alike t task" using v assms(2) alike_history by auto
  show "last_applied_event (jget t ''history'') = last_applied_event (jget task ''history'')"
    using v applied_after [OF assms(2) terminal_facts(3)] by auto
  show "json_value task \<Longrightarrow> json_value t" using v terminal_facts(3) json_value_append_history by auto
qed

text \<open>C28: Reconciling is idempotent: once a pass has written a closing event, a later pass with the same view of git and the same
  switches, at whatever time, answers the same stage or finds the record closed, and writes nothing.\<close>

theorem closed_once:
  assumes "reconcile_record w task = Returns (v, Some t)" and "keyed task" and "json_value task" and "rc_world w' = rc_world w"
  shows "\<exists>v'. reconcile_record w' (json_image t) = Returns (v', None) \<and> (v' = None \<or> v' = v)"
proof -
  obtain u y where r0: "resolve_disposition (rc_now w) (rc_world w) task = Returns (u, y)"
    using assms(1) by (cases "resolve_disposition (rc_now w) (rc_world w) task") (auto simp: reconcile_record_def)
  obtain x where y: "y = Some x" using assms(1) r0 by (cases y) (auto simp: reconcile_record_def)
  have r: "resolve_disposition (rc_now w) (rc_world w) task = Returns (u, Some x)" using r0 y by simp
  have v: "v = Some x" and t: "t = closing (rc_now w) (fst x) (snd x) u"
    using assms(1) r by (auto simp: reconcile_record_def split: prod.splits if_splits)
  note f = resolve_inv [OF r assms(2)]
  note c = closing_facts [OF f(3) f(2), of "rc_now w" "snd x", folded t]
  have img: "json_image t = t" using c(4) f(7) assms(3) json_image_id(1) by blast
  have last: "last_terminal_stage (jget t ''history'') = JStr (fst x)"
    using f(2) by (simp add: last_terminal_stage_def last_with_append [OF c(3)])
  have "last_applied_event (jget t ''history'') = last_applied_event (jget u ''history'')"
    using terminal_facts(1) [OF f(2)] unfolding last_applied_event_def by (simp add: last_with_append [OF c(3)])
  then have app: "last_applied_event (jget t ''history'') = last_applied_event (jget task ''history'')" using f(5) by simp
  have alike: "judged_alike t task" using c(2) f(4) alike_trans by blast
  have d: "applied_detail t = applied_detail task" by (simp add: applied_detail_def app)
  show ?thesis
  proof (cases "closed_already (rc_world w) t")
    case True
    then show ?thesis by (simp add: img reconcile_record_def resolve_disposition_def assms(4))
  next
    case False
    have "settable t" using c(1) by (simp add: settable_def keyed_object)
    then have "\<exists>u'. resolve_disposition (rc_now w') (rc_world w) t = Returns (u', Some x)"
      using f(1,6) False judge_alike [OF alike] by (auto simp: resolve_disposition_def app d Let_def)
    then show ?thesis using last v by (cases x) (auto simp: img reconcile_record_def assms(4))
  qed
qed

section \<open>Work called lost\<close>

lemma first_of_in: "first_of vs = Some x \<Longrightarrow> Some x \<in> set vs"
  by (induction vs) (auto split: option.splits)

lemma first_of_none: "first_of vs = None \<longleftrightarrow> set vs \<subseteq> {None}"
  by (induction vs) (auto split: option.splits)

lemma other_stages:
  "by_review t d = Some x \<Longrightarrow> fst x \<in> {''dismissed'', ''noop''}" "by_commit w t = Some x \<Longrightarrow> fst x = ''merged''"
  "by_direct d = Some x \<Longrightarrow> fst x = ''applied-direct''" "by_filing d = Some x \<Longrightarrow> fst x = ''filed''"
  "by_review_source t d = Some x \<Longrightarrow> fst x = ''dismissed''" "by_noop d = Some x \<Longrightarrow> fst x = ''noop''"
  by (auto simp: by_review_def by_commit_def by_direct_def by_filing_def by_review_source_def by_noop_def capped_def Let_def split: if_splits)

lemma branch_gone_lost:
  "branch_gone w t d = Some x \<Longrightarrow> fst x = ''abandoned'' \<Longrightarrow>
   is_branch_detail d \<and> diff_already_on_main (dw_git w) (dw_repo w) (main_branch w) (jget t ''rawDiff'') = None"
  by (auto simp: branch_gone_def capped_def split: if_splits option.splits)

lemma by_branch_lost:
  assumes "by_branch w t d = Returns (Some x)" "fst x = ''abandoned''"
  shows "\<exists>b p. real_branch t d = JStr b
    \<and> stacked_sibling_lost (dw_git w) (dw_repo w) (main_branch w) (drop_prefix ''origin/'' b) t = Some (p, None)"
  using assms by (cases "real_branch t d") (auto simp: by_branch_def judge_branch_def Let_def split: if_splits prod.splits option.splits)


section \<open>A closed id is never read again\<close>

definition settled_id :: "string \<Rightarrow> reconcile_state \<Rightarrow> bool" where
  "settled_id i st \<longleftrightarrow> JStr i \<in> set (rs_resolved st) \<and> JStr i \<notin> set (rs_pending st)"

lemma push_names_from: "(i, e) \<in> set (push_names ok d ns out) \<Longrightarrow> (i, e) \<in> set out \<or> ok i"
  by (induction ns arbitrary: out) (force simp: Let_def split: if_splits)+

lemma settled_no_candidate: "settled_id i st \<Longrightarrow> (i, d) \<notin> set (candidate_records False st s)"
  by (auto simp: candidate_records_def push_dir_def still_open_def settled_id_def dest!: push_names_from)

lemma settled_mark [simp]:
  "j \<noteq> i \<Longrightarrow> settled_id i (mark_resolved j st) = settled_id i st" "j \<noteq> i \<Longrightarrow> settled_id i (mark_pending j st) = settled_id i st"
  by (auto simp: settled_id_def mark_resolved_def mark_pending_def)

definition untouched :: "string \<Rightarrow> qstore \<times> reconcile_state \<Rightarrow> qstore \<times> reconcile_state \<Rightarrow> bool" where
  "untouched i p q \<longleftrightarrow> (\<forall>d. q_get (fst q) d (i @ ''.json'') = q_get (fst p) d (i @ ''.json'')) \<and> (settled_id i (snd p) \<longrightarrow> settled_id i (snd q))"

lemma untouched_refl [simp]: "untouched i p p"
  by (simp add: untouched_def)

lemma untouched_trans: "untouched i p q \<Longrightarrow> untouched i q r \<Longrightarrow> untouched i p r"
  by (simp add: untouched_def)

lemma q_get_write: "q_get (q_write s d n v) d' n' = (if d' = d \<and> n' = n then Some (Doc (json_image v)) else q_get s d' n')"
  by (simp add: q_write_def)

lemma noted_state: "j \<noteq> i \<Longrightarrow> settled_id i (fst (noted_verdict w j task stage c b (st, r))) = settled_id i st"
  by (simp add: noted_verdict_def Let_def)

lemma reconcile_file_other:
  assumes "fst c \<noteq> i"
  shows "untouched i (s, st) (fst (reconcile_file w c (s, st, r)), fst (snd (reconcile_file w c (s, st, r))))"
proof -
  obtain j d where c: "c = (j, d)" "j \<noteq> i" using assms by (cases c) simp
  let ?task = "q_read s d (j @ ''.json'')"
  show ?thesis
  proof (cases "?task = JNull")
    case True
    then show ?thesis by (simp add: c reconcile_file_def Let_def)
  next
    case False
    show ?thesis
    proof (cases "reconcile_record w ?task")
      case Throws
      then show ?thesis using False by (simp add: c reconcile_file_def Let_def)
    next
      case (Returns vt)
      obtain v t where vt: "vt = (v, t)" by fastforce
      show ?thesis
        using False Returns c(2) noted_state [OF c(2)]
        by (cases v; cases t) (auto simp: c(1) vt reconcile_file_def Let_def untouched_def q_get_write split: prod.splits)
    qed
  qed
qed

lemma reconcile_files_other:
  assumes "\<not> rc_backfill w" "settled_id i st" "reconcile_files w (s, st) = (s', st', r)"
  shows "q_get s' d (i @ ''.json'') = q_get s d (i @ ''.json'')" "settled_id i st'"
proof -
  have "untouched i (s, st) (fst (fold (reconcile_file w) cs (s, st, r0)), fst (snd (fold (reconcile_file w) cs (s, st, r0))))"
    if "\<forall>c\<in>set cs. fst c \<noteq> i" for cs s st r0
    using that
  proof (induction cs arbitrary: s st r0)
    case (Cons c cs)
    obtain s1 st1 r1 where e: "reconcile_file w c (s, st, r0) = (s1, st1, r1)" using prod_cases3 by blast
    have "untouched i (s, st) (s1, st1)" using reconcile_file_other [of c i s st w r0] Cons.prems by (simp add: e)
    then show ?case using Cons.IH [of s1 st1 r1] Cons.prems untouched_trans by (simp add: e)
  qed simp
  moreover have "\<forall>c\<in>set (candidate_records False st s). fst c \<noteq> i" using settled_no_candidate [OF assms(2)] by fastforce
  ultimately have "untouched i (s, st) (s', st')" using assms(1,3) by (simp add: reconcile_files_def) (metis fst_conv snd_conv)
  then show "q_get s' d (i @ ''.json'') = q_get s d (i @ ''.json'')" "settled_id i st'" using assms(2) by (simp_all add: untouched_def)
qed

text \<open>The recheck touches a file of \<open>done\<close> only when its task is called lost.\<close>

lemma try_restore_other:
  assumes "try_restore w i task (s, k, r) = Returns p" "n \<noteq> to_str i @ ''.json''"
  shows "q_get (fst p) ''done'' n = q_get s ''done'' n"
proof (cases "restore_enabled (dw_env (rc_world w))")
  case True
  then obtain d where "should_restore (rc_world w) task = Returns d"
    using assms(1) by (cases "should_restore (rc_world w) task") (auto simp: try_restore_def Let_def)
  then show ?thesis
    using assms True by (cases d) (auto simp: try_restore_def Let_def q_get_write split: if_splits)
qed (use assms in \<open>auto simp: try_restore_def Let_def\<close>)

lemma recheck_one_other:
  assumes "jget (q_read s ''done'' n) ''terminalDisposition'' \<noteq> JStr ''abandoned''"
  shows "q_get (fst (recheck_one w i (s, k, r))) ''done'' n = q_get s ''done'' n"
proof (cases "n = to_str i @ ''.json''")
  case True
  then show ?thesis using assms by (simp add: recheck_one_def Let_def)
next
  case False
  let ?task = "q_read s ''done'' (to_str i @ ''.json'')" and ?w = "(rc_world w)\<lparr>dw_reopen := [''abandoned'']\<rparr>"
  show ?thesis
  proof (cases "resolve_disposition (rc_now w) ?w ?task")
    case Throws
    then show ?thesis by (simp add: recheck_one_def Let_def)
  next
    case (Returns tv)
    obtain t v where tv: "tv = (t, v)" by fastforce
    let ?r = "r\<lparr>kr_rechecked := kr_rechecked r + 1\<rparr>"
    show ?thesis
      using False Returns try_restore_other [of w i t s k ?r _ n]
      by (cases "try_restore w i t (s, k, ?r)") (auto simp: tv recheck_one_def Let_def q_get_write split: option.splits if_splits)
  qed
qed

lemma same_file_read: "q_get s d n = q_get s' d n \<Longrightarrow> q_read s d n = q_read s' d n"
  by (simp add: q_read_def)

lemma recheck_other:
  assumes "jget (q_read s ''done'' n) ''terminalDisposition'' \<noteq> JStr ''abandoned''"
  shows "q_get (fst (recheck_abandoned w (s, g))) ''done'' n = q_get s ''done'' n"
proof -
  have "q_get (fst (fold (recheck_one w) is p)) ''done'' n = q_get s ''done'' n"
    if "q_get (fst p) ''done'' n = q_get s ''done'' n" for "is" p
    using that
  proof (induction "is" arbitrary: p)
    case (Cons i rest)
    have "jget (q_read (fst p) ''done'' n) ''terminalDisposition'' \<noteq> JStr ''abandoned''"
      using same_file_read [OF Cons.prems] assms by simp
    then have "q_get (fst (recheck_one w i p)) ''done'' n = q_get s ''done'' n"
      using recheck_one_other [of "fst p" n w i "fst (snd p)" "snd (snd p)"] Cons.prems by simp
    then show ?case using Cons.IH by simp
  qed simp
  from this [of "(s, _, _)"] show ?thesis by (simp add: recheck_abandoned_def Let_def split: prod.splits) (metis fst_conv)
qed

definition settled_file :: "string \<Rightarrow> jv \<Rightarrow> bool" where
  "settled_file i f \<longleftrightarrow> JStr i \<in> set (elems (jget f ''resolvedIds'')) \<and> JStr i \<notin> set (elems (jget f ''pendingIds''))"

lemma settled_load: "settled_id i (load_reconcile_state f) = settled_file i f"
  by (simp add: settled_id_def load_reconcile_state_def settled_file_def)

lemma settled_saved: "settled_file i (saved_state now st) = settled_id i st"
  by (simp add: settled_id_def saved_state_def settled_file_def sorted_ids_def)

lemma reconcile_settled:
  assumes "\<not> rc_backfill w" "settled_file i f" "jget (q_read s ''done'' (i @ ''.json'')) ''terminalDisposition'' \<noteq> JStr ''abandoned''"
    "reconcile w (s, f, g) = (s', f', g')"
  shows "q_get s' ''done'' (i @ ''.json'') = q_get s ''done'' (i @ ''.json'')" "settled_file i f'"
proof -
  obtain s1 st r where e: "reconcile_files w (s, load_reconcile_state f) = (s1, st, r)" using prod_cases3 by blast
  have st: "settled_id i (load_reconcile_state f)" using assms(2) by (simp add: settled_load)
  have a: "q_get s1 ''done'' (i @ ''.json'') = q_get s ''done'' (i @ ''.json'')" "settled_id i st"
    using reconcile_files_other [OF assms(1) st e] by blast+
  have "jget (q_read s1 ''done'' (i @ ''.json'')) ''terminalDisposition'' \<noteq> JStr ''abandoned''"
    using same_file_read [OF a(1)] assms(3) by simp
  note b = recheck_other [OF this, of w g]
  show "q_get s' ''done'' (i @ ''.json'') = q_get s ''done'' (i @ ''.json'')" "settled_file i f'"
    using assms(2,4) a b by (auto simp: reconcile_def e settled_saved Let_def split: if_splits prod.splits)
qed

text \<open>C26: An id that reconciliation has closed once is never read again: whatever happened to its task since, for instance that it was
  restored and applied a second time, no number of ordinary ticks changes its record in \<open>done\<close>, so it never gets a closing event,
  unless its record says that the work is lost.\<close>

theorem closed_id_never_read_again:
  assumes "\<forall>w\<in>set ws. \<not> rc_backfill w" and "settled_file i f"
    and "jget (q_read s ''done'' (i @ ''.json'')) ''terminalDisposition'' \<noteq> JStr ''abandoned''"
    and "fold reconcile ws (s, f, g) = (s', f', g')"
  shows "q_get s' ''done'' (i @ ''.json'') = q_get s ''done'' (i @ ''.json'') \<and> settled_file i f'"
  using assms
proof (induction ws arbitrary: s f g)
  case (Cons w ws)
  obtain s1 f1 g1 where e: "reconcile w (s, f, g) = (s1, f1, g1)" using prod_cases3 by blast
  have w: "\<not> rc_backfill w" using Cons.prems(1) by simp
  note a = reconcile_settled [OF w Cons.prems(2,3) e]
  have "jget (q_read s1 ''done'' (i @ ''.json'')) ''terminalDisposition'' \<noteq> JStr ''abandoned''"
    using same_file_read [OF a(1)] Cons.prems(3) by simp
  then have "q_get s' ''done'' (i @ ''.json'') = q_get s1 ''done'' (i @ ''.json'') \<and> settled_file i f'"
    using Cons.IH [OF _ a(2)] Cons.prems(1,4) e by simp
  then show ?case using a(1) by simp
qed simp

section \<open>Instances\<close>

definition QUIET_REPO :: reconcile_world where
  "QUIET_REPO =
     \<lparr>rc_world = \<lparr>dw_repo = True, dw_git = (\<lambda>_. []), dw_main = [],
        dw_ctx = Some \<lparr>sc_mainBranch = ''main'', sc_onMainIds = [(''t1'', ''0a1b2c3d4e5f'')], sc_branchAhead = []\<rparr>,
        dw_reopen = [], dw_ledger = Some [], dw_env = (\<lambda>_. None)\<rparr>,
      rc_now = ''2026-09-26T08:00:00.000Z'', rc_clock = 1790409600000, rc_dry = False, rc_backfill = False,
      rc_parse = (\<lambda>_. Throws), rc_mtime = (\<lambda>_. None)\<rparr>"

definition applied_record :: "string \<Rightarrow> jv" where
  "applied_record i = JObj [(''id'', JStr i), (''history'', JArr [JObj [(''stage'', JStr ''applied''), (''detail'', JStr (''agent/'' @ i))]])]"

lemma merged_verdict:
  "resolve_disposition now (rc_world QUIET_REPO) (applied_record ''t1'')
   = Returns (applied_record ''t1'', Some (''merged'', ''on origin/main @ 0a1b2c3d4e5f (commit-trailer)''))"
proof -
  let ?w = "rc_world QUIET_REPO" and ?t = "applied_record ''t1''"
  have "judge ?w ?t (applied_detail ?t) = Returns (Some (''merged'', ''on origin/main @ 0a1b2c3d4e5f (commit-trailer)''))" by code_simp
  moreover have "settable ?t" "truthy (last_applied_event (jget ?t ''history''))" "\<not> closed_already ?w ?t" by code_simp+
  ultimately show ?thesis by (simp add: resolve_disposition_def)
qed

lemma closed_once_witness:
  "\<exists>v t v'. reconcile_record QUIET_REPO (applied_record ''t1'') = Returns (v, Some t) \<and> v \<noteq> None
     \<and> reconcile_record QUIET_REPO (json_image t) = Returns (v', None)"
proof -
  have "last_terminal_stage (jget (applied_record ''t1'') ''history'') \<noteq> JStr ''merged''" by code_simp
  moreover have "\<not> rc_dry QUIET_REPO" by (simp add: QUIET_REPO_def)
  ultimately obtain v t where r: "reconcile_record QUIET_REPO (applied_record ''t1'') = Returns (v, Some t)" "v \<noteq> None"
    by (simp add: reconcile_record_def merged_verdict)
  have "keyed (applied_record ''t1'')" "json_value (applied_record ''t1'')" by (simp_all add: applied_record_def)
  then show ?thesis using closed_once [OF r(1)] r by blast
qed

lemma lost_verdict:
  "\<exists>why. resolve_disposition now (rc_world QUIET_REPO) (applied_record ''t2'') = Returns (applied_record ''t2'', Some (''abandoned'', why))"
proof -
  let ?w = "rc_world QUIET_REPO" and ?t = "applied_record ''t2''"
  have "judge ?w ?t (applied_detail ?t) = Returns (Some (''abandoned'',
      ''applied to agent/t2 -- branch gone, not on main: work lost; no removal recorded -- deleted outside the pipeline''))" by code_simp
  moreover have "settable ?t" "truthy (last_applied_event (jget ?t ''history''))" "\<not> closed_already ?w ?t" by code_simp+
  ultimately show ?thesis by (simp add: resolve_disposition_def)
qed


text \<open>A task that was lost, restored and applied a second time: it has a verdict, and no tick writes it down.\<close>

definition RESTORED :: jv where
  "RESTORED = JObj [(''id'', JStr ''t1''), (''status'', JStr ''approved''), (''history'', JArr
     [JObj [(''stage'', JStr ''applied''), (''detail'', JStr ''agent/t1'')], JObj [(''stage'', JStr ''abandoned'')],
      JObj [(''stage'', JStr ''approved'')], JObj [(''stage'', JStr ''applied''), (''detail'', JStr ''agent/t1'')]])]"

lemma closed_id_never_read_again_witness:
  "let s = [((''done'', ''t1.json''), Doc RESTORED)]; f = JObj [(''resolvedIds'', JArr [JStr ''t1''])]
   in q_get (fst (reconcile QUIET_REPO (s, f, JNull))) ''done'' ''t1.json'' = Some (Doc RESTORED)
      \<and> (\<exists>t v. resolve_disposition [] (rc_world QUIET_REPO) RESTORED = Returns (t, Some v))"
proof -
  let ?s = "[((''done'', ''t1.json''), Doc RESTORED)]" and ?f = "JObj [(''resolvedIds'', JArr [JStr ''t1''])]"
  obtain s' f' g' where e: "fold reconcile [QUIET_REPO] (?s, ?f, JNull) = (s', f', g')" using prod_cases3 by blast
  have w: "\<forall>w\<in>set [QUIET_REPO]. \<not> rc_backfill w" by (simp add: QUIET_REPO_def)
  have g: "q_get ?s ''done'' ''t1.json'' = Some (Doc RESTORED)" by (simp add: q_get_def)
  have "settled_file ''t1'' ?f" by (simp add: settled_file_def)
  moreover have "jget (q_read ?s ''done'' (''t1'' @ ''.json'')) ''terminalDisposition'' \<noteq> JStr ''abandoned''"
    by (simp add: q_read_def q_get_def RESTORED_def)
  ultimately have "q_get s' ''done'' ''t1.json'' = Some (Doc RESTORED)"
    using closed_id_never_read_again [OF w _ _ e, of "''t1''"] g by simp
  moreover have "judge (rc_world QUIET_REPO) RESTORED (applied_detail RESTORED) = Returns (Some (''merged'', ''on origin/main @ 0a1b2c3d4e5f (commit-trailer)''))"
    "settable RESTORED" "truthy (last_applied_event (jget RESTORED ''history''))" "\<not> closed_already (rc_world QUIET_REPO) RESTORED"
    by code_simp+
  ultimately show ?thesis using e by (simp add: resolve_disposition_def)
qed

end
