(* ===== verification/CandidatesMerge.thy ===== *)
theory CandidatesMerge
  imports JsRegex "HOL-Library.AList"
begin

text \<open>
  \<open>src/candidates-doc-merge.js\<close>: the three-way merge of a document of candidates, a preamble and blocks that a heading
  \<open>### AC-n\<close> opens. A slot that one side changed takes that side's block, one that both changed keeps ours and theirs gets a
  fresh number, and a block that theirs removed and ours left alone goes. Numbers are naturals.
\<close>

section \<open>Blocks\<close>

text \<open>A heading as the document is split, and one as it is read: the digits end at a word boundary.\<close>

definition hashes :: "string \<Rightarrow> string" where "hashes s = takeWhile (\<lambda>c. c = CHR ''#'') s"

definition after_marks :: "string \<Rightarrow> string" where
  "after_marks s = dropWhile is_space (dropWhile (\<lambda>c. c = CHR ''#'') s)"

definition marks_ok :: "string \<Rightarrow> bool" where
  "marks_ok s \<longleftrightarrow> hashes s \<noteq> [] \<and> length (hashes s) \<le> 6 \<and> starts_with ''AC-'' (after_marks s)"

definition heading_at :: "string \<Rightarrow> bool" where
  "heading_at s \<longleftrightarrow> marks_ok s \<and> (case drop 3 (after_marks s) of c # _ \<Rightarrow> is_digit c | [] \<Rightarrow> False)"

definition heading_digits :: "string \<Rightarrow> string" where
  "heading_digits s = takeWhile is_digit (drop 3 (after_marks s))"

definition heading_rest :: "string \<Rightarrow> string" where
  "heading_rest s = dropWhile is_digit (drop 3 (after_marks s))"

definition heading_id :: "string \<Rightarrow> nat option" where
  "heading_id s =
     (if heading_at s \<and> (case heading_rest s of c # _ \<Rightarrow> \<not> is_word c | [] \<Rightarrow> True) then Some (digits_val 0 (heading_digits s)) else None)"

definition ends_line :: "char \<Rightarrow> bool" where
  "ends_line c \<longleftrightarrow> c = CHR 0x0A \<or> c = CHR 0x0D"

text \<open>\<open>split\<close> at the positions in front of a heading that opens a line: \<open>le\<close> tells whether a line ends before the rest, and \<open>cur\<close> is
  the part so far, reversed.\<close>

fun cut_at :: "bool \<Rightarrow> string \<Rightarrow> string \<Rightarrow> string list" where
  "cut_at le cur [] = [rev cur]"
| "cut_at le cur (c # cs) =
     (if le \<and> cur \<noteq> [] \<and> heading_at (c # cs) then rev cur # cut_at (ends_line c) [c] cs else cut_at (ends_line c) (c # cur) cs)"

fun unix_lines :: "string \<Rightarrow> string" where
  "unix_lines (a # b # s) = (if a = CHR 0x0D \<and> b = CHR 0x0A then b # unix_lines s else a # unix_lines (b # s))"
| "unix_lines s = s"

record doc =
  dc_preamble :: string
  dc_blocks :: "(nat \<times> string) list"
  dc_order :: "nat list"

definition add_part :: "string \<Rightarrow> (nat \<times> string) list \<times> nat list \<Rightarrow> (nat \<times> string) list \<times> nat list" where
  "add_part part st = (case heading_id (trim part) of None \<Rightarrow> st | Some i \<Rightarrow> (AList.update i (trim part) (fst st), snd st @ [i]))"

definition parse_blocks :: "string \<Rightarrow> doc" where
  "parse_blocks text =
     (let parts = cut_at False [] (unix_lines text); (blocks, order) = fold add_part parts ([], [])
      in \<lparr>dc_preamble = (if heading_id (dropWhile is_space (hd parts)) \<noteq> None then [] else hd parts), dc_blocks = blocks, dc_order = order\<rparr>)"

section \<open>The merge\<close>

definition rehead :: "nat \<Rightarrow> string \<Rightarrow> string" where
  "rehead n block = take (length block - length (after_marks block)) block @ ''AC-'' @ nat_str n @ heading_rest block"

record merge_state =
  mg_blocks :: "(nat \<times> string) list"
  mg_order :: "nat list"
  mg_overflow :: "(nat \<times> string) list"
  mg_next :: nat

definition next_id :: "doc \<Rightarrow> doc \<Rightarrow> doc \<Rightarrow> nat" where
  "next_id anc ours theirs = fold (\<lambda>i n. if n \<le> i then i + 1 else n) (map fst (dc_blocks ours) @ map fst (dc_blocks theirs) @ map fst (dc_blocks anc)) 1"

definition merge_slot :: "doc \<Rightarrow> doc \<Rightarrow> doc \<Rightarrow> nat \<Rightarrow> merge_state \<Rightarrow> merge_state" where
  "merge_slot anc ours theirs i st =
     (let t = map_of (dc_blocks theirs) i; a = map_of (dc_blocks anc) i; mine = map_of (dc_blocks ours) i
      in if t = a then st
         else if mine = None
         then st\<lparr>mg_blocks := AList.update i (the t) (mg_blocks st),
                 mg_order := (if i \<in> set (mg_order st) then mg_order st else mg_order st @ [i])\<rparr>
         else if mine = t then st
         else if mine = a then st\<lparr>mg_blocks := AList.update i (the t) (mg_blocks st)\<rparr>
         else st\<lparr>mg_overflow := mg_overflow st @ [(mg_next st, rehead (mg_next st) (the t))], mg_next := mg_next st + 1\<rparr>)"

definition drop_retracted :: "doc \<Rightarrow> doc \<Rightarrow> doc \<Rightarrow> (nat \<times> string) list \<Rightarrow> (nat \<times> string) list" where
  "drop_retracted anc ours theirs blocks =
     (if dc_blocks theirs = [] then blocks
      else fold (\<lambda>i bs. if map_of (dc_blocks theirs) i \<noteq> None \<or> map_of bs i = None then bs
                        else if map_of (dc_blocks ours) i = map_of (dc_blocks anc) i then AList.delete i bs else bs) (dc_order anc) blocks)"

text \<open>The merged blocks in the order of their numbers.\<close>

definition merged_blocks :: "doc \<Rightarrow> doc \<Rightarrow> doc \<Rightarrow> (nat \<times> string) list" where
  "merged_blocks anc ours theirs =
     (let st = fold (merge_slot anc ours theirs) (dc_order theirs)
            \<lparr>mg_blocks = dc_blocks ours, mg_order = dc_order ours, mg_overflow = [], mg_next = next_id anc ours theirs\<rparr>;
          blocks = drop_retracted anc ours theirs (fold (\<lambda>(i, b). AList.update i b) (mg_overflow st) (mg_blocks st));
          order = mg_order st @ map fst (mg_overflow st)
      in map (\<lambda>i. (i, the (map_of blocks i))) (sort (uniq (filter (\<lambda>i. map_of blocks i \<noteq> None) order))))"

definition trim_end :: "string \<Rightarrow> string" where
  "trim_end s = rev (dropWhile is_space (rev s))"

definition BLANK_LINE :: string where "BLANK_LINE = [CHR 0x0A, CHR 0x0A]"
definition DEFAULT_PREAMBLE :: string where "DEFAULT_PREAMBLE = ''# Candidates'' @ [CHR 0x0A]"

definition doc_text :: "string \<Rightarrow> (nat \<times> string) list \<Rightarrow> string" where
  "doc_text preamble blocks = trim_end preamble @ BLANK_LINE @ join BLANK_LINE (map snd blocks) @ [CHR 0x0A]"

definition merge_candidates_doc :: "string \<Rightarrow> string \<Rightarrow> string \<Rightarrow> string option" where
  "merge_candidates_doc ancestor_text ours_text theirs_text =
     (let anc = parse_blocks ancestor_text; ours = parse_blocks ours_text; theirs = parse_blocks theirs_text;
          pre = find (\<lambda>p. p \<noteq> []) [dc_preamble ours, dc_preamble theirs, dc_preamble anc]
      in if dc_blocks ours = [] \<and> dc_blocks theirs = [] then None
         else Some (doc_text (case pre of Some p \<Rightarrow> p | None \<Rightarrow> DEFAULT_PREAMBLE) (merged_blocks anc ours theirs)))"

section \<open>Every slot is merged three ways\<close>

definition doc_ok :: "doc \<Rightarrow> bool" where
  "doc_ok d \<longleftrightarrow> distinct (map fst (dc_blocks d)) \<and> set (dc_order d) = fst ` set (dc_blocks d)"

lemma add_parts_ok:
  assumes "distinct (map fst (fst st))" "set (snd st) = fst ` set (fst st)"
  shows "distinct (map fst (fst (fold add_part ps st))) \<and> set (snd (fold add_part ps st)) = fst ` set (fst (fold add_part ps st))"
  using assms
proof (induction ps arbitrary: st)
  case (Cons p ps)
  have k: "fst ` set (AList.update i b bs) = insert i (fst ` set bs)" for i :: nat and b bs
    using dom_update [of i b bs] by (simp add: dom_map_of_conv_image_fst)
  show ?case using Cons by (auto simp: add_part_def distinct_update k split: option.splits)
qed simp

lemma parse_ok: "doc_ok (parse_blocks text)"
  using add_parts_ok [of "([], [])" "cut_at False [] (unix_lines text)"]
  by (cases "fold add_part (cut_at False [] (unix_lines text)) ([], [])") (simp add: doc_ok_def parse_blocks_def Let_def)

definition slot :: "doc \<Rightarrow> nat \<Rightarrow> string option" where
  "slot d = map_of (dc_blocks d)"

definition conflict :: "doc \<Rightarrow> doc \<Rightarrow> doc \<Rightarrow> nat \<Rightarrow> bool" where
  "conflict anc ours theirs i \<longleftrightarrow>
     slot ours i \<noteq> None \<and> slot theirs i \<noteq> None \<and> slot theirs i \<noteq> slot anc i \<and> slot ours i \<noteq> slot theirs i \<and> slot ours i \<noteq> slot anc i"

text \<open>What a slot holds after the merge: a side that left it as it was gives way to the other, and ours stays when both changed it. A
  theirs without any block takes nothing away.\<close>

definition three_way :: "doc \<Rightarrow> doc \<Rightarrow> doc \<Rightarrow> nat \<Rightarrow> string option" where
  "three_way anc ours theirs i =
     (case (slot ours i, slot theirs i) of
        (mine, None) \<Rightarrow> if slot anc i = mine \<and> dc_blocks theirs \<noteq> [] then None else mine
      | (None, Some t) \<Rightarrow> if slot anc i = Some t then None else Some t
      | (Some m, Some t) \<Rightarrow> if slot anc i = Some m then Some t else Some m)"

definition unretracted :: "doc \<Rightarrow> doc \<Rightarrow> doc \<Rightarrow> nat \<Rightarrow> string option" where
  "unretracted anc ours theirs i =
     (if slot theirs i = None \<or> slot theirs i = slot anc i then slot ours i
      else if slot ours i = None \<or> slot ours i = slot anc i then slot theirs i else slot ours i)"

definition refiled :: "doc \<Rightarrow> nat \<times> nat \<Rightarrow> nat \<times> string" where
  "refiled theirs p = (fst p, rehead (fst p) (the (slot theirs (snd p))))"

lemma merge_slot_step:
  fixes anc ours :: doc and st :: merge_state
  assumes "slot theirs i \<noteq> None"
  defines "st' \<equiv> merge_slot anc ours theirs i st"
  shows "mg_overflow st' = mg_overflow st @ (if conflict anc ours theirs i then [refiled theirs (mg_next st, i)] else [])"
    and "mg_next st' = mg_next st + (if conflict anc ours theirs i then 1 else 0)"
    and "map_of (mg_blocks st') = (if unretracted anc ours theirs i \<noteq> slot ours i
      then (map_of (mg_blocks st)) (i := unretracted anc ours theirs i) else map_of (mg_blocks st))"
    and "dom (slot ours) \<subseteq> set (mg_order st) \<Longrightarrow> dom (map_of (mg_blocks st)) \<subseteq> set (mg_order st) \<Longrightarrow>
      dom (slot ours) \<subseteq> set (mg_order st') \<and> dom (map_of (mg_blocks st')) \<subseteq> set (mg_order st')"
  using assms by (auto simp: merge_slot_def unretracted_def conflict_def refiled_def slot_def Let_def update_conv' split: if_splits)

lemma zip_from: "zip [n..<Suc (n + length ys)] (y # ys) = (n, y) # zip [Suc n..<Suc (n + length ys)] ys"
  by (simp add: upt_conv_Cons del: upt_Suc)

lemma merge_slots_overflow:
  "set xs \<subseteq> dom (slot theirs) \<Longrightarrow>
   mg_overflow (fold (merge_slot anc ours theirs) xs st)
     = mg_overflow st @ map (refiled theirs) (zip [mg_next st..<mg_next st + length (filter (conflict anc ours theirs) xs)] (filter (conflict anc ours theirs) xs))"
proof (induction xs arbitrary: st)
  case (Cons x xs)
  then have "slot theirs x \<noteq> None" by auto
  then show ?case using Cons merge_slot_step(1,2) [of theirs x anc ours st] by (simp add: zip_from del: upt_Suc)
qed simp

lemma merge_slots_blocks:
  "set xs \<subseteq> dom (slot theirs) \<Longrightarrow>
   map_of (mg_blocks (fold (merge_slot anc ours theirs) xs st)) i
     = (if i \<in> set xs \<and> unretracted anc ours theirs i \<noteq> slot ours i then unretracted anc ours theirs i else map_of (mg_blocks st) i)"
proof (induction xs arbitrary: st)
  case (Cons x xs)
  then have "slot theirs x \<noteq> None" by auto
  then show ?case using Cons merge_slot_step(3) [of theirs x anc ours st] by auto
qed simp

lemma merge_slots_order:
  "set xs \<subseteq> dom (slot theirs) \<Longrightarrow> dom (slot ours) \<subseteq> set (mg_order st) \<Longrightarrow> dom (map_of (mg_blocks st)) \<subseteq> set (mg_order st) \<Longrightarrow>
   dom (map_of (mg_blocks (fold (merge_slot anc ours theirs) xs st))) \<subseteq> set (mg_order (fold (merge_slot anc ours theirs) xs st))"
proof (induction xs arbitrary: st)
  case (Cons x xs)
  then have "slot theirs x \<noteq> None" by auto
  then show ?case using Cons merge_slot_step(4) [of theirs x ours st anc] by simp
qed simp

lemma fold_update: "map_of (fold (\<lambda>(i, b). AList.update i b) xs m) = map_of m ++ map_of (rev xs)"
  by (induction xs arbitrary: m) (auto simp: update_conv' fun_eq_iff map_add_def split: option.splits)

lemma fold_next_bound: "i \<in> set is \<or> i < n \<Longrightarrow> i < fold (\<lambda>i n. if n \<le> i then i + 1 else n) is (n :: nat)"
proof (induction "is" arbitrary: n)
  case (Cons j js)
  then show ?case using Cons.IH [of "if n \<le> j then j + 1 else n"] by auto
qed simp

lemma next_id_above:
  "slot ours i \<noteq> None \<or> slot theirs i \<noteq> None \<or> slot anc i \<noteq> None \<Longrightarrow> i < next_id anc ours theirs"
  unfolding next_id_def by (rule fold_next_bound) (auto simp: slot_def map_of_eq_None_iff)

lemma drop_retracted_blocks:
  "set is \<subseteq> dom (slot anc) \<Longrightarrow> map_of (fold (\<lambda>i bs. if slot theirs i \<noteq> None \<or> map_of bs i = None then bs
      else if slot ours i = slot anc i then AList.delete i bs else bs) is blocks) k
   = (if k \<in> set is \<and> slot theirs k = None \<and> slot ours k = slot anc k then None else map_of blocks k)"
  by (induction "is" arbitrary: blocks) (auto simp: delete_conv')

lemma order_dom: "doc_ok d \<Longrightarrow> set (dc_order d) = dom (slot d)"
  by (simp add: doc_ok_def slot_def dom_map_of_conv_image_fst)

lemma drop_slot:
  assumes "doc_ok anc"
  shows "map_of (drop_retracted anc ours theirs blocks) i =
    (if dc_blocks theirs \<noteq> [] \<and> slot anc i \<noteq> None \<and> slot theirs i = None \<and> slot ours i = slot anc i then None else map_of blocks i)"
  using drop_retracted_blocks [of "dc_order anc" anc theirs ours blocks i] order_dom [OF assms]
  unfolding drop_retracted_def slot_def by auto

lemma map_of_select: "map_of (map (\<lambda>i. (i, f i)) xs) k = (if k \<in> set xs then Some (f k) else None)"
  by (induction xs) auto

definition merge_start :: "doc \<Rightarrow> doc \<Rightarrow> doc \<Rightarrow> merge_state" where
  "merge_start anc ours theirs =
     \<lparr>mg_blocks = dc_blocks ours, mg_order = dc_order ours, mg_overflow = [], mg_next = next_id anc ours theirs\<rparr>"

definition conflicts :: "doc \<Rightarrow> doc \<Rightarrow> doc \<Rightarrow> nat list" where
  "conflicts anc ours theirs = filter (conflict anc ours theirs) (dc_order theirs)"

definition refilings :: "doc \<Rightarrow> doc \<Rightarrow> doc \<Rightarrow> (nat \<times> string) list" where
  "refilings anc ours theirs =
     (let cs = conflicts anc ours theirs; n = next_id anc ours theirs in map (refiled theirs) (zip [n..<n + length cs] cs))"

lemma refilings_keys: "map fst (refilings anc ours theirs) = [next_id anc ours theirs..<next_id anc ours theirs + length (conflicts anc ours theirs)]"
  by (simp add: refilings_def Let_def refiled_def o_def)

lemma merged_slot:
  assumes "doc_ok anc" "doc_ok ours" "doc_ok theirs"
  shows "map_of (merged_blocks anc ours theirs) k =
    (if k < next_id anc ours theirs then three_way anc ours theirs k else map_of (refilings anc ours theirs) k)"
    and "sorted (map fst (merged_blocks anc ours theirs))" and "distinct (map fst (merged_blocks anc ours theirs))"
proof -
  let ?n = "next_id anc ours theirs"
  let ?st = "fold (merge_slot anc ours theirs) (dc_order theirs) (merge_start anc ours theirs)"
  have sub: "set (dc_order theirs) \<subseteq> dom (slot theirs)" using order_dom [OF assms(3)] by simp
  have over: "mg_overflow ?st = refilings anc ours theirs"
    using merge_slots_overflow [OF sub, of anc ours "merge_start anc ours theirs"]
    by (simp add: merge_start_def refilings_def conflicts_def Let_def)
  have m: "map_of (mg_blocks ?st) i = unretracted anc ours theirs i" for i
    using merge_slots_blocks [OF sub, of anc ours "merge_start anc ours theirs" i] order_dom [OF assms(3)]
    by (auto simp: merge_start_def slot_def unretracted_def)
  have ord: "dom (map_of (mg_blocks ?st)) \<subseteq> set (mg_order ?st)"
    using merge_slots_order [OF sub, of ours "merge_start anc ours theirs" anc] order_dom [OF assms(2)]
    by (simp add: merge_start_def slot_def)
  let ?all = "fold (\<lambda>(i, b). AList.update i b) (mg_overflow ?st) (mg_blocks ?st)"
  have dist: "distinct (map fst (refilings anc ours theirs))" by (simp add: refilings_keys)
  have rev: "map_of (rev (refilings anc ours theirs)) = map_of (refilings anc ours theirs)"
    by (rule map_of_inject_set [THEN iffD2]) (use dist in \<open>simp_all add: rev_map [symmetric]\<close>)
  have all: "map_of ?all i = (case map_of (refilings anc ours theirs) i of Some b \<Rightarrow> Some b | None \<Rightarrow> unretracted anc ours theirs i)" for i
    by (simp add: fold_update over rev map_add_def m split: option.splits)
  let ?blocks = "drop_retracted anc ours theirs ?all"
  have drop: "map_of ?blocks i = (if dc_blocks theirs \<noteq> [] \<and> slot anc i \<noteq> None \<and> slot theirs i = None \<and> slot ours i = slot anc i then None else map_of ?all i)" for i
    by (rule drop_slot [OF assms(1)])
  have big: "map_of (refilings anc ours theirs) i = None" if "i < ?n" for i
    using that refilings_keys [of anc ours theirs] by (auto simp: map_of_eq_None_iff image_set simp del: set_map)
  have small: "unretracted anc ours theirs i = None" "slot anc i = None" if "\<not> i < ?n" for i
  proof -
    have "slot ours i = None" "slot theirs i = None" "slot anc i = None" using that next_id_above [of ours i theirs anc] by blast+
    then show "unretracted anc ours theirs i = None" "slot anc i = None" by (simp_all add: unretracted_def)
  qed
  have val: "map_of ?blocks k = (if k < ?n then three_way anc ours theirs k else map_of (refilings anc ours theirs) k)"
  proof (cases "k < ?n")
    case True
    have "slot theirs k \<noteq> None \<Longrightarrow> dc_blocks theirs \<noteq> []" by (auto simp: slot_def)
    then show ?thesis using True by (auto simp: drop all big three_way_def unretracted_def split: option.splits)
  next
    case False
    then show ?thesis by (simp add: drop all small split: option.splits)
  qed
  have mem: "map_of ?blocks i \<noteq> None \<Longrightarrow> i \<in> set (mg_order ?st @ map fst (mg_overflow ?st))" for i
  proof -
    assume "map_of ?blocks i \<noteq> None"
    then have "map_of (refilings anc ours theirs) i \<noteq> None \<or> unretracted anc ours theirs i \<noteq> None" by (auto simp: drop all split: if_splits option.splits)
    then show "i \<in> set (mg_order ?st @ map fst (mg_overflow ?st))"
      using ord m over by (auto simp: map_of_eq_None_iff dom_def)
  qed
  have e: "merged_blocks anc ours theirs = map (\<lambda>i. (i, the (map_of ?blocks i)))
      (sort (uniq (filter (\<lambda>i. map_of ?blocks i \<noteq> None) (mg_order ?st @ map fst (mg_overflow ?st)))))"
    by (simp add: merged_blocks_def merge_start_def Let_def)
  show "map_of (merged_blocks anc ours theirs) k =
    (if k < ?n then three_way anc ours theirs k else map_of (refilings anc ours theirs) k)"
    unfolding e map_of_select val [symmetric] using mem [of k] by (cases "map_of ?blocks k") auto
  show "sorted (map fst (merged_blocks anc ours theirs))" "distinct (map fst (merged_blocks anc ours theirs))"
    by (simp_all add: e o_def)
qed

lemma refiled_iff:
  assumes "(n, b) \<in> set (refilings anc ours theirs)"
  shows "next_id anc ours theirs \<le> n \<and> (\<exists>i. conflict anc ours theirs i \<and> b = rehead n (the (slot theirs i)))"
proof -
  obtain i where i: "(n, i) \<in> set (zip [next_id anc ours theirs..<next_id anc ours theirs + length (conflicts anc ours theirs)] (conflicts anc ours theirs))"
    and b: "b = rehead n (the (slot theirs i))"
    using assms by (auto simp: refilings_def refiled_def Let_def)
  have "next_id anc ours theirs \<le> n" "conflict anc ours theirs i"
    using set_zip_leftD [OF i] set_zip_rightD [OF i] by (auto simp: conflicts_def)
  then show ?thesis using b by blast
qed

lemma conflict_refiled:
  assumes "doc_ok theirs" "conflict anc ours theirs i"
  shows "\<exists>n. (n, rehead n (the (slot theirs i))) \<in> set (refilings anc ours theirs)"
proof -
  let ?cs = "conflicts anc ours theirs" and ?n = "next_id anc ours theirs"
  have "i \<in> set ?cs" using assms order_dom [OF assms(1)] by (auto simp: conflicts_def conflict_def)
  then obtain j where j: "j < length ?cs" "?cs ! j = i" by (auto simp: in_set_conv_nth)
  then have "(?n + j, i) \<in> set (zip [?n..<?n + length ?cs] ?cs)" by (auto simp: set_zip intro!: exI [of _ j])
  then have "refiled theirs (?n + j, i) \<in> set (refilings anc ours theirs)" by (auto simp: refilings_def Let_def)
  then show ?thesis by (auto simp: refiled_def)
qed

text \<open>C29: The merge is the three-way merge of every slot and loses no block: below the first fresh number each slot holds what
  \<open>three_way\<close> says, every block of theirs that collides with a change of ours is in the result under a fresh number with its
  heading renumbered, nothing else has a fresh number, and the blocks come in the order of their numbers.\<close>

theorem merge_is_three_way:
  fixes ancestor_text ours_text theirs_text :: string
  defines "anc \<equiv> parse_blocks ancestor_text" and "ours \<equiv> parse_blocks ours_text" and "theirs \<equiv> parse_blocks theirs_text"
  defines "m \<equiv> merged_blocks anc ours theirs"
  shows "(\<forall>i<next_id anc ours theirs. map_of m i = three_way anc ours theirs i)
    \<and> (\<forall>i. conflict anc ours theirs i \<longrightarrow> (\<exists>n\<ge>next_id anc ours theirs. map_of m n = Some (rehead n (the (slot theirs i)))))
    \<and> (\<forall>n b. next_id anc ours theirs \<le> n \<longrightarrow> map_of m n = Some b \<longrightarrow>
         (\<exists>i. conflict anc ours theirs i \<and> b = rehead n (the (slot theirs i))))
    \<and> sorted (map fst m) \<and> distinct (map fst m)"
proof -
  have ok: "doc_ok anc" "doc_ok ours" "doc_ok theirs" by (simp_all add: anc_def ours_def theirs_def parse_ok)
  note s = merged_slot [OF ok, folded m_def]
  have d: "distinct (map fst (refilings anc ours theirs))" by (simp add: refilings_keys)
  have big: "map_of m n = map_of (refilings anc ours theirs) n" if "next_id anc ours theirs \<le> n" for n using s(1) that by simp
  have "\<exists>n\<ge>next_id anc ours theirs. map_of m n = Some (rehead n (the (slot theirs i)))" if c: "conflict anc ours theirs i" for i
  proof -
    obtain n where n: "(n, rehead n (the (slot theirs i))) \<in> set (refilings anc ours theirs)" using conflict_refiled [OF ok(3) c] by blast
    then have "next_id anc ours theirs \<le> n" using refiled_iff by blast
    moreover have "map_of (refilings anc ours theirs) n = Some (rehead n (the (slot theirs i)))" using n d by simp
    ultimately show ?thesis using big by auto
  qed
  moreover have "\<exists>i. conflict anc ours theirs i \<and> b = rehead n (the (slot theirs i))"
    if "next_id anc ours theirs \<le> n" "map_of m n = Some b" for n b
    using that big refiled_iff by (fastforce dest: map_of_SomeD)
  ultimately show ?thesis using s by simp
qed

text \<open>Block 1, changed on both sides, stays ours, theirs gets a fresh number; block 2 is an addition of theirs.\<close>

lemma merge_is_three_way_witness:
  "(let m = merged_blocks (parse_blocks (''# C'' @ BLANK_LINE @ ''### AC-1 x''))
      (parse_blocks (''# C'' @ BLANK_LINE @ ''### AC-1 y''))
      (parse_blocks (''# C'' @ BLANK_LINE @ ''### AC-1 z'' @ BLANK_LINE @ ''### AC-2 w'')) in
     map_of m 1 = Some ''### AC-1 y'' \<and> map_of m 2 = Some ''### AC-2 w'' \<and> (\<exists>n\<ge>3. map_of m n = Some (rehead n ''### AC-1 z'')))"
proof -
  let ?a = "parse_blocks (''# C'' @ BLANK_LINE @ ''### AC-1 x'')" and ?o = "parse_blocks (''# C'' @ BLANK_LINE @ ''### AC-1 y'')"
    and ?t = "parse_blocks (''# C'' @ BLANK_LINE @ ''### AC-1 z'' @ BLANK_LINE @ ''### AC-2 w'')"
  have n: "next_id ?a ?o ?t = 3" "three_way ?a ?o ?t 1 = Some ''### AC-1 y''" "three_way ?a ?o ?t 2 = Some ''### AC-2 w''"
    "conflict ?a ?o ?t 1" "slot ?t 1 = Some ''### AC-1 z''" by code_simp+
  show ?thesis
    using merge_is_three_way [of "(''# C'' @ BLANK_LINE @ ''### AC-1 x'')" "(''# C'' @ BLANK_LINE @ ''### AC-1 y'')" "(''# C'' @ BLANK_LINE @ ''### AC-1 z'' @ BLANK_LINE @ ''### AC-2 w'')", unfolded n(1)] n(2-) unfolding Let_def by fastforce
qed

end
