(* ===== verification/CandidatesRoundtrip.thy ===== *)
theory CandidatesRoundtrip
  imports CandidatesMerge
begin

text \<open>
  Reading a merged document back: the text that \<open>merge_candidates_doc\<close> writes parses to exactly the merged blocks, when the
  documents have no carriage returns. Blocks that were read have no heading inside, renumbering keeps that, and what stands
  between two blocks cannot complete a heading.
\<close>

section \<open>Headings\<close>

lemma space_facts [simp]: "\<not> is_space (CHR ''#'')" "\<not> is_space (CHR ''A'')" "\<not> is_space (CHR ''C'')" "\<not> is_space (CHR ''-'')"
  by (simp_all add: is_space_def)

lemma digit_not_space: "is_digit c \<Longrightarrow> \<not> is_space c"
  by (auto simp: is_digit_def is_space_def)

lemma dropWhile_snoc: "dropWhile P (xs @ ys) = (if list_all P xs then dropWhile P ys else dropWhile P xs @ ys)"
  by (induction xs) auto

lemma starts_with_ac: "starts_with ''AC-'' s \<longleftrightarrow> (\<exists>t. s = ''AC-'' @ t)"
  by (auto simp: starts_with_def numeral_3_eq_3 intro: append_take_drop_id [symmetric]) (metis append_take_drop_id append_Cons append_Nil)

lemma heading_at_ac:
  "heading_at s \<longleftrightarrow> hashes s \<noteq> [] \<and> length (hashes s) \<le> 6 \<and> (\<exists>d t. after_marks s = ''AC-'' @ d # t \<and> is_digit d)"
  by (auto simp: heading_at_def marks_ok_def starts_with_ac split: list.splits)

lemma not_heading_Nil [simp]: "\<not> heading_at []"
  by (simp add: heading_at_def marks_ok_def hashes_def)

lemma heading_first: "heading_at s \<Longrightarrow> \<exists>t. s = CHR ''#'' # t"
  by (cases s) (auto simp: heading_at_ac hashes_def split: if_splits)

lemma hashes_append: "\<not> list_all (\<lambda>c. c = CHR ''#'') s \<Longrightarrow> hashes (s @ x) = hashes s"
  unfolding hashes_def by (induction s) auto

declare dropWhile_eq_Nil_conv [simp del]

lemma dropWhile_none: "dropWhile P s = [] \<longleftrightarrow> list_all P s"
  by (induction s) auto

lemma after_marks_append: "after_marks s \<noteq> [] \<Longrightarrow> after_marks (s @ x) = after_marks s @ x"
  by (auto simp: after_marks_def dropWhile_snoc simp flip: dropWhile_none)

lemma marked_not_all:
  assumes "after_marks s \<noteq> []"
  shows "\<not> list_all (\<lambda>c. c = CHR ''#'') s"
proof
  assume "list_all (\<lambda>c. c = CHR ''#'') s"
  then have "dropWhile (\<lambda>c. c = CHR ''#'') s = []" by (simp only: dropWhile_none)
  then show False using assms by (simp add: after_marks_def)
qed

lemma heading_mono: "heading_at s \<Longrightarrow> heading_at (s @ x)"
proof -
  assume h: "heading_at s"
  then have "after_marks s \<noteq> []" by (auto simp: heading_at_ac)
  then show ?thesis using h by (auto simp: heading_at_ac hashes_append after_marks_append marked_not_all)
qed

text \<open>What follows a block, space and then nothing or a mark, completes no heading.\<close>

lemma heading_cross:
  assumes "heading_at (q @ sp @ r)" "sp \<noteq> []" "list_all is_space sp" "r = [] \<or> hd r = CHR ''#''" "q \<noteq> []"
  shows "heading_at q"
proof -
  obtain d t where d: "after_marks (q @ sp @ r) = ''AC-'' @ d # t" "is_digit d" using assms(1) by (auto simp: heading_at_ac)
  obtain e sp' where e: "sp = e # sp'" "is_space e" using assms(2,3) by (cases sp) auto
  have r: "dropWhile is_space (sp @ r) = r"
    using assms(3,4) by (cases r) (simp_all add: dropWhile_snoc dropWhile_none)
  have ne: "after_marks q \<noteq> []"
  proof
    assume "after_marks q = []"
    then have "after_marks (q @ sp @ r) = r"
      using r e by (cases "list_all (\<lambda>c. c = CHR ''#'') q") (auto simp: after_marks_def dropWhile_snoc dropWhile_none)
    then show False using d assms(4) by auto
  qed
  have a: "after_marks q @ e # sp' @ r = ''AC-'' @ d # t" using after_marks_append [OF ne, of "sp @ r"] d e by simp
  have "\<exists>t. after_marks q = ''AC-'' @ d # t"
    using a e(2) digit_not_space [OF d(2)] by (auto simp: append_eq_Cons_conv)
  then show ?thesis using assms(1) d(2) ne by (auto simp: heading_at_ac hashes_append marked_not_all)
qed

lemma heading_id_at: "heading_id s = Some i \<Longrightarrow> heading_at s"
  by (simp add: heading_id_def split: if_splits)

lemma heading_id_space:
  assumes "heading_at x" "list_all is_space r"
  shows "heading_id (x @ r) = None \<longleftrightarrow> heading_id x = None"
proof -
  obtain d t where d: "after_marks x = ''AC-'' @ d # t" using assms(1) by (auto simp: heading_at_ac)
  then have a: "after_marks (x @ r) = ''AC-'' @ d # t @ r" by (simp add: after_marks_append)
  have sp: "c # cs = r \<Longrightarrow> \<not> is_word c \<and> \<not> is_digit c" for c cs
    using assms(2) by (auto simp: is_space_def is_word_def is_digit_def lower_char_def Let_def)
  have "heading_rest (x @ r) = (if heading_rest x = [] then r else heading_rest x @ r)"
  proof -
    have "dropWhile is_digit r = r" using sp by (cases r) auto
    then show ?thesis using a d dropWhile_snoc [of is_digit "d # t" r] dropWhile_none [of is_digit "d # t"]
      by (simp add: heading_rest_def del: dropWhile.simps)
  qed
  then show ?thesis using heading_mono [OF assms(1), of r] assms(1) sp
    by (cases "heading_rest x"; cases r) (auto simp: heading_id_def)
qed

section \<open>Cutting a document\<close>

text \<open>No heading opens a line inside \<open>s\<close> when \<open>r\<close> follows; a part of a document has none of its own.\<close>

definition seg_free :: "string \<Rightarrow> string \<Rightarrow> bool" where
  "seg_free s r \<longleftrightarrow> (\<forall>u v. s = u @ v \<longrightarrow> u \<noteq> [] \<longrightarrow> v \<noteq> [] \<longrightarrow> ends_line (last u) \<longrightarrow> \<not> heading_at (v @ r))"

lemma seg_freeD: "seg_free s r \<Longrightarrow> s = u @ v \<Longrightarrow> u \<noteq> [] \<Longrightarrow> v \<noteq> [] \<Longrightarrow> ends_line (last u) \<Longrightarrow> \<not> heading_at (v @ r)"
  by (simp add: seg_free_def)

lemma seg_free_less: "seg_free s (r @ x) \<Longrightarrow> seg_free s r"
  unfolding seg_free_def using heading_mono by fastforce

lemma seg_free_middle:
  assumes "seg_free (l @ s @ r) []" shows "seg_free s []"
  unfolding seg_free_def
proof (intro allI impI)
  fix u v assume "s = u @ v" "u \<noteq> []" "v \<noteq> []" "ends_line (last u)"
  then show "\<not> heading_at (v @ [])"
    using seg_freeD [OF assms, of "l @ u" "v @ r"] heading_mono [of v r] by auto
qed

lemma cut_free:
  "seg_free (rev cur) s \<Longrightarrow> (cur \<noteq> [] \<Longrightarrow> le = ends_line (hd cur)) \<Longrightarrow> p \<in> set (cut_at le cur s) \<Longrightarrow> seg_free p []"
proof (induction le cur s arbitrary: p rule: cut_at.induct)
  case (2 le cur c cs)
  show ?case
  proof (cases "le \<and> cur \<noteq> [] \<and> heading_at (c # cs)")
    case True
    have "seg_free (rev cur) []" using seg_free_less [of "rev cur" "[]" "c # cs"] "2.prems"(1) by simp
    moreover have "seg_free [c] cs" by (auto simp: seg_free_def append_eq_Cons_conv Cons_eq_append_conv)
    ultimately show ?thesis using True "2.IH"(1) "2.prems"(3) by auto
  next
    case False
    have "seg_free (rev (c # cur)) cs"
      unfolding seg_free_def
    proof (intro allI impI)
      fix u v assume a: "rev (c # cur) = u @ v" "u \<noteq> []" "v \<noteq> []" "ends_line (last u)"
      obtain v' where v: "v = v' @ [c]" "rev cur = u @ v'"
        using a(1,3) by (cases v rule: rev_cases) auto
      show "\<not> heading_at (v @ cs)"
      proof (cases "v' = []")
        case True
        then have u: "rev cur = u" using v(2) by simp
        then have "cur \<noteq> []" using a(2) by auto
        moreover have "last u = hd cur" using u last_rev [of cur] by simp
        ultimately show ?thesis using False v True a(4) "2.prems"(2) by simp
      next
        case False
        then show ?thesis using seg_freeD [OF "2.prems"(1) v(2) a(2) False a(4)] v by simp
      qed
    qed
    moreover have "p \<in> set (cut_at (ends_line c) (c # cur) cs)" using "2.prems"(3) False by (simp split: if_splits)
    ultimately show ?thesis using "2.IH"(2) [OF False] by simp
  qed
qed simp

lemma cut_concat: "concat (cut_at le cur s) = rev cur @ s"
  by (induction le cur s rule: cut_at.induct) auto

text \<open>A segment without headings is passed over.\<close>

lemma cut_skip:
  "seg_free (rev cur @ p) r \<Longrightarrow> cur \<noteq> [] \<Longrightarrow> le = ends_line (hd cur) \<Longrightarrow>
   cut_at le cur (p @ r) = cut_at (ends_line (last (rev cur @ p))) (rev p @ cur) r"
proof (induction p arbitrary: le cur)
  case (Cons c p)
  have "\<not> (le \<and> heading_at (c # p @ r))"
    using seg_freeD [OF Cons.prems(1), of "rev cur" "c # p"] Cons.prems(2,3) by (auto simp: last_rev)
  then have "cut_at le cur ((c # p) @ r) = cut_at (ends_line c) (c # cur) (p @ r)" by auto
  then show ?case using Cons.IH [of "c # cur" "ends_line c"] Cons.prems(1) by simp
qed (simp add: last_rev)

lemma seg_free_spaced:
  assumes "seg_free s []" "sp \<noteq> []" "list_all is_space sp" "r = [] \<or> hd r = CHR ''#''"
  shows "seg_free (s @ sp) r"
  unfolding seg_free_def
proof (intro allI impI)
  fix u v assume a: "s @ sp = u @ v" "u \<noteq> []" "v \<noteq> []" "ends_line (last u)"
  show "\<not> heading_at (v @ r)"
  proof (cases "\<exists>v'. v' \<noteq> [] \<and> v = v' @ sp")
    case True
    then obtain v' where v: "v' \<noteq> []" "v = v' @ sp" by blast
    then have "\<not> heading_at v'" using seg_freeD [OF assms(1), of u v'] a by auto
    then show ?thesis using heading_cross [of v' sp r] v assms by auto
  next
    case False
    obtain w where "sp = w @ v \<or> s = u @ w \<and> w @ sp = v" using a(1) by (auto simp: append_eq_append_conv2)
    with False have "\<exists>w. sp = w @ v" by (cases "w = []") auto
    then obtain w where "sp = w @ v" by blast
    then have "is_space (hd v)" using assms(3) a(3) by (cases v) auto
    then show ?thesis using heading_first [of "v @ r"] a(3) by (cases v) auto
  qed
qed

section \<open>The parts of a written document\<close>

fun segs :: "string list \<Rightarrow> string list" where
  "segs [] = []"
| "segs [b] = [b @ [CHR 0x0A]]"
| "segs (b # c # bs) = (b @ BLANK_LINE) # segs (c # bs)"

lemma segs_join: "bs \<noteq> [] \<Longrightarrow> concat (segs bs) = join BLANK_LINE bs @ [CHR 0x0A]"
  by (induction bs rule: segs.induct) auto

lemma spaced_seg: "list_all is_space BLANK_LINE" "list_all is_space [CHR 0x0A]" "BLANK_LINE \<noteq> []" "ends_line (last BLANK_LINE)" "ends_line (CHR 0x0A)"
  by (simp_all add: BLANK_LINE_def is_space_def ends_line_def)

lemma hash_ends: "\<not> ends_line (CHR ''#'')" by (simp add: ends_line_def)

lemma segs_head: "bs \<noteq> [] \<Longrightarrow> list_all heading_at bs \<Longrightarrow> hd (concat (segs bs)) = CHR ''#''"
  by (induction bs rule: segs.induct) (auto dest!: heading_first)

lemma cut_segs:
  "list_all (\<lambda>b. heading_at b \<and> seg_free b []) bs \<Longrightarrow> bs \<noteq> [] \<Longrightarrow> cur \<noteq> [] \<Longrightarrow>
   cut_at True cur (concat (segs bs)) = rev cur # segs bs"
proof (induction bs arbitrary: cur rule: segs.induct)
  case (2 b)
  obtain t where b: "b = CHR ''#'' # t" using 2 heading_first by auto
  have "heading_at (b @ [CHR 0x0A])" using 2 heading_mono by simp
  moreover have "seg_free (b @ [CHR 0x0A]) []" using 2 seg_free_spaced [of b "[CHR 0x0A]" "[]"] spaced_seg by simp
  ultimately show ?case
    using 2 b hash_ends cut_skip [of "[CHR ''#'']" "t @ [CHR 0x0A]" "[]" False] by simp
next
  case (3 b c bs)
  obtain t where b: "b = CHR ''#'' # t" using 3 heading_first by auto
  let ?r = "concat (segs (c # bs))"
  have "heading_at (b @ BLANK_LINE @ ?r)" using 3 heading_mono by simp
  moreover have "hd ?r = CHR ''#''" using segs_head [of "c # bs"] "3.prems" by (simp add: list_all_iff)
  then have "seg_free (b @ BLANK_LINE) ?r" using 3 seg_free_spaced [of b BLANK_LINE ?r] spaced_seg by simp
  then have "cut_at False [CHR ''#''] ((t @ BLANK_LINE) @ ?r) = cut_at True (rev (b @ BLANK_LINE)) ?r"
    using cut_skip [of "[CHR ''#'']" "t @ BLANK_LINE" ?r False] b hash_ends spaced_seg by simp
  ultimately show ?case
    using "3.prems" "3.IH" [of "rev (b @ BLANK_LINE)"] b hash_ends spaced_seg by simp
qed simp

section \<open>Blocks that were read\<close>

definition clean :: "nat \<Rightarrow> string \<Rightarrow> bool" where
  "clean i b \<longleftrightarrow> heading_id b = Some i \<and> seg_free b [] \<and> trim b = b"

lemma trim_parts: "\<exists>l r. s = l @ trim s @ r"
proof -
  let ?x = "dropWhile is_space s"
  have "s = takeWhile is_space s @ ?x" by simp
  moreover have "?x = trim s @ rev (takeWhile is_space (rev ?x))"
    unfolding trim_def by (metis rev_append rev_rev_ident takeWhile_dropWhile_id)
  ultimately show ?thesis by metis
qed

lemma trim_idem: "trim (trim s) = trim s"
proof -
  let ?x = "dropWhile is_space s" and ?y = "dropWhile is_space (rev (dropWhile is_space s))"
  have x: "?x = [] \<or> \<not> is_space (hd ?x)" by (metis hd_dropWhile)
  have y: "?y = [] \<or> \<not> is_space (hd ?y)" by (metis hd_dropWhile)
  have "dropWhile is_space (rev ?y) = rev ?y"
  proof (cases "?y = []")
    case False
    have "?x = rev ?y @ rev (takeWhile is_space (rev ?x))" by (metis rev_append rev_rev_ident takeWhile_dropWhile_id)
    then have "hd ?x = hd (rev ?y)" "?x \<noteq> []" using False by (metis hd_append2 rev_is_Nil_conv, auto)
    then show ?thesis using x False by (cases "rev ?y") auto
  qed simp
  then show ?thesis using y unfolding trim_def by (cases ?y) auto
qed

lemma seg_free_trim: "seg_free s [] \<Longrightarrow> seg_free (trim s) []"
  using trim_parts [of s] seg_free_middle by metis

lemma add_parts_clean:
  "\<forall>p\<in>set ps. seg_free p [] \<Longrightarrow> \<forall>(i, b)\<in>set (fst st). clean i b \<Longrightarrow> \<forall>(i, b)\<in>set (fst (fold add_part ps st)). clean i b"
proof (induction ps arbitrary: st)
  case (Cons p ps)
  have up: "x \<in> set (AList.update k v al) \<Longrightarrow> x = (k, v) \<or> x \<in> set al" for x k v and al :: "(nat \<times> string) list"
    by (induction al) (auto split: if_splits)
  have "\<forall>(i, b)\<in>set (fst (add_part p st)). clean i b"
    using Cons.prems by (auto simp: add_part_def clean_def trim_idem seg_free_trim dest!: up split: option.splits)
  then show ?case using Cons by simp
qed simp

lemma parse_clean: "slot (parse_blocks text) i = Some b \<Longrightarrow> clean i b"
proof -
  have "\<forall>p\<in>set (cut_at False [] (unix_lines text)). seg_free p []"
    using cut_free [of "[]" "unix_lines text" False] by (auto simp: seg_free_def)
  from add_parts_clean [OF this, of "([], [])"] show "slot (parse_blocks text) i = Some b \<Longrightarrow> clean i b"
    by (auto simp: slot_def parse_blocks_def Let_def split: prod.splits dest!: map_of_SomeD)
qed

lemma preamble_read:
  "seg_free (dc_preamble (parse_blocks text)) [] \<and> heading_id (dropWhile is_space (dc_preamble (parse_blocks text))) = None"
proof -
  have "cut_at False [] s \<noteq> []" for s using cut_concat [of False "[]" s] by (cases s) auto
  then have "hd (cut_at False [] (unix_lines text)) \<in> set (cut_at False [] (unix_lines text))" by simp
  from cut_free [OF _ _ this] have "seg_free (hd (cut_at False [] (unix_lines text))) []" by (simp add: seg_free_def)
  then show ?thesis by (auto simp: parse_blocks_def Let_def seg_free_def heading_id_def split: prod.splits)
qed

section \<open>A renumbered block\<close>

lemma after_marks_suffix: "\<exists>p. s = p @ after_marks s \<and> p = take (length s - length (after_marks s)) s"
proof -
  let ?d = "dropWhile (\<lambda>c. c = CHR ''#'') s"
  have "s = (takeWhile (\<lambda>c. c = CHR ''#'') s @ takeWhile is_space ?d) @ after_marks s" by (simp add: after_marks_def)
  then obtain p where p: "s = p @ after_marks s" by blast
  then have "p = take (length s - length (after_marks s)) s" by (metis append_eq_conv_conj length_append diff_add_inverse2)
  then show ?thesis using p by blast
qed

lemma trim_fix: "s \<noteq> [] \<Longrightarrow> trim s = s \<longleftrightarrow> \<not> is_space (hd s) \<and> \<not> is_space (last s)"
proof
  assume s: "s \<noteq> []" "trim s = s"
  obtain c x where c: "s = c # x" using s(1) by (cases s) auto
  obtain y d where d: "s = y @ [d]" using s(1) by (cases s rule: rev_cases) auto
  have "rev s = dropWhile is_space (rev (dropWhile is_space s))" using s(2) by (metis trim_def rev_rev_ident)
  then have "\<not> is_space (hd (rev s))" using s(1) by (metis hd_dropWhile rev_is_Nil_conv)
  moreover have "\<not> is_space c"
  proof
    assume "is_space c"
    then have "length (trim s) < length s"
      unfolding trim_def c by simp (metis le_imp_less_Suc length_dropWhile_le length_rev order_trans)
    then show False using s(2) by simp
  qed
  ultimately show "\<not> is_space (hd s) \<and> \<not> is_space (last s)" using c by (metis hd_rev list.sel(1))
next
  assume a: "s \<noteq> []" "\<not> is_space (hd s) \<and> \<not> is_space (last s)"
  then have "dropWhile is_space s = s" "dropWhile is_space (rev s) = rev s" by (cases s; simp) (cases s rule: rev_cases; use a in simp)
  then show "trim s = s" by (simp add: trim_def)
qed

lemma heading_form:
  assumes "heading_at b"
  shows "\<exists>h w. b = h @ w @ ''AC-'' @ heading_digits b @ heading_rest b \<and> h \<noteq> [] \<and> length h \<le> 6 \<and> list_all (\<lambda>c. c = CHR ''#'') h
    \<and> list_all is_space w \<and> (\<forall>n. rehead n b = h @ w @ ''AC-'' @ nat_str n @ heading_rest b)"
proof -
  let ?d = "dropWhile (\<lambda>c. c = CHR ''#'') b" and ?h = "hashes b"
  let ?w = "takeWhile is_space ?d"
  obtain d t where d: "after_marks b = ''AC-'' @ d # t" using assms by (auto simp: heading_at_ac)
  have pre: "b = (?h @ ?w) @ after_marks b" by (simp add: after_marks_def hashes_def)
  then have "take (length b - length (after_marks b)) b = ?h @ ?w" by (metis append_eq_conv_conj length_append diff_add_inverse2)
  moreover have "after_marks b = ''AC-'' @ heading_digits b @ heading_rest b" by (simp add: d heading_digits_def heading_rest_def)
  moreover have "list_all (\<lambda>c. c = CHR ''#'') ?h" "list_all is_space ?w"
    unfolding hashes_def list_all_iff by (blast dest: set_takeWhileD)+
  ultimately show ?thesis using pre assms by (intro exI [of _ ?h] exI [of _ ?w]) (auto simp: heading_at_ac rehead_def)
qed

lemma marks_of:
  assumes "list_all (\<lambda>c. c = CHR ''#'') h" "list_all is_space w"
  shows "hashes (h @ w @ CHR ''A'' # y) = h" "after_marks (h @ w @ CHR ''A'' # y) = CHR ''A'' # y"
proof -
  have w: "\<not> (hd (w @ CHR ''A'' # y) = CHR ''#'')" using assms(2) by (cases w) auto
  have "takeWhile (\<lambda>c. c = CHR ''#'') (w @ CHR ''A'' # y) = []" "dropWhile (\<lambda>c. c = CHR ''#'') (w @ CHR ''A'' # y) = w @ CHR ''A'' # y"
    using w by (cases w; simp)+
  moreover have "takeWhile P (h @ z) = h @ takeWhile P z" if "list_all P h" for P :: "char \<Rightarrow> bool" and z using that by (induction h) auto
  ultimately show "hashes (h @ w @ CHR ''A'' # y) = h" "after_marks (h @ w @ CHR ''A'' # y) = CHR ''A'' # y"
    using assms by (simp_all add: hashes_def after_marks_def dropWhile_snoc)
qed

lemma digits_then:
  "list_all is_digit n \<Longrightarrow> r = [] \<or> \<not> is_digit (hd r) \<Longrightarrow> takeWhile is_digit (n @ r) = n \<and> dropWhile is_digit (n @ r) = r"
  by (induction n) (cases r; auto)+

lemma list_all_avoid: "list_all P xs \<Longrightarrow> \<not> P c \<Longrightarrow> list_all (\<lambda>x. x \<noteq> c) xs"
  by (induction xs) auto

lemma append_split:
  assumes "u @ v = s @ t"
  obtains x where "u = s @ x" "x @ v = t" | x where "s = u @ x" "x @ t = v" "x \<noteq> []"
proof -
  obtain x where x: "u = s @ x \<and> x @ v = t \<or> u @ x = s \<and> v = x @ t" using assms by (auto simp: append_eq_append_conv2)
  then show ?thesis using that by (cases "x = []") auto
qed

lemma digit_ends: "is_digit c \<Longrightarrow> \<not> ends_line c"
  by (auto simp: is_digit_def ends_line_def)

lemma clean_rehead:
  assumes "clean i b" shows "clean n (rehead n b)"
proof -
  have h: "heading_at b" using assms heading_id_at by (auto simp: clean_def)
  let ?r = "heading_rest b" and ?ds = "heading_digits b"
  obtain h w where b: "b = h @ w @ ''AC-'' @ ?ds @ ?r" "h \<noteq> []" "length h \<le> 6" "list_all (\<lambda>c. c = CHR ''#'') h"
    "list_all is_space w" "\<And>n. rehead n b = h @ w @ ''AC-'' @ nat_str n @ ?r" using heading_form [OF h] by blast
  let ?N = "nat_str n" and ?s = "rehead n b"
  have N: "list_all is_digit ?N" "?N \<noteq> []" by (simp_all add: nat_str_digits)
  have r: "?r = [] \<or> \<not> is_digit (hd ?r) \<and> \<not> is_word (hd ?r)"
    using assms by (cases ?r) (auto simp: clean_def heading_id_def is_word_def split: if_splits)
  have "takeWhile is_digit (?N @ ?r) = ?N" "dropWhile is_digit (?N @ ?r) = ?r"
    using digits_then [OF N(1), of ?r] r by blast+
  moreover have "hashes ?s = h" "after_marks ?s = ''AC-'' @ ?N @ ?r" using marks_of [OF b(4,5)] by (simp_all add: b(6))
  ultimately have f: "heading_digits ?s = ?N" "heading_rest ?s = ?r" "heading_at ?s"
    using b(2,3) N by (cases ?N; auto simp: heading_digits_def heading_rest_def heading_at_ac)+
  have id: "heading_id ?s = Some n" using f r by (auto simp: heading_id_def digits_val_nat_str split: list.splits)
  have free: "seg_free ?s []"
    unfolding seg_free_def
  proof (intro allI impI notI)
    fix u v assume a: "?s = u @ v" "u \<noteq> []" "v \<noteq> []" "ends_line (last u)" "heading_at (v @ [])"
    have v: "hd v = CHR ''#''" using heading_first [of v] a(5) by auto
    have "\<not> is_digit (CHR ''#'')" by (simp add: is_digit_def)
    then have "list_all (\<lambda>c. c \<noteq> CHR ''#'') ?N" using N(1) by (rule list_all_avoid [rotated])
    moreover have "list_all (\<lambda>c. c \<noteq> CHR ''#'') w" using b(5) by (rule list_all_avoid) simp
    ultimately have nl: "list_all (\<lambda>c. c \<noteq> CHR ''#'') (w @ ''AC-'' @ ?N)" by simp
    have "u @ v = (h @ w @ ''AC-'' @ ?N) @ ?r" using a(1) b(6) by simp
    then consider x where "u = (h @ w @ ''AC-'' @ ?N) @ x" "x @ v = ?r" | x where "h @ w @ ''AC-'' @ ?N = u @ x" "x @ ?r = v" "x \<noteq> []"
      by (rule append_split)
    then show False
    proof cases
      case (1 x)
      show False
      proof (cases "x = []")
        case True
        then have "last u = last ?N" using 1(1) N(2) by simp
        then have "is_digit (last u)" using N by (auto simp: list_all_iff)
        then show False using a(4) digit_ends by blast
      next
        case False
        then show False
          using seg_freeD [of b "[]" "h @ w @ ''AC-'' @ ?ds @ x" v] assms a(3,4,5) b(1) 1 by (simp add: clean_def)
      qed
    next
      case (2 x)
      obtain c x' where x: "x = c # x'" "c = CHR ''#''" using 2(2,3) v by (cases x) auto
      from 2(1) [symmetric] consider y where "u = h @ y" "y @ x = w @ ''AC-'' @ ?N" | y where "h = u @ y" "y \<noteq> []"
        by (rule append_split) blast+
      then show False
      proof cases
        case 1
        then have "list_all (\<lambda>c. c \<noteq> CHR ''#'') (y @ x)" using nl by metis
        then show False using x by simp
      next
        case 2
        have "last u \<in> set h" using 2(1) a(2) by simp
        then have "last u = CHR ''#''" using b(4) unfolding list_all_iff by blast
        then show False using a(4) hash_ends by simp
      qed
    qed
  qed
  have "\<not> is_space (last ?s)"
  proof (cases "?r = []")
    case True
    then show ?thesis using N b(6) digit_not_space by (auto simp: list_all_iff)
  next
    case False
    then have "last ?s = last b" using b(6) by (subst (2) b(1)) simp
    moreover have "b \<noteq> []" using heading_first [OF h] by auto
    ultimately show ?thesis using assms trim_fix [of b] by (simp add: clean_def)
  qed
  moreover have "hd ?s = CHR ''#''" "?s \<noteq> []" using heading_first [OF f(3)] by auto
  ultimately have "trim ?s = ?s" using trim_fix by simp
  then show ?thesis using id free by (simp add: clean_def)
qed

section \<open>Reading the merged text\<close>

lemma merged_clean:
  assumes "map_of (merged_blocks (parse_blocks a) (parse_blocks o') (parse_blocks t)) k = Some b"
  shows "clean k b"
proof (cases "k < next_id (parse_blocks a) (parse_blocks o') (parse_blocks t)")
  case True
  then have "three_way (parse_blocks a) (parse_blocks o') (parse_blocks t) k = Some b"
    using assms merged_slot(1) [OF parse_ok parse_ok parse_ok] by simp
  then have "slot (parse_blocks o') k = Some b \<or> slot (parse_blocks t) k = Some b"
    by (auto simp: three_way_def split: option.splits if_splits)
  then show ?thesis using parse_clean by blast
next
  case False
  then have "(k, b) \<in> set (refilings (parse_blocks a) (parse_blocks o') (parse_blocks t))"
    using assms merged_slot(1) [OF parse_ok parse_ok parse_ok] by (simp add: map_of_SomeD)
  then obtain i where i: "conflict (parse_blocks a) (parse_blocks o') (parse_blocks t) i" "b = rehead k (the (slot (parse_blocks t) i))"
    using refiled_iff by blast
  then obtain b' where "slot (parse_blocks t) i = Some b'" by (auto simp: conflict_def)
  then have "clean k (rehead k b')" by (rule clean_rehead [OF parse_clean])
  then show ?thesis using i(2) \<open>slot (parse_blocks t) i = Some b'\<close> by simp
qed

lemma no_cr_unix: "CHR 0x0D \<notin> set s \<Longrightarrow> unix_lines s = s"
  by (induction s rule: unix_lines.induct) auto

lemma update_fresh: "i \<notin> fst ` set al \<Longrightarrow> AList.update i b al = al @ [(i, b)]"
  by (induction al) auto

lemma trim_spaced: "clean i b \<Longrightarrow> list_all is_space sp \<Longrightarrow> trim (b @ sp) = b"
proof -
  assume c: "clean i b" "list_all is_space sp"
  have ne: "b \<noteq> []" using c(1) heading_id_at heading_first by (fastforce simp: clean_def)
  then have b: "\<not> is_space (hd b)" "\<not> is_space (last b)" using c(1) trim_fix by (auto simp: clean_def)
  have "dropWhile is_space (b @ sp) = b @ sp" using b(1) ne by (cases b) auto
  moreover have "dropWhile is_space (rev sp @ rev b) = rev b"
    using c(2) b(2) ne by (cases b rule: rev_cases) (auto simp: dropWhile_snoc)
  ultimately show ?thesis by (simp add: trim_def)
qed

lemma add_segs:
  "\<forall>(i, b)\<in>set m. clean i b \<Longrightarrow> distinct (map fst (xs @ m)) \<Longrightarrow>
   fold add_part (segs (map snd m)) (xs, is) = (xs @ m, is @ map fst m)"
proof (induction "map snd m" arbitrary: m xs "is" rule: segs.induct)
  case (2 b)
  then obtain i where m: "m = [(i, b)]" by (cases m) auto
  have c: "clean i b" using 2 m by auto
  then show ?case
    using 2 m trim_spaced [OF c spaced_seg(2)] by (simp add: add_part_def clean_def update_fresh)
next
  case (3 b c bs)
  then obtain i m' where m: "m = (i, b) # m'" "map snd m' = c # bs" by (cases m) auto
  have cl: "clean i b" using 3 m by auto
  have fresh: "i \<notin> fst ` set xs" using 3 m by auto
  have "add_part (b @ BLANK_LINE) (xs, is) = (xs @ [(i, b)], is @ [i])"
    using trim_spaced [OF cl spaced_seg(1)] cl by (simp add: add_part_def clean_def update_fresh [OF fresh])
  moreover have "fold add_part (segs (map snd m')) (xs @ [(i, b)], is @ [i]) = ((xs @ [(i, b)]) @ m', (is @ [i]) @ map fst m')"
    by (rule 3(1)) (use 3 m in auto)
  ultimately show ?case using m by simp
qed auto

lemma trim_end_prefix: "\<exists>r. s = trim_end s @ r \<and> list_all is_space r"
proof -
  have "s = rev (dropWhile is_space (rev s)) @ rev (takeWhile is_space (rev s))" by (metis rev_append rev_rev_ident takeWhile_dropWhile_id)
  moreover have "list_all is_space (rev (takeWhile is_space (rev s)))" by (auto simp: list_all_iff dest: set_takeWhileD)
  ultimately show ?thesis unfolding trim_end_def by blast
qed

text \<open>The preamble, trimmed at its end, is no block.\<close>

lemma preamble_no_block:
  assumes "heading_id (dropWhile is_space pre) = None" "list_all is_space sp" "sp \<noteq> []"
  shows "heading_id (dropWhile is_space (trim_end pre @ sp)) = None" "heading_id (trim (trim_end pre @ sp)) = None"
proof -
  obtain r where r: "pre = trim_end pre @ r" "list_all is_space r" using trim_end_prefix by blast
  let ?q = "trim_end pre"
  let ?x = "dropWhile is_space ?q"
  have e: "heading_id [] = None" by (simp add: heading_id_def)
  have id: "heading_id (?x @ sp) = None" if n: "\<not> list_all is_space ?q"
  proof (rule ccontr)
    assume h: "heading_id (?x @ sp) \<noteq> None"
    then have "heading_at (?x @ sp)" using heading_id_at by blast
    then have "heading_at ?x" using heading_cross [of ?x sp "[]"] assms(2,3) n by (simp add: dropWhile_none)
    then have "heading_id (?x @ r) \<noteq> None" using h heading_id_space assms(2) r(2) by metis
    moreover have "dropWhile is_space pre = ?x @ r" using n by (subst r(1)) (simp add: dropWhile_snoc)
    ultimately show False using assms(1) by simp
  qed
  show first: "heading_id (dropWhile is_space (?q @ sp)) = None"
    using id e assms(2) by (cases "list_all is_space ?q") (simp_all add: dropWhile_snoc flip: dropWhile_none)
  let ?z = "dropWhile is_space (?q @ sp)"
  obtain r2 where r2: "?z = trim_end ?z @ r2" "list_all is_space r2" using trim_end_prefix by blast
  have "heading_id (trim_end ?z) = None"
  proof (rule ccontr)
    assume h: "heading_id (trim_end ?z) \<noteq> None"
    then have "heading_at (trim_end ?z)" using heading_id_at by blast
    then have "heading_id (trim_end ?z @ r2) \<noteq> None" using h r2(2) heading_id_space by simp
    then show False using first r2(1) by simp
  qed
  then show "heading_id (trim (?q @ sp)) = None" by (simp add: trim_def trim_end_def)
qed

lemma read_written:
  assumes pre: "seg_free pre []" "heading_id (dropWhile is_space pre) = None"
    and m: "\<forall>(i, b)\<in>set m. clean i b" "distinct (map fst m)" and cr: "CHR 0x0D \<notin> set (doc_text pre m)"
  shows "dc_blocks (parse_blocks (doc_text pre m)) = m \<and> dc_order (parse_blocks (doc_text pre m)) = map fst m"
proof -
  obtain r where r: "pre = trim_end pre @ r" "list_all is_space r" using trim_end_prefix by blast
  have q: "seg_free (trim_end pre) []" using seg_free_middle [of "[]" "trim_end pre" r] pre(1) r(1) by simp
  have part: "dc_blocks (parse_blocks T) = m \<and> dc_order (parse_blocks T) = map fst m"
    if T: "T = doc_text pre m" and sp: "list_all is_space sp" "sp \<noteq> []" and cut: "cut_at False [] T = (trim_end pre @ sp) # segs (map snd m)" for T sp
  proof -
    have "add_part (trim_end pre @ sp) ([], []) = ([], [])"
      using preamble_no_block(2) [OF pre(2) sp] by (simp add: add_part_def)
    then show ?thesis using cut add_segs [of m "[]" "[]"] m no_cr_unix [of T] cr T by (simp add: parse_blocks_def Let_def)
  qed
  show ?thesis
  proof (cases m)
    case Nil
    let ?sp = "BLANK_LINE @ [CHR 0x0A]"
    have sp: "list_all is_space ?sp" "?sp \<noteq> []" using spaced_seg by simp_all
    obtain c s where c: "trim_end pre @ ?sp = c # s" by (cases "trim_end pre @ ?sp") auto
    have "seg_free (c # s) []" using seg_free_spaced [OF q sp(2,1)] c by simp
    then have "cut_at False [] (c # s) = [c # s]" using cut_skip [of "[c]" s "[]" "ends_line c"] by simp
    then show ?thesis using part [OF refl sp] Nil c by (simp add: doc_text_def)
  next
    case (Cons x m')
    obtain c s where c: "trim_end pre @ BLANK_LINE = c # s" by (cases "trim_end pre @ BLANK_LINE") (auto simp: BLANK_LINE_def)
    let ?r = "concat (segs (map snd m))"
    have h: "list_all (\<lambda>b. heading_at b \<and> seg_free b []) (map snd m)"
      using m(1) heading_id_at by (fastforce simp: list_all_iff clean_def)
    then have "hd ?r = CHR ''#''" using segs_head [of "map snd m"] Cons by (simp add: list_all_iff)
    then have "seg_free (c # s) ?r" using seg_free_spaced [OF q spaced_seg(3,1)] c by metis
    then have "cut_at (ends_line c) [c] (s @ ?r) = cut_at (ends_line (last (c # s))) (rev (c # s)) ?r"
      using cut_skip [of "[c]" s ?r "ends_line c"] by simp
    moreover have "ends_line (last (c # s))" using c spaced_seg by (metis last_appendR)
    ultimately have "cut_at False [] ((c # s) @ ?r) = (c # s) # segs (map snd m)"
      using cut_segs [OF h, of "rev (c # s)"] Cons by simp
    moreover have "doc_text pre m = (c # s) @ ?r" using segs_join [of "map snd m"] Cons by (simp add: doc_text_def flip: c)
    ultimately show ?thesis using part [OF refl spaced_seg(1,3)] c by simp
  qed
qed

definition cr_free :: "string \<Rightarrow> bool" where
  "cr_free s \<longleftrightarrow> CHR 0x0D \<notin> set s"

lemma cr_middle: "cr_free (l @ s @ r) \<Longrightarrow> cr_free s"
  by (simp add: cr_free_def)

lemma cr_trim: "cr_free s \<Longrightarrow> cr_free (trim s)"
  using trim_parts [of s] cr_middle by metis

lemma cr_rest: "cr_free s \<Longrightarrow> cr_free (heading_rest s)"
  unfolding cr_free_def heading_rest_def after_marks_def by (metis in_set_dropD set_dropWhileD)

lemma cr_nat: "cr_free (nat_str n)"
  using nat_str_digits [of n] by (auto simp: cr_free_def list_all_iff is_digit_def)

lemma cr_rehead: "cr_free b \<Longrightarrow> cr_free (rehead n b)"
  using cr_rest [of b] cr_nat [of n] by (auto simp: rehead_def cr_free_def dest: in_set_takeD)

lemma cr_parse:
  assumes "cr_free text"
  shows "slot (parse_blocks text) i = Some b \<Longrightarrow> cr_free b" "cr_free (dc_preamble (parse_blocks text))"
proof -
  let ?ps = "cut_at False [] text"
  have e: "unix_lines text = text" using assms no_cr_unix by (simp add: cr_free_def)
  have "set (concat ?ps) = set text" by (simp add: cut_concat)
  then have p: "\<forall>p\<in>set ?ps. cr_free p" using assms unfolding cr_free_def set_concat by blast
  have up: "x \<in> set (AList.update k v al) \<Longrightarrow> x = (k, v) \<or> x \<in> set al" for x k v and al :: "(nat \<times> string) list"
    by (induction al) (auto split: if_splits)
  have parts: "\<forall>p\<in>set ps. cr_free p \<Longrightarrow> \<forall>(i, b)\<in>set (fst st). cr_free b \<Longrightarrow> \<forall>(i, b)\<in>set (fst (fold add_part ps st)). cr_free b" for ps st
  proof (induction ps arbitrary: st)
    case (Cons q ps)
    have "\<forall>(i, b)\<in>set (fst (add_part q st)). cr_free b"
      using Cons.prems by (auto simp: add_part_def cr_trim dest!: up split: option.splits)
    then show ?case using Cons by simp
  qed simp
  show "slot (parse_blocks text) i = Some b \<Longrightarrow> cr_free b"
    using parts [OF p, of "([], [])"] by (auto simp: slot_def parse_blocks_def Let_def e split: prod.splits dest!: map_of_SomeD)
  have "?ps \<noteq> []" using cut_concat [of False "[]" "text"] by (cases "text") auto
  then have "cr_free (hd ?ps)" using p by simp
  then show "cr_free (dc_preamble (parse_blocks text))"
    by (auto simp: parse_blocks_def Let_def e cr_free_def split: prod.splits)
qed

lemma cr_doc:
  assumes "cr_free pre" "\<forall>(i, b)\<in>set m. cr_free b" shows "cr_free (doc_text pre m)"
proof -
  have j: "(\<forall>x\<in>set xs. cr_free x) \<Longrightarrow> cr_free sep \<Longrightarrow> cr_free (join sep xs)" for sep and xs :: "string list"
    by (induction sep xs rule: join.induct) (auto simp: cr_free_def)
  have "cr_free (join BLANK_LINE (map snd m))" by (rule j) (use assms(2) in \<open>auto simp: cr_free_def BLANK_LINE_def\<close>)
  moreover obtain r where "pre = trim_end pre @ r" using trim_end_prefix by blast
  then have "cr_free (trim_end pre)" using cr_middle [of "[]" "trim_end pre" r] assms(1) by simp
  ultimately show ?thesis by (simp add: doc_text_def cr_free_def BLANK_LINE_def)
qed

lemma merged_cr:
  assumes "cr_free a" "cr_free o'" "cr_free t"
    and "map_of (merged_blocks (parse_blocks a) (parse_blocks o') (parse_blocks t)) k = Some b"
  shows "cr_free b"
proof (cases "k < next_id (parse_blocks a) (parse_blocks o') (parse_blocks t)")
  case True
  then have "three_way (parse_blocks a) (parse_blocks o') (parse_blocks t) k = Some b"
    using assms merged_slot(1) [OF parse_ok parse_ok parse_ok] by simp
  then have "slot (parse_blocks o') k = Some b \<or> slot (parse_blocks t) k = Some b"
    by (auto simp: three_way_def split: option.splits if_splits)
  then show ?thesis using cr_parse(1) assms by blast
next
  case False
  then have "(k, b) \<in> set (refilings (parse_blocks a) (parse_blocks o') (parse_blocks t))"
    using assms merged_slot(1) [OF parse_ok parse_ok parse_ok] by (simp add: map_of_SomeD)
  then obtain i b' where "b = rehead k b'" "slot (parse_blocks t) i = Some b'"
    using refiled_iff by (fastforce simp: conflict_def)
  then show ?thesis using cr_rehead cr_parse(1) [OF assms(3)] by simp
qed

definition chosen_preamble :: "doc \<Rightarrow> doc \<Rightarrow> doc \<Rightarrow> string" where
  "chosen_preamble anc ours theirs =
     (case find (\<lambda>p. p \<noteq> []) [dc_preamble ours, dc_preamble theirs, dc_preamble anc] of Some p \<Rightarrow> p | None \<Rightarrow> DEFAULT_PREAMBLE)"

lemma default_preamble: "seg_free DEFAULT_PREAMBLE [] \<and> heading_id (dropWhile is_space DEFAULT_PREAMBLE) = None \<and> cr_free DEFAULT_PREAMBLE"
proof -
  have "cut_at False [] DEFAULT_PREAMBLE = [DEFAULT_PREAMBLE]" by (simp add: DEFAULT_PREAMBLE_def ends_line_def)
  then have "seg_free DEFAULT_PREAMBLE []" using cut_free [of "[]" DEFAULT_PREAMBLE False DEFAULT_PREAMBLE] by (simp add: seg_free_def)
  then show ?thesis
    by (simp add: DEFAULT_PREAMBLE_def heading_id_def heading_at_def marks_ok_def after_marks_def starts_with_def is_space_def cr_free_def)
qed

lemma chosen_preamble_ok:
  assumes "cr_free a" "cr_free o'" "cr_free t"
  defines "p \<equiv> chosen_preamble (parse_blocks a) (parse_blocks o') (parse_blocks t)"
  shows "seg_free p [] \<and> heading_id (dropWhile is_space p) = None \<and> cr_free p"
  using preamble_read [of a] preamble_read [of o'] preamble_read [of t] cr_parse(2) assms default_preamble
  unfolding p_def chosen_preamble_def by simp

text \<open>C30: A merged document without carriage returns reads back as what was merged: parsing the written text gives the merged
  blocks, in their order and with their numbers, whatever headings, blank lines or renumbered blocks they hold.\<close>

theorem merged_text_reads_back:
  assumes "cr_free (ancestor_text @ ours_text @ theirs_text)"
    and "merge_candidates_doc ancestor_text ours_text theirs_text = Some text"
  shows "dc_blocks (parse_blocks text) = merged_blocks (parse_blocks ancestor_text) (parse_blocks ours_text) (parse_blocks theirs_text)
    \<and> dc_order (parse_blocks text) = map fst (dc_blocks (parse_blocks text))"
proof -
  let ?m = "merged_blocks (parse_blocks ancestor_text) (parse_blocks ours_text) (parse_blocks theirs_text)"
  let ?p = "chosen_preamble (parse_blocks ancestor_text) (parse_blocks ours_text) (parse_blocks theirs_text)"
  have cr: "cr_free ancestor_text" "cr_free ours_text" "cr_free theirs_text" using assms(1) by (simp_all add: cr_free_def)
  have d: "distinct (map fst ?m)" by (rule merged_slot(3) [OF parse_ok parse_ok parse_ok])
  then have b: "map_of ?m i = Some b" if "(i, b) \<in> set ?m" for i b using that by simp
  have "\<forall>(i, b)\<in>set ?m. clean i b" "\<forall>(i, b)\<in>set ?m. cr_free b" using merged_clean merged_cr [OF cr] b by blast+
  moreover have "text = doc_text ?p ?m"
    using assms(2) by (simp add: merge_candidates_doc_def Let_def chosen_preamble_def split: if_splits)
  ultimately show ?thesis using read_written [of ?p ?m] d chosen_preamble_ok [OF cr] cr_doc [of ?p ?m] by (simp add: cr_free_def)
qed

text \<open>Both sides changed block 1, and theirs added one: ours stays, theirs come back as 3 and 2.\<close>

lemma merged_text_reads_back_witness:
  "dc_blocks (parse_blocks (the (merge_candidates_doc (''# C'' @ BLANK_LINE @ ''### AC-1 x'')
      (''# C'' @ BLANK_LINE @ ''### AC-1 y'')
      (''# C'' @ BLANK_LINE @ ''### AC-1 z'' @ BLANK_LINE @ ''### AC-2 w''))))
    = [(1, ''### AC-1 y''), (2, ''### AC-2 w''), (3, ''### AC-3 z'')]"
proof -
  let ?a = "(''# C'' @ BLANK_LINE @ ''### AC-1 x'')" and ?o = "(''# C'' @ BLANK_LINE @ ''### AC-1 y'')" and ?t = "(''# C'' @ BLANK_LINE @ ''### AC-1 z'' @ BLANK_LINE @ ''### AC-2 w'')"
  have m: "merged_blocks (parse_blocks ?a) (parse_blocks ?o) (parse_blocks ?t) = [(1, ''### AC-1 y''), (2, ''### AC-2 w''), (3, ''### AC-3 z'')]"
    by code_simp
  have "dc_blocks (parse_blocks ?o) \<noteq> []" by code_simp
  then obtain d where "merge_candidates_doc ?a ?o ?t = Some d" by (simp add: merge_candidates_doc_def Let_def)
  then show ?thesis using merged_text_reads_back [of ?a ?o ?t d] m by (simp add: cr_free_def BLANK_LINE_def)
qed

end
