(* ===== verification/FileTree.thy ===== *)
theory FileTree
  imports Prelude "HOL-Library.Sublist"
begin

text \<open>
  Paths and the tree of files that the appliers write to. A path is its list of names, as \<open>path.resolve\<close> leaves it: absolute,
  without empty names, \<open>.\<close> and \<open>..\<close>. The tree gives each path a file, a directory or nothing; symbolic links, permissions and
  names with a zero byte are left out, so a file operation fails exactly when the tree says so.
\<close>

type_synonym path = "string list"

datatype node = File string | Dir

type_synonym tree = "path \<rightharpoonup> node"

section \<open>Paths\<close>

text \<open>\<open>s.split('/')\<close>\<close>

fun path_parts :: "string \<Rightarrow> string list" where
  "path_parts [] = [[]]"
| "path_parts (c # cs) = (if c = CHR ''/'' then [] # path_parts cs else (c # hd (path_parts cs)) # tl (path_parts cs))"

fun walk_path :: "path \<Rightarrow> string list \<Rightarrow> path" where
  "walk_path p [] = p"
| "walk_path p (s # ss) =
     (if s = [] \<or> s = ''.'' then walk_path p ss else if s = ''..'' then walk_path (butlast p) ss else walk_path (p @ [s]) ss)"

text \<open>\<open>path.resolve(p, s)\<close> for an absolute path \<open>p\<close>.\<close>

definition path_resolve :: "path \<Rightarrow> string \<Rightarrow> path" where
  "path_resolve p s = walk_path (if starts_with ''/'' s then [] else p) (path_parts s)"

definition path_text :: "path \<Rightarrow> string" where
  "path_text p = (if p = [] then ''/'' else concat (map (\<lambda>s. CHR ''/'' # s) p))"

definition plain_name :: "string \<Rightarrow> bool" where
  "plain_name s \<longleftrightarrow> s \<noteq> [] \<and> s \<noteq> ''.'' \<and> s \<noteq> ''..'' \<and> CHR ''/'' \<notin> set s"

lemma parts_no_slash: "path_parts s \<noteq> [] \<and> list_all (\<lambda>q. CHR ''/'' \<notin> set q) (path_parts s)"
proof (induction s)
  case (Cons c s)
  then show ?case by (cases "path_parts s") auto
qed simp

lemma walk_plain:
  "list_all (\<lambda>q. CHR ''/'' \<notin> set q) ss \<Longrightarrow> list_all plain_name p \<Longrightarrow> list_all plain_name (walk_path p ss)"
proof (induction p ss rule: walk_path.induct)
  case (2 p s ss)
  have "list_all plain_name (butlast p)" using "2.prems"(2) by (auto simp: list_all_iff dest: in_set_butlastD)
  moreover have "list_all plain_name (p @ [s])" if "s \<noteq> []" "s \<noteq> ''.''" "s \<noteq> ''..''" using that "2.prems" by (auto simp: list_all_iff plain_name_def)
  ultimately show ?case using 2 by simp
qed simp

lemma resolve_plain: "list_all plain_name p \<Longrightarrow> list_all plain_name (path_resolve p s)"
  using parts_no_slash [of s] by (simp add: path_resolve_def walk_plain)

text \<open>Containment as the code tests it, on the texts, is containment of the paths.\<close>

lemma slash_split:
  "CHR ''/'' \<notin> set a \<Longrightarrow> CHR ''/'' \<notin> set b \<Longrightarrow> a @ CHR ''/'' # x = b @ CHR ''/'' # y \<Longrightarrow> a = b \<and> x = y"
proof (induction a arbitrary: b)
  case Nil
  then show ?case by (cases b) auto
next
  case (Cons c a)
  then show ?case by (cases b) auto
qed

lemma text_prefix:
  assumes "list_all plain_name p" "list_all plain_name q" "q \<noteq> []"
  shows "starts_with (concat (map (\<lambda>s. CHR ''/'' # s) p) @ ''/'') (path_text q) \<longleftrightarrow> strict_prefix p q"
  using assms
proof (induction p arbitrary: q)
  case Nil
  then show ?case by (cases q) (auto simp: path_text_def starts_with_def)
next
  case (Cons a p)
  obtain b r where q: "q = b # r" using Cons.prems(3) by (cases q) auto
  let ?t = "\<lambda>p. concat (map (\<lambda>s. CHR ''/'' # s) p)"
  have ab: "CHR ''/'' \<notin> set a" "CHR ''/'' \<notin> set b" using Cons.prems q by (auto simp: plain_name_def)
  have sw: "starts_with x y \<longleftrightarrow> prefix x y" for x y :: string by (metis append_eq_conv_conj prefix_def starts_with_def)
  have sl: "\<exists>x. ?t p @ ''/'' = CHR ''/'' # x" by (cases p) auto
  have tr: "r \<noteq> [] \<Longrightarrow> \<exists>y. ?t r = CHR ''/'' # y" by (cases r) auto
  show ?case
  proof (cases "a = b")
    case True
    have "starts_with (?t (a # p) @ ''/'') (path_text q) \<longleftrightarrow> prefix (?t p @ ''/'') (?t r)"
      using True q by (simp add: sw path_text_def)
    also have "\<dots> \<longleftrightarrow> strict_prefix p r"
    proof (cases "r = []")
      case False
      then show ?thesis using Cons.IH [of r] Cons.prems q by (simp add: sw path_text_def)
    qed (use sl in auto)
    finally show ?thesis using True q by (auto simp: strict_prefix_def)
  next
    case False
    obtain x where x: "?t p @ ''/'' = CHR ''/'' # x" using sl by blast
    have "\<not> prefix (a @ CHR ''/'' # x) (b @ ?t r)"
    proof
      assume "prefix (a @ CHR ''/'' # x) (b @ ?t r)"
      then obtain z where z: "b @ ?t r = a @ CHR ''/'' # x @ z" by (auto simp: prefix_def)
      then have "r \<noteq> []" using ab(2) by (auto dest: arg_cong [where f = set])
      then obtain y where "?t r = CHR ''/'' # y" using tr by blast
      then show False using slash_split [OF ab(2,1)] z False by metis
    qed
    then show ?thesis using False q x by (auto simp: sw path_text_def strict_prefix_def)
  qed
qed

section \<open>Operations on the tree\<close>

definition node_at :: "tree \<Rightarrow> path \<Rightarrow> node option" where
  "node_at t p = (if p = [] then Some Dir else t p)"

definition is_file :: "node option \<Rightarrow> bool" where
  "is_file n \<longleftrightarrow> (case n of Some (File _) \<Rightarrow> True | _ \<Rightarrow> False)"

definition file_at :: "tree \<Rightarrow> path \<rightharpoonup> string" where
  "file_at t p = (case node_at t p of Some (File c) \<Rightarrow> Some c | _ \<Rightarrow> None)"

text \<open>\<open>fs.mkdirSync(p, \<lbrace> recursive: true \<rbrace>)\<close>: it fails when a name on the way is a file.\<close>

definition mkdirs :: "tree \<Rightarrow> path \<Rightarrow> tree option" where
  "mkdirs t p =
     (if \<exists>q\<in>set (prefixes p). is_file (node_at t q) then None
      else Some (\<lambda>q. if t q = None \<and> q \<noteq> [] \<and> prefix q p then Some Dir else t q))"

definition unlink :: "tree \<Rightarrow> path \<Rightarrow> tree option" where
  "unlink t p = (if is_file (node_at t p) then Some (t(p := None)) else None)"

text \<open>Every name above a node is a directory.\<close>

definition tree_ok :: "tree \<Rightarrow> bool" where
  "tree_ok t \<longleftrightarrow> t [] = None \<and> (\<forall>p q. t p \<noteq> None \<longrightarrow> strict_prefix q p \<longrightarrow> q \<noteq> [] \<longrightarrow> t q = Some Dir)"

lemma file_at_Some: "file_at t p = Some c \<longleftrightarrow> p \<noteq> [] \<and> t p = Some (File c)"
  by (auto simp: file_at_def node_at_def split: option.splits node.splits)

lemma is_file_iff: "is_file (node_at t p) \<longleftrightarrow> (\<exists>c. file_at t p = Some c)"
  by (auto simp: is_file_def file_at_def split: option.splits node.splits)

lemma mkdirs_files: "mkdirs t p = Some t' \<Longrightarrow> file_at t' = file_at t"
  by (rule ext) (auto simp: mkdirs_def file_at_def node_at_def split: if_splits option.splits)

lemma file_at_upd: "p \<noteq> [] \<Longrightarrow> file_at (t(p := n)) = (file_at t)(p := (case n of Some (File c) \<Rightarrow> Some c | _ \<Rightarrow> None))"
  by (auto simp: file_at_def node_at_def fun_eq_iff)

lemma unlink_files: "unlink t p = Some t' \<Longrightarrow> file_at t' = (file_at t)(p := None) \<and> file_at t p \<noteq> None"
  by (auto simp: unlink_def is_file_iff file_at_Some file_at_upd split: if_splits)

lemma mkdirs_ok:
  assumes "tree_ok t" "mkdirs t p = Some t'" shows "tree_ok t' \<and> node_at t' p = Some Dir"
proof -
  have t': "t' = (\<lambda>q. if t q = None \<and> q \<noteq> [] \<and> prefix q p then Some Dir else t q)"
    and nf: "\<And>q. prefix q p \<Longrightarrow> \<not> is_file (node_at t q)" using assms(2) by (auto simp: mkdirs_def split: if_splits)
  have d: "t' q = Some Dir" if "prefix q p" "q \<noteq> []" for q
    using nf [OF that(1)] that by (cases "t q") (auto simp: t' is_file_def node_at_def split: node.splits)
  have "t' q = Some Dir" if "t' r \<noteq> None" "strict_prefix q r" "q \<noteq> []" for q r
  proof (cases "t r = None")
    case True
    then have "prefix q p" using that t' by (auto simp: strict_prefix_def split: if_splits)
    then show ?thesis using d that by blast
  next
    case False
    then show ?thesis using assms(1) that by (auto simp: tree_ok_def t')
  qed
  then show ?thesis using assms(1) d [of p] by (auto simp: tree_ok_def t' node_at_def)
qed

text \<open>Above a file everything is a directory already, so nothing is made.\<close>

lemma mkdirs_above:
  assumes "tree_ok t" "t p \<noteq> None" shows "mkdirs t (butlast p) = Some t"
proof -
  have p: "p \<noteq> []" using assms by (auto simp: tree_ok_def)
  have d: "t q = Some Dir" if "prefix q (butlast p)" "q \<noteq> []" for q
  proof -
    have "strict_prefix q p" using that(1) p by (metis append_butlast_last_id prefix_order.le_less_trans strict_prefixI')
    then show ?thesis using assms that by (auto simp: tree_ok_def)
  qed
  then show ?thesis by (auto simp: mkdirs_def is_file_def node_at_def fun_eq_iff split: option.splits node.splits)
qed

lemma tree_ok_put:
  assumes "tree_ok t" "node_at t (butlast p) = Some Dir" "p \<noteq> []" "t p = None \<or> is_file (t p)"
  shows "tree_ok (t(p \<mapsto> File c))"
proof -
  have "t q = Some Dir" if "strict_prefix q p" "q \<noteq> []" for q
  proof -
    have "prefix q (butlast p)" using that assms(3)
      by (metis append_butlast_last_id prefix_snoc strict_prefix_def)
    then consider "q = butlast p" | "strict_prefix q (butlast p)" by (auto simp: strict_prefix_def)
    then show ?thesis
    proof cases
      case 1
      then show ?thesis using assms(2) that by (simp add: node_at_def)
    next
      case 2
      then have "butlast p \<noteq> []" by auto
      then show ?thesis using assms(1,2) 2 that by (auto simp: tree_ok_def node_at_def)
    qed
  qed
  moreover have "t r = None" if "strict_prefix p r" for r
    using assms that by (cases "t r") (auto simp: tree_ok_def is_file_def split: option.splits node.splits)
  ultimately show ?thesis using assms by (auto simp: tree_ok_def)
qed

lemma tree_ok_unlink:
  assumes "tree_ok t" "unlink t p = Some t'" shows "tree_ok t'"
proof -
  have p: "t' = t(p := None)" "t p \<noteq> Some Dir" using assms(2)
    by (auto simp: unlink_def is_file_def node_at_def split: if_splits option.splits node.splits)
  have "q \<noteq> p" if "t r \<noteq> None" "strict_prefix q r" "q \<noteq> []" for q r
    using assms(1) p(2) that by (auto simp: tree_ok_def)
  then show ?thesis using assms(1) unfolding tree_ok_def p(1) by simp
qed

end
