(* ===== verification/JsonFence.thy ===== *)
theory JsonFence
  imports JsObject "HOL-Library.Sublist"
begin

text \<open>
  \<open>src/json-fence.js\<close>: finding the JSON in a model's response, in a fenced block or as the first balanced array or object. The
  scan for the end of the value minds strings and counts only the brackets of its own kind. \<open>JSON.parse\<close> is an argument.
\<close>

section \<open>The first balanced value\<close>

text \<open>The scan: the depth, whether it is inside a string, whether the next character is escaped, the opening and the closing
  bracket; the result is the number of characters up to and including the closing bracket.\<close>

fun scan_json :: "char \<Rightarrow> char \<Rightarrow> nat \<Rightarrow> bool \<Rightarrow> bool \<Rightarrow> nat \<Rightarrow> string \<Rightarrow> nat option" where
  "scan_json op cl depth in_string escaped i [] = None"
| "scan_json op cl depth in_string escaped i (c # cs) =
     (if escaped then scan_json op cl depth in_string False (i + 1) cs
      else if c = CHR 0x5C then scan_json op cl depth in_string True (i + 1) cs
      else if c = CHR 0x22 then scan_json op cl depth (\<not> in_string) False (i + 1) cs
      else if in_string then scan_json op cl depth in_string False (i + 1) cs
      else if c = op then scan_json op cl (depth + 1) in_string False (i + 1) cs
      else if c = cl then (if depth = 1 then Some (i + 1) else scan_json op cl (depth - 1) in_string False (i + 1) cs)
      else scan_json op cl depth in_string False (i + 1) cs)"

definition is_open :: "char \<Rightarrow> bool" where
  "is_open c \<longleftrightarrow> c = CHR ''['' \<or> c = CHR ''{''"

definition extract_balanced_json :: "string \<Rightarrow> string option" where
  "extract_balanced_json s =
     (case dropWhile (\<lambda>c. \<not> is_open c) s of
        [] \<Rightarrow> None
      | op # cs \<Rightarrow> map_option (\<lambda>n. take n (op # cs)) (scan_json op (if op = CHR ''{'' then CHR ''}'' else CHR '']'') 0 False False 0 (op # cs)))"

section \<open>A fenced block\<close>

definition FENCE :: string where "FENCE = replicate 3 (CHR 0x60)"

text \<open>The text up to the closing fence, without a newline before it: the shortest the lazy group can match.\<close>

fun until_fence :: "string \<Rightarrow> string option" where
  "until_fence [] = None"
| "until_fence (c # cs) =
     (if starts_with FENCE (c # cs) \<or> starts_with (CHR 0x0A # FENCE) (c # cs) then Some [] else map_option ((#) c) (until_fence cs))"

text \<open>What follows the last newline of the space that opens the block.\<close>

definition after_newline :: "string \<Rightarrow> string option" where
  "after_newline s =
     (let sp = takeWhile is_space s
      in if CHR 0x0A \<in> set sp then Some (rev (takeWhile (\<lambda>c. c \<noteq> CHR 0x0A) (rev sp)) @ dropWhile is_space s) else None)"

definition fence_at :: "string \<Rightarrow> string option" where
  "fence_at s =
     (if \<not> starts_with FENCE s then None
      else let r = drop 3 s in Option.bind (after_newline (if to_lower (take 4 r) = ''json'' then drop 4 r else r)) until_fence)"

fun fenced :: "string \<Rightarrow> string option" where
  "fenced [] = None"
| "fenced (c # cs) = (case fence_at (c # cs) of Some b \<Rightarrow> Some b | None \<Rightarrow> fenced cs)"

text \<open>\<open>json\<close> is \<open>JSON.parse\<close>; the result is \<open>None\<close> where the code throws.\<close>

definition parse_json_maybe_fenced :: "(string \<Rightarrow> jv option) \<Rightarrow> string \<Rightarrow> jv option" where
  "parse_json_maybe_fenced json response =
     (let s = trim response
      in case fenced s of
          Some b \<Rightarrow> json b
        | None \<Rightarrow> (case json s of Some v \<Rightarrow> Some v | None \<Rightarrow> Option.bind (extract_balanced_json s) json))"

section \<open>A serialised value is found again\<close>

text \<open>\<open>passes op cl s\<close>: the scan runs over \<open>s\<close> outside strings and leaves the depth as it was, as long as it is not zero.\<close>

definition passes :: "char \<Rightarrow> char \<Rightarrow> string \<Rightarrow> bool" where
  "passes op cl s \<longleftrightarrow> (\<forall>d i x. scan_json op cl (Suc d) False False i (s @ x) = scan_json op cl (Suc d) False False (i + length s) x)"

lemma passesD: "passes op cl s \<Longrightarrow> scan_json op cl (Suc d) False False i (s @ x) = scan_json op cl (Suc d) False False (i + length s) x"
  by (simp add: passes_def)

lemma passes_Nil [simp]: "passes op cl []" by (simp add: passes_def)

lemma passes_append: "passes op cl s \<Longrightarrow> passes op cl t \<Longrightarrow> passes op cl (s @ t)"
  by (simp add: passes_def add.assoc)

definition plain_char :: "char \<Rightarrow> bool" where
  "plain_char c \<longleftrightarrow> c \<notin> set [CHR 0x5C, CHR 0x22, CHR ''['', CHR '']'', CHR ''{'', CHR ''}'']"

definition bracket_pair :: "char \<Rightarrow> char \<Rightarrow> bool" where
  "bracket_pair op cl \<longleftrightarrow> (op, cl) = (CHR ''['', CHR '']'') \<or> (op, cl) = (CHR ''{'', CHR ''}'')"

lemma passes_plain: "bracket_pair op cl \<Longrightarrow> list_all plain_char s \<Longrightarrow> passes op cl s"
proof (induction s)
  case (Cons c s)
  have "passes op cl [c]" using Cons.prems by (auto simp: passes_def plain_char_def bracket_pair_def)
  then show ?case using passes_append [of op cl "[c]" s] Cons by simp
qed simp

lemma passes_join: "passes op cl sep \<Longrightarrow> list_all (passes op cl) ss \<Longrightarrow> passes op cl (join sep ss)"
  by (induction sep ss rule: join.induct) (auto intro: passes_append)

text \<open>Inside a string the scan runs over every character that \<open>json_char\<close> writes.\<close>

lemma hex_digit_plain: "d < 16 \<Longrightarrow> hex_digit d \<noteq> CHR 0x5C \<and> hex_digit d \<noteq> CHR 0x22"
proof -
  have code: "char_of n = c \<Longrightarrow> n < 256 \<Longrightarrow> n = of_char c" for n :: nat and c by (simp add: of_char_of flip: of_char_eq_iff [where 'a = nat])
  have ne: "char_of n \<noteq> CHR 0x5C \<and> char_of n \<noteq> CHR 0x22" if "n < 256" "n \<noteq> 92" "n \<noteq> 34" for n :: nat
    using code [of n "CHR 0x5C"] code [of n "CHR 0x22"] that by auto
  show "d < 16 \<Longrightarrow> ?thesis" using ne [of "48 + d"] ne [of "87 + d"] by (auto simp: hex_digit_def)
qed

lemma scan_char:
  "scan_json op cl d True False i (json_char c @ x) = scan_json op cl d True False (i + length (json_char c)) x"
proof -
  have "hex_digit ((of_char c :: nat) div 16) \<noteq> CHR 0x5C \<and> hex_digit ((of_char c :: nat) div 16) \<noteq> CHR 0x22"
    if "(of_char c :: nat) < 32" by (rule hex_digit_plain) (use that in simp)
  moreover have "hex_digit ((of_char c :: nat) mod 16) \<noteq> CHR 0x5C \<and> hex_digit ((of_char c :: nat) mod 16) \<noteq> CHR 0x22"
    by (rule hex_digit_plain) simp
  moreover have "c \<noteq> CHR 0x5C \<and> c \<noteq> CHR 0x22" if "(of_char c :: nat) \<noteq> 92" "(of_char c :: nat) \<noteq> 34" using that by auto
  ultimately show ?thesis by (auto simp: json_char_def Let_def)
qed

lemma scan_chars:
  "scan_json op cl d True False i (concat (map json_char s) @ x) = scan_json op cl d True False (i + length (concat (map json_char s))) x"
  by (induction s arbitrary: i) (simp_all add: scan_char add.assoc)

lemma passes_string: "passes op cl (json_string s)"
  unfolding passes_def json_string_def by (simp add: scan_chars)

lemma digits_plain: "list_all is_digit s \<Longrightarrow> list_all plain_char s"
  by (auto simp: list_all_iff plain_char_def is_digit_def)

lemma num_str_plain: "is_finite n \<Longrightarrow> list_all plain_char (num_str n)"
  using digits_plain [OF nat_str_digits] digits_plain [OF pad_nat_str_digits]
  by (cases n) (simp_all add: num_str_def Let_def plain_char_def)

text \<open>An array or an object in the text is passed over, whichever bracket is counted.\<close>

lemma passes_bracketed:
  assumes "bracket_pair op cl" "bracket_pair o' c'" "passes op cl s"
  shows "passes op cl (o' # s @ [c'])"
  using assms by (auto simp: passes_def bracket_pair_def)

lemma passes_json:
  assumes "bracket_pair op cl"
  shows "passes op cl (json_text v)" "list_all (passes op cl) (json_elems vs)" "list_all (passes op cl) (json_fields kvs)"
proof (induction v and vs and kvs rule: json_text_json_elems_json_fields.induct)
  case (6 vs)
  have "passes op cl '',''" by (rule passes_plain [OF assms]) (simp add: plain_char_def)
  then have "passes op cl (join '','' (json_elems vs))" by (rule passes_join) (rule 6)
  then show ?case using passes_bracketed [OF assms, of "CHR ''[''" "CHR '']''"] by (simp add: bracket_pair_def)
next
  case (7 kvs)
  have "passes op cl '',''" by (rule passes_plain [OF assms]) (simp add: plain_char_def)
  then have "passes op cl (join '','' (json_fields kvs))" by (rule passes_join) (rule 7)
  then show ?case using passes_bracketed [OF assms, of "CHR ''{''" "CHR ''}''"] by (simp add: bracket_pair_def)
next
  case (11 k v kvs)
  have "passes op cl ('':'' @ json_text v)" if "v \<noteq> JUndef"
    using passes_append [OF passes_plain [OF assms, of "'':''"] 11(2) [OF that]] by (simp add: plain_char_def)
  then show ?case using 11 passes_append [OF passes_string] by auto
qed (auto simp: plain_char_def num_str_plain intro!: passes_plain [OF assms] passes_string)

lemma json_bracketed:
  assumes "is_array v \<or> is_object v"
  shows "\<exists>op body cl. bracket_pair op cl \<and> json_text v = op # body @ [cl] \<and> passes op cl body"
proof (cases v)
  case (JArr vs)
  have b: "bracket_pair (CHR ''['') (CHR '']'')" by (simp add: bracket_pair_def)
  then have "passes (CHR ''['') (CHR '']'') (join '','' (json_elems vs))"
    by (intro passes_join passes_json passes_plain [OF b]) (simp add: plain_char_def)
  then show ?thesis using b JArr by auto
next
  case (JObj kvs)
  have b: "bracket_pair (CHR ''{'') (CHR ''}'')" by (simp add: bracket_pair_def)
  then have "passes (CHR ''{'') (CHR ''}'') (join '','' (json_fields kvs))"
    by (intro passes_join passes_json passes_plain [OF b]) (simp add: plain_char_def)
  then show ?thesis using b JObj by auto
qed (use assms in auto)

lemma extract_found:
  assumes "is_array v \<or> is_object v" "list_all (\<lambda>c. \<not> is_open c) pre"
  shows "extract_balanced_json (pre @ json_text v @ post) = Some (json_text v)"
proof -
  obtain op body cl where b: "bracket_pair op cl" "json_text v = op # body @ [cl]" "passes op cl body"
    using json_bracketed [OF assms(1)] by blast
  have o: "is_open op" "cl = (if op = CHR ''{'' then CHR ''}'' else CHR '']'')" "op \<noteq> CHR 0x5C" "op \<noteq> CHR 0x22" "cl \<noteq> CHR 0x5C" "cl \<noteq> CHR 0x22" "cl \<noteq> op"
    using b(1) by (auto simp: bracket_pair_def is_open_def)
  have "dropWhile (\<lambda>c. \<not> is_open c) (pre @ json_text v @ post) = json_text v @ post"
    using assms(2) o(1) b(2) by (simp add: list_all_iff)
  moreover have "scan_json op cl 0 False False 0 (json_text v @ post) = Some (length (json_text v))"
    using o passesD [OF b(3), of 0 1 "cl # post"] by (simp add: b(2))
  ultimately show ?thesis using o(2) by (simp add: extract_balanced_json_def b(2))
qed

section \<open>The text between two fences\<close>

lemma no_newline_join: "CHR 0x0A \<notin> set sep \<Longrightarrow> \<forall>s\<in>set ss. CHR 0x0A \<notin> set s \<Longrightarrow> CHR 0x0A \<notin> set (join sep ss)"
  by (induction sep ss rule: join.induct) auto

lemma no_newline_chars: "CHR 0x0A \<notin> set (json_char c)"
proof -
  have "char_of n \<noteq> CHR 0x0A" if "n < 256" "n \<noteq> 10" for n :: nat using that by (auto simp: of_char_of simp flip: of_char_eq_iff [where 'a = nat])
  then have "hex_digit d \<noteq> CHR 0x0A" if "d < 16" for d using that by (simp add: hex_digit_def)
  then have "hex_digit ((of_char c :: nat) mod 16) \<noteq> CHR 0x0A" "(of_char c :: nat) < 32 \<Longrightarrow> hex_digit ((of_char c :: nat) div 16) \<noteq> CHR 0x0A"
    by simp_all
  moreover have "(of_char c :: nat) \<noteq> 10 \<Longrightarrow> c \<noteq> CHR 0x0A" by auto
  ultimately show ?thesis by (auto simp: json_char_def Let_def)
qed

lemma no_newline_string: "CHR 0x0A \<notin> set (json_string s)"
  using no_newline_chars by (auto simp: json_string_def)

lemma no_newline_digits: "list_all is_digit s \<Longrightarrow> CHR 0x0A \<notin> set s"
  by (auto simp: list_all_iff is_digit_def)

lemma no_newline_num: "is_finite n \<Longrightarrow> CHR 0x0A \<notin> set (num_str n)"
  using no_newline_digits [OF nat_str_digits] no_newline_digits [OF pad_nat_str_digits] by (cases n) (simp_all add: num_str_def Let_def)

lemma no_newline_json:
  "CHR 0x0A \<notin> set (json_text v)" "\<forall>s\<in>set (json_elems vs). CHR 0x0A \<notin> set s" "\<forall>s\<in>set (json_fields kvs). CHR 0x0A \<notin> set s"
  by (induction v and vs and kvs rule: json_text_json_elems_json_fields.induct)
    (auto simp: no_newline_num no_newline_string no_newline_join)

lemma sw_prefix: "starts_with f s \<longleftrightarrow> prefix f s"
  by (metis append_eq_conv_conj prefix_def starts_with_def)

lemma FENCE_list: "FENCE = [CHR 0x60, CHR 0x60, CHR 0x60]"
  by (simp add: FENCE_def numeral_3_eq_3)

text \<open>The first fence in the text, or the closing one, ends the block.\<close>

lemma until_closing:
  "CHR 0x0A \<notin> set t \<Longrightarrow> \<not> sublist FENCE t \<Longrightarrow> until_fence (t @ CHR 0x0A # FENCE @ post) = Some t"
proof (induction t)
  case Nil
  then show ?case by (simp add: sw_prefix FENCE_list)
next
  case (Cons c t)
  have "\<not> prefix FENCE (c # t @ CHR 0x0A # FENCE @ post)"
  proof
    assume p: "prefix FENCE (c # t @ CHR 0x0A # FENCE @ post)"
    have "length t \<ge> 2 \<Longrightarrow> prefix FENCE (c # t)"
      using prefix_length_prefix [OF p, of "c # t"] by (auto simp: FENCE_list)
    then show False using p Cons.prems(2)
      by (cases t; cases "tl t") (auto simp: FENCE_list dest: prefix_imp_sublist)
  qed
  moreover have "\<not> prefix (CHR 0x0A # FENCE) (c # t @ CHR 0x0A # FENCE @ post)" using Cons.prems(1) by auto
  moreover have "\<not> sublist FENCE t" using Cons.prems(2) by (auto simp: sublist_Cons_right)
  ultimately show ?case using Cons by (simp add: sw_prefix)
qed

lemma until_inner: "CHR 0x0A \<notin> set t \<Longrightarrow> sublist FENCE t \<Longrightarrow> \<exists>u. until_fence (t @ r) = Some u \<and> strict_prefix u t"
proof (induction t)
  case Nil
  then show ?case by (simp add: FENCE_list)
next
  case (Cons c t)
  show ?case
  proof (cases "prefix FENCE (c # t @ r)")
    case True
    then show ?thesis by (auto simp: sw_prefix)
  next
    case False
    then have "\<not> prefix FENCE (c # t)" by (metis append_Cons prefix_prefix)
    then have "sublist FENCE t" using Cons.prems(2) by (simp add: sublist_Cons_right)
    then obtain u where "until_fence (t @ r) = Some u" "strict_prefix u t" using Cons by auto
    moreover have "\<not> prefix (CHR 0x0A # FENCE) (c # t @ r)" using Cons.prems(1) by auto
    ultimately show ?thesis using False by (intro exI [of _ "c # u"]) (simp add: sw_prefix)
  qed
qed

lemma no_fence_at: "c \<noteq> CHR 0x60 \<Longrightarrow> fence_at (c # s) = None"
  by (simp add: fence_at_def sw_prefix FENCE_list)

lemma fenced_skip: "list_all (\<lambda>c. c \<noteq> CHR 0x60) pre \<Longrightarrow> fenced (pre @ s) = fenced s"
  by (induction pre) (simp_all add: no_fence_at)

definition JSON_FENCE :: string where "JSON_FENCE = FENCE @ ''json'' @ [CHR 0x0A]"

lemma fence_at_json:
  assumes "t \<noteq> []" "\<not> is_space (hd t)" shows "fence_at (JSON_FENCE @ t) = until_fence t"
proof -
  obtain c x where t: "t = c # x" using assms(1) by (cases t) auto
  then show ?thesis using assms(2)
    by (simp add: fence_at_def JSON_FENCE_def sw_prefix FENCE_list to_lower_def lower_char_def after_newline_def is_space_def Let_def)
qed

text \<open>A serialised value holds no newline, so it opens no block by itself.\<close>

lemma json_edges:
  assumes "is_array v \<or> is_object v"
  shows "\<exists>op body cl. json_text v = op # body @ [cl] \<and> \<not> is_space op \<and> \<not> is_space cl \<and> cl \<noteq> CHR 0x60 \<and> cl \<notin> set ''json'' \<and> lower_char cl = cl \<and> op \<noteq> CHR 0x60"
  using json_bracketed [OF assms] by (fastforce simp: bracket_pair_def is_space_def lower_char_def)

lemma no_fence_inside:
  assumes "CHR 0x0A \<notin> set q" "\<not> is_space cl" "cl \<noteq> CHR 0x60" "cl \<notin> set ''json''" "lower_char cl = cl" "q = b @ [cl]"
  shows "fence_at (q @ post) = None"
proof (rule ccontr)
  assume f: "fence_at (q @ post) \<noteq> None"
  then obtain r where r: "q @ post = FENCE @ r" by (auto simp: fence_at_def sw_prefix prefix_def split: if_splits)
  then have "\<exists>q'. q = FENCE @ q' \<and> r = q' @ post"
    using assms(3,6) by (auto simp: FENCE_list append_eq_Cons_conv Cons_eq_append_conv)
  then obtain q' where q': "q = FENCE @ q'" "r = q' @ post" by blast
  obtain b' where b': "q' = b' @ [cl]" using q'(1) assms(3,6) by (cases q' rule: rev_cases) (auto simp: FENCE_list)
  let ?x = "if to_lower (take 4 r) = ''json'' then drop 4 r else r"
  have "\<exists>b. ?x = (b @ [cl]) @ post \<and> CHR 0x0A \<notin> set b"
  proof (cases "to_lower (take 4 r) = ''json''")
    case True
    have "\<not> length b' < 4"
    proof
      assume "length b' < 4"
      then have "cl \<in> set (take 4 r)" using q'(2) b' by (cases "4 - length b'") (auto simp: take_append)
      then have "cl \<in> set (to_lower (take 4 r))" using assms(5) by (force simp: to_lower_def)
      then show False using True assms(4) by simp
    qed
    then show ?thesis using True q' b' assms(1) by (intro exI [of _ "drop 4 b'"]) (auto dest: in_set_dropD)
  next
    case False
    then show ?thesis using q' b' assms(1) by auto
  qed
  then obtain d where d: "?x = (d @ [cl]) @ post" "CHR 0x0A \<notin> set d" by blast
  have "takeWhile is_space (d @ cl # post) = takeWhile is_space d"
    using assms(2) by (induction d) auto
  then have "CHR 0x0A \<notin> set (takeWhile is_space ?x)" unfolding d(1) using d(2) by (auto dest: set_takeWhileD)
  then have "after_newline ?x = None" by (simp add: after_newline_def)
  then show False using f r by (simp add: fence_at_def FENCE_list Let_def split: if_splits)
qed

lemma fenced_none:
  "CHR 0x0A \<notin> set (b @ [cl]) \<Longrightarrow> \<not> is_space cl \<Longrightarrow> cl \<noteq> CHR 0x60 \<Longrightarrow> cl \<notin> set ''json'' \<Longrightarrow> lower_char cl = cl \<Longrightarrow>
   list_all (\<lambda>c. c \<noteq> CHR 0x60) post \<Longrightarrow> fenced ((b @ [cl]) @ post) = None"
proof (induction b)
  case Nil
  then show ?case using fenced_skip [of "[cl] @ post" "[]"] by simp
next
  case (Cons c b)
  then show ?case using no_fence_inside [of "(c # b) @ [cl]" cl "c # b" post] by simp
qed

section \<open>A response\<close>

lemma trim_middle:
  assumes "\<not> is_space op" "\<not> is_space cl"
  shows "\<exists>pre' post'. trim (pre @ op # b @ cl # post) = pre' @ op # b @ cl # post' \<and> set pre' \<subseteq> set pre \<and> set post' \<subseteq> set post"
proof -
  have a: "dropWhile is_space (x @ c # y) = dropWhile is_space x @ c # y" if "\<not> is_space c" for x y and c :: char
    using that by (induction x) auto
  let ?p = "dropWhile is_space pre" and ?q = "rev (dropWhile is_space (rev post))"
  have "trim (pre @ op # b @ cl # post) = ?p @ op # b @ cl # ?q"
    using a [OF assms(1)] a [OF assms(2), of "rev post" "rev b @ op # rev ?p"] by (simp add: trim_def)
  moreover have "set ?p \<subseteq> set pre" "set ?q \<subseteq> set post" by (auto dest: set_dropWhileD)
  ultimately show ?thesis by blast
qed

lemma no_tick: "set x \<subseteq> set y \<Longrightarrow> list_all (\<lambda>c. P c) y \<Longrightarrow> list_all (\<lambda>c. P c) x"
  by (auto simp: list_all_iff)

lemma fenced_response:
  assumes "is_array v \<or> is_object v" "list_all (\<lambda>c. c \<noteq> CHR 0x60) pre"
  shows "\<exists>post'. fenced (trim (pre @ JSON_FENCE @ json_text v @ CHR 0x0A # FENCE @ post)) = until_fence (json_text v @ CHR 0x0A # FENCE @ post')"
proof -
  have ns: "\<not> is_space (CHR 0x60)" by (simp add: is_space_def)
  obtain op body cl where j: "json_text v = op # body @ [cl]" "\<not> is_space op" using json_edges [OF assms(1)] by blast
  obtain b where m: "JSON_FENCE @ json_text v @ CHR 0x0A # FENCE = CHR 0x60 # b @ [CHR 0x60]" by (simp add: JSON_FENCE_def FENCE_list)
  obtain pre' post' where t: "trim (pre @ CHR 0x60 # b @ CHR 0x60 # post) = pre' @ CHR 0x60 # b @ CHR 0x60 # post'" "set pre' \<subseteq> set pre"
    using trim_middle [OF ns ns] by blast
  have "pre @ JSON_FENCE @ json_text v @ CHR 0x0A # FENCE @ post = pre @ CHR 0x60 # b @ CHR 0x60 # post"
    "pre' @ JSON_FENCE @ json_text v @ CHR 0x0A # FENCE @ post' = pre' @ CHR 0x60 # b @ CHR 0x60 # post'"
    using arg_cong [OF m, of "\<lambda>x. x @ post"] arg_cong [OF m, of "\<lambda>x. x @ post'"] by simp_all
  then have "fenced (trim (pre @ JSON_FENCE @ json_text v @ CHR 0x0A # FENCE @ post)) = fenced (JSON_FENCE @ json_text v @ CHR 0x0A # FENCE @ post')"
    using t fenced_skip no_tick [OF t(2) assms(2)] by metis
  moreover obtain u where u: "until_fence (json_text v @ CHR 0x0A # FENCE @ post') = Some u"
    using until_closing until_inner no_newline_json(1) by metis
  moreover have "fence_at (JSON_FENCE @ json_text v @ CHR 0x0A # FENCE @ post') = Some u"
    using u j by (subst fence_at_json) simp_all
  ultimately show ?thesis by (intro exI [of _ post']) (simp add: JSON_FENCE_def FENCE_list)
qed


text \<open>C36: A fenced value that holds a fence in one of its strings, as the text of a markdown file does, is cut off there: what is
  parsed is a proper prefix of it, and the response is not tried otherwise.\<close>

theorem fenced_json_cut:
  assumes "is_array v \<or> is_object v" "list_all (\<lambda>c. c \<noteq> CHR 0x60) pre" "sublist FENCE (json_text v)"
  shows "\<exists>u. strict_prefix u (json_text v)
    \<and> parse_json_maybe_fenced json (pre @ JSON_FENCE @ json_text v @ CHR 0x0A # FENCE @ post) = json u"
proof -
  obtain post' where f: "fenced (trim (pre @ JSON_FENCE @ json_text v @ CHR 0x0A # FENCE @ post)) = until_fence (json_text v @ CHR 0x0A # FENCE @ post')"
    using fenced_response [OF assms(1,2)] by blast
  obtain u where "until_fence (json_text v @ CHR 0x0A # FENCE @ post') = Some u" "strict_prefix u (json_text v)"
    using until_inner [OF no_newline_json(1) assms(3)] by blast
  then show ?thesis using f by (intro exI [of _ u]) (simp add: parse_json_maybe_fenced_def Let_def)
qed

definition MARKDOWN :: jv where
  "MARKDOWN = JObj [(''content'', JStr FENCE)]"

definition ACCEPT :: "string \<Rightarrow> jv option" where
  "ACCEPT s = (if s = ''[null]'' then Some (JArr [JNull]) else None)"


lemma fenced_json_cut_witness:
  "parse_json_maybe_fenced (\<lambda>s. if s = json_text MARKDOWN then Some MARKDOWN else None) ([] @ JSON_FENCE @ json_text MARKDOWN @ CHR 0x0A # FENCE @ []) = None"
proof -
  have "sublist FENCE (json_text MARKDOWN)"
    by (simp add: MARKDOWN_def FENCE_list json_string_def json_char_def sublist_Cons_right prefix_Cons)
  then show ?thesis
    using fenced_json_cut [of MARKDOWN "[]" "\<lambda>s. if s = json_text MARKDOWN then Some MARKDOWN else None" "[]"] by (auto simp: MARKDOWN_def)
qed

end
