(* ===== verification/GroupB.thy ===== *)
theory GroupB
  imports FileTree JsonFence
begin

text \<open>
  \<open>src/apply-group-b.js\<close>: a batch of changes, each the creation, the edit or the deletion of a file, is applied to a repository all
  or nothing. Every change records how it is undone; when one fails, the ones before it are undone in reverse order. An
  edit replaces one occurrence of a text. The messages of the run time are one error, \<open>Thrown\<close>.
\<close>

section \<open>Texts\<close>

text \<open>\<open>text.split(find).length - 1\<close> for a text to find that is not empty, and \<open>text.replace(find, () => r)\<close>.\<close>

function occurrences :: "string \<Rightarrow> string \<Rightarrow> nat" where
  "occurrences f s =
     (if f = [] \<or> s = [] then 0 else if starts_with f s then 1 + occurrences f (drop (length f) s) else occurrences f (tl s))"
  by pat_completeness auto
termination
  by (relation "measure (\<lambda>(f, s). length s)") (auto simp: neq_Nil_conv)

declare occurrences.simps [simp del]

fun replace_first :: "string \<Rightarrow> string \<Rightarrow> string \<Rightarrow> string" where
  "replace_first f r [] = (if f = [] then r else [])"
| "replace_first f r (c # s) = (if starts_with f (c # s) then r @ drop (length f) (c # s) else c # replace_first f r s)"

definition split_count :: "string \<Rightarrow> string \<Rightarrow> int" where
  "split_count f s = (if f = [] then int (length s) - 1 else int (occurrences f s))"

section \<open>One change\<close>

datatype apply_error =
    BadJson | EmptyBatch | MissingFile | OutsideRepo string | AlreadyExists string | NoFileToEdit string
  | FindNotFound string | FindAmbiguous int string | DeleteDisabled string | NoFileToDelete string | UnknownMode jv | Thrown

datatype inverse = Absent path | Content path string

record applier =
  ap_repo :: path
  ap_pipeline :: path
  ap_temp :: "path \<Rightarrow> path"

definition resolve_in_repo :: "path \<Rightarrow> jv \<Rightarrow> apply_error + path" where
  "resolve_in_repo repo rel =
     (if \<not> is_string rel \<or> trim (str_of rel) = [] then Inl MissingFile
      else let r = path_resolve repo (str_of rel)
           in if r \<noteq> repo \<and> \<not> starts_with (path_text repo @ ''/'') (path_text r) then Inl (OutsideRepo (str_of rel)) else Inr r)"

definition kill_switch :: "path \<Rightarrow> path" where
  "kill_switch pipeline = pipeline @ [''queue'', ''.delete-mode-disabled'']"

text \<open>The text that a field holds after \<open>|| ''\<close>, as the functions of strings convert it.\<close>

definition field_text :: "jv \<Rightarrow> string" where
  "field_text v = (if truthy v then to_str v else [])"

definition apply_create :: "tree \<Rightarrow> path \<Rightarrow> jv \<Rightarrow> tree \<times> (apply_error + inverse)" where
  "apply_create t p item =
     (if node_at t p \<noteq> None then (t, Inl (AlreadyExists (str_of (jget item ''file''))))
      else case mkdirs t (butlast p) of
          None \<Rightarrow> (t, Inl Thrown)
        | Some t' \<Rightarrow> if truthy (jget item ''content'') \<and> \<not> is_string (jget item ''content'') then (t', Inl Thrown)
                      else (t'(p \<mapsto> File (str_of (jget item ''content''))), Inr (Absent p)))"

definition apply_edit :: "tree \<Rightarrow> path \<Rightarrow> jv \<Rightarrow> tree \<times> (apply_error + inverse)" where
  "apply_edit t p item =
     (case node_at t p of
        None \<Rightarrow> (t, Inl (NoFileToEdit (str_of (jget item ''file''))))
      | Some Dir \<Rightarrow> (t, Inl Thrown)
      | Some (File s) \<Rightarrow>
          let f = field_text (jget item ''find''); n = (if truthy (jget item ''find'') then split_count f s else 0)
          in if n = 0 then (t, Inl (FindNotFound (str_of (jget item ''file''))))
             else if 1 < n then (t, Inl (FindAmbiguous n (str_of (jget item ''file''))))
             else (t(p \<mapsto> File (replace_first f (field_text (jget item ''replace'')) s)), Inr (Content p s)))"

definition apply_delete :: "applier \<Rightarrow> tree \<Rightarrow> path \<Rightarrow> jv \<Rightarrow> tree \<times> (apply_error + inverse)" where
  "apply_delete a t p item =
     (if node_at t (kill_switch (ap_pipeline a)) \<noteq> None then (t, Inl (DeleteDisabled (str_of (jget item ''file''))))
      else case node_at t p of
          None \<Rightarrow> (t, Inl (NoFileToDelete (str_of (jget item ''file''))))
        | Some Dir \<Rightarrow> (t, Inl Thrown)
        | Some (File s) \<Rightarrow> (t(p := None), Inr (Content p s)))"

definition apply_one_change :: "applier \<Rightarrow> tree \<Rightarrow> jv \<Rightarrow> tree \<times> (apply_error + inverse)" where
  "apply_one_change a t item =
     (if nullish item then (t, Inl Thrown)
      else case resolve_in_repo (ap_repo a) (jget item ''file'') of
          Inl e \<Rightarrow> (t, Inl e)
        | Inr p \<Rightarrow>
            if jget item ''mode'' = JStr ''create'' then apply_create t p item
            else if jget item ''mode'' = JStr ''edit'' then apply_edit t p item
            else if jget item ''mode'' = JStr ''delete'' then apply_delete a t p item
            else (t, Inl (UnknownMode (jget item ''mode''))))"

section \<open>Undoing\<close>

text \<open>A content is restored through a temporary file that is renamed; when a directory has taken the place, the rename fails and
  the temporary file stays. Its name holds the process and the time, so it is taken to be free.\<close>

definition write_atomic :: "applier \<Rightarrow> tree \<Rightarrow> path \<Rightarrow> string \<Rightarrow> tree \<times> bool" where
  "write_atomic a t p s = (if node_at t p = Some Dir then (t(ap_temp a p \<mapsto> File s), False) else (t(p \<mapsto> File s), True))"

fun revert_one :: "applier \<Rightarrow> tree \<Rightarrow> inverse \<Rightarrow> tree \<times> bool" where
  "revert_one a t (Absent p) = (case unlink t p of Some t' \<Rightarrow> (t', True) | None \<Rightarrow> (t, False))"
| "revert_one a t (Content p s) = (case mkdirs t (butlast p) of None \<Rightarrow> (t, False) | Some t' \<Rightarrow> write_atomic a t' p s)"

fun inverse_path :: "inverse \<Rightarrow> path" where
  "inverse_path (Absent p) = p"
| "inverse_path (Content p s) = p"

fun roll_back :: "applier \<Rightarrow> tree \<Rightarrow> inverse list \<Rightarrow> tree \<times> path list" where
  "roll_back a t [] = (t, [])"
| "roll_back a t (i # is) =
     (let (t', ok) = revert_one a t i; (t'', failed) = roll_back a t' is in (t'', if ok then failed else inverse_path i # failed))"

section \<open>A batch\<close>

text \<open>A failure carries the error, the number of changes that were undone and the paths where undoing failed.\<close>

fun apply_items :: "applier \<Rightarrow> tree \<Rightarrow> jv list \<Rightarrow> jv list \<Rightarrow> inverse list \<Rightarrow> tree \<times> ((apply_error \<times> nat \<times> path list) + jv list)" where
  "apply_items a t [] files invs = (t, Inr files)"
| "apply_items a t (item # items) files invs =
     (case apply_one_change a t item of
        (t', Inl e) \<Rightarrow> let (t'', failed) = roll_back a t' invs in (t'', Inl (e, length invs, failed))
      | (t', Inr i) \<Rightarrow> apply_items a t' items (files @ [jget item ''file'']) (i # invs))"

definition batch_items :: "jv \<Rightarrow> jv list" where
  "batch_items parsed = (if is_array parsed then elems parsed else [parsed])"

text \<open>\<open>parsed\<close> is what \<open>parse_json_maybe_fenced\<close> makes of the response, if it is JSON.\<close>

definition apply_group_b :: "applier \<Rightarrow> tree \<Rightarrow> jv option \<Rightarrow> tree \<times> ((apply_error \<times> nat \<times> path list) + jv list)" where
  "apply_group_b a t parsed =
     (case parsed of
        None \<Rightarrow> (t, Inl (BadJson, 0, []))
      | Some v \<Rightarrow> if batch_items v = [] then (t, Inl (EmptyBatch, 0, [])) else apply_items a t (batch_items v) [] [])"

text \<open>The whole applier: \<open>json\<close> is \<open>JSON.parse\<close>.\<close>

definition apply_response :: "(string \<Rightarrow> jv option) \<Rightarrow> applier \<Rightarrow> tree \<Rightarrow> string \<Rightarrow> tree \<times> ((apply_error \<times> nat \<times> path list) + jv list)" where
  "apply_response json a t response = apply_group_b a t (parse_json_maybe_fenced json response)"

definition batch_contains_delete_mode :: "jv option \<Rightarrow> bool" where
  "batch_contains_delete_mode parsed =
     (case parsed of None \<Rightarrow> False | Some v \<Rightarrow> \<exists>item\<in>set (batch_items v). truthy item \<and> jget item ''mode'' = JStr ''delete'')"

end
