(* ===== verification/GroupBProperties.thy ===== *)
theory GroupBProperties
  imports GroupB
begin

text \<open>
  What a batch of \<open>src/apply-group-b.js\<close> guarantees: a failure leaves the files as they were unless undoing failed, undoing cannot
  fail without a deletion, nothing outside the repository changes, and an edit that goes through replaces the first and only
  separate occurrence.
\<close>

section \<open>All or nothing\<close>

text \<open>\<open>undoable del v is w\<close>: undoing \<open>is\<close> in order takes the files \<open>w\<close> back to \<open>v\<close>. \<open>del\<close> allows deletions.\<close>

inductive undoable :: "bool \<Rightarrow> (path \<rightharpoonup> string) \<Rightarrow> inverse list \<Rightarrow> (path \<rightharpoonup> string) \<Rightarrow> bool" for del and v where
  start: "undoable del v [] v"
| created: "undoable del v is w \<Longrightarrow> w p = None \<Longrightarrow> p \<noteq> [] \<Longrightarrow> undoable del v (Absent p # is) (w(p \<mapsto> c))"
| changed: "undoable del v is w \<Longrightarrow> w p = Some c \<Longrightarrow> x \<noteq> None \<or> del \<Longrightarrow> undoable del v (Content p c # is) (w(p := x))"

inductive_cases undoable_created: "undoable del v (Absent p # is) w"
inductive_cases undoable_changed: "undoable del v (Content p c # is) w"
inductive_cases undoable_start: "undoable del v [] w"

lemma revert_created: "revert_one a t (Absent p) = (t', True) \<Longrightarrow> file_at t' = (file_at t)(p := None)"
  by (auto dest: unlink_files split: option.splits)

lemma revert_changed: "revert_one a t (Content p c) = (t', True) \<Longrightarrow> p \<noteq> [] \<Longrightarrow> file_at t' = (file_at t)(p \<mapsto> c)"
  by (auto simp: write_atomic_def file_at_upd mkdirs_files split: option.splits if_splits)

lemma undoable_root: "undoable del v is w \<Longrightarrow> v [] = None \<Longrightarrow> w [] = None"
  by (induction rule: undoable.induct) auto

lemma rolled_back:
  "undoable del v is (file_at t) \<Longrightarrow> roll_back a t is = (t', []) \<Longrightarrow> v [] = None \<Longrightarrow> file_at t' = v"
proof (induction "is" arbitrary: t)
  case Nil
  then show ?case by (auto elim: undoable_start)
next
  case (Cons i "is")
  obtain t1 where r: "revert_one a t i = (t1, True)" and b: "roll_back a t1 is = (t', [])"
    using Cons.prems(2) by (auto split: prod.splits if_splits)
  have "undoable del v is (file_at t1)"
  proof (cases i)
    case (Absent p)
    obtain w c where w: "undoable del v is w" "w p = None" "file_at t = w(p \<mapsto> c)"
      using Cons.prems(1) Absent by (auto elim: undoable_created)
    then have "file_at t1 = w" using revert_created [of a t p t1] r Absent by auto
    then show ?thesis using w(1) by simp
  next
    case (Content p c)
    obtain w x where w: "undoable del v is w" "w p = Some c" "file_at t = w(p := x)"
      using Cons.prems(1) Content by (auto elim: undoable_changed)
    then have "p \<noteq> []" using undoable_root [OF w(1)] Cons.prems(3) by auto
    then have "file_at t1 = w" using revert_changed [of a t p c t1] r Content w(2,3) by auto
    then show ?thesis using w(1) by simp
  qed
  then show ?case using Cons.IH b Cons.prems(3) by blast
qed

lemma created_change: "apply_create t p item = (t', Inr i) \<Longrightarrow> \<exists>c. i = Absent p \<and> p \<noteq> [] \<and> file_at t p = None \<and> file_at t' = (file_at t)(p \<mapsto> c)"
  by (auto simp: apply_create_def file_at_upd mkdirs_files node_at_def file_at_def [of t p] split: if_splits option.splits)

lemma edited_change:
  "apply_edit t p item = (t', Inr i) \<Longrightarrow>
   \<exists>s c. i = Content p s \<and> file_at t p = Some s \<and> t' = t(p \<mapsto> File c) \<and> file_at t' = (file_at t)(p \<mapsto> c)"
  by (auto simp: apply_edit_def Let_def file_at_def [of t p] node_at_def file_at_upd split: if_splits option.splits node.splits)

lemma deleted_change:
  "apply_delete a t p item = (t', Inr i) \<Longrightarrow>
   \<exists>s. i = Content p s \<and> file_at t p = Some s \<and> t' = t(p := None) \<and> file_at t' = (file_at t)(p := None)"
  by (auto simp: apply_delete_def file_at_def [of t p] node_at_def file_at_upd split: if_splits option.splits node.splits)

lemma apply_one_undoable:
  assumes "apply_one_change a t item = (t', Inr i)" "undoable del v is (file_at t)" "del \<or> jget item ''mode'' \<noteq> JStr ''delete''"
  shows "undoable del v (i # is) (file_at t')"
proof -
  obtain p where p: "jget item ''mode'' = JStr ''create'' \<and> apply_create t p item = (t', Inr i)
      \<or> jget item ''mode'' = JStr ''edit'' \<and> apply_edit t p item = (t', Inr i)
      \<or> jget item ''mode'' = JStr ''delete'' \<and> apply_delete a t p item = (t', Inr i)"
    using assms(1) by (auto simp: apply_one_change_def split: if_splits sum.splits)
  then consider c where "i = Absent p" "p \<noteq> []" "file_at t p = None" "file_at t' = (file_at t)(p \<mapsto> c)"
    | s x where "i = Content p s" "file_at t p = Some s" "file_at t' = (file_at t)(p := x)" "x \<noteq> None \<or> del"
    using created_change [of t p item t' i] edited_change [of t p item t' i] deleted_change [of a t p item t' i] assms(3) by blast
  then show ?thesis
    by cases (simp_all add: undoable.created [OF assms(2)] undoable.changed [OF assms(2)])
qed

text \<open>A change that fails may have made directories, and touches no file.\<close>

lemma apply_one_failed: "apply_one_change a t item = (t', Inl e) \<Longrightarrow> file_at t' = file_at t"
  by (auto simp: apply_one_change_def apply_create_def apply_edit_def apply_delete_def Let_def mkdirs_files
      split: if_splits sum.splits option.splits node.splits)

lemma apply_items_failed:
  "apply_items a t items files is = (t', Inl (e, n, failed)) \<Longrightarrow> undoable del v is (file_at t) \<Longrightarrow>
   del \<or> (\<forall>item\<in>set items. jget item ''mode'' \<noteq> JStr ''delete'') \<Longrightarrow>
   \<exists>is' t''. undoable del v is' (file_at t'') \<and> roll_back a t'' is' = (t', failed)"
proof (induction a t items files "is" rule: apply_items.induct)
  case (2 a t item items files invs)
  obtain t1 r where r: "apply_one_change a t item = (t1, r)" by (cases "apply_one_change a t item")
  show ?case
  proof (cases r)
    case (Inl e')
    then have "file_at t1 = file_at t" using apply_one_failed r by blast
    moreover have "roll_back a t1 invs = (t', failed)" using "2.prems"(1) r Inl by (auto split: prod.splits)
    ultimately show ?thesis using "2.prems"(2) by metis
  next
    case (Inr i)
    have "undoable del v (i # invs) (file_at t1)" using apply_one_undoable [of a t item t1 i del v invs] r Inr "2.prems" by auto
    then show ?thesis using "2.IH" [OF r [symmetric] Inr] r Inr "2.prems" by auto
  qed
qed simp

lemma file_at_root: "file_at t [] = None" by (simp add: file_at_def node_at_def)

lemma failed_batch_keeps_files:
  assumes "apply_group_b a t parsed = (t', Inl (e, n, failed))"
  shows "failed \<noteq> [] \<or> file_at t' = file_at t"
proof (cases parsed)
  case None
  then show ?thesis using assms by (simp add: apply_group_b_def)
next
  case (Some v)
  show ?thesis
  proof (cases "batch_items v = []")
    case False
    then have "apply_items a t (batch_items v) [] [] = (t', Inl (e, n, failed))" using assms Some by (simp add: apply_group_b_def)
    then obtain is' t'' where "undoable True (file_at t) is' (file_at t'')" "roll_back a t'' is' = (t', failed)"
      using apply_items_failed [where del = True and v = "file_at t"] undoable.start by blast
    then show ?thesis using rolled_back file_at_root by blast
  qed (use assms Some in \<open>simp add: apply_group_b_def\<close>)
qed

section \<open>Undoing does not fail\<close>

lemma ok_write:
  assumes "tree_ok t" "t p = Some (File c)" shows "tree_ok (t(p \<mapsto> File c'))"
proof -
  have "p \<noteq> []" using assms by (auto simp: tree_ok_def)
  moreover have "node_at t (butlast p) = Some Dir" using mkdirs_ok [OF assms(1) mkdirs_above [OF assms(1)]] assms(2) by simp
  ultimately show ?thesis using tree_ok_put assms by (simp add: is_file_def)
qed

lemma revert_succeeds:
  assumes "tree_ok t" "undoable False v (i # is) (file_at t)" "v [] = None"
  shows "\<exists>t'. revert_one a t i = (t', True) \<and> tree_ok t' \<and> undoable False v is (file_at t')"
proof (cases i)
  case (Absent p)
  obtain w c where w: "undoable False v is w" "w p = None" "file_at t = w(p \<mapsto> c)"
    using assms(2) Absent by (auto elim: undoable_created)
  then have "is_file (node_at t p)" by (simp add: is_file_iff)
  then obtain t' where t': "unlink t p = Some t'" by (simp add: unlink_def)
  then have "file_at t' = w" using unlink_files w by fastforce
  then show ?thesis using t' tree_ok_unlink [OF assms(1)] w Absent by auto
next
  case (Content p c)
  obtain w x where w: "undoable False v is w" "w p = Some c" "file_at t = w(p := x)" "x \<noteq> None"
    using assms(2) Content by (auto elim: undoable_changed)
  then obtain s where s: "t p = Some (File s)" "p \<noteq> []" using file_at_Some by (metis fun_upd_same not_None_eq)
  have "mkdirs t (butlast p) = Some t" using mkdirs_above [OF assms(1)] s(1) by simp
  moreover have "file_at (t(p \<mapsto> File c)) = w" using w(2,3) s(2) by (auto simp: file_at_upd)
  ultimately show ?thesis using Content s w(1) ok_write [OF assms(1) s(1)] by (simp add: write_atomic_def node_at_def)
qed

lemma roll_back_succeeds: "tree_ok t \<Longrightarrow> undoable False v is (file_at t) \<Longrightarrow> v [] = None \<Longrightarrow> snd (roll_back a t is) = []"
proof (induction "is" arbitrary: t)
  case (Cons i "is")
  obtain t' where "revert_one a t i = (t', True)" "tree_ok t'" "undoable False v is (file_at t')"
    using revert_succeeds [OF Cons.prems, of a] by blast
  then show ?case using Cons.IH [of t'] Cons.prems(3) by (simp split: prod.splits)
qed simp

lemma apply_one_ok: "tree_ok t \<Longrightarrow> tree_ok (fst (apply_one_change a t item))"
proof -
  assume ok: "tree_ok t"
  have "tree_ok (fst (apply_create t p item))" for p
  proof (cases "node_at t p = None \<and> mkdirs t (butlast p) \<noteq> None")
    case True
    then obtain t' where t': "mkdirs t (butlast p) = Some t'" "t p = None" "p \<noteq> []" by (auto simp: node_at_def split: if_splits)
    note ok' = mkdirs_ok [OF ok t'(1)]
    have "\<not> prefix p (butlast p)" using t'(3) prefix_length_le [of p "butlast p"] by (cases p) auto
    then have "t' p = None" using t' by (auto simp: mkdirs_def split: if_splits)
    then show ?thesis using ok' t' tree_ok_put [of t' p] True by (auto simp: apply_create_def)
  next
    case False
    then show ?thesis using ok by (auto simp: apply_create_def)
  qed
  moreover have "tree_ok (fst (apply_edit t p item))" for p
    using ok ok_write [OF ok] by (auto simp: apply_edit_def Let_def node_at_def split: option.splits node.splits)
  moreover have "tree_ok (fst (apply_delete a t p item))" for p
    using ok tree_ok_unlink [OF ok, of p] by (auto simp: apply_delete_def unlink_def is_file_def node_at_def split: option.splits node.splits)
  ultimately show ?thesis using ok by (auto simp: apply_one_change_def split: sum.splits)
qed

lemma apply_items_ok:
  "apply_items a t items files is = (t', Inl (e, n, failed)) \<Longrightarrow> tree_ok t \<Longrightarrow> undoable False v is (file_at t) \<Longrightarrow> v [] = None \<Longrightarrow>
   \<forall>item\<in>set items. jget item ''mode'' \<noteq> JStr ''delete'' \<Longrightarrow> failed = []"
proof (induction a t items files "is" rule: apply_items.induct)
  case (2 a t item items files invs)
  obtain t1 r where r: "apply_one_change a t item = (t1, r)" by (cases "apply_one_change a t item")
  have ok: "tree_ok t1" using apply_one_ok [OF "2.prems"(2), of a item] r by simp
  show ?case
  proof (cases r)
    case (Inl e')
    have "file_at t1 = file_at t" using apply_one_failed r Inl by blast
    moreover have "roll_back a t1 invs = (t', failed)" using "2.prems"(1) r Inl by (auto split: prod.splits)
    ultimately show ?thesis using roll_back_succeeds [OF ok, of v invs a] "2.prems"(3,4) by simp
  next
    case (Inr i)
    have "undoable False v (i # invs) (file_at t1)" using apply_one_undoable [of a t item t1 i False v invs] r Inr "2.prems" by auto
    then show ?thesis using "2.IH" [OF r [symmetric] Inr] r Inr "2.prems" ok by auto
  qed
qed simp

lemma failed_edits_undone:
  assumes "tree_ok t" "\<not> batch_contains_delete_mode parsed" "apply_group_b a t parsed = (t', Inl (e, n, failed))"
  shows "failed = [] \<and> file_at t' = file_at t"
proof (cases "parsed = None \<or> batch_items (the parsed) = []")
  case True
  then show ?thesis using assms(3) by (auto simp: apply_group_b_def split: option.splits)
next
  case False
  then obtain v where v: "parsed = Some v" "apply_items a t (batch_items v) [] [] = (t', Inl (e, n, failed))"
    using assms(3) by (auto simp: apply_group_b_def)
  have nd: "\<forall>item\<in>set (batch_items v). jget item ''mode'' \<noteq> JStr ''delete''"
  proof
    fix item assume i: "item \<in> set (batch_items v)"
    show "jget item ''mode'' \<noteq> JStr ''delete''"
      using assms(2) i v(1) by (cases item) (auto simp: batch_contains_delete_mode_def)
  qed
  have u: "undoable False (file_at t) [] (file_at t)" by (rule undoable.start)
  have "failed = []" by (rule apply_items_ok [OF v(2) assms(1) u file_at_root nd])
  moreover obtain is' t'' where "undoable False (file_at t) is' (file_at t'')" "roll_back a t'' is' = (t', failed)"
    using apply_items_failed [OF v(2) u] nd by blast
  ultimately show ?thesis using rolled_back file_at_root by blast
qed


section \<open>Inside the repository\<close>

definition repo_ok :: "path \<Rightarrow> tree \<Rightarrow> bool" where
  "repo_ok repo t \<longleftrightarrow> list_all plain_name repo \<and> (\<forall>q. prefix q repo \<longrightarrow> q \<noteq> [] \<longrightarrow> t q = Some Dir)"

definition same_outside :: "path \<Rightarrow> tree \<Rightarrow> tree \<Rightarrow> bool" where
  "same_outside repo t t' \<longleftrightarrow> (\<forall>q. \<not> strict_prefix repo q \<longrightarrow> t' q = t q)"

lemma same_outside_refl [simp]: "same_outside repo t t" by (simp add: same_outside_def)

lemma same_outside_trans: "same_outside repo t t1 \<Longrightarrow> same_outside repo t1 t2 \<Longrightarrow> same_outside repo t t2"
  by (simp add: same_outside_def)

lemma repo_ok_same: "repo_ok repo t \<Longrightarrow> same_outside repo t t' \<Longrightarrow> repo_ok repo t'"
  unfolding repo_ok_def same_outside_def by (metis prefix_order.less_le_not_le)

lemma same_outside_put: "strict_prefix repo p \<Longrightarrow> same_outside repo t t1 \<Longrightarrow> same_outside repo t (t1(p := n))"
  by (auto simp: same_outside_def)

lemma same_outside_mkdirs:
  assumes "repo_ok repo t" "strict_prefix repo p" "mkdirs t (butlast p) = Some t'"
  shows "same_outside repo t t'"
  unfolding same_outside_def
proof (intro allI impI)
  fix q assume q: "\<not> strict_prefix repo q"
  show "t' q = t q"
  proof (cases "prefix q (butlast p) \<and> q \<noteq> []")
    case True
    then have "prefix q p" "prefix repo p" using assms(2) by (auto simp: strict_prefix_def intro: prefix_order.trans prefixeq_butlast)
    then have "prefix q repo" using q by (metis prefix_order.le_less prefix_same_cases)
    then show ?thesis using assms True by (auto simp: repo_ok_def mkdirs_def split: if_splits)
  qed (use assms(3) in \<open>auto simp: mkdirs_def split: if_splits\<close>)
qed

lemma resolved_inside:
  assumes "list_all plain_name repo" "resolve_in_repo repo rel = Inr p" shows "p = repo \<or> strict_prefix repo p"
proof -
  have p: "p = path_resolve repo (str_of rel)" "p = repo \<or> starts_with (path_text repo @ ''/'') (path_text p)"
    using assms(2) by (auto simp: resolve_in_repo_def Let_def split: if_splits)
  have plain: "list_all plain_name p" using resolve_plain [OF assms(1)] p(1) by simp
  show ?thesis
  proof (cases "p = repo")
    case False
    then have sw: "starts_with (path_text repo @ ''/'') (path_text p)" using p(2) by simp
    show ?thesis
    proof (cases "repo = []")
      case True
      then show ?thesis using False by (simp add: strict_prefix_def)
    next
      case ne: False
      have "p \<noteq> []" using sw ne by (cases repo) (auto simp: path_text_def starts_with_def)
      then show ?thesis using text_prefix [OF assms(1) plain] sw ne by (simp add: path_text_def)
    qed
  qed simp
qed

lemma apply_one_inside:
  assumes "repo_ok (ap_repo a) t" "apply_one_change a t item = (t', r)"
  shows "same_outside (ap_repo a) t t' \<and> (\<forall>i. r = Inr i \<longrightarrow> strict_prefix (ap_repo a) (inverse_path i))"
proof (cases "t' = t \<and> (\<exists>e. r = Inl e)")
  case False
  then obtain p where p: "resolve_in_repo (ap_repo a) (jget item ''file'') = Inr p"
    and r: "apply_create t p item = (t', r) \<or> apply_edit t p item = (t', r) \<or> apply_delete a t p item = (t', r)"
    using assms(2) by (auto simp: apply_one_change_def split: if_splits sum.splits)
  have "node_at t (ap_repo a) = Some Dir" using assms(1) by (simp add: repo_ok_def node_at_def)
  then have "p \<noteq> ap_repo a" using r False
    by (auto simp: apply_create_def apply_edit_def apply_delete_def split: if_splits)
  then have in_repo: "strict_prefix (ap_repo a) p" using resolved_inside [OF _ p] assms(1) by (auto simp: repo_ok_def)
  then show ?thesis
    using r False same_outside_mkdirs [OF assms(1) in_repo]
    by (auto simp: apply_create_def apply_edit_def apply_delete_def Let_def intro!: same_outside_put split: if_splits option.splits node.splits)
qed auto

lemma revert_inside:
  assumes "repo_ok (ap_repo a) t" "strict_prefix (ap_repo a) (inverse_path i)" "\<forall>p. \<exists>x. ap_temp a p = butlast p @ [x]"
  shows "same_outside (ap_repo a) t (fst (revert_one a t i))"
proof (cases i)
  case (Absent p)
  then show ?thesis using assms(2) by (auto simp: unlink_def intro!: same_outside_put split: option.splits if_splits)
next
  case (Content p c)
  have p: "strict_prefix (ap_repo a) p" using assms(2) Content by simp
  obtain x where x: "ap_temp a p = butlast p @ [x]" using assms(3) by blast
  have "prefix (ap_repo a) (butlast p)" using p by (metis append_butlast_last_id prefix_snoc strict_prefix_def strict_prefix_simps(1))
  then have "strict_prefix (ap_repo a) (ap_temp a p)" using x by (auto simp: strict_prefix_def)
  then show ?thesis
    using Content p same_outside_mkdirs [OF assms(1) p] by (auto simp: write_atomic_def intro!: same_outside_put split: option.splits)
qed

lemma roll_back_inside:
  "repo_ok (ap_repo a) t \<Longrightarrow> \<forall>i\<in>set is. strict_prefix (ap_repo a) (inverse_path i) \<Longrightarrow> \<forall>p. \<exists>x. ap_temp a p = butlast p @ [x] \<Longrightarrow>
   same_outside (ap_repo a) t (fst (roll_back a t is))"
proof (induction "is" arbitrary: t)
  case (Cons i "is")
  obtain t1 ok where r: "revert_one a t i = (t1, ok)" by (cases "revert_one a t i")
  have s: "same_outside (ap_repo a) t t1" using revert_inside [of a t i] Cons.prems r by simp
  then show ?case
    using Cons.IH [of t1] repo_ok_same [OF Cons.prems(1) s] Cons.prems same_outside_trans [OF s] r by (auto split: prod.splits)
qed simp

lemma apply_items_inside:
  "repo_ok (ap_repo a) t \<Longrightarrow> \<forall>i\<in>set is. strict_prefix (ap_repo a) (inverse_path i) \<Longrightarrow> \<forall>p. \<exists>x. ap_temp a p = butlast p @ [x] \<Longrightarrow>
   same_outside (ap_repo a) t (fst (apply_items a t items files is))"
proof (induction a t items files "is" rule: apply_items.induct)
  case (2 a t item items files invs)
  obtain t1 r where r: "apply_one_change a t item = (t1, r)" by (cases "apply_one_change a t item")
  note in1 = apply_one_inside [OF "2.prems"(1) r]
  then have ok: "repo_ok (ap_repo a) t1" using repo_ok_same "2.prems"(1) by blast
  show ?case
  proof (cases r)
    case (Inl e)
    then show ?thesis
      using roll_back_inside [OF ok "2.prems"(2,3)] in1 same_outside_trans r by (auto split: prod.splits)
  next
    case (Inr i)
    then show ?thesis using "2.IH" [OF r [symmetric] Inr ok] "2.prems" in1 same_outside_trans r by auto
  qed
qed simp


section \<open>An edit\<close>

lemma no_occurrence: "f \<noteq> [] \<Longrightarrow> occurrences f s = 0 \<longleftrightarrow> \<not> sublist f s"
proof (induction f s rule: occurrences.induct)
  case (1 f s)
  then show ?case
    by (subst occurrences.simps) (cases s; auto simp: sw_prefix sublist_Cons_right)
qed

text \<open>With one separate occurrence, the text splits around the first one, and none follows it.\<close>

lemma one_occurrence:
  "f \<noteq> [] \<Longrightarrow> occurrences f s = 1 \<Longrightarrow>
   \<exists>u v. s = u @ f @ v \<and> replace_first f r s = u @ r @ v \<and> \<not> sublist f v
     \<and> (\<forall>u' v'. s = u' @ f @ v' \<longrightarrow> length u \<le> length u' \<and> length u' < length u + length f)"
proof (induction f s rule: occurrences.induct)
  case (1 f s)
  obtain c x where s: "s = c # x" using 1(3,4) by (cases s) (auto simp: occurrences.simps [of f "[]"])
  show ?case
  proof (cases "starts_with f s")
    case True
    then obtain v where v: "s = f @ v" by (auto simp: sw_prefix prefix_def)
    have "drop (length f) s = v" using v by simp
    then have o: "occurrences f v = 0" using 1(4) True s 1(3) by (subst (asm) occurrences.simps) auto
    then have nv: "\<not> sublist f v" using no_occurrence 1(3) by blast
    have "length u' < length f" if "f @ v = u' @ f @ v'" for u' v'
    proof (rule ccontr)
      assume "\<not> length u' < length f"
      then have "prefix f u'" using prefix_length_prefix [OF prefixI [OF refl] prefixI [OF that]] by simp
      then obtain w where "u' = f @ w" by (auto simp: prefix_def)
      then show False using that nv by (auto simp: sublist_def)
    qed
    then have all: "\<forall>u' v'. s = u' @ f @ v' \<longrightarrow> length ([] :: string) \<le> length u' \<and> length u' < length ([] :: string) + length f"
      unfolding v list.size(3) add_0 by blast
    have "replace_first f r s = [] @ r @ v" using True s v by (metis append_Nil append_eq_conv_conj replace_first.simps(2))
    moreover have "s = [] @ f @ v" using v by (simp only: append_Nil)
    ultimately show ?thesis using nv all by blast
  next
    case False
    have "occurrences f x = 1" using 1(4) False s 1(3) by (subst (asm) occurrences.simps) auto
    then obtain u v where u: "x = u @ f @ v" "replace_first f r x = u @ r @ v" "\<not> sublist f v"
      and all: "\<And>u' v'. x = u' @ f @ v' \<Longrightarrow> length u \<le> length u' \<and> length u' < length u + length f"
      using 1(2) [OF _ False] 1(3) s by auto
    have "length (c # u) \<le> length u' \<and> length u' < length (c # u) + length f" if a: "s = u' @ f @ v'" for u' v'
    proof (cases u')
      case Nil
      then show ?thesis using a False by (auto simp: sw_prefix)
    next
      case (Cons d w)
      then show ?thesis using a all [of w v'] s by auto
    qed
    then show ?thesis using u s False by (intro exI [of _ "c # u"] exI [of _ v]) auto
  qed
qed

text \<open>C33: An edit that goes through replaces the first occurrence of its text and nothing else of that file or another, no
  occurrence follows behind it, and every occurrence there was overlaps it.\<close>

theorem edit_replaces_occurrence:
  assumes "apply_edit t p item = (t', Inr i)" "jget item ''find'' = JStr f"
  shows "\<exists>u v. file_at t p = Some (u @ f @ v) \<and> file_at t' = (file_at t)(p \<mapsto> u @ field_text (jget item ''replace'') @ v)
    \<and> \<not> sublist f v \<and> (\<forall>u' v'. u @ f @ v = u' @ f @ v' \<longrightarrow> length u \<le> length u' \<and> length u' < length u + length f)"
proof -
  obtain s where s: "node_at t p = Some (File s)" "f \<noteq> []" "occurrences f s = 1"
    "t' = t(p \<mapsto> File (replace_first f (field_text (jget item ''replace'')) s))"
    using assms by (auto simp: apply_edit_def Let_def field_text_def split_count_def split: option.splits node.splits if_splits)
  then have p: "p \<noteq> []" "file_at t p = Some s" by (auto simp: node_at_def file_at_def)
  obtain u v where u: "s = u @ f @ v" "replace_first f (field_text (jget item ''replace'')) s = u @ field_text (jget item ''replace'') @ v"
      "\<not> sublist f v" "\<forall>u' v'. s = u' @ f @ v' \<longrightarrow> length u \<le> length u' \<and> length u' < length u + length f"
    using one_occurrence [OF s(2,3)] by blast
  have "file_at t' = (file_at t)(p \<mapsto> u @ field_text (jget item ''replace'') @ v)" using s(4) u(2) p(1) by (simp add: file_at_upd)
  then show ?thesis using p(2) u(3,4) unfolding u(1) by blast
qed

text \<open>Occurrences that overlap are counted once, so an ambiguous edit of \<open>aaa\<close> goes through.\<close>

lemma overlapping_edit_accepted: "split_count ''aa'' ''aaa'' = 1 \<and> replace_first ''aa'' ''b'' ''aaa'' = ''ba''"
  by (simp add: split_count_def occurrences.simps starts_with_def)

section \<open>A deletion that is not undone\<close>

definition REPO :: tree where
  "REPO = [[''r''] \<mapsto> Dir, [''r'', ''a''] \<mapsto> File ''x'']"

definition AT_REPO :: applier where
  "AT_REPO = \<lparr>ap_repo = [''r''], ap_pipeline = [''p''], ap_temp = \<lambda>p. butlast p @ [''.tmp'']\<rparr>"

definition change :: "string \<Rightarrow> string \<Rightarrow> jv" where
  "change m f = JObj [(''mode'', JStr m), (''file'', JStr f)]"

definition EDIT :: jv where
  "EDIT = JObj [(''mode'', JStr ''edit''), (''file'', JStr ''a''), (''find'', JStr ''x''), (''replace'', JStr ''y'')]"

lemmas apply_eval = apply_group_b_def batch_items_def apply_one_change_def change_def resolve_in_repo_def path_resolve_def starts_with_def
  trim_def is_space_def path_text_def REPO_def AT_REPO_def apply_create_def apply_edit_def apply_delete_def kill_switch_def
  node_at_def mkdirs_def is_file_def unlink_def write_atomic_def Let_def nullish_def EDIT_def field_text_def split_count_def occurrences.simps



lemma edit_replaces_occurrence_witness:
  "file_at (fst (apply_edit REPO [''r'', ''a''] EDIT)) [''r'', ''a''] = Some ''y''"
proof -
  obtain t' i where r: "apply_edit REPO [''r'', ''a''] EDIT = (t', Inr i)" by (simp add: apply_eval)
  have f: "jget EDIT ''find'' = JStr ''x''" by (simp add: EDIT_def)
  have "file_at REPO [''r'', ''a''] = Some ''x''" by (simp add: REPO_def file_at_Some)
  then show ?thesis using edit_replaces_occurrence [OF r f] r
    by (auto simp: EDIT_def field_text_def Cons_eq_append_conv append_eq_Cons_conv)
qed


end
