(* ===== verification/FindCanonicalize.thy ===== *)
theory FindCanonicalize
  imports Main "HOL-Library.Word" "HOL-Library.Sublist"
begin

text \<open>
  \<open>src/lib/find-canonicalize.js\<close>: a model writes a typographic quote, dash or space of a file as its ASCII form, or as an escape, so
  the text it wants to replace is not in the file. The find is looked up in the normalised file and, when it is there
  once, taken from the file itself; the replacement gets its typographic characters back. Strings are lists of UTF-16 units.
\<close>

section \<open>Units and typographic characters\<close>

type_synonym u16 = "16 word"

definition TYPO_MAP :: "(u16 \<times> u16) list" where
  "TYPO_MAP =
     [(0x2018, 0x27), (0x2019, 0x27), (0x201A, 0x27), (0x201B, 0x27),
      (0x201C, 0x22), (0x201D, 0x22), (0x201E, 0x22), (0x201F, 0x22),
      (0x2013, 0x2D), (0x2014, 0x2D), (0x2212, 0x2D),
      (0xA0, 0x20), (0x2009, 0x20), (0x202F, 0x20)]"

definition typo :: "u16 \<Rightarrow> bool" where
  "typo c \<longleftrightarrow> map_of TYPO_MAP c \<noteq> None"

definition norm_unit :: "u16 \<Rightarrow> u16" where
  "norm_unit c = (case map_of TYPO_MAP c of Some d \<Rightarrow> d | None \<Rightarrow> c)"

definition normalize_typographic :: "u16 list \<Rightarrow> u16 list" where
  "normalize_typographic s = map norm_unit s"

text \<open>An escape of a typographic character becomes the character; any other is left as it is, and skipped.\<close>

definition hex_value :: "u16 \<Rightarrow> u16 option" where
  "hex_value c =
     (if 0x30 \<le> c \<and> c \<le> 0x39 then Some (c - 0x30) else if 0x41 \<le> c \<and> c \<le> 0x46 then Some (c - 0x37)
      else if 0x61 \<le> c \<and> c \<le> 0x66 then Some (c - 0x57) else None)"

definition escaped_unit :: "u16 \<Rightarrow> u16 \<Rightarrow> u16 \<Rightarrow> u16 \<Rightarrow> u16 option" where
  "escaped_unit a b c d =
     (case (hex_value a, hex_value b, hex_value c, hex_value d) of
        (Some w, Some x, Some y, Some z) \<Rightarrow> Some (((w * 16 + x) * 16 + y) * 16 + z) | _ \<Rightarrow> None)"

fun decode_escapes :: "u16 list \<Rightarrow> u16 list" where
  "decode_escapes (e # u # a # b # c # d # s) =
     (if e = 0x5C \<and> u = 0x75 \<and> escaped_unit a b c d \<noteq> None
      then (if typo (the (escaped_unit a b c d)) then [the (escaped_unit a b c d)] else [e, u, a, b, c, d]) @ decode_escapes s
      else e # decode_escapes (u # a # b # c # d # s))"
| "decode_escapes s = s"

section \<open>The find\<close>

text \<open>Every position where \<open>p\<close> starts in \<open>s\<close>, overlapping ones included, as the loop over \<open>indexOf\<close> meets them.\<close>

definition positions :: "u16 list \<Rightarrow> u16 list \<Rightarrow> nat list" where
  "positions p s = (if p = [] then [] else filter (\<lambda>i. take (length p) (drop i s) = p) [0..<length s])"

datatype resolved = Missing | Exact | Ambiguous | Normalized (real_text: "u16 list") (used: "u16 list")

fun try_candidates :: "u16 list \<Rightarrow> bool \<Rightarrow> u16 list list \<Rightarrow> resolved" where
  "try_candidates content ambiguous [] = (if ambiguous then Ambiguous else Missing)"
| "try_candidates content ambiguous (c # cs) =
     (case positions (normalize_typographic c) (normalize_typographic content) of
        [at] \<Rightarrow> Normalized (take (length (normalize_typographic c)) (drop at content)) c
      | ps \<Rightarrow> try_candidates content (ambiguous \<or> 1 < length ps) cs)"

definition resolve_find :: "u16 list \<Rightarrow> u16 list \<Rightarrow> resolved" where
  "resolve_find content wanted =
     (if wanted = [] then Missing
      else if positions wanted content \<noteq> [] then Exact
      else try_candidates content False ((if decode_escapes wanted \<noteq> wanted then [decode_escapes wanted] else []) @ [wanted]))"

section \<open>The replacement\<close>

text \<open>\<open>[...s]\<close> splits by code points, so a surrogate pair is one element.\<close>

definition high_half :: "u16 \<Rightarrow> bool" where "high_half c \<longleftrightarrow> 0xD800 \<le> c \<and> c \<le> 0xDBFF"
definition low_half :: "u16 \<Rightarrow> bool" where "low_half c \<longleftrightarrow> 0xDC00 \<le> c \<and> c \<le> 0xDFFF"

fun code_points :: "u16 list \<Rightarrow> u16 list list" where
  "code_points (a # b # s) = (if high_half a \<and> low_half b then [a, b] # code_points s else [a] # code_points (b # s))"
| "code_points s = map (\<lambda>c. [c]) s"

text \<open>\<open>out[k] = c\<close>; behind the end the array grows and joins its holes as empty.\<close>

definition put_at :: "nat \<Rightarrow> u16 \<Rightarrow> u16 list list \<Rightarrow> u16 list list" where
  "put_at k c xs = (if k < length xs then xs[k := [c]] else xs @ replicate (k - length xs) [] @ [[c]])"

definition CONTEXT_RADIUS :: nat where "CONTEXT_RADIUS = 6"

definition anchors :: "nat \<Rightarrow> nat \<Rightarrow> (nat \<times> nat) list" where
  "anchors n i = [(i - CONTEXT_RADIUS, i + 1), (i, min n (i + 1 + CONTEXT_RADIUS))]"

definition restore_at :: "u16 list \<Rightarrow> u16 list \<Rightarrow> nat \<Rightarrow> u16 list list \<Rightarrow> u16 list list" where
  "restore_at n_out real i xs =
     fold (\<lambda>(s, e) xs.
        let p = take (e - s) (drop s (normalize_typographic real))
        in if length p < 3 then xs else fold (\<lambda>at. put_at (at + (i - s)) (real ! i)) (positions p n_out) xs)
       (anchors (length real) i) xs"

definition retypographize :: "u16 list \<Rightarrow> u16 list \<Rightarrow> u16 list \<Rightarrow> u16 list" where
  "retypographize replace candidate real =
     (let out = code_points (decode_escapes replace); n_out = normalize_typographic (concat out)
      in concat (fold (\<lambda>i xs. if \<not> typo (real ! i) \<or> (i < length candidate \<and> candidate ! i = real ! i) then xs else restore_at n_out real i xs)
           [0..<length real] out))"

section \<open>The edits of a response\<close>

text \<open>An item of the response: whether it is an edit, its file, and its find and replacement where they are strings.\<close>

record edit_item =
  it_edit :: bool
  it_file :: "u16 list option"
  it_find :: "u16 list option"
  it_replace :: "u16 list option"

text \<open>A fetched file has a path and, when it is a string, a content; the last file of a path counts.\<close>

type_synonym fetched = "(u16 list option \<times> u16 list option) list"

record fix_entry =
  fx_file :: "u16 list option"
  fx_find_chars :: nat
  fx_changed_chars :: nat

definition content_of :: "fetched \<Rightarrow> u16 list option \<Rightarrow> u16 list option" where
  "content_of files f = (case map_of (rev files) f of Some c \<Rightarrow> c | None \<Rightarrow> None)"

definition changed_chars :: "u16 list \<Rightarrow> u16 list \<Rightarrow> nat" where
  "changed_chars real candidate =
     length (filter (\<lambda>(i, ch). \<not> (i < length candidate \<and> ch = [candidate ! i])) (enumerate 0 (code_points real)))"

definition canonical_item :: "fetched \<Rightarrow> edit_item \<Rightarrow> edit_item \<times> fix_entry list" where
  "canonical_item files it =
     (case (it_edit it, it_find it, content_of files (it_file it)) of
        (True, Some wanted, Some content) \<Rightarrow>
          (case resolve_find content wanted of
             Normalized real c \<Rightarrow>
               (it\<lparr>it_find := Some real, it_replace := map_option (\<lambda>r. retypographize r c real) (it_replace it)\<rparr>,
                [\<lparr>fx_file = it_file it, fx_find_chars = length wanted, fx_changed_chars = changed_chars real c\<rparr>])
           | _ \<Rightarrow> (it, []))
      | _ \<Rightarrow> (it, []))"

definition canonicalize_edits :: "fetched \<Rightarrow> edit_item list \<Rightarrow> edit_item list \<times> fix_entry list" where
  "canonicalize_edits files items =
     (map (fst \<circ> canonical_item files) items, concat (map (snd \<circ> canonical_item files) items))"

section \<open>The find that is put in applies\<close>

lemma set_positions: "i \<in> set (positions p s) \<longleftrightarrow> p \<noteq> [] \<and> i < length s \<and> take (length p) (drop i s) = p"
  by (auto simp: positions_def)

lemma distinct_positions: "distinct (positions p s)"
  by (simp add: positions_def)

lemma norm_take_drop: "normalize_typographic (take n (drop i s)) = take n (drop i (normalize_typographic s))"
  by (simp add: normalize_typographic_def take_map drop_map)

lemma length_norm [simp]: "length (normalize_typographic s) = length s"
  by (simp add: normalize_typographic_def)

lemma positions_norm: "set (positions p s) \<subseteq> set (positions (normalize_typographic p) (normalize_typographic s))"
proof
  fix i assume i: "i \<in> set (positions p s)"
  then have "normalize_typographic (take (length p) (drop i s)) = normalize_typographic p" by (simp add: set_positions)
  then have "take (length (normalize_typographic p)) (drop i (normalize_typographic s)) = normalize_typographic p"
    by (simp add: norm_take_drop)
  moreover have "normalize_typographic p \<noteq> []" "i < length (normalize_typographic s)"
    using i by (auto simp: set_positions normalize_typographic_def)
  ultimately show "i \<in> set (positions (normalize_typographic p) (normalize_typographic s))" unfolding set_positions by blast
qed

lemma singleton_positions: "set xs = {a} \<Longrightarrow> distinct xs \<Longrightarrow> xs = [a]"
  by (cases xs; cases "tl xs") auto

lemma normalized_unique:
  assumes "positions (normalize_typographic c) (normalize_typographic content) = [at]"
  defines "real \<equiv> take (length (normalize_typographic c)) (drop at content)"
  shows "positions real content = [at] \<and> normalize_typographic real = normalize_typographic c"
proof -
  have "at \<in> set (positions (normalize_typographic c) (normalize_typographic content))" unfolding assms(1) by simp
  then have at: "c \<noteq> []" "at < length content" "take (length c) (drop at (normalize_typographic content)) = normalize_typographic c"
    unfolding set_positions by (auto simp: normalize_typographic_def)
  have n: "normalize_typographic real = normalize_typographic c" using at(3) by (simp add: real_def norm_take_drop)
  then have len: "length real = length c" by (metis length_norm)
  have "at \<in> set (positions real content)" using at len by (auto simp: set_positions real_def)
  moreover have "set (positions real content) \<subseteq> {at}" using positions_norm [of real content] unfolding n assms(1) by simp
  ultimately have "set (positions real content) = {at}" by blast
  from singleton_positions [OF this distinct_positions] n show ?thesis by (rule conjI)
qed

lemma try_unique:
  "try_candidates content amb cs = Normalized real c \<Longrightarrow>
   c \<in> set cs \<and> length (positions real content) = 1 \<and> normalize_typographic real = normalize_typographic c"
proof (induction content amb cs rule: try_candidates.induct)
  case (2 content amb c' cs)
  then show ?case using normalized_unique [of c' content] by (auto split: list.splits)
qed (simp split: if_splits)

lemma resolve_unique:
  assumes "resolve_find content wanted = Normalized real c"
  shows "positions wanted content = [] \<and> length (positions real content) = 1
    \<and> normalize_typographic real = normalize_typographic c \<and> (c = wanted \<or> c = decode_escapes wanted)"
proof -
  let ?cs = "(if decode_escapes wanted \<noteq> wanted then [decode_escapes wanted] else []) @ [wanted]"
  have t: "try_candidates content False ?cs = Normalized real c" and p: "positions wanted content = []"
    using assms by (auto simp: resolve_find_def split: if_splits)
  show ?thesis using try_unique [OF t] p by (auto split: if_splits)
qed

text \<open>C37: Canonicalising touches no item but an edit whose find is not in its file; there it puts a text of the file that equals the find
  up to typographic characters and escapes and occurs exactly once, so that the edit applies.\<close>

theorem canonical_edit_applies:
  assumes "fst (canonicalize_edits files items) ! k \<noteq> items ! k" "k < length items"
  shows "\<exists>wanted content real c. it_edit (items ! k) \<and> it_find (items ! k) = Some wanted \<and> content_of files (it_file (items ! k)) = Some content
    \<and> positions wanted content = [] \<and> it_find (fst (canonicalize_edits files items) ! k) = Some real \<and> length (positions real content) = 1
    \<and> normalize_typographic real = normalize_typographic c \<and> (c = wanted \<or> c = decode_escapes wanted)"
proof -
  let ?it = "items ! k"
  have e: "fst (canonicalize_edits files items) ! k = fst (canonical_item files ?it)" using assms(2) by (simp add: canonicalize_edits_def)
  then obtain wanted content real c where r: "it_edit ?it" "it_find ?it = Some wanted" "content_of files (it_file ?it) = Some content"
    "resolve_find content wanted = Normalized real c"
    using assms(1) by (auto simp: canonical_item_def split: bool.splits option.splits resolved.splits)
  then have "it_find (fst (canonical_item files ?it)) = Some real" by (simp add: canonical_item_def)
  then show ?thesis using resolve_unique [OF r(4)] r e by auto
qed

section \<open>The replacement keeps its text\<close>

definition no_pairs :: "u16 list \<Rightarrow> bool" where
  "no_pairs s \<longleftrightarrow> list_all (\<lambda>c. \<not> high_half c) s"

lemma code_points_single: "no_pairs s \<Longrightarrow> code_points s = map (\<lambda>c. [c]) s"
  by (induction s rule: code_points.induct) (auto simp: no_pairs_def)

lemma concat_single [simp]: "concat (map (\<lambda>c. [c]) s) = s"
  by (induction s) auto

text \<open>\<open>spells n xs\<close>: \<open>xs\<close> is a list of single units whose normal form is \<open>n\<close>.\<close>

definition spells :: "u16 list \<Rightarrow> u16 list list \<Rightarrow> bool" where
  "spells n xs \<longleftrightarrow> (\<exists>s. xs = map (\<lambda>c. [c]) s \<and> normalize_typographic s = n)"

lemma spells_put: "spells n xs \<Longrightarrow> k < length n \<Longrightarrow> norm_unit c = n ! k \<Longrightarrow> spells n (put_at k c xs)"
  unfolding spells_def
  by (auto simp: put_at_def normalize_typographic_def map_update list_update_same_conv intro!: exI [of _ "s[k := c]" for s])

lemma spells_fold: "(\<And>x xs. x \<in> set ps \<Longrightarrow> spells n xs \<Longrightarrow> spells n (f x xs)) \<Longrightarrow> spells n xs \<Longrightarrow> spells n (fold f ps xs)"
  by (induction ps arbitrary: xs) auto

lemma spells_restore:
  assumes "spells n xs" "i < length real" shows "spells n (restore_at n real i xs)"
  unfolding restore_at_def
proof (rule spells_fold [OF _ assms(1)], clarify)
  fix s e and xs :: "u16 list list"
  assume a: "(s, e) \<in> set (anchors (length real) i)" "spells n xs"
  let ?p = "take (e - s) (drop s (normalize_typographic real))"
  have se: "s \<le> i" "i < e" using a(1) assms(2) by (auto simp: anchors_def CONTEXT_RADIUS_def)
  have "spells n (fold (\<lambda>at. put_at (at + (i - s)) (real ! i)) (positions ?p n) xs)"
  proof (rule spells_fold [OF _ a(2)])
    fix at ys assume p: "at \<in> set (positions ?p n)" and ys: "spells n ys"
    have len: "i - s < length ?p" using se assms(2) by auto
    have m: "take (length ?p) (drop at n) = ?p" using p by (simp add: set_positions)
    have "length q \<le> length n - at" if "take (length q) (drop at n) = q" for q using that by (metis length_drop length_take min.cobounded1)
    from this [OF m] have "length ?p \<le> length n - at" .
    then have k: "at + (i - s) < length n" using len by linarith
    have "n ! (at + (i - s)) = take (length ?p) (drop at n) ! (i - s)" using len k by simp
    also have "\<dots> = ?p ! (i - s)" using m by simp
    also have "\<dots> = norm_unit (real ! i)" using se len assms(2) by (simp add: normalize_typographic_def)
    finally show "spells n (put_at (at + (i - s)) (real ! i) ys)" using spells_put [OF ys k] by simp
  qed
  then show "spells n (let p = ?p in if length p < 3 then xs else fold (\<lambda>at. put_at (at + (i - s)) (real ! i)) (positions p n) xs)"
    using a(2) by (simp add: Let_def)
qed

text \<open>C38: Giving a replacement its typographic characters back changes nothing but these: without surrogate pairs, its text stays the
  same up to typographic characters.\<close>

theorem replacement_keeps_text:
  assumes "no_pairs (decode_escapes replace)"
  shows "normalize_typographic (retypographize replace candidate real) = normalize_typographic (decode_escapes replace)"
proof -
  let ?r = "decode_escapes replace" and ?n = "normalize_typographic (decode_escapes replace)"
  have c: "code_points ?r = map (\<lambda>c. [c]) ?r" by (rule code_points_single [OF assms])
  have "spells ?n (map (\<lambda>c. [c]) ?r)" by (auto simp: spells_def)
  then have "spells ?n (fold (\<lambda>i xs. if \<not> typo (real ! i) \<or> (i < length candidate \<and> candidate ! i = real ! i) then xs else restore_at ?n real i xs)
      [0..<length real] (map (\<lambda>c. [c]) ?r))"
    by (rule spells_fold [rotated]) (auto intro: spells_restore)
  then show ?thesis unfolding retypographize_def Let_def c concat_single by (auto simp: spells_def)
qed


text \<open>A file \<open>a\<close> with a curly quote, an edit that writes a straight one.\<close>

definition CURLY :: fetched where
  "CURLY = [(Some [0x61], Some [0x69, 0x74, 0x2019, 0x73])]"

definition STRAIGHT :: edit_item where
  "STRAIGHT = \<lparr>it_edit = True, it_file = Some [0x61], it_find = Some [0x69, 0x74, 0x27, 0x73], it_replace = Some [0x69, 0x74, 0x27, 0x73, 0x21]\<rparr>"

lemma canonical_edit_applies_witness:
  "\<exists>real. it_find (fst (canonicalize_edits CURLY [STRAIGHT]) ! 0) = Some real \<and> length (positions real [0x69, 0x74, 0x2019, 0x73]) = 1"
proof -
  have c: "content_of CURLY (it_file STRAIGHT) = Some [0x69, 0x74, 0x2019, 0x73]" by code_simp
  have "it_find (fst (canonicalize_edits CURLY [STRAIGHT]) ! 0) \<noteq> it_find STRAIGHT" by code_simp
  then have "fst (canonicalize_edits CURLY [STRAIGHT]) ! 0 \<noteq> [STRAIGHT] ! 0" by auto
  then show ?thesis using canonical_edit_applies [of CURLY "[STRAIGHT]" 0] c by auto
qed

lemma replacement_keeps_text_witness:
  "normalize_typographic (retypographize [0x69, 0x74, 0x27, 0x73] [0x69, 0x74, 0x27, 0x73] [0x69, 0x74, 0x2019, 0x73]) = [0x69, 0x74, 0x27, 0x73]"
proof -
  have "no_pairs (decode_escapes [0x69, 0x74, 0x27, 0x73])" by code_simp
  then show ?thesis using replacement_keeps_text by (simp add: normalize_typographic_def norm_unit_def TYPO_MAP_def)
qed

end
