(* ===== verification/Escalations.thy ===== *)
theory Escalations
  imports ApplyRetry Forensics
begin

text \<open>
  What a task that the apply-retry sweep escalates does to the forensics: the sweep writes the questions of a diverged
  history as a list, and the signature of a waiting task reads them as one string.
\<close>

lemma zero_hit_append: "zero_hit_search hs = Returns False \<Longrightarrow> zero_hit_search (hs @ hs') = zero_hit_search hs'"
  by (induction hs) (auto split: if_splits)

text \<open>Questions that are a list make the signature throw, unless the block reason or the reason of the question decides first.\<close>

lemma question_list_throws:
  assumes "\<not> nullish task" "has_zero_hit_harness_search task = Returns False"
    "find_terminal (rev (elems (jget task ''history''))) = Returns terminal"
    "categorize_blocked_reason (jget task ''blockedReason'') = Returns None"
    "categorize_blocked_reason (jget (jget task ''needsClarification'') ''reason'') = Returns None"
    "is_array (jget (jget task ''needsClarification'') ''openQuestions'')"
  shows "signature_for_clarification_task task = Throws"
proof -
  let ?b = "jget task ''blockedReason''" and ?nc = "jget task ''needsClarification''"
  obtain qs where q: "jget ?nc ''openQuestions'' = JArr qs" using assms(6) by (cases "jget ?nc ''openQuestions''") auto
  have "categorize_blocked_reason (JArr qs) = Throws" by (simp add: categorize_blocked_reason_def lower_reason_def)
  then have "first_category (haystacks task terminal) = Throws"
    using assms(4, 5) q by (simp add: haystacks_def Let_def)
  then show ?thesis
    using assms(1, 2, 3) by (simp add: signature_for_clarification_task_def Let_def)
qed

text \<open>One such task makes the whole search for clusters throw.\<close>

lemma by_signature_throws: "t \<in> set ts \<Longrightarrow> sig t = Throws \<Longrightarrow> by_signature sig ts acc = Throws"
proof (induction ts arbitrary: acc)
  case (Cons u ts)
  then show ?case by (cases "sig u") auto
qed simp

lemma clusters_throw:
  "t \<in> set ts \<Longrightarrow> signature_for_clarification_task t = Throws \<Longrightarrow> find_clarification_clusters ts coverage now = Throws"
  by (simp add: find_clarification_clusters_def clusters_of_def by_signature_throws)

definition diverged_task :: "string \<Rightarrow> jv \<Rightarrow> jv" where
  "diverged_task now task = (case rt_place (diverged_step now \<lparr>rw_approved = True, rw_clarify = True, rw_pipeline = True, rw_cloneClean = (\<lambda>_. True),
     rw_resolved = (\<lambda>_. Returns False), rw_recheck = (\<lambda>_. None), rw_repo = (\<lambda>_. None)\<rparr> task) of MovedTo d t \<Rightarrow> t | _ \<Rightarrow> task)"

lemma diverged_place: "rt_place (diverged_step now w task) = MovedTo ''needs-clarification'' (diverged_task now task)"
  by (simp add: diverged_task_def diverged_step_def)

lemma reason_git_state: "categorize_blocked_reason (JStr ''git-state-diverged'') = Returns None"
  by code_simp

lemma diverged_task_throws:
  assumes "keyed task" "json_value task" "zero_hit_search (elems (jget task ''history'')) = Returns False"
    "categorize_blocked_reason (jget task ''blockedReason'') = Returns None"
  shows "signature_for_clarification_task (json_image (diverged_task now task)) = Throws"
proof -
  define nc where "nc = JObj [(''reason'', JStr ''git-state-diverged''), (''openQuestions'', JArr
      [JStr (''Apply failed because the pipeline's own working checkout and origin/<main> have diverged (each has commits the other lacks) -- a git-state problem, not a content/draft-quality one: '' @ reason_text task),
       JStr (''A fresh redraft cannot fix this -- the SAME diverged branch will reject any diff. Reconcile the branch by hand (confirm which side''
         @ '' has the real intended history, then either fast-forward, rebase, or reset the working checkout to match), then requeue this task.'')])]"
  define asked where "asked = obj_put task ''needsClarification'' nc"
  define e where "e = with_detail (Some ''escalated immediately -- diverged git history, a blind retry cannot differ'')
      (JObj [(''stage'', JStr ''needs-clarification''), (''at'', JStr now)])"
  let ?t = "diverged_task now task"
  have t: "?t = append_history_event now ''needs-clarification'' (Some ''escalated immediately -- diverged git history, a blind retry cannot differ'') asked"
    by (simp add: diverged_task_def diverged_step_def asked_def nc_def)
  have st: "''needs-clarification'' \<notin> set COLLAPSIBLE_REPEAT_STAGES" by (simp add: COLLAPSIBLE_REPEAT_STAGES_def)
  have k: "keyed asked" and v: "json_value asked" using assms(1, 2) by (simp_all add: asked_def nc_def)
  have im: "json_image ?t = ?t" unfolding t by (rule json_image_id(1) [OF json_value_append_history [OF v st]])
  have hist: "elems (jget ?t ''history'') = elems (jget task ''history'') @ [e]"
    unfolding t using append_history_last [OF k st] assms(1) by (simp add: e_def asked_def jget_put)
  have f: "jget ?t ''blockedReason'' = jget task ''blockedReason''" "jget ?t ''needsClarification'' = nc"
    unfolding t using append_history_frame [OF k] assms(1) by (simp_all add: asked_def jget_put)
  have e: "jget e ''stage'' = JStr ''needs-clarification''" "\<not> nullish e"
    by (simp_all add: e_def with_detail_def nullish_def)
  have "keyed ?t" unfolding t using k by simp
  then have nn: "\<not> nullish ?t" by (cases ?t) (auto simp: nullish_def)
  have zero: "has_zero_hit_harness_search ?t = Returns False"
    using zero_hit_append [OF assms(3)] e by (simp add: has_zero_hit_harness_search_def hist)
  have latest: "find_terminal (rev (elems (jget ?t ''history''))) = Returns e"
    using e by (simp add: hist)
  show ?thesis
    unfolding im by (rule question_list_throws [OF nn zero latest])
      (use assms(4) reason_git_state in \<open>simp_all add: f nc_def\<close>)
qed

text \<open>The sweep and the forensics do not agree on the form of a question: a task that the sweep escalates for a diverged
  history, and whose block reason names no known category, is written to \<open>needs-clarification\<close>, and while it waits there
  the search for clusters of waiting tasks throws, whatever else waits.\<close>

theorem escalation_jams_forensics:
  assumes "keyed task" "json_value task" "zero_hit_search (elems (jget task ''history'')) = Returns False"
    "categorize_blocked_reason (jget task ''blockedReason'') = Returns None"
    "is_diverged_history_failure task" "\<not> is_infra_apply_failure task" "\<not> is_git_timeout_failure task" "rw_clarify w"
    "some_stage ''needs-clarification'' (elems (jget task ''history'')) = Returns False"
  shows "\<exists>t. rt_place (retry_task now w name task) = MovedTo ''needs-clarification'' t
    \<and> (\<forall>waiting coverage clock. json_image t \<in> set waiting \<longrightarrow> find_clarification_clusters waiting coverage clock = Throws)"
proof -
  have "is_apply_failure task" using assms(5) by (simp add: is_diverged_history_failure_def)
  moreover have "\<not> nullish task" using assms(1) by (cases task) (auto simp: nullish_def)
  ultimately have "retry_task now w name task = diverged_step now w task"
    using assms(5-9) by (simp add: retry_task_def)
  then show ?thesis
    using clusters_throw [OF _ diverged_task_throws [OF assms(1-4)]] by (auto simp: diverged_place)
qed

definition DIVERGED_FAILURE :: jv where
  "DIVERGED_FAILURE = JObj [(''blockedStage'', JStr ''apply''),
     (''blockedReason'', JStr ''have diverged (each has commit(s) the other lacks) -- needs a human to reconcile'')]"

lemma diverged_reason: "to_lower (reason_text DIVERGED_FAILURE) = ''have diverged (each has commit(s) the other lacks) -- needs a human to reconcile''"
  by code_simp

lemma diverged_failure_kind: "is_diverged_history_failure DIVERGED_FAILURE"
proof -
  have "re_test GIT_DIVERGED_RE (reason_text DIVERGED_FAILURE)"
    unfolding GIT_DIVERGED_RE_def re_test_liti diverged_reason by code_simp
  then show ?thesis by (simp add: is_diverged_history_failure_def is_apply_failure_def DIVERGED_FAILURE_def)
qed

lemma diverged_failure_no_timeout: "\<not> re_test GIT_TIMEOUT_RE (reason_text DIVERGED_FAILURE)"
proof -
  have "\<not> re_test (re_liti ''git '') (reason_text DIVERGED_FAILURE)" unfolding re_test_liti diverged_reason by code_simp
  then have "\<not> re_test (re_all (WordB # re_liti ''git '' # r # rs)) (reason_text DIVERGED_FAILURE)" for r rs
    using re_test_prefix re_test_second by (metis re_all.simps(3))
  moreover have "\<not> re_test (re_liti ''spawnSync git ETIMEDOUT'') (reason_text DIVERGED_FAILURE)"
    unfolding re_test_liti diverged_reason by code_simp
  ultimately show ?thesis unfolding GIT_TIMEOUT_RE_def re_any.simps re_test_alt by blast
qed

lemma diverged_failure_no_infra: "\<not> re_test INFRA_APPLY_RE (reason_text DIVERGED_FAILURE)"
  unfolding INFRA_APPLY_RE_def re_any.simps re_test_alt re_test_liti diverged_reason by code_simp

lemma diverged_failure_uncategorized: "categorize_blocked_reason (jget DIVERGED_FAILURE ''blockedReason'') = Returns None"
  by code_simp

lemma escalation_jams_forensics_witness:
  "\<exists>t. rt_place (retry_task ''now'' CALM_WORLD ''x.json'' DIVERGED_FAILURE) = MovedTo ''needs-clarification'' t
    \<and> find_clarification_clusters [json_image t] (JObj []) (Fin 0) = Throws"
proof -
  have "keyed DIVERGED_FAILURE" "json_value DIVERGED_FAILURE" "elems (jget DIVERGED_FAILURE ''history'') = []" "rw_clarify CALM_WORLD"
    by (simp_all add: DIVERGED_FAILURE_def CALM_WORLD_def)
  moreover have "\<not> is_git_timeout_failure DIVERGED_FAILURE" "\<not> is_infra_apply_failure DIVERGED_FAILURE"
    using diverged_failure_no_timeout diverged_failure_no_infra
    by (simp_all add: is_git_timeout_failure_def is_infra_apply_failure_def is_git_timeout_apply_failure_def)
  ultimately show ?thesis
    using escalation_jams_forensics [of DIVERGED_FAILURE CALM_WORLD "''now''" "''x.json''"] diverged_failure_kind diverged_failure_uncategorized by auto
qed

end
