(* ===== verification/LaneHealth.thy ===== *)
theory LaneHealth
  imports Lanes JsDate
begin

text \<open>
  \<open>src/lane-health.js\<close>: a lane is probed while it is idle and judged against its own past speed. The
  state file of a lane holds what this module writes: samples, the time a probe was started and the
  time of the last inconclusive one; times are kept as the millisecond clock they print. The
  inference server (\<open>probe\<close>, \<open>resident\<close>) and the GPU lease (\<open>leased\<close>) are parameters. The wording of
  a verdict is the datatype \<open>health_reason\<close> with the numbers it prints.
\<close>

section \<open>Heartbeats\<close>

text \<open>\<open>JSON.parse(fs.readFileSync(<lane>.json))\<close>: throws when the file is missing or does not parse.
  A heartbeat that is JSON \<open>null\<close> throws at the next property read, inside the same \<open>try\<close>.\<close>

type_synonym heartbeats = "string \<Rightarrow> jv outcome"

definition HEARTBEAT_FRESH_MS :: real where "HEARTBEAT_FRESH_MS = 90000"

definition heartbeat_fresh :: "jv \<Rightarrow> real \<Rightarrow> bool" where
  "heartbeat_fresh hb now \<longleftrightarrow>
     (case date_parse (jget hb ''lastHeartbeat'') of
        Fin t \<Rightarrow> 0 \<le> now - t \<and> now - t \<le> HEARTBEAT_FRESH_MS
      | _ \<Rightarrow> False)"

text \<open>\<open>laneIdleNow\<close>, and \<open>laneIdleFromHeartbeat\<close> of \<open>src/capability-routing.js\<close>, which is the same test.\<close>

definition lane_idle_now :: "heartbeats \<Rightarrow> string \<Rightarrow> real \<Rightarrow> bool" where
  "lane_idle_now hbs lane_id now \<longleftrightarrow>
     (case hbs lane_id of
        Throws \<Rightarrow> False
      | Returns hb \<Rightarrow> \<not> nullish hb \<and> jget hb ''status'' = JStr ''idle'' \<and> heartbeat_fresh hb now)"

section \<open>Configuration and state\<close>

definition MAX_SAMPLES :: nat where "MAX_SAMPLES = 50"
definition FRESH_MS :: real where "FRESH_MS = 30 * 60 * 1000"
definition MIN_BASELINE_SAMPLES :: nat where "MIN_BASELINE_SAMPLES = 3"

definition health_num :: "env \<Rightarrow> string \<Rightarrow> real \<Rightarrow> real" where
  "health_num e k dflt =
     (case e k of
        None \<Rightarrow> dflt
      | Some s \<Rightarrow> if s = [] then dflt
                  else (case str_to_number s of Fin n \<Rightarrow> if 0 < n then n else dflt | _ \<Rightarrow> dflt))"

record health_cfg =
  hc_enabled :: bool
  hc_intervalMs :: real
  hc_minFraction :: real
  hc_timeoutMs :: real

definition health_config :: "env \<Rightarrow> health_cfg" where
  "health_config e =
     \<lparr>hc_enabled = (to_lower (trim (env_str e ''AGENT_MANAGER_LANE_HEALTH'')) \<noteq> ''off''),
      hc_intervalMs = health_num e ''AGENT_MANAGER_LANE_HEALTH_INTERVAL_SECS'' 600 * 1000,
      hc_minFraction = min 1 (health_num e ''AGENT_MANAGER_LANE_HEALTH_MIN_FRACTION'' (1 / 2)),
      hc_timeoutMs = health_num e ''AGENT_MANAGER_LANE_HEALTH_TIMEOUT_SECS'' 90 * 1000\<rparr>"

record health_sample =
  hs_at :: real
  hs_ok :: bool
  hs_tps :: real
  hs_totalMs :: real
  hs_error :: "string option"

record health_state =
  st_samples :: "health_sample list"
  st_probingSince :: "real option"
  st_lastInconclusiveAt :: "real option"

type_synonym health_store = "string \<Rightarrow> health_state option"

definition no_state :: health_state where
  "no_state = \<lparr>st_samples = [], st_probingSince = None, st_lastInconclusiveAt = None\<rparr>"

definition read_state :: "health_store \<Rightarrow> string \<Rightarrow> health_state" where
  "read_state store i = (case store i of Some s \<Rightarrow> s | None \<Rightarrow> no_state)"

definition read_samples :: "health_store \<Rightarrow> string \<Rightarrow> health_sample list" where
  "read_samples store i = st_samples (read_state store i)"

definition write_state :: "health_store \<Rightarrow> string \<Rightarrow> health_state \<Rightarrow> health_store" where
  "write_state store i s = store(i \<mapsto> s)"

section \<open>The verdict\<close>

definition percentile :: "real list \<Rightarrow> real \<Rightarrow> real option" where
  "percentile xs q =
     (if xs = [] then None else Some (xs ! min (length xs - 1) (nat \<lfloor>q * real (length xs)\<rfloor>)))"

datatype health_reason = NoSamples | ProbeFailed string | SlowVsBaseline real real | HealthOk

record verdict =
  vd_baseline :: "real option"
  vd_latest :: "health_sample option"
  vd_degraded :: bool
  vd_reason :: health_reason

definition good_speeds :: "health_sample list \<Rightarrow> real list" where
  "good_speeds samples = sort (map hs_tps (filter (\<lambda>s. hs_ok s \<and> 0 < hs_tps s) samples))"

definition baseline_of :: "health_sample list \<Rightarrow> real option" where
  "baseline_of samples =
     (let good = good_speeds samples
      in if MIN_BASELINE_SAMPLES \<le> length good then percentile good (3 / 4) else None)"

definition assess :: "health_sample list \<Rightarrow> health_cfg \<Rightarrow> verdict" where
  "assess samples cfg =
     (let baseline = baseline_of samples
      in if samples = [] then \<lparr>vd_baseline = baseline, vd_latest = None, vd_degraded = False, vd_reason = NoSamples\<rparr>
         else let latest = last samples
         in if \<not> hs_ok latest
            then \<lparr>vd_baseline = baseline, vd_latest = Some latest, vd_degraded = True,
                  vd_reason = ProbeFailed (case hs_error latest of Some m \<Rightarrow> if m = [] then ''no response'' else m
                                           | None \<Rightarrow> ''no response'')\<rparr>
         else (case baseline of
                 Some b \<Rightarrow>
                   if b \<noteq> 0 \<and> hs_tps latest < b * hc_minFraction cfg
                   then \<lparr>vd_baseline = baseline, vd_latest = Some latest, vd_degraded = True,
                         vd_reason = SlowVsBaseline (hs_tps latest) b\<rparr>
                   else \<lparr>vd_baseline = baseline, vd_latest = Some latest, vd_degraded = False, vd_reason = HealthOk\<rparr>
               | None \<Rightarrow> \<lparr>vd_baseline = baseline, vd_latest = Some latest, vd_degraded = False, vd_reason = HealthOk\<rparr>))"

definition lane_degraded :: "health_cfg \<Rightarrow> health_store \<Rightarrow> string \<Rightarrow> real \<Rightarrow> bool" where
  "lane_degraded cfg store lane_id now =
     (if \<not> hc_enabled cfg then False
      else let samples = read_samples store lane_id
           in if samples = [] \<or> FRESH_MS < now - hs_at (last samples) then False
              else vd_degraded (assess samples cfg))"

text \<open>\<open>laneDegradedBetween\<close>, the bounds being the two parsed times.\<close>

definition lane_degraded_between :: "health_cfg \<Rightarrow> health_store \<Rightarrow> string \<Rightarrow> jnum \<Rightarrow> jnum \<Rightarrow> bool" where
  "lane_degraded_between cfg store lane_id from_t to_t =
     (case (from_t, to_t) of
        (Fin f, Fin t) \<Rightarrow>
          (let samples = read_samples store lane_id
           in \<exists>i\<in>set [0..<length samples].
                f - hc_intervalMs cfg \<le> hs_at (samples ! i) \<and> hs_at (samples ! i) \<le> t + hc_intervalMs cfg
                \<and> vd_degraded (assess (take (i + 1) samples) cfg))
      | _ \<Rightarrow> False)"

section \<open>Probing\<close>

record probe_result =
  pr_ok :: bool
  pr_tps :: real
  pr_totalMs :: real
  pr_error :: "string option"

text \<open>\<open>probeEndpoint\<close>: the answer of the server, or the message of what was thrown, after \<open>elapsed\<close>
  milliseconds.\<close>

definition probe_endpoint :: "string + jv \<Rightarrow> real \<Rightarrow> probe_result" where
  "probe_endpoint answer elapsed =
     (case answer of
        Inl message \<Rightarrow> \<lparr>pr_ok = False, pr_tps = 0, pr_totalMs = elapsed, pr_error = Some (take 120 message)\<rparr>
      | Inr r \<Rightarrow>
          (let tps = (case (to_number (if truthy r then jget r ''eval_duration'' else r),
                            to_number (if truthy r then jget r ''eval_count'' else r)) of
                        (Fin ns, Fin n) \<Rightarrow> if 0 < ns \<and> 0 < n then n / (ns / 1000000000) else 0
                      | _ \<Rightarrow> 0)
           in \<lparr>pr_ok = (0 < tps), pr_tps = tps, pr_totalMs = elapsed,
               pr_error = (if 0 < tps then None else Some ''no tokens reported'')\<rparr>))"

text \<open>\<open>residentModels\<close>: the response's \<open>ok\<close> flag and its body.\<close>

definition resident_models :: "(bool \<times> jv) outcome \<Rightarrow> string list option" where
  "resident_models res =
     (case res of
        Throws \<Rightarrow> None
      | Returns (ok, body) \<Rightarrow>
          if \<not> ok then None
          else Some (filter (\<lambda>s. s \<noteq> [])
                 (map (\<lambda>m. let v = (if \<not> truthy m then m else if truthy (jget m ''name'') then jget m ''name'' else jget m ''model'')
                           in if truthy v then to_str v else [])
                    (elems (jget body ''models'')))))"

datatype probe_out =
    SkippedResident string "string list" string
  | Inconclusive string "string option" "string list"
  | Probed string health_sample bool health_reason

datatype health_event =
    InconclusiveEvent string string "string option" "string list"
  | VerdictEvent string string real bool bool health_reason bool

record probe_world =
  pw_env :: env
  pw_now :: real
  pw_hbs :: heartbeats
  pw_overrides :: "string \<Rightarrow> string option"
  pw_leased :: "string \<Rightarrow> bool"
  pw_before :: "string \<Rightarrow> string list option"
  pw_after :: "string \<Rightarrow> string list option"
  pw_probe :: "string \<Rightarrow> string \<Rightarrow> lane \<Rightarrow> probe_result"

record probe_state =
  ps_store :: health_store
  ps_log :: "health_event list"
  ps_out :: "probe_out list"

definition or_str :: "string option \<Rightarrow> string \<Rightarrow> string" where
  "or_str s d = (case s of Some v \<Rightarrow> if v = [] then d else v | None \<Rightarrow> d)"

definition probe_url :: "probe_world \<Rightarrow> lane \<Rightarrow> string" where
  "probe_url w l =
     or_str (lane_url l) (or_str (pw_env w ''AGENT_MANAGER_HOST_OLLAMA_URL'')
       (or_str (pw_env w ''OLLAMA_URL'') ''http://localhost:11434''))"

text \<open>The \<open>continue\<close>s before the server is asked anything.\<close>

definition probe_due :: "probe_world \<Rightarrow> health_cfg \<Rightarrow> health_state \<Rightarrow> lane \<Rightarrow> bool" where
  "probe_due w cfg st l =
     (if ln_provider l \<noteq> OllamaProvider then False
      else if effective_lane_model l (pw_overrides w) = None \<or> \<not> lane_idle_now (pw_hbs w) (ln_id l) (pw_now w) then False
      else if pw_leased w (probe_url w l) then False
      else if st_samples st \<noteq> [] \<and> pw_now w - hs_at (last (st_samples st)) < hc_intervalMs cfg then False
      else if (case st_lastInconclusiveAt st of Some t \<Rightarrow> pw_now w - t < hc_intervalMs cfg | None \<Rightarrow> False) then False
      else if (case st_probingSince st of Some t \<Rightarrow> pw_now w - t < hc_timeoutMs cfg + 15000 | None \<Rightarrow> False) then False
      else True)"

definition last_samples :: "nat \<Rightarrow> 'a list \<Rightarrow> 'a list" where
  "last_samples n xs = drop (length xs - n) xs"

definition probe_lane :: "probe_world \<Rightarrow> health_cfg \<Rightarrow> lane \<Rightarrow> probe_state \<Rightarrow> probe_state" where
  "probe_lane w cfg l s =
     (let i = ln_id l; st = read_state (ps_store s) i; url = probe_url w l;
          model = (case effective_lane_model l (pw_overrides w) of Some m \<Rightarrow> m | None \<Rightarrow> [])
      in if \<not> probe_due w cfg st l then s
         else if (case pw_before w url of Some ms \<Rightarrow> ms \<noteq> [] \<and> model \<notin> set ms | None \<Rightarrow> False)
         then s\<lparr>ps_out := ps_out s @ [SkippedResident i (the (pw_before w url)) model]\<rparr>
         else
           let store1 = write_state (ps_store s) i (st\<lparr>st_probingSince := Some (pw_now w)\<rparr>);
               r = pw_probe w url model l
           in if \<not> pr_ok r \<and> (case pw_after w url of Some ms \<Rightarrow> model \<notin> set ms | None \<Rightarrow> False)
              then s\<lparr>ps_store := write_state store1 i
                        \<lparr>st_samples = st_samples st, st_probingSince = None, st_lastInconclusiveAt = Some (pw_now w)\<rparr>,
                      ps_log := ps_log s @ [InconclusiveEvent i model (pr_error r) (the (pw_after w url))],
                      ps_out := ps_out s @ [Inconclusive i (pr_error r) (the (pw_after w url))]\<rparr>
              else
                let sample = \<lparr>hs_at = pw_now w, hs_ok = pr_ok r, hs_tps = of_int \<lfloor>pr_tps r * 100 + 1 / 2\<rfloor> / 100,
                              hs_totalMs = pr_totalMs r, hs_error = pr_error r\<rparr>;
                    next = last_samples MAX_SAMPLES (st_samples st @ [sample]);
                    v = assess next cfg;
                    was = (if st_samples st = [] then False else vd_degraded (assess (st_samples st) cfg))
                in s\<lparr>ps_store := write_state store1 i
                       \<lparr>st_samples = next, st_probingSince = None, st_lastInconclusiveAt = None\<rparr>,
                     ps_log := ps_log s @ [VerdictEvent i model (hs_tps sample) (hs_ok sample) (vd_degraded v) (vd_reason v)
                                             (vd_degraded v \<noteq> was)],
                     ps_out := ps_out s @ [Probed i sample (vd_degraded v) (vd_reason v)]\<rparr>)"

definition run_due_probes :: "probe_world \<Rightarrow> lane list \<Rightarrow> health_store \<Rightarrow> probe_state" where
  "run_due_probes w lanes store =
     (let cfg = health_config (pw_env w); s0 = \<lparr>ps_store = store, ps_log = [], ps_out = []\<rparr>
      in if \<not> hc_enabled cfg then s0 else fold (probe_lane w cfg) lanes s0)"

section \<open>The baseline\<close>

lemma percentile_in: "percentile xs q = Some b \<Longrightarrow> b \<in> set xs"
  by (cases xs) (auto simp: percentile_def simp del: list.set intro!: nth_mem)

lemma baseline_positive:
  assumes "baseline_of samples = Some b"
  shows "0 < b"
proof -
  have "b \<in> set (good_speeds samples)"
    using assms percentile_in by (auto simp: baseline_of_def Let_def split: if_splits)
  then show ?thesis by (auto simp: good_speeds_def)
qed

lemma baseline_measured:
  assumes "baseline_of samples = Some b"
  obtains s where "s \<in> set samples" and "hs_ok s" and "hs_tps s = b"
proof -
  have "b \<in> set (good_speeds samples)"
    using assms percentile_in by (auto simp: baseline_of_def Let_def split: if_splits)
  then show ?thesis using that by (auto simp: good_speeds_def)
qed

lemma assess_degraded:
  "vd_degraded (assess samples cfg) \<longleftrightarrow>
     samples \<noteq> [] \<and>
     (\<not> hs_ok (last samples) \<or>
      (\<exists>b. baseline_of samples = Some b \<and> hs_tps (last samples) < b * hc_minFraction cfg))"
  by (auto simp: assess_def Let_def split: option.splits dest: baseline_positive)

section \<open>What a round of probes keeps\<close>

definition samples_bounded :: "health_store \<Rightarrow> bool" where
  "samples_bounded store \<longleftrightarrow> (\<forall>i. length (read_samples store i) \<le> MAX_SAMPLES)"

lemma length_last_samples: "length (last_samples n xs) \<le> n"
  by (simp add: last_samples_def)

lemma read_samples_write:
  "read_samples (write_state store i st) j = (if j = i then st_samples st else read_samples store j)"
  by (simp add: read_samples_def read_state_def write_state_def)

lemma probe_lane_bounded:
  "samples_bounded (ps_store s) \<Longrightarrow> samples_bounded (ps_store (probe_lane w cfg l s))"
  using length_last_samples [of MAX_SAMPLES]
  by (auto simp: probe_lane_def Let_def samples_bounded_def read_samples_write)
     (auto simp: read_samples_def)

lemma fold_invariant: "(\<And>x s. x \<in> set xs \<Longrightarrow> P s \<Longrightarrow> P (f x s)) \<Longrightarrow> P s \<Longrightarrow> P (fold f xs s)"
  by (induction xs arbitrary: s) auto

text \<open>A lane that is not due keeps its state, and no lane touches another's.\<close>

lemma probe_lane_frame:
  "j \<noteq> ln_id l \<Longrightarrow> ps_store (probe_lane w cfg l s) j = ps_store s j"
  by (auto simp: probe_lane_def Let_def write_state_def)

lemma probe_lane_not_due:
  "\<not> probe_due w cfg (read_state (ps_store s) (ln_id l)) l \<Longrightarrow> probe_lane w cfg l s = s"
  by (simp add: probe_lane_def Let_def)

text \<open>After a lane was probed in this round it is not due again, so each lane is probed once.\<close>

definition recently_probed :: "real \<Rightarrow> health_state \<Rightarrow> bool" where
  "recently_probed now st \<longleftrightarrow>
     (st_samples st \<noteq> [] \<and> hs_at (last (st_samples st)) = now) \<or> st_lastInconclusiveAt st = Some now"

lemma last_samples_snoc [simp]:
  "last_samples MAX_SAMPLES (xs @ [x]) = [] \<longleftrightarrow> False"
  "last (last_samples MAX_SAMPLES (xs @ [x])) = x"
  by (simp_all add: last_samples_def MAX_SAMPLES_def)

lemma not_due_when_recent:
  "0 < hc_intervalMs cfg \<Longrightarrow> recently_probed (pw_now w) st \<Longrightarrow> \<not> probe_due w cfg st l"
  by (auto simp: recently_probed_def probe_due_def)

lemma probe_lane_changes:
  assumes "ps_store (probe_lane w cfg l s) (ln_id l) \<noteq> ps_store s (ln_id l)"
  shows "recently_probed (pw_now w) (read_state (ps_store (probe_lane w cfg l s)) (ln_id l))"
  using assms
  by (simp add: probe_lane_def Let_def write_state_def read_state_def recently_probed_def split: if_split_asm)

lemma probed_not_due:
  assumes "0 < hc_intervalMs cfg"
    and "ps_store (probe_lane w cfg l s) (ln_id l) \<noteq> ps_store s (ln_id l)"
  shows "\<not> probe_due w cfg (read_state (ps_store (probe_lane w cfg l s)) (ln_id l)) l'"
  using assms by (intro not_due_when_recent probe_lane_changes)

end
