(* ===== verification/CapabilityRouting.thy ===== *)
theory CapabilityRouting
  imports PremiumRotation LaneHealth
begin

text \<open>
  \<open>src/capability-routing.js\<close>: a lane may leave a task, for a bounded grace, to a smaller lane that
  has proven itself on the task's source. A scorecard row summarises the recorded attempts of one
  source and model. The hash that selects probes is the parameter \<open>probe_hash\<close> (SHA-1 over the task
  and the lane, scaled to the unit interval), as are the liveness tests of other lanes.
\<close>

record score_row =
  sr_source :: string
  sr_model :: string
  sr_tier :: "jnum option"
  sr_n :: nat
  sr_okRate :: real
  sr_lower :: real
  sr_failStreak :: nat

datatype routing_mode = ModeOff | ModeShadow | ModeEnforce

record routing_cfg =
  rc_mode :: routing_mode
  rc_minAttempts :: real
  rc_margin :: real
  rc_minOkRate :: real
  rc_graceMs :: real
  rc_windowDays :: real
  rc_probeFraction :: real
  rc_probeMaxFailStreak :: real

text \<open>\<open>num(raw, dflt)\<close>: an unset, empty or non-finite variable is the default.\<close>

definition env_num :: "env \<Rightarrow> string \<Rightarrow> real \<Rightarrow> real" where
  "env_num e k dflt =
     (case e k of
        None \<Rightarrow> dflt
      | Some s \<Rightarrow> if s = [] then dflt else (case str_to_number s of Fin q \<Rightarrow> q | _ \<Rightarrow> dflt))"

definition routing_config :: "env \<Rightarrow> routing_cfg" where
  "routing_config e =
     (let raw = env_str e ''AGENT_MANAGER_CAPABILITY_ROUTING'';
          mode = to_lower (if raw = [] then ''shadow'' else raw)
      in \<lparr>rc_mode = (if mode = ''off'' then ModeOff else if mode = ''enforce'' then ModeEnforce else ModeShadow),
          rc_minAttempts = env_num e ''AGENT_MANAGER_CAPABILITY_MIN_ATTEMPTS'' 8,
          rc_margin = env_num e ''AGENT_MANAGER_CAPABILITY_MARGIN'' (1 / 10),
          rc_minOkRate = env_num e ''AGENT_MANAGER_CAPABILITY_MIN_OK_RATE'' (85 / 100),
          rc_graceMs = max 0 (env_num e ''AGENT_MANAGER_RESERVATION_GRACE_SECS'' 300) * 1000,
          rc_windowDays = env_num e ''AGENT_MANAGER_CAPABILITY_WINDOW_DAYS'' 14,
          rc_probeFraction = min 1 (max 0 (env_num e ''AGENT_MANAGER_PROBE_FRACTION'' (1 / 10))),
          rc_probeMaxFailStreak = env_num e ''AGENT_MANAGER_PROBE_MAX_FAIL_STREAK'' 3\<rparr>)"

section \<open>Qualification\<close>

definition row_for :: "lane \<Rightarrow> jv \<Rightarrow> score_row list \<Rightarrow> score_row option" where
  "row_for lane source rows = find (\<lambda>r. JStr (sr_source r) = source \<and> Some (sr_model r) = ln_model lane) rows"

definition tier_above :: "jnum option \<Rightarrow> jnum option \<Rightarrow> bool" where
  "tier_above big small = (case (big, small) of (Some b, Some s) \<Rightarrow> jlt s b | _ \<Rightarrow> False)"

definition passes_gate :: "lane \<Rightarrow> jv \<Rightarrow> score_row list \<Rightarrow> routing_cfg \<Rightarrow> bool" where
  "passes_gate lane source rows cfg =
     (case row_for lane source rows of
        None \<Rightarrow> False
      | Some mine \<Rightarrow>
          if real (sr_n mine) < rc_minAttempts cfg then False
          else
            let refs = filter (\<lambda>r. JStr (sr_source r) = source \<and> tier_above (sr_tier r) (ln_tier lane)
                                 \<and> rc_minAttempts cfg \<le> real (sr_n r)) rows
            in if refs \<noteq> [] then Max (set (map sr_lower refs)) - rc_margin cfg \<le> sr_lower mine
               else rc_minOkRate cfg \<le> sr_okRate mine)"

datatype evidence = Allowlist | Scorecard | Probe

definition qualification :: "lane \<Rightarrow> jv \<Rightarrow> score_row list \<Rightarrow> routing_cfg \<Rightarrow> evidence option" where
  "qualification lane source rows cfg =
     (if ln_reserve lane = ReserveNever then None
      else if \<not> lane_allows_source (Some lane) source then None
      else if ln_reserve lane = ReserveAlways \<and> ln_taskClasses lane \<noteq> None then Some Allowlist
      else if passes_gate lane source rows cfg then Some Scorecard else None)"

section \<open>Probes\<close>

definition probe_eligible :: "jv \<Rightarrow> jv \<Rightarrow> jv option \<Rightarrow> bool" where
  "probe_eligible task source registered_probe =
     (if \<not> truthy task \<or> \<not> truthy source \<or> truthy (jget task ''humanQueued'') \<or> truthy (jget task ''premiumPriority'')
         \<or> truthy (jget task ''pinnedWorker'') then False
      else if source = JStr ''adhoc'' \<or> registered_probe = Some (JBool False) then False
      else True)"

definition probe_selected ::
  "(string \<Rightarrow> string \<Rightarrow> real) \<Rightarrow> jv \<Rightarrow> jv \<Rightarrow> jv option \<Rightarrow> lane \<Rightarrow> lane list \<Rightarrow> score_row list \<Rightarrow> routing_cfg \<Rightarrow> bool \<Rightarrow> bool" where
  "probe_selected probe_hash task source registered_probe lane lanes rows cfg degraded =
     (if degraded \<or> \<not> 0 < rc_probeFraction cfg \<or> \<not> probe_eligible task source registered_probe then False
      else if ln_tier lane = None \<or> ln_reserve lane = ReserveNever then False
      else if \<not> (\<exists>l\<in>set lanes. ln_id l \<noteq> ln_id lane \<and> tier_above (ln_tier l) (ln_tier lane)) then False
      else if qualification lane source rows cfg \<noteq> None then False
      else if (case row_for lane source rows of
                 None \<Rightarrow> False | Some mine \<Rightarrow> rc_probeMaxFailStreak cfg \<le> real (sr_failStreak mine)) then False
      else probe_hash (if truthy (jget task ''id'') then to_str (jget task ''id'') else []) (ln_id lane)
           < rc_probeFraction cfg)"

section \<open>Reservations\<close>

record reservation =
  rv_holder :: string
  rv_tier :: jnum
  rv_evidence :: evidence

record lane_views =
  lv_alive :: "string \<Rightarrow> bool"
  lv_avoided :: "string \<Rightarrow> bool"
  lv_probing :: "lane \<Rightarrow> bool"
  lv_idle :: "string \<Rightarrow> bool"

definition evidence_for :: "lane_views \<Rightarrow> lane \<Rightarrow> jv \<Rightarrow> score_row list \<Rightarrow> routing_cfg \<Rightarrow> evidence option" where
  "evidence_for v l source rows cfg =
     (case qualification l source rows cfg of
        Some q \<Rightarrow> Some q
      | None \<Rightarrow> if lv_probing v l \<and> lv_idle v (ln_id l) then Some Probe else None)"

fun reservation_candidates ::
  "lane_views \<Rightarrow> lane \<Rightarrow> jnum \<Rightarrow> jv \<Rightarrow> score_row list \<Rightarrow> routing_cfg \<Rightarrow> lane list \<Rightarrow> reservation list" where
  "reservation_candidates v this my_tier source rows cfg [] = []"
| "reservation_candidates v this my_tier source rows cfg (l # ls) =
     (let rest = reservation_candidates v this my_tier source rows cfg ls
      in case ln_tier l of
           None \<Rightarrow> rest
         | Some t \<Rightarrow>
             if ln_id l = ln_id this \<or> \<not> jlt t my_tier then rest
             else if lv_avoided v (ln_id l) \<or> \<not> lv_alive v (ln_id l) then rest
             else (case evidence_for v l source rows cfg of
                     None \<Rightarrow> rest
                   | Some ev \<Rightarrow> \<lparr>rv_holder = ln_id l, rv_tier = t, rv_evidence = ev\<rparr> # rest))"

definition compare_tier :: "reservation \<Rightarrow> reservation \<Rightarrow> jnum" where
  "compare_tier a b = jsub (rv_tier a) (rv_tier b)"

definition decide_reservation ::
  "lane_views \<Rightarrow> jv \<Rightarrow> lane option \<Rightarrow> lane list \<Rightarrow> score_row list \<Rightarrow> real \<Rightarrow> routing_cfg \<Rightarrow> reservation option" where
  "decide_reservation v source this_lane lanes rows age_ms cfg =
     (case this_lane of
        None \<Rightarrow> None
      | Some this \<Rightarrow>
          (case ln_tier this of
             None \<Rightarrow> None
           | Some my_tier \<Rightarrow>
               if \<not> truthy source \<or> rc_graceMs cfg \<le> age_ms then None
               else (case js_sort compare_tier (reservation_candidates v this my_tier source rows cfg lanes) of
                       [] \<Rightarrow> None | c # _ \<Rightarrow> Some c)))"

interpretation tier_order: comparator compare_tier "\<lambda>r. rv_tier r \<noteq> NaN" rv_tier
  by unfold_locales (simp add: compare_tier_def sub_front)

lemma reservation_candidate_iff:
  "r \<in> set (reservation_candidates v this my_tier source rows cfg ls) \<longleftrightarrow>
     (\<exists>l\<in>set ls. ln_id l \<noteq> ln_id this \<and> ln_tier l = Some (rv_tier r) \<and> jlt (rv_tier r) my_tier
        \<and> \<not> lv_avoided v (ln_id l) \<and> lv_alive v (ln_id l)
        \<and> evidence_for v l source rows cfg = Some (rv_evidence r) \<and> rv_holder r = ln_id l
        \<and> reservation.more r = ())"
  by (induction ls) (auto simp: Let_def split: option.splits if_splits)

lemma reservation_candidate_tier:
  "r \<in> set (reservation_candidates v this my_tier source rows cfg ls) \<Longrightarrow> rv_tier r \<noteq> NaN"
  by (auto simp: reservation_candidate_iff)

lemma decide_reservation_Some:
  assumes "decide_reservation v source (Some this) lanes rows age cfg = Some r"
  obtains my_tier where "ln_tier this = Some my_tier" and "truthy source" and "age < rc_graceMs cfg"
    and "r \<in> set (reservation_candidates v this my_tier source rows cfg lanes)"
    and "\<forall>c\<in>set (reservation_candidates v this my_tier source rows cfg lanes). rv_tier r \<le> rv_tier c"
proof -
  from assms obtain my_tier rest where t: "ln_tier this = Some my_tier" "truthy source" "age < rc_graceMs cfg"
    and s: "js_sort compare_tier (reservation_candidates v this my_tier source rows cfg lanes) = r # rest"
    by (auto simp: decide_reservation_def split: option.splits if_splits list.splits)
  let ?cs = "reservation_candidates v this my_tier source rows cfg lanes"
  have ok: "\<forall>c\<in>set ?cs. rv_tier c \<noteq> NaN" by (auto dest: reservation_candidate_tier)
  have "r \<in> set ?cs" using s by (metis list.set_intros(1) set_js_sort)
  moreover have "\<forall>c\<in>set ?cs. rv_tier r \<le> rv_tier c"
    using tier_order.head_least [OF ok s] by blast
  ultimately show thesis using t that by blast
qed

section \<open>Heartbeats, the scorecard cache and the audit\<close>

definition lane_alive_from_heartbeat :: "health_cfg \<Rightarrow> health_store \<Rightarrow> heartbeats \<Rightarrow> string \<Rightarrow> real \<Rightarrow> bool" where
  "lane_alive_from_heartbeat hcfg store hbs lane_id now =
     (case hbs lane_id of
        Throws \<Rightarrow> False
      | Returns hb \<Rightarrow>
          if nullish hb \<or> jget hb ''status'' = JStr ''disabled'' then False
          else if \<not> heartbeat_fresh hb now then False
          else \<not> lane_degraded hcfg store lane_id now)"

definition lane_idle_from_heartbeat :: "heartbeats \<Rightarrow> string \<Rightarrow> real \<Rightarrow> bool" where
  "lane_idle_from_heartbeat hbs lane_id now =
     (case hbs lane_id of
        Throws \<Rightarrow> False
      | Returns hb \<Rightarrow> \<not> nullish hb \<and> jget hb ''status'' = JStr ''idle'' \<and> heartbeat_fresh hb now)"

definition SCORECARD_TTL_MS :: real where "SCORECARD_TTL_MS = 60000"

text \<open>\<open>cachedScorecard\<close>: one entry per pipeline directory; \<open>read\<close> is the scorecard of the ledger.\<close>

type_synonym scorecard_cache = "string \<Rightarrow> (real \<times> score_row list) option"

definition cached_scorecard ::
  "score_row list outcome \<Rightarrow> string \<Rightarrow> real \<Rightarrow> scorecard_cache \<Rightarrow> score_row list \<times> scorecard_cache" where
  "cached_scorecard read dir now cache =
     (case cache dir of
        Some (made, rows) \<Rightarrow> if now - made < SCORECARD_TTL_MS then (rows, cache)
                          else (let r = catch read [] in (r, cache(dir \<mapsto> (now, r))))
      | None \<Rightarrow> (let r = catch read [] in (r, cache(dir \<mapsto> (now, r)))))"

text \<open>\<open>auditReservation\<close>: one event per task, lane and holder, remembered in a file that keeps the 500
  newest keys. The file is the list of keys with their times in insertion order; the event goes to
  the pipeline log.\<close>

record audit_entry =
  ae_mode :: routing_mode
  ae_action :: string
  ae_taskId :: string
  ae_source :: jv
  ae_lane :: string
  ae_holder :: string
  ae_evidence :: evidence

record audit_log =
  al_seen :: "(string \<times> real) list"
  al_events :: "audit_entry list"

definition audit_key :: "audit_entry \<Rightarrow> string" where
  "audit_key a = ae_taskId a @ ''|'' @ ae_lane a @ ''|'' @ ae_holder a"

definition compare_seen :: "string \<times> real \<Rightarrow> string \<times> real \<Rightarrow> jnum" where
  "compare_seen a b = jsub (Fin (snd a)) (Fin (snd b))"

definition drop_oldest :: "nat \<Rightarrow> (string \<times> real) list \<Rightarrow> (string \<times> real) list" where
  "drop_oldest keep seen =
     (if keep < length seen
      then let gone = map fst (take (length seen - keep) (js_sort compare_seen seen))
           in filter (\<lambda>p. fst p \<notin> set gone) seen
      else seen)"

definition audit_reservation :: "real \<Rightarrow> audit_entry \<Rightarrow> audit_log \<Rightarrow> audit_log" where
  "audit_reservation now a lg =
     (let key = audit_key a
      in if (case map_of (al_seen lg) key of Some t \<Rightarrow> t \<noteq> 0 | None \<Rightarrow> False) then lg
         else lg\<lparr>al_seen := drop_oldest 500 (kv_put (al_seen lg) key now), al_events := al_events lg @ [a]\<rparr>)"

interpretation seen_order: comparator compare_seen "\<lambda>_. True" snd
  by unfold_locales (simp add: compare_seen_def)

lemma drop_oldest_length:
  assumes "distinct (map fst seen)"
  shows "length (drop_oldest keep seen) \<le> keep"
proof (cases "keep < length seen")
  case True
  let ?old = "take (length seen - keep) (js_sort compare_seen seen)"
  have inj: "inj_on fst (set seen)" and d: "distinct (map fst (js_sort compare_seen seen))"
    using assms by (auto simp: distinct_map)
  then have "card (set (map fst ?old)) = length seen - keep"
    by (metis distinct_card distinct_take length_js_sort length_map length_take min.absorb2 diff_le_self take_map)
  moreover have "set (map fst ?old) \<subseteq> set (map fst seen)"
    using set_take_subset [of _ "js_sort compare_seen seen"] by fastforce
  moreover have "set (map fst (filter (\<lambda>p. fst p \<notin> set (map fst ?old)) seen)) = set (map fst seen) - set (map fst ?old)"
    by auto
  moreover have "length (filter (\<lambda>p. fst p \<notin> set (map fst ?old)) seen)
      = card (set (map fst (filter (\<lambda>p. fst p \<notin> set (map fst ?old)) seen)))"
    using assms by (metis distinct_card distinct_map_filter length_map)
  ultimately have "length (filter (\<lambda>p. fst p \<notin> set (map fst ?old)) seen) = card (set (map fst seen)) - (length seen - keep)"
    by (metis (no_types, lifting) card_Diff_subset finite_set)
  moreover have "card (set (map fst seen)) = length seen"
    using assms by (metis distinct_card length_map)
  ultimately show ?thesis using True by (simp add: drop_oldest_def Let_def)
qed (simp add: drop_oldest_def)

definition audit_bounded :: "audit_log \<Rightarrow> bool" where
  "audit_bounded lg \<longleftrightarrow> distinct (map fst (al_seen lg)) \<and> length (al_seen lg) \<le> 500"

lemma audit_reservation_bounded: "audit_bounded lg \<Longrightarrow> audit_bounded (audit_reservation now a lg)"
  using drop_oldest_length [OF kv_put_distinct]
  by (auto simp: audit_bounded_def audit_reservation_def Let_def drop_oldest_def kv_put_distinct intro!: distinct_map_filter)

section \<open>Escalation\<close>

text \<open>\<open>escalationLane\<close>: an attempt that timed out, degenerated or errored on a lane with a bigger one
  above it is steered away. The outcome class of the attempt is computed by the ledger.\<close>

definition escalation_lane :: "env \<Rightarrow> jv \<Rightarrow> string \<Rightarrow> lane list \<Rightarrow> string option" where
  "escalation_lane e attempt outcome_class lanes =
     (if off e ''AGENT_MANAGER_LANE_ESCALATION'' then None
      else if \<not> truthy attempt \<or> \<not> is_string (jget attempt ''lane'')
              \<or> outcome_class \<notin> set [''timeout'', ''degenerate'', ''error''] then None
      else (case lane_by_id (str_of (jget attempt ''lane'')) lanes of
              None \<Rightarrow> None
            | Some mine \<Rightarrow>
                if ln_tier mine = None then None
                else if (\<exists>l\<in>set lanes. ln_id l \<noteq> ln_id mine \<and> tier_above (ln_tier l) (ln_tier mine))
                then Some (ln_id mine) else None))"

end
