(* ===== verification/HubPriority.thy ===== *)
theory HubPriority
  imports JsSort
begin

text \<open>
  \<open>src/hub-priority.js\<close>: the order of hub work. A hub record lives in \<open>queue/coordinating/<id>.json\<close>;
  the queue is a map from a directory and a file's id to the JSON it parses to, with \<open>None\<close> for a file
  that is missing or does not parse. A hub's key is its explicit priority, how many of its pieces are
  left, and its creation time; the same key orders generation and claims. A piece waits for the
  unmerged pieces listed before it.
\<close>

type_synonym queue_store = "string \<Rightarrow> string \<Rightarrow> jv option"

section \<open>The hub of a task and the key of a hub\<close>

definition UNRANKED_HUB_PRIORITY :: jnum where
  "UNRANKED_HUB_PRIORITY = Fin 1000000000"

definition HUB_TIER_PRIORITY :: jnum where
  "HUB_TIER_PRIORITY = Fin (- 1000)"

text \<open>An explicit priority is a whole number, also from a numeric string; anything else is no ranking.\<close>

definition normalize_hub_priority :: "jv \<Rightarrow> jnum option" where
  "normalize_hub_priority v =
     (if v = JNull \<or> v = JUndef \<or> v = JStr [] then None
      else let n = (case v of JNum m \<Rightarrow> m | _ \<Rightarrow> to_number v)
           in if \<not> is_finite n then None else Some (jtrunc n))"

definition hub_id_for_task :: "jv \<Rightarrow> string option" where
  "hub_id_for_task task =
     (if \<not> truthy task then None
      else let ph = jget task ''parentHub''
           in if is_string ph \<and> trim (str_of ph) \<noteq> [] then Some (trim (str_of ph))
              else let ctx = jget task ''promptContext''; df = jget ctx ''decomposedFrom''
                   in if truthy ctx \<and> is_string df \<and> trim (str_of df) \<noteq> [] then Some (trim (str_of df))
                      else None)"

definition remaining_pieces :: "jv \<Rightarrow> jnum option" where
  "remaining_pieces hub =
     (let p = jget hub ''progress''; total = jget p ''total''; built = jget p ''built''
      in if truthy hub \<and> truthy p \<and> fin_number total \<and> fin_number built
         then Some (max (Fin 0) (jsub (to_number total) (to_number built)))
         else None)"

record hub_key =
  hk_found :: bool
  hk_rank :: jnum
  hk_createdAt :: "string option"
  hk_remaining :: "jnum option"

definition no_hub :: hub_key where
  "no_hub = \<lparr>hk_found = False, hk_rank = UNRANKED_HUB_PRIORITY, hk_createdAt = None, hk_remaining = None\<rparr>"

text \<open>The body of \<open>readHubOrderKey\<close> without its cache. Reading a property of a record that is JSON
  \<open>null\<close> throws inside the \<open>try\<close>, which leaves the not-found key.\<close>

definition hub_key_of_record :: "jv \<Rightarrow> hub_key" where
  "hub_key_of_record hub =
     (if nullish hub then no_hub
      else \<lparr>hk_found = True,
            hk_rank = (case normalize_hub_priority (jget hub ''hubPriority'') of
                         None \<Rightarrow> UNRANKED_HUB_PRIORITY | Some n \<Rightarrow> n),
            hk_createdAt = (case jget hub ''createdAt'' of JStr s \<Rightarrow> Some s | _ \<Rightarrow> None),
            hk_remaining = remaining_pieces hub\<rparr>)"

definition lookup_hub_key :: "queue_store \<Rightarrow> string \<Rightarrow> hub_key" where
  "lookup_hub_key q hub_id =
     (case q ''coordinating'' hub_id of None \<Rightarrow> no_hub | Some hub \<Rightarrow> hub_key_of_record hub)"

text \<open>\<open>readHubOrderKey(pipelineDir, hubId, cache)\<close>: the cache is a map the callers share over one pass.\<close>

type_synonym hub_cache = "string \<rightharpoonup> hub_key"

definition read_hub_order_key :: "queue_store \<Rightarrow> string option \<Rightarrow> hub_cache \<Rightarrow> hub_key \<times> hub_cache" where
  "read_hub_order_key q hub_id cache =
     (case hub_id of
        None \<Rightarrow> (no_hub, cache)
      | Some h \<Rightarrow>
          if h = [] then (no_hub, cache)
          else (case cache h of
                  Some k \<Rightarrow> (k, cache)
                | None \<Rightarrow> let k = lookup_hub_key q h in (k, cache(h \<mapsto> k))))"

definition hub_order_key_for_task :: "queue_store \<Rightarrow> jv \<Rightarrow> hub_cache \<Rightarrow> hub_key \<times> hub_cache" where
  "hub_order_key_for_task q task cache = read_hub_order_key q (hub_id_for_task task) cache"

section \<open>Comparing keys\<close>

text \<open>\<open>compareHubKeys\<close>. A missing or empty creation time is replaced by the greatest string, which is
  the absent value here; an unknown or absent number of remaining pieces is infinity.\<close>

definition remaining_num :: "hub_key \<Rightarrow> jnum" where
  "remaining_num k = (case hk_remaining k of Some n \<Rightarrow> if is_finite n then n else PInf | None \<Rightarrow> PInf)"

definition created_key :: "hub_key \<Rightarrow> bool \<times> string" where
  "created_key k = (case hk_createdAt k of Some s \<Rightarrow> if s = [] then (True, []) else (False, s) | None \<Rightarrow> (True, []))"

definition compare_hub_keys :: "hub_key \<Rightarrow> hub_key \<Rightarrow> jnum" where
  "compare_hub_keys a b =
     (if hk_rank a \<noteq> hk_rank b then jsub (hk_rank a) (hk_rank b)
      else if remaining_num a \<noteq> remaining_num b
           then (if jlt (remaining_num a) (remaining_num b) then Fin (- 1) else Fin 1)
      else if created_key a < created_key b then Fin (- 1)
      else if created_key b < created_key a then Fin 1
      else Fin 0)"

definition hub_sort_key :: "hub_key \<Rightarrow> jnum \<times> jnum \<times> bool \<times> string" where
  "hub_sort_key k = (hk_rank k, remaining_num k, created_key k)"

lemma remaining_num_not_NaN [simp]: "remaining_num k \<noteq> NaN"
  by (auto simp: remaining_num_def dest: is_finite_not_NaN split: option.splits)

lemma compare_hub_keys_front:
  assumes "hk_rank a \<noteq> NaN" and "hk_rank b \<noteq> NaN"
  shows "keeps_front (compare_hub_keys a b) \<longleftrightarrow> hub_sort_key a \<le> hub_sort_key b"
  using assms
  by (auto simp: compare_hub_keys_def hub_sort_key_def sub_front jlt_eq_less less_eq_prod_def less_prod_def
      not_less order.strict_iff_order)

interpretation hub_order: comparator compare_hub_keys "\<lambda>k. hk_rank k \<noteq> NaN" hub_sort_key
  by unfold_locales (rule compare_hub_keys_front)

lemma jtrunc_finite: "is_finite n \<Longrightarrow> jtrunc n \<noteq> NaN"
  by (cases n) auto

lemma rank_of_record [simp]: "hk_rank (hub_key_of_record hub) \<noteq> NaN"
  by (auto simp: hub_key_of_record_def no_hub_def UNRANKED_HUB_PRIORITY_def normalize_hub_priority_def
      Let_def jtrunc_finite split: option.splits if_splits)

lemma rank_of_lookup [simp]: "hk_rank (lookup_hub_key q h) \<noteq> NaN"
  by (auto simp: lookup_hub_key_def no_hub_def UNRANKED_HUB_PRIORITY_def split: option.splits)

section \<open>The cache of keys\<close>

definition cache_ok :: "queue_store \<Rightarrow> hub_cache \<Rightarrow> bool" where
  "cache_ok q c \<longleftrightarrow> (\<forall>h k. c h = Some k \<longrightarrow> k = lookup_hub_key q h)"

definition hub_key_spec :: "queue_store \<Rightarrow> string option \<Rightarrow> hub_key" where
  "hub_key_spec q hub_id = (case hub_id of None \<Rightarrow> no_hub | Some h \<Rightarrow> if h = [] then no_hub else lookup_hub_key q h)"

lemma cache_ok_empty [simp]: "cache_ok q Map.empty"
  by (simp add: cache_ok_def)

lemma read_hub_order_key_value:
  "cache_ok q c \<Longrightarrow> fst (read_hub_order_key q h c) = hub_key_spec q h"
  by (auto simp: read_hub_order_key_def hub_key_spec_def cache_ok_def Let_def split: option.splits)

lemma read_hub_order_key_cache:
  "cache_ok q c \<Longrightarrow> cache_ok q (snd (read_hub_order_key q h c))"
  by (auto simp: read_hub_order_key_def cache_ok_def Let_def split: option.splits)

lemma hub_key_spec_rank [simp]: "hk_rank (hub_key_spec q h) \<noteq> NaN"
  by (auto simp: hub_key_spec_def no_hub_def UNRANKED_HUB_PRIORITY_def split: option.splits)

section \<open>Waiting for an earlier piece\<close>

definition SIBLING_RESOLVED_STATUSES :: "string list" where
  "SIBLING_RESOLVED_STATUSES =
     [''merged'', ''applied-direct'', ''filed'', ''dismissed'', ''noop'', ''abandoned'', ''superseded'', ''aged-out'', ''gone'']"

text \<open>\<open>siblingIsOnStackedBranch\<close>: the first of the three directories that holds a readable record of the
  sibling decides, whatever that record says.\<close>

definition sibling_dirs :: "string list" where
  "sibling_dirs = [''done'', ''done/_archived_no_action'', ''coordinating'']"

fun stacked_in_dirs :: "queue_store \<Rightarrow> string list \<Rightarrow> string \<Rightarrow> jv \<Rightarrow> bool" where
  "stacked_in_dirs q [] sib branch = False"
| "stacked_in_dirs q (d # ds) sib branch =
     (case q d sib of
        None \<Rightarrow> stacked_in_dirs q ds sib branch
      | Some rec \<Rightarrow> truthy rec \<and> truthy (jget rec ''stacked'') \<and> strict_eq (jget (jget rec ''stacked'') ''branch'') branch)"

definition sibling_is_on_stacked_branch :: "queue_store \<Rightarrow> jv \<Rightarrow> jv \<Rightarrow> bool" where
  "sibling_is_on_stacked_branch q sib branch =
     (if \<not> truthy sib \<or> \<not> truthy branch then False else stacked_in_dirs q sibling_dirs (str_of sib) branch)"

datatype sibling_verdict = NotBlocked | BlockedBy jv jv

text \<open>The loop over the pieces listed before the task, in order.\<close>

fun scan_siblings :: "queue_store \<Rightarrow> jv \<Rightarrow> jv list \<Rightarrow> sibling_verdict" where
  "scan_siblings q branch [] = NotBlocked"
| "scan_siblings q branch (sib # sibs) =
     (let status = jget sib ''status''
      in if \<not> truthy sib \<or> \<not> truthy status then scan_siblings q branch sibs
         else if \<not> (is_string status \<and> str_of status \<in> set SIBLING_RESOLVED_STATUSES)
         then (if truthy branch \<and> status = JStr ''pending-merge''
                  \<and> sibling_is_on_stacked_branch q (jget sib ''id'') branch
               then scan_siblings q branch sibs
               else BlockedBy (jget sib ''id'') status)
         else scan_siblings q branch sibs)"

fun find_index :: "('a \<Rightarrow> bool) \<Rightarrow> 'a list \<Rightarrow> nat option" where
  "find_index P [] = None"
| "find_index P (x # xs) = (if P x then Some 0 else map_option Suc (find_index P xs))"

text \<open>\<open>hubHasUnmergedEarlierSibling(pipelineDir, task, hubRecord)\<close>. A hub file holding JSON \<open>null\<close> gets
  past the \<open>try\<close> around the read, and reading its \<open>subTasks\<close> then throws.\<close>

definition hub_has_unmerged_earlier_sibling :: "queue_store \<Rightarrow> jv \<Rightarrow> jv option \<Rightarrow> sibling_verdict outcome" where
  "hub_has_unmerged_earlier_sibling q task hub_record =
     (case hub_id_for_task task of
        None \<Rightarrow> Returns NotBlocked
      | Some hub_id \<Rightarrow>
          (case jget task ''id'' of
             JStr task_id \<Rightarrow>
               if task_id = [] then Returns NotBlocked else
               (case (case hub_record of Some h \<Rightarrow> if truthy h then Some h else q ''coordinating'' hub_id
                                       | None \<Rightarrow> q ''coordinating'' hub_id) of
                  None \<Rightarrow> Returns NotBlocked
                | Some hub \<Rightarrow>
                    if nullish hub then Throws
                    else
                      let sub_tasks = elems (jget hub ''subTasks'');
                          my_branch = (let st = jget task ''stacked''
                                       in if truthy st \<and> truthy (jget st ''branch'') then jget st ''branch'' else JNull)
                      in (case find_index (\<lambda>s. truthy s \<and> jget s ''id'' = JStr task_id) sub_tasks of
                            None \<Rightarrow> Returns NotBlocked
                          | Some 0 \<Rightarrow> Returns NotBlocked
                          | Some i \<Rightarrow> Returns (scan_siblings q my_branch (take i sub_tasks))))
           | _ \<Rightarrow> Returns NotBlocked))"

text \<open>\<open>orderCandidate\<close>, \<open>siblingHolds\<close> and \<open>isHubTierTask\<close>, the kernel's default ordering bundle.\<close>

definition order_candidate :: "queue_store \<Rightarrow> jv \<Rightarrow> hub_cache \<Rightarrow> (bool \<times> hub_key) \<times> hub_cache" where
  "order_candidate q task cache =
     (let (k, cache') = hub_order_key_for_task q task cache
      in (((truthy task \<and> truthy (jget task ''atomic'')) \<or> hk_found k, k), cache'))"

definition sibling_holds :: "queue_store \<Rightarrow> jv \<Rightarrow> jv option \<Rightarrow> bool outcome" where
  "sibling_holds q task hub_record =
     and_then (hub_has_unmerged_earlier_sibling q task hub_record) (\<lambda>v. Returns (v \<noteq> NotBlocked))"

definition is_hub_tier_task :: "queue_store \<Rightarrow> jv \<Rightarrow> hub_cache \<Rightarrow> bool \<times> hub_cache" where
  "is_hub_tier_task q task cache = (let ((w, k), cache') = order_candidate q task cache in (w, cache'))"

subsection \<open>What blocks a piece\<close>

text \<open>A piece is still open when it has a status that is not resolved and it is not waiting for its merge
  on the very branch the asking task is stacked on.\<close>

definition sibling_open :: "queue_store \<Rightarrow> jv \<Rightarrow> jv \<Rightarrow> bool" where
  "sibling_open q branch sib \<longleftrightarrow>
     truthy sib \<and> truthy (jget sib ''status'')
     \<and> \<not> (\<exists>s \<in> set SIBLING_RESOLVED_STATUSES. jget sib ''status'' = JStr s)
     \<and> \<not> (truthy branch \<and> jget sib ''status'' = JStr ''pending-merge''
            \<and> sibling_is_on_stacked_branch q (jget sib ''id'') branch)"

lemma resolved_status_iff:
  "is_string st \<and> str_of st \<in> set ss \<longleftrightarrow> (\<exists>s\<in>set ss. st = JStr s)"
  by (cases st) auto

lemma scan_siblings_cons:
  "scan_siblings q branch (sib # sibs) =
     (if sibling_open q branch sib then BlockedBy (jget sib ''id'') (jget sib ''status'')
      else scan_siblings q branch sibs)"
  by (simp add: sibling_open_def Let_def resolved_status_iff del: scan_siblings.simps(2) str_of.simps is_string.simps
      add: scan_siblings.simps(2)) blast

lemmas scan_siblings_rules = scan_siblings.simps(1) scan_siblings_cons

lemma scan_siblings_find:
  "scan_siblings q branch sibs =
     (case find (sibling_open q branch) sibs of
        None \<Rightarrow> NotBlocked | Some s \<Rightarrow> BlockedBy (jget s ''id'') (jget s ''status''))"
  by (induction sibs) (simp_all add: scan_siblings_cons del: scan_siblings.simps(2))

lemma scan_siblings_blocked:
  "scan_siblings q branch sibs \<noteq> NotBlocked \<longleftrightarrow> (\<exists>s\<in>set sibs. sibling_open q branch s)"
  by (auto simp: scan_siblings_find find_None_iff find_Some_iff split: option.splits)

lemma find_index_Some:
  "find_index P xs = Some i \<Longrightarrow> i < length xs \<and> P (xs ! i) \<and> (\<forall>j<i. \<not> P (xs ! j))"
proof (induction xs arbitrary: i)
  case Nil
  then show ?case by simp
next
  case (Cons x xs)
  then show ?case
    by (auto split: if_splits simp: less_Suc_eq_0_disj)
qed

lemma order_candidate_value:
  assumes "cache_ok q c"
  shows "fst (order_candidate q task c)
         = ((truthy task \<and> truthy (jget task ''atomic'')) \<or> hk_found (hub_key_spec q (hub_id_for_task task)),
            hub_key_spec q (hub_id_for_task task))"
    and "cache_ok q (snd (order_candidate q task c))"
  using read_hub_order_key_value [OF assms, of "hub_id_for_task task"]
    read_hub_order_key_cache [OF assms, of "hub_id_for_task task"]
  by (auto simp: order_candidate_def hub_order_key_for_task_def split: prod.splits)

section \<open>The ordering hook a source may supply\<close>

text \<open>\<open>registered.hubOrder || DEFAULT_HUB_ORDER\<close>: a source may bring its own ordering bundle. What the
  claim order relies on is this contract: the answer does not depend on what the shared cache already
  holds, the cache stays coherent, and a rank is never NaN.\<close>

locale ordering_hook =
  fixes hook :: "queue_store \<Rightarrow> jv \<Rightarrow> hub_cache \<Rightarrow> (bool \<times> hub_key) \<times> hub_cache"
    and answer :: "queue_store \<Rightarrow> jv \<Rightarrow> bool \<times> hub_key"
  assumes hook_answer: "cache_ok q c \<Longrightarrow> fst (hook q task c) = answer q task"
    and hook_cache: "cache_ok q c \<Longrightarrow> cache_ok q (snd (hook q task c))"
    and hook_rank: "hk_rank (snd (answer q task)) \<noteq> NaN"
begin

lemma cache_irrelevant: "cache_ok q c \<Longrightarrow> cache_ok q c' \<Longrightarrow> fst (hook q task c) = fst (hook q task c')"
  by (simp add: hook_answer)

lemma run_cache: "cache_ok q c \<Longrightarrow> cache_ok q (fold (\<lambda>task c. snd (hook q task c)) tasks c)"
  by (induction tasks arbitrary: c) (auto simp: hook_cache)

text \<open>However many tasks were asked about before, the answer is the one a fresh cache would give.\<close>

lemma answer_after_run:
  "cache_ok q c \<Longrightarrow> fst (hook q task (fold (\<lambda>task c. snd (hook q task c)) tasks c)) = answer q task"
  by (simp add: hook_answer run_cache)

end

definition order_answer :: "queue_store \<Rightarrow> jv \<Rightarrow> bool \<times> hub_key" where
  "order_answer q task =
     ((truthy task \<and> truthy (jget task ''atomic'')) \<or> hk_found (hub_key_spec q (hub_id_for_task task)),
      hub_key_spec q (hub_id_for_task task))"

interpretation default_order: ordering_hook order_candidate order_answer
  by unfold_locales (simp_all add: order_candidate_value order_answer_def)

text \<open>Equal keys are exactly those the comparator calls equal, so the next key of a chain decides.\<close>

lemma compare_hub_keys_truthy:
  assumes "hk_rank a \<noteq> NaN" and "hk_rank b \<noteq> NaN"
  shows "num_truthy (compare_hub_keys a b) \<longleftrightarrow> hub_sort_key a \<noteq> hub_sort_key b"
proof -
  have "num_truthy (jsub x y)" if "x \<noteq> y" "x \<noteq> NaN" "y \<noteq> NaN" for x y
    using that by (cases x; cases y) auto
  with assms show ?thesis by (auto simp: compare_hub_keys_def hub_sort_key_def)
qed

end
