(* ===== verification/SourceRegistry.thy ===== *)
theory SourceRegistry
  imports HubPriority
begin

text \<open>
  \<open>src/task-source-registry.js\<close> and \<open>src/lib/source-scope.js\<close>: the table of registered task
  sources. A registration is an object whose absent fields are \<open>None\<close>; the fields the core reads have
  a record field each. The table is an association list in insertion order, which is the order of
  \<open>Object.values\<close>. A source's \<open>next\<close> runs in a world \<open>'w\<close> (the queue, the disk, the clock): it
  answers a task or a falsy value, or throws, and leaves a new world.
\<close>

type_synonym 'w generator = "'w \<Rightarrow> jv outcome \<times> 'w"

type_synonym order_hook = "queue_store \<Rightarrow> jv \<Rightarrow> hub_cache \<Rightarrow> (bool \<times> hub_key) \<times> hub_cache"

record 'w source =
  src_name :: "string option"
  src_priority :: "jv option"
  src_scope :: "jv option"
  src_next :: "'w generator option"
  src_variantOf :: "jv option"
  src_probe :: "jv option"
  src_hubOrder :: "order_hook option"

type_synonym 'w registry = "(string \<times> 'w source) list"

datatype reg_error = AlreadyRegistered string | BadVariantOf string jv | NotRegistered string

section \<open>Scope\<close>

text \<open>\<open>gateDisabled\<close> and \<open>sourceEligibleHere(entry, coreActive)\<close>.\<close>

definition gate_disabled :: "env \<Rightarrow> bool" where
  "gate_disabled e \<longleftrightarrow> to_lower (trim (env_str e ''AGENT_MANAGER_CORE_SOURCES_ANYWHERE'')) = ''true''"

definition source_eligible_here :: "env \<Rightarrow> jv option option \<Rightarrow> bool \<Rightarrow> bool" where
  "source_eligible_here e entry_scope core_active =
     (case entry_scope of
        Some (Some (JStr s)) \<Rightarrow> if s = ''core'' then gate_disabled e \<or> core_active else True
      | _ \<Rightarrow> True)"

section \<open>Registration\<close>

text \<open>A field of \<open>{ name, ...config }\<close> or of \<open>Object.assign(entry, partial)\<close>: the later one wins.\<close>

definition over :: "'a option \<Rightarrow> 'a option \<Rightarrow> 'a option" where
  "over old new = (case new of Some v \<Rightarrow> Some v | None \<Rightarrow> old)"

definition assign_source :: "'w source \<Rightarrow> 'w source \<Rightarrow> 'w source" where
  "assign_source old new =
     \<lparr>src_name = over (src_name old) (src_name new),
      src_priority = over (src_priority old) (src_priority new),
      src_scope = over (src_scope old) (src_scope new),
      src_next = over (src_next old) (src_next new),
      src_variantOf = over (src_variantOf old) (src_variantOf new),
      src_probe = over (src_probe old) (src_probe new),
      src_hubOrder = over (src_hubOrder old) (src_hubOrder new)\<rparr>"

definition bare_source :: "string \<Rightarrow> 'w source" where
  "bare_source name = \<lparr>src_name = Some name, src_priority = None, src_scope = None, src_next = None,
     src_variantOf = None, src_probe = None, src_hubOrder = None\<rparr>"

text \<open>The wrapper a core-scope source's \<open>next\<close> gets: the scope is looked up when it is called.\<close>

definition scoped_next :: "('w \<Rightarrow> bool) \<Rightarrow> 'w generator \<Rightarrow> 'w generator" where
  "scoped_next eligible inner = (\<lambda>w. if eligible w then inner w else (Returns JNull, w))"

definition wrap_scope :: "('w \<Rightarrow> bool) \<Rightarrow> 'w source \<Rightarrow> 'w source" where
  "wrap_scope eligible cfg =
     (case (src_scope cfg, src_next cfg) of
        (Some (JStr s), Some inner) \<Rightarrow>
          if s = ''core'' then cfg\<lparr>src_next := Some (scoped_next eligible inner)\<rparr> else cfg
      | _ \<Rightarrow> cfg)"

definition register_task_source ::
  "('w \<Rightarrow> bool) \<Rightarrow> string \<Rightarrow> 'w source \<Rightarrow> 'w registry \<Rightarrow> reg_error + 'w registry" where
  "register_task_source eligible name cfg reg =
     (if map_of reg name \<noteq> None then Inl (AlreadyRegistered name)
      else
        let cfg = wrap_scope eligible cfg;
            v = (case src_variantOf cfg of None \<Rightarrow> JUndef | Some v \<Rightarrow> v)
        in if \<not> nullish v \<and> (\<not> is_string v \<or> trim (str_of v) = [] \<or> v = JStr name)
           then Inl (BadVariantOf name v)
           else Inr (reg @ [(name, assign_source (bare_source name) cfg)]))"

definition update_task_source :: "string \<Rightarrow> 'w source \<Rightarrow> 'w registry \<Rightarrow> reg_error + 'w registry" where
  "update_task_source name partial reg =
     (case map_of reg name of
        None \<Rightarrow> Inl (NotRegistered name)
      | Some old \<Rightarrow> Inr (kv_put reg name (assign_source old partial)))"

definition clear_registry :: "'w registry \<Rightarrow> 'w registry" where
  "clear_registry reg = []"

section \<open>Lookup and order\<close>

definition get_registered_source :: "'w registry \<Rightarrow> jv \<Rightarrow> 'w source option" where
  "get_registered_source reg name = (case name of JStr s \<Rightarrow> map_of reg s | _ \<Rightarrow> None)"

text \<open>\<open>a.priority ?? Infinity\<close>, coerced by the subtraction of the comparator.\<close>

definition source_priority :: "'w source \<Rightarrow> jnum" where
  "source_priority s =
     (case src_priority s of None \<Rightarrow> PInf | Some p \<Rightarrow> if nullish p then PInf else to_number p)"

definition compare_priority :: "'w source \<Rightarrow> 'w source \<Rightarrow> jnum" where
  "compare_priority a b = jsub (source_priority a) (source_priority b)"

definition get_registered_sources :: "'w registry \<Rightarrow> 'w source list" where
  "get_registered_sources reg = js_sort compare_priority (map snd reg)"

interpretation priority_order: comparator compare_priority "\<lambda>s. source_priority s \<noteq> NaN" source_priority
  by unfold_locales (simp add: compare_priority_def sub_front)

section \<open>Which source a task belongs to\<close>

type_synonym aliases = "string \<Rightarrow> string option"

definition register_source_alias :: "string \<Rightarrow> string \<Rightarrow> aliases \<Rightarrow> aliases" where
  "register_source_alias from_field to_name al = al(from_field \<mapsto> to_name)"

text \<open>\<open>resolveSourceName(task)\<close>; it throws on a task that is \<open>null\<close> or \<open>undefined\<close>, where the callers
  have tested the task or catch. An empty alias is falsy and does not apply.\<close>

definition resolve_source_name :: "aliases \<Rightarrow> jv \<Rightarrow> jv" where
  "resolve_source_name al task =
     (if jget task ''domain'' = JStr ''adhoc'' \<or> jget task ''source'' = JStr ''manual'' then JStr ''adhoc''
      else if jget task ''domain'' = JStr ''secondbrain'' then JStr ''secondbrain''
      else (case jget task ''source'' of
              JStr s \<Rightarrow> (case al s of Some t \<Rightarrow> if t = [] then JStr s else JStr t | None \<Rightarrow> JStr s)
            | v \<Rightarrow> v))"

section \<open>Variants\<close>

text \<open>\<open>variantParentOf\<close> follows \<open>variantOf\<close> until an entry has none, is not registered, or was seen.\<close>

definition variant_link :: "'w registry \<Rightarrow> string \<Rightarrow> jv option" where
  "variant_link reg n =
     (case map_of reg n of
        None \<Rightarrow> None
      | Some e \<Rightarrow> (case src_variantOf e of Some v \<Rightarrow> if truthy v then Some v else None | None \<Rightarrow> None))"

lemma variant_link_registered: "variant_link reg n = Some v \<Longrightarrow> n \<in> fst ` set reg"
  by (auto simp: variant_link_def split: option.splits dest: map_of_SomeD intro: rev_image_eqI)

function variant_walk :: "'w registry \<Rightarrow> jv \<Rightarrow> string list \<Rightarrow> jv" where
  "variant_walk reg (JStr n) seen =
     (case variant_link reg n of
        None \<Rightarrow> JStr n
      | Some v \<Rightarrow> if n \<in> set seen then JStr n else variant_walk reg v (n # seen))"
| "variant_walk reg JUndef seen = JUndef"
| "variant_walk reg JNull seen = JNull"
| "variant_walk reg (JBool b) seen = JBool b"
| "variant_walk reg (JNum x) seen = JNum x"
| "variant_walk reg (JArr xs) seen = JArr xs"
| "variant_walk reg (JObj kvs) seen = JObj kvs"
  by pat_completeness auto

termination
proof (relation "measure (\<lambda>(reg, v, seen). card (fst ` set reg - set seen))", goal_cases)
  case 1
  then show ?case by simp
next
  case (2 reg n seen v)
  then have "n \<in> fst ` set reg - set seen" by (auto dest: variant_link_registered)
  then have "card (fst ` set reg - set seen - {n}) < card (fst ` set reg - set seen)"
    by (intro psubset_card_mono) auto
  moreover have "fst ` set reg - set (n # seen) = fst ` set reg - set seen - {n}" by auto
  ultimately show ?case by simp
qed

definition variant_parent_of :: "'w registry \<Rightarrow> string \<Rightarrow> jv option" where
  "variant_parent_of reg name =
     (let cur = variant_walk reg (JStr name) [] in if cur = JStr name then None else Some cur)"

definition get_variants_of :: "'w registry \<Rightarrow> jv \<Rightarrow> string list" where
  "get_variants_of reg parent = filter (\<lambda>n. variant_parent_of reg n = Some parent) (map fst reg)"

section \<open>The table as a map\<close>

text \<open>The registry is used through a map contract: a new key is added, an old key is replaced in its
  place, and no other key is touched.\<close>

locale keyed_table =
  fixes look :: "'t \<Rightarrow> string \<Rightarrow> 'v option"
    and put :: "'t \<Rightarrow> string \<Rightarrow> 'v \<Rightarrow> 't"
    and keys :: "'t \<Rightarrow> string list"
    and wf :: "'t \<Rightarrow> bool"
  assumes look_put: "wf t \<Longrightarrow> look (put t k v) = (look t)(k \<mapsto> v)"
    and put_wf: "wf t \<Longrightarrow> wf (put t k v)"
    and look_keys: "wf t \<Longrightarrow> look t k \<noteq> None \<longleftrightarrow> k \<in> set (keys t)"
    and keys_distinct: "wf t \<Longrightarrow> distinct (keys t)"
    and keys_put: "wf t \<Longrightarrow> k \<in> set (keys t) \<Longrightarrow> keys (put t k v) = keys t"
begin

lemma put_twice: "wf t \<Longrightarrow> look (put (put t k v) k v') = look (put t k v')"
  by (simp add: look_put put_wf fun_eq_iff)

lemma put_frame: "wf t \<Longrightarrow> k' \<noteq> k \<Longrightarrow> look (put t k v) k' = look t k'"
  by (simp add: look_put)

lemma put_comm: "wf t \<Longrightarrow> k \<noteq> k' \<Longrightarrow> look (put (put t k v) k' v') = look (put (put t k' v') k v)"
  by (auto simp: look_put put_wf fun_eq_iff)

end

lemma kv_put_keys_same: "k \<in> fst ` set kvs \<Longrightarrow> map fst (kv_put kvs k v) = map fst kvs"
  by (induction kvs) (force split: if_splits)+

interpretation reg_table: keyed_table map_of kv_put "map fst" "\<lambda>t. distinct (map fst t)"
  by unfold_locales (auto simp: kv_put_map_of kv_put_distinct kv_put_keys_same map_of_eq_None_iff
      simp flip: domIff dest: map_of_SomeD)

definition wf_registry :: "'w registry \<Rightarrow> bool" where
  "wf_registry reg \<longleftrightarrow> distinct (map fst reg)"

lemma register_ok:
  "register_task_source el name cfg reg = Inr reg' \<Longrightarrow>
     name \<notin> fst ` set reg \<and> reg' = reg @ [(name, assign_source (bare_source name) (wrap_scope el cfg))]"
  by (auto simp: register_task_source_def Let_def map_of_eq_None_iff split: if_splits)

lemma register_wf:
  "wf_registry reg \<Longrightarrow> register_task_source el name cfg reg = Inr reg' \<Longrightarrow> wf_registry reg'"
  by (auto simp: wf_registry_def dest!: register_ok)

lemma update_wf:
  "wf_registry reg \<Longrightarrow> update_task_source name p reg = Inr reg' \<Longrightarrow> wf_registry reg'"
  by (auto simp: wf_registry_def update_task_source_def split: option.splits intro: kv_put_distinct)

end
