(* ===== verification/WorkflowOrder.thy ===== *)
theory WorkflowOrder
  imports SourceRegistry Lanes
begin

text \<open>
  \<open>src/workflow-claim-order.js\<close> and \<open>src/workflow-priority.js\<close>: the rank of a task. A task ranks by
  its source's registered priority; a premium task is ahead of everything, hub work ahead of every
  source, a bot-filed adhoc task behind the human ones. In group mode the authored groups of the
  workflow file shift a source's priority into a band.
\<close>

section \<open>Following group nesting\<close>

text \<open>The walk \<open>while (g in up && !seen[g]) { seen[g] = true; g = up[g]; }\<close> both modules share: up the
  parent links until there is none or a cycle closes.\<close>

function chase :: "(string \<times> string) list \<Rightarrow> string \<Rightarrow> string list \<Rightarrow> string" where
  "chase up g seen =
     (case map_of up g of
        None \<Rightarrow> g
      | Some h \<Rightarrow> if g \<in> set seen then g else chase up h (g # seen))"
  by pat_completeness auto
termination
proof (relation "measure (\<lambda>(up, g, seen). card (fst ` set up - set seen))", goal_cases)
  case 1
  then show ?case by simp
next
  case (2 up g seen h)
  then have "g \<in> fst ` set up - set seen"
    by (auto dest: map_of_SomeD intro: rev_image_eqI)
  then have "card (fst ` set up - set seen - {g}) < card (fst ` set up - set seen)"
    by (intro psubset_card_mono) auto
  moreover have "fst ` set up - set (g # seen) = fst ` set up - set seen - {g}" by auto
  ultimately show ?case by simp
qed

declare chase.simps [simp del]

text \<open>The first entry of a key wins (\<open>if (!(k in m)) m[k] = v\<close>).\<close>

definition first_put :: "string \<Rightarrow> 'v \<Rightarrow> (string \<times> 'v) list \<Rightarrow> (string \<times> 'v) list" where
  "first_put k v m = (if map_of m k = None then m @ [(k, v)] else m)"

fun put_children :: "string \<Rightarrow> jv list \<Rightarrow> (string \<times> string) list \<Rightarrow> (string \<times> string) list" where
  "put_children gid [] up = up"
| "put_children gid (c # cs) up = put_children gid cs (first_put (to_str c) gid up)"

text \<open>\<open>claimBands\<close> coerces every child to a property key; \<open>groupPriorityOrder\<close> takes strings only.\<close>

fun parent_links :: "(jv \<Rightarrow> bool) \<Rightarrow> jv list \<Rightarrow> (string \<times> string) list \<Rightarrow> (string \<times> string) list" where
  "parent_links child_ok [] up = up"
| "parent_links child_ok (g # gs) up =
     (if \<not> truthy g \<or> \<not> is_string (jget g ''id'') \<or> \<not> is_array (jget g ''children'')
      then parent_links child_ok gs up
      else parent_links child_ok gs (put_children (str_of (jget g ''id'')) (filter child_ok (elems (jget g ''children''))) up))"

fun group_index :: "(jv \<Rightarrow> bool) \<Rightarrow> nat \<Rightarrow> jv list \<Rightarrow> (string \<times> nat) list \<Rightarrow> (string \<times> nat) list" where
  "group_index group_ok i [] ix = ix"
| "group_index group_ok i (g # gs) ix =
     group_index group_ok (Suc i) gs (if group_ok g then first_put (to_str (jget g ''id'')) i ix else ix)"

section \<open>Claim bands\<close>

record bands =
  bn_index :: "(string \<times> nat) list"
  bn_count :: nat

definition GROUP_BAND :: real where "GROUP_BAND = 1000"
definition SOURCE_PREFIX :: string where "SOURCE_PREFIX = ''source:''"

fun source_bands :: "(string \<times> string) list \<Rightarrow> (string \<times> nat) list \<Rightarrow> string list \<Rightarrow> (string \<times> nat) list" where
  "source_bands up ix [] = []"
| "source_bands up ix (child # cs) =
     (if \<not> starts_with SOURCE_PREFIX child \<or> length child = length SOURCE_PREFIX then source_bands up ix cs
      else (case map_of up child of
              None \<Rightarrow> source_bands up ix cs
            | Some g \<Rightarrow> (case map_of ix (chase up g []) of
                          None \<Rightarrow> source_bands up ix cs
                        | Some i \<Rightarrow> (drop (length SOURCE_PREFIX) child, i) # source_bands up ix cs)))"

text \<open>A configuration that is no object, or whose \<open>groups\<close> is no array, throws inside the \<open>try\<close>.\<close>

definition claim_bands :: "jv \<Rightarrow> bands option" where
  "claim_bands config =
     (let groups = jget config ''groups''
      in if \<not> is_array groups then None
         else let ix = group_index truthy 0 (elems groups) [];
                  up = parent_links (\<lambda>_. True) (elems groups) [];
                  by_source = source_bands up ix (map fst up)
              in if by_source = [] then None else Some \<lparr>bn_index = by_source, bn_count = length (elems groups)\<rparr>)"

definition banded_priority :: "string \<Rightarrow> jnum \<Rightarrow> bands option \<Rightarrow> jnum" where
  "banded_priority source_name base bands =
     (case (bands, base) of
        (Some b, Fin q) \<Rightarrow>
          Fin (GROUP_BAND * real (case map_of (bn_index b) source_name of None \<Rightarrow> bn_count b | Some i \<Rightarrow> i) + q)
      | _ \<Rightarrow> base)"

text \<open>\<open>readClaimBands(env)\<close>: the bands of the workflow file, kept while its path, time and size are the
  same. \<open>stat\<close> is the file's path and its time and size, or \<open>None\<close> when \<open>statSync\<close> throws; \<open>config\<close> is
  what \<open>readWorkflowConfig\<close> would read now.\<close>

type_synonym band_key = "string \<times> real \<times> nat"

record band_cache =
  bc_key :: "band_key option"
  bc_bands :: "bands option"

definition read_claim_bands :: "env \<Rightarrow> band_key option \<Rightarrow> jv \<Rightarrow> band_cache \<Rightarrow> bands option \<times> band_cache" where
  "read_claim_bands e stat config cache =
     (if e ''AGENT_MANAGER_PRIORITY_MODE'' \<noteq> Some ''group'' then (None, cache)
      else (case stat of
              None \<Rightarrow> (None, cache)
            | Some key \<Rightarrow>
                if bc_key cache = Some key then (bc_bands cache, cache)
                else let b = claim_bands config in (b, \<lparr>bc_key = Some key, bc_bands = b\<rparr>)))"

section \<open>The flat priority order\<close>

record flat_entry =
  fe_name :: string
  fe_priority :: real

fun flat_entries :: "jv list \<Rightarrow> string list \<Rightarrow> flat_entry list" where
  "flat_entries [] seen = []"
| "flat_entries (e # es) seen =
     (case (jget e ''name'', jget e ''priority'') of
        (JStr n, JNum (Fin p)) \<Rightarrow>
          if n = [] \<or> n \<in> set seen then flat_entries es seen
          else \<lparr>fe_name = n, fe_priority = p\<rparr> # flat_entries es (n # seen)
      | _ \<Rightarrow> flat_entries es seen)"

definition compare_flat :: "flat_entry \<Rightarrow> flat_entry \<Rightarrow> jnum" where
  "compare_flat a b = num_or (jsub (Fin (fe_priority a)) (Fin (fe_priority b))) (str_cmp (fe_name a) (fe_name b))"

definition flat_key :: "flat_entry \<Rightarrow> jnum \<times> string" where
  "flat_key e = (Fin (fe_priority e), fe_name e)"

interpretation flat_order: comparator compare_flat "\<lambda>_. True" flat_key
  by unfold_locales
    (auto simp: compare_flat_def flat_key_def num_or_sub_front less_eq_prod_def simp del: jsub.simps)

record ranked_entry = flat_entry +
  fe_rank :: nat

text \<open>The rank of the code's running counter: entries of one priority share the place of the first.\<close>

fun assign_ranks :: "nat \<Rightarrow> nat \<Rightarrow> real option \<Rightarrow> flat_entry list \<Rightarrow> ranked_entry list" where
  "assign_ranks i rank prev [] = []"
| "assign_ranks i rank prev (e # es) =
     (let rank' = (if prev \<noteq> None \<and> prev \<noteq> Some (fe_priority e) then i + 1 else rank)
      in \<lparr>fe_name = fe_name e, fe_priority = fe_priority e, fe_rank = rank'\<rparr>
         # assign_ranks (i + 1) rank' (Some (fe_priority e)) es)"

definition flat_priority_order :: "jv \<Rightarrow> ranked_entry list" where
  "flat_priority_order topology =
     (if \<not> is_array topology then []
      else assign_ranks 0 1 None (js_sort compare_flat (flat_entries (elems topology) [])))"

lemma flat_entries_names: "set (map fe_name (flat_entries es seen)) \<inter> set seen = {}"
  by (induction es seen rule: flat_entries.induct) (auto split: jv.splits jnum.splits)

lemma flat_entries_distinct: "distinct (map fe_name (flat_entries es seen))"
proof (induction es seen rule: flat_entries.induct)
  case (1 seen)
  then show ?case by simp
next
  case (2 e es seen)
  have "n \<notin> fe_name ` set (flat_entries es (n # seen))" for n
    using flat_entries_names [of es "n # seen"] by auto
  with 2 show ?case by (auto split: jv.splits jnum.splits)
qed

lemma assign_ranks_names:
  "map fe_name (assign_ranks i rank prev es) = map fe_name es"
  "map fe_priority (assign_ranks i rank prev es) = map fe_priority es"
  by (induction i rank prev es rule: assign_ranks.induct) (simp_all add: Let_def)

text \<open>With the entries of \<open>pre\<close> already placed, the counter is one more than the number of placed
  entries that are strictly ahead.\<close>

lemma assign_ranks_counts:
  assumes "sorted (map fe_priority (pre @ es))"
    and "case prev of None \<Rightarrow> pre = [] \<and> rank = 1
          | Some p \<Rightarrow> pre \<noteq> [] \<and> p = fe_priority (last pre) \<and> rank = 1 + length (filter (\<lambda>x. fe_priority x < p) pre)"
    and "r \<in> set (assign_ranks (length pre) rank prev es)"
  shows "fe_rank r = 1 + length (filter (\<lambda>x. fe_priority x < fe_priority r) (pre @ es))"
  using assms
proof (induction es arbitrary: pre rank prev)
  case Nil
  then show ?case by simp
next
  case (Cons e es)
  let ?rank' = "if prev \<noteq> None \<and> prev \<noteq> Some (fe_priority e) then length pre + 1 else rank"
  have tail_ge: "\<forall>x\<in>set es. fe_priority e \<le> fe_priority x"
    and pre_le: "\<forall>x\<in>set pre. fe_priority x \<le> fe_priority e"
    using Cons.prems(1) by (auto simp: sorted_append)
  have rank': "?rank' = 1 + length (filter (\<lambda>x. fe_priority x < fe_priority e) pre)"
  proof (cases prev)
    case None
    with Cons.prems(2) show ?thesis by simp
  next
    case (Some p)
    with Cons.prems(2) have p: "pre \<noteq> []" "p = fe_priority (last pre)"
      "rank = 1 + length (filter (\<lambda>x. fe_priority x < p) pre)" by auto
    show ?thesis
    proof (cases "p = fe_priority e")
      case True
      with p Some show ?thesis by simp
    next
      case False
      with p pre_le have lt: "p < fe_priority e" by (metis last_in_set order.not_eq_order_implies_strict)
      obtain ys y where ys: "pre = ys @ [y]" using p(1) by (cases pre rule: rev_cases) auto
      have "\<forall>x\<in>set pre. fe_priority x \<le> p"
        using Cons.prems(1) p(2) by (auto simp: ys sorted_append)
      with lt have "filter (\<lambda>x. fe_priority x < fe_priority e) pre = pre" by (auto simp: filter_id_conv)
      with False Some show ?thesis by simp
    qed
  qed
  have e_count: "filter (\<lambda>x. fe_priority x < fe_priority e) (e # es) = []"
    using tail_ge by (auto simp: filter_empty_conv not_less)
  from Cons.prems(3) consider
      (here) "r = \<lparr>fe_name = fe_name e, fe_priority = fe_priority e, fe_rank = ?rank'\<rparr>"
    | (later) "r \<in> set (assign_ranks (length (pre @ [e])) ?rank' (Some (fe_priority e)) es)"
    by (auto simp: Let_def)
  then show ?case
  proof cases
    case here
    with rank' e_count show ?thesis by simp
  next
    case later
    have "sorted (map fe_priority ((pre @ [e]) @ es))" using Cons.prems(1) by simp
    from Cons.IH [OF this _ later] rank' show ?thesis by simp
  qed
qed

lemma flat_rank_counts:
  assumes "r \<in> set (flat_priority_order topology)"
  shows "fe_rank r = 1 + length (filter (\<lambda>x. fe_priority x < fe_priority r) (flat_entries (elems topology) []))"
proof -
  let ?es = "js_sort compare_flat (flat_entries (elems topology) [])"
  have "sorted (map flat_key ?es)" by (simp add: flat_order.sorted_js_sort)
  then have "sorted (map fe_priority ([] @ ?es))"
    by (auto simp: sorted_map flat_key_def less_eq_prod_def elim!: sorted_wrt_mono_rel [rotated])
  moreover have "r \<in> set (assign_ranks (length ([] :: flat_entry list)) 1 None ?es)"
    using assms by (simp add: flat_priority_order_def split: if_splits)
  ultimately have "fe_rank r = 1 + length (filter (\<lambda>x. fe_priority x < fe_priority r) ([] @ ?es))"
    by (intro assign_ranks_counts) auto
  moreover have "length (filter P ?es) = length (filter P (flat_entries (elems topology) []))" for P
    by (metis mset_filter mset_js_sort size_mset)
  ultimately show ?thesis by simp
qed

section \<open>The group order shown beside it\<close>

record group_entry =
  ge_name :: string
  ge_flatRank :: nat
  ge_priority :: real
  ge_group :: "string option"
  ge_order :: jnum
  ge_graphRank :: nat

fun parent_of_nodes :: "jv list \<Rightarrow> (string \<times> jv) list \<Rightarrow> (string \<times> jv) list" where
  "parent_of_nodes [] m = m"
| "parent_of_nodes (n # ns) m =
     parent_of_nodes ns (if truthy n \<and> is_string (jget n ''id'') then first_put (str_of (jget n ''id'')) (jget n ''parent'') m else m)"

definition outermost :: "(string \<times> nat) list \<Rightarrow> (string \<times> string) list \<Rightarrow> (string \<times> jv) list \<Rightarrow> string \<Rightarrow> string option" where
  "outermost ix up parents name =
     (case map_of parents (SOURCE_PREFIX @ name) of
        Some (JStr g) \<Rightarrow> if map_of ix g \<noteq> None then Some (chase up g []) else None
      | _ \<Rightarrow> None)"

definition graph_rank :: "group_entry list \<Rightarrow> group_entry \<Rightarrow> nat" where
  "graph_rank entries e =
     1 + length (filter (\<lambda>x. jlt (ge_order x) (ge_order e)
                           \<or> (ge_order x = ge_order e \<and> ge_priority x < ge_priority e)) entries)"

definition group_priority_order :: "jv \<Rightarrow> ranked_entry list \<Rightarrow> group_entry list" where
  "group_priority_order graph flat =
     (let groups = jget graph ''groups''; nodes = jget graph ''nodes''
      in if \<not> is_array groups \<or> \<not> is_array nodes then []
         else
           let ix = group_index (\<lambda>g. truthy g \<and> is_string (jget g ''id'')) 0 (elems groups) [];
               up = parent_links is_string (elems groups) [];
               parents = parent_of_nodes (elems nodes) [];
               entries = map (\<lambda>e. let g = outermost ix up parents (fe_name e)
                                 in \<lparr>ge_name = fe_name e, ge_flatRank = fe_rank e, ge_priority = fe_priority e,
                                     ge_group = g,
                                     ge_order = (case g of None \<Rightarrow> PInf
                                                 | Some gg \<Rightarrow> (case map_of ix gg of Some i \<Rightarrow> Fin (real i) | None \<Rightarrow> NaN)),
                                     ge_graphRank = 0\<rparr>) flat
           in if \<forall>e\<in>set entries. ge_group e = None then []
              else map (\<lambda>e. e\<lparr>ge_graphRank := graph_rank entries e\<rparr>) entries)"

section \<open>The rank of a task\<close>

definition BOT_ADHOC_PRIORITY_PENALTY :: jnum where
  "BOT_ADHOC_PRIORITY_PENALTY = Fin 30"

definition effective_priority :: "aliases \<Rightarrow> jv \<Rightarrow> jnum \<Rightarrow> bool \<Rightarrow> jnum" where
  "effective_priority al task base hub_tier =
     (if truthy task \<and> truthy (jget task ''premiumPriority'') then NInf
      else if hub_tier then HUB_TIER_PRIORITY
      else if truthy task \<and> resolve_source_name al task = JStr ''adhoc'' \<and> \<not> truthy (jget task ''humanQueued'')
      then jadd base BOT_ADHOC_PRIORITY_PENALTY
      else base)"

text \<open>\<open>rankPriorityOfTask(task, opts)\<close> with the hub tier the caller passed, or the one derived from the
  hub records when it passed none.\<close>

definition rank_priority_of_task ::
  "'w registry \<Rightarrow> aliases \<Rightarrow> bands option \<Rightarrow> queue_store \<Rightarrow> bool option \<Rightarrow> jv \<Rightarrow> jnum" where
  "rank_priority_of_task reg al bands q hub_tier_opt task =
     (if \<not> truthy task then PInf
      else
        let hub_tier = (case hub_tier_opt of Some b \<Rightarrow> b | None \<Rightarrow> fst (is_hub_tier_task q task Map.empty))
        in if hub_tier then (if truthy (jget task ''premiumPriority'') then NInf else HUB_TIER_PRIORITY)
           else if jget task ''source'' = JStr ''derived_task''
           then (case get_registered_source reg (JStr ''derived_task'') of
                   Some dt \<Rightarrow> (case src_priority dt of
                                Some (JNum p) \<Rightarrow> banded_priority ''derived_task'' p bands
                              | _ \<Rightarrow> PInf)
                 | None \<Rightarrow> PInf)
           else (case get_registered_source reg (resolve_source_name al task) of
                   Some s \<Rightarrow> (case src_priority s of
                               Some (JNum p) \<Rightarrow>
                                 effective_priority al task
                                   (banded_priority (case src_name s of Some n \<Rightarrow> n | None \<Rightarrow> ''undefined'') p bands) False
                             | _ \<Rightarrow> PInf)
                 | None \<Rightarrow> PInf))"

definition priorities_ordered :: "'w registry \<Rightarrow> bool" where
  "priorities_ordered reg \<longleftrightarrow> (\<forall>e\<in>set reg. src_priority (snd e) \<noteq> Some (JNum NaN))"

lemma registered_priority:
  "priorities_ordered reg \<Longrightarrow> get_registered_source reg n = Some s \<Longrightarrow> src_priority s = Some (JNum p) \<Longrightarrow> p \<noteq> NaN"
  by (fastforce simp: priorities_ordered_def get_registered_source_def split: jv.splits dest!: map_of_SomeD)

lemma banded_not_NaN: "p \<noteq> NaN \<Longrightarrow> banded_priority n p bands \<noteq> NaN"
  by (cases p) (auto simp: banded_priority_def split: option.splits)

lemma effective_not_NaN: "p \<noteq> NaN \<Longrightarrow> effective_priority al task p hub \<noteq> NaN"
  by (cases p) (auto simp: effective_priority_def HUB_TIER_PRIORITY_def BOT_ADHOC_PRIORITY_PENALTY_def)

lemma rank_not_NaN:
  "priorities_ordered reg \<Longrightarrow> rank_priority_of_task reg al bands q h task \<noteq> NaN"
  by (auto simp: rank_priority_of_task_def Let_def HUB_TIER_PRIORITY_def
      split: option.splits jv.splits
      intro!: effective_not_NaN banded_not_NaN dest: registered_priority)

end
