(* ===== verification/QueueCache.thy ===== *)
theory QueueCache
  imports JsSort
begin

text \<open>
  \<open>src/queue-cache.js\<close>: the listing of a queue directory and the parsed task files, kept in memory
  between ticks. The disk is the directory's time, its listing and the files with their time, size and
  parsed content (\<open>None\<close> when a file does not parse). A directory whose time is unchanged and was not
  changed within two seconds of the last check is trusted for a minute; otherwise every file is
  stat'ed and only those whose time or size differ are read again.
\<close>

record file_info =
  fi_mtime :: real
  fi_size :: nat
  fi_json :: "jv option"

record disk =
  dk_mtime :: "real option"
  dk_names :: "string list option"
  dk_file :: "string \<Rightarrow> file_info option"

record cache_entry =
  ce_mtime :: real
  ce_size :: nat
  ce_task :: jv

record cache_state =
  cs_version :: nat
  cs_dir :: string
  cs_dirMtime :: real
  cs_checkedAt :: real
  cs_names :: "string list"
  cs_files :: "string \<Rightarrow> cache_entry option"

record queue_cache =
  qc_disabled :: bool
  qc_state :: cache_state
  qc_dirty :: bool
  qc_memo :: "string list option"
  qc_fresh :: "string list"
  qc_reads :: nat
  qc_hits :: nat
  qc_passes :: nat

definition REVALIDATE_MS :: real where "REVALIDATE_MS = 60000"
definition RACY_MS :: real where "RACY_MS = 2000"
definition CACHE_VERSION :: nat where "CACHE_VERSION = 1"

definition cache_disabled :: "env \<Rightarrow> bool" where
  "cache_disabled e \<longleftrightarrow> to_lower (trim (env_str e ''AGENT_MANAGER_QUEUE_CACHE'')) = ''false''"

definition empty_state :: "string \<Rightarrow> cache_state" where
  "empty_state dir = \<lparr>cs_version = CACHE_VERSION, cs_dir = dir, cs_dirMtime = 0, cs_checkedAt = 0, cs_names = [],
     cs_files = (\<lambda>_. None)\<rparr>"

text \<open>\<open>loadState\<close>: what the cache file holds, or \<open>None\<close> when it is missing or garbage.\<close>

definition load_state :: "cache_state option \<Rightarrow> string \<Rightarrow> cache_state" where
  "load_state saved dir =
     (case saved of
        Some s \<Rightarrow> if cs_version s = CACHE_VERSION \<and> cs_dir s = dir then s else empty_state dir
      | None \<Rightarrow> empty_state dir)"

definition open_queue_cache :: "env \<Rightarrow> cache_state option \<Rightarrow> string \<Rightarrow> queue_cache" where
  "open_queue_cache e saved dir =
     \<lparr>qc_disabled = cache_disabled e,
      qc_state = (if cache_disabled e then empty_state dir else load_state saved dir),
      qc_dirty = False, qc_memo = None, qc_fresh = [], qc_reads = 0, qc_hits = 0, qc_passes = 0\<rparr>"

definition read_file_task :: "disk \<Rightarrow> string \<Rightarrow> cache_entry" where
  "read_file_task d name =
     (case dk_file d name of
        None \<Rightarrow> \<lparr>ce_mtime = 0, ce_size = 0, ce_task = JNull\<rparr>
      | Some f \<Rightarrow> \<lparr>ce_mtime = fi_mtime f, ce_size = fi_size f,
                  ce_task = (case fi_json f of Some v \<Rightarrow> v | None \<Rightarrow> JNull)\<rparr>)"

definition list_json :: "disk \<Rightarrow> string list option" where
  "list_json d = map_option (filter (ends_with ''.json'')) (dk_names d)"

section \<open>The full pass\<close>

text \<open>The loop over the listing; a file that vanished since the listing is left out. The result is the
  kept names, the new entries and the names read.\<close>

fun full_pass ::
  "disk \<Rightarrow> (string \<Rightarrow> cache_entry option) \<Rightarrow> string list \<Rightarrow> string list \<times> (string \<Rightarrow> cache_entry option) \<times> string list" where
  "full_pass d old [] = ([], (\<lambda>_. None), [])"
| "full_pass d old (name # names) =
     (let (kept, files, fresh) = full_pass d old names
      in case dk_file d name of
           None \<Rightarrow> (kept, files, fresh)
         | Some st \<Rightarrow>
             (case old name of
                Some prev \<Rightarrow>
                  if ce_mtime prev = fi_mtime st \<and> ce_size prev = fi_size st
                  then (name # kept, files(name \<mapsto> prev), fresh)
                  else (name # kept, files(name \<mapsto> read_file_task d name), name # fresh)
              | None \<Rightarrow> (name # kept, files(name \<mapsto> read_file_task d name), name # fresh)))"

definition trusted :: "cache_state \<Rightarrow> real \<Rightarrow> real \<Rightarrow> bool" where
  "trusted s dir_mtime now \<longleftrightarrow>
     cs_dirMtime s = dir_mtime \<and> now - cs_checkedAt s < REVALIDATE_MS \<and> RACY_MS < cs_checkedAt s - cs_dirMtime s"

definition cache_names :: "real \<Rightarrow> disk \<Rightarrow> queue_cache \<Rightarrow> string list \<times> queue_cache" where
  "cache_names now d c =
     (case qc_memo c of
        Some ns \<Rightarrow> (ns, c)
      | None \<Rightarrow>
          if qc_disabled c
          then (let ns = (case list_json d of Some l \<Rightarrow> l | None \<Rightarrow> []) in (ns, c\<lparr>qc_memo := Some ns\<rparr>))
          else (case dk_mtime d of
            None \<Rightarrow> ([], c\<lparr>qc_memo := Some []\<rparr>)
          | Some m \<Rightarrow>
              if trusted (qc_state c) m now then (cs_names (qc_state c), c\<lparr>qc_memo := Some (cs_names (qc_state c))\<rparr>)
              else (case list_json d of
                None \<Rightarrow> ([], c\<lparr>qc_memo := Some []\<rparr>)
              | Some listed \<Rightarrow>
                  (let (kept, files, fresh) = full_pass d (cs_files (qc_state c)) listed
                   in (kept, c\<lparr>qc_state := (qc_state c)\<lparr>cs_files := files, cs_names := kept, cs_dirMtime := m, cs_checkedAt := now\<rparr>,
                               qc_dirty := True, qc_memo := Some kept, qc_fresh := fresh @ qc_fresh c,
                               qc_reads := qc_reads c + length fresh, qc_passes := qc_passes c + 1\<rparr>)))))"

text \<open>\<open>save()\<close>: the state written to the cache file, when it changed and the write succeeds.\<close>

definition cache_save :: "bool \<Rightarrow> queue_cache \<Rightarrow> cache_state option \<Rightarrow> bool \<times> cache_state option \<times> queue_cache" where
  "cache_save write_ok c saved =
     (if qc_disabled c \<or> \<not> qc_dirty c then (False, saved, c)
      else if write_ok then (True, Some (qc_state c), c\<lparr>qc_dirty := False\<rparr>) else (False, saved, c))"

definition read_task_cached :: "disk \<Rightarrow> string \<Rightarrow> queue_cache \<Rightarrow> (jv \<times> real) \<times> queue_cache" where
  "read_task_cached d name c =
     (case (if qc_disabled c then None else cs_files (qc_state c) name) of
        Some hit \<Rightarrow> ((ce_task hit, ce_mtime hit),
                     if name \<in> set (qc_fresh c) then c else c\<lparr>qc_hits := qc_hits c + 1\<rparr>)
      | None \<Rightarrow> (let r = read_file_task d name in ((ce_task r, ce_mtime r), c\<lparr>qc_reads := qc_reads c + 1\<rparr>)))"

section \<open>What the cache may be trusted for\<close>

text \<open>An entry is coherent with a disk when a file that still has the entry's time and size still has
  the entry's content: the assumption under which skipping a read is sound.\<close>

definition entries_coherent :: "disk \<Rightarrow> (string \<Rightarrow> cache_entry option) \<Rightarrow> bool" where
  "entries_coherent d files \<longleftrightarrow>
     (\<forall>name e f. files name = Some e \<longrightarrow> dk_file d name = Some f \<longrightarrow> ce_mtime e = fi_mtime f \<longrightarrow> ce_size e = fi_size f
        \<longrightarrow> e = read_file_task d name)"

lemma full_pass_files:
  assumes "entries_coherent d old"
  shows "fst (snd (full_pass d old names)) =
         (\<lambda>n. if n \<in> set names \<and> dk_file d n \<noteq> None then Some (read_file_task d n) else None)"
proof (induction names)
  case Nil
  then show ?case by simp
next
  case (Cons name names)
  have "e = read_file_task d name"
    if "old name = Some e" "dk_file d name = Some f" "ce_mtime e = fi_mtime f" "ce_size e = fi_size f" for e f
    using assms that by (auto simp: entries_coherent_def)
  with Cons show ?case
    by (auto simp: fun_eq_iff Let_def split: prod.splits option.splits)
qed

lemma full_pass_names: "fst (full_pass d old names) = filter (\<lambda>n. dk_file d n \<noteq> None) names"
  by (induction names) (auto simp: Let_def split: prod.splits option.splits)

text \<open>\<open>needs_read\<close>: a listed name whose file is there and is not the one the entry was read from.\<close>

definition needs_read :: "disk \<Rightarrow> (string \<Rightarrow> cache_entry option) \<Rightarrow> string \<Rightarrow> bool" where
  "needs_read d old n \<longleftrightarrow>
     (case dk_file d n of None \<Rightarrow> False
      | Some st \<Rightarrow> (case old n of Some p \<Rightarrow> \<not> (ce_mtime p = fi_mtime st \<and> ce_size p = fi_size st) | None \<Rightarrow> True))"

lemma needs_read_cases:
  "dk_file d n = None \<Longrightarrow> \<not> needs_read d old n"
  "dk_file d n = Some st \<Longrightarrow> old n = None \<Longrightarrow> needs_read d old n"
  "dk_file d n = Some st \<Longrightarrow> old n = Some p \<Longrightarrow> needs_read d old n \<longleftrightarrow> \<not> (ce_mtime p = fi_mtime st \<and> ce_size p = fi_size st)"
  by (auto simp: needs_read_def)

lemma full_pass_fresh: "snd (snd (full_pass d old names)) = filter (needs_read d old) names"
  by (induction names) (auto simp: Let_def needs_read_cases split: prod.splits option.splits)

lemma cache_names_pass:
  assumes "qc_memo c = None" and "\<not> qc_disabled c" and "dk_mtime d = Some m" and "\<not> trusted (qc_state c) m now"
    and "list_json d = Some listed"
  shows "fst (cache_names now d c) = filter (\<lambda>n. dk_file d n \<noteq> None) listed"
    and "cs_names (qc_state (snd (cache_names now d c))) = filter (\<lambda>n. dk_file d n \<noteq> None) listed"
    and "cs_files (qc_state (snd (cache_names now d c))) = fst (snd (full_pass d (cs_files (qc_state c)) listed))"
  using assms full_pass_names [of d "cs_files (qc_state c)" listed]
  by (auto simp: cache_names_def split: prod.splits)

end
