(* ===== verification/ClaimOrder.thy ===== *)
theory ClaimOrder
  imports CapabilityRouting WorkflowOrder QueueCache "HOL-Library.Sublist"
begin

text \<open>
  \<open>src/next-claimable-task.js\<close>: which pending tasks a worker may claim, and in which order. One call
  reads the queue through the cache, passes every task through the gates in the code's order (operator
  pins, lane avoidance, the lane's allowlist with its probes, capability reservations, source scope),
  ranks what is left, sorts, and may leave the first task for an idle preferred lane. The world of a
  call is what it reads besides the queue directory: the environment, the registry, the hub records,
  the lanes, the scorecard, the heartbeats and the clock.
\<close>

record 'w claim_world =
  cw_instance :: string
  cw_env :: env
  cw_registry :: "'w registry"
  cw_aliases :: aliases
  cw_bands :: "bands option"
  cw_queue :: queue_store
  cw_coreActive :: bool
  cw_lanes :: "lane list"
  cw_rows :: "score_row list"
  cw_hash :: "string \<Rightarrow> string \<Rightarrow> real"
  cw_heartbeats :: heartbeats
  cw_hbExists :: "string \<Rightarrow> bool"
  cw_health :: health_store
  cw_now :: real

record pinned_row =
  pn_name :: string
  pn_mtime :: real
  pn_premium :: bool

record claim_row =
  cl_name :: string
  cl_id :: jv
  cl_hubId :: "string option"
  cl_priority :: jnum
  cl_natural :: jnum
  cl_hubTier :: bool
  cl_mtime :: real
  cl_hubKey :: hub_key
  cl_premium :: bool

record claim_state =
  ct_pinned :: "pinned_row list"
  ct_rankable :: "claim_row list"
  ct_probes :: nat
  ct_keys :: hub_cache
  ct_audit :: audit_log

type_synonym entry = "string \<times> jv \<times> real"

section \<open>What the call knows about a task and the lanes\<close>

definition this_lane :: "'w claim_world \<Rightarrow> lane option" where
  "this_lane w = lane_by_id (cw_instance w) (cw_lanes w)"

definition cfg_of :: "'w claim_world \<Rightarrow> routing_cfg" where
  "cfg_of w = routing_config (cw_env w)"

definition lane_alive :: "'w claim_world \<Rightarrow> string \<Rightarrow> bool" where
  "lane_alive w i = lane_alive_from_heartbeat (health_config (cw_env w)) (cw_health w) (cw_heartbeats w) i (cw_now w)"

definition is_premium :: "jv \<Rightarrow> bool" where
  "is_premium task \<longleftrightarrow> truthy task \<and> jget task ''premiumPriority'' = JBool True"

text \<open>\<open>task && task.pinnedWorker\<close>.\<close>

definition pinned_worker :: "jv \<Rightarrow> jv" where
  "pinned_worker task = (if truthy task then jget task ''pinnedWorker'' else task)"

definition pinned_elsewhere :: "'w claim_world \<Rightarrow> jv \<Rightarrow> bool" where
  "pinned_elsewhere w task \<longleftrightarrow> truthy (pinned_worker task) \<and> pinned_worker task \<noteq> JStr (cw_instance w)"

definition pinned_here :: "'w claim_world \<Rightarrow> jv \<Rightarrow> bool" where
  "pinned_here w task \<longleftrightarrow> pinned_worker task = JStr (cw_instance w)"

text \<open>A lane without a heartbeat file counts as alive for avoidance.\<close>

definition avoid_alive :: "'w claim_world \<Rightarrow> string \<Rightarrow> bool" where
  "avoid_alive w i \<longleftrightarrow> (if \<not> cw_hbExists w i then True else lane_alive w i)"

definition avoided_here :: "'w claim_world \<Rightarrow> jv \<Rightarrow> bool" where
  "avoided_here w task \<longleftrightarrow>
     truthy task \<and> is_array (jget task ''avoidLanes'') \<and> JStr (cw_instance w) \<in> set (elems (jget task ''avoidLanes''))
     \<and> lane_avoided (cw_env w) task (cw_instance w) (length (cw_lanes w))
         (Some \<lparr>av_lanes = cw_lanes w, av_source = resolve_source_name (cw_aliases w) task, av_alive = avoid_alive w\<rparr>)"

definition registered_probe :: "'w claim_world \<Rightarrow> jv \<Rightarrow> jv option" where
  "registered_probe w source =
     (case get_registered_source (cw_registry w) source of Some s \<Rightarrow> src_probe s | None \<Rightarrow> None)"

definition task_id_of :: "jv \<Rightarrow> string \<Rightarrow> jv" where
  "task_id_of task name =
     (if truthy task \<and> truthy (jget task ''id'') then jget task ''id'' else JStr (strip_json name))"

section \<open>The gates\<close>

text \<open>The \<open>taskClasses\<close> gate: outside its allowlist a lane is offered a probe, at most one per call and
  only in enforce mode; in shadow mode the probe is only logged. The answer is whether the task passes.\<close>

definition class_gate :: "'w claim_world \<Rightarrow> string \<Rightarrow> jv \<Rightarrow> claim_state \<Rightarrow> bool \<times> claim_state" where
  "class_gate w name task s =
     (case (truthy task, this_lane w) of
        (True, Some lane) \<Rightarrow>
          (let cfg = cfg_of w; source = resolve_source_name (cw_aliases w) task
           in if ln_taskClasses lane = None \<or> lane_allows_source (Some lane) source then (True, s)
              else if rc_mode cfg = ModeOff
                   \<or> \<not> probe_selected (cw_hash w) task source (registered_probe w source) lane (cw_lanes w) (cw_rows w) cfg
                        (lane_degraded (health_config (cw_env w)) (cw_health w) (ln_id lane) (cw_now w))
              then (False, s)
              else
                let s1 = s\<lparr>ct_audit := audit_reservation (cw_now w)
                           \<lparr>ae_mode = rc_mode cfg,
                            ae_action = (if rc_mode cfg = ModeEnforce then ''probe'' else ''would-probe''),
                            ae_taskId = to_str (if truthy (jget task ''id'') then jget task ''id'' else JStr name),
                            ae_source = source, ae_lane = ln_id lane, ae_holder = ln_id lane, ae_evidence = Probe\<rparr>
                           (ct_audit s)\<rparr>
                in if rc_mode cfg \<noteq> ModeEnforce \<or> 1 \<le> ct_probes s1 then (False, s1)
                   else (True, s1\<lparr>ct_probes := ct_probes s1 + 1\<rparr>))
      | _ \<Rightarrow> (True, s))"

definition task_views :: "'w claim_world \<Rightarrow> jv \<Rightarrow> jv \<Rightarrow> lane_views" where
  "task_views w task source =
     \<lparr>lv_alive = lane_alive w,
      lv_avoided = (\<lambda>i. lane_avoided (cw_env w) task i (length (cw_lanes w)) None),
      lv_probing = (\<lambda>l. probe_selected (cw_hash w) task source (registered_probe w source) l (cw_lanes w) (cw_rows w) (cfg_of w) False),
      lv_idle = (\<lambda>i. lane_idle_from_heartbeat (cw_heartbeats w) i (cw_now w))\<rparr>"

definition reservation_for :: "'w claim_world \<Rightarrow> jv \<Rightarrow> real \<Rightarrow> reservation option" where
  "reservation_for w task mtime =
     (if \<not> truthy task \<or> this_lane w = None \<or> rc_mode (cfg_of w) = ModeOff
         \<or> truthy (jget task ''humanQueued'') \<or> truthy (jget task ''premiumPriority'') then None
      else let source = resolve_source_name (cw_aliases w) task
           in decide_reservation (task_views w task source) source (this_lane w) (cw_lanes w) (cw_rows w)
                (cw_now w - mtime) (cfg_of w))"

definition reservation_gate :: "'w claim_world \<Rightarrow> string \<Rightarrow> jv \<Rightarrow> real \<Rightarrow> claim_state \<Rightarrow> bool \<times> claim_state" where
  "reservation_gate w name task mtime s =
     (case reservation_for w task mtime of
        None \<Rightarrow> (True, s)
      | Some r \<Rightarrow>
          (let mode = rc_mode (cfg_of w)
           in (mode \<noteq> ModeEnforce,
               s\<lparr>ct_audit := audit_reservation (cw_now w)
                  \<lparr>ae_mode = mode, ae_action = (if mode = ModeEnforce then ''held'' else ''would-hold''),
                   ae_taskId = to_str (if truthy (jget task ''id'') then jget task ''id'' else JStr name),
                   ae_source = resolve_source_name (cw_aliases w) task, ae_lane = cw_instance w,
                   ae_holder = rv_holder r, ae_evidence = rv_evidence r\<rparr>
                  (ct_audit s)\<rparr>)))"

definition scope_allows :: "'w claim_world \<Rightarrow> jv \<Rightarrow> bool" where
  "scope_allows w task \<longleftrightarrow>
     (if \<not> truthy task then True
      else source_eligible_here (cw_env w)
             (map_option src_scope (get_registered_source (cw_registry w) (resolve_source_name (cw_aliases w) task)))
             (cw_coreActive w))"

section \<open>Ranking a task\<close>

definition no_hub_key :: hub_key where
  "no_hub_key = \<lparr>hk_found = False, hk_rank = PInf, hk_createdAt = None, hk_remaining = None\<rparr>"

definition registered_name :: "'w claim_world \<Rightarrow> jv \<Rightarrow> jv" where
  "registered_name w task =
     (if truthy task \<and> jget task ''source'' = JStr ''derived_task'' then JStr ''derived_task''
      else if truthy task then resolve_source_name (cw_aliases w) task else JNull)"

definition hook_of :: "'w claim_world \<Rightarrow> jv \<Rightarrow> order_hook" where
  "hook_of w task =
     (let name = registered_name w task
      in case (if truthy name then get_registered_source (cw_registry w) name else None) of
           Some s \<Rightarrow> (case src_hubOrder s of Some h \<Rightarrow> h | None \<Rightarrow> order_candidate)
         | None \<Rightarrow> order_candidate)"

definition rank_of :: "'w claim_world \<Rightarrow> bool \<Rightarrow> jv \<Rightarrow> jnum" where
  "rank_of w hub_tier task =
     rank_priority_of_task (cw_registry w) (cw_aliases w) (cw_bands w) (cw_queue w) (Some hub_tier) task"

definition demote :: "'w claim_world \<Rightarrow> jv \<Rightarrow> jnum \<Rightarrow> jnum" where
  "demote w task p =
     (if p = NInf \<and> rotation_demoted (cw_env w) (Fin (cw_now w)) task then ROTATION_DEMOTED_PRIORITY else p)"

definition row_for_task :: "'w claim_world \<Rightarrow> string \<Rightarrow> jv \<Rightarrow> real \<Rightarrow> bool \<Rightarrow> hub_key \<Rightarrow> claim_row" where
  "row_for_task w name task mtime hub_tier hk =
     (let priority = demote w task (rank_of w hub_tier task)
      in \<lparr>cl_name = name, cl_id = task_id_of task name, cl_hubId = hub_id_for_task task, cl_priority = priority,
          cl_natural = (if hub_tier then rank_of w False task else priority),
          cl_hubTier = hub_tier, cl_mtime = mtime,
          cl_hubKey = (if hk_found hk then hk else no_hub_key), cl_premium = is_premium task\<rparr>)"

definition rank_row :: "'w claim_world \<Rightarrow> string \<Rightarrow> jv \<Rightarrow> real \<Rightarrow> hub_cache \<Rightarrow> claim_row \<times> hub_cache" where
  "rank_row w name task mtime keys =
     (if truthy task
      then let ((hub_tier, hk), keys') = hook_of w task (cw_queue w) task keys
           in (row_for_task w name task mtime hub_tier hk, keys')
      else (row_for_task w name task mtime False no_hub_key, keys))"

section \<open>One task, and the whole listing\<close>

definition claim_step :: "'w claim_world \<Rightarrow> entry \<Rightarrow> claim_state \<Rightarrow> claim_state" where
  "claim_step w e s =
     (case e of (name, task, mtime) \<Rightarrow>
        if pinned_elsewhere w task then s
        else if pinned_here w task
        then s\<lparr>ct_pinned := ct_pinned s @ [\<lparr>pn_name = name, pn_mtime = mtime, pn_premium = is_premium task\<rparr>]\<rparr>
        else if avoided_here w task then s
        else let (pass1, s1) = class_gate w name task s
        in if \<not> pass1 then s1
        else let (pass2, s2) = reservation_gate w name task mtime s1
        in if \<not> pass2 then s2
        else if \<not> scope_allows w task then s2
        else let (row, keys) = rank_row w name task mtime (ct_keys s2)
        in s2\<lparr>ct_rankable := ct_rankable s2 @ [row], ct_keys := keys\<rparr>)"

definition claim_start :: "audit_log \<Rightarrow> claim_state" where
  "claim_start lg = \<lparr>ct_pinned = [], ct_rankable = [], ct_probes = 0, ct_keys = Map.empty, ct_audit = lg\<rparr>"

definition claim_scan :: "'w claim_world \<Rightarrow> entry list \<Rightarrow> audit_log \<Rightarrow> claim_state" where
  "claim_scan w entries lg = fold (claim_step w) entries (claim_start lg)"

definition compare_pinned :: "pinned_row \<Rightarrow> pinned_row \<Rightarrow> jnum" where
  "compare_pinned a b = jsub (Fin (pn_mtime a)) (Fin (pn_mtime b))"

definition compare_rows :: "claim_row \<Rightarrow> claim_row \<Rightarrow> jnum" where
  "compare_rows a b =
     num_or (jsub (cl_priority a) (cl_priority b))
       (num_or (compare_hub_keys (cl_hubKey a) (cl_hubKey b)) (jsub (Fin (cl_mtime a)) (Fin (cl_mtime b))))"

section \<open>The audit of hub work, and the lane preference\<close>

record hub_audit =
  ha_taskId :: jv
  ha_hubId :: "string option"
  ha_hubRank :: jnum
  ha_naturalRank :: jnum
  ha_displacedTaskId :: jv
  ha_displacedRank :: jnum

definition displaced_by :: "claim_row \<Rightarrow> claim_row list \<Rightarrow> claim_row option" where
  "displaced_by h rest = find (\<lambda>r. \<not> cl_hubTier r \<and> jlt (cl_natural r) (cl_natural h)) rest"

definition record_hub_tier_audit :: "claim_row list \<Rightarrow> hub_audit list \<Rightarrow> hub_audit list" where
  "record_hub_tier_audit rankable lg =
     (case rankable of
        [] \<Rightarrow> lg
      | h # rest \<Rightarrow>
          if \<not> cl_hubTier h \<or> cl_priority h \<noteq> HUB_TIER_PRIORITY then lg
          else (case displaced_by h rest of
                  None \<Rightarrow> lg
                | Some d \<Rightarrow>
                    if lg \<noteq> [] \<and> strict_eq (ha_taskId (last lg)) (cl_id h)
                       \<and> strict_eq (ha_displacedTaskId (last lg)) (cl_id d) then lg
                    else lg @ [\<lparr>ha_taskId = cl_id h, ha_hubId = cl_hubId h, ha_hubRank = hk_rank (cl_hubKey h),
                                ha_naturalRank = cl_natural h, ha_displacedTaskId = cl_id d,
                                ha_displacedRank = cl_natural d\<rparr>]))"

definition LANE_PREFERENCE_GRACE_SECS_DEFAULT :: jnum where "LANE_PREFERENCE_GRACE_SECS_DEFAULT = Fin 120"
definition PREFERRED_LANE_HEARTBEAT_FRESH_MS :: real where "PREFERRED_LANE_HEARTBEAT_FRESH_MS = 90 * 1000"

definition lane_preference_grace_ms :: "env \<Rightarrow> real" where
  "lane_preference_grace_ms e =
     (case (case e ''AGENT_MANAGER_LANE_PREFERENCE_GRACE_SECS'' of
              None \<Rightarrow> LANE_PREFERENCE_GRACE_SECS_DEFAULT
            | Some s \<Rightarrow> if s = [] then LANE_PREFERENCE_GRACE_SECS_DEFAULT else str_to_number s) of
        Fin secs \<Rightarrow> if 0 < secs then secs * 1000 else 0
      | _ \<Rightarrow> 0)"

definition preferred_lane_is_idle :: "string \<Rightarrow> heartbeats \<Rightarrow> lane list \<Rightarrow> real \<Rightarrow> bool" where
  "preferred_lane_is_idle instance_id hbs lanes now =
     (if length lanes < 2 then False
      else let preferred = ln_id (hd lanes)
           in if preferred = instance_id \<or> \<not> (\<exists>l\<in>set lanes. ln_id l = instance_id) then False
              else (case hbs preferred of
                      Throws \<Rightarrow> False
                    | Returns hb \<Rightarrow>
                        \<not> nullish hb \<and> jget hb ''status'' = JStr ''idle''
                        \<and> (case date_parse (jget hb ''lastHeartbeat'') of
                              Fin t \<Rightarrow> 0 \<le> now - t \<and> now - t \<le> PREFERRED_LANE_HEARTBEAT_FRESH_MS
                            | _ \<Rightarrow> False)))"

definition leave_head :: "'w claim_world \<Rightarrow> claim_row list \<Rightarrow> claim_row list" where
  "leave_head w rankable =
     (let grace = lane_preference_grace_ms (cw_env w)
      in case rankable of
           [] \<Rightarrow> []
         | h # rest \<Rightarrow>
             if 0 < grace \<and> cw_now w - cl_mtime h < grace
                \<and> preferred_lane_is_idle (cw_instance w) (cw_heartbeats w) (cw_lanes w) (cw_now w)
             then rest else h # rest)"

section \<open>The call\<close>

record claim_disk =
  cd_disk :: disk
  cd_saved :: "cache_state option"
  cd_writable :: bool
  cd_audit :: audit_log
  cd_hubAudit :: "hub_audit list"

definition claim_order :: "'w claim_world \<Rightarrow> claim_state \<Rightarrow> pinned_row list \<times> claim_row list" where
  "claim_order w s = (js_sort compare_pinned (ct_pinned s), js_sort compare_rows (ct_rankable s))"

fun read_entries :: "disk \<Rightarrow> string list \<Rightarrow> queue_cache \<Rightarrow> entry list \<times> queue_cache" where
  "read_entries d [] c = ([], c)"
| "read_entries d (name # names) c =
     (let (r, c1) = read_task_cached d name c; (es, c2) = read_entries d names c1
      in ((name, fst r, snd r) # es, c2))"

definition pick_claimable_tasks ::
  "'w claim_world \<Rightarrow> string \<Rightarrow> claim_disk \<Rightarrow> (string \<times> bool) list \<times> claim_disk" where
  "pick_claimable_tasks w pending_dir cd =
     (let (names, c1) = cache_names (cw_now w) (cd_disk cd) (open_queue_cache (cw_env w) (cd_saved cd) pending_dir)
      in if names = [] then ([], cd)
         else
           let (entries, c2) = read_entries (cd_disk cd) names c1;
               s = claim_scan w entries (cd_audit cd);
               (pinned, rankable) = claim_order w s;
               hub_log = record_hub_tier_audit rankable (cd_hubAudit cd);
               left = leave_head w rankable;
               (_, saved, _) = cache_save (cd_writable cd) c2 (cd_saved cd)
           in (map (\<lambda>p. (pn_name p, pn_premium p)) pinned @ map (\<lambda>r. (cl_name r, cl_premium r)) left,
               cd\<lparr>cd_saved := saved, cd_audit := ct_audit s, cd_hubAudit := hub_log\<rparr>))"

definition pick_next_pending_task :: "'w claim_world \<Rightarrow> string \<Rightarrow> claim_disk \<Rightarrow> string option" where
  "pick_next_pending_task w pending_dir cd =
     (case fst (pick_claimable_tasks w pending_dir cd) of [] \<Rightarrow> None | (n, _) # _ \<Rightarrow> if n = [] then None else Some n)"

section \<open>What one task does to the scan\<close>

lemma class_gate_frame [simp]:
  "ct_pinned (snd (class_gate w name task s)) = ct_pinned s"
  "ct_rankable (snd (class_gate w name task s)) = ct_rankable s"
  "ct_keys (snd (class_gate w name task s)) = ct_keys s"
  by (simp_all add: class_gate_def Let_def split: bool.splits option.splits)

lemma reservation_gate_frame [simp]:
  "ct_pinned (snd (reservation_gate w name task mtime s)) = ct_pinned s"
  "ct_rankable (snd (reservation_gate w name task mtime s)) = ct_rankable s"
  "ct_keys (snd (reservation_gate w name task mtime s)) = ct_keys s"
  "ct_probes (snd (reservation_gate w name task mtime s)) = ct_probes s"
  by (simp_all add: reservation_gate_def Let_def split: option.splits)

text \<open>The gates of a task before its rank; \<open>admit\<close> is the code's chain of \<open>continue\<close>s.\<close>

definition admit :: "'w claim_world \<Rightarrow> entry \<Rightarrow> claim_state \<Rightarrow> bool \<times> claim_state" where
  "admit w e s =
     (case e of (name, task, mtime) \<Rightarrow>
        if pinned_elsewhere w task \<or> pinned_here w task \<or> avoided_here w task then (False, s)
        else let (pass1, s1) = class_gate w name task s
        in if \<not> pass1 then (False, s1)
        else let (pass2, s2) = reservation_gate w name task mtime s1
        in (pass2 \<and> scope_allows w task, s2))"

lemma claim_step_admit:
  "claim_step w (name, task, mtime) s =
     (if pinned_here w task
      then s\<lparr>ct_pinned := ct_pinned s @ [\<lparr>pn_name = name, pn_mtime = mtime, pn_premium = is_premium task\<rparr>]\<rparr>
      else let (ok, s1) = admit w (name, task, mtime) s
           in if ok then let (row, keys) = rank_row w name task mtime (ct_keys s1)
                         in s1\<lparr>ct_rankable := ct_rankable s1 @ [row], ct_keys := keys\<rparr>
              else s1)"
  by (auto simp: claim_step_def admit_def Let_def pinned_elsewhere_def pinned_here_def split: prod.splits)

lemma admit_frame [simp]:
  "ct_pinned (snd (admit w e s)) = ct_pinned s"
  "ct_rankable (snd (admit w e s)) = ct_rankable s"
  "ct_keys (snd (admit w e s)) = ct_keys s"
  by (simp_all add: admit_def case_prod_beta Let_def)

lemma admit_passes:
  assumes "fst (admit w (name, task, mtime) s)"
  shows "\<not> pinned_elsewhere w task" and "\<not> pinned_here w task" and "\<not> avoided_here w task" and "scope_allows w task"
  using assms by (auto simp: admit_def Let_def split: prod.splits if_splits)

lemma claim_step_cases:
  "claim_step w (name, task, mtime) s =
     (if pinned_here w task
      then s\<lparr>ct_pinned := ct_pinned s @ [\<lparr>pn_name = name, pn_mtime = mtime, pn_premium = is_premium task\<rparr>]\<rparr>
      else if fst (admit w (name, task, mtime) s)
      then (snd (admit w (name, task, mtime) s))
             \<lparr>ct_rankable := ct_rankable s @ [fst (rank_row w name task mtime (ct_keys s))],
              ct_keys := snd (rank_row w name task mtime (ct_keys s))\<rparr>
      else snd (admit w (name, task, mtime) s))"
  by (simp add: claim_step_admit case_prod_beta Let_def)

section \<open>The rows of a scan\<close>

definition hooks_ok :: "'w registry \<Rightarrow> bool" where
  "hooks_ok reg \<longleftrightarrow> (\<forall>e\<in>set reg. \<forall>h. src_hubOrder (snd e) = Some h \<longrightarrow> (\<exists>answer. ordering_hook h answer))"

definition world_ok :: "'w claim_world \<Rightarrow> bool" where
  "world_ok w \<longleftrightarrow> priorities_ordered (cw_registry w) \<and> hooks_ok (cw_registry w)"

definition fresh_row :: "'w claim_world \<Rightarrow> entry \<Rightarrow> claim_row" where
  "fresh_row w e = (case e of (name, task, mtime) \<Rightarrow> fst (rank_row w name task mtime Map.empty))"

lemma hook_of_ok:
  assumes "hooks_ok (cw_registry w)"
  obtains answer where "ordering_hook (hook_of w task) answer"
proof -
  have "\<exists>answer. ordering_hook h answer"
    if "get_registered_source (cw_registry w) n = Some s" "src_hubOrder s = Some h" for n s h
  proof -
    from that(1) obtain k where "(k, s) \<in> set (cw_registry w)"
      by (auto simp: get_registered_source_def split: jv.splits dest: map_of_SomeD)
    with assms that(2) show ?thesis by (force simp: hooks_ok_def)
  qed
  then have "\<exists>answer. ordering_hook (hook_of w task) answer"
    using default_order.ordering_hook_axioms by (auto simp: hook_of_def Let_def split: option.splits if_splits)
  then show thesis using that by blast
qed

lemma rank_row_fresh:
  assumes "hooks_ok (cw_registry w)" and "cache_ok (cw_queue w) keys"
  shows "fst (rank_row w name task mtime keys) = fresh_row w (name, task, mtime)"
    and "cache_ok (cw_queue w) (snd (rank_row w name task mtime keys))"
proof -
  obtain answer where h: "ordering_hook (hook_of w task) answer" using hook_of_ok [OF assms(1)] .
  show "fst (rank_row w name task mtime keys) = fresh_row w (name, task, mtime)"
    using ordering_hook.cache_irrelevant [OF h assms(2) cache_ok_empty, of task]
    by (simp add: rank_row_def fresh_row_def case_prod_beta)
  show "cache_ok (cw_queue w) (snd (rank_row w name task mtime keys))"
    using ordering_hook.hook_cache [OF h assms(2), of task] assms(2)
    by (simp add: rank_row_def case_prod_beta)
qed

text \<open>The entries a scan ranks, in the order of the listing.\<close>

fun admitted :: "'w claim_world \<Rightarrow> entry list \<Rightarrow> claim_state \<Rightarrow> entry list" where
  "admitted w [] s = []"
| "admitted w (e # es) s =
     (if \<not> pinned_here w (fst (snd e)) \<and> fst (admit w e s) then e # admitted w es (claim_step w e s)
      else admitted w es (claim_step w e s))"

lemma scan_pinned:
  "ct_pinned (fold (claim_step w) es s) =
     ct_pinned s @ map (\<lambda>(n, t, m). \<lparr>pn_name = n, pn_mtime = m, pn_premium = is_premium t\<rparr>)
                     (filter (\<lambda>(n, t, m). pinned_here w t) es)"
  by (induction es arbitrary: s) (auto simp: claim_step_cases)

lemma claim_step_cache:
  "hooks_ok (cw_registry w) \<Longrightarrow> cache_ok (cw_queue w) (ct_keys s) \<Longrightarrow> cache_ok (cw_queue w) (ct_keys (claim_step w e s))"
  by (cases e) (simp add: claim_step_cases rank_row_fresh(2))

lemma scan_rankable:
  assumes "hooks_ok (cw_registry w)" and "cache_ok (cw_queue w) (ct_keys s)"
  shows "ct_rankable (fold (claim_step w) es s) = ct_rankable s @ map (fresh_row w) (admitted w es s)"
  using assms(2)
proof (induction es arbitrary: s)
  case Nil
  then show ?case by simp
next
  case (Cons e es)
  obtain name task mtime where e: "e = (name, task, mtime)" by (cases e)
  have "ct_rankable (claim_step w e s) =
      ct_rankable s @ (if \<not> pinned_here w task \<and> fst (admit w e s) then [fresh_row w e] else [])"
    by (simp add: e claim_step_cases rank_row_fresh(1) [OF assms(1) Cons.prems])
  with Cons.IH [OF claim_step_cache [OF assms(1) Cons.prems]] show ?case by (simp add: e)
qed

lemma admitted_subseq: "subseq (admitted w es s) es"
  by (induction es arbitrary: s) auto

lemma admitted_passes:
  "e \<in> set (admitted w es s) \<Longrightarrow>
     \<not> pinned_elsewhere w (fst (snd e)) \<and> \<not> pinned_here w (fst (snd e)) \<and> \<not> avoided_here w (fst (snd e))
     \<and> scope_allows w (fst (snd e))"
proof (induction es arbitrary: s)
  case Nil
  then show ?case by simp
next
  case (Cons a es)
  show ?case
  proof (cases "e = a \<and> fst (admit w a s)")
    case True
    then show ?thesis using admit_passes [of w "fst a" "fst (snd a)" "snd (snd a)" s] by auto
  next
    case False
    with Cons show ?thesis by (auto split: if_splits)
  qed
qed

section \<open>The allowlist and its probes\<close>

definition class_allows :: "'w claim_world \<Rightarrow> jv \<Rightarrow> bool" where
  "class_allows w task \<longleftrightarrow> \<not> truthy task \<or> lane_allows_source (this_lane w) (resolve_source_name (cw_aliases w) task)"

definition probe_offered :: "'w claim_world \<Rightarrow> jv \<Rightarrow> bool" where
  "probe_offered w task \<longleftrightarrow>
     (case this_lane w of
        None \<Rightarrow> False
      | Some lane \<Rightarrow>
          (let source = resolve_source_name (cw_aliases w) task
           in probe_selected (cw_hash w) task source (registered_probe w source) lane (cw_lanes w) (cw_rows w) (cfg_of w)
                (lane_degraded (health_config (cw_env w)) (cw_health w) (ln_id lane) (cw_now w))))"

lemma class_gate_value:
  "fst (class_gate w name task s) \<longleftrightarrow>
     class_allows w task \<or> (rc_mode (cfg_of w) = ModeEnforce \<and> probe_offered w task \<and> ct_probes s = 0)"
  "ct_probes (snd (class_gate w name task s)) =
     ct_probes s + (if \<not> class_allows w task \<and> fst (class_gate w name task s) then 1 else 0)"
  by (auto simp: class_gate_def class_allows_def probe_offered_def lane_allows_source_def Let_def
      split: bool.splits option.splits)

definition held :: "'w claim_world \<Rightarrow> entry \<Rightarrow> bool" where
  "held w e \<longleftrightarrow> (case e of (name, task, mtime) \<Rightarrow>
     rc_mode (cfg_of w) = ModeEnforce \<and> reservation_for w task mtime \<noteq> None)"

lemma reservation_gate_value:
  "fst (reservation_gate w name task mtime s) \<longleftrightarrow> \<not> held w (name, task, mtime)"
  by (auto simp: reservation_gate_def held_def Let_def split: option.splits)

definition gates_open :: "'w claim_world \<Rightarrow> entry \<Rightarrow> bool" where
  "gates_open w e \<longleftrightarrow> (case e of (name, task, mtime) \<Rightarrow>
     \<not> pinned_elsewhere w task \<and> \<not> pinned_here w task \<and> \<not> avoided_here w task \<and> scope_allows w task
     \<and> \<not> held w (name, task, mtime))"

lemma admit_value:
  "fst (admit w (name, task, mtime) s) \<longleftrightarrow>
     gates_open w (name, task, mtime) \<and>
     (class_allows w task \<or> (rc_mode (cfg_of w) = ModeEnforce \<and> probe_offered w task \<and> ct_probes s = 0))"
  by (auto simp: admit_def gates_open_def Let_def case_prod_beta reservation_gate_value class_gate_value(1))

text \<open>Unless it runs in enforce mode, capability routing changes nothing a worker is offered.\<close>

lemma admitted_not_enforced:
  assumes "rc_mode (cfg_of w) \<noteq> ModeEnforce"
  shows "admitted w es s = filter (\<lambda>e. gates_open w e \<and> class_allows w (fst (snd e))) es"
proof (induction es arbitrary: s)
  case Nil
  then show ?case by simp
next
  case (Cons e es)
  then show ?case using assms by (cases e) (auto simp: admit_value gates_open_def)
qed

lemma admit_probes:
  "ct_probes (snd (admit w e s)) \<le> ct_probes s \<or> ct_probes s = 0 \<and> ct_probes (snd (admit w e s)) = 1"
  "fst (admit w e s) \<Longrightarrow> \<not> class_allows w (fst (snd e)) \<Longrightarrow> ct_probes s = 0 \<and> ct_probes (snd (admit w e s)) = 1"
  "ct_probes s \<le> ct_probes (snd (admit w e s))"
  by (cases e; auto simp: admit_def Let_def case_prod_beta class_gate_value)+

lemma claim_step_probes: "\<not> pinned_here w (fst (snd e)) \<Longrightarrow> ct_probes (claim_step w e s) = ct_probes (snd (admit w e s))"
  "pinned_here w (fst (snd e)) \<Longrightarrow> ct_probes (claim_step w e s) = ct_probes s"
  by (cases e; simp add: claim_step_cases)+

lemma admitted_one_probe:
  "length (filter (\<lambda>e. \<not> class_allows w (fst (snd e))) (admitted w es s)) \<le> (if ct_probes s = 0 then 1 else 0)"
proof (induction es arbitrary: s)
  case Nil
  then show ?case by simp
next
  case (Cons e es)
  show ?case
  proof (cases "pinned_here w (fst (snd e))")
    case True
    then show ?thesis using Cons [of "claim_step w e s"] by (simp add: claim_step_probes)
  next
    case False
    then show ?thesis
      using Cons [of "claim_step w e s"] admit_probes [where w = w and e = e and s = s]
      by (auto simp: claim_step_probes split: if_splits)
  qed
qed

section \<open>The order of the rows\<close>

definition row_key :: "claim_row \<Rightarrow> jnum \<times> (jnum \<times> jnum \<times> bool \<times> string) \<times> jnum" where
  "row_key r = (cl_priority r, hub_sort_key (cl_hubKey r), Fin (cl_mtime r))"

definition row_ok :: "claim_row \<Rightarrow> bool" where
  "row_ok r \<longleftrightarrow> cl_priority r \<noteq> NaN \<and> hk_rank (cl_hubKey r) \<noteq> NaN"

lemma chained_front:
  fixes x y :: "'k :: linorder" and u v :: "'l :: linorder"
  assumes "num_truthy c \<longleftrightarrow> x \<noteq> y" and "keeps_front c \<longleftrightarrow> x \<le> y" and "keeps_front d \<longleftrightarrow> u \<le> v"
  shows "keeps_front (num_or c d) \<longleftrightarrow> (x, u) \<le> (y, v)"
  using assms by (cases "x = y") (auto simp: num_or_def less_eq_prod_def)

lemma compare_rows_front:
  assumes "row_ok a" and "row_ok b"
  shows "keeps_front (compare_rows a b) \<longleftrightarrow> row_key a \<le> row_key b"
proof -
  let ?rest = "num_or (compare_hub_keys (cl_hubKey a) (cl_hubKey b)) (jsub (Fin (cl_mtime a)) (Fin (cl_mtime b)))"
  have "keeps_front ?rest \<longleftrightarrow> snd (row_key a) \<le> snd (row_key b)"
    using assms unfolding row_key_def snd_conv
    by (intro chained_front compare_hub_keys_truthy compare_hub_keys_front) (auto simp: row_ok_def)
  then show ?thesis
    using assms by (simp add: compare_rows_def num_or_sub_front row_ok_def row_key_def less_eq_prod_def [of "(_, _)"])
       (auto simp: less_eq_prod_def)
qed

interpretation row_order: comparator compare_rows row_ok row_key
  by unfold_locales (rule compare_rows_front)

interpretation pinned_order: comparator compare_pinned "\<lambda>_. True" pn_mtime
  by unfold_locales (simp add: compare_pinned_def)

lemma no_hub_key_rank [simp]: "hk_rank no_hub_key = PInf"
  by (simp add: no_hub_key_def)

lemma rank_row_simps:
  "cl_name (fst (rank_row w name task mtime c)) = name"
  "cl_mtime (fst (rank_row w name task mtime c)) = mtime"
  "cl_premium (fst (rank_row w name task mtime c)) = is_premium task"
  by (simp_all add: rank_row_def row_for_task_def case_prod_beta Let_def)

lemma fresh_row_simps [simp]:
  "cl_name (fresh_row w (name, task, mtime)) = name"
  "cl_mtime (fresh_row w (name, task, mtime)) = mtime"
  "cl_premium (fresh_row w (name, task, mtime)) = is_premium task"
  by (simp_all add: fresh_row_def rank_row_simps)

lemma demote_not_NaN: "p \<noteq> NaN \<Longrightarrow> demote w task p \<noteq> NaN"
  by (simp add: demote_def ROTATION_DEMOTED_PRIORITY_def)

lemma fresh_row_ok:
  assumes "world_ok w"
  shows "row_ok (fresh_row w e)"
proof -
  obtain name task mtime where e: "e = (name, task, mtime)" by (cases e)
  have h: "hooks_ok (cw_registry w)" and p: "priorities_ordered (cw_registry w)"
    using assms by (auto simp: world_ok_def)
  obtain answer where "ordering_hook (hook_of w task) answer" using hook_of_ok [OF h] .
  then have "hk_rank (snd (fst (hook_of w task (cw_queue w) task Map.empty))) \<noteq> NaN"
    by (simp add: ordering_hook.hook_answer ordering_hook.hook_rank)
  then show ?thesis
    by (simp add: e fresh_row_def rank_row_def row_for_task_def row_ok_def case_prod_beta Let_def
        rank_of_def demote_not_NaN rank_not_NaN [OF p])
qed

section \<open>The result of a call\<close>

definition call_entries :: "'w claim_world \<Rightarrow> string \<Rightarrow> claim_disk \<Rightarrow> entry list" where
  "call_entries w dir cd =
     (let (names, c1) = cache_names (cw_now w) (cd_disk cd) (open_queue_cache (cw_env w) (cd_saved cd) dir)
      in fst (read_entries (cd_disk cd) names c1))"

definition pinned_rows :: "'w claim_world \<Rightarrow> entry list \<Rightarrow> pinned_row list" where
  "pinned_rows w es = map (\<lambda>(n, t, m). \<lparr>pn_name = n, pn_mtime = m, pn_premium = is_premium t\<rparr>)
                        (filter (\<lambda>(n, t, m). pinned_here w t) es)"

definition ranked_rows :: "'w claim_world \<Rightarrow> string \<Rightarrow> claim_disk \<Rightarrow> claim_row list" where
  "ranked_rows w dir cd =
     js_sort compare_rows (map (fresh_row w) (admitted w (call_entries w dir cd) (claim_start (cd_audit cd))))"

lemma pick_result:
  assumes "hooks_ok (cw_registry w)"
  shows "fst (pick_claimable_tasks w dir cd) =
     map (\<lambda>p. (pn_name p, pn_premium p)) (js_sort compare_pinned (pinned_rows w (call_entries w dir cd)))
     @ map (\<lambda>r. (cl_name r, cl_premium r)) (leave_head w (ranked_rows w dir cd))"
proof -
  obtain names c1 where n: "cache_names (cw_now w) (cd_disk cd) (open_queue_cache (cw_env w) (cd_saved cd) dir) = (names, c1)"
    by (cases "cache_names (cw_now w) (cd_disk cd) (open_queue_cache (cw_env w) (cd_saved cd) dir)")
  obtain es c2 where r: "read_entries (cd_disk cd) names c1 = (es, c2)"
    by (cases "read_entries (cd_disk cd) names c1")
  show ?thesis
  proof (cases "names = []")
    case True
    with n r show ?thesis
      by (simp add: pick_claimable_tasks_def call_entries_def ranked_rows_def pinned_rows_def leave_head_def Let_def)
  next
    case False
    have "ct_pinned (claim_scan w es (cd_audit cd)) = pinned_rows w es"
      by (simp add: claim_scan_def scan_pinned pinned_rows_def claim_start_def)
    moreover have "ct_rankable (claim_scan w es (cd_audit cd)) = map (fresh_row w) (admitted w es (claim_start (cd_audit cd)))"
      using scan_rankable [OF assms, of "claim_start (cd_audit cd)"] by (simp add: claim_scan_def claim_start_def)
    ultimately show ?thesis using False n r
      by (simp add: pick_claimable_tasks_def call_entries_def ranked_rows_def claim_order_def Let_def case_prod_beta)
  qed
qed

lemma leave_head_cases: "leave_head w rs = rs \<or> (rs \<noteq> [] \<and> leave_head w rs = tl rs)"
  by (auto simp: leave_head_def Let_def split: list.splits)

lemma leave_head_drop: "\<exists>k\<le>1. leave_head w rs = drop k rs"
  by (cases rs) (auto simp: leave_head_def Let_def intro: exI [of _ 0] exI [of _ 1])

lemma ranked_rows_ok: "world_ok w \<Longrightarrow> r \<in> set (ranked_rows w dir cd) \<Longrightarrow> row_ok r"
  by (auto simp: ranked_rows_def fresh_row_ok)

lemma ranked_rows_sorted: "world_ok w \<Longrightarrow> sorted (map row_key (ranked_rows w dir cd))"
  unfolding ranked_rows_def by (rule row_order.sorted_js_sort) (auto simp: fresh_row_ok)

lemma read_entries_names: "map fst (fst (read_entries d names c)) = names"
  by (induction names arbitrary: c) (auto simp: Let_def case_prod_beta)

end
