(* ===== verification/ClaimListing.thy ===== *)
theory ClaimListing
  imports ClaimOrder JsObject
begin

text \<open>
  The rest of \<open>src/next-claimable-task.js\<close>: the read-only list of tasks an operator may assign to a worker
  (\<open>listAssignableTasks\<close>). Every pending task is listed, the tasks other lanes are drafting, and the adhoc tasks sorted into
  premium, hub tier and ordinary ones. A directory that cannot be listed is \<open>None\<close>, a file that cannot be read is \<open>null\<close>.
\<close>

record listing_world =
  lw_pending :: "string list option"
  lw_pendingTask :: "string \<Rightarrow> jv"
  lw_lanes :: "string list option"
  lw_laneNames :: "string \<Rightarrow> string list option"
  lw_laneTask :: "string \<Rightarrow> string \<Rightarrow> jv"
  lw_adhoc :: "string list option"
  lw_adhocTask :: "string \<Rightarrow> jv"
  lw_queue :: queue_store

record assignable_row =
  ar_id :: jv
  ar_title :: jv
  ar_source :: jv
  ar_location :: string
  ar_pinnedTo :: "jv option"
  ar_premium :: bool

definition json_names :: "string list option \<Rightarrow> string list" where
  "json_names listed = (case listed of Some ns \<Rightarrow> filter (ends_with ''.json'') ns | None \<Rightarrow> [])"

text \<open>The files whose content is truthy, with it.\<close>

definition read_tasks :: "(string \<Rightarrow> jv) \<Rightarrow> string list \<Rightarrow> (string \<times> jv) list" where
  "read_tasks read ns = filter (\<lambda>(name, task). truthy task) (map (\<lambda>name. (name, read name)) ns)"

definition value_or_null :: "jv \<Rightarrow> jv" where
  "value_or_null v = (if truthy v then v else JNull)"

definition pin_elsewhere :: "string \<Rightarrow> jv \<Rightarrow> jv" where
  "pin_elsewhere me task =
     (let p = jget task ''pinnedWorker'' in if truthy p \<and> p \<noteq> JStr me then p else JNull)"

definition assignable_row_of :: "string \<Rightarrow> jv option \<Rightarrow> string \<times> jv \<Rightarrow> assignable_row" where
  "assignable_row_of location pin p =
     (case p of (name, task) \<Rightarrow>
       \<lparr>ar_id = task_id_of task name, ar_title = value_or_null (jget task ''title''), ar_source = value_or_null (jget task ''source''),
        ar_location = location, ar_pinnedTo = pin, ar_premium = truthy (jget task ''premiumPriority'')\<rparr>)"

definition pending_rows :: "string \<Rightarrow> listing_world \<Rightarrow> assignable_row list" where
  "pending_rows me w =
     map (\<lambda>p. assignable_row_of ''pending'' (Some (pin_elsewhere me (snd p))) p)
       (read_tasks (lw_pendingTask w) (json_names (lw_pending w)))"

definition other_lanes :: "string \<Rightarrow> listing_world \<Rightarrow> string list" where
  "other_lanes me w = (case lw_lanes w of Some ls \<Rightarrow> filter (\<lambda>l. l \<noteq> me) ls | None \<Rightarrow> [])"

definition drafting_rows :: "string \<Rightarrow> listing_world \<Rightarrow> assignable_row list" where
  "drafting_rows me w =
     concat (map (\<lambda>lane. map (assignable_row_of (''drafting:'' @ lane) None)
       (read_tasks (lw_laneTask w lane) (json_names (lw_laneNames w lane)))) (other_lanes me w))"

text \<open>The loop over the adhoc tasks threads the cache of hub keys; the result is the rows and the ids of the hub tier.\<close>

fun adhoc_walk :: "string \<Rightarrow> queue_store \<Rightarrow> (string \<times> jv) list \<Rightarrow> hub_cache \<Rightarrow> assignable_row list \<times> jv list" where
  "adhoc_walk me q [] keys = ([], [])"
| "adhoc_walk me q (p # ps) keys =
     (let (tier, keys') = is_hub_tier_task q (snd p) keys;
          row = assignable_row_of ''adhoc'' (Some (pin_elsewhere me (snd p))) p;
          (rows, ids) = adhoc_walk me q ps keys'
      in (row # rows, if tier then ar_id row # ids else ids))"

definition band_of :: "jv list \<Rightarrow> assignable_row \<Rightarrow> nat" where
  "band_of ids r = (if ar_premium r then 0 else if has_value ids (ar_id r) then 1 else 2)"

definition by_band :: "jv list \<Rightarrow> assignable_row \<Rightarrow> assignable_row \<Rightarrow> jnum" where
  "by_band ids a b = Fin (real (band_of ids a) - real (band_of ids b))"

definition list_assignable_tasks :: "string \<Rightarrow> listing_world \<Rightarrow> assignable_row list" where
  "list_assignable_tasks me w =
     (let (rows, ids) = adhoc_walk me (lw_queue w) (read_tasks (lw_adhocTask w) (json_names (lw_adhoc w))) Map.empty
      in pending_rows me w @ drafting_rows me w @ js_sort (by_band ids) rows)"

section \<open>Order and completeness\<close>

interpretation band_order: comparator "by_band ids" "\<lambda>_. True" "band_of ids" for ids
  by unfold_locales (auto simp: by_band_def)

lemma adhoc_walk_rows: "fst (adhoc_walk me q ps keys) = map (\<lambda>p. assignable_row_of ''adhoc'' (Some (pin_elsewhere me (snd p))) p) ps"
proof (induction ps arbitrary: keys)
  case (Cons p ps)
  show ?case
    using Cons.IH [of "snd (is_hub_tier_task q (snd p) keys)"] by (simp add: split_def Let_def)
qed simp

lemma assignable_locations:
  "r \<in> set (pending_rows me w) \<Longrightarrow> ar_location r = ''pending''"
  "r \<in> set (drafting_rows me w) \<Longrightarrow> \<exists>lane. ar_location r = ''drafting:'' @ lane \<and> lane \<noteq> me"
  by (auto simp: pending_rows_def drafting_rows_def assignable_row_of_def other_lanes_def split: option.splits)

text \<open>The list holds one row per readable task file, the pending ones first and in listing order; nothing this worker is drafting
  itself is in it; its adhoc rows are the premium ones, then those of the hub tier, then the others, each in listing order.\<close>

theorem assignable_complete:
  "\<exists>ids adhoc. list_assignable_tasks me w = pending_rows me w @ drafting_rows me w @ adhoc
     \<and> mset adhoc = image_mset (\<lambda>p. assignable_row_of ''adhoc'' (Some (pin_elsewhere me (snd p))) p)
         (mset (read_tasks (lw_adhocTask w) (json_names (lw_adhoc w))))
     \<and> sorted (map (band_of ids) adhoc)
     \<and> (\<forall>k. filter (\<lambda>r. band_of ids r = k) adhoc = filter (\<lambda>r. band_of ids r = k)
           (map (\<lambda>p. assignable_row_of ''adhoc'' (Some (pin_elsewhere me (snd p))) p) (read_tasks (lw_adhocTask w) (json_names (lw_adhoc w)))))"
proof -
  let ?ps = "read_tasks (lw_adhocTask w) (json_names (lw_adhoc w))"
  obtain rows ids where a: "adhoc_walk me (lw_queue w) ?ps Map.empty = (rows, ids)" by fastforce
  have rows: "rows = map (\<lambda>p. assignable_row_of ''adhoc'' (Some (pin_elsewhere me (snd p))) p) ?ps"
    using adhoc_walk_rows [of me "lw_queue w" ?ps Map.empty] a by simp
  have "list_assignable_tasks me w = pending_rows me w @ drafting_rows me w @ js_sort (by_band ids) rows"
    by (simp add: list_assignable_tasks_def a)
  moreover have "sorted (map (band_of ids) (js_sort (by_band ids) rows))" by (rule band_order.sorted_js_sort) simp
  moreover have "filter (\<lambda>r. band_of ids r = k) (js_sort (by_band ids) rows) = filter (\<lambda>r. band_of ids r = k) rows" for k
    by (rule band_order.stable_js_sort) simp
  ultimately show ?thesis by (intro exI [of _ ids] exI [of _ "js_sort (by_band ids) rows"]) (simp add: rows)
qed

end
