(* ===== verification/QueueSnapshot.thy ===== *)
theory QueueSnapshot
  imports QueueCache JsObject
begin

text \<open>
  The snapshot of \<open>src/queue-cache.js\<close>: every stage's task files read once per tick into one file, and reading it back
  while it is young. The stages' directories are an argument, as is whether the file can be written. The modification
  time of the file is the time of its writing.
\<close>

definition SNAPSHOT_TTL_MS :: real where "SNAPSHOT_TTL_MS = 30000"

definition SCAN_DIRS :: "string list" where
  "SCAN_DIRS = [''done'', ''review'', ''approved'', ''pending'', ''adhoc'', ''blocked'', ''needs-clarification'', ''awaiting-confirm'', ''drafting'']"

text \<open>What is at a name of a directory: its time and size if it is still there, and its text if it can be read.\<close>

record snap_entry =
  se_stat :: "(real \<times> nat) option"
  se_text :: "string option"

record snap_dir =
  sd_mtime :: real
  sd_names :: "string list"
  sd_entry :: "string \<Rightarrow> snap_entry"

definition snap_file :: "snap_entry \<Rightarrow> jv" where
  "snap_file f =
     (let (m, s) = (case se_stat f of Some st \<Rightarrow> st | None \<Rightarrow> (0, 0))
      in JObj [(''content'', case se_text f of Some t \<Rightarrow> JStr t | None \<Rightarrow> JNull),
               (''mtimeMs'', JNum (Fin m)), (''size'', JNum (Fin (real s)))])"

definition snap_stage :: "snap_dir \<Rightarrow> jv" where
  "snap_stage d =
     JObj [(''files'', JObj (map (\<lambda>n. (n, snap_file (sd_entry d n))) (filter (ends_with ''.json'') (sd_names d)))),
           (''mtime'', JNum (Fin (sd_mtime d)))]"

text \<open>A directory that is missing or cannot be listed is \<open>None\<close> and is skipped.\<close>

definition queue_snapshot :: "(string \<Rightarrow> snap_dir option) \<Rightarrow> jv" where
  "queue_snapshot dirs =
     JObj (List.map_filter (\<lambda>s. map_option (\<lambda>d. (s, snap_stage d)) (dirs s)) SCAN_DIRS)"

record snapshot_file =
  sn_mtime :: real
  sn_json :: "jv option"

text \<open>The answer is whether a snapshot file was written, and the file afterwards.\<close>

definition build_queue_snapshot :: "string \<Rightarrow> (string \<Rightarrow> snap_dir option) \<Rightarrow> real \<Rightarrow> bool \<Rightarrow> snapshot_file option \<Rightarrow> bool \<times> snapshot_file option" where
  "build_queue_snapshot pipeline_dir dirs now write_ok old =
     (if pipeline_dir = [] \<or> \<not> write_ok then (False, old)
      else (True, Some \<lparr>sn_mtime = now,
              sn_json = Some (JObj [(''snapshot'', queue_snapshot dirs), (''writtenAt'', JNum (Fin now)), (''ttl'', JNum (Fin SNAPSHOT_TTL_MS))])\<rparr>))"

text \<open>\<open>null\<close> unless the file and its payload are within their time to live.\<close>

definition read_queue_snapshot :: "snapshot_file option \<Rightarrow> real \<Rightarrow> jv" where
  "read_queue_snapshot file now =
     (case file of
        None \<Rightarrow> JNull
      | Some f \<Rightarrow>
          if SNAPSHOT_TTL_MS < now - sn_mtime f then JNull
          else case sn_json f of
            None \<Rightarrow> JNull
          | Some d \<Rightarrow>
              if truthy d \<and> truthy (jget d ''snapshot'') \<and> truthy (jget d ''writtenAt'')
                 \<and> jle (jsub (Fin now) (to_number (jget d ''writtenAt''))) (to_number (jget d ''ttl''))
              then jget d ''snapshot'' else JNull)"

text \<open>A snapshot that was written is what is read back for thirty seconds, and never afterwards.\<close>

theorem snapshot_roundtrip:
  assumes "build_queue_snapshot pipeline_dir dirs t True old = (True, file)" "t \<noteq> 0"
  shows "read_queue_snapshot file now = (if now - t \<le> SNAPSHOT_TTL_MS then queue_snapshot dirs else JNull)"
  using assms by (auto simp: build_queue_snapshot_def read_queue_snapshot_def queue_snapshot_def jle_def split: if_splits)

text \<open>What the snapshot holds of a stage.\<close>

lemma snapshot_stage:
  assumes "s \<in> set SCAN_DIRS"
  shows "jget (queue_snapshot dirs) s = (case dirs s of Some d \<Rightarrow> snap_stage d | None \<Rightarrow> JUndef)"
proof -
  have "distinct SCAN_DIRS" by (simp add: SCAN_DIRS_def)
  then have "map_of (rev (List.map_filter (\<lambda>s. map_option (\<lambda>d. (s, snap_stage d)) (dirs s)) xs)) s =
      (if s \<in> set xs then map_option snap_stage (dirs s) else None)" if "distinct xs" for xs
    using that
  proof (induction xs)
    case (Cons x xs)
    then show ?case by (cases "dirs x") (auto simp: List.map_filter_simps map_add_def split: option.splits)
  qed (simp add: List.map_filter_simps)
  with assms \<open>distinct SCAN_DIRS\<close> show ?thesis by (simp add: queue_snapshot_def split: option.splits)
qed

end
