(* ===== verification/WorkflowGroups.thy ===== *)
theory WorkflowGroups
  imports JsObject
begin

text \<open>
  \<open>python/dashboard/static/js/workflow-groups.js\<close>: groups of the workflow graph, the graph with some of them collapsed
  to one node, the sources of a card folded into such a node, and the frames drawn around open groups. A set of ids is
  the list of its values, a \<open>Map\<close> the list of its entries. The code's \<open>try\<close> is a case distinction on \<open>Throws\<close>.
\<close>

definition WF_STATUS_WORST_FIRST :: "string list" where
  "WF_STATUS_WORST_FIRST = [''error'', ''stale'', ''paused'', ''warming'', ''queued'', ''working'', ''idle'', ''offline'', ''disabled'']"
definition WF_GROUP_HEADER :: real where "WF_GROUP_HEADER = 28"
definition WF_MAX_SOURCES :: nat where "WF_MAX_SOURCES = 6"

section \<open>Statuses\<close>

fun index_in :: "'a list \<Rightarrow> 'a \<Rightarrow> nat option" where
  "index_in [] x = None"
| "index_in (y # ys) x = (if y = x then Some 0 else map_option Suc (index_in ys x))"

text \<open>A status that is not listed ranks half a place before \<open>idle\<close>.\<close>

definition status_rank :: "string \<Rightarrow> real" where
  "status_rank s = (case index_in WF_STATUS_WORST_FIRST s of Some i \<Rightarrow> real i
     | None \<Rightarrow> (case index_in WF_STATUS_WORST_FIRST ''idle'' of Some i \<Rightarrow> real i - 1 / 2 | None \<Rightarrow> 0))"

definition worst_status :: "jv list \<Rightarrow> string" where
  "worst_status statuses =
     (case map str_of (filter (\<lambda>s. is_string s \<and> truthy s) statuses) of
        [] \<Rightarrow> ''idle''
      | s # ss \<Rightarrow> foldl (\<lambda>worst t. if status_rank t < status_rank worst then t else worst) s ss)"

section \<open>Members\<close>

definition groups_of :: "jv \<Rightarrow> jv list" where "groups_of g = elems (jget g ''groups'')"

fun each_outcome :: "('a \<Rightarrow> 'b outcome) \<Rightarrow> 'a list \<Rightarrow> 'b list outcome" where
  "each_outcome f [] = Returns []"
| "each_outcome f (x # xs) = and_then (f x) (\<lambda>y. and_then (each_outcome f xs) (\<lambda>ys. Returns (y # ys)))"

definition effective_collapsed :: "jv \<Rightarrow> jv \<Rightarrow> jv list outcome" where
  "effective_collapsed graph toggles =
     (let gs = (if truthy graph \<and> truthy (jget graph ''groups'') then jget graph ''groups'' else JArr [])
      in if \<not> is_array gs \<or> list_ex nullish (elems gs) then Throws
         else Returns (uniq (map id_of (filter (\<lambda>g.
            let toggle = jget toggles (to_str (id_of g))
            in if truthy toggles \<and> (toggle = JBool True \<or> toggle = JBool False) then toggle = JBool True
               else jget g ''collapsed'' = JBool True) (elems gs)))))"

text \<open>\<open>byId.get(id)\<close>: a later group of the same id replaces an earlier one.\<close>

definition group_of :: "jv list \<Rightarrow> jv \<Rightarrow> jv option" where
  "group_of groups i = find (\<lambda>g. same_value i (id_of g)) (rev groups)"

lemma group_of_in: "group_of groups i = Some g \<Longrightarrow> g \<in> set groups \<and> same_value i (id_of g)"
  by (auto simp: group_of_def dest: find_Some_in)

lemma same_value_group_eq: "same_value a b \<Longrightarrow> a = b"
  by (cases a) auto

text \<open>The walk: its pending ids are a list, since what follows a group's members is what was pending. A group that was
  visited adds nothing; an id that is no group is a member.\<close>

definition pending_groups :: "jv list \<Rightarrow> jv list \<Rightarrow> jv set" where
  "pending_groups groups visited = set (map id_of groups) - set visited"

lemma pending_less:
  assumes "group_of groups c = Some g" "c \<notin> set visited"
  shows "card (pending_groups groups (c # visited)) < card (pending_groups groups visited)"
proof (rule psubset_card_mono)
  have "c \<in> pending_groups groups visited"
    using assms group_of_in same_value_group_eq by (force simp: pending_groups_def)
  then show "pending_groups groups (c # visited) \<subset> pending_groups groups visited"
    by (auto simp: pending_groups_def)
qed (simp add: pending_groups_def)

function members_walk :: "jv list \<Rightarrow> jv list \<Rightarrow> jv list \<Rightarrow> jv list outcome" where
  "members_walk groups visited [] = Returns []"
| "members_walk groups visited (c # cs) =
     (case group_of groups c of
        None \<Rightarrow> and_then (members_walk groups visited cs) (\<lambda>ms. Returns (c # ms))
      | Some g \<Rightarrow>
          if c \<in> set visited then members_walk groups visited cs
          else if is_array (jget g ''children'') then members_walk groups (c # visited) (elems (jget g ''children'') @ cs)
          else Throws)"
  by pat_completeness auto
termination
  by (relation "measures [\<lambda>(groups, visited, cs). card (pending_groups groups visited), \<lambda>(groups, visited, cs). length cs]")
     (auto dest: pending_less)

definition group_members :: "jv list \<Rightarrow> jv \<Rightarrow> jv list outcome" where
  "group_members groups i =
     (if list_ex nullish groups then Throws
      else if group_of groups i = None then Returns [] else members_walk groups [] [i])"

text \<open>\<open>...v\<close> in an argument list.\<close>

definition spread_elems :: "jv \<Rightarrow> jv list outcome" where
  "spread_elems v = (case v of JArr vs \<Rightarrow> Returns vs | JStr s \<Rightarrow> Returns (map (\<lambda>c. JStr [c]) s) | _ \<Rightarrow> Throws)"

text \<open>The stack grows and shrinks at its end; here the end is the head.\<close>

function inside_walk :: "jv list \<Rightarrow> jv list \<Rightarrow> jv list \<Rightarrow> jv list outcome" where
  "inside_walk groups found [] = Returns found"
| "inside_walk groups found (c # stack) =
     (case group_of groups c of
        None \<Rightarrow> inside_walk groups found stack
      | Some g \<Rightarrow>
          if c \<in> set found then inside_walk groups found stack
          else case spread_elems (jget g ''children'') of
            Returns cs \<Rightarrow> inside_walk groups (c # found) (rev cs @ stack)
          | Throws \<Rightarrow> Throws)"
  by pat_completeness auto
termination
  by (relation "measures [\<lambda>(groups, found, cs). card (pending_groups groups found), \<lambda>(groups, found, cs). length cs]")
     (auto dest: pending_less)

definition groups_inside :: "jv list \<Rightarrow> jv \<Rightarrow> jv list outcome" where
  "groups_inside groups i =
     (if list_ex nullish groups then Throws
      else case group_of groups i of
        None \<Rightarrow> Returns []
      | Some g \<Rightarrow> and_then (spread_elems (jget g ''children'')) (\<lambda>cs.
          and_then (inside_walk groups [] (rev cs)) (\<lambda>found. Returns (filter (\<lambda>c. c \<noteq> i) found))))"

section \<open>Collapsing\<close>

definition truthy_or :: "jv \<Rightarrow> jv \<Rightarrow> jv" where
  "truthy_or a b = (if truthy a then a else b)"

definition KIND_RANKS :: "(string \<times> nat) list" where
  "KIND_RANKS = [(''stage'', 0), (''service'', 1), (''loop'', 2), (''source'', 3), (''group'', 4)]"

definition group_kind_rank :: "jv \<Rightarrow> nat" where
  "group_kind_rank v = (case map_of KIND_RANKS (to_str (jget v ''kind'')) of Some i \<Rightarrow> i | None \<Rightarrow> 9)"

definition by_group_rank :: "jv \<Rightarrow> jv \<Rightarrow> jnum" where
  "by_group_rank a b =
     (if group_kind_rank a \<noteq> group_kind_rank b then Fin (real (group_kind_rank a) - real (group_kind_rank b)) else by_id a b)"

text \<open>\<open>nodeById.get(m)\<close> for a member that is a node: the last node of that id.\<close>

definition node_by_id :: "jv list \<Rightarrow> jv \<Rightarrow> jv option" where
  "node_by_id nodes m = find (\<lambda>n. same_value m (id_of n)) (rev nodes)"

definition counted_jobs :: "string \<Rightarrow> jv list \<Rightarrow> real" where
  "counted_jobs k nodes =
     sum_list (map (\<lambda>n. case jget (jget n ''counts'') k of JNum (Fin q) \<Rightarrow> q | _ \<Rightarrow> 0) nodes)"

text \<open>The members of a group that are nodes.\<close>

definition member_nodes :: "jv list \<Rightarrow> jv list \<Rightarrow> jv \<Rightarrow> jv list outcome" where
  "member_nodes groups nodes g =
     and_then (group_members groups (id_of g)) (\<lambda>ms. Returns (filter (\<lambda>m. node_by_id nodes m \<noteq> None) ms))"

definition group_node :: "jv list \<Rightarrow> jv \<Rightarrow> jv list \<Rightarrow> jv" where
  "group_node nodes g ms =
     (let ns = map (\<lambda>m. the (node_by_id nodes m)) ms;
          runtimes = filter truthy (map (\<lambda>n. jget n ''runtime'') ns);
          looping = map (\<lambda>n. if truthy (jget n ''runtime'') then jget (jget n ''runtime'') ''status'' else jget n ''runtime'')
                      (filter (\<lambda>n. jget n ''kind'' = JStr ''loop'') ns)
      in JObj [(''id'', id_of g), (''kind'', JStr ''group''), (''label'', truthy_or (jget g ''label'') (id_of g)), (''parent'', JNull),
            (''memberCount'', JNum (Fin (real (length ms)))),
            (''runtime'', JObj [(''instanceId'', id_of g), (''status'', JStr (worst_status looping)),
               (''stale'', JBool (list_ex (\<lambda>r. jget r ''stale'' = JBool True) runtimes)), (''disabled'', JBool False),
               (''switchable'', JBool False), (''pid'', JNull), (''currentTaskId'', JNull), (''currentPass'', JNull),
               (''stateAgeSeconds'', JNull), (''hub'', JNull), (''projectLabel'', JNull), (''borrowed'', JBool False)]),
            (''model'', JNull), (''work'', JNull),
            (''counts'', JObj [(''pending'', JNum (Fin (counted_jobs ''pending'' ns))), (''drafting'', JNum (Fin (counted_jobs ''drafting'' ns)))])])"

text \<open>\<open>repOf\<close> as its entries; a later one replaces an earlier one of its key. \<open>becomes\<close> comes with the members.\<close>

definition rep_of :: "(jv \<times> jv list) list \<Rightarrow> jv \<Rightarrow> jv option" where
  "rep_of becomes i = map_option (\<lambda>p. id_of (fst p)) (find (\<lambda>p. has_value (snd p) i) (rev becomes))"

definition rep :: "(jv \<times> jv list) list \<Rightarrow> jv \<Rightarrow> jv" where
  "rep becomes i = (case rep_of becomes i of Some r \<Rightarrow> truthy_or r i | None \<Rightarrow> i)"

fun collapse_edges :: "(jv \<times> jv list) list \<Rightarrow> string list \<Rightarrow> jv list \<Rightarrow> jv list" where
  "collapse_edges becomes seen [] = []"
| "collapse_edges becomes seen (e # es) =
     (let f = rep becomes (jget e ''from''); t = rep becomes (jget e ''to''); i = edge_id f t (jget e ''kind'')
      in if strict_eq f t \<or> i \<in> set seen then collapse_edges becomes seen es
         else obj_put (obj_put (obj_put (spread e) ''id'' (JStr i)) ''from'' f) ''to'' t # collapse_edges becomes (i # seen) es)"

text \<open>\<open>[...new Set(vs)]\<close>: arrays and objects are never the same value as another.\<close>

fun uniq_values :: "jv list \<Rightarrow> jv list \<Rightarrow> jv list" where
  "uniq_values seen [] = []"
| "uniq_values seen (v # vs) = (if has_value seen v then uniq_values seen vs else v # uniq_values (v # seen) vs)"

definition shown_group :: "(jv \<times> jv list) list \<Rightarrow> jv \<Rightarrow> jv outcome" where
  "shown_group becomes g =
     (if is_array (jget g ''children'')
      then Returns (obj_put (spread g) ''children'' (JArr (uniq_values [] (map (rep becomes) (elems (jget g ''children''))))))
      else Throws)"

definition hidden_groups :: "jv list \<Rightarrow> jv list \<Rightarrow> jv list outcome" where
  "hidden_groups groups collapsed =
     and_then (each_outcome (\<lambda>g. groups_inside groups (id_of g)) (filter (\<lambda>g. has_value collapsed (id_of g)) groups))
       (\<lambda>insides. Returns (concat insides))"

definition becoming :: "jv list \<Rightarrow> jv list \<Rightarrow> jv list \<Rightarrow> jv list \<Rightarrow> (jv \<times> jv list) list outcome" where
  "becoming groups nodes collapsed inside =
     and_then (each_outcome (\<lambda>g. and_then (member_nodes groups nodes g) (\<lambda>ms. Returns (g, ms)))
        (filter (\<lambda>g. has_value collapsed (id_of g) \<and> \<not> has_value inside (id_of g)) groups))
       (\<lambda>pairs. Returns (filter (\<lambda>p. snd p \<noteq> []) pairs))"

definition collapsed_nodes :: "jv list \<Rightarrow> (jv \<times> jv list) list \<Rightarrow> jv list" where
  "collapsed_nodes nodes becomes =
     js_sort by_group_rank
       (filter (\<lambda>n. rep_of becomes (id_of n) = None) nodes @ map (\<lambda>(g, ms). group_node nodes g ms) becomes)"

definition collapsed_result :: "jv \<Rightarrow> jv list \<Rightarrow> jv list \<Rightarrow> (jv \<times> jv list) list \<Rightarrow> jv outcome" where
  "collapsed_result graph collapsed inside becomes =
     (if becomes = [] then Returns graph
      else if list_ex nullish (edges_of graph) then Throws
      else and_then (each_outcome (shown_group becomes)
             (filter (\<lambda>g. \<not> has_value collapsed (id_of g) \<and> \<not> has_value inside (id_of g)) (groups_of graph))) (\<lambda>shown.
        Returns (obj_put (obj_put (obj_put (spread graph)
          ''nodes'' (JArr (collapsed_nodes (nodes_of graph) becomes)))
          ''edges'' (JArr (js_sort by_id (collapse_edges becomes [] (edges_of graph)))))
          ''groups'' (JArr shown))))"

definition collapse_graph_body :: "jv \<Rightarrow> jv list \<Rightarrow> jv outcome" where
  "collapse_graph_body graph collapsed =
     (if \<not> truthy graph \<or> \<not> is_array (jget graph ''nodes'') \<or> \<not> is_array (jget graph ''groups'') \<or> collapsed = [] then Returns graph
      else if list_ex nullish (nodes_of graph) \<or> list_ex nullish (groups_of graph) then Throws
      else and_then (hidden_groups (groups_of graph) collapsed) (\<lambda>inside.
        and_then (becoming (groups_of graph) (nodes_of graph) collapsed inside) (\<lambda>becomes.
          collapsed_result graph collapsed inside becomes)))"

definition collapse_graph :: "jv \<Rightarrow> jv list \<Rightarrow> jv" where
  "collapse_graph graph collapsed = catch (collapse_graph_body graph collapsed) graph"

section \<open>The sources of a card\<close>

record folded_sources =
  fs_graph :: jv
  fs_count :: nat
  fs_collapsed :: bool
  fs_collapsible :: bool
  fs_groupId :: "string option"

definition source_limit :: "jv \<Rightarrow> real" where
  "source_limit m = (case m of JNum (Fin q) \<Rightarrow> if q = of_int \<lfloor>q\<rfloor> \<and> 1 \<le> q then q else real WF_MAX_SOURCES | _ \<Rightarrow> real WF_MAX_SOURCES)"

definition card_sources :: "jv \<Rightarrow> jv list" where
  "card_sources g = filter (\<lambda>n. truthy n \<and> jget n ''kind'' = JStr ''source'' \<and> is_string (id_of n)) (nodes_of g)"

definition authored_groups :: "jv \<Rightarrow> jv list \<Rightarrow> jv list" where
  "authored_groups g ids =
     filter (\<lambda>gr. elems (jget gr ''children'') \<noteq> [])
       (map (\<lambda>gr. obj_put (spread gr) ''children'' (JArr (filter (\<lambda>c. \<not> has_value ids c) (elems (jget gr ''children'')))))
         (filter (\<lambda>gr. truthy gr \<and> is_string (id_of gr) \<and> is_array (jget gr ''children'')) (groups_of g)))"

definition source_group :: "string \<Rightarrow> jv list \<Rightarrow> jv" where
  "source_group i sources =
     JObj [(''id'', JStr i), (''label'', JStr (nat_str (length sources) @ '' sources'')),
           (''children'', JArr (map id_of sources)), (''collapsed'', JBool True)]"

definition collapse_loop_sources :: "jv \<Rightarrow> jv \<Rightarrow> bool \<Rightarrow> folded_sources" where
  "collapse_loop_sources loop m expanded =
     (let g = (if truthy loop then jget loop ''graph'' else loop);
          untouched = (\<lambda>n. \<lparr>fs_graph = g, fs_count = n, fs_collapsed = False, fs_collapsible = False, fs_groupId = None\<rparr>);
          sources = card_sources g; n = length sources; i = ''group:sources:'' @ to_str (jget loop ''id'')
      in if \<not> truthy g \<or> \<not> is_array (jget g ''nodes'') then untouched 0
         else if real n \<le> source_limit m then untouched n
         else if expanded then (untouched n)\<lparr>fs_collapsible := True\<rparr>
         else \<lparr>fs_graph = collapse_graph
                  (obj_put (spread g) ''groups'' (JArr (authored_groups g (map id_of sources) @ [source_group i sources]))) [JStr i],
               fs_count = n, fs_collapsed = True, fs_collapsible = True, fs_groupId = Some i\<rparr>)"

section \<open>Frames\<close>

record group_box =
  gb_id :: jv
  gb_label :: jv
  gb_x :: real
  gb_y :: real
  gb_w :: real
  gb_h :: real
  gb_part :: nat

text \<open>The frames of one group: one per row of its placed members, or one per column. \<open>main\<close> is the coordinate that is
  constant in a part and \<open>other\<close> the one that varies.\<close>

definition part_lines :: "('p \<Rightarrow> real) \<Rightarrow> 'p list \<Rightarrow> real list" where
  "part_lines main ps = sort (remdups (map main ps))"

definition part_span :: "('p \<Rightarrow> real) \<Rightarrow> ('p \<Rightarrow> real) \<Rightarrow> 'p list \<Rightarrow> real \<Rightarrow> real list" where
  "part_span main other ps l = map other (filter (\<lambda>p. main p = l) ps)"

definition part_box :: "bool \<Rightarrow> real \<times> real \<Rightarrow> real \<Rightarrow> jv \<Rightarrow> (real \<times> real) list \<Rightarrow> nat \<Rightarrow> real \<Rightarrow> group_box" where
  "part_box down size_of p g ps part l =
     (let label = truthy_or (jget g ''label'') (id_of g)
      in if down
         then let xs = part_span snd fst ps l; x = Min (set xs) - p
              in \<lparr>gb_id = id_of g, gb_label = label, gb_x = x, gb_y = l - p - WF_GROUP_HEADER,
                  gb_w = Max (set xs) + fst size_of + p - x, gb_h = snd size_of + 2 * p + WF_GROUP_HEADER, gb_part = part\<rparr>
         else let ys = part_span fst snd ps l; y = Min (set ys) - p - WF_GROUP_HEADER
              in \<lparr>gb_id = id_of g, gb_label = label, gb_x = l - p, gb_y = y,
                  gb_w = fst size_of + 2 * p, gb_h = Max (set ys) + snd size_of + p - y, gb_part = part\<rparr>)"

definition boxes_of_group :: "bool \<Rightarrow> real \<times> real \<Rightarrow> real \<Rightarrow> jv \<Rightarrow> (real \<times> real) list \<Rightarrow> group_box list" where
  "boxes_of_group down size_of p g ps =
     (let ls = part_lines (if down then snd else fst) ps
      in map (\<lambda>(part, l). part_box down size_of p g ps part l) (zip [0..<length ls] ls))"

definition placed_members :: "jv list \<Rightarrow> (string \<Rightarrow> (real \<times> real) option) \<Rightarrow> jv \<Rightarrow> (real \<times> real) list outcome" where
  "placed_members groups positions g =
     and_then (group_members groups (id_of g)) (\<lambda>ms. Returns (List.map_filter (\<lambda>m. positions (to_str m)) ms))"

definition group_boxes :: "jv \<Rightarrow> (string \<Rightarrow> (real \<times> real) option) \<Rightarrow> real \<times> real \<Rightarrow> real option \<Rightarrow> bool \<Rightarrow> group_box list" where
  "group_boxes graph positions size_of pad down =
     (let groups = groups_of graph; p = (case pad of Some q \<Rightarrow> q | None \<Rightarrow> 12)
      in if \<not> is_array (jget graph ''groups'') then []
         else catch (and_then
           (each_outcome (\<lambda>g. and_then (placed_members groups positions g) (\<lambda>ps. Returns (boxes_of_group down size_of p g ps))) groups)
           (\<lambda>bs. Returns (concat bs))) [])"

section \<open>Collapsing keeps the graph closed\<close>

lemma and_then_Returns: "and_then r k = Returns y \<longleftrightarrow> (\<exists>x. r = Returns x \<and> k x = Returns y)"
  by (cases r) auto

lemma each_outcome_Returns:
  "each_outcome f xs = Returns ys \<longleftrightarrow> list_all2 (\<lambda>x y. f x = Returns y) xs ys"
proof (induction xs arbitrary: ys)
  case (Cons x xs)
  then show ?case by (cases ys) (auto simp: and_then_Returns)
qed auto

lemma each_outcome_pairs:
  assumes "each_outcome (\<lambda>g. and_then (f g) (\<lambda>ms. Returns (g, ms))) gs = Returns ps"
  shows "map fst ps = gs" and "\<forall>(g, ms)\<in>set ps. f g = Returns ms"
proof -
  have *: "list_all2 (\<lambda>g p. fst p = g \<and> f g = Returns (snd p)) gs ps"
    using assms unfolding each_outcome_Returns
    by (rule list_all2_mono) (auto simp: and_then_Returns)
  show "map fst ps = gs" using * by (induction rule: list_all2_induct) auto
  have "\<forall>p\<in>set ps. f (fst p) = Returns (snd p)" using * by (induction rule: list_all2_induct) simp_all
  then show "\<forall>(g, ms)\<in>set ps. f g = Returns ms" by (simp add: split_def)
qed

definition node_id_list :: "jv \<Rightarrow> jv list" where
  "node_id_list g = map id_of (nodes_of g)"

text \<open>A graph as the back end sends it.\<close>

definition graph_wf :: "jv \<Rightarrow> bool" where
  "graph_wf g \<longleftrightarrow>
     distinct (node_id_list g) \<and> distinct (map id_of (groups_of g))
     \<and> (\<forall>i\<in>set (node_id_list g) \<union> set (map id_of (groups_of g)). is_string i \<and> truthy i)
     \<and> set (node_id_list g) \<inter> set (map id_of (groups_of g)) = {}
     \<and> (\<forall>e\<in>set (edges_of g). keyed e \<and> jget e ''from'' \<in> set (node_id_list g) \<and> jget e ''to'' \<in> set (node_id_list g))"

definition edges_closed :: "jv \<Rightarrow> bool" where
  "edges_closed g \<longleftrightarrow> (\<forall>e\<in>set (edges_of g). jget e ''from'' \<in> set (node_id_list g) \<and> jget e ''to'' \<in> set (node_id_list g))"

text \<open>Where a node went: it is still there, or a collapsed group it belongs to stands for it.\<close>

definition represented :: "jv \<Rightarrow> jv list \<Rightarrow> jv \<Rightarrow> jv \<Rightarrow> bool" where
  "represented g collapsed g' i \<longleftrightarrow>
     i \<in> set (node_id_list g')
     \<or> (\<exists>gr ms. gr \<in> set (groups_of g) \<and> has_value collapsed (id_of gr) \<and> id_of gr \<in> set (node_id_list g')
          \<and> group_members (groups_of g) (id_of gr) = Returns ms \<and> i \<in> set ms)"

lemma id_group_node [simp]: "id_of (group_node nodes g ms) = id_of g"
  by (simp add: group_node_def Let_def id_of_def)

lemma id_of_put: "keyed v \<Longrightarrow> id_of (obj_put v k x) = (if k = ''id'' then x else id_of v)"
  by (simp add: id_of_def jget_put)

lemma rep_of_Some: "rep_of becomes i = Some r \<Longrightarrow> \<exists>(g, ms)\<in>set becomes. r = id_of g \<and> has_value ms i"
  by (auto simp: rep_of_def dest!: find_Some_in)

lemma collapse_edges_sound:
  "e' \<in> set (collapse_edges becomes seen es) \<Longrightarrow>
   \<exists>e\<in>set es. jget e' ''from'' = rep becomes (jget e ''from'') \<and> jget e' ''to'' = rep becomes (jget e ''to'')
     \<and> \<not> strict_eq (jget e' ''from'') (jget e' ''to'')
     \<and> id_of e' = JStr (edge_id (rep becomes (jget e ''from'')) (rep becomes (jget e ''to'')) (jget e ''kind''))"
  by (induction becomes seen es rule: collapse_edges.induct) (auto simp: Let_def jget_put id_of_def split: if_splits)

lemma collapse_edges_ids:
  "distinct (map id_of (collapse_edges becomes seen es))
   \<and> (\<forall>e\<in>set (collapse_edges becomes seen es). \<exists>i. id_of e = JStr i \<and> i \<notin> set seen)"
proof (induction becomes seen es rule: collapse_edges.induct)
  case (2 becomes seen e es)
  let ?f = "rep becomes (jget e ''from'')" and ?t = "rep becomes (jget e ''to'')"
  let ?i = "edge_id ?f ?t (jget e ''kind'')"
  show ?case
  proof (cases "strict_eq ?f ?t \<or> ?i \<in> set seen")
    case True
    then show ?thesis using 2(1) by (simp add: Let_def)
  next
    case False
    then have IH: "distinct (map id_of (collapse_edges becomes (?i # seen) es))"
      "\<forall>e\<in>set (collapse_edges becomes (?i # seen) es). \<exists>i. id_of e = JStr i \<and> i \<notin> set (?i # seen)"
      using 2(2) [OF refl refl refl] by simp_all
    have "JStr ?i \<notin> id_of ` set (collapse_edges becomes (?i # seen) es)" using IH(2) by fastforce
    then show ?thesis using False IH by (auto simp: Let_def id_of_put)
  qed
qed simp

lemma becoming_Returns:
  assumes "becoming groups nodes collapsed inside = Returns becomes"
  shows "distinct (map id_of groups) \<Longrightarrow> distinct (map (\<lambda>p. id_of (fst p)) becomes)"
    and "\<forall>(g, ms)\<in>set becomes. g \<in> set groups \<and> has_value collapsed (id_of g) \<and> member_nodes groups nodes g = Returns ms"
proof -
  define outer where "outer = filter (\<lambda>g. has_value collapsed (id_of g) \<and> \<not> has_value inside (id_of g)) groups"
  obtain pairs where pairs: "each_outcome (\<lambda>g. and_then (member_nodes groups nodes g) (\<lambda>ms. Returns (g, ms))) outer = Returns pairs"
    and b: "becomes = filter (\<lambda>p. snd p \<noteq> []) pairs"
    using assms by (auto simp: becoming_def and_then_Returns outer_def)
  have f: "map fst pairs = outer" using each_outcome_pairs [OF pairs] by simp
  show "distinct (map (\<lambda>p. id_of (fst p)) becomes)" if "distinct (map id_of groups)"
  proof -
    have "distinct (map id_of outer)" using that by (simp add: outer_def distinct_map_filter)
    then have "distinct (map (\<lambda>p. id_of (fst p)) pairs)" unfolding f [symmetric] by (simp add: comp_def)
    then show ?thesis by (simp add: b distinct_map_filter)
  qed
  have "g \<in> set outer" if "(g, ms) \<in> set pairs" for g ms
    using that f by (metis fst_conv image_eqI list.set_map)
  then show "\<forall>(g, ms)\<in>set becomes. g \<in> set groups \<and> has_value collapsed (id_of g) \<and> member_nodes groups nodes g = Returns ms"
    using each_outcome_pairs(2) [OF pairs] by (fastforce simp: b outer_def)
qed

lemma collapsed_result_Returns:
  assumes "collapsed_result graph collapsed inside becomes = Returns g'" "g' \<noteq> graph"
  shows "nodes_of g' = collapsed_nodes (nodes_of graph) becomes" "edges_of g' = js_sort by_id (collapse_edges becomes [] (edges_of graph))"
  using assms by (auto simp: collapsed_result_def and_then_Returns nodes_of_def edges_of_def jget_put split: if_splits)

lemma collapse_body_cases:
  assumes "collapse_graph_body graph collapsed = Returns g'" "g' \<noteq> graph"
  obtains inside becomes where "becoming (groups_of graph) (nodes_of graph) collapsed inside = Returns becomes"
    "collapsed_result graph collapsed inside becomes = Returns g'"
  using assms by (auto simp: collapse_graph_body_def and_then_Returns split: if_splits)

lemma group_node_ids: "map id_of (map (\<lambda>(g, ms). group_node nodes g ms) becomes) = map (\<lambda>p. id_of (fst p)) becomes"
  by (induction becomes) auto

lemma collapsed_ids: "set (map id_of (collapsed_nodes nodes becomes)) =
   {i \<in> set (map id_of nodes). rep_of becomes i = None} \<union> (\<lambda>p. id_of (fst p)) ` set becomes"
proof -
  have "id_of ` set (map (\<lambda>(g, ms). group_node nodes g ms) becomes) = (\<lambda>p. id_of (fst p)) ` set becomes"
    using arg_cong [OF group_node_ids, of set nodes becomes] unfolding set_map .
  then show ?thesis
    unfolding collapsed_nodes_def set_map set_js_sort set_append image_Un by auto
qed

lemma collapsed_distinct:
  assumes "distinct (map id_of nodes)" "distinct (map (\<lambda>p. id_of (fst p)) becomes)"
    "set (map id_of nodes) \<inter> (\<lambda>p. id_of (fst p)) ` set becomes = {}"
  shows "distinct (map id_of (collapsed_nodes nodes becomes))"
  using assms unfolding collapsed_nodes_def distinct_map_js_sort map_append distinct_append group_node_ids
  by (auto simp: distinct_map_filter)

text \<open>Collapsing groups keeps the graph whole, whatever is collapsed: the nodes' ids stay distinct, every edge still joins
  two nodes, and every node is still there or one of the collapsed groups it belongs to stands for it. Unless the graph is
  returned as it was, no edge joins a node to itself and no two edges have one id.\<close>

theorem collapse_keeps_graph:
  assumes "graph_wf g"
  shows "distinct (node_id_list (collapse_graph g c)) \<and> edges_closed (collapse_graph g c)
    \<and> (\<forall>i\<in>set (node_id_list g). represented g c (collapse_graph g c) i)
    \<and> (collapse_graph g c = g
       \<or> distinct (map id_of (edges_of (collapse_graph g c)))
         \<and> (\<forall>e\<in>set (edges_of (collapse_graph g c)). jget e ''from'' \<noteq> jget e ''to''))"
proof (cases "collapse_graph g c = g")
  case True
  then show ?thesis
    using assms by (simp add: graph_wf_def edges_closed_def represented_def)
next
  case False
  define g' where "g' = collapse_graph g c"
  have "collapse_graph_body g c = Returns g'" "g' \<noteq> g"
    using False by (cases "collapse_graph_body g c"; simp add: g'_def collapse_graph_def)+
  then obtain inside becomes where b: "becoming (groups_of g) (nodes_of g) c inside = Returns becomes"
    and r: "collapsed_result g c inside becomes = Returns g'"
    by (rule collapse_body_cases)
  note nodes = collapsed_result_Returns(1) [OF r \<open>g' \<noteq> g\<close>] and edges = collapsed_result_Returns(2) [OF r \<open>g' \<noteq> g\<close>]
  have groups: "\<forall>(gr, ms)\<in>set becomes. gr \<in> set (groups_of g) \<and> has_value c (id_of gr) \<and> member_nodes (groups_of g) (nodes_of g) gr = Returns ms"
    using becoming_Returns(2) [OF b] .
  have ids: "set (node_id_list g') = {i \<in> set (node_id_list g). rep_of becomes i = None} \<union> (\<lambda>p. id_of (fst p)) ` set becomes"
    using collapsed_ids [of "nodes_of g" becomes] by (simp add: node_id_list_def nodes)
  have rep: "rep becomes i \<in> set (node_id_list g') \<and> is_string (rep becomes i)" if i: "i \<in> set (node_id_list g)" for i
  proof (cases "rep_of becomes i")
    case None
    then show ?thesis using i assms by (simp add: ids rep_def graph_wf_def)
  next
    case (Some r)
    then obtain gr ms where gr: "(gr, ms) \<in> set becomes" "r = id_of gr" using rep_of_Some by blast
    then have "is_string r \<and> truthy r" using groups assms by (auto simp: graph_wf_def)
    then show ?thesis using gr Some by (force simp: ids rep_def truthy_or_def)
  qed
  have "distinct (node_id_list g')"
    unfolding node_id_list_def nodes
  proof (rule collapsed_distinct)
    show "distinct (map id_of (nodes_of g))" using assms by (simp add: graph_wf_def node_id_list_def)
    show "distinct (map (\<lambda>p. id_of (fst p)) becomes)" using becoming_Returns(1) [OF b] assms by (simp add: graph_wf_def)
    show "set (map id_of (nodes_of g)) \<inter> (\<lambda>p. id_of (fst p)) ` set becomes = {}"
      using assms groups by (fastforce simp: graph_wf_def node_id_list_def)
  qed
  moreover have edge: "jget e ''from'' \<in> set (node_id_list g') \<and> jget e ''to'' \<in> set (node_id_list g') \<and> jget e ''from'' \<noteq> jget e ''to''"
    if "e \<in> set (edges_of g')" for e
  proof -
    obtain e0 where e0: "e0 \<in> set (edges_of g)" "jget e ''from'' = rep becomes (jget e0 ''from'')" "jget e ''to'' = rep becomes (jget e0 ''to'')"
      "\<not> strict_eq (jget e ''from'') (jget e ''to'')"
      using collapse_edges_sound [of e becomes "[]" "edges_of g"] \<open>e \<in> set (edges_of g')\<close> by (auto simp: edges)
    then have "rep becomes (jget e0 ''from'') \<in> set (node_id_list g') \<and> is_string (rep becomes (jget e0 ''from''))"
      "rep becomes (jget e0 ''to'') \<in> set (node_id_list g')"
      using rep assms by (auto simp: graph_wf_def)
    then show ?thesis using e0 by (cases "rep becomes (jget e0 ''from'')") auto
  qed
  moreover have "distinct (map id_of (edges_of g'))"
    using collapse_edges_ids by (simp add: edges)
  moreover have "represented g c g' i" if i: "i \<in> set (node_id_list g)" for i
  proof (cases "rep_of becomes i")
    case None
    then show ?thesis using i by (simp add: represented_def ids)
  next
    case (Some r)
    then obtain gr ms where gr: "(gr, ms) \<in> set becomes" "has_value ms i" using rep_of_Some by blast
    then obtain ms' where "group_members (groups_of g) (id_of gr) = Returns ms'" "set ms \<subseteq> set ms'"
      using groups by (fastforce simp: member_nodes_def and_then_Returns)
    moreover have "i \<in> set ms" using gr(2) by (auto simp: has_value_def dest: same_value_group_eq)
    moreover have "id_of gr \<in> set (node_id_list g')" using gr(1) by (force simp: ids)
    ultimately show ?thesis using gr(1) groups by (fastforce simp: represented_def)
  qed
  ultimately show ?thesis unfolding g'_def [symmetric] by (auto simp: edges_closed_def)
qed

definition SMALL_GRAPH :: jv where
  "SMALL_GRAPH = JObj [(''nodes'', JArr [JObj [(''id'', JStr ''a'')], JObj [(''id'', JStr ''b'')]]),
     (''edges'', JArr [JObj [(''from'', JStr ''a''), (''to'', JStr ''b''), (''kind'', JStr ''flow'')]]),
     (''groups'', JArr [JObj [(''id'', JStr ''g''), (''children'', JArr [JStr ''a''])]])]"

lemma collapse_keeps_graph_witness:
  "distinct (node_id_list (collapse_graph SMALL_GRAPH [JStr ''g''])) \<and> edges_closed (collapse_graph SMALL_GRAPH [JStr ''g''])
    \<and> represented SMALL_GRAPH [JStr ''g''] (collapse_graph SMALL_GRAPH [JStr ''g'']) (JStr ''a'')"
proof -
  have "graph_wf SMALL_GRAPH" and "JStr ''a'' \<in> set (node_id_list SMALL_GRAPH)"
    by (simp_all add: graph_wf_def SMALL_GRAPH_def node_id_list_def nodes_of_def groups_of_def edges_of_def id_of_def)
  then show ?thesis using collapse_keeps_graph [of SMALL_GRAPH "[JStr ''g'']"] by blast
qed

section \<open>Frames\<close>

text \<open>The frame of a placed member's row or column, and that it encloses the member with the padding around it.\<close>

definition encloses :: "real \<times> real \<Rightarrow> real \<Rightarrow> group_box \<Rightarrow> real \<times> real \<Rightarrow> bool" where
  "encloses size_of p b xy \<longleftrightarrow>
     gb_x b + p \<le> fst xy \<and> fst xy + fst size_of + p \<le> gb_x b + gb_w b
     \<and> gb_y b + p + WF_GROUP_HEADER \<le> snd xy \<and> snd xy + snd size_of + p \<le> gb_y b + gb_h b"

lemma boxes_enclose:
  assumes "xy \<in> set ps"
  shows "\<exists>b\<in>set (boxes_of_group down size_of p g ps). gb_id b = id_of g \<and> encloses size_of p b xy"
proof -
  define main where "main = (if down then snd else (fst :: real \<times> real \<Rightarrow> real))"
  define ls where "ls = part_lines main ps"
  have "main xy \<in> set ls" using assms by (simp add: ls_def part_lines_def)
  then obtain i where i: "i < length ls" "ls ! i = main xy" by (auto simp: in_set_conv_nth)
  then have "(i, main xy) \<in> set (zip [0..<length ls] ls)" by (force simp: in_set_zip)
  then have "part_box down size_of p g ps i (main xy) \<in> set (boxes_of_group down size_of p g ps)"
    unfolding boxes_of_group_def Let_def main_def [symmetric] ls_def [symmetric] by force
  moreover have span: "snd xy \<in> set (part_span fst snd ps (fst xy))" "fst xy \<in> set (part_span snd fst ps (snd xy))"
    using assms by (auto simp: part_span_def)
  have "encloses size_of p (part_box down size_of p g ps i (main xy)) xy"
    using Min_le [OF _ span(1)] Max_ge [OF _ span(1)] Min_le [OF _ span(2)] Max_ge [OF _ span(2)]
    by (cases down) (simp_all add: encloses_def part_box_def main_def Let_def)
  moreover have "gb_id (part_box down size_of p g ps i (main xy)) = id_of g" by (simp add: part_box_def Let_def)
  ultimately show ?thesis by blast
qed

text \<open>Every placed member of every group is enclosed by one of the group's frames.\<close>

theorem frames_enclose_members:
  assumes "is_array (jget graph ''groups'')" and "\<forall>g\<in>set (groups_of graph). group_members (groups_of graph) (id_of g) \<noteq> Throws"
    and "g \<in> set (groups_of graph)" "group_members (groups_of graph) (id_of g) = Returns ms" "m \<in> set ms" "positions (to_str m) = Some xy"
  shows "\<exists>b\<in>set (group_boxes graph positions size_of (Some p) down). gb_id b = id_of g \<and> encloses size_of p b xy"
proof -
  let ?f = "\<lambda>g. and_then (placed_members (groups_of graph) positions g) (\<lambda>ps. Returns (boxes_of_group down size_of p g ps))"
  have "\<exists>bs. each_outcome ?f gs = Returns bs" if "set gs \<subseteq> set (groups_of graph)" for gs
    using that
  proof (induction gs)
    case (Cons h gs)
    then obtain hm where "group_members (groups_of graph) (id_of h) = Returns hm" using assms(2) by (metis insert_subset list.set(2) outcome.exhaust)
    then show ?case using Cons by (auto simp: placed_members_def)
  qed simp
  then obtain bs where bs: "each_outcome ?f (groups_of graph) = Returns bs" by blast
  then obtain gbs where gbs: "gbs \<in> set bs" "?f g = Returns gbs"
    using assms(3) unfolding each_outcome_Returns list_all2_conv_all_nth by (metis in_set_conv_nth)
  have "xy \<in> set (List.map_filter (\<lambda>m. positions (to_str m)) ms)" using assms(5, 6) by (force simp: map_filter_def)
  then obtain b where "b \<in> set gbs" "gb_id b = id_of g" "encloses size_of p b xy"
    using boxes_enclose [of xy _ down size_of p g] gbs(2) assms(4) by (auto simp: placed_members_def)
  then show ?thesis
    using bs gbs(1) assms(1) by (auto simp: group_boxes_def Let_def)
qed

end
