(* ===== verification/DraftAttempts.thy ===== *)
theory DraftAttempts
  imports JsRegex JsObject
begin

text \<open>
  \<open>src/draft-attempt-record.js\<close>: the record a draft pass leaves on its task. An attempt and a task are objects that
  the operations change in place; here every operation returns the changed value. The clock is an argument, the
  ellipsis of a cut preview is one character of the 8-bit alphabet, and \<open>Throws\<close> is a \<open>TypeError\<close>.
\<close>

definition PLAN_TEXT_CAP :: nat where "PLAN_TEXT_CAP = 6000"
definition RESPONSE_TEXT_CAP :: nat where "RESPONSE_TEXT_CAP = 4000"
definition DIFF_TEXT_CAP :: nat where "DIFF_TEXT_CAP = 8000"
definition TOOLCALL_LIST_CAP :: nat where "TOOLCALL_LIST_CAP = 40"
definition PREVIEW_CAP :: nat where "PREVIEW_CAP = 120"
definition ERROR_TEXT_CAP :: nat where "ERROR_TEXT_CAP = 160"
definition REDACTED :: string where "REDACTED = ''[redacted]''"
definition BODY_ARGS :: "string list" where "BODY_ARGS = [''content'', ''replace'']"
definition MAX_FULL_ATTEMPTS :: nat where "MAX_FULL_ATTEMPTS = 6"
definition FACTCHECK_WARNING_CAP :: nat where "FACTCHECK_WARNING_CAP = 30"
definition ELLIPSIS :: char where "ELLIPSIS = CHR 0x85"

section \<open>Texts\<close>

definition jnat :: "nat \<Rightarrow> jv" where "jnat n = JNum (Fin (real n))"

text \<open>\<open>typeof text === 'string' ? text : String(text == null ? '' : text)\<close>\<close>

definition as_text :: "jv \<Rightarrow> string" where
  "as_text v = (if is_string v then str_of v else if nullish v then [] else to_str v)"

definition cap :: "jv \<Rightarrow> nat \<Rightarrow> string" where
  "cap v m =
     (let s = as_text v
      in if length s \<le> m then s
         else take m s @ [CHR 0x0A] @ ''... [truncated '' @ nat_str (length s - m) @ '' more chars]'')"

text \<open>The classes \<open>[^\s'"]\<close>, \<open>[^\s'"&]\<close> and \<open>[A-Za-z0-9_-]\<close>.\<close>

definition re_bare :: re where
  "re_bare = Sym (\<lambda>c. \<not> is_space c \<and> c \<noteq> CHR 0x27 \<and> c \<noteq> CHR 0x22)"

definition re_bare_param :: re where
  "re_bare_param = Sym (\<lambda>c. \<not> is_space c \<and> c \<noteq> CHR 0x27 \<and> c \<noteq> CHR 0x22 \<and> c \<noteq> CHR ''&'')"

definition token_char :: "char \<Rightarrow> bool" where
  "token_char c \<longleftrightarrow> is_word c \<or> c = CHR ''-''"

definition re_either :: "string \<Rightarrow> re" where
  "re_either cs = Sym (\<lambda>c. c \<in> set cs)"

definition scrub_preview :: "jv \<Rightarrow> string" where
  "scrub_preview v =
     (let s0 = as_text v;
          s1 = replace_all (re_all [re_liti ''authorization'', Star re_space, re_either '':='', Star re_space])
                 (Seq (re_opt (Alt (Seq (re_liti ''bearer'') (re_plus re_space)) (Seq (re_liti ''basic'') (re_plus re_space)))) (re_plus re_bare)) REDACTED s0;
          s2 = replace_all (re_all [re_liti ''bearer'', re_plus re_space]) (re_plus re_bare) REDACTED s1;
          s3 = replace_all (re_all [re_any [re_liti ''token'', re_liti ''password'', re_liti ''passwd'', re_liti ''secret'',
                   re_all [re_liti ''api'', re_opt (re_either ''_-''), re_liti ''key'']], Star re_space, re_either ''=:'', Star re_space])
                 (re_plus re_bare_param) REDACTED s2;
          s4 = replace_all (re_all [re_lit ''--'', re_any [re_liti ''password'', re_liti ''token''], re_any [re_plus re_space, chr (CHR ''='')]])
                 (re_plus re_bare) REDACTED s3;
          s5 = replace_all Eps (re_all [WordB, re_lit ''sk-'', re_at_least 16 (Sym token_char)]) REDACTED s4
      in replace_all Eps (re_at_least 40 (Sym token_char)) REDACTED s5)"

text \<open>\<open>text.replace(/\s+/g, ' ')\<close>\<close>

fun squeeze :: "string \<Rightarrow> string" where
  "squeeze [] = []"
| "squeeze (c # cs) =
     (if is_space c then (case cs of d # _ \<Rightarrow> if is_space d then squeeze cs else CHR '' '' # squeeze cs | [] \<Rightarrow> [CHR '' ''])
      else c # squeeze cs)"

definition bounded_text :: "jv \<Rightarrow> nat \<Rightarrow> string option" where
  "bounded_text v m =
     (if \<not> is_string v then None
      else let s = scrub_preview (JStr (trim (squeeze (str_of v))))
           in Some (if length s \<le> m then s else take (m - 1) s @ [ELLIPSIS]))"

section \<open>Tool calls\<close>

definition str_arg :: "jv \<Rightarrow> string \<Rightarrow> jv" where
  "str_arg args k = (if is_string (jget args k) then jget args k else JUndef)"

definition preview_for :: "jv \<Rightarrow> jv \<Rightarrow> string option" where
  "preview_for tool args =
     (if \<not> (is_object args \<or> is_array args) then None
      else bounded_text
        (if tool = JStr ''run_bash'' then str_arg args ''command''
         else if tool = JStr ''grep_codebase''
         then (if \<not> truthy (str_arg args ''query'') then str_arg args ''query''
               else if truthy (str_arg args ''dir'') then JStr (str_of (jget args ''query'') @ '' in '' @ str_of (jget args ''dir''))
               else jget args ''query'')
         else if tool = JStr ''edit_file''
         then (let t = join '' :: '' (map str_of (filter truthy [str_arg args ''path'', str_arg args ''find'']))
               in if t = [] then JUndef else JStr t)
         else if tool = JStr ''list_directory'' then str_arg args ''path''
         else (case find (\<lambda>(k, v). k \<notin> set BODY_ARGS \<and> is_string v \<and> truthy v) (obj_entries args) of
                 Some (_, v) \<Rightarrow> v | None \<Rightarrow> JUndef))
        PREVIEW_CAP)"

definition put_if :: "bool \<Rightarrow> string \<Rightarrow> jv \<Rightarrow> jv \<Rightarrow> jv" where
  "put_if c k v o' = (if c then obj_put o' k v else o')"

definition put_some :: "string option \<Rightarrow> string \<Rightarrow> jv \<Rightarrow> jv" where
  "put_some t k o' = (case t of Some s \<Rightarrow> if s = [] then o' else obj_put o' k (JStr s) | None \<Rightarrow> o')"

definition entry_tool :: "jv \<Rightarrow> jv" where
  "entry_tool e = (if truthy (jget e ''tool'') then jget e ''tool'' else JStr ''unknown'')"

definition entry_error :: "jv \<Rightarrow> bool" where
  "entry_error e = (let r = jget e ''result'' in (is_object r \<or> is_array r) \<and> truthy (jget r ''error''))"

text \<open>\<open>JSON.stringify(result == null ? '' : result).length\<close>; the value comes from JSON, so it has no cycle.\<close>

definition result_bytes :: "jv \<Rightarrow> nat" where
  "result_bytes r = length (json_text (if nullish r then JStr [] else r))"

definition call_summary :: "nat \<Rightarrow> jv \<Rightarrow> jv" where
  "call_summary n e =
     (let base = JObj [(''n'', jnat n), (''tool'', entry_tool e),
                       (''argKeys'', JArr (if truthy (jget e ''args'') then map (\<lambda>p. JStr (fst p)) (obj_entries (jget e ''args'')) else [])),
                       (''bytes'', jnat (result_bytes (jget e ''result'')))];
          seen = put_some (preview_for (entry_tool e) (jget e ''args'')) ''preview'' base
      in if entry_error e
         then put_some (bounded_text (jget (jget e ''result'') ''error'') ERROR_TEXT_CAP) ''errorText'' (obj_put seen ''error'' (JBool True))
         else seen)"

definition count_tool :: "(string \<times> nat) list \<Rightarrow> jv \<Rightarrow> (string \<times> nat) list" where
  "count_tool m e =
     (let k = to_str (entry_tool e) in kv_put m k ((case map_of m k of Some c \<Rightarrow> c | None \<Rightarrow> 0) + 1))"

definition summarise_tool_calls :: "jv \<Rightarrow> jv option" where
  "summarise_tool_calls calls =
     (if \<not> is_array calls \<or> elems calls = [] then None
      else let es = elems calls;
               listed = map (\<lambda>(i, e). call_summary (Suc i) e) (zip [0..<length es] (take TOOLCALL_LIST_CAP es))
           in Some (put_if (TOOLCALL_LIST_CAP < length es) ''listTruncated'' (JBool True)
                (JObj [(''total'', jnat (length es)),
                       (''byTool'', JObj (map (\<lambda>(k, c). (k, jnat c)) (foldl count_tool [] es))),
                       (''errors'', jnat (length (filter entry_error es))), (''calls'', JArr listed)])))"

section \<open>The attempt\<close>

definition or_null :: "jv \<Rightarrow> jv" where
  "or_null v = (if truthy v then v else JNull)"

text \<open>\<open>Number(v) || 0\<close>\<close>

definition count_or_zero :: "jv \<Rightarrow> jv" where
  "count_or_zero v = JNum (num_or (to_number v) (Fin 0))"

definition begin_draft_attempt :: "string \<Rightarrow> string \<Rightarrow> jv \<Rightarrow> jv" where
  "begin_draft_attempt now lane task =
     JObj [(''at'', JStr now), (''attemptNo'', jnat (length (elems (jget task ''draftAttempts'')) + 1)),
           (''lane'', or_null (JStr lane)), (''source'', or_null (jget task ''source'')),
           (''localRejectCount'', if truthy (jget task ''localRejectCount'') then jget task ''localRejectCount'' else JNum (Fin 0)),
           (''tiers'', JArr []), (''factCheckWarnings'', JArr [])]"

text \<open>No attempt, nothing to do; a read from \<open>null\<close> throws.\<close>

definition recording :: "jv \<Rightarrow> jv \<Rightarrow> jv outcome \<Rightarrow> jv outcome" where
  "recording attempt info r = (if \<not> truthy attempt then Returns attempt else if info = JNull then Throws else r)"

definition length_of :: "jv \<Rightarrow> jv" where
  "length_of v = (case v of JStr s \<Rightarrow> jnat (length s) | JArr vs \<Rightarrow> jnat (length vs) | _ \<Rightarrow> jget v ''length'')"

definition plan_of :: "jv \<Rightarrow> jv" where
  "plan_of info =
     (let text = (if truthy (jget info ''text'') then jget info ''text'' else JStr []);
          p0 = (if truthy (jget info ''degenerate'')
                then JObj [(''degenerate'', JStr (to_str (jget info ''degenerate''))), (''chars'', JNum (Fin 0))]
                else JObj [(''chars'', length_of text), (''text'', JStr (cap text PLAN_TEXT_CAP))]);
          p1 = put_if (\<not> nullish (jget info ''attempts'')) ''attempts'' (jget info ''attempts'') p0;
          p2 = put_if (truthy (jget info ''reRolled'')) ''reRolled'' (JBool True) p1;
          p3 = put_if (truthy (jget info ''seededFromPrior'')) ''seededFromPrior'' (JBool True) p2;
          p4 = put_if (truthy (jget info ''thin'')) ''thin'' (JBool True) p3
      in if truthy (jget info ''grounded'')
         then put_if (is_array (jget info ''anchorPaths'') \<and> elems (jget info ''anchorPaths'') \<noteq> [])
                ''anchorPaths'' (JArr (take 6 (elems (jget info ''anchorPaths''))))
                (put_if (\<not> nullish (jget info ''groundingChars'')) ''groundingChars'' (jget info ''groundingChars'')
                  (obj_put p4 ''grounded'' (JBool True)))
         else p4)"

definition record_plan :: "jv \<Rightarrow> jv \<Rightarrow> jv outcome" where
  "record_plan attempt info = recording attempt info (Returns (obj_put attempt ''plan'' (plan_of info)))"

definition implement_of :: "jv \<Rightarrow> jv" where
  "implement_of info =
     (let i0 = JObj [(''chars'', JNum (Fin 0))];
          i1 = put_if (truthy (jget info ''degenerate'')) ''degenerate'' (JStr (to_str (jget info ''degenerate''))) i0;
          i2 = put_if (truthy (jget info ''note'')) ''note'' (JStr (to_str (jget info ''note''))) i1;
          i3 = (if truthy (jget info ''text'')
                then obj_put (obj_put i2 ''chars'' (jnat (length (to_str (jget info ''text'')))))
                       ''text'' (JStr (cap (jget info ''text'') RESPONSE_TEXT_CAP)) else i2);
          i4 = put_if (\<not> nullish (jget info ''attempts'')) ''attempts'' (jget info ''attempts'') i3
      in obj_put i4 ''promptVariant'' (if nullish (jget info ''promptVariant'') then JStr ''default'' else jget info ''promptVariant''))"

definition record_implement :: "jv \<Rightarrow> jv \<Rightarrow> jv outcome" where
  "record_implement attempt info = recording attempt info (Returns (obj_put attempt ''implement'' (implement_of info)))"

definition record_critique :: "jv \<Rightarrow> jv \<Rightarrow> jv outcome" where
  "record_critique attempt info = recording attempt info (Returns (obj_put attempt ''critique''
     (JObj [(''outcome'', or_null (jget info ''outcome'')), (''revised'', JBool (truthy (jget info ''revised'')))])))"

definition record_orient :: "jv \<Rightarrow> jv \<Rightarrow> jv outcome" where
  "record_orient attempt info = recording attempt info (Returns (obj_put attempt ''orient''
     (JObj [(''skipped'', JBool (truthy (jget info ''skipped''))), (''turnsUsed'', count_or_zero (jget info ''turnsUsed''))])))"

definition record_plan_critique :: "jv \<Rightarrow> jv \<Rightarrow> jv outcome" where
  "record_plan_critique attempt info = recording attempt info (Returns (obj_put attempt ''planCritique''
     (JObj [(''verdict'', or_null (jget info ''verdict'')), (''gapCount'', count_or_zero (jget info ''gapCount'')),
            (''viaModel'', JBool (truthy (jget info ''viaModel'')))])))"

definition first_given :: "jv \<Rightarrow> jv \<Rightarrow> jv" where
  "first_given a b = (if nullish a then b else a)"

definition warning_of :: "jv \<Rightarrow> jv" where
  "warning_of f =
     (let symbol = first_given (jget f ''symbol'') (jget f ''identifier'');
          file = first_given (jget f ''file'') (jget f ''citedFile'');
          w0 = JObj [(''type'', JStr (if truthy (jget f ''type'') then to_str (jget f ''type'') else ''unknown''))];
          w1 = (if \<not> nullish (jget f ''detail'') then obj_put w0 ''detail'' (JStr (to_str (jget f ''detail'')))
                else if jget f ''type'' = JStr ''symbol-not-found-in-cited-file'' \<and> \<not> nullish symbol
                then obj_put w0 ''detail'' (JStr ([CHR 0x60] @ to_str symbol @ [CHR 0x60] @ '' was not found in the cited file''
                       @ (if nullish file then [] else '' '' @ to_str file)))
                else w0);
          w2 = put_if (\<not> nullish symbol) ''symbol'' (JStr (to_str symbol)) w1
      in put_if (\<not> nullish file) ''file'' (JStr (to_str file)) w2)"

definition record_fact_check :: "jv \<Rightarrow> jv \<Rightarrow> jv outcome" where
  "record_fact_check attempt flags =
     (if \<not> truthy attempt then Returns attempt
      else let ws = map warning_of (filter (\<lambda>f. is_object f \<or> is_array f) (take FACTCHECK_WARNING_CAP (elems flags)))
           in Returns (put_if (FACTCHECK_WARNING_CAP < length (elems flags)) ''factCheckWarningsTruncated'' (jnat (length (elems flags)))
                (obj_put attempt ''factCheckWarnings'' (JArr ws))))"

definition fact_check_record_input :: "jv \<Rightarrow> jv" where
  "fact_check_record_input fc = JArr (elems (jget fc ''flags'') @ elems (jget fc ''symbolWarnings''))"

definition tier_record :: "jv \<Rightarrow> jv" where
  "tier_record info =
     (let given = (\<lambda>k. \<not> nullish (jget info k) \<and> jget info k \<noteq> JStr []);
          reason = (if truthy (jget info ''reason'') then jget info ''reason'' else jget info ''blockedReason'');
          t0 = JObj [(''tier'', if truthy (jget info ''tier'') then jget info ''tier'' else JStr ''unknown'')];
          t1 = put_if (\<not> nullish (jget info ''resolution'')) ''resolution'' (jget info ''resolution'') t0;
          t2 = put_if (\<not> nullish (jget info ''applied'')) ''applied'' (JBool (truthy (jget info ''applied''))) t1;
          t3 = put_if (\<not> nullish (jget info ''blocked'')) ''blocked'' (JBool (truthy (jget info ''blocked''))) t2;
          t4 = put_if (truthy reason) ''reason'' (JStr (to_str reason)) t3;
          text = (\<lambda>k. to_str (jget info k));
          t5 = (if given ''response''
                then obj_put (obj_put t4 ''responseChars'' (jnat (length (text ''response'')))) ''response'' (JStr (cap (JStr (text ''response'')) RESPONSE_TEXT_CAP))
                else t4);
          t6 = (if given ''rawDiff''
                then obj_put (obj_put t5 ''rawDiffChars'' (jnat (length (text ''rawDiff'')))) ''rawDiff'' (JStr (cap (JStr (text ''rawDiff'')) DIFF_TEXT_CAP))
                else t5);
          t7 = put_if (\<not> nullish (jget info ''turnsUsed'')) ''turnsUsed'' (jget info ''turnsUsed'') t6
      in case summarise_tool_calls (jget info ''toolCallLog'') of Some tools \<Rightarrow> obj_put t7 ''toolCalls'' tools | None \<Rightarrow> t7)"

definition record_tier :: "jv \<Rightarrow> jv \<Rightarrow> jv outcome" where
  "record_tier attempt info = recording attempt info
     (if is_array (jget attempt ''tiers'') then Returns (obj_put attempt ''tiers'' (JArr (elems (jget attempt ''tiers'') @ [tier_record info])))
      else Throws)"

section \<open>The list of attempts\<close>

definition slim_tier :: "jv \<Rightarrow> jv" where
  "slim_tier t =
     put_if (truthy (jget t ''reason'')) ''reason'' (jget t ''reason'')
       (put_if (\<not> nullish (jget t ''applied'')) ''applied'' (jget t ''applied'')
         (put_if (\<not> nullish (jget t ''resolution'')) ''resolution'' (jget t ''resolution'') (JObj [(''tier'', jget t ''tier'')])))"

text \<open>A tier that is \<open>null\<close> makes the collapse throw.\<close>

definition collapsed_attempt :: "jv \<Rightarrow> jv outcome" where
  "collapsed_attempt a =
     (let plan = jget a ''plan'';
          c0 = JObj [(''at'', jget a ''at''), (''attemptNo'', jget a ''attemptNo''), (''outcome'', or_null (jget a ''outcome''))];
          c1 = put_if (truthy (jget a ''blockedReason'')) ''blockedReason'' (jget a ''blockedReason'') c0;
          c2 = obj_put c1 ''planChars'' (if truthy plan \<and> truthy (jget plan ''chars'') then jget plan ''chars'' else JNum (Fin 0));
          c3 = put_if (truthy plan \<and> truthy (jget plan ''degenerate'')) ''planDegenerate'' (jget plan ''degenerate'') c2;
          c4 = put_if (truthy plan \<and> truthy (jget plan ''grounded'')) ''planGrounded'' (JBool True) c3;
          c5 = obj_put c4 ''tiers'' (JArr (map slim_tier (elems (jget a ''tiers''))));
          c6 = put_if (is_array (jget a ''factCheckWarnings'')) ''factCheckWarnings'' (jget a ''factCheckWarnings'') c5;
          c7 = put_if (\<not> nullish (jget a ''factCheckWarningsTruncated'')) ''factCheckWarningsTruncated'' (jget a ''factCheckWarningsTruncated'') c6
      in if list_ex nullish (elems (jget a ''tiers'')) then Throws else Returns (obj_put c7 ''collapsed'' (JBool True)))"

text \<open>The loop over the attempts before the cutoff.\<close>

fun collapse_first :: "nat \<Rightarrow> jv list \<Rightarrow> jv list outcome" where
  "collapse_first 0 as = Returns as"
| "collapse_first n [] = Returns []"
| "collapse_first (Suc n) (a # as) =
     and_then (if \<not> truthy a \<or> truthy (jget a ''collapsed'') then Returns a else collapsed_attempt a)
       (\<lambda>a'. and_then (collapse_first n as) (\<lambda>as'. Returns (a' # as')))"

definition collapse_old_attempts :: "jv list \<Rightarrow> jv list outcome" where
  "collapse_old_attempts as = collapse_first (length as - MAX_FULL_ATTEMPTS) as"

definition final_outcome :: "jv \<Rightarrow> string" where
  "final_outcome r =
     (if jget r ''succeeded'' = JBool False then ''error''
      else if truthy (jget r ''needsClarification'') then ''needs-clarification''
      else if truthy (jget r ''blocked'') then ''blocked''
      else ''succeeded'')"

definition acceptance_of :: "jv \<Rightarrow> jv" where
  "acceptance_of task =
     (let results = elems (jget task ''acceptanceResults'')
      in JObj [(''criteriaCount'', jnat (length (elems (jget task ''acceptanceCriteria'')))), (''resultCount'', jnat (length results)),
               (''passCount'', jnat (length (filter (\<lambda>x. truthy x \<and> truthy (jget x ''pass'')) results))),
               (''source'', or_null (jget task ''acceptanceCriteriaSource''))])"

definition finish_attempt :: "string \<Rightarrow> jv \<Rightarrow> jv \<Rightarrow> jv \<Rightarrow> jv" where
  "finish_attempt now task attempt r =
     (let a0 = obj_put attempt ''outcome'' (JStr (final_outcome r));
          a1 = put_if (truthy (jget r ''blockedReason'')) ''blockedReason'' (JStr (to_str (jget r ''blockedReason''))) a0;
          a2 = put_if (truthy (jget r ''reason'')) ''reason'' (JStr (to_str (jget r ''reason''))) a1;
          a3 = put_if (truthy (jget task ''adhocResolution'')) ''adhocResolution'' (jget task ''adhocResolution'') a2;
          a4 = put_if (is_array (jget task ''acceptanceCriteria'') \<and> elems (jget task ''acceptanceCriteria'') \<noteq> [])
                 ''acceptance'' (acceptance_of task) a3
      in obj_put a4 ''finishedAt'' (JStr now))"

text \<open>The task with the attempt, and the attempt.\<close>

definition finalize_draft_attempt :: "string \<Rightarrow> jv \<Rightarrow> jv \<Rightarrow> jv \<Rightarrow> (jv \<times> jv) outcome" where
  "finalize_draft_attempt now task attempt r =
     (if \<not> truthy attempt then Returns (task, attempt)
      else let a = finish_attempt now task attempt r
           in if \<not> truthy task then Returns (task, a)
              else and_then (collapse_old_attempts (elems (jget task ''draftAttempts'') @ [a]))
                     (\<lambda>as. Returns (obj_put task ''draftAttempts'' (JArr as), a)))"

definition tier_label :: "jv \<Rightarrow> string" where
  "tier_label t =
     (if truthy (jget t ''resolution'') then to_str (jget t ''resolution'')
      else if jget t ''applied'' = JBool True then ''applied'' else if truthy (jget t ''blocked'') then ''blocked'' else ''declined'')"

text \<open>The text that is handed to \<open>emitHistory\<close>.\<close>

definition attempt_summary :: "jv \<Rightarrow> string" where
  "attempt_summary a =
     ''attempt '' @ to_str (jget a ''attemptNo'') @ '': '' @ to_str (jget a ''outcome'')
     @ (if elems (jget a ''tiers'') = [] then []
        else '', tiers: '' @ join '' -> '' (map (\<lambda>t. to_str (jget t ''tier'') @ ''='' @ tier_label t) (elems (jget a ''tiers''))))"

section \<open>A pass and its invariant\<close>

text \<open>The recording operations a pass may call between \<open>beginDraftAttempt\<close> and \<open>finalizeDraftAttempt\<close>.\<close>

datatype draft_event =
    PlanStep jv | ImplementStep jv | CritiqueStep jv | OrientStep jv | PlanCritiqueStep jv | FactCheckStep jv | TierStep jv

fun event_info :: "draft_event \<Rightarrow> jv" where
  "event_info (PlanStep i) = i"
| "event_info (ImplementStep i) = i"
| "event_info (CritiqueStep i) = i"
| "event_info (OrientStep i) = i"
| "event_info (PlanCritiqueStep i) = i"
| "event_info (FactCheckStep i) = i"
| "event_info (TierStep i) = i"

fun record_event :: "jv \<Rightarrow> draft_event \<Rightarrow> jv outcome" where
  "record_event a (PlanStep i) = record_plan a i"
| "record_event a (ImplementStep i) = record_implement a i"
| "record_event a (CritiqueStep i) = record_critique a i"
| "record_event a (OrientStep i) = record_orient a i"
| "record_event a (PlanCritiqueStep i) = record_plan_critique a i"
| "record_event a (FactCheckStep i) = record_fact_check a i"
| "record_event a (TierStep i) = record_tier a i"

fun record_events :: "jv \<Rightarrow> draft_event list \<Rightarrow> jv outcome" where
  "record_events a [] = Returns a"
| "record_events a (e # es) = and_then (record_event a e) (\<lambda>a'. record_events a' es)"

definition draft_pass :: "string \<Rightarrow> string \<Rightarrow> string \<Rightarrow> jv \<Rightarrow> draft_event list \<Rightarrow> jv \<Rightarrow> (jv \<times> jv) outcome" where
  "draft_pass t0 t1 lane task es r =
     and_then (record_events (begin_draft_attempt t0 lane task) es) (\<lambda>a. finalize_draft_attempt t1 task a r)"

text \<open>A stored attempt: an object, its tiers no \<open>null\<close>. The list: numbered from one, the last six in full, the others
  collapsed.\<close>

definition stored_attempt :: "jv \<Rightarrow> bool" where
  "stored_attempt a \<longleftrightarrow> keyed a \<and> \<not> list_ex nullish (elems (jget a ''tiers''))"

definition attempts_ok :: "jv list \<Rightarrow> bool" where
  "attempts_ok as \<longleftrightarrow>
     (\<forall>i<length as. stored_attempt (as ! i) \<and> jget (as ! i) ''attemptNo'' = jnat (i + 1)
        \<and> (truthy (jget (as ! i) ''collapsed'') \<longleftrightarrow> i + MAX_FULL_ATTEMPTS < length as))"

lemma keyed_put_if [simp]: "keyed v \<Longrightarrow> keyed (put_if c k x v)"
  by (simp add: put_if_def)

lemma jget_put_if: "keyed v \<Longrightarrow> jget (put_if c k x v) k' = (if c \<and> k' = k then x else jget v k')"
  by (simp add: put_if_def jget_put)

lemma keyed_put_some [simp]: "keyed v \<Longrightarrow> keyed (put_some t k v)"
  by (simp add: put_some_def split: option.splits)

lemma keyed_truthy: "keyed v \<Longrightarrow> truthy v"
  by (cases v) auto

lemma slim_tier_keyed: "keyed (slim_tier t)"
  by (simp add: slim_tier_def)

lemma keyed_not_nullish: "keyed v \<Longrightarrow> \<not> nullish v"
  by (cases v) (auto simp: nullish_def)

lemma tier_record_keyed: "keyed (tier_record i)"
  by (simp add: tier_record_def Let_def split: option.splits)

lemma collapsed_attempt_stored:
  assumes "stored_attempt a"
  obtains b where "collapsed_attempt a = Returns b" "stored_attempt b" "truthy (jget b ''collapsed'')"
    "jget b ''attemptNo'' = jget a ''attemptNo''" "jget b ''outcome'' = or_null (jget a ''outcome'')" "jget b ''at'' = jget a ''at''"
proof
  show "collapsed_attempt a = Returns (case collapsed_attempt a of Returns b \<Rightarrow> b | Throws \<Rightarrow> a)"
    using assms by (simp add: collapsed_attempt_def stored_attempt_def Let_def)
qed (use assms in \<open>simp_all add: collapsed_attempt_def stored_attempt_def Let_def jget_put jget_put_if list_ex_iff
       keyed_not_nullish slim_tier_keyed\<close>)

text \<open>An attempt while its pass runs.\<close>

definition running_attempt :: "nat \<Rightarrow> jv \<Rightarrow> bool" where
  "running_attempt n a \<longleftrightarrow>
     keyed a \<and> jget a ''attemptNo'' = jnat n \<and> \<not> truthy (jget a ''collapsed'') \<and> is_array (jget a ''tiers'')
     \<and> \<not> list_ex nullish (elems (jget a ''tiers''))"

lemma begin_running: "running_attempt (length (elems (jget task ''draftAttempts'')) + 1) (begin_draft_attempt now lane task)"
  by (simp add: running_attempt_def begin_draft_attempt_def jnat_def)

lemma put_running:
  "\<lbrakk>running_attempt n a; k \<notin> {''attemptNo'', ''collapsed'', ''tiers''}\<rbrakk> \<Longrightarrow> running_attempt n (obj_put a k v)"
  by (auto simp: running_attempt_def jget_put)

lemma put_if_running:
  "\<lbrakk>running_attempt n a; k \<notin> {''attemptNo'', ''collapsed'', ''tiers''}\<rbrakk> \<Longrightarrow> running_attempt n (put_if c k v a)"
  by (simp add: put_if_def put_running)

lemma put_tiers_running:
  "\<lbrakk>running_attempt n a; \<not> list_ex nullish vs\<rbrakk> \<Longrightarrow> running_attempt n (obj_put a ''tiers'' (JArr vs))"
  by (auto simp: running_attempt_def jget_put)

lemma record_event_running:
  assumes "running_attempt n a" "event_info e \<noteq> JNull"
  shows "\<exists>b. record_event a e = Returns b \<and> running_attempt n b"
proof -
  have t: "truthy a" using assms(1) keyed_truthy by (auto simp: running_attempt_def)
  have tiers: "is_array (jget a ''tiers'')" "\<not> list_ex nullish (elems (jget a ''tiers''))"
    using assms(1) by (simp_all add: running_attempt_def)
  show ?thesis
  proof (cases e)
    case (TierStep i)
    then show ?thesis
      using assms t tiers by (auto simp: record_tier_def recording_def list_ex_iff keyed_not_nullish tier_record_keyed intro!: put_tiers_running)
  qed (use assms t in \<open>simp_all add: record_plan_def record_implement_def record_critique_def record_orient_def record_plan_critique_def
         record_fact_check_def recording_def Let_def put_running put_if_running\<close>)
qed

lemma record_events_running:
  assumes "running_attempt n a" "\<forall>e\<in>set es. event_info e \<noteq> JNull"
  shows "\<exists>b. record_events a es = Returns b \<and> running_attempt n b"
  using assms
proof (induction es arbitrary: a)
  case (Cons e es)
  obtain b where "record_event a e = Returns b" "running_attempt n b"
    using record_event_running [of n a e] Cons.prems by auto
  then show ?case using Cons by simp
qed simp

lemma finish_running: "running_attempt n a \<Longrightarrow> running_attempt n (finish_attempt now task a r)"
  by (simp add: finish_attempt_def Let_def put_running put_if_running)

text \<open>What the collapse leaves of one attempt.\<close>

definition collapsed_from :: "jv \<Rightarrow> jv \<Rightarrow> bool" where
  "collapsed_from a b \<longleftrightarrow>
     (if truthy (jget a ''collapsed'') then b = a
      else stored_attempt b \<and> truthy (jget b ''collapsed'') \<and> (\<forall>k\<in>{''attemptNo'', ''at''}. jget b k = jget a k)
         \<and> jget b ''outcome'' = or_null (jget a ''outcome''))"

lemma collapse_first_spec:
  assumes "\<forall>a\<in>set as. stored_attempt a"
  shows "\<exists>bs. collapse_first n as = Returns (bs @ drop n as) \<and> list_all2 collapsed_from (take n as) bs"
  using assms
proof (induction n as rule: collapse_first.induct)
  case (3 n a as)
  obtain bs where bs: "collapse_first n as = Returns (bs @ drop n as)" "list_all2 collapsed_from (take n as) bs"
    using 3 by (cases "truthy (jget a ''collapsed'')") auto
  obtain b where "collapsed_attempt a = Returns b" "stored_attempt b" "truthy (jget b ''collapsed'')"
    "jget b ''attemptNo'' = jget a ''attemptNo''" "jget b ''outcome'' = or_null (jget a ''outcome'')" "jget b ''at'' = jget a ''at''"
    using collapsed_attempt_stored 3 by auto
  then show ?case
    using bs 3 keyed_truthy [of a] by (auto simp: collapsed_from_def stored_attempt_def)
qed auto

lemma list_all2_collapsed:
  assumes "list_all2 collapsed_from as bs" "i < length bs" "stored_attempt (as ! i)"
  shows "stored_attempt (bs ! i) \<and> truthy (jget (bs ! i) ''collapsed'') \<and> jget (bs ! i) ''attemptNo'' = jget (as ! i) ''attemptNo''"
  using list_all2_nthD2 [OF assms(1, 2)] assms(3) by (auto simp: collapsed_from_def split: if_splits)

lemma running_stored: "running_attempt n a \<Longrightarrow> stored_attempt a"
  by (simp add: running_attempt_def stored_attempt_def)

text \<open>Adding an attempt and collapsing what is now old.\<close>

lemma collapse_keeps_ok:
  assumes "attempts_ok as" "running_attempt (length as + 1) a"
  shows "\<exists>bs. collapse_old_attempts (as @ [a]) = Returns (bs @ drop (length as + 1 - MAX_FULL_ATTEMPTS) as @ [a])
    \<and> list_all2 collapsed_from (take (length as + 1 - MAX_FULL_ATTEMPTS) as) bs
    \<and> attempts_ok (bs @ drop (length as + 1 - MAX_FULL_ATTEMPTS) as @ [a])"
proof -
  define n where "n = length as + 1 - MAX_FULL_ATTEMPTS"
  have n: "n \<le> length as" by (simp add: n_def MAX_FULL_ATTEMPTS_def)
  have stored: "\<forall>x\<in>set (as @ [a]). stored_attempt x"
    using assms running_stored by (auto simp: attempts_ok_def in_set_conv_nth)
  obtain bs where bs: "collapse_old_attempts (as @ [a]) = Returns (bs @ drop n as @ [a])"
    "list_all2 collapsed_from (take n as) bs"
    using collapse_first_spec [OF stored, of n] n by (auto simp: collapse_old_attempts_def n_def)
  have len: "length bs = n" using list_all2_lengthD [OF bs(2)] n by simp
  have "stored_attempt (x ! i) \<and> jget (x ! i) ''attemptNo'' = jnat (i + 1)
      \<and> (truthy (jget (x ! i) ''collapsed'') \<longleftrightarrow> i + MAX_FULL_ATTEMPTS < length x)"
    if x: "x = bs @ drop n as @ [a]" and i: "i < length x" for x i
  proof -
    have lx: "length x = length as + 1" using x len n by simp
    consider "i < n" | "n \<le> i" "i < length as" | "i = length as" using i lx by linarith
    then show ?thesis
    proof cases
      case 1
      then have "stored_attempt (take n as ! i)" "jget (as ! i) ''attemptNo'' = jnat (i + 1)"
        using assms(1) n by (auto simp: attempts_ok_def)
      then show ?thesis
        using list_all2_collapsed [OF bs(2), of i] 1 len lx x n_def by (simp add: nth_append)
    next
      case 2
      then have "x ! i = as ! i" using x len n by (auto simp: nth_append)
      with 2 show ?thesis using assms(1) lx n_def by (auto simp: attempts_ok_def MAX_FULL_ATTEMPTS_def)
    next
      case 3
      then have "x ! i = a" using x len n by (simp add: nth_append)
      with 3 show ?thesis using assms(2) lx running_stored by (auto simp: running_attempt_def MAX_FULL_ATTEMPTS_def)
    qed
  qed
  with bs show ?thesis unfolding attempts_ok_def n_def by blast
qed

text \<open>A drafting pass never throws, whatever it records, and adds exactly one attempt, which carries the next number and
  the pass's outcome. The history stays well formed: attempts are numbered from one, the last six are in full and the older
  ones collapsed; a collapse keeps an attempt's number, time and outcome, and nothing else of the task changes.\<close>

theorem draft_pass_extends_history:
  assumes "keyed task" "attempts_ok (elems (jget task ''draftAttempts''))" "\<forall>e\<in>set es. event_info e \<noteq> JNull"
  shows "\<exists>task' a bs as. draft_pass t0 t1 lane task es r = Returns (task', a)
    \<and> as = elems (jget task ''draftAttempts'')
    \<and> elems (jget task' ''draftAttempts'') = bs @ drop (length as + 1 - MAX_FULL_ATTEMPTS) as @ [a]
    \<and> list_all2 collapsed_from (take (length as + 1 - MAX_FULL_ATTEMPTS) as) bs
    \<and> attempts_ok (elems (jget task' ''draftAttempts''))
    \<and> jget a ''outcome'' = JStr (final_outcome r)
    \<and> (\<forall>k. k \<noteq> ''draftAttempts'' \<longrightarrow> jget task' k = jget task k)"
proof -
  define as where "as = elems (jget task ''draftAttempts'')"
  obtain b where b: "record_events (begin_draft_attempt t0 lane task) es = Returns b" "running_attempt (length as + 1) b"
    using record_events_running [OF begin_running assms(3), of t0 lane] as_def by auto
  define a where "a = finish_attempt t1 task b r"
  have a: "running_attempt (length as + 1) a" using finish_running [OF b(2)] by (simp add: a_def)
  obtain bs where bs: "collapse_old_attempts (as @ [a]) = Returns (bs @ drop (length as + 1 - MAX_FULL_ATTEMPTS) as @ [a])"
    "list_all2 collapsed_from (take (length as + 1 - MAX_FULL_ATTEMPTS) as) bs"
    "attempts_ok (bs @ drop (length as + 1 - MAX_FULL_ATTEMPTS) as @ [a])"
    using collapse_keeps_ok [OF _ a] assms(2) as_def by auto
  have "jget a ''outcome'' = JStr (final_outcome r)"
    using b(2) by (simp add: a_def finish_attempt_def running_attempt_def Let_def jget_put jget_put_if)
  moreover have "truthy b" "truthy task"
    using b(2) assms(1) by (auto simp: running_attempt_def intro: keyed_truthy)
  ultimately show ?thesis
    using b(1) bs assms(1) by (auto simp: draft_pass_def finalize_draft_attempt_def as_def [symmetric] a_def [symmetric] jget_put)
qed

lemma draft_pass_extends_history_witness:
  "let task = JObj [(''id'', JStr ''x''), (''draftAttempts'', JArr [JObj [(''attemptNo'', JNum (Fin 1)), (''tiers'', JArr [])]])]
   in \<exists>task' a. draft_pass ''t'' ''u'' ''w'' task [TierStep (JObj [(''tier'', JStr ''local'')])] (JObj []) = Returns (task', a)
        \<and> jget task' ''id'' = JStr ''x''"
proof -
  let ?task = "JObj [(''id'', JStr ''x''), (''draftAttempts'', JArr [JObj [(''attemptNo'', JNum (Fin 1)), (''tiers'', JArr [])]])]"
  have *: "keyed ?task" "attempts_ok (elems (jget ?task ''draftAttempts''))"
    "\<forall>e\<in>set [TierStep (JObj [(''tier'', JStr ''local'')])]. event_info e \<noteq> JNull"
    by (simp_all add: attempts_ok_def stored_attempt_def jnat_def MAX_FULL_ATTEMPTS_def)
  show ?thesis
    using draft_pass_extends_history [OF *, of "''t''" "''u''" "''w''" "JObj []"] unfolding Let_def by force
qed

end
