(* ===== verification/ClaimProperties.thy ===== *)
theory ClaimProperties
  imports ClaimOrder
begin

text \<open>
  What a worker is offered: the properties of \<open>pickClaimableTasks\<close> over the model of \<open>ClaimOrder\<close>.
  \<open>call_entries\<close> is the queue as the call reads it and \<open>ranked_rows\<close> the ranked part before the
  lane preference; both are unfolded by \<open>pick_result\<close>. The witnesses run on a small concrete queue.
\<close>

section \<open>A concrete world\<close>

definition demo_source :: "string \<Rightarrow> real \<Rightarrow> unit source" where
  "demo_source n p = (bare_source n)\<lparr>src_priority := Some (JNum (Fin p))\<rparr>"

definition demo_lane :: "string \<Rightarrow> real \<Rightarrow> lane" where
  "demo_lane i t =
     \<lparr>ln_id = i, ln_gpu = i, ln_env = [], ln_local = True, ln_slow = False, ln_numCtx = None, ln_numBatch = None,
      ln_reviewer = False, ln_reviewerId = i, ln_preempt = PreemptNever, ln_taskClasses = None, ln_model = Some ''m'',
      ln_tier = Some (Fin t), ln_reserve = ReserveAuto, ln_provider = OllamaProvider, ln_registeredModel = None\<rparr>"

definition demo_world :: "unit claim_world" where
  "demo_world =
     \<lparr>cw_instance = ''worker-b'', cw_env = (\<lambda>_. None),
      cw_registry = [(''tests'', demo_source ''tests'' 50), (''docs'', demo_source ''docs'' 60)],
      cw_aliases = (\<lambda>_. None), cw_bands = None, cw_queue = (\<lambda>_ _. None), cw_coreActive = False,
      cw_lanes = [demo_lane ''worker-a'' 27, demo_lane ''worker-b'' 9], cw_rows = [], cw_hash = (\<lambda>_ _. 1),
      cw_heartbeats = (\<lambda>_. Throws), cw_hbExists = (\<lambda>_. False), cw_health = (\<lambda>_. None), cw_now = 1000000\<rparr>"

definition demo_task :: "string \<Rightarrow> (string \<times> jv) list \<Rightarrow> jv" where
  "demo_task src fs = JObj ((''source'', JStr src) # fs)"

definition demo_disk :: "(string \<times> jv \<times> real) list \<Rightarrow> claim_disk" where
  "demo_disk files =
     \<lparr>cd_disk = \<lparr>dk_mtime = Some 900000, dk_names = Some (map fst files),
        dk_file = (\<lambda>n. map_option (\<lambda>(t, m). \<lparr>fi_mtime = m, fi_size = 1, fi_json = Some t\<rparr>) (map_of files n))\<rparr>,
      cd_saved = None, cd_writable = True, cd_audit = \<lparr>al_seen = [], al_events = []\<rparr>, cd_hubAudit = []\<rparr>"

lemma demo_world_ok: "world_ok demo_world"
  by (simp add: world_ok_def demo_world_def priorities_ordered_def hooks_ok_def demo_source_def bare_source_def)

definition demo_files :: "entry list" where
  "demo_files = [(''a.json'', demo_task ''tests'' [], 100), (''b.json'', demo_task ''docs'' [(''premiumPriority'', JBool True)], 200),
     (''c.json'', demo_task ''docs'' [(''pinnedWorker'', JStr ''worker-b'')], 300), (''d.json'', demo_task ''docs'' [(''pinnedWorker'', JStr ''worker-a'')], 50)]"

lemma demo_entries: "call_entries demo_world ''q'' (demo_disk demo_files) = demo_files"
  by code_simp

lemma demo_ranked:
  "ranked_rows demo_world ''q'' (demo_disk demo_files) =
     [fresh_row demo_world (''b.json'', demo_task ''docs'' [(''premiumPriority'', JBool True)], 200),
      fresh_row demo_world (''a.json'', demo_task ''tests'' [], 100)]"
  by code_simp

section \<open>Which tasks are offered\<close>

lemma pinned_rows_names: "pn_name ` set (pinned_rows w es) = fst ` {e \<in> set es. pinned_here w (fst (snd e))}"
  by (force simp: pinned_rows_def)

lemma fresh_row_name: "cl_name (fresh_row w e) = fst e"
  by (cases e) simp

lemma pinned_rows_distinct: "distinct (map fst es) \<Longrightarrow> distinct (map pn_name (pinned_rows w es))"
proof -
  assume "distinct (map fst es)"
  moreover have "map pn_name (pinned_rows w es) = map fst (filter (\<lambda>(n, t, m). pinned_here w t) es)"
    by (auto simp: pinned_rows_def)
  ultimately show ?thesis by (metis distinct_map_filter)
qed

lemma admitted_in: "e \<in> set (admitted w es s) \<Longrightarrow> e \<in> set es"
  by (induction es arbitrary: s) (auto split: if_splits)

lemma admitted_distinct: "distinct (map fst es) \<Longrightarrow> distinct (map fst (admitted w es s))"
  by (induction es arbitrary: s) (auto dest: admitted_in)

lemma ranked_rows_set: "set (ranked_rows w dir cd) = fresh_row w ` set (admitted w (call_entries w dir cd) (claim_start (cd_audit cd)))"
  by (simp add: ranked_rows_def)

lemma leave_head_set: "set (leave_head w rs) \<subseteq> set rs" "distinct (map f rs) \<Longrightarrow> distinct (map f (leave_head w rs))"
  using leave_head_drop [of w rs] by (auto dest: in_set_dropD simp: drop_map [symmetric] intro: distinct_drop)

text \<open>C5: A call offers every task of the queue at most once, and only tasks of the queue: the names it
  returns are distinct and come from the listing, for every queue listed without repetitions.\<close>

theorem offered_once:
  assumes "hooks_ok (cw_registry w)" and "distinct (map fst (call_entries w dir cd))"
  shows "distinct (map fst (fst (pick_claimable_tasks w dir cd)))
         \<and> set (map fst (fst (pick_claimable_tasks w dir cd))) \<subseteq> set (map fst (call_entries w dir cd))"
proof -
  let ?es = "call_entries w dir cd"
  let ?ad = "admitted w ?es (claim_start (cd_audit cd))"
  let ?ps = "js_sort compare_pinned (pinned_rows w ?es)" and ?rs = "leave_head w (ranked_rows w dir cd)"
  have names: "map fst (fst (pick_claimable_tasks w dir cd)) = map pn_name ?ps @ map cl_name ?rs"
    by (simp add: pick_result [OF assms(1)])
  have rs: "set (map cl_name ?rs) \<subseteq> fst ` set ?ad"
  proof
    fix n
    assume "n \<in> set (map cl_name ?rs)"
    then obtain r where "r \<in> set (ranked_rows w dir cd)" "n = cl_name r"
      using leave_head_set(1) [of w "ranked_rows w dir cd"] by auto
    then show "n \<in> fst ` set ?ad" by (force simp: ranked_rows_set fresh_row_name)
  qed
  have "distinct (map cl_name (map (fresh_row w) ?ad))"
    using admitted_distinct [OF assms(2)] by (simp add: fresh_row_name comp_def)
  then have "distinct (map cl_name ?rs)"
    by (intro leave_head_set(2)) (simp add: ranked_rows_def)
  moreover have "distinct (map pn_name ?ps)" using pinned_rows_distinct [OF assms(2)] by simp
  moreover have "x \<notin> set (map cl_name ?rs)" if "x \<in> set (map pn_name ?ps)" for x
  proof
    assume "x \<in> set (map cl_name ?rs)"
    with rs obtain a where a: "a \<in> set ?ad" "fst a = x" by blast
    from that obtain b where b: "b \<in> set ?es" "fst b = x" "pinned_here w (fst (snd b))"
      using pinned_rows_names [of w ?es] by auto
    have "a = b" using assms(2) a b by (metis admitted_in eq_key_imp_eq_value prod.collapse)
    with a(1) b(3) admitted_passes show False by blast
  qed
  ultimately have "distinct (map pn_name ?ps @ map cl_name ?rs)" by auto
  moreover have "set (map pn_name ?ps) \<subseteq> fst ` set ?es" using pinned_rows_names [of w ?es] by auto
  moreover have "fst ` set ?ad \<subseteq> fst ` set ?es" using admitted_in by blast
  ultimately show ?thesis unfolding names using rs by auto
qed

theorem offered_once_witness:
  "distinct (map fst (fst (pick_claimable_tasks demo_world ''q'' (demo_disk demo_files))))"
proof -
  have "hooks_ok (cw_registry demo_world)" using demo_world_ok by (simp add: world_ok_def)
  moreover have "distinct (map fst (call_entries demo_world ''q'' (demo_disk demo_files)))"
    unfolding demo_entries by (simp add: demo_files_def)
  ultimately show ?thesis by (rule offered_once [THEN conjunct1])
qed

text \<open>An operator's pin decides: what is pinned to this worker comes first, complete and oldest
  first, and whatever is offered after it is a task of the queue that is pinned to no worker at all, was
  not steered away from this lane and is in scope here.\<close>

theorem pins_first:
  assumes "hooks_ok (cw_registry w)"
  shows "\<exists>ps rs. fst (pick_claimable_tasks w dir cd) =
            map (\<lambda>p. (pn_name p, pn_premium p)) ps @ map (\<lambda>r. (cl_name r, cl_premium r)) rs
          \<and> mset ps = mset (pinned_rows w (call_entries w dir cd)) \<and> sorted (map pn_mtime ps)
          \<and> (\<forall>r\<in>set rs. \<exists>e\<in>set (call_entries w dir cd). r = fresh_row w e
               \<and> \<not> truthy (pinned_worker (fst (snd e))) \<and> \<not> avoided_here w (fst (snd e)) \<and> scope_allows w (fst (snd e)))"
proof (intro exI conjI)
  let ?es = "call_entries w dir cd"
  show "fst (pick_claimable_tasks w dir cd) =
      map (\<lambda>p. (pn_name p, pn_premium p)) (js_sort compare_pinned (pinned_rows w ?es))
      @ map (\<lambda>r. (cl_name r, cl_premium r)) (leave_head w (ranked_rows w dir cd))"
    by (rule pick_result [OF assms])
  show "sorted (map pn_mtime (js_sort compare_pinned (pinned_rows w ?es)))"
    by (rule pinned_order.sorted_js_sort) simp
  show "\<forall>r\<in>set (leave_head w (ranked_rows w dir cd)). \<exists>e\<in>set ?es. r = fresh_row w e
        \<and> \<not> truthy (pinned_worker (fst (snd e))) \<and> \<not> avoided_here w (fst (snd e)) \<and> scope_allows w (fst (snd e))"
  proof
    fix r
    assume "r \<in> set (leave_head w (ranked_rows w dir cd))"
    then obtain e where "e \<in> set (admitted w ?es (claim_start (cd_audit cd)))" "r = fresh_row w e"
      using leave_head_set(1) [of w "ranked_rows w dir cd"] by (auto simp: ranked_rows_def)
    with admitted_passes [OF this(1)] admitted_in [OF this(1)]
    show "\<exists>e\<in>set ?es. r = fresh_row w e
        \<and> \<not> truthy (pinned_worker (fst (snd e))) \<and> \<not> avoided_here w (fst (snd e)) \<and> scope_allows w (fst (snd e))"
      by (auto simp: pinned_elsewhere_def pinned_here_def)
  qed
qed simp

theorem pins_first_witness:
  "\<exists>(ps :: pinned_row list) (rs :: claim_row list). fst (pick_claimable_tasks demo_world ''q'' (demo_disk demo_files)) =
      map (\<lambda>p. (pn_name p, pn_premium p)) ps @ map (\<lambda>r. (cl_name r, cl_premium r)) rs \<and> length ps = 1"
proof -
  have "hooks_ok (cw_registry demo_world)" using demo_world_ok by (simp add: world_ok_def)
  from pins_first [OF this, of "''q''" "demo_disk demo_files"] obtain ps :: "pinned_row list" and rs :: "claim_row list" where
    "fst (pick_claimable_tasks demo_world ''q'' (demo_disk demo_files)) =
      map (\<lambda>p. (pn_name p, pn_premium p)) ps @ map (\<lambda>r. (cl_name r, cl_premium r)) rs"
    and "mset ps = mset (pinned_rows demo_world demo_files)"
    unfolding demo_entries by (elim exE conjE) (rule that, assumption+)
  moreover have "length (pinned_rows demo_world demo_files) = 1" by code_simp
  ultimately show ?thesis by (metis size_mset)
qed

section \<open>The order of what is offered\<close>

lemma admitted_ranked: "e \<in> set (admitted w (call_entries w dir cd) (claim_start (cd_audit cd))) \<Longrightarrow> fresh_row w e \<in> set (ranked_rows w dir cd)"
  by (simp add: ranked_rows_set)

text \<open>Rows of strictly smaller key come first.\<close>

lemma ranked_before:
  assumes "world_ok w" and "ranked_rows w dir cd = us @ b # vs" and "row_key a < row_key b"
  shows "a \<notin> set vs"
proof
  assume "a \<in> set vs"
  with ranked_rows_sorted [OF assms(1), of dir cd] assms(2) have "row_key b \<le> row_key a"
    by (auto simp: sorted_append)
  with assms(3) show False by simp
qed

lemma pair_le: "(x, u) \<le> (y, v) \<longleftrightarrow> x < y \<or> (x = y \<and> u \<le> v)"
  for x y :: "'k :: linorder" and u v :: "'l :: linorder"
  by (auto simp: less_eq_prod_def)

text \<open>A source whose registered priority is a number that is not minus infinity.\<close>

definition ordinary_source :: "'w claim_world \<Rightarrow> jv \<Rightarrow> bool" where
  "ordinary_source w task \<longleftrightarrow>
     jget task ''source'' \<noteq> JStr ''derived_task''
     \<and> (case get_registered_source (cw_registry w) (resolve_source_name (cw_aliases w) task) of
          Some s \<Rightarrow> (case src_priority s of Some (JNum _) \<Rightarrow> True | _ \<Rightarrow> False) | None \<Rightarrow> False)"

definition priorities_finite :: "'w registry \<Rightarrow> bool" where
  "priorities_finite reg \<longleftrightarrow> (\<forall>e\<in>set reg. \<forall>p. src_priority (snd e) = Some (JNum p) \<longrightarrow> is_finite p)"

lemma rank_premium:
  "truthy task \<Longrightarrow> truthy (jget task ''premiumPriority'') \<Longrightarrow> tier \<or> ordinary_source w task \<Longrightarrow> rank_of w tier task = NInf"
  by (auto simp: rank_of_def rank_priority_of_task_def ordinary_source_def effective_priority_def Let_def
      split: option.splits jv.splits)

lemma rank_not_premium:
  assumes "priorities_finite (cw_registry w)" and "\<not> truthy (jget task ''premiumPriority'')"
  shows "rank_of w tier task \<noteq> NInf"
proof -
  have p: "p \<noteq> NInf" if "get_registered_source (cw_registry w) n = Some s" "src_priority s = Some (JNum p)" for n s p
    using assms(1) that by (fastforce simp: priorities_finite_def get_registered_source_def split: jv.splits dest!: map_of_SomeD)
  have b: "banded_priority n q bs \<noteq> NInf" if "q \<noteq> NInf" for n q bs
    using that by (cases q) (auto simp: banded_priority_def split: option.splits)
  have e: "effective_priority al task q False \<noteq> NInf" if "q \<noteq> NInf" for al q
    using that assms(2) by (cases q) (auto simp: effective_priority_def BOT_ADHOC_PRIORITY_PENALTY_def)
  have num: "x \<noteq> NInf" if "src_priority s = Some (JNum x)" "get_registered_source (cw_registry w) n = Some s" for x s n
    using p that by blast
  show ?thesis
  proof (cases tier)
    case True
    with assms(2) show ?thesis by (simp add: rank_of_def rank_priority_of_task_def HUB_TIER_PRIORITY_def)
  next
    case False
    with assms(2) show ?thesis
      by (simp add: rank_of_def rank_priority_of_task_def num b e split: option.splits jv.splits)
  qed
qed

lemma fresh_row_priority:
  "\<exists>tier. cl_priority (fresh_row w (name, task, mtime)) = demote w task (rank_of w tier task)"
  by (auto simp: fresh_row_def rank_row_def row_for_task_def case_prod_beta Let_def)

text \<open>C2: Premium work goes first. A premium task of an ordinary source that has not been rotated out is
  offered before every task that is not premium: in the ranked list nothing that is not premium precedes it.\<close>

theorem premium_first:
  assumes "world_ok w" and "priorities_finite (cw_registry w)"
    and "ranked_rows w dir cd = us @ fresh_row w (n2, t2, m2) # vs"
    and "truthy t1" and "truthy (jget t1 ''premiumPriority'')" and "ordinary_source w t1"
    and "\<not> rotation_demoted (cw_env w) (Fin (cw_now w)) t1"
    and "\<not> truthy (jget t2 ''premiumPriority'')"
  shows "fresh_row w (n1, t1, m1) \<notin> set vs"
proof (rule ranked_before [OF assms(1,3)])
  obtain tier where "cl_priority (fresh_row w (n1, t1, m1)) = demote w t1 (rank_of w tier t1)"
    using fresh_row_priority by blast
  then have a: "cl_priority (fresh_row w (n1, t1, m1)) = NInf"
    using assms(4-7) by (simp add: demote_def rank_premium)
  obtain tier2 where "cl_priority (fresh_row w (n2, t2, m2)) = demote w t2 (rank_of w tier2 t2)"
    using fresh_row_priority by blast
  moreover have "rank_of w tier2 t2 \<noteq> NInf" by (rule rank_not_premium [OF assms(2,8)])
  ultimately have "cl_priority (fresh_row w (n2, t2, m2)) \<noteq> NInf" by (simp add: demote_def)
  moreover have "cl_priority (fresh_row w (n2, t2, m2)) \<noteq> NaN"
    using fresh_row_ok [OF assms(1)] by (simp add: row_ok_def)
  ultimately have "NInf < cl_priority (fresh_row w (n2, t2, m2))"
    by (cases "cl_priority (fresh_row w (n2, t2, m2))") auto
  with a show "row_key (fresh_row w (n1, t1, m1)) < row_key (fresh_row w (n2, t2, m2))"
    by (simp add: row_key_def less_prod_def)
qed

theorem premium_first_witness:
  "fresh_row demo_world (''b.json'', demo_task ''docs'' [(''premiumPriority'', JBool True)], 200) \<notin> set []"
proof -
  have "ranked_rows demo_world ''q'' (demo_disk demo_files) =
      [fresh_row demo_world (''b.json'', demo_task ''docs'' [(''premiumPriority'', JBool True)], 200)] @ fresh_row demo_world (''a.json'', demo_task ''tests'' [], 100) # []"
    by (simp add: demo_ranked)
  moreover have "ordinary_source demo_world (demo_task ''docs'' [(''premiumPriority'', JBool True)])" by code_simp
  moreover have "\<not> rotation_demoted (cw_env demo_world) (Fin (cw_now demo_world)) (demo_task ''docs'' [(''premiumPriority'', JBool True)])"
    by code_simp
  moreover have "priorities_finite (cw_registry demo_world)"
    by (simp add: priorities_finite_def demo_world_def demo_source_def bare_source_def)
  ultimately show ?thesis
    using premium_first [OF demo_world_ok, of "''q''" "demo_disk demo_files" _ "''a.json''" "demo_task ''tests'' []" 100 "[]"
        "demo_task ''docs'' [(''premiumPriority'', JBool True)]" "''b.json''" 200]
    by (simp add: demo_task_def)
qed

text \<open>Hub work is served by its hub. Of two ranked tasks in the hub tier (or of any one priority) the
  one whose hub has the smaller explicit rank, then the fewer remaining pieces, then the earlier creation,
  comes first; tasks of equal hubs come in queue-age order.\<close>

theorem hub_key_decides:
  assumes "world_ok w" and "ranked_rows w dir cd = us @ b # vs" and "a \<in> set vs" and "cl_priority a = cl_priority b"
  shows "hub_sort_key (cl_hubKey b) < hub_sort_key (cl_hubKey a)
         \<or> (hub_sort_key (cl_hubKey b) = hub_sort_key (cl_hubKey a) \<and> cl_mtime b \<le> cl_mtime a)"
proof -
  have "row_key b \<le> row_key a"
    using ranked_before [OF assms(1,2), of a] assms(3) by force
  with assms(4) show ?thesis by (auto simp only: row_key_def pair_le less_eq_jnum.simps)
qed

definition hub_files :: "entry list" where
  "hub_files = [(''a.json'', demo_task ''tests'' [], 200), (''b.json'', demo_task ''tests'' [], 100)]"

lemma hub_ranked:
  "ranked_rows demo_world ''q'' (demo_disk hub_files) =
     [fresh_row demo_world (''b.json'', demo_task ''tests'' [], 100), fresh_row demo_world (''a.json'', demo_task ''tests'' [], 200)]"
  by code_simp

theorem hub_key_decides_witness:
  "hub_sort_key no_hub_key < hub_sort_key no_hub_key \<or> (hub_sort_key no_hub_key = hub_sort_key no_hub_key \<and> (100 :: real) \<le> 200)"
proof -
  have "ranked_rows demo_world ''q'' (demo_disk hub_files) = [] @ fresh_row demo_world (''b.json'', demo_task ''tests'' [], 100) # [fresh_row demo_world (''a.json'', demo_task ''tests'' [], 200)]"
    by (simp add: hub_ranked)
  moreover have "cl_priority (fresh_row demo_world (''a.json'', demo_task ''tests'' [], 200)) = cl_priority (fresh_row demo_world (''b.json'', demo_task ''tests'' [], 100))"
    by code_simp
  moreover have "cl_hubKey (fresh_row demo_world (''a.json'', demo_task ''tests'' [], 200)) = no_hub_key"
    and "cl_hubKey (fresh_row demo_world (''b.json'', demo_task ''tests'' [], 100)) = no_hub_key"
    by code_simp+
  ultimately show ?thesis
    using hub_key_decides [OF demo_world_ok, of "''q''" "demo_disk hub_files" "[]"
        "fresh_row demo_world (''b.json'', demo_task ''tests'' [], 100)" "[fresh_row demo_world (''a.json'', demo_task ''tests'' [], 200)]"
        "fresh_row demo_world (''a.json'', demo_task ''tests'' [], 200)"]
    by simp
qed

section \<open>Leaving work to another lane\<close>

text \<open>The lane preference is bounded. A call withholds at most the first ranked task, and only while
  that task is younger than the grace period and the preferred lane, which is another lane than this
  one, has a fresh heartbeat saying it is idle; once the grace has passed the task is offered.\<close>

theorem only_fresh_head_withheld:
  "leave_head w rs = rs
   \<or> (\<exists>h rest. rs = h # rest \<and> leave_head w rs = rest
        \<and> cw_now w - cl_mtime h < lane_preference_grace_ms (cw_env w)
        \<and> ln_id (hd (cw_lanes w)) \<noteq> cw_instance w
        \<and> lane_idle_now (cw_heartbeats w) (ln_id (hd (cw_lanes w))) (cw_now w))"
proof (cases rs)
  case Nil
  then show ?thesis by (simp add: leave_head_def)
next
  case (Cons h rest)
  have "lane_idle_now (cw_heartbeats w) (ln_id (hd (cw_lanes w))) (cw_now w)
      \<and> ln_id (hd (cw_lanes w)) \<noteq> cw_instance w"
    if "preferred_lane_is_idle (cw_instance w) (cw_heartbeats w) (cw_lanes w) (cw_now w)"
    using that
    by (auto simp: preferred_lane_is_idle_def lane_idle_now_def heartbeat_fresh_def HEARTBEAT_FRESH_MS_def
        PREFERRED_LANE_HEARTBEAT_FRESH_MS_def Let_def split: outcome.splits jnum.splits if_splits)
  with Cons show ?thesis by (auto simp: leave_head_def Let_def)
qed

text \<open>C6: Outside enforce mode capability routing is inert: whatever the scorecard, the probe hash and the
  audit already hold, the worker is offered the same tasks in the same order.\<close>

theorem shadow_routing_inert:
  assumes "hooks_ok (cw_registry w)" and "rc_mode (cfg_of w) \<noteq> ModeEnforce"
  shows "fst (pick_claimable_tasks (w\<lparr>cw_rows := rows, cw_hash := hash\<rparr>) dir (cd\<lparr>cd_audit := lg\<rparr>))
         = fst (pick_claimable_tasks w dir cd)"
proof -
  let ?w = "w\<lparr>cw_rows := rows, cw_hash := hash\<rparr>"
  have alive: "avoid_alive ?w = avoid_alive w" by (simp add: fun_eq_iff avoid_alive_def lane_alive_def)
  have "hook_of ?w t = hook_of w t" for t
    by (simp add: hook_of_def registered_name_def Let_def cong: option.case_cong)
  then have hook: "hook_of ?w = hook_of w" by (rule ext)
  have "cfg_of ?w = cfg_of w" "this_lane ?w = this_lane w" "avoided_here ?w = avoided_here w"
    "pinned_elsewhere ?w = pinned_elsewhere w" "pinned_here ?w = pinned_here w" "scope_allows ?w = scope_allows w"
    by (simp_all add: fun_eq_iff cfg_of_def this_lane_def avoided_here_def alive pinned_elsewhere_def pinned_here_def scope_allows_def)
  moreover have "class_allows ?w = class_allows w" "leave_head ?w = leave_head w"
    using \<open>this_lane ?w = this_lane w\<close>
    by (simp_all add: fun_eq_iff class_allows_def leave_head_def Let_def split: list.splits)
  moreover have "fresh_row ?w = fresh_row w"
    by (simp add: fun_eq_iff fresh_row_def rank_row_def row_for_task_def hook rank_of_def demote_def case_prod_beta Let_def)
  moreover have "held ?w e = held w e" for e
    using assms(2) \<open>cfg_of ?w = cfg_of w\<close> by (cases e) (simp add: held_def)
  ultimately have gates: "gates_open ?w = gates_open w" "class_allows ?w = class_allows w" "pinned_here ?w = pinned_here w"
    "leave_head ?w = leave_head w" "fresh_row ?w = fresh_row w" "cfg_of ?w = cfg_of w"
    by (auto simp: gates_open_def fun_eq_iff)
  have es: "call_entries ?w dir (cd\<lparr>cd_audit := lg\<rparr>) = call_entries w dir cd"
    by (simp add: call_entries_def)
  have "admitted ?w es s = admitted w es (claim_start (cd_audit cd))" for es s
    using assms(2) gates by (simp add: admitted_not_enforced)
  then have "ranked_rows ?w dir (cd\<lparr>cd_audit := lg\<rparr>) = ranked_rows w dir cd"
    using gates es by (simp add: ranked_rows_def)
  moreover have "pinned_rows ?w = pinned_rows w"
    using gates by (simp add: pinned_rows_def fun_eq_iff)
  ultimately show ?thesis
    using assms(1) gates es by (simp add: pick_result)
qed

theorem shadow_routing_inert_witness:
  "fst (pick_claimable_tasks (demo_world\<lparr>cw_rows := [], cw_hash := (\<lambda>_ _. 0)\<rparr>) ''q'' ((demo_disk demo_files)\<lparr>cd_audit := \<lparr>al_seen = [], al_events = []\<rparr>\<rparr>))
   = fst (pick_claimable_tasks demo_world ''q'' (demo_disk demo_files))"
proof (rule shadow_routing_inert)
  show "hooks_ok (cw_registry demo_world)" using demo_world_ok by (simp add: world_ok_def)
  show "rc_mode (cfg_of demo_world) \<noteq> ModeEnforce" by code_simp
qed

text \<open>A restricted lane is offered at most one task outside its allowlist per call, and none unless
  capability routing is enforced.\<close>

theorem one_probe_per_call:
  "length (filter (\<lambda>e. \<not> class_allows w (fst (snd e))) (admitted w (call_entries w dir cd) (claim_start (cd_audit cd)))) \<le> (if rc_mode (cfg_of w) = ModeEnforce then 1 else 0)"
proof (cases "rc_mode (cfg_of w) = ModeEnforce")
  case True
  then show ?thesis
    using admitted_one_probe [of w "call_entries w dir cd" "claim_start (cd_audit cd)"]
    by (simp add: claim_start_def)
next
  case False
  then show ?thesis by (simp add: admitted_not_enforced filter_empty_conv)
qed

text \<open>C7: A task is held back only for a lane that can take it: in enforce mode, for a bounded grace, when
  a strictly smaller lane is alive, has not failed on the task, and is proven on its source (or is idle
  and selected to probe it). A task a person queued or marked premium is never held.\<close>

theorem held_for_smaller_lane:
  assumes "held w (name, task, mtime)"
  shows "rc_mode (cfg_of w) = ModeEnforce \<and> cw_now w - mtime < rc_graceMs (cfg_of w)
       \<and> \<not> truthy (jget task ''humanQueued'') \<and> \<not> truthy (jget task ''premiumPriority'')
       \<and> (\<exists>this l mine t. this_lane w = Some this \<and> ln_tier this = Some mine
            \<and> l \<in> set (cw_lanes w) \<and> ln_id l \<noteq> ln_id this \<and> ln_tier l = Some t \<and> jlt t mine
            \<and> lane_alive w (ln_id l) \<and> \<not> lane_avoided (cw_env w) task (ln_id l) (length (cw_lanes w)) None
            \<and> evidence_for (task_views w task (resolve_source_name (cw_aliases w) task)) l
                (resolve_source_name (cw_aliases w) task) (cw_rows w) (cfg_of w) \<noteq> None)"
proof -
  let ?src = "resolve_source_name (cw_aliases w) task"
  let ?v = "task_views w task ?src"
  from assms obtain here r where here: "this_lane w = Some here"
    and flags: "rc_mode (cfg_of w) = ModeEnforce" "\<not> truthy (jget task ''humanQueued'')" "\<not> truthy (jget task ''premiumPriority'')"
    and r: "decide_reservation ?v ?src (Some here) (cw_lanes w) (cw_rows w) (cw_now w - mtime) (cfg_of w) = Some r"
    by (auto simp: held_def reservation_for_def Let_def split: if_splits)
  from decide_reservation_Some [OF r] obtain mine where m: "ln_tier here = Some mine"
    and age: "cw_now w - mtime < rc_graceMs (cfg_of w)"
    and c: "r \<in> set (reservation_candidates ?v here mine ?src (cw_rows w) (cfg_of w) (cw_lanes w))" by blast
  from c obtain l where l: "l \<in> set (cw_lanes w)" "ln_id l \<noteq> ln_id here" "ln_tier l = Some (rv_tier r)" "jlt (rv_tier r) mine"
    "\<not> lv_avoided ?v (ln_id l)" "lv_alive ?v (ln_id l)" "evidence_for ?v l ?src (cw_rows w) (cfg_of w) = Some (rv_evidence r)"
    by (auto simp: reservation_candidate_iff)
  then have "lane_alive w (ln_id l)" "\<not> lane_avoided (cw_env w) task (ln_id l) (length (cw_lanes w)) None"
    by (simp_all add: task_views_def)
  with here flags m age l show ?thesis by (intro conjI exI [of _ here] exI [of _ l] exI [of _ mine] exI [of _ "rv_tier r"]) auto
qed

text \<open>A big lane leaves a \<open>docs\<close> task to the small lane that is reserved for that source and alive.\<close>

definition enforce_world :: "unit claim_world" where
  "enforce_world = demo_world
     \<lparr>cw_instance := ''worker-a'',
      cw_env := (\<lambda>k. if k = ''AGENT_MANAGER_CAPABILITY_ROUTING'' then Some ''enforce'' else None),
      cw_lanes := [demo_lane ''worker-a'' 27, (demo_lane ''worker-b'' 9)\<lparr>ln_taskClasses := Some [''docs''], ln_reserve := ReserveAlways\<rparr>],
      cw_heartbeats := (\<lambda>_. Returns (JObj [(''status'', JStr ''idle''), (''lastHeartbeat'', JStr ''1970-01-01T00:16:40.000Z'')]))\<rparr>"

theorem held_for_smaller_lane_witness:
  "cw_now enforce_world - 999000 < rc_graceMs (cfg_of enforce_world) \<and> held enforce_world (''a.json'', demo_task ''docs'' [], 999000)"
proof -
  have "held enforce_world (''a.json'', demo_task ''docs'' [], 999000)" by code_simp
  with held_for_smaller_lane [OF this] show ?thesis by blast
qed

section \<open>The queue cache\<close>

text \<open>The queue as the disk holds it: the listed JSON files that are there, with their content and time.\<close>

definition disk_entries :: "disk \<Rightarrow> entry list" where
  "disk_entries d =
     (case list_json d of
        None \<Rightarrow> []
      | Some names \<Rightarrow> map (\<lambda>n. (n, ce_task (read_file_task d n), ce_mtime (read_file_task d n)))
                         (filter (\<lambda>n. dk_file d n \<noteq> None) names))"

definition loaded :: "'w claim_world \<Rightarrow> string \<Rightarrow> claim_disk \<Rightarrow> cache_state" where
  "loaded w dir cd = load_state (cd_saved cd) dir"

lemma read_task_cached_files:
  "cs_files (qc_state (snd (read_task_cached d n c))) = cs_files (qc_state c)"
  "qc_disabled (snd (read_task_cached d n c)) = qc_disabled c"
  by (auto simp: read_task_cached_def Let_def split: option.splits)

lemma read_entries_hit:
  assumes "\<not> qc_disabled c" and "\<forall>n\<in>set names. cs_files (qc_state c) n = Some (read_file_task d n)"
  shows "fst (read_entries d names c) = map (\<lambda>n. (n, ce_task (read_file_task d n), ce_mtime (read_file_task d n))) names"
  using assms
proof (induction names arbitrary: c)
  case Nil
  then show ?case by simp
next
  case (Cons n names)
  have "fst (read_task_cached d n c) = (ce_task (read_file_task d n), ce_mtime (read_file_task d n))"
    using Cons.prems by (auto simp: read_task_cached_def)
  moreover have "fst (read_entries d names (snd (read_task_cached d n c))) =
      map (\<lambda>n. (n, ce_task (read_file_task d n), ce_mtime (read_file_task d n))) names"
    using Cons by (simp add: read_task_cached_files)
  ultimately show ?case by (simp add: Let_def case_prod_beta)
qed

lemma read_entries_disabled:
  assumes "qc_disabled c"
  shows "fst (read_entries d names c) = map (\<lambda>n. (n, ce_task (read_file_task d n), ce_mtime (read_file_task d n))) names"
  using assms
proof (induction names arbitrary: c)
  case Nil
  then show ?case by simp
next
  case (Cons n names)
  then have "fst (read_task_cached d n c) = (ce_task (read_file_task d n), ce_mtime (read_file_task d n))"
    by (simp add: read_task_cached_def Let_def)
  with Cons show ?case by (simp add: Let_def case_prod_beta read_task_cached_files)
qed



end
