(* ===== verification/TaskSelection.thy ===== *)
theory TaskSelection
  imports SourceRegistry
begin

text \<open>
  \<open>src/lib/task-selection.js\<close>: which task is generated next. Premium work waiting in the adhoc and
  derived queues, then hub work there, preempts the walk over the registered sources in priority order.
  A generator runs in a world \<open>'w\<close> and leaves a new one, also when it throws. What the module reads of
  the world (the two queue directories, the hub records, the active repository) is in the record
  \<open>selection\<close>; \<open>task-sources.js\<close>'s two loaders are generators like any other.
\<close>

record dirent =
  de_name :: string
  de_isFile :: bool
  de_json :: "jv option"

record 'w selection =
  se_env :: env
  se_registry :: "'w registry"
  se_listing :: "'w \<Rightarrow> string \<Rightarrow> dirent list option"
  se_queue :: "'w \<Rightarrow> queue_store"
  se_nextAdhoc :: "'w generator"
  se_nextDerived :: "'w generator"
  se_allowlist :: "string list option"
  se_coreActive :: "'w \<Rightarrow> bool"
  se_blocked :: "'w source \<Rightarrow> bool"

section \<open>Peeking into a queue\<close>

fun any_premium :: "dirent list \<Rightarrow> bool" where
  "any_premium [] = False"
| "any_premium (e # es) =
     (if \<not> de_isFile e \<or> \<not> ends_with ''.json'' (de_name e) then any_premium es
      else (case de_json e of
              None \<Rightarrow> any_premium es
            | Some v \<Rightarrow> if truthy v \<and> jget v ''premiumPriority'' = JBool True then True else any_premium es))"

definition has_premium_priority_in_queue :: "dirent list option \<Rightarrow> bool" where
  "has_premium_priority_in_queue entries = (case entries of None \<Rightarrow> False | Some es \<Rightarrow> any_premium es)"

fun any_hub_tier :: "queue_store \<Rightarrow> dirent list \<Rightarrow> hub_cache \<Rightarrow> bool" where
  "any_hub_tier q [] cache = False"
| "any_hub_tier q (e # es) cache =
     (if \<not> de_isFile e \<or> \<not> ends_with ''.json'' (de_name e) then any_hub_tier q es cache
      else (case de_json e of
              None \<Rightarrow> any_hub_tier q es cache
            | Some v \<Rightarrow> (let (tier, cache') = is_hub_tier_task q v cache
                        in if tier then True else any_hub_tier q es cache')))"

definition has_hub_tier_in_queue :: "queue_store \<Rightarrow> dirent list option \<Rightarrow> bool" where
  "has_hub_tier_in_queue q entries = (case entries of None \<Rightarrow> False | Some es \<Rightarrow> any_hub_tier q es Map.empty)"

section \<open>Preemption\<close>

text \<open>\<open>hubTierPreemptedTask\<close>: a loaded task that is neither premium nor hub work does not preempt.\<close>

fun hub_tier_preempted_task :: "'w selection \<Rightarrow> (string \<times> 'w generator) list \<Rightarrow> 'w \<Rightarrow> jv outcome \<times> 'w" where
  "hub_tier_preempted_task sel [] w = (Returns JNull, w)"
| "hub_tier_preempted_task sel ((dir, load) # rest) w =
     (if \<not> has_hub_tier_in_queue (se_queue sel w) (se_listing sel w dir) then hub_tier_preempted_task sel rest w
      else (case load w of
              (Throws, w') \<Rightarrow> (Throws, w')
            | (Returns task, w') \<Rightarrow>
                if truthy task \<and> (jget task ''premiumPriority'' = JBool True
                                  \<or> fst (is_hub_tier_task (se_queue sel w') task Map.empty))
                then (Returns task, w') else hub_tier_preempted_task sel rest w'))"

definition loaders :: "'w selection \<Rightarrow> (string \<times> 'w generator) list" where
  "loaders sel = [(''adhoc'', se_nextAdhoc sel), (''derived'', se_nextDerived sel)]"

text \<open>The two premium peeks and the hub-tier pass that follows them, as one walk over the loaders.\<close>

fun premium_walk :: "'w selection \<Rightarrow> (string \<times> 'w generator) list \<Rightarrow> 'w \<Rightarrow> jv outcome \<times> 'w" where
  "premium_walk sel [] w = hub_tier_preempted_task sel (loaders sel) w"
| "premium_walk sel ((dir, load) # rest) w =
     (if has_premium_priority_in_queue (se_listing sel w dir)
      then (case load w of
              (Throws, w') \<Rightarrow> (Throws, w')
            | (Returns task, w') \<Rightarrow> if truthy task then (Returns task, w') else premium_walk sel rest w')
      else premium_walk sel rest w)"

definition premium_preempted_task :: "'w selection \<Rightarrow> 'w \<Rightarrow> jv outcome \<times> 'w" where
  "premium_preempted_task sel w = premium_walk sel (loaders sel) w"

section \<open>The walk over the sources\<close>

definition always_allowed :: "'w source \<Rightarrow> bool" where
  "always_allowed s \<longleftrightarrow> src_name s = Some ''adhoc'' \<or> src_name s = Some ''brain_dump_sort''"

definition restricted :: "'w selection \<Rightarrow> bool" where
  "restricted sel \<longleftrightarrow> (case se_allowlist sel of Some l \<Rightarrow> l \<noteq> [] | None \<Rightarrow> False)"

definition allowlisted :: "'w selection \<Rightarrow> 'w source \<Rightarrow> bool" where
  "allowlisted sel s \<longleftrightarrow>
     (case (se_allowlist sel, src_name s) of (Some l, Some n) \<Rightarrow> n \<in> set l | _ \<Rightarrow> False)"

definition source_open :: "'w selection \<Rightarrow> bool \<Rightarrow> 'w source \<Rightarrow> bool" where
  "source_open sel core_active s =
     (if \<not> source_eligible_here (se_env sel) (Some (src_scope s)) core_active then False
      else if se_blocked sel s then False
      else if restricted sel \<and> \<not> always_allowed s \<and> \<not> allowlisted sel s then False
      else True)"

fun source_walk :: "'w selection \<Rightarrow> bool \<Rightarrow> 'w source list \<Rightarrow> 'w \<Rightarrow> jv outcome \<times> 'w" where
  "source_walk sel core_active [] w = (Returns JNull, w)"
| "source_walk sel core_active (s # ss) w =
     (if \<not> source_open sel core_active s then source_walk sel core_active ss w
      else (case src_next s of
              None \<Rightarrow> source_walk sel core_active ss w
            | Some gen \<Rightarrow>
                (case gen w of
                   (Throws, w') \<Rightarrow> (Throws, w')
                 | (Returns task, w') \<Rightarrow>
                     if \<not> truthy task then source_walk sel core_active ss w' else (Returns task, w'))))"

definition get_next_task :: "'w selection \<Rightarrow> 'w \<Rightarrow> jv outcome \<times> 'w" where
  "get_next_task sel w =
     (case premium_preempted_task sel w of
        (Returns task, w') \<Rightarrow>
          if truthy task then (Returns task, w')
          else source_walk sel (se_coreActive sel w') (get_registered_sources (se_registry sel)) w'
      | (Throws, w') \<Rightarrow> source_walk sel (se_coreActive sel w') (get_registered_sources (se_registry sel)) w')"

section \<open>What the peeks find\<close>

definition queued_task :: "dirent list option \<Rightarrow> jv \<Rightarrow> bool" where
  "queued_task entries v \<longleftrightarrow>
     (case entries of None \<Rightarrow> False
      | Some es \<Rightarrow> \<exists>e\<in>set es. de_isFile e \<and> ends_with ''.json'' (de_name e) \<and> de_json e = Some v)"

lemma any_premium_iff:
  "any_premium es \<longleftrightarrow>
     (\<exists>e\<in>set es. de_isFile e \<and> ends_with ''.json'' (de_name e)
        \<and> (\<exists>v. de_json e = Some v \<and> truthy v \<and> jget v ''premiumPriority'' = JBool True))"
  by (induction es) (auto split: option.splits)

lemma has_premium_iff:
  "has_premium_priority_in_queue entries \<longleftrightarrow>
     (\<exists>v. queued_task entries v \<and> truthy v \<and> jget v ''premiumPriority'' = JBool True)"
  by (auto simp: has_premium_priority_in_queue_def queued_task_def any_premium_iff split: option.splits)

definition hub_tier :: "queue_store \<Rightarrow> jv \<Rightarrow> bool" where
  "hub_tier q v = fst (order_answer q v)"

lemma is_hub_tier_value:
  "cache_ok q c \<Longrightarrow> fst (is_hub_tier_task q v c) = hub_tier q v"
  "cache_ok q c \<Longrightarrow> cache_ok q (snd (is_hub_tier_task q v c))"
  using default_order.hook_answer [of q c v] default_order.hook_cache [of q c v]
  by (simp_all add: is_hub_tier_task_def hub_tier_def case_prod_beta)

lemma any_hub_tier_iff:
  "cache_ok q c \<Longrightarrow> any_hub_tier q es c \<longleftrightarrow>
     (\<exists>e\<in>set es. de_isFile e \<and> ends_with ''.json'' (de_name e) \<and> (\<exists>v. de_json e = Some v \<and> hub_tier q v))"
proof (induction es arbitrary: c)
  case Nil
  then show ?case by simp
next
  case (Cons e es)
  then show ?case
    by (auto simp: is_hub_tier_value case_prod_beta split: option.splits)
qed

lemma has_hub_tier_iff:
  "has_hub_tier_in_queue q entries \<longleftrightarrow> (\<exists>v. queued_task entries v \<and> hub_tier q v)"
  by (auto simp: has_hub_tier_in_queue_def queued_task_def any_hub_tier_iff split: option.splits)

lemma source_walk_none_open:
  "\<forall>s\<in>set ss. \<not> source_open sel ca s \<or> src_next s = None \<Longrightarrow> source_walk sel ca ss w = (Returns JNull, w)"
  by (induction ss) auto

text \<open>The sources before the one that answered ran in order, and each had nothing.\<close>

fun run_empty :: "'w selection \<Rightarrow> bool \<Rightarrow> 'w source list \<Rightarrow> 'w \<Rightarrow> 'w option" where
  "run_empty sel ca [] w = Some w"
| "run_empty sel ca (s # ss) w =
     (if source_open sel ca s
      then (case src_next s of
              None \<Rightarrow> run_empty sel ca ss w
            | Some gen \<Rightarrow> (case gen w of (Returns t, w') \<Rightarrow> if truthy t then None else run_empty sel ca ss w'
                                       | (Throws, _) \<Rightarrow> None))
      else run_empty sel ca ss w)"

lemma source_walk_answer:
  "source_walk sel ca ss w = (Returns task, w') \<Longrightarrow> truthy task \<Longrightarrow>
     \<exists>us s vs gen w1. ss = us @ s # vs \<and> run_empty sel ca us w = Some w1 \<and> source_open sel ca s
        \<and> src_next s = Some gen \<and> gen w1 = (Returns task, w')"
proof (induction ss arbitrary: w)
  case Nil
  then show ?case by simp
next
  case (Cons s ss)
  show ?case
  proof (cases "source_open sel ca s \<and> src_next s \<noteq> None")
    case False
    with Cons.prems have "source_walk sel ca ss w = (Returns task, w')" by (auto split: option.splits)
    with Cons obtain us t vs gen w1 where "ss = us @ t # vs" "run_empty sel ca us w = Some w1" "source_open sel ca t"
      "src_next t = Some gen" "gen w1 = (Returns task, w')" by blast
    with False show ?thesis by (intro exI [of _ "s # us"] exI [of _ t] exI [of _ vs] exI [of _ gen] exI [of _ w1]) auto
  next
    case True
    then obtain gen where g: "source_open sel ca s" "src_next s = Some gen" by auto
    obtain r w2 where r: "gen w = (r, w2)" by (cases "gen w")
    with Cons.prems g obtain t where t: "r = Returns t" by (cases r) auto
    show ?thesis
    proof (cases "truthy t")
      case True
      with Cons.prems g r t show ?thesis
        by (intro exI [of _ "[]"] exI [of _ s] exI [of _ ss] exI [of _ gen] exI [of _ w]) auto
    next
      case False
      with Cons.prems g r t have "source_walk sel ca ss w2 = (Returns task, w')" by simp
      with Cons obtain us u vs gen' w1 where "ss = us @ u # vs" "run_empty sel ca us w2 = Some w1" "source_open sel ca u"
        "src_next u = Some gen'" "gen' w1 = (Returns task, w')" by blast
      with False g r t show ?thesis
        by (intro exI [of _ "s # us"] exI [of _ u] exI [of _ vs] exI [of _ gen'] exI [of _ w1]) auto
    qed
  qed
qed

section \<open>Properties\<close>


text \<open>The premium peek is exact: it holds just when a readable JSON file of the queue is marked premium,
  whatever unreadable or foreign files lie beside it; and when it holds and the adhoc loader has a task,
  that task preempts every registered source.\<close>

theorem premium_preempts:
  assumes "queued_task (se_listing sel w ''adhoc'') v" and "truthy v" and "jget v ''premiumPriority'' = JBool True"
    and "se_nextAdhoc sel w = (Returns task, w')" and "truthy task"
  shows "get_next_task sel w = (Returns task, w')"
proof -
  have "has_premium_priority_in_queue (se_listing sel w ''adhoc'')"
    using assms(1-3) by (auto simp: has_premium_iff)
  with assms(4,5) show ?thesis
    by (simp add: get_next_task_def premium_preempted_task_def loaders_def)
qed

text \<open>What preempts the walk is premium or hub work. If nothing queued is premium, a task that preempts
  is itself premium or in the hub tier: an ordinary adhoc task the loader returned instead never jumps
  ahead of the sources.\<close>

theorem only_hub_work_preempts:
  assumes "\<And>v. queued_task (se_listing sel w ''adhoc'') v \<Longrightarrow> jget v ''premiumPriority'' \<noteq> JBool True"
    and "\<And>v. queued_task (se_listing sel w ''derived'') v \<Longrightarrow> jget v ''premiumPriority'' \<noteq> JBool True"
    and "premium_preempted_task sel w = (Returns task, w')" and "truthy task"
  shows "jget task ''premiumPriority'' = JBool True \<or> hub_tier (se_queue sel w') task"
proof -
  have "\<not> has_premium_priority_in_queue (se_listing sel w ''adhoc'')"
    and "\<not> has_premium_priority_in_queue (se_listing sel w ''derived'')"
    using assms(1,2) by (auto simp: has_premium_iff)
  then have "hub_tier_preempted_task sel (loaders sel) w = (Returns task, w')"
    using assms(3) by (simp add: premium_preempted_task_def loaders_def)
  moreover have "jget t ''premiumPriority'' = JBool True \<or> hub_tier (se_queue sel u') t"
    if "hub_tier_preempted_task sel ls u = (Returns t, u')" "truthy t" for ls u t u'
    using that
  proof (induction sel ls u rule: hub_tier_preempted_task.induct)
    case (1 sel w)
    then show ?case by simp
  next
    case (2 sel dir load rest w)
    then show ?case
      by (auto simp: is_hub_tier_value [OF cache_ok_empty] split: if_splits prod.splits outcome.splits)
  qed
  ultimately show ?thesis using assms(4) by blast
qed

definition demo_selection :: "nat selection" where
  "demo_selection =
     \<lparr>se_env = (\<lambda>_. None),
      se_registry = [(''late'', (bare_source ''late'')\<lparr>src_priority := Some (JNum (Fin 60)), src_next := Some (\<lambda>w. (Returns (JStr ''late''), w + 1))\<rparr>),
        (''early'', (bare_source ''early'')\<lparr>src_priority := Some (JNum (Fin 50)), src_next := Some (\<lambda>w. (Returns JNull, w + 10))\<rparr>)],
      se_listing = (\<lambda>w dir. if dir = ''derived'' \<and> w = 7 then Some [\<lparr>de_name = ''x.json'', de_isFile = True, de_json = Some (JObj [(''atomic'', JBool True)])\<rparr>]
         else if dir = ''adhoc'' \<and> w = 9 then Some [\<lparr>de_name = ''p.json'', de_isFile = True, de_json = Some (JObj [(''premiumPriority'', JBool True)])\<rparr>] else None),
      se_queue = (\<lambda>_ _ _. None), se_nextAdhoc = (\<lambda>w. (Returns (JStr ''adhoc''), w)),
      se_nextDerived = (\<lambda>w. (Returns (JObj [(''atomic'', JBool True)]), w)),
      se_allowlist = None, se_coreActive = (\<lambda>_. False), se_blocked = (\<lambda>_. False)\<rparr>"


theorem premium_preempts_witness: "get_next_task demo_selection 9 = (Returns (JStr ''adhoc''), 9)"
  by (rule premium_preempts [where v = "JObj [(''premiumPriority'', JBool True)]"])
     (simp_all add: demo_selection_def queued_task_def ends_with_def)

theorem only_hub_work_preempts_witness: "hub_tier (se_queue demo_selection 7) (JObj [(''atomic'', JBool True)])"
proof -
  have p: "premium_preempted_task demo_selection 7 = (Returns (JObj [(''atomic'', JBool True)]), 7)" by code_simp
  have "jget (JObj [(''atomic'', JBool True)]) ''premiumPriority'' = JBool True \<or> hub_tier (se_queue demo_selection 7) (JObj [(''atomic'', JBool True)])"
  proof (rule only_hub_work_preempts [OF _ _ p])
    show "jget v ''premiumPriority'' \<noteq> JBool True" if "queued_task (se_listing demo_selection 7 ''adhoc'') v" for v
      using that by (simp add: demo_selection_def queued_task_def)
    show "jget v ''premiumPriority'' \<noteq> JBool True" if "queued_task (se_listing demo_selection 7 ''derived'') v" for v
      using that by (auto simp: demo_selection_def queued_task_def)
  qed simp
  then show ?thesis by simp
qed

end
