(* ===== verification/Steps.thy ===== *)
theory Steps
  imports Prelude
begin

text \<open>
  Systems of interleaved steps: the reachable states of a labelled step relation, invariants proved step
  by step, and the contract of a mutual exclusion service, which a provider proves of its own states
  and a client uses without looking inside.
\<close>

inductive reachable :: "('s \<Rightarrow> bool) \<Rightarrow> ('s \<Rightarrow> 'e \<Rightarrow> 's \<Rightarrow> bool) \<Rightarrow> 's \<Rightarrow> bool"
  for init :: "'s \<Rightarrow> bool" and step :: "'s \<Rightarrow> 'e \<Rightarrow> 's \<Rightarrow> bool"
where
  reach_init: "init s \<Longrightarrow> reachable init step s"
| reach_step: "reachable init step s \<Longrightarrow> step s e s' \<Longrightarrow> reachable init step s'"

locale step_invariant =
  fixes init :: "'s \<Rightarrow> bool"
    and step :: "'s \<Rightarrow> 'e \<Rightarrow> 's \<Rightarrow> bool"
    and inv :: "'s \<Rightarrow> bool"
  assumes inv_init: "init s \<Longrightarrow> inv s"
    and inv_step: "inv s \<Longrightarrow> step s e s' \<Longrightarrow> inv s'"
begin

lemma reachable_inv: "reachable init step s \<Longrightarrow> inv s"
  by (induction rule: reachable.induct) (auto intro: inv_init inv_step)

text \<open>What holds along every step from an invariant state holds along every step from a reachable one.\<close>

lemma reachable_step_inv: "reachable init step s \<Longrightarrow> step s e s' \<Longrightarrow> inv s \<and> inv s'"
  using reachable_inv inv_step by blast

end

text \<open>A mutual exclusion service: at most one process holds a key in a state the service can be in.\<close>

locale mutex = step_invariant init step inv
  for init :: "'s \<Rightarrow> bool" and step :: "'s \<Rightarrow> 'e \<Rightarrow> 's \<Rightarrow> bool" and inv :: "'s \<Rightarrow> bool" +
  fixes holds :: "'s \<Rightarrow> 'p \<Rightarrow> 'k \<Rightarrow> bool"
  assumes exclusive: "inv s \<Longrightarrow> holds s p k \<Longrightarrow> holds s q k \<Longrightarrow> p = q"
begin

lemma at_most_one: "reachable init step s \<Longrightarrow> holds s p k \<Longrightarrow> holds s q k \<Longrightarrow> p = q"
  using exclusive reachable_inv by blast

lemma holders_unique: "reachable init step s \<Longrightarrow> \<exists>\<^sub>\<le>\<^sub>1p. holds s p k"
  unfolding Uniq_def using at_most_one by blast

end

end
