(* ===== verification/SingleFlightLock.thy ===== *)
theory SingleFlightLock
  imports JsText JsSort Steps
begin

text \<open>
  \<open>src/single-flight-lock.js\<close>: the cross-process lock. Processes share a directory with, per key, a lock
  file and a queue of tickets, and one directory of priority markers. The kernel's \<open>flock\<close> is modelled
  by its documented behaviour: a lock file is locked by at most one open file description, from a
  successful \<open>flock\<close> on its descriptor until that descriptor is closed or its process ends. A process
  is single threaded, so a call of \<open>acquire\<close> is the program counter of its process; between two polls
  the others run. Times are milliseconds.
\<close>

section \<open>Names\<close>

definition key_char_ok :: "char \<Rightarrow> bool" where
  "key_char_ok c \<longleftrightarrow> (let n = of_char c :: nat in is_digit c \<or> (65 \<le> n \<and> n \<le> 90) \<or> (97 \<le> n \<and> n \<le> 122))
                     \<or> c \<in> set ''._-''"

text \<open>\<open>replace(/[^A-Za-z0-9._-]+/g, '_')\<close>: each run of other characters becomes one underscore.\<close>

fun sanitize :: "bool \<Rightarrow> string \<Rightarrow> string" where
  "sanitize in_run [] = []"
| "sanitize in_run (c # cs) =
     (if key_char_ok c then c # sanitize False cs
      else if in_run then sanitize True cs else CHR ''_'' # sanitize True cs)"

definition key_suffix :: "string \<Rightarrow> string" where
  "key_suffix key = (if key = [] then [] else CHR ''.'' # sanitize False key)"

definition lock_file_name :: "string \<Rightarrow> string" where
  "lock_file_name key = ''.pipeline-single-flight'' @ key_suffix key @ ''.lock''"

definition queue_dir_name :: "string \<Rightarrow> string" where
  "queue_dir_name key = ''.pipeline-single-flight-queue'' @ key_suffix key"

definition task_move_lock_key :: "string \<Rightarrow> string" where
  "task_move_lock_key task_id = ''move.'' @ task_id"

section \<open>Priority markers\<close>

definition DISCUSS_MARKER_FRESH_MS :: int where "DISCUSS_MARKER_FRESH_MS = 15000"
definition DISCUSS_MARKER_STALE_MS :: int where "DISCUSS_MARKER_STALE_MS = 5 * 60 * 1000"

text \<open>\<open>someoneIsWaiting\<close>: whether a marker is fresh; the stale ones are removed on the way.\<close>

type_synonym dir = "(string \<times> int) list"

fun someone_is_waiting :: "int \<Rightarrow> dir \<Rightarrow> bool \<times> dir" where
  "someone_is_waiting now [] = (False, [])"
| "someone_is_waiting now ((name, mtime) # ms) =
     (let (fresh, kept) = someone_is_waiting now ms; age = now - mtime
      in if DISCUSS_MARKER_STALE_MS < age then (fresh, kept)
         else if age \<le> DISCUSS_MARKER_FRESH_MS then (True, (name, mtime) # kept)
         else (fresh, (name, mtime) # kept))"

definition drop_priority_marker :: "int \<Rightarrow> nat \<Rightarrow> string \<Rightarrow> dir \<Rightarrow> string \<times> dir" where
  "drop_priority_marker now pid rand ms =
     (let name = nat_str (nat now) @ ''.'' @ nat_str pid @ ''.'' @ rand in (name, kv_put ms name now))"

definition refresh_priority_marker :: "int \<Rightarrow> string option \<Rightarrow> dir \<Rightarrow> dir" where
  "refresh_priority_marker now marker ms =
     (case marker of None \<Rightarrow> ms | Some m \<Rightarrow> if m \<in> fst ` set ms then kv_put ms m now else ms)"

definition remove_priority_marker :: "string option \<Rightarrow> dir \<Rightarrow> dir" where
  "remove_priority_marker marker ms =
     (case marker of None \<Rightarrow> ms | Some m \<Rightarrow> filter (\<lambda>e. fst e \<noteq> m) ms)"

section \<open>Time limits\<close>

text \<open>\<open>Number(env.X) || 600\<close>: zero and NaN are falsy; a negative number is kept.\<close>

definition lock_timeout_secs :: "env \<Rightarrow> jnum" where
  "lock_timeout_secs e = (let n = env_number e ''SINGLE_FLIGHT_LOCK_TIMEOUT_SECS'' in if num_truthy n then n else Fin 600)"

definition discuss_priority_max_wait_ms :: "env \<Rightarrow> int" where
  "discuss_priority_max_wait_ms e =
     (case env_number e ''DISCUSS_PRIORITY_MAX_WAIT_SEC'' of
        Fin secs \<Rightarrow> (if 0 < secs then \<lfloor>secs\<rfloor> else 900) * 1000
      | _ \<Rightarrow> 900 * 1000)"

section \<open>Tickets\<close>

definition twenty_digits :: "string \<Rightarrow> bool" where
  "twenty_digits name \<longleftrightarrow> 20 < length name \<and> list_all is_digit (take 20 name) \<and> name ! 20 = CHR ''.''"

text \<open>The process id of \<open>/^\d{20}\.(\d+)\./\<close>.\<close>

definition ticket_pid :: "string \<Rightarrow> nat option" where
  "ticket_pid name =
     (if \<not> twenty_digits name then None
      else let r = drop 21 name; ds = takeWhile is_digit r
           in if ds \<noteq> [] \<and> starts_with ''.'' (dropWhile is_digit r) then Some (digits_val 0 ds) else None)"

definition ticket_name :: "int \<Rightarrow> nat \<Rightarrow> string \<Rightarrow> string" where
  "ticket_name now pid rand = pad_start 20 (CHR ''0'') (nat_str (nat now)) @ ''.'' @ nat_str pid @ ''.'' @ rand"

text \<open>\<open>pidAlive\<close>: a positive process id that exists.\<close>

definition ticket_stale :: "(nat \<Rightarrow> bool) \<Rightarrow> int \<Rightarrow> int \<Rightarrow> string \<times> int \<Rightarrow> bool" where
  "ticket_stale alive stale_ms now t =
     (case ticket_pid (fst t) of
        None \<Rightarrow> False
      | Some pid \<Rightarrow> \<not> (0 < pid \<and> alive pid) \<or> stale_ms < now - snd t)"

definition sweep_stale_tickets :: "(nat \<Rightarrow> bool) \<Rightarrow> int \<Rightarrow> int \<Rightarrow> dir \<Rightarrow> dir" where
  "sweep_stale_tickets alive stale_ms now tickets = filter (\<lambda>t. \<not> ticket_stale alive stale_ms now t) tickets"

definition head_ticket :: "dir \<Rightarrow> string option" where
  "head_ticket tickets =
     (case js_sort str_cmp (filter twenty_digits (map fst tickets)) of [] \<Rightarrow> None | h # _ \<Rightarrow> Some h)"

section \<open>The system\<close>

datatype handle = FdHandle nat | ReentrantToken string

datatype pc =
    Ready
  | Backoff string bool int int int
  | Queued string string int int

text \<open>\<open>Backoff lp skip discuss_deadline deadline timeout\<close> and \<open>Queued lp ticket deadline timeout\<close>. \<open>pr_held\<close> is
  the module's \<open>held\<close> map in insertion order: lock path, descriptor and depth.\<close>

record proc =
  pr_pc :: pc
  pr_held :: "(string \<times> nat \<times> int) list"

record sys =
  sy_now :: int
  sy_alive :: "nat \<Rightarrow> bool"
  sy_procs :: "nat \<Rightarrow> proc"
  sy_markers :: dir
  sy_tickets :: "string \<Rightarrow> dir"
  sy_flock :: "string \<Rightarrow> (nat \<times> nat) option"

definition set_proc :: "nat \<Rightarrow> proc \<Rightarrow> sys \<Rightarrow> sys" where
  "set_proc p pr s = s\<lparr>sy_procs := (sy_procs s)(p := pr)\<rparr>"

definition unlink_ticket :: "string \<Rightarrow> string \<Rightarrow> sys \<Rightarrow> sys" where
  "unlink_ticket lp name s = s\<lparr>sy_tickets := (sy_tickets s)(lp := filter (\<lambda>t. fst t \<noteq> name) (sy_tickets s lp))\<rparr>"

definition close_fd :: "nat \<Rightarrow> nat \<Rightarrow> sys \<Rightarrow> sys" where
  "close_fd p fd s = s\<lparr>sy_flock := (\<lambda>lp. if sy_flock s lp = Some (p, fd) then None else sy_flock s lp)\<rparr>"

section \<open>\<open>acquire\<close>\<close>

text \<open>The call up to its first wait: a key this process holds is granted again at once.\<close>

definition begin_acquire :: "nat \<Rightarrow> string \<Rightarrow> bool \<Rightarrow> int \<Rightarrow> int \<Rightarrow> sys \<Rightarrow> handle option \<times> sys" where
  "begin_acquire p lp skip timeout_ms discuss_ms s =
     (let pr = sy_procs s p
      in case map_of (pr_held pr) lp of
           Some (fd, depth) \<Rightarrow>
             (Some (ReentrantToken lp), set_proc p (pr\<lparr>pr_held := kv_put (pr_held pr) lp (fd, depth + 1)\<rparr>) s)
         | None \<Rightarrow>
             (None, set_proc p (pr\<lparr>pr_pc := Backoff lp skip (sy_now s + discuss_ms) (sy_now s + timeout_ms) timeout_ms\<rparr>) s))"

text \<open>One round of the loop that yields to an interactive user; leaving it takes a ticket.\<close>

definition backoff_poll :: "nat \<Rightarrow> string \<Rightarrow> sys \<Rightarrow> sys" where
  "backoff_poll p rand s =
     (case pr_pc (sy_procs s p) of
        Backoff lp skip discuss_deadline deadline timeout_ms \<Rightarrow>
          (let (fresh, kept) = (if skip then (False, sy_markers s) else someone_is_waiting (sy_now s) (sy_markers s));
               s1 = s\<lparr>sy_markers := kept\<rparr>
           in if fresh \<and> sy_now s < discuss_deadline then s1
              else let ticket = ticket_name (sy_now s) p rand
                   in set_proc p ((sy_procs s p)\<lparr>pr_pc := Queued lp ticket deadline timeout_ms\<rparr>)
                        (s1\<lparr>sy_tickets := (sy_tickets s1)(lp := kv_put (sy_tickets s1 lp) ticket (sy_now s))\<rparr>))
      | _ \<Rightarrow> s)"

datatype poll_result = StillWaiting | TimedOut | Acquired nat

text \<open>One round of the loop over the ticket queue. \<open>fd\<close> is the descriptor \<open>openSync\<close> answers. An attempt
  whose \<open>flock -w\<close> runs out leaves everything as it was; the deadline is tested by the next round.\<close>

definition queue_poll :: "nat \<Rightarrow> nat \<Rightarrow> sys \<Rightarrow> poll_result \<times> sys" where
  "queue_poll p fd s =
     (let pr = sy_procs s p
      in case pr_pc pr of
        Queued lp ticket deadline timeout_ms \<Rightarrow>
          if deadline \<le> sy_now s
          then (TimedOut, unlink_ticket lp ticket (set_proc p (pr\<lparr>pr_pc := Ready\<rparr>) s))
          else
            let swept = sweep_stale_tickets (sy_alive s) (timeout_ms * 2) (sy_now s) (sy_tickets s lp);
                s1 = s\<lparr>sy_tickets := (sy_tickets s)(lp := swept)\<rparr>
            in if (case head_ticket swept of Some h \<Rightarrow> h \<noteq> ticket | None \<Rightarrow> False) then (StillWaiting, s1)
               else if sy_flock s1 lp \<noteq> None then (StillWaiting, s1)
               else (Acquired fd,
                     unlink_ticket lp ticket
                       (set_proc p \<lparr>pr_pc = Ready, pr_held = kv_put (pr_held pr) lp (fd, 1)\<rparr>
                         (s1\<lparr>sy_flock := (sy_flock s1)(lp \<mapsto> (p, fd))\<rparr>)))
      | _ \<Rightarrow> (StillWaiting, s))"

section \<open>\<open>release\<close>\<close>

definition release_lock :: "nat \<Rightarrow> handle option \<Rightarrow> sys \<Rightarrow> sys" where
  "release_lock p h s =
     (let pr = sy_procs s p
      in case h of
           None \<Rightarrow> s
         | Some (ReentrantToken lp) \<Rightarrow>
             (case map_of (pr_held pr) lp of
                Some (fd, depth) \<Rightarrow>
                  if 0 < depth then set_proc p (pr\<lparr>pr_held := kv_put (pr_held pr) lp (fd, depth - 1)\<rparr>) s else s
              | None \<Rightarrow> s)
         | Some (FdHandle fd) \<Rightarrow>
             (case find (\<lambda>e. fst (snd e) = fd) (pr_held pr) of
                Some (lp, _, depth) \<Rightarrow>
                  if depth - 1 \<le> 0
                  then close_fd p fd (set_proc p (pr\<lparr>pr_held := filter (\<lambda>e. fst e \<noteq> lp) (pr_held pr)\<rparr>) s)
                  else set_proc p (pr\<lparr>pr_held := kv_put (pr_held pr) lp (fd, depth - 1)\<rparr>) s
              | None \<Rightarrow> close_fd p fd s))"

section \<open>The steps\<close>

definition idle_proc :: proc where
  "idle_proc = \<lparr>pr_pc = Ready, pr_held = []\<rparr>"

text \<open>A process that ends loses its descriptors; its tickets and markers stay for the sweeps.\<close>

definition end_process :: "nat \<Rightarrow> sys \<Rightarrow> sys" where
  "end_process p s =
     s\<lparr>sy_alive := (sy_alive s)(p := False), sy_procs := (sy_procs s)(p := idle_proc),
       sy_flock := (\<lambda>lp. case sy_flock s lp of Some (q, fd) \<Rightarrow> if q = p then None else Some (q, fd) | None \<Rightarrow> None)\<rparr>"

datatype event =
    Began nat string "handle option"
  | BackedOff nat
  | Polled nat poll_result
  | Released nat "handle option"
  | Ended nat
  | Passed int
  | Marked dir

inductive sfl_step :: "sys \<Rightarrow> event \<Rightarrow> sys \<Rightarrow> bool" where
  begin_step: "sy_alive s p \<Longrightarrow> pr_pc (sy_procs s p) = Ready \<Longrightarrow> begin_acquire p lp skip t d s = (h, s') \<Longrightarrow>
     sfl_step s (Began p lp h) s'"
| backoff_step: "sy_alive s p \<Longrightarrow> sfl_step s (BackedOff p) (backoff_poll p rand s)"
| poll_step: "sy_alive s p \<Longrightarrow> fd \<notin> (\<lambda>e. fst (snd e)) ` set (pr_held (sy_procs s p)) \<Longrightarrow> queue_poll p fd s = (r, s') \<Longrightarrow>
     sfl_step s (Polled p r) s'"
| release_step: "sy_alive s p \<Longrightarrow> pr_pc (sy_procs s p) = Ready \<Longrightarrow> sfl_step s (Released p h) (release_lock p h s)"
| end_step: "sfl_step s (Ended p) (end_process p s)"
| time_step: "0 \<le> d \<Longrightarrow> sfl_step s (Passed d) (s\<lparr>sy_now := sy_now s + d\<rparr>)"
| marker_step: "sfl_step s (Marked ms) (s\<lparr>sy_markers := ms\<rparr>)"

inductive_cases sfl_stepE: "sfl_step s e s'"

definition sfl_init :: "sys \<Rightarrow> bool" where
  "sfl_init s \<longleftrightarrow> 0 \<le> sy_now s \<and> (\<forall>p. sy_procs s p = idle_proc) \<and> (\<forall>lp. sy_tickets s lp = []) \<and> (\<forall>lp. sy_flock s lp = None)"

definition holds_lock :: "sys \<Rightarrow> nat \<Rightarrow> string \<Rightarrow> bool" where
  "holds_lock s p lp \<longleftrightarrow> lp \<in> fst ` set (pr_held (sy_procs s p))"

section \<open>The invariant\<close>

text \<open>A process's table and the kernel agree: it lists a lock with a descriptor exactly when that very
  descriptor has the file locked; a descriptor is listed once.\<close>

definition held_ok :: "(string \<times> nat \<times> int) list \<Rightarrow> bool" where
  "held_ok h \<longleftrightarrow> distinct (map fst h) \<and> distinct (map (\<lambda>e. fst (snd e)) h)"

definition locks_of :: "(string \<times> nat \<times> int) list \<Rightarrow> string \<Rightarrow> nat option" where
  "locks_of h lp = map_option fst (map_of h lp)"

definition sfl_inv :: "sys \<Rightarrow> bool" where
  "sfl_inv s \<longleftrightarrow>
     (\<forall>p lp fd. sy_flock s lp = Some (p, fd) \<longleftrightarrow> locks_of (pr_held (sy_procs s p)) lp = Some fd)
     \<and> (\<forall>p. held_ok (pr_held (sy_procs s p)))"

lemma kv_put_notin: "lp \<notin> fst ` set h \<Longrightarrow> kv_put h lp v = h @ [(lp, v)]"
  by (induction h) auto

lemma kv_put_fds_same:
  "map_of h lp = Some (fd, d) \<Longrightarrow> map (\<lambda>e. fst (snd e)) (kv_put h lp (fd, d')) = map (\<lambda>e. fst (snd e)) h"
  by (induction h) (auto split: if_splits)

lemma locks_of_put: "locks_of (kv_put h lp (fd, d)) = (locks_of h)(lp \<mapsto> fd)"
  by (auto simp: locks_of_def kv_put_map_of)

lemma held_ok_depth: "held_ok h \<Longrightarrow> map_of h lp = Some (fd, d) \<Longrightarrow> held_ok (kv_put h lp (fd, d'))"
  by (simp add: held_ok_def kv_put_fds_same kv_put_distinct)

lemma held_ok_new:
  "held_ok h \<Longrightarrow> lp \<notin> fst ` set h \<Longrightarrow> fd \<notin> (\<lambda>e. fst (snd e)) ` set h \<Longrightarrow> held_ok (kv_put h lp (fd, d))"
  by (auto simp: held_ok_def kv_put_notin)

lemma held_ok_filter: "held_ok h \<Longrightarrow> held_ok (filter P h)"
  by (simp add: held_ok_def distinct_map_filter)

lemma locks_of_in: "locks_of h lp = Some fd \<Longrightarrow> \<exists>d. (lp, fd, d) \<in> set h"
  by (auto simp: locks_of_def dest: map_of_SomeD)

lemma locks_of_iff: "held_ok h \<Longrightarrow> locks_of h lp = Some fd \<longleftrightarrow> (\<exists>d. (lp, fd, d) \<in> set h)"
  by (auto simp: locks_of_def held_ok_def dest: map_of_SomeD map_of_is_SomeI)

lemma holds_lock_iff: "sfl_inv s \<Longrightarrow> holds_lock s p lp \<longleftrightarrow> (\<exists>fd. sy_flock s lp = Some (p, fd))"
proof -
  assume inv: "sfl_inv s"
  have "lp \<in> fst ` set (pr_held (sy_procs s p)) \<longleftrightarrow> map_of (pr_held (sy_procs s p)) lp \<noteq> None"
    by (simp add: map_of_eq_None_iff)
  also have "\<dots> \<longleftrightarrow> (\<exists>fd. locks_of (pr_held (sy_procs s p)) lp = Some fd)"
    by (auto simp: locks_of_def)
  finally show ?thesis using inv unfolding sfl_inv_def holds_lock_def by blast
qed

lemma held_unique_fd:
  "held_ok h \<Longrightarrow> (lp, fd, d) \<in> set h \<Longrightarrow> (lp', fd, d') \<in> set h \<Longrightarrow> lp' = lp"
proof -
  assume ok: "held_ok h" and m: "(lp, fd, d) \<in> set h" "(lp', fd, d') \<in> set h"
  have "inj_on (\<lambda>e. fst (snd e)) (set h)" using ok by (simp add: held_ok_def distinct_map)
  from inj_onD [OF this _ m(2,1)] have "(lp', fd, d') = (lp, fd, d)" by simp
  then show ?thesis by simp
qed

text \<open>What a step may do to the tables: nothing, add a lock nobody had, or drop one entry and its lock.\<close>

lemma sfl_inv_same:
  assumes "sfl_inv s" and "sy_flock s' = sy_flock s" and "\<And>q. locks_of (pr_held (sy_procs s' q)) = locks_of (pr_held (sy_procs s q))"
    and "\<And>q. held_ok (pr_held (sy_procs s q)) \<Longrightarrow> held_ok (pr_held (sy_procs s' q))"
  shows "sfl_inv s'"
  using assms by (simp add: sfl_inv_def)

lemma begin_inv: "sfl_inv s \<Longrightarrow> begin_acquire p lp skip t d s = (h, s') \<Longrightarrow> sfl_inv s'"
  by (erule sfl_inv_same)
     (auto simp: begin_acquire_def Let_def set_proc_def locks_of_put held_ok_depth fun_eq_iff locks_of_def kv_put_map_of
        split: option.splits)

lemma backoff_inv: "sfl_inv s \<Longrightarrow> sfl_inv (backoff_poll p rand s)"
  by (erule sfl_inv_same) (auto simp: backoff_poll_def Let_def set_proc_def split: pc.splits prod.splits)

lemma poll_inv:
  assumes "sfl_inv s" and "fd \<notin> (\<lambda>e. fst (snd e)) ` set (pr_held (sy_procs s p))" and "queue_poll p fd s = (r, s')"
  shows "sfl_inv s'"
proof (cases "r = Acquired fd")
  case False
  with assms(3) show ?thesis
    by (intro sfl_inv_same [OF assms(1)])
       (auto simp: queue_poll_def Let_def set_proc_def unlink_ticket_def split: pc.splits if_splits)
next
  case True
  with assms(3) obtain lp ticket dl tm where pc: "pr_pc (sy_procs s p) = Queued lp ticket dl tm"
    and nobody: "\<forall>q fd'. sy_flock s lp \<noteq> Some (q, fd')"
    and f: "sy_flock s' = (sy_flock s)(lp \<mapsto> (p, fd))"
    and pr: "sy_procs s' = (sy_procs s)(p := \<lparr>pr_pc = Ready, pr_held = kv_put (pr_held (sy_procs s p)) lp (fd, 1)\<rparr>)"
    by (auto simp: queue_poll_def Let_def set_proc_def unlink_ticket_def split: pc.splits if_splits)
  from nobody have free: "sy_flock s lp = None" by (cases "sy_flock s lp") auto
  have h: "pr_held (sy_procs s' q) = (if q = p then kv_put (pr_held (sy_procs s p)) lp (fd, 1) else pr_held (sy_procs s q))" for q
    by (simp add: pr)
  have none: "locks_of (pr_held (sy_procs s q)) lp = None" for q
    using assms(1) free by (metis not_Some_eq option.distinct(1) sfl_inv_def)
  then have "lp \<notin> fst ` set (pr_held (sy_procs s p))"
    by (simp add: locks_of_def map_of_eq_None_iff)
  with assms(1,2) have "held_ok (pr_held (sy_procs s' q))" for q
    by (auto simp: h sfl_inv_def intro: held_ok_new)
  moreover have "sy_flock s' l = Some (q, fd') \<longleftrightarrow> locks_of (pr_held (sy_procs s' q)) l = Some fd'" for q l fd'
    using assms(1) none by (auto simp: f h locks_of_put sfl_inv_def)
  ultimately show ?thesis by (simp add: sfl_inv_def)
qed

lemma release_inv:
  assumes "sfl_inv s"
  shows "sfl_inv (release_lock p h s)"
proof -
  have ok: "held_ok (pr_held (sy_procs s p))" using assms by (simp add: sfl_inv_def)
  have same: "locks_of (kv_put (pr_held (sy_procs s p)) lp (fd, d')) = locks_of (pr_held (sy_procs s p))"
    if "map_of (pr_held (sy_procs s p)) lp = Some (fd, d)" for lp fd d d'
    using that by (auto simp: locks_of_put fun_eq_iff locks_of_def)
  show ?thesis
  proof (cases h)
    case None
    with assms show ?thesis by (simp add: release_lock_def Let_def)
  next
    case (Some hd)
    show ?thesis
    proof (cases hd)
      case (ReentrantToken lp)
      with Some assms ok same show ?thesis
        by (intro sfl_inv_same [OF assms]) (auto simp: release_lock_def Let_def set_proc_def held_ok_depth split: option.splits)
    next
      case (FdHandle fd)
      show ?thesis
      proof (cases "find (\<lambda>e. fst (snd e) = fd) (pr_held (sy_procs s p))")
        case None
        then have "locks_of (pr_held (sy_procs s p)) l \<noteq> Some fd" for l
          by (auto simp: find_None_all dest!: locks_of_in)
        with assms have "sy_flock s l \<noteq> Some (p, fd)" for l by (simp add: sfl_inv_def)
        then have "close_fd p fd s = s" by (simp add: close_fd_def)
        with None Some FdHandle assms show ?thesis by (simp add: release_lock_def)
      next
        case (Some e)
        obtain lp d where e: "e = (lp, fd, d)" using find_Some_in [OF Some] by (cases e) auto
        have e_in: "(lp, fd, d) \<in> set (pr_held (sy_procs s p))" using find_Some_in [OF Some] e by simp
        then have e_map: "map_of (pr_held (sy_procs s p)) lp = Some (fd, d)"
          using ok by (simp add: held_ok_def map_of_is_SomeI)
        show ?thesis
        proof (cases "d - 1 \<le> 0")
          case False
          with \<open>h = Some hd\<close> FdHandle Some e e_map ok same show ?thesis
            by (intro sfl_inv_same [OF assms]) (auto simp: release_lock_def Let_def set_proc_def held_ok_depth)
        next
          case True
          let ?h' = "filter (\<lambda>e. fst e \<noteq> lp) (pr_held (sy_procs s p))"
          have s': "release_lock p h s = close_fd p fd (set_proc p ((sy_procs s p)\<lparr>pr_held := ?h'\<rparr>) s)"
            using True \<open>h = Some hd\<close> FdHandle Some e by (simp add: release_lock_def Let_def)
          have inv: "sy_flock s l = Some (q, fd') \<longleftrightarrow> locks_of (pr_held (sy_procs s q)) l = Some fd'" for q l fd'
            using assms by (simp add: sfl_inv_def)
          have gone: "locks_of ?h' l = Some fd' \<longleftrightarrow> l \<noteq> lp \<and> sy_flock s l = Some (p, fd')" for l fd'
            unfolding inv locks_of_iff [OF ok] locks_of_iff [OF held_ok_filter [OF ok]] by auto
          have "sy_flock s lp = Some (p, fd)" unfolding inv using e_map by (simp add: locks_of_def)
          moreover have "sy_flock s l \<noteq> Some (p, fd)" if "l \<noteq> lp" for l
            using that held_unique_fd [OF ok e_in] unfolding inv locks_of_iff [OF ok] by blast
          ultimately have closed: "sy_flock (release_lock p h s) l = (if l = lp then None else sy_flock s l)" for l
            by (simp add: s' close_fd_def set_proc_def)
          have fl: "sy_flock (release_lock p h s) l = Some (q, fd') \<longleftrightarrow>
              locks_of (pr_held (sy_procs (release_lock p h s) q)) l = Some fd'" for q l fd'
          proof (cases "q = p")
            case True
            then have "pr_held (sy_procs (release_lock p h s) q) = ?h'" by (simp add: s' close_fd_def set_proc_def)
            then show ?thesis using True by (auto simp: closed gone)
          next
            case False
            then have "pr_held (sy_procs (release_lock p h s) q) = pr_held (sy_procs s q)" by (simp add: s' close_fd_def set_proc_def)
            then show ?thesis using False \<open>sy_flock s lp = Some (p, fd)\<close> by (auto simp: closed simp flip: inv)
          qed
          have "held_ok (pr_held (sy_procs (release_lock p h s) q))" for q
            using assms held_ok_filter [OF ok] by (simp add: s' sfl_inv_def close_fd_def set_proc_def)
          with fl show ?thesis by (simp add: sfl_inv_def)
        qed
      qed
    qed
  qed
qed

lemma end_inv: "sfl_inv s \<Longrightarrow> sfl_inv (end_process p s)"
proof -
  assume inv: "sfl_inv s"
  have "sy_flock (end_process p s) lp = Some (q, fd) \<longleftrightarrow> q \<noteq> p \<and> sy_flock s lp = Some (q, fd)" for lp q fd
    by (auto simp: end_process_def split: option.splits prod.splits)
  with inv show ?thesis
    by (simp add: sfl_inv_def) (simp add: end_process_def idle_proc_def locks_of_def held_ok_def)
qed

lemma sfl_step_inv: "sfl_inv s \<Longrightarrow> sfl_step s e s' \<Longrightarrow> sfl_inv s'"
  by (erule sfl_stepE) (auto intro: begin_inv backoff_inv poll_inv release_inv end_inv elim: sfl_inv_same)

lemma sfl_init_inv: "sfl_init s \<Longrightarrow> sfl_inv s"
  by (simp add: sfl_init_def sfl_inv_def idle_proc_def locks_of_def held_ok_def)

interpretation sfl: mutex sfl_init sfl_step sfl_inv holds_lock
proof
  show "sfl_inv s" if "sfl_init s" for s using that by (rule sfl_init_inv)
  show "sfl_inv s'" if "sfl_inv s" "sfl_step s e s'" for s e s' using that by (rule sfl_step_inv)
  show "p = q" if "sfl_inv s" "holds_lock s p k" "holds_lock s q k" for s p q k
    using that by (auto simp: holds_lock_iff)
qed

section \<open>Names, markers and tickets\<close>

lemma sanitize_safe: "list_all key_char_ok k \<Longrightarrow> sanitize b k = k"
  by (induction k arbitrary: b) auto

lemma someone_is_waiting_value:
  "someone_is_waiting now ms =
     (\<exists>m\<in>set ms. now - snd m \<le> DISCUSS_MARKER_FRESH_MS,
      filter (\<lambda>m. now - snd m \<le> DISCUSS_MARKER_STALE_MS) ms)"
  by (induction ms) (auto simp: Let_def DISCUSS_MARKER_FRESH_MS_def DISCUSS_MARKER_STALE_MS_def split: prod.splits)

lemma twenty_digits_ticket:
  assumes "0 \<le> t" and "t < 10 ^ 20"
  shows "twenty_digits (ticket_name t p r)" and "ticket_pid (ticket_name t p r) = Some p"
proof -
  have l: "length (pad_start 20 (CHR ''0'') (nat_str (nat t))) = 20"
    using assms by (intro pad_nat_str_length) (simp_all add: nat_less_iff)
  then show d: "twenty_digits (ticket_name t p r)"
    by (simp add: twenty_digits_def ticket_name_def nth_append pad_nat_str_digits)
  have stop: "takeWhile is_digit (nat_str p @ CHR ''.'' # r) = nat_str p"
    "dropWhile is_digit (nat_str p @ CHR ''.'' # r) = CHR ''.'' # r"
    using nat_str_digits [of p] by (simp_all add: takeWhile_append2 list_all_iff dropWhile_append2 is_digit_def)
  show "ticket_pid (ticket_name t p r) = Some p"
    using d l by (simp add: ticket_pid_def) (simp add: ticket_name_def stop starts_with_def digits_val_nat_str)
qed

lemma head_ticket_least:
  assumes "head_ticket ts = Some h" and "n \<in> fst ` set ts" and "twenty_digits n"
  shows "h \<le> n"
proof -
  from assms(1) obtain rest where h: "js_sort str_cmp (filter twenty_digits (map fst ts)) = h # rest"
    by (auto simp: head_ticket_def split: list.splits)
  show ?thesis
    using by_string.head_least [OF _ h, of n] assms(2,3) by auto
qed

lemma head_ticket_in:
  assumes "head_ticket ts = Some h"
  shows "h \<in> fst ` set ts" and "twenty_digits h"
proof -
  from assms obtain rest where "js_sort str_cmp (filter twenty_digits (map fst ts)) = h # rest"
    by (auto simp: head_ticket_def split: list.splits)
  then have "h \<in> set (js_sort str_cmp (filter twenty_digits (map fst ts)))" by simp
  then show "h \<in> fst ` set ts" and "twenty_digits h" by auto
qed

lemma head_ticket_none: "head_ticket ts = None \<Longrightarrow> n \<in> fst ` set ts \<Longrightarrow> \<not> twenty_digits n"
proof
  assume "head_ticket ts = None" and "n \<in> fst ` set ts" and "twenty_digits n"
  then have "js_sort str_cmp (filter twenty_digits (map fst ts)) = []"
    by (auto simp: head_ticket_def split: list.splits)
  then have "set (filter twenty_digits (map fst ts)) = {}" by (metis set_js_sort list.set(1))
  with \<open>n \<in> fst ` set ts\<close> \<open>twenty_digits n\<close> show False by auto
qed

lemma no_pair: "(\<forall>a b. x \<noteq> Some (a, b)) \<longleftrightarrow> x = None"
  by (cases x) auto

lemma poll_acquired:
  assumes "queue_poll p fd s = (Acquired fd', s')" and "pr_pc (sy_procs s p) = Queued lp ticket dl tm"
  shows "fd' = fd" and "sy_now s < dl" and "sy_flock s lp = None" and "sy_flock s' = (sy_flock s)(lp \<mapsto> (p, fd))"
    and "head_ticket (sweep_stale_tickets (sy_alive s) (tm * 2) (sy_now s) (sy_tickets s lp)) \<in> {None, Some ticket}"
  using assms by (auto simp: queue_poll_def Let_def unlink_ticket_def set_proc_def no_pair split: if_splits option.splits)

section \<open>Properties\<close>

text \<open>C1: Mutual exclusion. However the calls of any number of processes interleave, whoever crashes and
  whatever handles are released twice or out of order, a lock file is held by at most one process.\<close>

theorem lock_mutual_exclusion:
  assumes "reachable sfl_init sfl_step s" and "holds_lock s p lp" and "holds_lock s q lp"
  shows "p = q"
  using assms by (rule sfl.at_most_one)

definition demo_sys :: sys where
  "demo_sys = \<lparr>sy_now = 5000, sy_alive = (\<lambda>_. True), sy_procs = (\<lambda>_. idle_proc), sy_markers = [],
     sy_tickets = (\<lambda>_. []), sy_flock = (\<lambda>_. None)\<rparr>"

definition demo_begun :: "nat \<Rightarrow> sys \<Rightarrow> sys" where
  "demo_begun p s = backoff_poll p ''aa'' (snd (begin_acquire p ''k.lock'' True 600000 900000 s))"

definition demo_locked :: sys where
  "demo_locked = snd (queue_poll 4 7 (demo_begun 4 demo_sys))"

lemma ticket_earlier: "0 \<le> t \<Longrightarrow> t < u \<Longrightarrow> u < 10 ^ 20 \<Longrightarrow> ticket_name t p r < ticket_name u q r'"
  unfolding ticket_name_def by (intro padded_less) (simp_all add: nat_less_iff)

lemma head_ticket_pair:
  "twenty_digits a \<Longrightarrow> head_ticket [(a, m)] = Some a"
  "twenty_digits a \<Longrightarrow> a < b \<Longrightarrow> head_ticket [(a, m), (b, n)] = Some a"
  by (auto simp: head_ticket_def)

lemma demo_tickets:
  "ticket_pid (ticket_name 5000 4 r) = Some 4" "ticket_pid (ticket_name 6000 5 r) = Some 5"
  "twenty_digits (ticket_name 5000 4 r)" "ticket_name 5000 4 r < ticket_name 6000 5 r'"
  "ticket_name 5000 4 r \<noteq> ticket_name 6000 5 r'"
  using ticket_earlier [of 5000 6000 4 r 5 r'] by (simp_all add: twenty_digits_ticket)

lemmas demo_eval = demo_begun_def demo_sys_def backoff_poll_def begin_acquire_def idle_proc_def set_proc_def Let_def
  queue_poll_def sweep_stale_tickets_def ticket_stale_def unlink_ticket_def holds_lock_def demo_tickets head_ticket_pair

lemma demo_locked_reachable: "reachable sfl_init sfl_step demo_locked"
proof -
  let ?s1 = "snd (begin_acquire 4 ''k.lock'' True 600000 900000 demo_sys)"
  have "reachable sfl_init sfl_step demo_sys" by (rule reach_init) (simp add: sfl_init_def demo_sys_def)
  then have "reachable sfl_init sfl_step ?s1"
    by (rule reach_step) (rule begin_step [where h = "fst (begin_acquire 4 ''k.lock'' True 600000 900000 demo_sys)" and p = 4 and lp = "''k.lock''"
            and skip = True and t = 600000 and d = 900000], simp_all add: demo_eval)
  then have "reachable sfl_init sfl_step (demo_begun 4 demo_sys)"
    unfolding demo_begun_def by (rule reach_step) (rule backoff_step, simp add: demo_eval)
  then show ?thesis
    unfolding demo_locked_def
    by (rule reach_step)
       (rule poll_step [where fd = 7 and p = 4 and r = "fst (queue_poll 4 7 (demo_begun 4 demo_sys))"], simp_all add: demo_eval)
qed

theorem lock_mutual_exclusion_witness: "holds_lock demo_locked 4 ''k.lock'' \<and> \<not> holds_lock demo_locked 5 ''k.lock''"
proof
  show h: "holds_lock demo_locked 4 ''k.lock''" by (simp add: demo_locked_def demo_eval)
  show "\<not> holds_lock demo_locked 5 ''k.lock''"
    using lock_mutual_exclusion [OF demo_locked_reachable h, of 5] by auto
qed

text \<open>C3: First come, first served. A process gets a lock only when no live process has an older ticket for
  it: if the waiting process \<open>q\<close> took its ticket at an earlier millisecond than \<open>p\<close>, is alive, and its
  ticket is not older than twice the time limit, then a round of \<open>p\<close> does not acquire the lock.\<close>

theorem lock_is_fifo:
  assumes "pr_pc (sy_procs s p) = Queued lp (ticket_name tp p rp) dl tm"
    and "queue_poll p fd s = (Acquired fd', s')"
    and "(ticket_name tq q rq, m) \<in> set (sy_tickets s lp)" and "sy_alive s q" and "0 < q"
    and "sy_now s - m \<le> tm * 2" and "0 \<le> tp" and "tp < 10 ^ 20" and "0 \<le> tq"
  shows "tp \<le> tq"
proof (rule ccontr)
  assume less: "\<not> tp \<le> tq"
  let ?swept = "sweep_stale_tickets (sy_alive s) (tm * 2) (sy_now s) (sy_tickets s lp)"
  have q: "twenty_digits (ticket_name tq q rq)" "ticket_pid (ticket_name tq q rq) = Some q"
    using less assms(8,9) by (simp_all add: twenty_digits_ticket)
  have kept: "ticket_name tq q rq \<in> fst ` set ?swept"
    using assms(3-6) q(2) by (force simp: sweep_stale_tickets_def ticket_stale_def)
  have "head_ticket ?swept \<in> {None, Some (ticket_name tp p rp)}"
    by (rule poll_acquired(5) [OF assms(2,1)])
  then have "ticket_name tp p rp \<le> ticket_name tq q rq"
    using head_ticket_none [OF _ kept] head_ticket_least [OF _ kept q(1)] q(1) by auto
  moreover have "ticket_name tq q rq < ticket_name tp p rp"
    unfolding ticket_name_def using less assms(7-9)
    by (intro padded_less) (simp_all add: nat_less_iff)
  ultimately show False by simp
qed

definition demo_queue :: sys where
  "demo_queue = demo_begun 5 ((demo_begun 4 demo_sys)\<lparr>sy_now := 6000\<rparr>)"

theorem lock_is_fifo_witness: "(5000 :: int) \<le> 6000 \<and> fst (queue_poll 4 7 demo_queue) = Acquired 7"
proof
  show a: "fst (queue_poll 4 7 demo_queue) = Acquired 7" by (simp add: demo_queue_def demo_eval)
  have pc: "pr_pc (sy_procs demo_queue 4) = Queued ''k.lock'' (ticket_name 5000 4 ''aa'') 605000 600000"
    by (simp add: demo_queue_def demo_eval)
  from a have poll: "queue_poll 4 7 demo_queue = (Acquired 7, snd (queue_poll 4 7 demo_queue))" by (metis prod.collapse)
  have m: "(ticket_name 6000 5 ''aa'', 6000) \<in> set (sy_tickets demo_queue ''k.lock'')" by (simp add: demo_queue_def demo_eval)
  show "(5000 :: int) \<le> 6000"
    by (rule lock_is_fifo [OF pc poll m]) (simp_all add: demo_queue_def demo_eval)
qed

text \<open>C10: A wait is bounded. A round at or after the deadline fixed when the call began ends the call: its
  ticket is removed, no lock is taken and nothing else changes; the deadline itself never moves.\<close>

theorem lock_wait_ends:
  assumes "pr_pc (sy_procs s p) = Queued lp ticket dl tm"
  shows "if dl \<le> sy_now s
         then fst (queue_poll p fd s) = TimedOut \<and> pr_pc (sy_procs (snd (queue_poll p fd s)) p) = Ready
              \<and> ticket \<notin> fst ` set (sy_tickets (snd (queue_poll p fd s)) lp)
              \<and> sy_flock (snd (queue_poll p fd s)) = sy_flock s
         else fst (queue_poll p fd s) = StillWaiting \<longrightarrow>
              pr_pc (sy_procs (snd (queue_poll p fd s)) p) = Queued lp ticket dl tm"
  using assms by (auto simp: queue_poll_def Let_def unlink_ticket_def set_proc_def split: option.splits)

theorem lock_wait_ends_witness:
  "fst (queue_poll 4 7 ((demo_begun 4 demo_sys)\<lparr>sy_now := 700000\<rparr>)) = TimedOut"
proof -
  let ?s = "(demo_begun 4 demo_sys)\<lparr>sy_now := 700000\<rparr>"
  have "pr_pc (sy_procs ?s 4) = Queued ''k.lock'' (ticket_name 5000 4 ''aa'') 605000 600000"
    by (simp add: demo_eval)
  from lock_wait_ends [OF this, of 7] show ?thesis by simp
qed

text \<open>The lock is not stuck. When nobody has the lock file locked and a process with time left polls
  while its ticket is the first of the live ones, it acquires the lock in that very round.\<close>

theorem head_waiter_acquires:
  assumes "pr_pc (sy_procs s p) = Queued lp ticket dl tm" and "sy_now s < dl" and "sy_flock s lp = None"
    and "\<And>n m. (n, m) \<in> set (sy_tickets s lp) \<Longrightarrow> twenty_digits n \<Longrightarrow> \<not> ticket_stale (sy_alive s) (tm * 2) (sy_now s) (n, m) \<Longrightarrow> ticket \<le> n"
    and "(ticket, m0) \<in> set (sy_tickets s lp)" and "\<not> ticket_stale (sy_alive s) (tm * 2) (sy_now s) (ticket, m0)" and "twenty_digits ticket"
  shows "fst (queue_poll p fd s) = Acquired fd \<and> holds_lock (snd (queue_poll p fd s)) p lp"
proof -
  let ?swept = "sweep_stale_tickets (sy_alive s) (tm * 2) (sy_now s) (sy_tickets s lp)"
  have mine: "ticket \<in> fst ` set ?swept" using assms(5,6) by (force simp: sweep_stale_tickets_def)
  have "head_ticket ?swept = Some ticket"
  proof (cases "head_ticket ?swept")
    case None
    with head_ticket_none [OF None mine] assms(7) show ?thesis by simp
  next
    case (Some h)
    then have "twenty_digits h" by (rule head_ticket_in(2))
    moreover obtain m where "(h, m) \<in> set (sy_tickets s lp)" "\<not> ticket_stale (sy_alive s) (tm * 2) (sy_now s) (h, m)"
      using head_ticket_in(1) [OF Some] by (auto simp: sweep_stale_tickets_def)
    ultimately have "ticket \<le> h" using assms(4) by blast
    moreover have "h \<le> ticket" by (rule head_ticket_least [OF Some mine assms(7)])
    ultimately show ?thesis using Some by simp
  qed
  with assms(1-3) show ?thesis
    by (simp add: queue_poll_def Let_def unlink_ticket_def set_proc_def holds_lock_def kv_put_keys)
qed

theorem head_waiter_acquires_witness: "fst (queue_poll 4 7 demo_queue) = Acquired 7 \<and> holds_lock (snd (queue_poll 4 7 demo_queue)) 4 ''k.lock''"
proof (rule head_waiter_acquires)
  show "pr_pc (sy_procs demo_queue 4) = Queued ''k.lock'' (ticket_name 5000 4 ''aa'') 605000 600000"
    by (simp add: demo_queue_def demo_eval)
  have ts: "sy_tickets demo_queue ''k.lock'' = [(ticket_name 5000 4 ''aa'', 5000), (ticket_name 6000 5 ''aa'', 6000)]"
    by (simp add: demo_queue_def demo_eval)
  have "ticket_name 5000 4 ''aa'' \<le> ticket_name 6000 5 ''aa''" by (simp add: demo_tickets order.strict_implies_order)
  then show "ticket_name 5000 4 ''aa'' \<le> n" if "(n, m) \<in> set (sy_tickets demo_queue ''k.lock'')" for n m
    using that by (auto simp: ts)
  show "(ticket_name 5000 4 ''aa'', 5000) \<in> set (sy_tickets demo_queue ''k.lock'')" by (simp add: ts)
qed (simp_all add: demo_queue_def demo_eval)

section \<open>Reentrancy\<close>

lemma kv_put_restore: "map_of h k = Some v \<Longrightarrow> kv_put (kv_put h k w) k v = h"
  by (induction h) auto

lemma proc_restore: "set_proc p pr (set_proc p pr' s) = set_proc p pr s"
  by (simp add: set_proc_def)

lemma set_proc_same: "set_proc p (sy_procs s p) s = s"
  by (simp add: set_proc_def)

text \<open>Nested use is free. Taking a lock this process already holds succeeds at once, whoever waits in
  the queue, and giving that inner handle back restores the state exactly as it was.\<close>

theorem nested_lock_roundtrip:
  assumes "map_of (pr_held (sy_procs s p)) lp = Some (fd, d)" and "0 \<le> d"
  shows "fst (begin_acquire p lp skip t dm s) = Some (ReentrantToken lp)
         \<and> release_lock p (Some (ReentrantToken lp)) (snd (begin_acquire p lp skip t dm s)) = s"
proof -
  have "set_proc p (sy_procs s p\<lparr>pr_held := pr_held (sy_procs s p)\<rparr>) s = s" by (simp add: set_proc_same)
  with assms show ?thesis
    by (simp add: begin_acquire_def release_lock_def Let_def proc_restore)
       (simp add: set_proc_def kv_put_map_of kv_put_restore)
qed

theorem nested_lock_roundtrip_witness:
  "release_lock 4 (Some (ReentrantToken ''k.lock'')) (snd (begin_acquire 4 ''k.lock'' True 1 1 demo_locked)) = demo_locked"
proof -
  have "map_of (pr_held (sy_procs demo_locked 4)) ''k.lock'' = Some (7, 1)" by (simp add: demo_locked_def demo_eval)
  from nested_lock_roundtrip [OF this] show ?thesis by simp
qed



section \<open>Yielding to an interactive user\<close>

text \<open>Under the default limits yielding can use up the whole time limit. A call that was still yielding
  600 seconds after it began has 300 more seconds in which it may go on yielding, but whenever it stops,
  its first round on the ticket queue times out, even with the lock free and nobody else waiting.\<close>

theorem backoff_outlives_timeout:
  assumes "pr_pc (sy_procs s p) = Backoff lp False (t0 + discuss_priority_max_wait_ms (\<lambda>_. None)) (t0 + 600000) 600000"
    and "lock_timeout_secs (\<lambda>_. None) = Fin 600"
    and "t0 + 600000 \<le> sy_now s" and "pr_pc (sy_procs (backoff_poll p r s) p) \<noteq> pr_pc (sy_procs s p)"
  shows "fst (queue_poll p fd (backoff_poll p r s)) = TimedOut"
  using assms(1,3,4)
  by (auto simp: backoff_poll_def Let_def set_proc_def queue_poll_def split: prod.splits if_splits)

theorem backoff_outlives_timeout_witness:
  "fst (queue_poll 4 7 (backoff_poll 4 ''aa'' ((snd (begin_acquire 4 ''k.lock'' False 600000 900000 demo_sys))\<lparr>sy_now := 605000\<rparr>))) = TimedOut"
proof (rule backoff_outlives_timeout [where lp = "''k.lock''" and ?t0.0 = 5000])
  show "lock_timeout_secs (\<lambda>_. None) = Fin 600" by (simp add: lock_timeout_secs_def env_number_def)
qed (simp_all add: demo_eval discuss_priority_max_wait_ms_def env_number_def)

section \<open>Names\<close>

text \<open>Different keys lock different files, as long as the keys use only letters, digits, dots,
  underscores and dashes; the call without a key has a file of its own.\<close>

theorem lock_file_names_injective:
  assumes "list_all key_char_ok k1" and "list_all key_char_ok k2" and "lock_file_name k1 = lock_file_name k2"
  shows "k1 = k2"
  using assms by (auto simp: lock_file_name_def key_suffix_def sanitize_safe split: if_splits)

theorem lock_file_names_injective_witness: "lock_file_name ''move.a-1'' \<noteq> lock_file_name ''move.a-2''"
  using lock_file_names_injective [of "''move.a-1''" "''move.a-2''"] by (auto simp: key_char_ok_def is_digit_def)

text \<open>Outside that alphabet two task ids can share one lock file.\<close>

lemma lock_file_collision:
  "lock_file_name (task_move_lock_key ''a b'') = lock_file_name (task_move_lock_key ''a:b'')"
  by (simp add: lock_file_name_def key_suffix_def task_move_lock_key_def key_char_ok_def is_digit_def)

end
