(* ===== verification/GpuArbiter.thy ===== *)
theory GpuArbiter
  imports SingleFlightLock
begin

text \<open>
  \<open>src/gpu-arbiter.js\<close>: who goes next on the GPU. Every caller puts a ticket of its class into the
  directory of the key; a waiter is admitted when no live ticket of another process is of a better
  class, or of its own class and earlier. Admitted, it takes the single-flight lock of the key
  (\<open>SingleFlightLock\<close>), which is what serialises two callers admitted at once. A ticket file is its name,
  its time and the JSON it parses to; the interval timers only refresh these times.
\<close>

definition class_rank :: "string \<Rightarrow> nat" where
  "class_rank cls = (if cls = ''interactive'' then 0 else if cls = ''review'' then 1 else if cls = ''draft'' then 2
     else if cls = ''audit'' then 3 else 2)"

definition TICKET_STALE_MS :: int where "TICKET_STALE_MS = 90000"

record ticket =
  tk_pid :: nat
  tk_cls :: string
  tk_taskId :: "string option"
  tk_phase :: "string option"
  tk_model :: "string option"
  tk_startedAt :: int
  tk_holding :: bool
  tk_cancel :: bool
  tk_place :: bool
  tk_ownerPid :: "nat option"

record ticket_file =
  tf_name :: string
  tf_mtime :: int
  tf_body :: "ticket option"

type_synonym tdir = "ticket_file list"

definition overall_timeout_ms :: "env \<Rightarrow> real" where
  "overall_timeout_ms e =
     (case env_number e ''SINGLE_FLIGHT_LOCK_TIMEOUT_SECS'' of Fin s \<Rightarrow> (if 0 < s then s else 600) * 1000 | _ \<Rightarrow> 600 * 1000)"

definition tickets_dir_name :: "string \<Rightarrow> string" where
  "tickets_dir_name key = ''.gpu-tickets'' @ key_suffix key"

definition MAX_SAFE_INTEGER :: nat where "MAX_SAFE_INTEGER = 9007199254740991"

definition parse_seq :: "string \<Rightarrow> nat" where
  "parse_seq name =
     (let ds = takeWhile is_digit name
      in if ds \<noteq> [] \<and> starts_with ''.'' (dropWhile is_digit name) then digits_val 0 ds else MAX_SAFE_INTEGER)"

section \<open>The live tickets\<close>

text \<open>A live ticket is read from a JSON file with a process id, refreshed within the last 90 seconds, of a
  process that exists. The other JSON files are deleted; files of other names are left alone.\<close>

definition file_live :: "(nat \<Rightarrow> bool) \<Rightarrow> int \<Rightarrow> ticket_file \<Rightarrow> bool" where
  "file_live alive now f \<longleftrightarrow>
     (case tf_body f of
        None \<Rightarrow> False
      | Some t \<Rightarrow> tk_pid t \<noteq> 0 \<and> \<not> TICKET_STALE_MS < now - tf_mtime f \<and> alive (tk_pid t))"

record live = ticket +
  lv_name :: string
  lv_seq :: nat

definition live_of :: "ticket_file \<Rightarrow> ticket \<Rightarrow> live" where
  "live_of f t = ticket.extend t \<lparr>lv_name = tf_name f, lv_seq = parse_seq (tf_name f)\<rparr>"

fun scan_tickets :: "(nat \<Rightarrow> bool) \<Rightarrow> int \<Rightarrow> tdir \<Rightarrow> live list \<times> tdir" where
  "scan_tickets alive now [] = ([], [])"
| "scan_tickets alive now (f # fs) =
     (let (out, kept) = scan_tickets alive now fs
      in if \<not> ends_with ''.json'' (tf_name f) then (out, f # kept)
         else (case tf_body f of
                 None \<Rightarrow> (out, kept)
               | Some t \<Rightarrow>
                   if tk_pid t = 0 then (out, kept)
                   else if TICKET_STALE_MS < now - tf_mtime f \<or> \<not> alive (tk_pid t) then (out, kept)
                   else (live_of f t # out, f # kept)))"

definition compare_seq :: "live \<Rightarrow> live \<Rightarrow> jnum" where
  "compare_seq a b = jsub (Fin (real (lv_seq a))) (Fin (real (lv_seq b)))"

definition live_tickets :: "(nat \<Rightarrow> bool) \<Rightarrow> int \<Rightarrow> tdir \<Rightarrow> live list \<times> tdir" where
  "live_tickets alive now fs = (let (out, kept) = scan_tickets alive now fs in (js_sort compare_seq out, kept))"

section \<open>Tickets on disk\<close>

definition safe_unlink :: "string \<Rightarrow> tdir \<Rightarrow> tdir" where
  "safe_unlink name fs = filter (\<lambda>f. tf_name f \<noteq> name) fs"

definition write_ticket :: "int \<Rightarrow> string \<Rightarrow> ticket \<Rightarrow> tdir \<Rightarrow> tdir" where
  "write_ticket now name t fs = safe_unlink name fs @ [\<lparr>tf_name = name, tf_mtime = now, tf_body = Some t\<rparr>]"

definition touch :: "int \<Rightarrow> string \<Rightarrow> tdir \<Rightarrow> tdir" where
  "touch now name fs = map (\<lambda>f. if tf_name f = name then f\<lparr>tf_mtime := now\<rparr> else f) fs"

text \<open>\<open>patchTicket\<close>: a ticket that cannot be read is left as it is; otherwise it is rewritten.\<close>

definition patch_ticket :: "int \<Rightarrow> string \<Rightarrow> (ticket \<Rightarrow> ticket) \<Rightarrow> tdir \<Rightarrow> tdir" where
  "patch_ticket now name upd fs =
     (case find (\<lambda>f. tf_name f = name) fs of
        None \<Rightarrow> fs
      | Some f \<Rightarrow> (case tf_body f of None \<Rightarrow> fs | Some t \<Rightarrow> write_ticket now name (upd t) fs))"

definition seq_name :: "int \<Rightarrow> nat \<Rightarrow> string \<Rightarrow> string" where
  "seq_name now pid tail = pad_start 16 (CHR ''0'') (nat_str (nat now)) @ ''.'' @ nat_str pid @ ''.'' @ tail"

definition create_ticket ::
  "int \<Rightarrow> nat \<Rightarrow> string \<Rightarrow> string \<Rightarrow> string option \<Rightarrow> string option \<Rightarrow> string option \<Rightarrow> tdir \<Rightarrow> string \<times> tdir" where
  "create_ticket now pid rand cls task_id phase model fs =
     (let name = seq_name now pid (rand @ ''.json'')
      in (name, write_ticket now name
            \<lparr>tk_pid = pid, tk_cls = cls, tk_taskId = task_id, tk_phase = phase, tk_model = model, tk_startedAt = now,
             tk_holding = False, tk_cancel = False, tk_place = False, tk_ownerPid = None\<rparr> fs))"

text \<open>\<open>holdPlace\<close> keeps a place in the queue for a whole session.\<close>

definition hold_place ::
  "int \<Rightarrow> nat \<Rightarrow> string \<Rightarrow> string \<Rightarrow> string option \<Rightarrow> string option \<Rightarrow> string option \<Rightarrow> nat option \<Rightarrow> tdir \<Rightarrow> string \<times> tdir" where
  "hold_place now pid rand cls task_id phase model owner fs =
     (let name = seq_name now pid (rand @ ''.hold.json'')
      in (name, write_ticket now name
            \<lparr>tk_pid = pid, tk_cls = cls, tk_taskId = task_id, tk_phase = phase, tk_model = model, tk_startedAt = now,
             tk_holding = False, tk_cancel = False, tk_place = True, tk_ownerPid = owner\<rparr> fs))"

section \<open>Waiting for the slot\<close>

record waiter =
  wa_name :: string
  wa_pid :: nat
  wa_rank :: nat
  wa_seq :: nat
  wa_cls :: string
  wa_taskId :: "string option"
  wa_phase :: "string option"
  wa_model :: "string option"

definition blocks :: "waiter \<Rightarrow> live \<Rightarrow> bool" where
  "blocks w t \<longleftrightarrow> lv_name t \<noteq> wa_name w \<and> tk_pid t \<noteq> wa_pid w
     \<and> (class_rank (tk_cls t) < wa_rank w \<or> (class_rank (tk_cls t) = wa_rank w \<and> lv_seq t < wa_seq w))"

datatype slot_result = SlotTimedOut | SlotCancelled | SlotWaiting | SlotRewritten | Admitted

text \<open>One round of \<open>waitForSlot\<close>. A ticket that vanished is written again and the round repeated.\<close>

definition slot_poll :: "(nat \<Rightarrow> bool) \<Rightarrow> int \<Rightarrow> int \<Rightarrow> waiter \<Rightarrow> tdir \<Rightarrow> slot_result \<times> tdir" where
  "slot_poll alive now deadline w fs =
     (if deadline \<le> now then (SlotTimedOut, safe_unlink (wa_name w) fs)
      else
        let (tickets, kept) = live_tickets alive now (touch now (wa_name w) fs)
        in case find (\<lambda>t. lv_name t = wa_name w) tickets of
             None \<Rightarrow> (SlotRewritten, write_ticket now (wa_name w)
                       \<lparr>tk_pid = wa_pid w, tk_cls = wa_cls w, tk_taskId = wa_taskId w, tk_phase = wa_phase w,
                        tk_model = wa_model w, tk_startedAt = now, tk_holding = False, tk_cancel = False,
                        tk_place = False, tk_ownerPid = None\<rparr> kept)
           | Some mine \<Rightarrow>
               if tk_cancel mine then (SlotCancelled, safe_unlink (wa_name w) kept)
               else if \<exists>t\<in>set tickets. blocks w t then (SlotWaiting, kept)
               else (Admitted, kept))"

definition should_skip_wait :: "(nat \<Rightarrow> bool) \<Rightarrow> int \<Rightarrow> nat \<Rightarrow> nat \<Rightarrow> tdir \<Rightarrow> bool" where
  "should_skip_wait alive now pid my_rank fs \<longleftrightarrow>
     (\<exists>t\<in>set (fst (live_tickets alive now fs)). tk_pid t = pid \<and> tk_place t \<and> class_rank (tk_cls t) \<le> my_rank)"

section \<open>Cancelling lower classes\<close>

datatype cancel_action = CancelMarked | KillSkipped | Exited | Killed | KillFailed

record affected =
  af_pid :: nat
  af_cls :: string
  af_taskId :: "string option"
  af_holding :: bool
  af_action :: cancel_action

text \<open>\<open>cancelBelow\<close> marks every live ticket of a lower class; after a grace it kills the marked holders of
  other processes that are still there. \<open>alive2\<close> is who is alive then, \<open>can_kill\<close> whether the signal is
  permitted.\<close>

definition cancel_action_of :: "nat \<Rightarrow> (nat \<Rightarrow> bool) \<Rightarrow> (nat \<Rightarrow> bool) \<Rightarrow> live \<Rightarrow> cancel_action" where
  "cancel_action_of self alive2 can_kill t =
     (if tk_holding t \<and> tk_pid t \<noteq> self
      then (if \<not> alive2 (tk_pid t) then Exited else if can_kill (tk_pid t) then Killed else KillFailed)
      else if tk_holding t then KillSkipped else CancelMarked)"

definition cancel_below ::
  "(nat \<Rightarrow> bool) \<Rightarrow> int \<Rightarrow> nat \<Rightarrow> string \<Rightarrow> (nat \<Rightarrow> bool) \<Rightarrow> (nat \<Rightarrow> bool) \<Rightarrow> tdir \<Rightarrow> affected list \<times> tdir" where
  "cancel_below alive now self cls alive2 can_kill fs =
     (let (tickets, kept) = live_tickets alive now fs;
          below = filter (\<lambda>t. class_rank cls < class_rank (tk_cls t)) tickets
      in (map (\<lambda>t. \<lparr>af_pid = tk_pid t, af_cls = tk_cls t, af_taskId = tk_taskId t, af_holding = tk_holding t,
                    af_action = cancel_action_of self alive2 can_kill t\<rparr>) below,
          fold (\<lambda>t. patch_ticket now (lv_name t) (\<lambda>b. b\<lparr>tk_cancel := True\<rparr>)) below kept))"

section \<open>Status\<close>

definition arbiter_status :: "(nat \<Rightarrow> bool) \<Rightarrow> int \<Rightarrow> tdir \<Rightarrow> live option \<times> live list \<times> live list" where
  "arbiter_status alive now fs =
     (let tickets = fst (live_tickets alive now fs)
      in (find tk_holding tickets, filter (\<lambda>t. \<not> tk_holding t \<and> \<not> tk_place t) tickets, filter tk_place tickets))"

section \<open>What the scan sees\<close>

lemma scan_tickets_value:
  "scan_tickets alive now fs =
     (map (\<lambda>f. live_of f (the (tf_body f))) (filter (\<lambda>f. ends_with ''.json'' (tf_name f) \<and> file_live alive now f) fs),
      filter (\<lambda>f. ends_with ''.json'' (tf_name f) \<longrightarrow> file_live alive now f) fs)"
  by (induction fs) (auto simp: file_live_def Let_def split: option.splits prod.splits)

interpretation seq_order: comparator compare_seq "\<lambda>_. True" lv_seq
  by unfold_locales (simp add: compare_seq_def)

lemma live_tickets_set:
  "t \<in> set (fst (live_tickets alive now fs)) \<longleftrightarrow>
     (\<exists>f b. f \<in> set fs \<and> ends_with ''.json'' (tf_name f) \<and> tf_body f = Some b \<and> file_live alive now f \<and> t = live_of f b)"
  by (auto simp: live_tickets_def scan_tickets_value file_live_def image_iff split: option.splits)

lemma live_tickets_sorted: "sorted (map lv_seq (fst (live_tickets alive now fs)))"
  by (auto simp: live_tickets_def case_prod_beta intro: seq_order.sorted_js_sort)

lemma live_of_simps [simp]:
  "lv_name (live_of f t) = tf_name f" "lv_seq (live_of f t) = parse_seq (tf_name f)"
  "tk_pid (live_of f t) = tk_pid t" "tk_cls (live_of f t) = tk_cls t" "tk_place (live_of f t) = tk_place t"
  "tk_cancel (live_of f t) = tk_cancel t" "tk_holding (live_of f t) = tk_holding t"
  by (simp_all add: live_of_def ticket.defs)

lemma seq_of_name:
  assumes "0 \<le> t" and "t < 10 ^ 16"
  shows "parse_seq (seq_name t pid tail) = nat t"
proof -
  let ?p = "pad_start 16 (CHR ''0'') (nat_str (nat t))"
  have "list_all is_digit ?p" by (rule pad_nat_str_digits)
  then have "takeWhile is_digit (?p @ CHR ''.'' # r) = ?p" "dropWhile is_digit (?p @ CHR ''.'' # r) = CHR ''.'' # r" for r
    by (simp_all add: takeWhile_append2 list_all_iff dropWhile_append2 is_digit_def)
  moreover have "?p \<noteq> []" by (simp add: pad_start_def)
  ultimately show ?thesis
    by (simp add: parse_seq_def seq_name_def starts_with_def digits_val_pad digits_val_nat_str)
qed

section \<open>Admission\<close>

definition waiter_for :: "live \<Rightarrow> waiter" where
  "waiter_for t = \<lparr>wa_name = lv_name t, wa_pid = tk_pid t, wa_rank = class_rank (tk_cls t), wa_seq = lv_seq t,
     wa_cls = tk_cls t, wa_taskId = tk_taskId t, wa_phase = tk_phase t, wa_model = tk_model t\<rparr>"

lemma touch_live:
  assumes "f \<in> set fs" and "tf_name f = name" and "file_live alive now f" and "distinct (map tf_name fs)"
  shows "live_tickets alive now (touch now name fs) =
           (fst (live_tickets alive now fs), touch now name (snd (live_tickets alive now fs)))"
proof -
  have same: "g = f" if "g \<in> set fs" "tf_name g = name" for g
    using that assms(1,2,4) by (auto dest: inj_onD simp: distinct_map)
  have live: "file_live alive now (if tf_name g = name then g\<lparr>tf_mtime := now\<rparr> else g) = file_live alive now g" if "g \<in> set fs" for g
    using same [OF that] assms(3) by (auto simp: file_live_def TICKET_STALE_MS_def split: option.splits)
  have scan: "scan_tickets alive now (touch now name gs) =
      (fst (scan_tickets alive now gs), touch now name (snd (scan_tickets alive now gs)))" if "set gs \<subseteq> set fs" for gs
    using that live
    by (induction gs) (auto simp: scan_tickets_value touch_def live_of_def ticket.defs)
  show ?thesis using scan [of fs] by (simp add: live_tickets_def case_prod_beta)
qed

text \<open>The best ticket: the smallest class, and the earliest of that class.\<close>

lemma best_ticket:
  fixes ts :: "live list"
  assumes "ts \<noteq> []"
  obtains t where "t \<in> set ts" and "\<forall>u\<in>set ts. (class_rank (tk_cls t), lv_seq t) \<le> (class_rank (tk_cls u), lv_seq u)"
proof -
  let ?k = "\<lambda>t :: live. (class_rank (tk_cls t), lv_seq t)"
  have "?k (arg_min_list ?k ts) \<le> ?k u" if "u \<in> set ts" for u
    unfolding f_arg_min_list_f [OF assms, of ?k] using that by (intro Min_le) auto
  with arg_min_list_in [OF assms, of ?k] show thesis using that by blast
qed

lemma best_not_blocked:
  fixes ts :: "live list"
  assumes "\<forall>u\<in>set ts. (class_rank (tk_cls t), lv_seq t) \<le> (class_rank (tk_cls u), lv_seq u)"
  shows "\<forall>u\<in>set ts. \<not> blocks (waiter_for t) u"
  using assms by (auto simp: blocks_def waiter_for_def less_eq_prod_def)

lemma slot_admitted:
  assumes "slot_poll alive now dl w fs = (Admitted, fs')"
  shows "now < dl" and "\<not> (\<exists>t\<in>set (fst (live_tickets alive now (touch now (wa_name w) fs))). blocks w t)"
  using assms by (auto simp: slot_poll_def Let_def split: if_splits prod.splits option.splits)

section \<open>Properties\<close>


definition demo_ticket :: "nat \<Rightarrow> string \<Rightarrow> string \<Rightarrow> ticket_file" where
  "demo_ticket pid cls name = \<lparr>tf_name = name, tf_mtime = 1000, tf_body = Some \<lparr>tk_pid = pid, tk_cls = cls, tk_taskId = None,
     tk_phase = None, tk_model = None, tk_startedAt = 1000, tk_holding = False, tk_cancel = False, tk_place = False, tk_ownerPid = None\<rparr>\<rparr>"

definition demo_tdir :: tdir where
  "demo_tdir = [demo_ticket 8 ''draft'' ''5.8.json'', demo_ticket 9 ''review'' ''6.9.json'']"

definition demo_waiter :: waiter where
  "demo_waiter = \<lparr>wa_name = ''6.9.json'', wa_pid = 9, wa_rank = 1, wa_seq = 6, wa_cls = ''review'', wa_taskId = None, wa_phase = None, wa_model = None\<rparr>"

lemma demo_admitted: "fst (slot_poll (\<lambda>_. True) 2000 9000 demo_waiter demo_tdir) = Admitted"
  by code_simp


text \<open>The arbiter never blocks everybody. Whatever the live tickets are, if none is cancelled, one of
  their owners (the earliest of the best class) is admitted by its next round, so a waiter can only wait
  for a ticket that is itself live.\<close>

theorem some_ticket_admitted:
  assumes "distinct (map tf_name fs)" and "fst (live_tickets alive now fs) \<noteq> []" and "now < dl"
    and "\<forall>t\<in>set (fst (live_tickets alive now fs)). \<not> tk_cancel t"
  shows "\<exists>t\<in>set (fst (live_tickets alive now fs)). fst (slot_poll alive now dl (waiter_for t) fs) = Admitted"
proof -
  obtain t where t: "t \<in> set (fst (live_tickets alive now fs))"
    and best: "\<forall>u\<in>set (fst (live_tickets alive now fs)). (class_rank (tk_cls t), lv_seq t) \<le> (class_rank (tk_cls u), lv_seq u)"
    using best_ticket [OF assms(2)] by blast
  obtain f where f: "f \<in> set fs" "file_live alive now f" "tf_name f = lv_name t"
    using t by (auto simp: live_tickets_set)
  have live: "fst (live_tickets alive now (touch now (lv_name t) fs)) = fst (live_tickets alive now fs)"
    by (simp add: touch_live [OF f(1,3,2) assms(1)])
  have "find (\<lambda>u. lv_name u = lv_name t) (fst (live_tickets alive now fs)) \<noteq> None"
    using t by (auto simp: find_None_all)
  then obtain m where m: "find (\<lambda>u. lv_name u = lv_name t) (fst (live_tickets alive now fs)) = Some m" by blast
  then have "\<not> tk_cancel m" using assms(4) find_Some_in by fastforce
  moreover have "wa_name (waiter_for t) = lv_name t" by (simp add: waiter_for_def)
  ultimately have "fst (slot_poll alive now dl (waiter_for t) fs) = Admitted"
    using assms(3) live m best_not_blocked [OF best] by (simp add: slot_poll_def case_prod_beta Let_def)
  with t show ?thesis by blast
qed

theorem some_ticket_admitted_witness:
  "\<exists>t\<in>set (fst (live_tickets (\<lambda>_. True) 2000 demo_tdir)). fst (slot_poll (\<lambda>_. True) 2000 9000 (waiter_for t) demo_tdir) = Admitted"
proof (rule some_ticket_admitted)
  show "distinct (map tf_name demo_tdir)" by code_simp
  show "fst (live_tickets (\<lambda>_. True) 2000 demo_tdir) \<noteq> []" by code_simp
  show "\<forall>t\<in>set (fst (live_tickets (\<lambda>_. True) 2000 demo_tdir)). \<not> tk_cancel t" by code_simp
qed simp

lemma patch_ticket_other: "tf_name f \<noteq> n \<Longrightarrow> f \<in> set (patch_ticket now n upd fs) \<longleftrightarrow> f \<in> set fs"
  by (auto simp: patch_ticket_def write_ticket_def safe_unlink_def split: option.splits)

lemma patch_all_other:
  "tf_name f \<notin> lv_name ` set ts \<Longrightarrow> f \<in> set (fold (\<lambda>t. patch_ticket now (lv_name t) upd) ts fs) \<longleftrightarrow> f \<in> set fs"
  by (induction ts arbitrary: fs) (auto simp: patch_ticket_other)

definition cancelled_in :: "tdir \<Rightarrow> string \<Rightarrow> bool" where
  "cancelled_in fs name \<longleftrightarrow> (\<exists>f b. find (\<lambda>f. tf_name f = name) fs = Some f \<and> tf_body f = Some b \<and> tk_cancel b)"

lemma find_patched:
  "find (\<lambda>f. tf_name f = m) (patch_ticket now n upd fs) =
     (if m = n then (case find (\<lambda>f. tf_name f = n) fs of
                       Some f \<Rightarrow> (case tf_body f of Some t \<Rightarrow> Some \<lparr>tf_name = n, tf_mtime = now, tf_body = Some (upd t)\<rparr> | None \<Rightarrow> Some f)
                     | None \<Rightarrow> None)
      else find (\<lambda>f. tf_name f = m) fs)"
proof -
  have gone: "find (\<lambda>f. tf_name f = m) (safe_unlink n gs @ [g]) =
      (if m = n then (if tf_name g = n then Some g else None)
       else case find (\<lambda>f. tf_name f = m) gs of Some f \<Rightarrow> Some f | None \<Rightarrow> if tf_name g = m then Some g else None)" for gs g m n
    by (induction gs) (auto simp: safe_unlink_def)
  show ?thesis
    by (auto simp: patch_ticket_def write_ticket_def gone split: option.splits)
qed

lemma cancel_all_marks:
  assumes "\<forall>t\<in>set ts. \<exists>f b. find (\<lambda>f. tf_name f = lv_name t) fs = Some f \<and> tf_body f = Some b"
  shows "\<forall>t\<in>set ts. cancelled_in (fold (\<lambda>t. patch_ticket now (lv_name t) (\<lambda>b. b\<lparr>tk_cancel := True\<rparr>)) ts fs) (lv_name t)"
proof -
  have keep: "cancelled_in (fold (\<lambda>t. patch_ticket now (lv_name t) (\<lambda>b. b\<lparr>tk_cancel := True\<rparr>)) us gs) n" if "cancelled_in gs n" for us gs n
  proof -
    have one: "cancelled_in (patch_ticket now m (\<lambda>b. b\<lparr>tk_cancel := True\<rparr>) hs) n" if "cancelled_in hs n" for hs m
      using that by (auto simp: cancelled_in_def find_patched)
    show ?thesis using that by (induction us arbitrary: gs) (simp_all add: one)
  qed
  show ?thesis using assms
  proof (induction ts arbitrary: fs)
    case Nil
    then show ?case by simp
  next
    case (Cons t ts)
    let ?p = "patch_ticket now (lv_name t) (\<lambda>b. b\<lparr>tk_cancel := True\<rparr>) fs"
    have "cancelled_in ?p (lv_name t)" using Cons.prems by (auto simp: cancelled_in_def find_patched)
    moreover have "\<forall>u\<in>set ts. \<exists>f b. find (\<lambda>f. tf_name f = lv_name u) ?p = Some f \<and> tf_body f = Some b"
      using Cons.prems by (auto simp: find_patched)
    ultimately show ?case using Cons.IH [of ?p] keep by auto
  qed
qed

lemma find_by_name:
  assumes "distinct (map tf_name fs)" and "f \<in> set fs"
  shows "find (\<lambda>g. tf_name g = tf_name f) fs = Some f"
  using assms by (induction fs) (auto simp: image_iff)

lemma live_tickets_kept:
  "snd (live_tickets alive now fs) = filter (\<lambda>f. ends_with ''.json'' (tf_name f) \<longrightarrow> file_live alive now f) fs"
  by (simp add: live_tickets_def scan_tickets_value case_prod_beta)

text \<open>Cancelling reaches exactly the lower classes. Every live ticket of a lower class is marked as
  cancelled, the file of every live ticket of the caller's class or better is untouched, and only a
  holder of a lower class in another process is ever killed.\<close>

theorem cancel_exactly_below:
  assumes "cancel_below alive now self cls alive2 can_kill fs = (out, fs')" and "distinct (map tf_name fs)"
    and "f \<in> set fs" and "ends_with ''.json'' (tf_name f)" and "file_live alive now f" and "tf_body f = Some b"
  shows "(class_rank cls < class_rank (tk_cls b) \<longrightarrow> cancelled_in fs' (tf_name f))
         \<and> (class_rank (tk_cls b) \<le> class_rank cls \<longrightarrow> f \<in> set fs')
         \<and> (\<forall>a\<in>set out. class_rank cls < class_rank (af_cls a) \<and> (af_action a = Killed \<longrightarrow> af_holding a \<and> af_pid a \<noteq> self))"
proof -
  let ?kept = "snd (live_tickets alive now fs)"
  let ?below = "filter (\<lambda>t. class_rank cls < class_rank (tk_cls t)) (fst (live_tickets alive now fs))"
  have out: "out = map (\<lambda>t. \<lparr>af_pid = tk_pid t, af_cls = tk_cls t, af_taskId = tk_taskId t, af_holding = tk_holding t,
        af_action = cancel_action_of self alive2 can_kill t\<rparr>) ?below"
    and fs': "fs' = fold (\<lambda>t. patch_ticket now (lv_name t) (\<lambda>b. b\<lparr>tk_cancel := True\<rparr>)) ?below ?kept"
    using assms(1) by (auto simp: cancel_below_def case_prod_beta Let_def)
  have dk: "distinct (map tf_name ?kept)" using assms(2) by (simp add: live_tickets_kept distinct_map_filter)
  have in_kept: "g \<in> set ?kept" if "g \<in> set fs" "file_live alive now g" for g
    using that by (simp add: live_tickets_kept)
  have readable: "\<forall>t\<in>set ?below. \<exists>g c. find (\<lambda>h. tf_name h = lv_name t) ?kept = Some g \<and> tf_body g = Some c"
    using find_by_name [OF dk] in_kept by (fastforce simp: live_tickets_set)
  have mine: "live_of f b \<in> set (fst (live_tickets alive now fs))" using assms(3-6) by (auto simp: live_tickets_set)
  have "cancelled_in fs' (tf_name f)" if "class_rank cls < class_rank (tk_cls b)"
    using cancel_all_marks [OF readable, of now] mine that unfolding fs' by force
  moreover have "f \<in> set fs'" if "class_rank (tk_cls b) \<le> class_rank cls"
  proof -
    have "tf_name f \<notin> lv_name ` set ?below"
    proof
      assume "tf_name f \<in> lv_name ` set ?below"
      then obtain g c where g: "g \<in> set fs" "tf_body g = Some c" "tf_name g = tf_name f" "class_rank cls < class_rank (tk_cls c)"
        by (auto simp: live_tickets_set)
      then have "g = f" using assms(2,3) by (auto dest: inj_onD simp: distinct_map)
      with g assms(6) that show False by simp
    qed
    then show ?thesis unfolding fs' using patch_all_other in_kept [OF assms(3,5)] by blast
  qed
  moreover have "class_rank cls < class_rank (af_cls a) \<and> (af_action a = Killed \<longrightarrow> af_holding a \<and> af_pid a \<noteq> self)"
    if "a \<in> set out" for a
    using that unfolding out by (auto simp: cancel_action_of_def split: if_splits)
  ultimately show ?thesis by blast
qed

theorem cancel_exactly_below_witness:
  "cancelled_in (snd (cancel_below (\<lambda>_. True) 2000 1 ''review'' (\<lambda>_. True) (\<lambda>_. True) demo_tdir)) ''5.8.json''"
proof -
  let ?f = "demo_ticket 8 ''draft'' ''5.8.json''"
  have "cancel_below (\<lambda>_. True) 2000 1 ''review'' (\<lambda>_. True) (\<lambda>_. True) demo_tdir =
      (fst (cancel_below (\<lambda>_. True) 2000 1 ''review'' (\<lambda>_. True) (\<lambda>_. True) demo_tdir), snd (cancel_below (\<lambda>_. True) 2000 1 ''review'' (\<lambda>_. True) (\<lambda>_. True) demo_tdir))" by simp
  moreover have "distinct (map tf_name demo_tdir)" "?f \<in> set demo_tdir" by (simp_all add: demo_tdir_def demo_ticket_def)
  moreover have "ends_with ''.json'' (tf_name ?f)" "file_live (\<lambda>_. True) 2000 ?f" "tf_body ?f = Some (the (tf_body ?f))" "class_rank ''review'' < class_rank (tk_cls (the (tf_body ?f)))"
    by code_simp+
  ultimately have "cancelled_in (snd (cancel_below (\<lambda>_. True) 2000 1 ''review'' (\<lambda>_. True) (\<lambda>_. True) demo_tdir)) (tf_name ?f)"
    by (rule cancel_exactly_below [THEN conjunct1, THEN mp])
  then show ?thesis by (simp add: demo_ticket_def)
qed

end
