(* ===== verification/WorkflowSplit.thy ===== *)
theory WorkflowSplit
  imports JsObject
begin

text \<open>
  \<open>src/workflow-split.js\<close>: one loop node of the workflow graph is replaced by several smaller ones. The
  graph and the parts are arbitrary values; a member access on \<open>null\<close> or \<open>undefined\<close> throws, and
  \<open>splitNode\<close> turns that into an error of its own (\<open>SplitFailed\<close>). An error's wording is the
  constructor of \<open>split_error\<close> with the values the message quotes.
\<close>

definition PROVIDERS :: "string list" where
  "PROVIDERS = [''local'', ''cloud'', ''script'']"

datatype split_error =
    NoGraph
  | UnknownNode jv
  | NotALoop jv
  | TooFewParts
  | PartNotObject
  | PartBadId
  | PartRepeatsId string
  | PartIsNode string
  | PartBadProvider string
  | PartBadClasses string
  | OrphanedClasses "jv list"
  | SplitFailed

fun check_part_list :: "jv list \<Rightarrow> string list \<Rightarrow> jv list \<Rightarrow> split_error option" where
  "check_part_list node_ids seen [] = None"
| "check_part_list node_ids seen (p # ps) =
     (let pid = str_of (jget p ''id''); model = jget p ''model''; tc = jget p ''taskClasses''
      in if \<not> is_object p then Some PartNotObject
         else if \<not> is_string (jget p ''id'') \<or> pid = [] then Some PartBadId
         else if pid \<in> set seen then Some (PartRepeatsId pid)
         else if JStr pid \<in> set node_ids then Some (PartIsNode pid)
         else if \<not> nullish model \<and> \<not> (is_string (jget model ''provider'') \<and> str_of (jget model ''provider'') \<in> set PROVIDERS)
         then Some (PartBadProvider pid)
         else if \<not> nullish tc \<and> \<not> is_array tc then Some (PartBadClasses pid)
         else check_part_list node_ids (pid # seen) ps)"

definition check_parts :: "jv \<Rightarrow> jv list \<Rightarrow> split_error option" where
  "check_parts parts node_ids =
     (if \<not> is_array parts \<or> length (elems parts) < 2 then Some TooFewParts
      else check_part_list node_ids [] (elems parts))"

definition orphaned_classes :: "jv \<Rightarrow> jv list \<Rightarrow> jv list" where
  "orphaned_classes original parts =
     (let orig = jget (jget original ''work'') ''taskClasses''
      in if \<not> is_array orig then []
         else if \<exists>p\<in>set parts. nullish (jget p ''taskClasses'') then []
         else let covered = concat (map (\<lambda>p. elems (jget p ''taskClasses'')) parts)
              in filter (\<lambda>c. \<not> has_value covered c) (elems orig))"

definition undef_to_null :: "jv \<Rightarrow> jv" where
  "undef_to_null v = (if v = JUndef then JNull else v)"

definition nullish_to_null :: "jv \<Rightarrow> jv" where
  "nullish_to_null v = (if nullish v then JNull else v)"

definition part_model :: "jv \<Rightarrow> jv" where
  "part_model m =
     (if nullish m then JNull
      else JObj [(''name'', nullish_to_null (jget m ''name'')), (''provider'', jget m ''provider''), (''tierB'', JNull),
                 (''overridden'', JBool False), (''choices'', JObj [(''local'', JArr []), (''cloud'', JArr [])])])"

definition build_part :: "jv \<Rightarrow> jv \<Rightarrow> jv" where
  "build_part original p =
     (let work = (if truthy (jget original ''work'') then jget original ''work'' else JObj []); tc = jget p ''taskClasses''
      in JObj [(''id'', jget p ''id''), (''kind'', JStr ''loop''),
         (''label'', if is_string (jget p ''label'') \<and> str_of (jget p ''label'') \<noteq> [] then jget p ''label'' else jget p ''id''),
         (''parent'', nullish_to_null (jget original ''parent'')), (''runtime'', JNull),
         (''model'', part_model (jget p ''model'')),
         (''work'', JObj [(''taskClasses'', if nullish tc then JNull else JArr (elems tc)),
                          (''preempt'', undef_to_null (jget work ''preempt'')), (''reviewer'', undef_to_null (jget work ''reviewer''))]),
         (''counts'', JNull)])"

section \<open>Edges\<close>

definition touches :: "jv \<Rightarrow> jv \<Rightarrow> bool" where
  "touches nid e \<longleftrightarrow> strict_eq (jget e ''from'') nid \<or> strict_eq (jget e ''to'') nid"

definition edge_obj :: "jv \<Rightarrow> jv \<Rightarrow> jv \<Rightarrow> jv \<Rightarrow> jv" where
  "edge_obj f t k l = JObj [(''id'', JStr (edge_id f t k)), (''from'', f), (''to'', t), (''kind'', k), (''label'', undef_to_null l)]"

definition add_edge :: "jv list \<times> jv list \<Rightarrow> jv \<Rightarrow> jv list \<times> jv list" where
  "add_edge acc e = (if has_value (snd acc) (id_of e) then acc else (fst acc @ [e], snd acc @ [id_of e]))"

definition part_edge :: "jv \<Rightarrow> jv \<Rightarrow> jv \<Rightarrow> jv" where
  "part_edge nid e p =
     (let sub = (\<lambda>v. if strict_eq v nid then jget p ''id'' else v)
      in edge_obj (sub (jget e ''from'')) (sub (jget e ''to'')) (jget e ''kind'') (jget e ''label''))"

definition edge_copies :: "jv \<Rightarrow> jv list \<Rightarrow> jv \<Rightarrow> jv list" where
  "edge_copies nid parts e = (if touches nid e then map (part_edge nid e) parts else [e])"

definition rewire_edges :: "jv list \<Rightarrow> jv \<Rightarrow> jv list \<Rightarrow> jv list" where
  "rewire_edges edges nid parts = js_sort by_id (fst (foldl add_edge ([], []) (concat (map (edge_copies nid parts) edges))))"

section \<open>The split\<close>

definition split_group :: "jv \<Rightarrow> jv list \<Rightarrow> jv \<Rightarrow> jv" where
  "split_group nid parts g =
     (if is_array (jget g ''children'')
      then obj_put (spread g) ''children''
             (JArr (concat (map (\<lambda>c. if strict_eq c nid then map id_of parts else [c]) (elems (jget g ''children'')))))
      else g)"

definition node_ref :: "jv \<Rightarrow> jv" where
  "node_ref n = (if truthy n then jget n ''id'' else n)"

definition split_node :: "jv \<Rightarrow> jv \<Rightarrow> jv \<Rightarrow> split_error + jv" where
  "split_node graph nid parts =
     (let nodes = elems (jget graph ''nodes''); edges = elems (jget graph ''edges''); groups = jget graph ''groups''
      in if \<not> is_object graph \<or> \<not> is_array (jget graph ''nodes'') \<or> \<not> is_array (jget graph ''edges'') then Inl NoGraph
         else case find (\<lambda>n. truthy n \<and> strict_eq (jget n ''id'') nid) nodes of
           None \<Rightarrow> Inl (UnknownNode nid)
         | Some original \<Rightarrow>
             if jget original ''kind'' \<noteq> JStr ''loop'' then Inl (NotALoop nid)
             else case check_parts parts (map node_ref nodes) of
               Some err \<Rightarrow> Inl err
             | None \<Rightarrow>
                 let ps = elems parts; orphans = orphaned_classes original ps
                 in if orphans \<noteq> [] then Inl (OrphanedClasses orphans)
                    else if list_ex nullish nodes \<or> list_ex nullish edges \<or> (is_array groups \<and> list_ex nullish (elems groups))
                    then Inl SplitFailed
                    else
                      let nodes' = js_sort by_kind_then_id
                            (filter (\<lambda>n. \<not> strict_eq (jget n ''id'') nid) nodes @ map (build_part original) ps);
                          result = obj_put (obj_put (spread graph) ''nodes'' (JArr nodes')) ''edges'' (JArr (rewire_edges edges nid ps))
                      in Inr (if is_array groups
                              then obj_put result ''groups'' (JArr (map (split_group nid ps) (elems groups)))
                              else result))"

section \<open>What a successful split is\<close>

definition split_target :: "jv \<Rightarrow> jv \<Rightarrow> jv option" where
  "split_target graph nid = find (\<lambda>n. truthy n \<and> strict_eq (id_of n) nid) (nodes_of graph)"

lemma split_node_ok:
  assumes "split_node graph nid parts = Inr g"
  obtains original where "split_target graph nid = Some original" "check_parts parts (map node_ref (nodes_of graph)) = None"
    "orphaned_classes original (elems parts) = []" "\<forall>n\<in>set (nodes_of graph). \<not> nullish n"
    "nodes_of g = js_sort by_kind_then_id (filter (\<lambda>n. \<not> strict_eq (id_of n) nid) (nodes_of graph) @ map (build_part original) (elems parts))"
    "edges_of g = rewire_edges (edges_of graph) nid (elems parts)"
proof -
  from assms obtain original where o: "split_target graph nid = Some original"
    by (auto simp: split_node_def Let_def split_target_def nodes_of_def id_of_def split: if_splits option.splits)
  have "check_parts parts (map node_ref (nodes_of graph)) = None" "orphaned_classes original (elems parts) = []"
    "\<not> list_ex nullish (nodes_of graph)"
    using assms o by (auto simp: split_node_def Let_def split_target_def nodes_of_def id_of_def split: if_splits option.splits)
  moreover have "jget g ''nodes'' = JArr (js_sort by_kind_then_id
      (filter (\<lambda>n. \<not> strict_eq (id_of n) nid) (nodes_of graph) @ map (build_part original) (elems parts)))"
    using assms o by (auto simp: split_node_def Let_def split_target_def nodes_of_def id_of_def jget_put split: if_splits option.splits)
  moreover have "jget g ''edges'' = JArr (rewire_edges (edges_of graph) nid (elems parts))"
    using assms o by (auto simp: split_node_def Let_def split_target_def nodes_of_def edges_of_def id_of_def jget_put
      split: if_splits option.splits)
  ultimately show ?thesis using o by (intro that) (auto simp: nodes_of_def edges_of_def list_ex_iff)
qed

lemma id_build_part [simp]: "id_of (build_part original p) = id_of p"
  by (simp add: id_of_def build_part_def Let_def)

lemma check_part_list_ids:
  "check_part_list ids seen ps = None \<Longrightarrow>
   distinct (map id_of ps) \<and> (\<forall>p\<in>set ps. \<exists>s. id_of p = JStr s \<and> s \<notin> set seen \<and> JStr s \<notin> set ids)"
proof (induction ps arbitrary: seen)
  case Nil
  then show ?case by simp
next
  case (Cons p ps)
  let ?s = "str_of (id_of p)"
  have s: "id_of p = JStr ?s" "?s \<notin> set seen" "JStr ?s \<notin> set ids" and rest: "check_part_list ids (?s # seen) ps = None"
    using Cons.prems by (cases "jget p ''id''"; simp add: id_of_def Let_def split: if_splits)+
  note IH = Cons.IH [OF rest]
  have "id_of p \<notin> set (map id_of ps)"
  proof
    assume "id_of p \<in> set (map id_of ps)"
    then obtain q where "q \<in> set ps" "id_of q = id_of p" by auto
    moreover from this IH obtain t where "id_of q = JStr t" "t \<notin> set (?s # seen)" by blast
    ultimately show False by (metis str_of.simps(1) list.set_intros(1))
  qed
  with IH s show ?case by auto
qed

lemma jget_str_truthy: "jget n k = JStr s \<Longrightarrow> truthy n"
  by (cases n) simp_all

lemma strict_eq_str [simp]: "strict_eq (JStr s) v \<longleftrightarrow> v = JStr s"
  by auto

lemma target_in: "split_target graph nid = Some n \<Longrightarrow> n \<in> set (nodes_of graph) \<and> truthy n \<and> id_of n = nid"
  by (auto simp: split_target_def dest!: find_Some_in strict_eq_imp)

lemma parts_fresh:
  assumes "split_node graph nid parts = Inr g" and "p \<in> set (elems parts)"
  shows "is_string (id_of p)" and "id_of p \<noteq> nid" and "id_of p \<notin> id_of ` set (nodes_of graph)"
proof -
  obtain original where o: "split_target graph nid = Some original" "check_parts parts (map node_ref (nodes_of graph)) = None"
    "\<forall>n\<in>set (nodes_of graph). \<not> nullish n" using split_node_ok [OF assms(1)] by metis
  from o(2) have "check_part_list (map node_ref (nodes_of graph)) [] (elems parts) = None"
    by (simp add: check_parts_def split: if_splits)
  from check_part_list_ids [OF this] assms(2) obtain s where s: "id_of p = JStr s" "JStr s \<notin> node_ref ` set (nodes_of graph)" by auto
  have "node_ref original = id_of original" using target_in [OF o(1)] by (simp add: node_ref_def id_of_def)
  with target_in [OF o(1)] s show "id_of p \<noteq> nid" by force
  show "is_string (id_of p)" using s by simp
  show "id_of p \<notin> id_of ` set (nodes_of graph)"
  proof
    assume "id_of p \<in> id_of ` set (nodes_of graph)"
    then obtain n where n: "n \<in> set (nodes_of graph)" "id_of n = JStr s" using s by auto
    then have "node_ref n = JStr s" by (simp add: node_ref_def id_of_def jget_str_truthy)
    with n(1) s(2) show False by force
  qed
qed

lemma parts_distinct: "split_node graph nid parts = Inr g \<Longrightarrow> distinct (map id_of (elems parts)) \<and> 2 \<le> length (elems parts)"
proof -
  assume "split_node graph nid parts = Inr g"
  then have "check_parts parts (map node_ref (nodes_of graph)) = None" by (elim split_node_ok)
  then have "check_part_list (map node_ref (nodes_of graph)) [] (elems parts) = None" "2 \<le> length (elems parts)"
    by (simp_all add: check_parts_def split: if_splits)
  then show ?thesis using check_part_list_ids by blast
qed

section \<open>Edges of the split graph\<close>

lemma add_edges_inv:
  assumes "snd acc = map id_of (fst acc)" and "\<forall>e\<in>set es. is_string (id_of e)"
    and "\<forall>e\<in>set (fst acc). is_string (id_of e)" and "distinct (map id_of (fst acc))"
  shows "distinct (map id_of (fst (foldl add_edge acc es)))"
    and "id_of ` set (fst (foldl add_edge acc es)) = id_of ` set (fst acc) \<union> id_of ` set es"
    and "set (fst (foldl add_edge acc es)) \<subseteq> set (fst acc) \<union> set es"
proof -
  have "distinct (map id_of (fst (foldl add_edge acc es)))
     \<and> id_of ` set (fst (foldl add_edge acc es)) = id_of ` set (fst acc) \<union> id_of ` set es
     \<and> set (fst (foldl add_edge acc es)) \<subseteq> set (fst acc) \<union> set es"
    using assms
  proof (induction es arbitrary: acc)
    case Nil
    then show ?case by simp
  next
    case (Cons e es)
    obtain s where s: "id_of e = JStr s" using Cons.prems(2) by (cases "id_of e") auto
    show ?case
    proof (cases "JStr s \<in> set (map id_of (fst acc))")
      case True
      then have "add_edge acc e = acc" using Cons.prems(1) by (simp add: add_edge_def s)
      moreover have "id_of e \<in> id_of ` set (fst acc)" using True s by auto
      ultimately show ?thesis using Cons.IH [of acc] Cons.prems by (auto simp: insert_absorb)
    next
      case False
      then have a: "add_edge acc e = (fst acc @ [e], snd acc @ [id_of e])" using Cons.prems(1) by (simp add: add_edge_def s)
      have "distinct (map id_of (fst acc @ [e]))" using False Cons.prems(4) s by simp
      with Cons.IH [of "add_edge acc e"] Cons.prems a show ?thesis by auto
    qed
  qed
  then show "distinct (map id_of (fst (foldl add_edge acc es)))"
    and "id_of ` set (fst (foldl add_edge acc es)) = id_of ` set (fst acc) \<union> id_of ` set es"
    and "set (fst (foldl add_edge acc es)) \<subseteq> set (fst acc) \<union> set es" by blast+
qed

lemma edge_copies_ids: "\<forall>e\<in>set es. is_string (id_of e) \<Longrightarrow> \<forall>x\<in>set (concat (map (edge_copies nid ps) es)). is_string (id_of x)"
  by (auto simp: edge_copies_def part_edge_def edge_obj_def id_of_def Let_def split: if_splits)

lemma rewire_ids:
  assumes "\<forall>e\<in>set es. is_string (id_of e)"
  shows "distinct (map id_of (rewire_edges es nid ps))"
    and "id_of ` set (rewire_edges es nid ps) = (\<Union>e\<in>set es. id_of ` set (edge_copies nid ps e))"
  using add_edges_inv [of "([], [])" "concat (map (edge_copies nid ps) es)"] edge_copies_ids [OF assms]
  by (auto simp: rewire_edges_def)

lemma add_edges_subset: "set (fst (foldl add_edge acc es)) \<subseteq> set (fst acc) \<union> set es"
proof (induction es arbitrary: acc)
  case Nil
  then show ?case by simp
next
  case (Cons e es)
  have "set (fst (add_edge acc e)) \<subseteq> set (fst acc) \<union> {e}" by (auto simp: add_edge_def)
  with Cons.IH [of "add_edge acc e"] show ?case by auto
qed

lemma rewire_subset: "set (rewire_edges es nid ps) \<subseteq> (\<Union>e\<in>set es. set (edge_copies nid ps e))"
  using add_edges_subset [of "([], [])" "concat (map (edge_copies nid ps) es)"] by (simp add: rewire_edges_def)

section \<open>Properties\<close>

text \<open>A split replaces exactly one node: the graph keeps every other node, loses every node with the split id
  and gains one node per part, whose ids are new and distinct; there are at least two parts.\<close>

theorem split_replaces_node:
  assumes "split_node graph nid parts = Inr g"
  shows "mset (map id_of (nodes_of g)) = mset (filter (\<lambda>i. i \<noteq> nid) (map id_of (nodes_of graph))) + mset (map id_of (elems parts))
     \<and> nid \<in> set (map id_of (nodes_of graph)) \<and> nid \<notin> set (map id_of (nodes_of g))
     \<and> distinct (map id_of (elems parts)) \<and> 2 \<le> length (elems parts)
     \<and> set (map id_of (elems parts)) \<inter> set (map id_of (nodes_of graph)) = {}"
proof -
  obtain original where o: "split_target graph nid = Some original"
    and n: "nodes_of g = js_sort by_kind_then_id (filter (\<lambda>n. \<not> strict_eq (id_of n) nid) (nodes_of graph) @ map (build_part original) (elems parts))"
    using split_node_ok [OF assms] by metis
  have self: "strict_eq nid nid"
    using o find_Some_in [of _ "nodes_of graph" original] strict_eq_imp unfolding split_target_def by blast
  then have eq: "strict_eq i nid \<longleftrightarrow> i = nid" for i using strict_eq_imp by blast
  have "mset (map id_of (nodes_of g))
      = mset (map id_of (filter (\<lambda>n. id_of n \<noteq> nid) (nodes_of graph))) + mset (map id_of (elems parts))"
    unfolding n eq by (simp add: multiset.map_comp comp_def)
  also have "map id_of (filter (\<lambda>n. id_of n \<noteq> nid) (nodes_of graph)) = filter (\<lambda>i. i \<noteq> nid) (map id_of (nodes_of graph))"
    by (simp add: filter_map comp_def)
  finally have m: "mset (map id_of (nodes_of g))
      = mset (filter (\<lambda>i. i \<noteq> nid) (map id_of (nodes_of graph))) + mset (map id_of (elems parts))" .
  have "set (map id_of (elems parts)) \<inter> set (map id_of (nodes_of graph)) = {}" "nid \<notin> set (map id_of (elems parts))"
    using parts_fresh [OF assms] by fastforce+
  moreover from this have "nid \<notin> set (map id_of (nodes_of g))" using arg_cong [OF m, of set_mset] by auto
  ultimately show ?thesis using m parts_distinct [OF assms] target_in [OF o] by auto
qed

text \<open>Every connection survives the split and none is invented: when the graph's edges have string names, the
  edges of the result are named exactly as the edges that did not touch the node and the copies of the others,
  one per part; no name is used twice and no edge touches the split node any more.\<close>

theorem split_rewires_edges:
  assumes "split_node graph nid parts = Inr g" and "\<forall>e\<in>set (edges_of graph). is_string (id_of e)"
  shows "distinct (map id_of (edges_of g))
     \<and> set (map id_of (edges_of g)) = (\<Union>e\<in>set (edges_of graph). set (map id_of (edge_copies nid (elems parts) e)))
     \<and> (\<forall>e\<in>set (edges_of g). \<not> touches nid e)"
proof -
  have e: "edges_of g = rewire_edges (edges_of graph) nid (elems parts)" using split_node_ok [OF assms(1)] by metis
  have "\<not> touches nid x" if x: "x \<in> set (edge_copies nid (elems parts) y)" for x y
  proof (cases "touches nid y")
    case True
    then obtain p where p: "p \<in> set (elems parts)" "x = part_edge nid y p" using x by (auto simp: edge_copies_def)
    then have "\<not> strict_eq (id_of p) nid" using parts_fresh(2) [OF assms(1)] strict_eq_imp by blast
    then show ?thesis by (auto simp: p(2) touches_def part_edge_def edge_obj_def Let_def id_of_def split: if_splits)
  qed (use x in \<open>auto simp: edge_copies_def\<close>)
  then show ?thesis using rewire_ids [OF assms(2)] rewire_subset [of "edges_of graph" nid "elems parts"] unfolding e by auto
qed

definition claims_class :: "jv \<Rightarrow> jv \<Rightarrow> bool" where
  "claims_class n c \<longleftrightarrow> (let tc = jget (jget n ''work'') ''taskClasses'' in nullish tc \<or> has_value (elems tc) c)"

text \<open>C14: No task class loses its worker: whatever the split loop claimed by a fixed list is claimed by one of the
  nodes that replace it.\<close>

theorem split_keeps_classes:
  assumes "split_node graph nid parts = Inr g" and "split_target graph nid = Some original"
    and "c \<in> set (elems (jget (jget original ''work'') ''taskClasses''))"
  shows "\<exists>n\<in>set (nodes_of g). id_of n \<in> id_of ` set (elems parts) \<and> claims_class n c"
proof -
  obtain orig where o: "split_target graph nid = Some orig" "orphaned_classes orig (elems parts) = []"
    and n: "nodes_of g = js_sort by_kind_then_id (filter (\<lambda>n. \<not> strict_eq (id_of n) nid) (nodes_of graph) @ map (build_part orig) (elems parts))"
    using split_node_ok [OF assms(1)] by metis
  have "is_array (jget (jget original ''work'') ''taskClasses'')" using assms(3) by (cases "jget (jget original ''work'') ''taskClasses''") auto
  with o assms(2,3) have "\<exists>p\<in>set (elems parts). nullish (jget p ''taskClasses'') \<or> has_value (elems (jget p ''taskClasses'')) c"
    by (auto simp: orphaned_classes_def Let_def filter_empty_conv has_value_def split: if_splits)
  then obtain p where p: "p \<in> set (elems parts)" "nullish (jget p ''taskClasses'') \<or> has_value (elems (jget p ''taskClasses'')) c"
    by blast
  have "claims_class (build_part orig p) c" using p(2) by (auto simp: claims_class_def build_part_def Let_def nullish_def)
  moreover have "build_part orig p \<in> set (nodes_of g)" unfolding n using p(1) by simp
  ultimately show ?thesis using p(1) by (metis id_build_part imageI)
qed

section \<open>A concrete split\<close>

definition demo_graph :: jv where
  "demo_graph = JObj
     [(''nodes'', JArr [JObj [(''id'', JStr ''w''), (''kind'', JStr ''loop''), (''parent'', JNull),
                            (''work'', JObj [(''taskClasses'', JArr [JStr ''x'', JStr ''y''])])],
                      JObj [(''id'', JStr ''source:x''), (''kind'', JStr ''source'')]]),
      (''edges'', JArr [JObj [(''id'', JStr ''source:x->w:claims''), (''from'', JStr ''source:x''), (''to'', JStr ''w''), (''kind'', JStr ''claims'')]]),
      (''groups'', JArr [JObj [(''id'', JStr ''group:a''), (''children'', JArr [JStr ''w''])]])]"

definition demo_parts :: jv where
  "demo_parts = JArr [JObj [(''id'', JStr ''w1''), (''taskClasses'', JArr [JStr ''x''])],
                      JObj [(''id'', JStr ''w2''), (''taskClasses'', JArr [JStr ''y'']),
                            (''model'', JObj [(''provider'', JStr ''local'')])]]"

lemma demo_splits: "split_node demo_graph (JStr ''w'') demo_parts = Inr (projr (split_node demo_graph (JStr ''w'') demo_parts))"
proof -
  have "\<not> isl (split_node demo_graph (JStr ''w'') demo_parts)" by code_simp
  then show ?thesis by simp
qed

theorem split_replaces_node_witness:
  "mset (map id_of (nodes_of (projr (split_node demo_graph (JStr ''w'') demo_parts))))
     = {# JStr ''source:x'', JStr ''w1'', JStr ''w2'' #}"
proof -
  have "filter (\<lambda>i. i \<noteq> JStr ''w'') (map id_of (nodes_of demo_graph)) = [JStr ''source:x'']"
    "map id_of (elems demo_parts) = [JStr ''w1'', JStr ''w2'']" by code_simp+
  then show ?thesis using split_replaces_node [OF demo_splits] by simp
qed

theorem split_rewires_edges_witness:
  "set (map id_of (edges_of (projr (split_node demo_graph (JStr ''w'') demo_parts))))
     = {JStr ''source:x->w1:claims'', JStr ''source:x->w2:claims''}"
proof -
  have "map (\<lambda>e. map id_of (edge_copies (JStr ''w'') (elems demo_parts) e)) (edges_of demo_graph)
      = [[JStr ''source:x->w1:claims'', JStr ''source:x->w2:claims'']]" by code_simp
  then have "(\<Union>e\<in>set (edges_of demo_graph). set (map id_of (edge_copies (JStr ''w'') (elems demo_parts) e)))
      = {JStr ''source:x->w1:claims'', JStr ''source:x->w2:claims''}" by auto
  moreover have "list_all (\<lambda>e. is_string (id_of e)) (edges_of demo_graph)" by code_simp
  then have "\<forall>e\<in>set (edges_of demo_graph). is_string (id_of e)" by (simp add: list_all_iff)
  ultimately show ?thesis using split_rewires_edges [OF demo_splits] by simp
qed

theorem split_keeps_classes_witness:
  "\<exists>n\<in>set (nodes_of (projr (split_node demo_graph (JStr ''w'') demo_parts))). claims_class n (JStr ''y'')"
proof -
  have t: "split_target demo_graph (JStr ''w'') = Some (hd (nodes_of demo_graph))" by code_simp
  have "elems (jget (jget (hd (nodes_of demo_graph)) ''work'') ''taskClasses'') = [JStr ''x'', JStr ''y'']" by code_simp
  then show ?thesis using split_keeps_classes [OF demo_splits t, of "JStr ''y''"] by auto
qed

end
