(* ===== verification/WorkflowConfig.thy ===== *)
theory WorkflowConfig
  imports JsObject
begin

text \<open>
  \<open>src/workflow-config.js\<close>: the operator's workflow file. Nothing in it is trusted: every group, edge and
  label is checked on its own and dropped with a warning when it is not usable, and groups that contain
  one another in a circle are dropped together. A warning's wording is the constructor of
  \<open>cfg_warning\<close> with the position (counted from 0 here, printed from 1) and the offending value.
\<close>

definition EDGE_KINDS :: "string list" where
  "EDGE_KINDS = [''produces'', ''claims'', ''reviews'', ''applies'', ''triggers'', ''refines'']"

definition MAX_FILE_BYTES :: nat where "MAX_FILE_BYTES = 256 * 1024"
definition MAX_LABEL :: nat where "MAX_LABEL = 60"
definition MAX_EDGES :: nat where "MAX_EDGES = 500"
definition MAX_LABELS :: nat where "MAX_LABELS = 500"

record wf_group =
  wg_id :: string
  wg_label :: string
  wg_children :: "string list"
  wg_collapsed :: bool

record wf_edge =
  we_from :: string
  we_to :: string
  we_kind :: string
  we_label :: "string option"

record wf_config =
  wc_groups :: "wf_group list"
  wc_edges :: "wf_edge list"
  wc_labels :: "(string \<times> string) list"

datatype cfg_warning =
    GroupsNotArray
  | GroupNotObject nat
  | GroupBadId nat jv
  | GroupRepeatsId nat string
  | GroupNoChildren nat string
  | GroupBadChild nat string
  | GroupNoUsableChildren nat string
  | GroupListsItself nat string
  | GroupBadLabel nat string
  | GroupBadCollapsed nat string
  | GroupOnCycle string
  | EdgesNotArray
  | EdgeNotObject nat
  | EdgeNoEnds nat
  | EdgeLoop nat string
  | EdgeBadKind nat jv
  | EdgeBadLabel nat
  | TooManyEdges nat
  | LabelsNotObject
  | LabelEmptyId
  | LabelBad string
  | TooManyLabels nat
  | NotAnObjectFile
  | BadSchemaVersion jv
  | CannotRead
  | NotAFile
  | FileTooLarge
  | NotJson

definition empty_config :: wf_config where
  "empty_config = \<lparr>wc_groups = [], wc_edges = [], wc_labels = []\<rparr>"

definition clean_label :: "jv \<Rightarrow> string option" where
  "clean_label v =
     (if \<not> is_string v then None
      else let s = trim (str_of v) in if s \<noteq> [] \<and> length s \<le> MAX_LABEL then Some s else None)"

definition group_id_ok :: "string \<Rightarrow> bool" where
  "group_id_ok s \<longleftrightarrow>
     (let word = (\<lambda>c. is_digit c \<or> (97 \<le> (of_char c :: nat) \<and> (of_char c :: nat) \<le> 122)); r = drop 6 s
      in starts_with ''group:'' s \<and> r \<noteq> [] \<and> word (hd r) \<and> list_all (\<lambda>c. word c \<or> c = CHR ''-'') (tl r))"

section \<open>Nesting cycles\<close>

type_synonym children_of = "(string \<times> string list) list"

definition kids :: "children_of \<Rightarrow> string \<Rightarrow> string list" where
  "kids by g = (case map_of by g of Some cs \<Rightarrow> filter (\<lambda>c. map_of by c \<noteq> None) cs | None \<Rightarrow> [])"

text \<open>The depth-first search of one group; the stack's top is the head of the list.\<close>

function dfs :: "children_of \<Rightarrow> string \<Rightarrow> string list \<Rightarrow> string list \<Rightarrow> bool" where
  "dfs by target [] seen = False"
| "dfs by target (g # stack) seen =
     (if g = target then True
      else if g \<in> set seen \<or> map_of by g = None then dfs by target stack seen
      else dfs by target (rev (kids by g) @ stack) (g # seen))"
  by pat_completeness auto
termination
proof (relation "measures [\<lambda>(by, t, stack, seen). card (fst ` set by - set seen), \<lambda>(by, t, stack, seen). length stack]", goal_cases)
  case 1
  then show ?case by simp
next
  case (2 tb target g stack seen)
  then show ?case by simp
next
  case (3 tb target g stack seen)
  then have "g \<in> fst ` set tb - set seen" by (auto dest: map_of_SomeD intro: rev_image_eqI)
  then have "card (fst ` set tb - set seen - {g}) < card (fst ` set tb - set seen)" by (intro psubset_card_mono) auto
  moreover have "fst ` set tb - set (g # seen) = fst ` set tb - set seen - {g}" by auto
  ultimately show ?case by simp
qed

declare dfs.simps [simp del]

definition children_table :: "wf_group list \<Rightarrow> children_of" where
  "children_table gs = rev (map (\<lambda>g. (wg_id g, wg_children g)) gs)"

definition on_cycle :: "children_of \<Rightarrow> wf_group \<Rightarrow> bool" where
  "on_cycle by g = dfs by (wg_id g) (rev (filter (\<lambda>c. map_of by c \<noteq> None) (wg_children g))) []"

definition groups_on_cycles :: "wf_group list \<Rightarrow> string list" where
  "groups_on_cycles gs = uniq (map wg_id (filter (on_cycle (children_table gs)) gs))"

section \<open>Groups\<close>

fun clean_children :: "nat \<Rightarrow> string \<Rightarrow> jv list \<Rightarrow> string list \<Rightarrow> string list \<times> cfg_warning list" where
  "clean_children i gid [] acc = (acc, [])"
| "clean_children i gid (c # cs) acc =
     (if \<not> is_string c \<or> trim (str_of c) = []
      then (let (r, ws) = clean_children i gid cs acc in (r, GroupBadChild i gid # ws))
      else clean_children i gid cs (if str_of c \<in> set acc then acc else acc @ [str_of c]))"

fun check_groups :: "nat \<Rightarrow> string list \<Rightarrow> jv list \<Rightarrow> wf_group list \<times> cfg_warning list" where
  "check_groups i seen [] = ([], [])"
| "check_groups i seen (entry # rest) =
     (let drop = (\<lambda>seen' ws. let (gs, ws') = check_groups (Suc i) seen' rest in (gs, ws @ ws'));
          idv = jget entry ''id''; gid = str_of idv; cv = jget entry ''children''
      in if \<not> is_object entry then drop seen [GroupNotObject i]
         else if \<not> is_string idv \<or> \<not> group_id_ok gid then drop seen [GroupBadId i idv]
         else if gid \<in> set seen then drop seen [GroupRepeatsId i gid]
         else if \<not> is_array cv then drop (gid # seen) [GroupNoChildren i gid]
         else
           let (children, ws) = clean_children i gid (elems cv) []
           in if children = [] then drop (gid # seen) (ws @ [GroupNoUsableChildren i gid])
              else if gid \<in> set children then drop (gid # seen) (ws @ [GroupListsItself i gid])
              else
                let label = clean_label (jget entry ''label'');
                    coll = jget entry ''collapsed'';
                    ws1 = (if jget entry ''label'' \<noteq> JUndef \<and> label = None then [GroupBadLabel i gid] else []);
                    ws2 = (case coll of JUndef \<Rightarrow> [] | JBool _ \<Rightarrow> [] | _ \<Rightarrow> [GroupBadCollapsed i gid]);
                    (gs, ws') = check_groups (Suc i) (gid # seen) rest
                in (\<lparr>wg_id = gid, wg_label = (case label of Some l \<Rightarrow> l | None \<Rightarrow> gid), wg_children = children,
                     wg_collapsed = (coll = JBool True)\<rparr> # gs,
                    ws @ ws1 @ ws2 @ ws'))"

definition validate_groups :: "jv \<Rightarrow> wf_group list \<times> cfg_warning list" where
  "validate_groups raw =
     (if raw = JUndef then ([], [])
      else if \<not> is_array raw then ([], [GroupsNotArray])
      else
        let (kept, ws) = check_groups 0 [] (elems raw); cyclic = groups_on_cycles kept
        in if cyclic = [] then (kept, ws)
           else (filter (\<lambda>g. wg_id g \<notin> set cyclic) kept, ws @ map GroupOnCycle cyclic))"

section \<open>Edges and labels\<close>

definition check_edge :: "nat \<Rightarrow> jv \<Rightarrow> cfg_warning + wf_edge" where
  "check_edge i entry =
     (let f = jget entry ''from''; t = jget entry ''to''; k = jget entry ''kind''; l = jget entry ''label''
      in if \<not> is_object entry then Inl (EdgeNotObject i)
         else if \<not> is_string f \<or> trim (str_of f) = [] \<or> \<not> is_string t \<or> trim (str_of t) = [] then Inl (EdgeNoEnds i)
         else if f = t then Inl (EdgeLoop i (str_of f))
         else if \<not> (is_string k \<and> str_of k \<in> set EDGE_KINDS) then Inl (EdgeBadKind i k)
         else if \<not> nullish l
         then (case clean_label l of
                 None \<Rightarrow> Inl (EdgeBadLabel i)
               | Some s \<Rightarrow> Inr \<lparr>we_from = str_of f, we_to = str_of t, we_kind = str_of k, we_label = Some s\<rparr>)
         else Inr \<lparr>we_from = str_of f, we_to = str_of t, we_kind = str_of k, we_label = None\<rparr>)"

fun check_edges :: "nat \<Rightarrow> jv list \<Rightarrow> wf_edge list \<Rightarrow> nat \<Rightarrow> wf_edge list \<times> nat \<times> cfg_warning list" where
  "check_edges i [] kept over = (kept, over, [])"
| "check_edges i (entry # rest) kept over =
     (case check_edge i entry of
        Inl w \<Rightarrow> (let (k, n, ws) = check_edges (Suc i) rest kept over in (k, n, w # ws))
      | Inr e \<Rightarrow> if MAX_EDGES \<le> length kept then check_edges (Suc i) rest kept (over + 1)
                 else check_edges (Suc i) rest (kept @ [e]) over)"

definition validate_edges :: "jv \<Rightarrow> wf_edge list \<times> cfg_warning list" where
  "validate_edges raw =
     (if raw = JUndef then ([], [])
      else if \<not> is_array raw then ([], [EdgesNotArray])
      else let (kept, over, ws) = check_edges 0 (elems raw) [] 0
           in (kept, ws @ (if over \<noteq> 0 then [TooManyEdges over] else [])))"

fun check_labels ::
  "(string \<times> jv) list \<Rightarrow> (string \<times> string) list \<Rightarrow> nat \<Rightarrow> nat \<Rightarrow> (string \<times> string) list \<times> nat \<times> cfg_warning list" where
  "check_labels [] kept cnt over = (kept, over, [])"
| "check_labels ((nid, value) # rest) kept cnt over =
     (if trim nid = [] then (let (k, n, ws) = check_labels rest kept cnt over in (k, n, LabelEmptyId # ws))
      else (case clean_label value of
              None \<Rightarrow> (let (k, n, ws) = check_labels rest kept cnt over in (k, n, LabelBad nid # ws))
            | Some l \<Rightarrow> if MAX_LABELS \<le> cnt then check_labels rest kept cnt (over + 1)
                        else check_labels rest (kv_put kept nid l) (cnt + 1) over))"

definition validate_labels :: "jv \<Rightarrow> (string \<times> string) list \<times> cfg_warning list" where
  "validate_labels raw =
     (if raw = JUndef then ([], [])
      else if \<not> is_object raw then ([], [LabelsNotObject])
      else let (kept, over, ws) = check_labels (obj_entries raw) [] 0 0
           in (kept, ws @ (if over \<noteq> 0 then [TooManyLabels over] else [])))"

section \<open>The file\<close>

definition validate_workflow_config :: "jv \<Rightarrow> wf_config \<times> cfg_warning list" where
  "validate_workflow_config raw =
     (if \<not> is_object raw then (empty_config, [NotAnObjectFile])
      else if jget raw ''schemaVersion'' \<noteq> JNum (Fin 1) then (empty_config, [BadSchemaVersion (jget raw ''schemaVersion'')])
      else let (gs, w1) = validate_groups (jget raw ''groups''); (es, w2) = validate_edges (jget raw ''edges'');
               (ls, w3) = validate_labels (jget raw ''labels'')
           in (\<lparr>wc_groups = gs, wc_edges = es, wc_labels = ls\<rparr>, w1 @ w2 @ w3))"

text \<open>\<open>readWorkflowConfig\<close>: the file is absent, unreadable, not a file, or has a size and a content that
  parses or not.\<close>

datatype wf_file = NoSuchFile | StatFails | NotRegular | RegularFile nat "jv option"

definition read_workflow_config :: "wf_file \<Rightarrow> wf_config \<times> cfg_warning list" where
  "read_workflow_config f =
     (case f of
        NoSuchFile \<Rightarrow> (empty_config, [])
      | StatFails \<Rightarrow> (empty_config, [CannotRead])
      | NotRegular \<Rightarrow> (empty_config, [NotAFile])
      | RegularFile bytes content \<Rightarrow>
          if MAX_FILE_BYTES < bytes then (empty_config, [FileTooLarge])
          else (case content of None \<Rightarrow> (empty_config, [NotJson]) | Some raw \<Rightarrow> validate_workflow_config raw))"

section \<open>The search finds exactly the cycles\<close>

definition nests :: "children_of \<Rightarrow> (string \<times> string) set" where
  "nests by = {(a, b). b \<in> set (kids by a)}"

lemma nests_iff: "(a, b) \<in> nests tb \<longleftrightarrow> (\<exists>cs. map_of tb a = Some cs \<and> b \<in> set cs \<and> map_of tb b \<noteq> None)"
  by (cases "map_of tb a") (simp_all add: nests_def kids_def)

lemma dfs_sound:
  "dfs tb target stack seen \<Longrightarrow> \<exists>g\<in>set stack. (g, target) \<in> (nests tb)\<^sup>*"
proof (induction tb target stack seen rule: dfs.induct)
  case (1 tb target seen)
  then show ?case by (simp add: dfs.simps)
next
  case (2 tb target g stack seen)
  show ?case
  proof (cases "g = target")
    case True
    then show ?thesis by auto
  next
    case ne: False
    show ?thesis
    proof (cases "g \<in> set seen \<or> map_of tb g = None")
      case True
      with ne 2 show ?thesis by (auto simp: dfs.simps)
    next
      case False
      with ne 2 have "\<exists>h\<in>set (rev (kids tb g) @ stack). (h, target) \<in> (nests tb)\<^sup>*" by (simp add: dfs.simps)
      then show ?thesis by (auto simp: nests_def intro: converse_rtrancl_into_rtrancl)
    qed
  qed
qed

text \<open>What was seen is closed: all its children were seen too or wait on the stack.\<close>

lemma dfs_complete:
  assumes "\<not> dfs tb target stack seen"
    and "\<forall>a\<in>set seen. set (kids tb a) \<subseteq> set seen \<union> set stack" and "target \<notin> set seen"
  shows "\<exists>S. set seen \<union> set stack \<subseteq> S \<and> target \<notin> S \<and> (\<forall>a\<in>S. set (kids tb a) \<subseteq> S)"
  using assms
proof (induction tb target stack seen rule: dfs.induct)
  case (1 tb target seen)
  then show ?case by (intro exI [of _ "set seen"]) auto
next
  case (2 tb target g stack seen)
  have ne: "g \<noteq> target" using 2(3) by (auto simp: dfs.simps)
  show ?case
  proof (cases "g \<in> set seen \<or> map_of tb g = None")
    case disj: True
    show ?thesis
    proof (cases "g \<in> set seen")
      case True
      have "\<not> dfs tb target stack seen" using 2(3) disj ne by (simp add: dfs.simps)
      moreover have "\<forall>a\<in>set seen. set (kids tb a) \<subseteq> set seen \<union> set stack" using 2(4) True by auto
      ultimately obtain S where S: "set seen \<union> set stack \<subseteq> S" "target \<notin> S" "\<forall>a\<in>S. set (kids tb a) \<subseteq> S"
        using 2(1) [OF ne disj _ _ 2(5)] by blast
      from S(1) True have "set seen \<union> set (g # stack) \<subseteq> S" by auto
      with S(2,3) show ?thesis by blast
    next
      case False
      with disj have unknown: "kids tb g = []" "map_of tb g = None" by (simp_all add: kids_def)
      have g: "g \<notin> set (kids tb a)" for a using unknown(2) by (simp add: kids_def split: option.splits)
      have "\<not> dfs tb target stack seen" using 2(3) disj ne by (simp add: dfs.simps)
      moreover have "\<forall>a\<in>set seen. set (kids tb a) \<subseteq> set seen \<union> set stack"
      proof
        fix a assume "a \<in> set seen"
        with 2(4) have "set (kids tb a) \<subseteq> insert g (set seen \<union> set stack)" by simp
        with g [of a] show "set (kids tb a) \<subseteq> set seen \<union> set stack" by blast
      qed
      ultimately obtain S where "set seen \<union> set stack \<subseteq> S" "target \<notin> S" "\<forall>a\<in>S. set (kids tb a) \<subseteq> S"
        using 2(1) [OF ne disj _ _ 2(5)] by blast
      with ne unknown(1) show ?thesis by (intro exI [of _ "insert g S"]) auto
    qed
  next
    case False
    have "\<not> dfs tb target (rev (kids tb g) @ stack) (g # seen)" using 2(3) False ne by (simp add: dfs.simps)
    moreover have "\<forall>a\<in>set (g # seen). set (kids tb a) \<subseteq> set (g # seen) \<union> set (rev (kids tb g) @ stack)"
      using 2(4) by auto
    moreover have "target \<notin> set (g # seen)" using 2(5) ne by auto
    ultimately obtain S where "set (g # seen) \<union> set (rev (kids tb g) @ stack) \<subseteq> S" "target \<notin> S" "\<forall>a\<in>S. set (kids tb a) \<subseteq> S"
      using 2(2) [OF ne False] by blast
    then show ?thesis by (intro exI [of _ S]) auto
  qed
qed

lemma dfs_iff: "dfs tb target stack [] \<longleftrightarrow> (\<exists>g\<in>set stack. (g, target) \<in> (nests tb)\<^sup>*)"
proof
  assume "\<exists>g\<in>set stack. (g, target) \<in> (nests tb)\<^sup>*"
  then obtain g where g: "g \<in> set stack" "(g, target) \<in> (nests tb)\<^sup>*" by blast
  show "dfs tb target stack []"
  proof (rule ccontr)
    assume "\<not> dfs tb target stack []"
    from dfs_complete [OF this] obtain S where S: "set stack \<subseteq> S" "target \<notin> S" "\<forall>a\<in>S. set (kids tb a) \<subseteq> S" by auto
    from g(2) have "g \<in> S \<Longrightarrow> target \<in> S"
      by (induction rule: converse_rtrancl_induct) (use S(3) in \<open>auto simp: nests_def\<close>)
    with g(1) S show False by auto
  qed
qed (rule dfs_sound)

lemma children_table_map:
  "distinct (map wg_id gs) \<Longrightarrow> g \<in> set gs \<Longrightarrow> map_of (children_table gs) (wg_id g) = Some (wg_children g)"
  unfolding children_table_def
  by (intro map_of_is_SomeI) (auto simp: rev_map [symmetric] comp_def)

lemma on_cycle_iff:
  assumes "distinct (map wg_id gs)" and "g \<in> set gs"
  shows "on_cycle (children_table gs) g \<longleftrightarrow> (wg_id g, wg_id g) \<in> (nests (children_table gs))\<^sup>+"
proof -
  have k: "set (kids (children_table gs) (wg_id g)) = set (filter (\<lambda>c. map_of (children_table gs) c \<noteq> None) (wg_children g))"
    using children_table_map [OF assms] by (simp add: kids_def)
  have "on_cycle (children_table gs) g \<longleftrightarrow>
      (\<exists>c\<in>set (kids (children_table gs) (wg_id g)). (c, wg_id g) \<in> (nests (children_table gs))\<^sup>*)"
    unfolding on_cycle_def dfs_iff k by simp
  also have "\<dots> \<longleftrightarrow> (wg_id g, wg_id g) \<in> (nests (children_table gs))\<^sup>+"
    by (auto simp: nests_def trancl_unfold_left)
  finally show ?thesis .
qed

section \<open>What is kept is well formed\<close>

definition label_ok :: "string \<Rightarrow> bool" where
  "label_ok l \<longleftrightarrow> l \<noteq> [] \<and> length l \<le> MAX_LABEL \<and> trim l = l"

definition group_ok :: "wf_group \<Rightarrow> bool" where
  "group_ok g \<longleftrightarrow> group_id_ok (wg_id g) \<and> wg_children g \<noteq> [] \<and> distinct (wg_children g) \<and> wg_id g \<notin> set (wg_children g)
     \<and> (\<forall>c\<in>set (wg_children g). trim c \<noteq> []) \<and> (label_ok (wg_label g) \<or> wg_label g = wg_id g)"

definition edge_ok :: "wf_edge \<Rightarrow> bool" where
  "edge_ok e \<longleftrightarrow> trim (we_from e) \<noteq> [] \<and> trim (we_to e) \<noteq> [] \<and> we_from e \<noteq> we_to e \<and> we_kind e \<in> set EDGE_KINDS
     \<and> (\<forall>l. we_label e = Some l \<longrightarrow> label_ok l)"

definition labels_ok :: "(string \<times> string) list \<Rightarrow> bool" where
  "labels_ok ls \<longleftrightarrow> distinct (map fst ls) \<and> (\<forall>l\<in>set ls. trim (fst l) \<noteq> [] \<and> label_ok (snd l))"

definition config_ok :: "wf_config \<Rightarrow> bool" where
  "config_ok c \<longleftrightarrow>
     distinct (map wg_id (wc_groups c)) \<and> (\<forall>g\<in>set (wc_groups c). group_ok g) \<and> acyclic (nests (children_table (wc_groups c)))
     \<and> length (wc_edges c) \<le> MAX_EDGES \<and> (\<forall>e\<in>set (wc_edges c). edge_ok e)
     \<and> length (wc_labels c) \<le> MAX_LABELS \<and> labels_ok (wc_labels c)"

lemma clean_label_ok: "clean_label v = Some l \<Longrightarrow> label_ok l"
  by (auto simp: clean_label_def label_ok_def Let_def trim_trim split: if_splits)

lemma clean_label_str: "label_ok l \<Longrightarrow> clean_label (JStr l) = Some l"
  by (simp add: clean_label_def label_ok_def)

lemma clean_children_ok:
  assumes "clean_children i gid cs acc = (r, ws)" and "distinct acc" and "\<forall>c\<in>set acc. trim c \<noteq> []"
  shows "distinct r" and "\<forall>c\<in>set r. trim c \<noteq> []"
proof -
  have "distinct (fst (clean_children i gid cs acc)) \<and> (\<forall>c\<in>set (fst (clean_children i gid cs acc)). trim c \<noteq> [])"
    using assms(2,3)
  proof (induction cs arbitrary: acc)
    case Nil
    then show ?case by simp
  next
    case (Cons a cs)
    show ?case
    proof (cases "is_string a \<and> trim (str_of a) \<noteq> []")
      case True
      then have "fst (clean_children i gid (a # cs) acc)
          = fst (clean_children i gid cs (if str_of a \<in> set acc then acc else acc @ [str_of a]))" by simp
      moreover have "distinct (if str_of a \<in> set acc then acc else acc @ [str_of a])"
        and "\<forall>c\<in>set (if str_of a \<in> set acc then acc else acc @ [str_of a]). trim c \<noteq> []"
        using Cons.prems True by simp_all
      ultimately show ?thesis using Cons.IH by metis
    next
      case False
      then have "fst (clean_children i gid (a # cs) acc) = fst (clean_children i gid cs acc)"
        by (auto simp: Let_def case_prod_beta)
      with Cons.IH [OF Cons.prems] show ?thesis by simp
    qed
  qed
  with assms(1) show "distinct r" and "\<forall>c\<in>set r. trim c \<noteq> []" by simp_all
qed

lemma check_groups_ok:
  "\<forall>g\<in>set (fst (check_groups i seen es)). group_ok g \<and> wg_id g \<notin> set seen"
  "distinct (map wg_id (fst (check_groups i seen es)))"
proof -
  have "(\<forall>g\<in>set (fst (check_groups i seen es)). group_ok g \<and> wg_id g \<notin> set seen)
      \<and> distinct (map wg_id (fst (check_groups i seen es)))"
  proof (induction es arbitrary: i seen)
    case Nil
    then show ?case by simp
  next
    case (Cons entry rest)
    let ?id = "jget entry ''id''" and ?cv = "jget entry ''children''"
    obtain children ws where c: "clean_children i (str_of ?id) (elems ?cv) [] = (children, ws)" by fastforce
    consider (bad) "\<not> is_object entry \<or> (\<not> is_string ?id \<or> \<not> group_id_ok (str_of ?id)) \<or> str_of ?id \<in> set seen"
      | (seen) "is_object entry" "is_string ?id" "group_id_ok (str_of ?id)" "str_of ?id \<notin> set seen"
          "\<not> is_array ?cv \<or> children = [] \<or> str_of ?id \<in> set children"
      | (good) "is_object entry" "is_string ?id" "group_id_ok (str_of ?id)" "str_of ?id \<notin> set seen"
          "is_array ?cv" "children \<noteq> []" "str_of ?id \<notin> set children" by blast
    then show ?case
    proof cases
      case bad
      then have "fst (check_groups i seen (entry # rest)) = fst (check_groups (Suc i) seen rest)"
        by (auto simp: Let_def case_prod_beta)
      with Cons.IH [of "Suc i" seen] show ?thesis by simp
    next
      case seen
      then have e: "fst (check_groups i seen (entry # rest)) = fst (check_groups (Suc i) (str_of ?id # seen) rest)"
        by (auto simp: Let_def case_prod_beta c)
      have "(\<forall>g\<in>set (fst (check_groups (Suc i) (str_of ?id # seen) rest)). group_ok g \<and> wg_id g \<notin> set (str_of ?id # seen))
          \<and> distinct (map wg_id (fst (check_groups (Suc i) (str_of ?id # seen) rest)))"
        by (rule Cons.IH)
      with e show ?thesis by auto
    next
      case good
      have IH: "(\<forall>g\<in>set (fst (check_groups (Suc i) (str_of ?id # seen) rest)). group_ok g \<and> wg_id g \<notin> set (str_of ?id # seen))
          \<and> distinct (map wg_id (fst (check_groups (Suc i) (str_of ?id # seen) rest)))"
        by (rule Cons.IH)
      obtain g where g: "fst (check_groups i seen (entry # rest)) = g # fst (check_groups (Suc i) (str_of ?id # seen) rest)"
        "wg_id g = str_of ?id" "wg_children g = children"
        "wg_label g = (case clean_label (jget entry ''label'') of Some l \<Rightarrow> l | None \<Rightarrow> str_of ?id)"
        using good c by (simp add: Let_def case_prod_beta)
      have "group_ok g"
        using good clean_children_ok [OF c] g(2-4)
        by (auto simp: group_ok_def dest: clean_label_ok split: option.splits)
      with IH g good show ?thesis by auto
    qed
  qed
  then show "\<forall>g\<in>set (fst (check_groups i seen es)). group_ok g \<and> wg_id g \<notin> set seen"
    and "distinct (map wg_id (fst (check_groups i seen es)))" by auto
qed

lemma nests_filter:
  assumes "distinct (map wg_id gs)"
  shows "nests (children_table (filter P gs)) \<subseteq> nests (children_table gs)"
proof -
  have d: "distinct (map wg_id (filter P gs))" using assms by (rule distinct_map_filter)
  have known: "\<exists>g\<in>set gs. P g \<and> wg_id g = a \<and> cs = wg_children g"
    if "map_of (children_table (filter P gs)) a = Some cs" for a cs
    using map_of_SomeD [OF that] by (auto simp: children_table_def)
  show ?thesis
  proof clarify
    fix a b assume "(a, b) \<in> nests (children_table (filter P gs))"
    then obtain cs where cs: "map_of (children_table (filter P gs)) a = Some cs" "b \<in> set cs"
      "map_of (children_table (filter P gs)) b \<noteq> None"
      by (auto simp: nests_iff)
    from known [OF cs(1)] obtain g where g: "g \<in> set gs" "wg_id g = a" "cs = wg_children g" by blast
    from cs(3) obtain ds where "map_of (children_table (filter P gs)) b = Some ds" by blast
    from known [OF this] obtain h where h: "h \<in> set gs" "wg_id h = b" by blast
    have "map_of (children_table gs) a = Some cs" using children_table_map [OF assms g(1)] g by simp
    moreover have "map_of (children_table gs) b \<noteq> None" using children_table_map [OF assms h(1)] h by simp
    ultimately show "(a, b) \<in> nests (children_table gs)" using cs(2) unfolding nests_iff by blast
  qed
qed

lemma nests_known: "(a, b) \<in> nests (children_table gs) \<Longrightarrow> \<exists>g\<in>set gs. wg_id g = a"
  by (auto simp: nests_iff children_table_def dest!: map_of_SomeD)

lemma groups_on_cycles_iff:
  assumes "distinct (map wg_id gs)" and "g \<in> set gs"
  shows "wg_id g \<in> set (groups_on_cycles gs) \<longleftrightarrow> (wg_id g, wg_id g) \<in> (nests (children_table gs))\<^sup>+"
proof -
  have "wg_id g \<in> set (groups_on_cycles gs) \<longleftrightarrow> (\<exists>h\<in>set gs. wg_id h = wg_id g \<and> on_cycle (children_table gs) h)"
    unfolding groups_on_cycles_def set_uniq by (simp add: image_iff) metis
  also have "\<dots> \<longleftrightarrow> on_cycle (children_table gs) g"
    using assms by (auto simp: distinct_map dest: inj_onD)
  also have "\<dots> \<longleftrightarrow> (wg_id g, wg_id g) \<in> (nests (children_table gs))\<^sup>+" by (rule on_cycle_iff [OF assms])
  finally show ?thesis .
qed

lemma drop_cyclic_acyclic:
  assumes "distinct (map wg_id gs)"
  shows "acyclic (nests (children_table (filter (\<lambda>g. wg_id g \<notin> set (groups_on_cycles gs)) gs)))" (is "acyclic (nests ?t)")
proof (rule acyclicI, clarify)
  fix a assume a: "(a, a) \<in> (nests ?t)\<^sup>+"
  then obtain b where "(a, b) \<in> nests ?t" by (meson tranclD)
  from nests_known [OF this] obtain g where g: "g \<in> set gs" "wg_id g = a" "a \<notin> set (groups_on_cycles gs)" by auto
  have "(a, a) \<in> (nests (children_table gs))\<^sup>+" using a trancl_mono [OF _ nests_filter [OF assms]] by blast
  with groups_on_cycles_iff [OF assms g(1)] g show False by simp
qed

lemma validate_groups_eq:
  "fst (validate_groups raw) =
     (if is_array raw
      then filter (\<lambda>g. wg_id g \<notin> set (groups_on_cycles (fst (check_groups 0 [] (elems raw))))) (fst (check_groups 0 [] (elems raw)))
      else [])"
  by (cases raw) (auto simp: validate_groups_def Let_def case_prod_beta)

lemma validate_groups_ok:
  "distinct (map wg_id (fst (validate_groups raw)))"
  "\<forall>g\<in>set (fst (validate_groups raw)). group_ok g"
  "acyclic (nests (children_table (fst (validate_groups raw))))"
proof -
  let ?gs = "fst (check_groups 0 [] (elems raw))"
  have d: "distinct (map wg_id ?gs)" and ok: "\<forall>g\<in>set ?gs. group_ok g"
    using check_groups_ok [where i = 0 and seen = "[]" and es = "elems raw"] by auto
  show "distinct (map wg_id (fst (validate_groups raw)))"
    unfolding validate_groups_eq using d by (simp add: distinct_map_filter)
  show "\<forall>g\<in>set (fst (validate_groups raw)). group_ok g" unfolding validate_groups_eq using ok by simp
  have "nests (children_table []) = {}" by (simp add: nests_def kids_def children_table_def)
  then show "acyclic (nests (children_table (fst (validate_groups raw))))"
    unfolding validate_groups_eq using drop_cyclic_acyclic [OF d] by (simp add: acyclic_def)
qed

lemma check_edge_ok: "check_edge i entry = Inr e \<Longrightarrow> edge_ok e"
proof -
  have s: "a \<noteq> b \<Longrightarrow> is_string a \<Longrightarrow> is_string b \<Longrightarrow> str_of a \<noteq> str_of b" for a b by (cases a; cases b) auto
  assume "check_edge i entry = Inr e"
  then show ?thesis
    by (auto simp: check_edge_def edge_ok_def Let_def s dest: clean_label_ok split: if_splits option.splits)
qed

lemma check_edges_ok:
  "length kept \<le> MAX_EDGES \<Longrightarrow> \<forall>e\<in>set kept. edge_ok e \<Longrightarrow>
   length (fst (check_edges i es kept over)) \<le> MAX_EDGES \<and> (\<forall>e\<in>set (fst (check_edges i es kept over)). edge_ok e)"
proof (induction i es kept over rule: check_edges.induct)
  case (1 i kept over)
  then show ?case by simp
next
  case (2 i entry rest kept over)
  show ?case
  proof (cases "check_edge i entry")
    case (Inl w)
    with 2(1) [OF Inl 2(4,5)] show ?thesis by (simp add: case_prod_beta)
  next
    case (Inr e)
    show ?thesis
    proof (cases "MAX_EDGES \<le> length kept")
      case True
      with 2(2) [OF Inr True 2(4,5)] Inr show ?thesis by simp
    next
      case False
      have "edge_ok e" using Inr by (rule check_edge_ok)
      with False 2(4,5) have "length (kept @ [e]) \<le> MAX_EDGES" "\<forall>x\<in>set (kept @ [e]). edge_ok x" by auto
      with 2(3) [OF Inr False] Inr False show ?thesis by simp
    qed
  qed
qed

lemma kv_put_set: "set (kv_put m k v) \<subseteq> insert (k, v) (set m)"
  by (induction m) (auto split: if_splits)

lemma kv_put_fresh: "k \<notin> set (map fst m) \<Longrightarrow> kv_put m k v = m @ [(k, v)]"
  by (induction m) auto

lemma labels_ok_put:
  assumes "labels_ok kept" and "trim nid \<noteq> []" and "label_ok l"
  shows "labels_ok (kv_put kept nid l)"
proof -
  have "\<forall>x\<in>set (kv_put kept nid l). trim (fst x) \<noteq> [] \<and> label_ok (snd x)"
  proof
    fix x assume "x \<in> set (kv_put kept nid l)"
    then have "x = (nid, l) \<or> x \<in> set kept" using kv_put_set [of kept nid l] by blast
    with assms show "trim (fst x) \<noteq> [] \<and> label_ok (snd x)" by (auto simp: labels_ok_def)
  qed
  with assms(1) show ?thesis by (simp add: labels_ok_def kv_put_distinct)
qed

lemma length_kv_put: "length (kv_put m k v) \<le> length m + 1"
  by (induction m) auto

lemma check_labels_ok:
  "length kept \<le> cnt \<Longrightarrow> cnt \<le> MAX_LABELS \<Longrightarrow> labels_ok kept \<Longrightarrow>
   length (fst (check_labels es kept cnt over)) \<le> MAX_LABELS \<and> labels_ok (fst (check_labels es kept cnt over))"
proof (induction es kept cnt over rule: check_labels.induct)
  case (1 kept cnt over)
  then show ?case by simp
next
  case (2 nid val rest kept cnt over)
  show ?case
  proof (cases "trim nid = []")
    case True
    with 2(1) [OF True 2(5-7)] show ?thesis by (simp add: case_prod_beta)
  next
    case ne: False
    show ?thesis
    proof (cases "clean_label val")
      case None
      with 2(2) [OF ne None 2(5-7)] ne show ?thesis by (simp add: case_prod_beta)
    next
      case (Some l)
      show ?thesis
      proof (cases "MAX_LABELS \<le> cnt")
        case True
        with 2(3) [OF ne Some True 2(5-7)] ne Some show ?thesis by simp
      next
        case False
        have "length (kv_put kept nid l) \<le> cnt + 1" using length_kv_put [of kept nid l] 2(5) by simp
        moreover have "cnt + 1 \<le> MAX_LABELS" using False by simp
        moreover have "labels_ok (kv_put kept nid l)" using 2(7) ne clean_label_ok [OF Some] by (rule labels_ok_put)
        ultimately show ?thesis using 2(4) [OF ne Some False] ne Some False by simp
      qed
    qed
  qed
qed

lemma empty_config_ok: "config_ok empty_config"
  by (simp add: config_ok_def empty_config_def nests_def kids_def children_table_def acyclic_def labels_ok_def)

section \<open>Writing a configuration back\<close>

text \<open>The configuration as the module prints it (\<open>JSON.stringify\<close> of what it read).\<close>

definition group_json :: "wf_group \<Rightarrow> jv" where
  "group_json g = JObj [(''id'', JStr (wg_id g)), (''label'', JStr (wg_label g)),
     (''children'', JArr (map JStr (wg_children g))), (''collapsed'', JBool (wg_collapsed g))]"

definition edge_json :: "wf_edge \<Rightarrow> jv" where
  "edge_json e = JObj [(''from'', JStr (we_from e)), (''to'', JStr (we_to e)), (''kind'', JStr (we_kind e)),
     (''label'', case we_label e of None \<Rightarrow> JNull | Some l \<Rightarrow> JStr l)]"

definition config_json :: "wf_config \<Rightarrow> jv" where
  "config_json c = JObj [(''schemaVersion'', JNum (Fin 1)), (''groups'', JArr (map group_json (wc_groups c))),
     (''edges'', JArr (map edge_json (wc_edges c))), (''labels'', JObj (map (\<lambda>(k, v). (k, JStr v)) (wc_labels c)))]"

lemma group_json_fields [simp]:
  "is_object (group_json g)" "jget (group_json g) ''id'' = JStr (wg_id g)" "jget (group_json g) ''label'' = JStr (wg_label g)"
  "jget (group_json g) ''children'' = JArr (map JStr (wg_children g))" "jget (group_json g) ''collapsed'' = JBool (wg_collapsed g)"
  by (simp_all add: group_json_def)

lemma clean_children_strings:
  "distinct (acc @ cs) \<Longrightarrow> \<forall>c\<in>set cs. trim c \<noteq> [] \<Longrightarrow> clean_children i gid (map JStr cs) acc = (acc @ cs, [])"
  by (induction cs arbitrary: acc) auto

lemma label_or_id:
  "label_ok l \<or> l = gid \<Longrightarrow> (case clean_label (JStr l) of Some x \<Rightarrow> x | None \<Rightarrow> gid) = l \<or> trim gid \<noteq> gid"
proof (cases "label_ok l")
  case False
  assume "label_ok l \<or> l = gid"
  with False show ?thesis by (auto simp: clean_label_def Let_def)
qed (simp add: clean_label_str)

lemma trim_idle: "\<forall>c\<in>set s. \<not> is_space c \<Longrightarrow> trim s = s"
proof -
  have d: "\<forall>c\<in>set xs. \<not> is_space c \<Longrightarrow> dropWhile is_space xs = xs" for xs by (cases xs) auto
  show "\<forall>c\<in>set s. \<not> is_space c \<Longrightarrow> trim s = s" by (simp add: trim_def d)
qed

lemma group_id_trim:
  assumes "group_id_ok s"
  shows "trim s = s"
proof (rule trim_idle, intro ballI)
  have nsp: "\<not> is_space c" if "is_digit c \<or> (97 \<le> (of_char c :: nat) \<and> (of_char c :: nat) \<le> 122) \<or> c = CHR ''-''" for c
    using that by (auto simp: is_space_def is_digit_def)
  obtain c cs where d: "drop 6 s = c # cs" using assms by (cases "drop 6 s") (auto simp: group_id_ok_def Let_def)
  have p: "take 6 s = ''group:''" using assms by (simp add: group_id_ok_def Let_def starts_with_def numeral_eq_Suc)
  fix x assume "x \<in> set s"
  then have "x \<in> set (take 6 s) \<or> x \<in> set (drop 6 s)" by (metis Un_iff append_take_drop_id set_append)
  then show "\<not> is_space x"
  proof
    assume "x \<in> set (take 6 s)"
    then show ?thesis unfolding p by (auto simp: is_space_def)
  next
    assume "x \<in> set (drop 6 s)"
    moreover have "\<forall>x\<in>set (c # cs). is_digit x \<or> (97 \<le> (of_char x :: nat) \<and> (of_char x :: nat) \<le> 122) \<or> x = CHR ''-''"
      using assms unfolding group_id_ok_def Let_def d by (auto simp: list_all_iff)
    ultimately show ?thesis using nsp unfolding d by blast
  qed
qed

lemma check_groups_json:
  "\<forall>g\<in>set gs. group_ok g \<Longrightarrow> distinct (map wg_id gs) \<Longrightarrow> \<forall>g\<in>set gs. wg_id g \<notin> set seen \<Longrightarrow>
   fst (check_groups i seen (map group_json gs)) = gs"
proof (induction gs arbitrary: i seen)
  case Nil
  then show ?case by simp
next
  case (Cons g gs)
  have rest: "fst (check_groups (Suc i) (wg_id g # seen) (map group_json gs)) = gs"
    by (rule Cons.IH) (use Cons.prems in \<open>auto simp: image_iff\<close>)
  have ok: "group_ok g" using Cons.prems(1) by simp
  have cc: "clean_children i (wg_id g) (map JStr (wg_children g)) [] = (wg_children g, [])"
    using ok by (intro clean_children_strings [of "[]", simplified]) (auto simp: group_ok_def)
  have "trim (wg_id g) = wg_id g" using ok by (simp add: group_ok_def group_id_trim)
  then have lab: "(case clean_label (JStr (wg_label g)) of Some x \<Rightarrow> x | None \<Rightarrow> wg_id g) = wg_label g"
    using ok label_or_id by (auto simp: group_ok_def)
  have "wg_id g \<notin> set seen" using Cons.prems(3) by simp
  with ok cc rest lab show ?case
    by (cases "clean_label (JStr (wg_label g))") (simp_all add: group_ok_def Let_def case_prod_beta)
qed

lemma no_cycles_kept: "distinct (map wg_id gs) \<Longrightarrow> acyclic (nests (children_table gs)) \<Longrightarrow> groups_on_cycles gs = []"
proof (rule ccontr)
  assume d: "distinct (map wg_id gs)" and a: "acyclic (nests (children_table gs))" and "groups_on_cycles gs \<noteq> []"
  then obtain x where x: "x \<in> set (groups_on_cycles gs)" by (cases "groups_on_cycles gs") auto
  then obtain g where "g \<in> set gs" "wg_id g = x" by (auto simp: groups_on_cycles_def)
  with groups_on_cycles_iff [OF d] x a show False by (auto simp: acyclic_def)
qed

lemma check_edge_json: "edge_ok e \<Longrightarrow> check_edge i (edge_json e) = Inr e"
  by (cases e, cases "we_label e") (auto simp: edge_ok_def check_edge_def edge_json_def Let_def nullish_def clean_label_str)

lemma check_edges_json:
  "length (kept @ es) \<le> MAX_EDGES \<Longrightarrow> \<forall>e\<in>set es. edge_ok e \<Longrightarrow>
   check_edges i (map edge_json es) kept over = (kept @ es, over, [])"
  by (induction es arbitrary: i kept) (simp_all add: check_edge_json)

lemma obj_entries_distinct: "distinct (map fst (acc @ kvs)) \<Longrightarrow> fold (\<lambda>(k, v) m. kv_put m k v) kvs acc = acc @ kvs"
  by (induction kvs arbitrary: acc) (auto simp: kv_put_fresh)

lemma check_labels_json:
  "length (kept @ ls) \<le> MAX_LABELS \<Longrightarrow> labels_ok (kept @ ls) \<Longrightarrow>
   check_labels (map (\<lambda>(k, v). (k, JStr v)) ls) kept (length kept) over = (kept @ ls, over, [])"
proof (induction ls arbitrary: kept)
  case Nil
  then show ?case by simp
next
  case (Cons l ls)
  obtain k v where l: "l = (k, v)" by fastforce
  have "k \<notin> set (map fst kept)" "trim k \<noteq> []" "label_ok v" using Cons.prems(2) by (auto simp: labels_ok_def l)
  moreover have "check_labels (map (\<lambda>(k, v). (k, JStr v)) ls) (kept @ [l]) (length (kept @ [l])) over = ((kept @ [l]) @ ls, over, [])"
    by (rule Cons.IH) (use Cons.prems in simp_all)
  ultimately show ?case using Cons.prems(1) by (simp add: l clean_label_str kv_put_fresh)
qed

lemma validate_groups_json:
  assumes "\<forall>g\<in>set gs. group_ok g" and "distinct (map wg_id gs)" and "acyclic (nests (children_table gs))"
  shows "fst (validate_groups (JArr (map group_json gs))) = gs"
  unfolding validate_groups_eq using assms by (simp add: check_groups_json no_cycles_kept)

section \<open>What the validation promises\<close>

text \<open>C12: Whatever JSON the workflow file holds, the configuration the program uses is well formed: the group
  ids are legal and distinct, no group contains itself directly or through other groups, every edge joins two
  different named nodes by one of the six kinds, every label is trimmed, non-empty and at most sixty
  characters long, and at most 500 edges and 500 labels are kept.\<close>

theorem validated_config_ok: "config_ok (fst (validate_workflow_config raw))"
proof -
  let ?es = "fst (validate_edges (jget raw ''edges''))" and ?ls = "fst (validate_labels (jget raw ''labels''))"
  have "length ?es \<le> MAX_EDGES \<and> (\<forall>e\<in>set ?es. edge_ok e)"
    using check_edges_ok [of "[]" 0 "elems (jget raw ''edges'')" 0] by (simp add: validate_edges_def case_prod_beta)
  moreover have "length ?ls \<le> MAX_LABELS \<and> labels_ok ?ls"
    using check_labels_ok [of "[]" 0 "obj_entries (jget raw ''labels'')" 0] by (simp add: validate_labels_def case_prod_beta labels_ok_def)
  ultimately show ?thesis
    using validate_groups_ok [of "jget raw ''groups''"] empty_config_ok
    by (auto simp: validate_workflow_config_def config_ok_def case_prod_beta)
qed

text \<open>C13: Nesting cycles are found exactly: of the groups that are each usable on their own, the ones that
  survive are those that do not contain themselves through any chain of groups, in their order.\<close>

theorem groups_kept_iff_not_cyclic:
  "fst (validate_groups (JArr entries)) =
     filter (\<lambda>g. (wg_id g, wg_id g) \<notin> (nests (children_table (fst (check_groups 0 [] entries))))\<^sup>+)
       (fst (check_groups 0 [] entries))"
proof -
  have d: "distinct (map wg_id (fst (check_groups 0 [] entries)))" using check_groups_ok(2) .
  show ?thesis unfolding validate_groups_eq by (auto intro!: filter_cong simp: groups_on_cycles_iff [OF d])
qed

text \<open>A configuration that was read can be written out as JSON and read again: the same groups, edges
  and labels come back.\<close>

theorem config_roundtrip: "config_ok c \<Longrightarrow> fst (validate_workflow_config (config_json c)) = c"
proof -
  assume ok: "config_ok c"
  have "fst (validate_groups (JArr (map group_json (wc_groups c)))) = wc_groups c"
    using ok by (intro validate_groups_json) (simp_all add: config_ok_def)
  moreover have "fst (validate_edges (JArr (map edge_json (wc_edges c)))) = wc_edges c"
    using ok check_edges_json [of "[]" "wc_edges c" 0 0] by (simp add: validate_edges_def config_ok_def)
  moreover have "obj_entries (JObj (map (\<lambda>(k, v). (k, JStr v)) (wc_labels c))) = map (\<lambda>(k, v). (k, JStr v)) (wc_labels c)"
    using ok obj_entries_distinct [of "[]" "map (\<lambda>(k, v). (k, JStr v)) (wc_labels c)"]
    by (simp add: config_ok_def labels_ok_def case_prod_beta comp_def)
  then have "fst (validate_labels (JObj (map (\<lambda>(k, v). (k, JStr v)) (wc_labels c)))) = wc_labels c"
    using ok check_labels_json [of "[]" "wc_labels c" 0] by (simp add: validate_labels_def config_ok_def)
  ultimately show ?thesis
    by (simp add: validate_workflow_config_def config_json_def case_prod_beta)
qed

definition demo_config :: wf_config where
  "demo_config = \<lparr>wc_groups = [\<lparr>wg_id = ''group:a'', wg_label = ''A'', wg_children = [''w1''], wg_collapsed = True\<rparr>],
     wc_edges = [\<lparr>we_from = ''w1'', we_to = ''w2'', we_kind = ''claims'', we_label = None\<rparr>], wc_labels = [(''w1'', ''One'')]\<rparr>"

lemma demo_config_ok: "config_ok demo_config"
proof -
  have "nests (children_table (wc_groups demo_config)) = {}"
    by (auto simp: demo_config_def nests_iff children_table_def split: if_splits)
  then show ?thesis
    by (simp add: config_ok_def demo_config_def group_ok_def group_id_ok_def starts_with_def is_digit_def edge_ok_def EDGE_KINDS_def
        label_ok_def labels_ok_def acyclic_def trim_def is_space_def MAX_EDGES_def MAX_LABEL_def MAX_LABELS_def)
qed

theorem config_roundtrip_witness: "fst (validate_workflow_config (config_json demo_config)) = demo_config"
  by (rule config_roundtrip [OF demo_config_ok])

end
