(* ===== verification/WorkflowOverlay.thy ===== *)
theory WorkflowOverlay
  imports JsObject WorkflowConfig
begin

text \<open>
  \<open>src/workflow-overlay.js\<close>: what the operator's workflow file and the plugins' watchdog scripts add to the
  workflow graph. Groups are kept while they have a child that exists, labels and edges are added when
  the nodes they name exist. Nodes are copied before they are changed, so a change is an update of the
  list of copies at the last node of an id, the one the code's \<open>Map\<close> holds.
\<close>

section \<open>Groups that have something in them\<close>

definition group_shaped :: "jv \<Rightarrow> bool" where
  "group_shaped g \<longleftrightarrow> is_object g \<and> is_string (jget g ''id'') \<and> is_array (jget g ''children'')"

definition gid_of :: "jv \<Rightarrow> string" where
  "gid_of g = str_of (jget g ''id'')"

definition valid_children :: "jv list \<Rightarrow> string list \<Rightarrow> jv \<Rightarrow> jv list" where
  "valid_children node_ids kept g =
     filter (\<lambda>c. is_string c \<and> (c \<in> set node_ids \<or> (str_of c \<in> set kept \<and> str_of c \<noteq> gid_of g))) (elems (jget g ''children''))"

fun prune_pass :: "jv list \<Rightarrow> jv list \<Rightarrow> string list \<Rightarrow> string list" where
  "prune_pass node_ids [] kept = kept"
| "prune_pass node_ids (g # gs) kept =
     prune_pass node_ids gs
       (if gid_of g \<in> set kept \<and> valid_children node_ids kept g = [] then filter (\<lambda>i. i \<noteq> gid_of g) kept else kept)"

lemma prune_pass_length: "length (prune_pass node_ids gs kept) \<le> length kept"
proof (induction node_ids gs kept rule: prune_pass.induct)
  case (1 node_ids kept)
  then show ?case by simp
next
  case (2 node_ids g gs kept)
  have "length (filter (\<lambda>i. i \<noteq> gid_of g) kept) \<le> length kept" by (rule length_filter_le)
  with 2 show ?case by (auto intro: order_trans)
qed

lemma prune_pass_same: "length (prune_pass node_ids gs kept) = length kept \<Longrightarrow>
  prune_pass node_ids gs kept = kept \<and> (\<forall>g\<in>set gs. gid_of g \<in> set kept \<longrightarrow> valid_children node_ids kept g \<noteq> [])"
proof (induction gs arbitrary: kept)
  case Nil
  then show ?case by simp
next
  case (Cons g gs)
  show ?case
  proof (cases "gid_of g \<in> set kept \<and> valid_children node_ids kept g = []")
    case True
    then have "length (filter (\<lambda>i. i \<noteq> gid_of g) kept) < length kept" by (intro length_filter_less [of "gid_of g"]) auto
    then have "length (prune_pass node_ids (g # gs) kept) < length kept"
      using prune_pass_length [of node_ids gs "filter (\<lambda>i. i \<noteq> gid_of g) kept"] True by simp
    with Cons.prems show ?thesis by simp
  next
    case False
    then have "prune_pass node_ids (g # gs) kept = prune_pass node_ids gs kept" by auto
    with Cons.IH [of kept] Cons.prems False show ?thesis by auto
  qed
qed

function prune :: "jv list \<Rightarrow> jv list \<Rightarrow> string list \<Rightarrow> string list" where
  "prune node_ids gs kept =
     (let kept' = prune_pass node_ids gs kept in if kept' = kept then kept else prune node_ids gs kept')"
  by pat_completeness auto
termination
proof (relation "measure (\<lambda>(node_ids, gs, kept). length kept)", goal_cases)
  case 1
  then show ?case by simp
next
  case (2 node_ids gs kept kept')
  then have "length kept' \<noteq> length kept" using prune_pass_same by blast
  with 2(1) prune_pass_length [of node_ids gs kept] show ?case by simp
qed

declare prune.simps [simp del]

definition group_warnings :: "jv list \<Rightarrow> string list \<Rightarrow> jv \<Rightarrow> jv list" where
  "group_warnings node_ids kept g =
     (if gid_of g \<notin> set kept then [JStr (''group '' @ gid_of g @ '': none of its children exists in this graph; dropped'')]
      else map (\<lambda>c. JStr (''group '' @ gid_of g @ '': '' @ to_str (json_stringify c) @ '' is not a node or a group of this graph; dropped from the group''))
             (filter (\<lambda>c. \<not> has_value (valid_children node_ids kept g) c) (elems (jget g ''children''))))"

definition kept_group :: "jv list \<Rightarrow> string list \<Rightarrow> jv \<Rightarrow> jv" where
  "kept_group node_ids kept g =
     JObj [(''id'', jget g ''id''),
           (''label'', if is_string (jget g ''label'') \<and> str_of (jget g ''label'') \<noteq> [] then jget g ''label'' else jget g ''id''),
           (''children'', JArr (valid_children node_ids kept g)), (''collapsed'', JBool (jget g ''collapsed'' = JBool True))]"

definition keep_groups :: "jv list \<Rightarrow> jv list \<Rightarrow> jv list \<times> jv list" where
  "keep_groups config_groups node_ids =
     (let gs = filter group_shaped config_groups; kept = prune node_ids gs (uniq (map gid_of gs))
      in (map (kept_group node_ids kept) (filter (\<lambda>g. gid_of g \<in> set kept) gs), concat (map (group_warnings node_ids kept) gs)))"

section \<open>Changing nodes\<close>

fun update_last :: "string \<Rightarrow> (jv \<Rightarrow> jv) \<Rightarrow> jv list \<Rightarrow> jv list" where
  "update_last i f [] = []"
| "update_last i f (n # ns) =
     (if JStr i \<in> set (map id_of ns) then n # update_last i f ns else if id_of n = JStr i then f n # ns else n # ns)"

definition adopt :: "jv \<Rightarrow> jv list \<Rightarrow> jv \<Rightarrow> jv list" where
  "adopt g ns c = update_last (str_of c) (\<lambda>n. if jget n ''parent'' = JNull then obj_put n ''parent'' (jget g ''id'') else n) ns"

definition adopt_all :: "jv list \<Rightarrow> jv list \<Rightarrow> jv list" where
  "adopt_all groups ns = foldl (\<lambda>ns g. foldl (adopt g) ns (elems (jget g ''children''))) ns groups"

fun apply_labels :: "(string \<times> jv) list \<Rightarrow> jv list \<Rightarrow> jv list \<times> jv list" where
  "apply_labels [] ns = (ns, [])"
| "apply_labels ((i, label) # ls) ns =
     (if JStr i \<notin> set (map id_of ns)
      then (let (r, ws) = apply_labels ls ns in (r, JStr (''label for '' @ i @ '': no such node; ignored'') # ws))
      else apply_labels ls
             (if is_string label \<and> str_of label \<noteq> [] then update_last i (\<lambda>n. obj_put n ''label'' label) ns else ns))"

section \<open>Authored edges\<close>

definition authored_edge :: "jv \<Rightarrow> jv" where
  "authored_edge e =
     JObj [(''id'', JStr (edge_id (jget e ''from'') (jget e ''to'') (jget e ''kind''))), (''from'', jget e ''from''), (''to'', jget e ''to''),
           (''kind'', jget e ''kind''), (''label'', if is_string (jget e ''label'') then jget e ''label'' else JNull)]"

text \<open>An end that is missing is looked up as \<open>undefined\<close>; then \<open>find\<close> answers \<open>undefined\<close>, which reads as
  \<open>nothing is missing\<close>.\<close>

definition missing_end :: "jv list \<Rightarrow> jv \<Rightarrow> jv" where
  "missing_end node_ids e =
     (case find (\<lambda>v. \<not> has_value node_ids v) [jget e ''from'', jget e ''to''] of Some v \<Rightarrow> v | None \<Rightarrow> JUndef)"

fun add_authored :: "jv list \<Rightarrow> jv list \<Rightarrow> jv list \<Rightarrow> jv list \<times> jv list" where
  "add_authored node_ids [] edges = (edges, [])"
| "add_authored node_ids (e # es) edges =
     (let new = authored_edge e; m = missing_end node_ids e
      in if \<not> is_object e then add_authored node_ids es edges
         else if m \<noteq> JUndef
         then (let (r, ws) = add_authored node_ids es edges
               in (r, JStr (''authored edge '' @ to_str (id_of new) @ '': '' @ to_str (json_stringify m) @ '' is not a node of this graph; dropped'') # ws))
         else if id_of new \<in> set (map id_of edges) then add_authored node_ids es edges
         else add_authored node_ids es (edges @ [new]))"

definition graph_warnings :: "jv \<Rightarrow> jv list" where
  "graph_warnings graph = elems (jget graph ''warnings'')"

definition apply_workflow_config :: "jv \<Rightarrow> jv \<Rightarrow> jv" where
  "apply_workflow_config graph config =
     (if \<not> is_object graph \<or> \<not> is_array (jget graph ''nodes'') \<or> \<not> is_object config then graph
      else
        let nodes = map spread (elems (jget graph ''nodes'')); ids = map id_of nodes;
            edges = map spread (elems (jget graph ''edges''));
            (groups, w1) = keep_groups (elems (jget config ''groups'')) ids;
            (nodes', w2) = apply_labels (if is_object (jget config ''labels'') then obj_entries (jget config ''labels'') else []) (adopt_all groups nodes);
            (edges', w3) = add_authored ids (elems (jget config ''edges'')) edges
        in obj_put (obj_put (obj_put (obj_put (spread graph) ''nodes'' (JArr (js_sort by_kind_rank nodes')))
             ''edges'' (JArr (js_sort by_id edges'))) ''groups'' (JArr groups))
             ''warnings'' (JArr (graph_warnings graph @ w1 @ w2 @ w3)))"

section \<open>Watchdog scripts\<close>

definition WATCHDOG_ID :: string where "WATCHDOG_ID = ''service:watchdog''"

text \<open>The part after the last slash or backslash.\<close>

definition script_file_name :: "jv \<Rightarrow> string" where
  "script_file_name v = rev (takeWhile (\<lambda>c. c \<noteq> CHR ''/'' \<and> c \<noteq> CHR 0x5C) (rev (to_str v)))"

definition script_ok :: "jv \<Rightarrow> bool" where
  "script_ok entry \<longleftrightarrow> is_object entry \<and> is_string (jget entry ''plugin'') \<and> trim (str_of (jget entry ''plugin'')) \<noteq> []
     \<and> is_string (jget entry ''script'') \<and> script_file_name (jget entry ''script'') \<noteq> []"

definition script_node_id :: "jv \<Rightarrow> string" where
  "script_node_id entry =
     (let file = script_file_name (jget entry ''script'')
      in ''service:watchdog-script:'' @ str_of (jget entry ''plugin'') @ '':''
         @ (if ends_with ''.js'' file then take (length file - 3) file else file))"

definition script_node :: "jv \<Rightarrow> jv" where
  "script_node entry =
     JObj [(''id'', JStr (script_node_id entry)), (''kind'', JStr ''service''),
           (''label'', JStr (str_of (jget entry ''plugin'') @ '': '' @ script_file_name (jget entry ''script''))), (''parent'', JNull),
           (''runtime'', JNull), (''model'', JNull), (''work'', JNull), (''counts'', JNull)]"

definition script_edge :: "jv \<Rightarrow> jv" where
  "script_edge entry =
     (let i = JStr (script_node_id entry); t = JStr ''triggers''
      in JObj [(''id'', JStr (edge_id (JStr WATCHDOG_ID) i t)), (''from'', JStr WATCHDOG_ID), (''to'', i), (''kind'', t), (''label'', JNull)])"

definition add_new :: "jv list \<Rightarrow> jv \<Rightarrow> jv list" where
  "add_new vs v = (if id_of v \<in> set (map id_of vs) then vs else vs @ [v])"

fun add_scripts :: "nat \<Rightarrow> jv list \<Rightarrow> jv list \<Rightarrow> jv list \<Rightarrow> jv list \<times> jv list \<times> jv list" where
  "add_scripts i [] nodes edges = (nodes, edges, [])"
| "add_scripts i (entry # es) nodes edges =
     (if \<not> script_ok entry
      then (let (ns, eds, ws) = add_scripts (Suc i) es nodes edges
            in (ns, eds, JStr (''watchdog script #'' @ nat_str (Suc i) @ '' needs a plugin and a script; skipped'') # ws))
      else
        let nodes' = add_new nodes (script_node entry)
        in if JStr WATCHDOG_ID \<notin> set (map id_of nodes')
           then (let (ns, eds, ws) = add_scripts (Suc i) es nodes' edges
                 in (ns, eds, JStr (''watchdog script '' @ script_node_id entry @ '': there is no '' @ WATCHDOG_ID @ '' node; its triggers edge was skipped'') # ws))
           else add_scripts (Suc i) es nodes' (add_new edges (script_edge entry)))"

definition add_watchdog_script_nodes :: "jv \<Rightarrow> jv \<Rightarrow> jv" where
  "add_watchdog_script_nodes graph scripts =
     (if \<not> is_object graph \<or> \<not> is_array (jget graph ''nodes'') \<or> \<not> is_array scripts \<or> elems scripts = [] then graph
      else
        let (nodes, edges, ws) = add_scripts 0 (elems scripts) (map spread (elems (jget graph ''nodes''))) (map spread (elems (jget graph ''edges'')))
        in obj_put (obj_put (obj_put (spread graph) ''nodes'' (JArr (js_sort by_kind_rank nodes)))
             ''edges'' (JArr (js_sort by_id edges))) ''warnings'' (JArr (graph_warnings graph @ ws)))"

section \<open>The kept groups are the largest possible set\<close>

lemma valid_children_mono:
  "set ks \<subseteq> set ks' \<Longrightarrow> valid_children node_ids ks' g = [] \<Longrightarrow> valid_children node_ids ks g = []"
  by (auto simp: valid_children_def filter_empty_conv)

lemma prune_pass_keeps:
  assumes "\<forall>g\<in>set gs. gid_of g \<in> set ks \<longrightarrow> valid_children node_ids ks g \<noteq> []" and "set ks \<subseteq> set kept"
  shows "set ks \<subseteq> set (prune_pass node_ids gs kept)"
  using assms
proof (induction gs arbitrary: kept)
  case Nil
  then show ?case by simp
next
  case (Cons g gs)
  show ?case
  proof (cases "gid_of g \<in> set kept \<and> valid_children node_ids kept g = []")
    case True
    with valid_children_mono [OF Cons.prems(2)] Cons.prems(1) have "gid_of g \<notin> set ks" by auto
    with Cons.prems(2) have "set ks \<subseteq> set (filter (\<lambda>i. i \<noteq> gid_of g) kept)" by auto
    with Cons.IH Cons.prems(1) True show ?thesis by simp
  next
    case False
    then have "prune_pass node_ids (g # gs) kept = prune_pass node_ids gs kept" by auto
    with Cons show ?thesis by simp
  qed
qed

lemma prune_pass_subset: "set (prune_pass node_ids gs kept) \<subseteq> set kept"
  by (induction node_ids gs kept rule: prune_pass.induct) (auto split: if_splits)

lemma prune_result:
  "set (prune node_ids gs kept) \<subseteq> set kept
   \<and> (\<forall>g\<in>set gs. gid_of g \<in> set (prune node_ids gs kept) \<longrightarrow> valid_children node_ids (prune node_ids gs kept) g \<noteq> [])"
proof (induction node_ids gs kept rule: prune.induct)
  case (1 node_ids gs kept)
  show ?case
  proof (cases "prune_pass node_ids gs kept = kept")
    case True
    then have "prune node_ids gs kept = kept" by (simp add: prune.simps)
    then show ?thesis using prune_pass_same [of node_ids gs kept] True by simp
  next
    case False
    then have "prune node_ids gs kept = prune node_ids gs (prune_pass node_ids gs kept)" by (simp add: prune.simps [of node_ids gs kept])
    with 1 [OF refl False] prune_pass_subset [of node_ids gs kept] show ?thesis by auto
  qed
qed

lemma prune_keeps:
  assumes "\<forall>g\<in>set gs. gid_of g \<in> set ks \<longrightarrow> valid_children node_ids ks g \<noteq> []"
  shows "set ks \<subseteq> set kept \<Longrightarrow> set ks \<subseteq> set (prune node_ids gs kept)"
  using assms
proof (induction node_ids gs kept rule: prune.induct)
  case (1 node_ids gs kept)
  show ?case
  proof (cases "prune_pass node_ids gs kept = kept")
    case True
    then show ?thesis using 1(2) by (simp add: prune.simps)
  next
    case False
    then have "prune node_ids gs kept = prune node_ids gs (prune_pass node_ids gs kept)" by (simp add: prune.simps [of node_ids gs kept])
    with 1(1) [OF refl False prune_pass_keeps [OF 1(3,2)] 1(3)] show ?thesis by simp
  qed
qed

lemma kept_group_fields [simp]:
  "gid_of (kept_group node_ids kept g) = gid_of g"
  "jget (kept_group node_ids kept g) ''children'' = JArr (valid_children node_ids kept g)"
  by (simp_all add: kept_group_def gid_of_def)

lemma keep_groups_ids:
  "gid_of ` set (fst (keep_groups cfg node_ids))
     = set (prune node_ids (filter group_shaped cfg) (uniq (map gid_of (filter group_shaped cfg))))"
proof -
  let ?gs = "filter group_shaped cfg" and ?k = "prune node_ids (filter group_shaped cfg) (uniq (map gid_of (filter group_shaped cfg)))"
  have "set ?k \<subseteq> gid_of ` set ?gs" using prune_result [of node_ids ?gs "uniq (map gid_of ?gs)"] by simp
  moreover have "gid_of ` set (fst (keep_groups cfg node_ids)) = {gid_of g | g. g \<in> set ?gs \<and> gid_of g \<in> set ?k}"
    by (auto simp: keep_groups_def Let_def image_image)
  ultimately show ?thesis by auto
qed

text \<open>The groups shown on the graph are the largest set of configured groups in which every group has a child
  that is a node or another group of the set: every kept group has a child, all its children exist, and any
  set of group ids with that property is among the kept ones.\<close>

theorem kept_groups_largest:
  assumes "set ks \<subseteq> gid_of ` {g \<in> set cfg. group_shaped g}"
    and "\<forall>g\<in>set cfg. group_shaped g \<longrightarrow> gid_of g \<in> set ks \<longrightarrow> valid_children node_ids ks g \<noteq> []"
  shows "set ks \<subseteq> gid_of ` set (fst (keep_groups cfg node_ids))
     \<and> (\<forall>g\<in>set (fst (keep_groups cfg node_ids)). elems (jget g ''children'') \<noteq> []
          \<and> (\<forall>c\<in>set (elems (jget g ''children'')). c \<in> set node_ids \<or> str_of c \<in> gid_of ` set (fst (keep_groups cfg node_ids)) - {gid_of g}))"
proof
  let ?gs = "filter group_shaped cfg" and ?k = "prune node_ids (filter group_shaped cfg) (uniq (map gid_of (filter group_shaped cfg)))"
  have "set ks \<subseteq> set (uniq (map gid_of ?gs))" using assms(1) by auto
  moreover have "\<forall>g\<in>set ?gs. gid_of g \<in> set ks \<longrightarrow> valid_children node_ids ks g \<noteq> []" using assms(2) by auto
  ultimately show "set ks \<subseteq> gid_of ` set (fst (keep_groups cfg node_ids))" unfolding keep_groups_ids by (intro prune_keeps)
  show "\<forall>g\<in>set (fst (keep_groups cfg node_ids)). elems (jget g ''children'') \<noteq> []
      \<and> (\<forall>c\<in>set (elems (jget g ''children'')). c \<in> set node_ids \<or> str_of c \<in> gid_of ` set (fst (keep_groups cfg node_ids)) - {gid_of g})"
  proof
    fix g assume "g \<in> set (fst (keep_groups cfg node_ids))"
    then obtain h where h: "h \<in> set ?gs" "gid_of h \<in> set ?k" "g = kept_group node_ids ?k h" by (auto simp: keep_groups_def Let_def)
    have "valid_children node_ids ?k h \<noteq> []" using prune_result [of node_ids ?gs "uniq (map gid_of ?gs)"] h(1,2) by blast
    with h show "elems (jget g ''children'') \<noteq> []
      \<and> (\<forall>c\<in>set (elems (jget g ''children'')). c \<in> set node_ids \<or> str_of c \<in> gid_of ` set (fst (keep_groups cfg node_ids)) - {gid_of g})"
      unfolding keep_groups_ids by (auto simp: valid_children_def)
  qed
qed

section \<open>Nodes keep their identity\<close>

lemma update_last_frame: "\<forall>n\<in>set ns. h (f n) = h n \<Longrightarrow> map h (update_last i f ns) = map h ns"
  by (induction i f ns rule: update_last.induct) auto

lemma update_last_keyed: "\<forall>n\<in>set ns. keyed n \<and> keyed (f n) \<Longrightarrow> \<forall>n\<in>set (update_last i f ns). keyed n"
  by (induction i f ns rule: update_last.induct) auto

lemma update_last_map:
  "distinct (map id_of ns) \<Longrightarrow> update_last i f ns = map (\<lambda>n. if id_of n = JStr i then f n else n) ns"
proof (induction ns)
  case Nil
  then show ?case by simp
next
  case (Cons n ns)
  have "id_of n \<noteq> JStr i \<Longrightarrow> JStr i \<notin> set (map id_of ns) \<Longrightarrow> map (\<lambda>n. if id_of n = JStr i then f n else n) ns = ns"
    by (intro map_idI) (force simp: image_iff)
  moreover have "id_of n = JStr i \<Longrightarrow> map (\<lambda>n. if id_of n = JStr i then f n else n) ns = ns"
    using Cons.prems by (intro map_idI) (force simp: image_iff)
  ultimately show ?case using Cons by auto
qed

definition adopted :: "jv \<Rightarrow> jv \<Rightarrow> jv \<Rightarrow> jv" where
  "adopted g n c = (if id_of n = JStr (str_of c) \<and> jget n ''parent'' = JNull then obj_put n ''parent'' (jget g ''id'') else n)"

lemma adopted_frame: "keyed n \<Longrightarrow> keyed (adopted g n c) \<and> id_of (adopted g n c) = id_of n"
  by (simp add: adopted_def id_put)

lemma adopt_frame: "\<forall>n\<in>set ns. keyed n \<Longrightarrow> map id_of (adopt g ns c) = map id_of ns \<and> (\<forall>n\<in>set (adopt g ns c). keyed n)"
  unfolding adopt_def by (intro conjI update_last_frame update_last_keyed) (auto simp: id_put)

lemma adopt_list_frame:
  "\<forall>n\<in>set ns. keyed n \<Longrightarrow> map id_of (foldl (adopt g) ns cs) = map id_of ns \<and> (\<forall>n\<in>set (foldl (adopt g) ns cs). keyed n)"
proof (induction cs arbitrary: ns)
  case Nil
  then show ?case by simp
next
  case (Cons c cs)
  from adopt_frame [OF Cons.prems, of g c] Cons.IH [of "adopt g ns c"] show ?case by simp
qed

lemma adopt_all_frame:
  "\<forall>n\<in>set ns. keyed n \<Longrightarrow> map id_of (adopt_all gs ns) = map id_of ns \<and> (\<forall>n\<in>set (adopt_all gs ns). keyed n)"
proof (induction gs arbitrary: ns)
  case Nil
  then show ?case by (simp add: adopt_all_def)
next
  case (Cons g gs)
  from adopt_list_frame [OF Cons.prems, of g "elems (jget g ''children'')"]
    Cons.IH [of "foldl (adopt g) ns (elems (jget g ''children''))"] show ?case by (simp add: adopt_all_def)
qed

lemma apply_labels_frame:
  "\<forall>n\<in>set ns. keyed n \<Longrightarrow> k \<noteq> ''label'' \<Longrightarrow>
   map (\<lambda>n. jget n k) (fst (apply_labels ls ns)) = map (\<lambda>n. jget n k) ns"
proof (induction ls arbitrary: ns)
  case Nil
  then show ?case by simp
next
  case (Cons l ls)
  obtain i label where l: "l = (i, label)" by fastforce
  show ?case
  proof (cases "JStr i \<in> set (map id_of ns)")
    case True
    let ?ns = "if is_string label \<and> str_of label \<noteq> [] then update_last i (\<lambda>n. obj_put n ''label'' label) ns else ns"
    have "map (\<lambda>n. jget n k) (update_last i (\<lambda>n. obj_put n ''label'' label) ns) = map (\<lambda>n. jget n k) ns"
      using Cons.prems by (intro update_last_frame) (simp add: jget_put)
    moreover have "\<forall>n\<in>set (update_last i (\<lambda>n. obj_put n ''label'' label) ns). keyed n"
      using Cons.prems(1) by (intro update_last_keyed) simp
    ultimately have "map (\<lambda>n. jget n k) ?ns = map (\<lambda>n. jget n k) ns \<and> (\<forall>n\<in>set ?ns. keyed n)"
      using Cons.prems by (cases "is_string label \<and> str_of label \<noteq> []") (simp_all only: if_True if_False simp_thms)
    moreover have "apply_labels (l # ls) ns = apply_labels ls ?ns" using True by (simp add: l)
    ultimately show ?thesis using Cons.IH [of ?ns] Cons.prems(2) by simp
  next
    case False
    with Cons.IH [OF Cons.prems] show ?thesis by (simp add: l case_prod_beta)
  qed
qed

lemma map_id_of: "map id_of ns = map (\<lambda>n. jget n ''id'') ns"
  by (simp add: id_of_def)

lemma apply_labels_ids: "\<forall>n\<in>set ns. keyed n \<Longrightarrow> map id_of (fst (apply_labels ls ns)) = map id_of ns"
  unfolding map_id_of by (rule apply_labels_frame) auto

definition overlaid_nodes :: "jv \<Rightarrow> jv \<Rightarrow> jv list" where
  "overlaid_nodes graph config =
     fst (apply_labels (if is_object (jget config ''labels'') then obj_entries (jget config ''labels'') else [])
       (adopt_all (fst (keep_groups (elems (jget config ''groups'')) (map id_of (nodes_of graph)))) (map spread (nodes_of graph))))"

definition overlaid_edges :: "jv \<Rightarrow> jv \<Rightarrow> jv list" where
  "overlaid_edges graph config =
     fst (add_authored (map id_of (nodes_of graph)) (elems (jget config ''edges'')) (map spread (edges_of graph)))"

lemma apply_workflow_config_parts:
  assumes "is_object graph" and "is_array (jget graph ''nodes'')" and "is_object config"
  shows "nodes_of (apply_workflow_config graph config) = js_sort by_kind_rank (overlaid_nodes graph config)"
    and "edges_of (apply_workflow_config graph config) = js_sort by_id (overlaid_edges graph config)"
    and "elems (jget (apply_workflow_config graph config) ''groups'') = fst (keep_groups (elems (jget config ''groups'')) (map id_of (nodes_of graph)))"
  using assms
  by (simp_all add: apply_workflow_config_def nodes_of_def edges_of_def overlaid_nodes_def overlaid_edges_def
      Let_def case_prod_beta jget_put comp_def)

lemma overlay_nodes_mset:
  "mset (map id_of (nodes_of (apply_workflow_config graph config))) = mset (map id_of (nodes_of graph))"
proof (cases "is_object graph \<and> is_array (jget graph ''nodes'') \<and> is_object config")
  case True
  have "map id_of (overlaid_nodes graph config) = map id_of (map spread (nodes_of graph))"
    unfolding overlaid_nodes_def
    by (subst apply_labels_ids) (use adopt_all_frame [of "map spread (nodes_of graph)"] in auto)
  then have "mset (map id_of (overlaid_nodes graph config)) = mset (map id_of (nodes_of graph))" by (simp add: comp_def)
  with True show ?thesis by (simp add: apply_workflow_config_parts)
next
  case False
  then have "apply_workflow_config graph config = graph" by (simp add: apply_workflow_config_def)
  then show ?thesis by simp
qed

lemma overlay_nodes_set: "set (map id_of (nodes_of (apply_workflow_config graph config))) = set (map id_of (nodes_of graph))"
  using overlay_nodes_mset by (metis set_mset_mset)

text \<open>Applying the workflow file adds no node, removes none and renames none: the ids of the nodes are the same,
  each as often as before.\<close>

theorem overlay_keeps_nodes:
  "mset (map id_of (nodes_of (apply_workflow_config graph config))) = mset (map id_of (nodes_of graph))"
  by (rule overlay_nodes_mset)

section \<open>The first group adopts\<close>

lemma adopt_list_map:
  "distinct (map id_of ns) \<Longrightarrow> \<forall>n\<in>set ns. keyed n \<Longrightarrow> foldl (adopt g) ns cs = map (\<lambda>n. foldl (adopted g) n cs) ns"
proof (induction cs arbitrary: ns)
  case Nil
  then show ?case by simp
next
  case (Cons c cs)
  have a: "adopt g ns c = map (\<lambda>n. adopted g n c) ns"
    unfolding adopt_def update_last_map [OF Cons.prems(1)] by (simp add: adopted_def)
  have "distinct (map id_of (adopt g ns c))" "\<forall>n\<in>set (adopt g ns c). keyed n"
    using adopt_frame [OF Cons.prems(2)] Cons.prems(1) by simp_all
  from Cons.IH [OF this] show ?case by (simp add: a)
qed

lemma adopt_all_map:
  "distinct (map id_of ns) \<Longrightarrow> \<forall>n\<in>set ns. keyed n \<Longrightarrow>
   adopt_all gs ns = map (\<lambda>n. foldl (\<lambda>n g. foldl (adopted g) n (elems (jget g ''children''))) n gs) ns"
proof (induction gs arbitrary: ns)
  case Nil
  then show ?case by (simp add: adopt_all_def)
next
  case (Cons g gs)
  have "distinct (map id_of (foldl (adopt g) ns (elems (jget g ''children''))))" "\<forall>n\<in>set (foldl (adopt g) ns (elems (jget g ''children''))). keyed n"
    using adopt_list_frame [OF Cons.prems(2)] Cons.prems(1) by simp_all
  from Cons.IH [OF this] show ?case by (simp add: adopt_all_def adopt_list_map [OF Cons.prems] comp_def)
qed

lemma adopted_list_parent:
  "keyed n \<Longrightarrow> id_of n = JStr i \<Longrightarrow> \<forall>c\<in>set cs. is_string c \<Longrightarrow> jget g ''id'' \<noteq> JNull \<Longrightarrow>
   keyed (foldl (adopted g) n cs) \<and> id_of (foldl (adopted g) n cs) = JStr i
   \<and> jget (foldl (adopted g) n cs) ''parent'' = (if jget n ''parent'' = JNull \<and> JStr i \<in> set cs then jget g ''id'' else jget n ''parent'')"
proof (induction cs arbitrary: n)
  case Nil
  then show ?case by auto
next
  case (Cons c cs)
  have c: "c = JStr i \<longleftrightarrow> id_of n = JStr (str_of c)" using Cons.prems(2,3) by (cases c) auto
  have "keyed (adopted g n c)" "id_of (adopted g n c) = JStr i" using adopted_frame Cons.prems(1,2) by simp_all
  moreover have "jget (adopted g n c) ''parent'' = (if jget n ''parent'' = JNull \<and> c = JStr i then jget g ''id'' else jget n ''parent'')"
    using Cons.prems(1) c by (simp add: adopted_def jget_put)
  ultimately show ?case using Cons.IH [of "adopted g n c"] Cons.prems(3,4) by auto
qed

lemma adopted_groups_id:
  "keyed n \<Longrightarrow> id_of n = JStr i \<Longrightarrow> id_of (foldl (\<lambda>n g. foldl (adopted g) n (elems (jget g ''children''))) n gs) = JStr i"
proof (induction gs arbitrary: n)
  case (Cons g gs)
  have "keyed (foldl (adopted g) n cs) \<and> id_of (foldl (adopted g) n cs) = JStr i" for cs
    using Cons.prems by (induction cs arbitrary: n) (simp_all add: adopted_frame)
  with Cons.IH show ?case by simp
qed simp

lemma adopted_groups_parent:
  "keyed n \<Longrightarrow> id_of n = JStr i \<Longrightarrow> \<forall>g\<in>set gs. is_string (jget g ''id'') \<and> (\<forall>c\<in>set (elems (jget g ''children'')). is_string c) \<Longrightarrow>
   jget (foldl (\<lambda>n g. foldl (adopted g) n (elems (jget g ''children''))) n gs) ''parent'' =
     (if jget n ''parent'' = JNull
      then (case find (\<lambda>g. JStr i \<in> set (elems (jget g ''children''))) gs of Some g \<Rightarrow> jget g ''id'' | None \<Rightarrow> JNull)
      else jget n ''parent'')"
proof (induction gs arbitrary: n)
  case Nil
  then show ?case by simp
next
  case (Cons g gs)
  let ?n = "foldl (adopted g) n (elems (jget g ''children''))"
  have g: "jget g ''id'' \<noteq> JNull" "\<forall>c\<in>set (elems (jget g ''children'')). is_string c" using Cons.prems(3) by auto
  from adopted_list_parent [OF Cons.prems(1,2) g(2,1)] Cons.IH [of ?n] Cons.prems(3) g(1)
  show ?case by auto
qed

text \<open>A node without a parent is put into the first group, in the order of the workflow file, that lists it; a
  node that has a parent keeps it.\<close>

theorem first_group_adopts:
  assumes "is_object config" and "distinct (map id_of (nodes_of graph))"
    and "n \<in> set (nodes_of graph)" and "is_object n" and "id_of n = JStr i"
  shows "\<exists>m\<in>set (nodes_of (apply_workflow_config graph config)). id_of m = JStr i \<and>
     jget m ''parent'' =
       (if jget n ''parent'' = JNull
        then (case find (\<lambda>g. JStr i \<in> set (elems (jget g ''children''))) (elems (jget (apply_workflow_config graph config) ''groups'')) of
                Some g \<Rightarrow> jget g ''id'' | None \<Rightarrow> JNull)
        else jget n ''parent'')"
proof -
  have shape: "is_array (jget graph ''nodes'')" "is_object graph"
    using assms(3) by (cases "jget graph ''nodes''"; simp add: nodes_of_def) (cases graph; use assms(3) in \<open>simp add: nodes_of_def\<close>)
  let ?ids = "map id_of (nodes_of graph)" and ?ns = "map spread (nodes_of graph)"
  let ?gs = "fst (keep_groups (elems (jget config ''groups'')) ?ids)"
  have k: "\<forall>n\<in>set ?ns. keyed n" "distinct (map id_of ?ns)" using assms(2) by (simp_all add: comp_def)
  have gs: "\<forall>g\<in>set ?gs. is_string (jget g ''id'') \<and> (\<forall>c\<in>set (elems (jget g ''children'')). is_string c)"
    by (auto simp: keep_groups_def Let_def kept_group_def group_shaped_def valid_children_def)
  let ?a = "foldl (\<lambda>n g. foldl (adopted g) n (elems (jget g ''children''))) (spread n) ?gs"
  have a: "?a \<in> set (adopt_all ?gs ?ns)" unfolding adopt_all_map [OF k(2,1)] using assms(3) by auto
  have ka: "\<forall>n\<in>set (adopt_all ?gs ?ns). keyed n" "map id_of (adopt_all ?gs ?ns) = ?ids"
    using adopt_all_frame [OF k(1), of ?gs] by (simp_all add: comp_def)
  let ?ls = "if is_object (jget config ''labels'') then obj_entries (jget config ''labels'') else []"
  let ?o = "overlaid_nodes graph config"
  have o: "?o = fst (apply_labels ?ls (adopt_all ?gs ?ns))" by (simp add: overlaid_nodes_def)
  from a obtain j where j: "j < length (adopt_all ?gs ?ns)" "adopt_all ?gs ?ns ! j = ?a" by (auto simp: in_set_conv_nth)
  have ids: "map id_of ?o = map id_of (adopt_all ?gs ?ns)" unfolding o by (rule apply_labels_ids [OF ka(1)])
  have ps: "map (\<lambda>n. jget n ''parent'') ?o = map (\<lambda>n. jget n ''parent'') (adopt_all ?gs ?ns)"
    unfolding o by (rule apply_labels_frame [OF ka(1)]) simp
  have len: "length ?o = length (adopt_all ?gs ?ns)" using arg_cong [OF ids, of length] by simp
  have "id_of (?o ! j) = id_of ?a" using arg_cong [OF ids, of "\<lambda>l. l ! j"] j len by simp
  moreover have "jget (?o ! j) ''parent'' = jget ?a ''parent''" using arg_cong [OF ps, of "\<lambda>l. l ! j"] j len by simp
  moreover have "?o ! j \<in> set ?o" using j(1) len by simp
  moreover have "id_of (spread n) = JStr i" "keyed (spread n)" using assms(5) by simp_all
  ultimately show ?thesis
    using adopted_groups_id [of "spread n" i ?gs] adopted_groups_parent [OF _ _ gs, of "spread n" i] shape assms(1,4)
    by (intro bexI [of _ "?o ! j"]) (simp_all add: apply_workflow_config_parts jget_spread)
qed

section \<open>Edges and scripts\<close>

lemma add_authored_result:
  "set (fst (add_authored ids es edges)) \<subseteq> set edges \<union> {authored_edge e | e. e \<in> set es \<and> is_object e \<and> missing_end ids e = JUndef}
   \<and> id_of ` set (fst (add_authored ids es edges))
       = id_of ` set edges \<union> {id_of (authored_edge e) | e. e \<in> set es \<and> is_object e \<and> missing_end ids e = JUndef}
   \<and> (distinct (map id_of edges) \<longrightarrow> distinct (map id_of (fst (add_authored ids es edges))))"
proof (induction es arbitrary: edges)
  case Nil
  then show ?case by simp
next
  case (Cons e es)
  let ?added = "\<lambda>es. {x. x \<in> set es \<and> is_object x \<and> missing_end ids x = JUndef}"
  have img: "{f x | x. x \<in> set es' \<and> is_object x \<and> missing_end ids x = JUndef} = f ` ?added es'" for f :: "jv \<Rightarrow> jv" and es' by auto
  have IH: "set (fst (add_authored ids es edges)) \<subseteq> set edges \<union> authored_edge ` ?added es
     \<and> id_of ` set (fst (add_authored ids es edges)) = id_of ` set edges \<union> (\<lambda>x. id_of (authored_edge x)) ` ?added es
     \<and> (distinct (map id_of edges) \<longrightarrow> distinct (map id_of (fst (add_authored ids es edges))))" for edges
    using Cons.IH [of edges] unfolding img .
  show ?case
  proof (cases "is_object e \<and> missing_end ids e = JUndef")
    case False
    then have f: "fst (add_authored ids (e # es) edges) = fst (add_authored ids es edges)" by (auto simp: Let_def case_prod_beta)
    have "?added (e # es) = ?added es" using False by auto
    with IH [of edges] show ?thesis unfolding img f by simp
  next
    case True
    then have a: "?added (e # es) = insert e (?added es)" by auto
    show ?thesis
    proof (cases "id_of (authored_edge e) \<in> set (map id_of edges)")
      case mem: True
      then have f: "fst (add_authored ids (e # es) edges) = fst (add_authored ids es edges)" using True by (simp add: Let_def)
      show ?thesis unfolding img f a using IH [of edges] mem by auto
    next
      case False
      then have f: "fst (add_authored ids (e # es) edges) = fst (add_authored ids es (edges @ [authored_edge e]))"
        using True by (simp add: Let_def)
      show ?thesis unfolding img f a using IH [of "edges @ [authored_edge e]"] False by auto
    qed
  qed
qed

definition joined :: "jv list \<Rightarrow> wf_edge \<Rightarrow> bool" where
  "joined node_ids e \<longleftrightarrow> JStr (we_from e) \<in> set node_ids \<and> JStr (we_to e) \<in> set node_ids"

definition wf_edge_name :: "wf_edge \<Rightarrow> string" where
  "wf_edge_name e = edge_id (JStr (we_from e)) (JStr (we_to e)) (JStr (we_kind e))"

lemma edge_json_fields:
  "is_object (edge_json e)" "id_of (authored_edge (edge_json e)) = JStr (wf_edge_name e)"
  "jget (authored_edge (edge_json e)) ''from'' = JStr (we_from e)" "jget (authored_edge (edge_json e)) ''to'' = JStr (we_to e)"
  "missing_end ids (edge_json e) = JUndef \<longleftrightarrow> joined ids e"
  by (simp_all add: edge_json_def authored_edge_def id_of_def wf_edge_name_def missing_end_def joined_def)

lemma authored_edges_result:
  assumes "is_object graph" and "is_array (jget graph ''nodes'')"
  shows "set (map id_of (edges_of (apply_workflow_config graph (config_json c)))) =
       set (map id_of (edges_of graph)) \<union> {JStr (wf_edge_name e) | e. e \<in> set (wc_edges c) \<and> joined (map id_of (nodes_of graph)) e}
     \<and> (\<forall>e\<in>set (edges_of (apply_workflow_config graph (config_json c))).
          e \<in> spread ` set (edges_of graph)
          \<or> {jget e ''from'', jget e ''to''} \<subseteq> set (map id_of (nodes_of (apply_workflow_config graph (config_json c)))))
     \<and> (distinct (map id_of (edges_of graph)) \<longrightarrow> distinct (map id_of (edges_of (apply_workflow_config graph (config_json c)))))"
proof -
  let ?ids = "map id_of (nodes_of graph)" and ?es = "map edge_json (wc_edges c)"
  have c: "is_object (config_json c)" "elems (jget (config_json c) ''edges'') = ?es" by (simp_all add: config_json_def)
  have same: "set (map id_of (nodes_of (apply_workflow_config graph (config_json c)))) = set ?ids"
    using overlay_nodes_set by simp
  have e: "edges_of (apply_workflow_config graph (config_json c)) = js_sort by_id (fst (add_authored ?ids ?es (map spread (edges_of graph))))"
    using apply_workflow_config_parts(2) [OF assms c(1)] c(2) by (simp add: overlaid_edges_def)
  have added: "{f x | x. x \<in> set ?es \<and> is_object x \<and> missing_end ?ids x = JUndef} = (\<lambda>x. f (edge_json x)) ` {x \<in> set (wc_edges c). joined ?ids x}"
    for f :: "jv \<Rightarrow> jv" by (auto simp: edge_json_fields)
  note r = add_authored_result [of ?ids ?es "map spread (edges_of graph)", unfolded added]
  have "set (map id_of (edges_of (apply_workflow_config graph (config_json c)))) =
       set (map id_of (edges_of graph)) \<union> {JStr (wf_edge_name e) | e. e \<in> set (wc_edges c) \<and> joined ?ids e}"
    using r unfolding e by (auto simp: edge_json_fields image_image)
  moreover have "\<forall>e\<in>set (edges_of (apply_workflow_config graph (config_json c))).
          e \<in> spread ` set (edges_of graph) \<or> {jget e ''from'', jget e ''to''} \<subseteq> set ?ids"
    using r unfolding e by (auto simp: edge_json_fields joined_def)
  moreover have "distinct (map id_of (edges_of graph)) \<longrightarrow> distinct (map id_of (edges_of (apply_workflow_config graph (config_json c))))"
    using r unfolding e by (simp add: comp_def)
  ultimately show ?thesis unfolding same by blast
qed

text \<open>The operator's edges: each edge of the workflow file whose two ends are nodes of the graph is there
  afterwards under its name, nothing else is added, an edge that was added joins two nodes, and no name
  occurs twice if none did before.\<close>

theorem authored_edges_join_nodes:
  assumes "is_object graph" and "is_array (jget graph ''nodes'')"
  shows "set (map id_of (edges_of (apply_workflow_config graph (config_json c)))) =
       set (map id_of (edges_of graph)) \<union> {JStr (wf_edge_name e) | e. e \<in> set (wc_edges c) \<and> joined (map id_of (nodes_of graph)) e}
     \<and> (\<forall>e\<in>set (edges_of (apply_workflow_config graph (config_json c))).
          e \<in> spread ` set (edges_of graph)
          \<or> {jget e ''from'', jget e ''to''} \<subseteq> set (map id_of (nodes_of (apply_workflow_config graph (config_json c)))))
     \<and> (distinct (map id_of (edges_of graph)) \<longrightarrow> distinct (map id_of (edges_of (apply_workflow_config graph (config_json c)))))"
  using authored_edges_result [OF assms] .

lemma script_ids:
  "id_of (script_node e) = JStr (script_node_id e)" "script_node_id e \<noteq> WATCHDOG_ID"
  by (simp_all add: script_node_def id_of_def script_node_id_def WATCHDOG_ID_def Let_def)

lemma add_new_ids: "id_of ` set (add_new vs v) = insert (id_of v) (id_of ` set vs)"
  by (auto simp: add_new_def)

lemma add_new_distinct: "distinct (map id_of vs) \<Longrightarrow> distinct (map id_of (add_new vs v))"
  by (simp add: add_new_def)

lemma add_scripts_result:
  "id_of ` set (fst (add_scripts i es nodes edges)) = id_of ` set nodes \<union> {JStr (script_node_id e) | e. e \<in> set es \<and> script_ok e}
   \<and> id_of ` set (fst (snd (add_scripts i es nodes edges)))
       = id_of ` set edges \<union> {id_of (script_edge e) | e. e \<in> set es \<and> script_ok e \<and> JStr WATCHDOG_ID \<in> id_of ` set nodes}
   \<and> (distinct (map id_of nodes) \<longrightarrow> distinct (map id_of (fst (add_scripts i es nodes edges))))"
proof (induction es arbitrary: i nodes edges)
  case Nil
  then show ?case by simp
next
  case (Cons e es)
  show ?case
  proof (cases "script_ok e")
    case False
    with Cons.IH [of "Suc i" nodes edges] show ?thesis by (auto simp: case_prod_beta)
  next
    case True
    let ?n = "add_new nodes (script_node e)"
    have n: "id_of ` set ?n = insert (JStr (script_node_id e)) (id_of ` set nodes)" by (simp add: add_new_ids script_ids)
    then have w: "JStr WATCHDOG_ID \<in> id_of ` set ?n \<longleftrightarrow> JStr WATCHDOG_ID \<in> id_of ` set nodes" using script_ids(2) [of e] by auto
    have d: "distinct (map id_of nodes) \<Longrightarrow> distinct (map id_of ?n)" by (rule add_new_distinct)
    show ?thesis
    proof (cases "JStr WATCHDOG_ID \<in> id_of ` set nodes")
      case False
      with True w Cons.IH [of "Suc i" ?n edges] n d show ?thesis by (auto simp: case_prod_beta Let_def)
    next
      case mem: True
      have f: "add_scripts i (e # es) nodes edges = add_scripts (Suc i) es ?n (add_new edges (script_edge e))"
        using True mem w by (simp add: Let_def)
      show ?thesis unfolding f
        using Cons.IH [of "Suc i" ?n "add_new edges (script_edge e)"] True mem w n d by (auto simp: add_new_ids)
    qed
  qed
qed

lemma add_scripts_edges:
  "set (fst (snd (add_scripts i es nodes edges)))
     \<subseteq> set edges \<union> {script_edge e | e. e \<in> set es \<and> script_ok e \<and> JStr WATCHDOG_ID \<in> id_of ` set nodes}"
proof (induction es arbitrary: i nodes edges)
  case Nil
  then show ?case by simp
next
  case (Cons e es)
  show ?case
  proof (cases "script_ok e")
    case False
    then have f: "fst (snd (add_scripts i (e # es) nodes edges)) = fst (snd (add_scripts (Suc i) es nodes edges))"
      by (simp add: case_prod_beta)
    show ?thesis unfolding f by (rule order_trans [OF Cons.IH]) auto
  next    case True
    let ?n = "add_new nodes (script_node e)"
    have w: "JStr WATCHDOG_ID \<in> id_of ` set ?n \<longleftrightarrow> JStr WATCHDOG_ID \<in> id_of ` set nodes"
      using script_ids [of e] by (auto simp: add_new_ids)
    show ?thesis
    proof (cases "JStr WATCHDOG_ID \<in> id_of ` set nodes")
      case False
      with True w have f: "fst (snd (add_scripts i (e # es) nodes edges)) = fst (snd (add_scripts (Suc i) es ?n edges))"
        by (simp add: case_prod_beta Let_def)
      show ?thesis unfolding f using Cons.IH [of "Suc i" ?n edges] False w by auto
    next
      case mem: True
      have f: "add_scripts i (e # es) nodes edges = add_scripts (Suc i) es ?n (add_new edges (script_edge e))"
        using True mem w by (simp add: Let_def)
      have "set (add_new edges (script_edge e)) \<subseteq> set edges \<union> {script_edge e}" by (auto simp: add_new_def)
      then show ?thesis unfolding f using Cons.IH [of "Suc i" ?n "add_new edges (script_edge e)"] True mem w by auto
    qed
  qed
qed

lemma scripts_result:
  assumes "is_object graph" and "is_array (jget graph ''nodes'')" and "is_array scripts"
  shows "set (map id_of (nodes_of (add_watchdog_script_nodes graph scripts))) =
       set (map id_of (nodes_of graph)) \<union> {JStr (script_node_id e) | e. e \<in> set (elems scripts) \<and> script_ok e}
     \<and> set (map id_of (edges_of (add_watchdog_script_nodes graph scripts))) =
       set (map id_of (edges_of graph))
         \<union> {id_of (script_edge e) | e. e \<in> set (elems scripts) \<and> script_ok e \<and> JStr WATCHDOG_ID \<in> set (map id_of (nodes_of graph))}
     \<and> (distinct (map id_of (nodes_of graph)) \<longrightarrow> distinct (map id_of (nodes_of (add_watchdog_script_nodes graph scripts))))"
proof (cases "elems scripts = []")
  case True
  then show ?thesis using assms by (simp add: add_watchdog_script_nodes_def)
next
  case False
  let ?r = "add_scripts 0 (elems scripts) (map spread (nodes_of graph)) (map spread (edges_of graph))"
  have "nodes_of (add_watchdog_script_nodes graph scripts) = js_sort by_kind_rank (fst ?r)"
    "edges_of (add_watchdog_script_nodes graph scripts) = js_sort by_id (fst (snd ?r))"
    using assms False by (simp_all add: add_watchdog_script_nodes_def nodes_of_def edges_of_def Let_def case_prod_beta jget_put)
  with add_scripts_result [of 0 "elems scripts" "map spread (nodes_of graph)" "map spread (edges_of graph)"]
  show ?thesis by (simp add: image_image comp_def)
qed

text \<open>Every well-formed watchdog script gets its service node, next to the nodes that were there, and, when the graph
  has the watchdog, a triggers edge from it; without the watchdog no edge is added. No node id is duplicated.\<close>

theorem scripts_get_nodes_and_edges:
  assumes "is_object graph" and "is_array (jget graph ''nodes'')" and "is_array scripts"
  shows "set (map id_of (nodes_of (add_watchdog_script_nodes graph scripts))) =
       set (map id_of (nodes_of graph)) \<union> {JStr (script_node_id e) | e. e \<in> set (elems scripts) \<and> script_ok e}
     \<and> set (map id_of (edges_of (add_watchdog_script_nodes graph scripts))) =
       set (map id_of (edges_of graph))
         \<union> {id_of (script_edge e) | e. e \<in> set (elems scripts) \<and> script_ok e \<and> JStr WATCHDOG_ID \<in> set (map id_of (nodes_of graph))}
     \<and> (distinct (map id_of (nodes_of graph)) \<longrightarrow> distinct (map id_of (nodes_of (add_watchdog_script_nodes graph scripts))))"
  using scripts_result [OF assms] .

section \<open>A concrete graph\<close>

definition overlay_graph :: jv where
  "overlay_graph = JObj
     [(''nodes'', JArr [JObj [(''id'', JStr ''w1''), (''kind'', JStr ''loop''), (''parent'', JNull)],
                      JObj [(''id'', JStr ''w2''), (''kind'', JStr ''loop''), (''parent'', JNull)],
                      JObj [(''id'', JStr ''service:watchdog''), (''kind'', JStr ''service''), (''parent'', JNull)]]),
      (''edges'', JArr [])]"

definition demo_scripts :: jv where
  "demo_scripts = JArr [JObj [(''plugin'', JStr ''p''), (''script'', JStr ''a/b.js'')]]"

lemma overlay_graph_shape: "is_object overlay_graph" "is_array (jget overlay_graph ''nodes'')" "is_array demo_scripts"
  by code_simp+

lemma overlay_graph_ids: "map id_of (nodes_of overlay_graph) = [JStr ''w1'', JStr ''w2'', JStr ''service:watchdog'']"
  by code_simp

theorem kept_groups_largest_witness:
  "set [''group:a''] \<subseteq> gid_of ` set (fst (keep_groups (map group_json (wc_groups demo_config)) [JStr ''w1'']))"
proof -
  have s: "list_all group_shaped (map group_json (wc_groups demo_config))" by code_simp
  have g: "map gid_of (map group_json (wc_groups demo_config)) = [''group:a'']" by code_simp
  have v: "list_all (\<lambda>g. valid_children [JStr ''w1''] [''group:a''] g \<noteq> []) (map group_json (wc_groups demo_config))" by code_simp
  have "{g \<in> set (map group_json (wc_groups demo_config)). group_shaped g} = set (map group_json (wc_groups demo_config))"
    using s by (auto simp: list_all_iff)
  moreover have "gid_of ` set (map group_json (wc_groups demo_config)) = {''group:a''}"
    using arg_cong [OF g, of set] by (simp add: image_image)
  ultimately show ?thesis
    using kept_groups_largest [of "[''group:a'']" "map group_json (wc_groups demo_config)" "[JStr ''w1'']"] v
    by (simp add: list_all_iff)
qed

theorem first_group_adopts_witness:
  "\<exists>m\<in>set (nodes_of (apply_workflow_config overlay_graph (config_json demo_config))). id_of m = JStr ''w1''
     \<and> jget m ''parent'' = JStr ''group:a''"
proof -
  let ?n = "hd (nodes_of overlay_graph)"
  have n: "?n \<in> set (nodes_of overlay_graph)" by (simp add: overlay_graph_def nodes_of_def)
  have d: "distinct (map id_of (nodes_of overlay_graph))" unfolding overlay_graph_ids by simp
  have f: "is_object (config_json demo_config)" "is_object ?n" "id_of ?n = JStr ''w1''" "jget ?n ''parent'' = JNull" by code_simp+
  have "(case find (\<lambda>g. JStr ''w1'' \<in> set (elems (jget g ''children'')))
          (elems (jget (apply_workflow_config overlay_graph (config_json demo_config)) ''groups'')) of
           Some g \<Rightarrow> jget g ''id'' | None \<Rightarrow> JNull) = JStr ''group:a''" by code_simp
  with first_group_adopts [OF f(1) d n f(2,3)] f(4) show ?thesis by simp
qed

theorem authored_edges_join_nodes_witness:
  "set (map id_of (edges_of (apply_workflow_config overlay_graph (config_json demo_config)))) = {JStr ''w1->w2:claims''}"
proof -
  have "map wf_edge_name (wc_edges demo_config) = [''w1->w2:claims'']" "list_all (joined (map id_of (nodes_of overlay_graph))) (wc_edges demo_config)"
    "edges_of overlay_graph = []" by code_simp+
  moreover from this have "{JStr (wf_edge_name e) | e. e \<in> set (wc_edges demo_config) \<and> joined (map id_of (nodes_of overlay_graph)) e}
      = JStr ` set (map wf_edge_name (wc_edges demo_config))" by (auto simp: list_all_iff)
  ultimately show ?thesis
    using authored_edges_join_nodes [OF overlay_graph_shape(1,2), of demo_config] by simp
qed

theorem scripts_get_nodes_and_edges_witness:
  "set (map id_of (nodes_of (add_watchdog_script_nodes overlay_graph demo_scripts)))
     = {JStr ''w1'', JStr ''w2'', JStr ''service:watchdog'', JStr ''service:watchdog-script:p:b''}"
proof -
  have "map script_node_id (elems demo_scripts) = [''service:watchdog-script:p:b'']" "list_all script_ok (elems demo_scripts)" by code_simp+
  moreover from this have "{JStr (script_node_id e) | e. e \<in> set (elems demo_scripts) \<and> script_ok e}
      = JStr ` set (map script_node_id (elems demo_scripts))" by (auto simp: list_all_iff)
  ultimately show ?thesis
    using scripts_get_nodes_and_edges [OF overlay_graph_shape] overlay_graph_ids by auto
qed

end
