(* ===== verification/WorkflowGraph.thy ===== *)
theory WorkflowGraph
  imports WorkflowOverlay WorkflowOrder
begin

text \<open>
  \<open>src/workflow-graph.js\<close>: the graph of the running pipeline, built from the lane registry, the instances'
  heartbeats, the topology of sources and the model settings. The input is arbitrary JSON. The builder
  calls \<open>startsWith\<close> on the ids of instances and loops, which throws when one is not a string; the
  outcome is then \<open>Throws\<close>. The time stamp (\<open>new Date()\<close>) is a parameter.
\<close>

definition STAGE_NAMES :: "string list" where
  "STAGE_NAMES = [''orient'', ''plan'', ''implement'', ''review'', ''apply'']"

text \<open>\<open>a || b\<close>.\<close>

definition or_else :: "jv \<Rightarrow> jv \<Rightarrow> jv" where
  "or_else a b = (if truthy a then a else b)"

section \<open>Input\<close>

record graph_models =
  gm_overrides :: jv
  gm_ollama :: jv
  gm_claude :: jv

record graph_input =
  gi_lanes :: "jv list"
  gi_instances :: "jv list"
  gi_topology :: "jv list"
  gi_models :: graph_models
  gi_warnings :: "jv list"

definition warn_for :: "string \<Rightarrow> jv" where
  "warn_for name = JStr (''workflow-graph: '' @ name @ '' is invalid (expected array/object); using empty'')"

definition validate_input :: "jv \<Rightarrow> jv \<Rightarrow> jv \<Rightarrow> jv \<Rightarrow> graph_input" where
  "validate_input lanes instances topology models =
     (let arr = (\<lambda>v. if is_array v then v else JArr [])
      in \<lparr>gi_lanes = elems lanes, gi_instances = elems instances, gi_topology = elems topology,
          gi_models = \<lparr>gm_overrides = (if is_object (jget models ''overrides'') then jget models ''overrides'' else JObj []),
                       gm_ollama = arr (jget models ''ollamaModels''), gm_claude = arr (jget models ''claudeModels'')\<rparr>,
          gi_warnings = (if is_array lanes then [] else [warn_for ''lanes'']) @ (if is_array instances then [] else [warn_for ''instances''])
            @ (if is_array topology then [] else [warn_for ''topology'']) @ (if is_object models then [] else [warn_for ''models''])\<rparr>)"

text \<open>The instances by id, the first one of an id.\<close>

fun build_instance_map :: "jv list \<Rightarrow> (jv \<times> jv) list \<Rightarrow> (jv \<times> jv) list" where
  "build_instance_map [] m = m"
| "build_instance_map (inst # is) m =
     (let i = jget inst ''instanceId''
      in build_instance_map is (if truthy inst \<and> truthy i \<and> \<not> has_value (map fst m) i then m @ [(i, inst)] else m))"

definition inst_of :: "(jv \<times> jv) list \<Rightarrow> jv \<Rightarrow> jv" where
  "inst_of m i = (case find (\<lambda>p. same_value i (fst p)) m of Some p \<Rightarrow> snd p | None \<Rightarrow> JNull)"

section \<open>Nodes\<close>

definition inst_model :: "jv \<Rightarrow> jv" where
  "inst_model inst = (if is_string (jget inst ''model'') then jget inst ''model'' else JNull)"

definition node_obj :: "jv \<Rightarrow> string \<Rightarrow> jv \<Rightarrow> jv \<Rightarrow> jv \<Rightarrow> jv \<Rightarrow> jv \<Rightarrow> jv" where
  "node_obj i kind label runtime model work counts =
     JObj [(''id'', i), (''kind'', JStr kind), (''label'', label), (''parent'', JNull), (''runtime'', runtime), (''model'', model),
           (''work'', work), (''counts'', counts)]"

definition model_obj :: "jv \<Rightarrow> jv \<Rightarrow> jv \<Rightarrow> bool \<Rightarrow> jv \<Rightarrow> jv \<Rightarrow> jv" where
  "model_obj name provider tier overridden local cloud =
     JObj [(''name'', name), (''provider'', provider), (''tierB'', tier), (''overridden'', JBool overridden),
           (''choices'', JObj [(''local'', local), (''cloud'', cloud)])]"

definition compute_model_for_loop :: "jv \<Rightarrow> jv \<Rightarrow> graph_models \<Rightarrow> jv" where
  "compute_model_for_loop lane inst models =
     (let provider = (if jget lane ''provider'' = JStr ''cloud'' \<or> jget lane ''cloud'' = JBool True then ''cloud''
                      else if jget lane ''provider'' = JStr ''script'' \<or> jget lane ''script'' = JBool True then ''script''
                      else ''local'');
          tier = (case jget lane ''tier'' of JNum n \<Rightarrow> if jlt (Fin 0) n then JNum n else JNull | _ \<Rightarrow> JNull)
      in model_obj (or_else (inst_model inst) (or_else (jget lane ''model'') JNull)) (JStr provider) tier
           (truthy (jget (gm_overrides models) (to_str (jget lane ''id'')))) (gm_ollama models) (gm_claude models))"

definition compute_work_for_loop :: "jv \<Rightarrow> jv" where
  "compute_work_for_loop lane =
     JObj [(''taskClasses'', if is_array (jget lane ''taskClasses'') then jget lane ''taskClasses'' else JNull),
           (''preempt'', if is_string (jget lane ''preempt'') \<and> truthy (jget lane ''preempt'') then jget lane ''preempt'' else JNull),
           (''reviewer'', JBool (jget lane ''reviewer'' = JBool True))]"

definition str_or_null :: "jv \<Rightarrow> jv" where
  "str_or_null v = (if is_string v then v else JNull)"

definition flag :: "jv \<Rightarrow> jv" where
  "flag v = JBool (v = JBool True)"

definition null_if_missing :: "jv \<Rightarrow> jv" where
  "null_if_missing v = (if nullish v then JNull else v)"

definition extract_runtime :: "jv \<Rightarrow> jv" where
  "extract_runtime inst =
     (if \<not> is_object inst \<and> \<not> is_array inst then JNull
      else JObj [(''instanceId'', or_else (jget inst ''instanceId'') JNull),
        (''status'', if is_string (jget inst ''status'') then jget inst ''status'' else JStr ''offline''),
        (''stale'', flag (jget inst ''stale'')), (''disabled'', flag (jget inst ''disabled'')), (''switchable'', flag (jget inst ''switchable'')),
        (''pid'', null_if_missing (jget inst ''pid'')), (''currentTaskId'', str_or_null (jget inst ''currentTaskId'')),
        (''currentPass'', null_if_missing (jget inst ''currentPass'')),
        (''stateAgeSeconds'', if is_number (jget inst ''stateAgeSeconds'') then jget inst ''stateAgeSeconds'' else JNull),
        (''hub'', or_else (jget inst ''hub'') JNull), (''projectLabel'', str_or_null (jget inst ''projectLabel'')),
        (''borrowed'', flag (jget inst ''borrowed''))])"

definition build_loop_node :: "jv \<Rightarrow> jv \<Rightarrow> graph_models \<Rightarrow> jv" where
  "build_loop_node lane inst models =
     node_obj (jget lane ''id'') ''loop'' (or_else (inst_model inst) (or_else (jget lane ''model'') (jget lane ''id'')))
       (if truthy inst then extract_runtime inst else JNull) (compute_model_for_loop lane inst models) (compute_work_for_loop lane) JNull"

definition build_legacy_loop_node :: "jv \<Rightarrow> jv" where
  "build_legacy_loop_node inst =
     node_obj (jget inst ''instanceId'') ''loop'' (or_else (jget inst ''model'') (jget inst ''instanceId'')) (extract_runtime inst)
       (model_obj (or_else (jget inst ''model'') JNull) (JStr ''local'') JNull False (JArr []) (JArr [])) JNull JNull"

definition count_of :: "jv \<Rightarrow> string \<Rightarrow> jv" where
  "count_of live k = (if is_number (jget live k) then jget live k else JNum (Fin 0))"

definition build_source_node :: "jv \<Rightarrow> jv" where
  "build_source_node source =
     (let live = jget source ''liveCounts''
      in node_obj (JStr (''source:'' @ to_str (jget source ''name''))) ''source'' (jget source ''name'') JNull JNull JNull
           (JObj [(''pending'', count_of live ''pending''), (''drafting'', count_of live ''drafting'')]))"

definition upper_char :: "char \<Rightarrow> char" where
  "upper_char c = (let n = (of_char c :: nat) in if 97 \<le> n \<and> n \<le> 122 then char_of (n - 32) else c)"

definition build_stage_node :: "string \<Rightarrow> jv" where
  "build_stage_node name =
     node_obj (JStr (''stage:'' @ name)) ''stage'' (JStr (map upper_char (take 1 name) @ drop 1 name)) JNull JNull JNull JNull"

definition build_service_node :: "string \<Rightarrow> jv \<Rightarrow> jv" where
  "build_service_node service inst =
     node_obj (JStr service) ''service'' (JStr (if starts_with ''service:'' service then drop 8 service else service))
       (if truthy inst then extract_runtime inst else JNull) JNull JNull JNull"

text \<open>A reviewer that is named by a lane but has neither a lane nor a heartbeat.\<close>

definition offline_runtime :: "jv \<Rightarrow> jv" where
  "offline_runtime rid =
     JObj [(''instanceId'', rid), (''status'', JStr ''offline''), (''stale'', JBool False), (''disabled'', JBool False),
           (''switchable'', JBool False), (''pid'', JNull), (''currentTaskId'', JNull), (''currentPass'', JNull),
           (''stateAgeSeconds'', JNull), (''hub'', JNull), (''projectLabel'', JNull), (''borrowed'', JBool False)]"

definition build_reviewer_node :: "graph_models \<Rightarrow> jv \<Rightarrow> jv \<Rightarrow> jv" where
  "build_reviewer_node models inst rid =
     (if truthy inst
      then build_loop_node (JObj [(''id'', rid), (''reviewer'', JBool True), (''reviewerId'', rid)]) inst models
      else node_obj rid ''loop'' rid (offline_runtime rid)
             (model_obj JNull (JStr ''local'') JNull False (gm_ollama models) (gm_claude models)) JNull JNull)"

section \<open>Edges\<close>

definition new_edge :: "jv \<Rightarrow> jv \<Rightarrow> string \<Rightarrow> string \<Rightarrow> jv" where
  "new_edge f t kind label =
     JObj [(''id'', JStr (edge_id f t (JStr kind))), (''from'', f), (''to'', t), (''kind'', JStr kind), (''label'', JStr label)]"

definition arrow :: "jv \<Rightarrow> jv \<Rightarrow> string" where
  "arrow a b = to_str a @ '' -> '' @ to_str b"

definition kind_is :: "string \<Rightarrow> jv \<Rightarrow> bool" where
  "kind_is k n \<longleftrightarrow> jget n ''kind'' = JStr k"

definition has_node :: "jv list \<Rightarrow> jv \<Rightarrow> bool" where
  "has_node nodes i = has_value (map id_of nodes) i"

text \<open>The lane of an id: the last one with it that has an id at all.\<close>

definition edge_lane :: "jv list \<Rightarrow> jv \<Rightarrow> jv option" where
  "edge_lane lanes i = find (\<lambda>l. truthy l \<and> truthy (jget l ''id'') \<and> same_value i (jget l ''id'')) (rev lanes)"

definition stage_edges :: "jv list \<Rightarrow> jv list" where
  "stage_edges nodes =
     map (\<lambda>(a, b). new_edge (JStr (''stage:'' @ a)) (JStr (''stage:'' @ b)) ''produces'' (arrow (JStr a) (JStr b)))
       (filter (\<lambda>(a, b). has_node nodes (JStr (''stage:'' @ a)) \<and> has_node nodes (JStr (''stage:'' @ b))) (zip STAGE_NAMES (tl STAGE_NAMES)))"

definition claims_source :: "jv \<Rightarrow> jv \<Rightarrow> bool" where
  "claims_source lane name \<longleftrightarrow> (let tc = jget lane ''taskClasses'' in nullish tc \<or> (is_array tc \<and> has_value (elems tc) name))"

definition claim_edges :: "jv list \<Rightarrow> jv list \<Rightarrow> jv list" where
  "claim_edges nodes lanes =
     concat (map (\<lambda>src. concat (map (\<lambda>loop.
         case edge_lane lanes (id_of loop) of
           None \<Rightarrow> []
         | Some lane \<Rightarrow> if claims_source lane (jget src ''label'')
                         then [new_edge (id_of src) (id_of loop) ''claims'' (arrow (jget src ''label'') (jget loop ''label''))] else [])
       (filter (kind_is ''loop'') nodes))) (filter (kind_is ''source'') nodes))"

definition review_edges :: "jv list \<Rightarrow> jv list \<Rightarrow> jv list" where
  "review_edges nodes lanes =
     concat (map (\<lambda>loop.
         case edge_lane lanes (id_of loop) of
           None \<Rightarrow> []
         | Some lane \<Rightarrow>
             let script = jget lane ''provider'' = JStr ''script'' \<or> jget lane ''script'' = JBool True;
                 reviewer = jget lane ''reviewer'' = JBool True; rid = jget lane ''reviewerId''
             in (if reviewer \<and> truthy rid then [new_edge (id_of loop) rid ''reviews'' (arrow (jget loop ''label'') rid)] else [])
                @ (if \<not> reviewer \<and> \<not> script \<and> has_node nodes (JStr ''reviewer'')
                   then [new_edge (id_of loop) (JStr ''reviewer'') ''reviews'' (arrow (jget loop ''label'') (JStr ''reviewer''))] else []))
       (filter (kind_is ''loop'') nodes))"

definition is_reviewer_id :: "jv \<Rightarrow> bool" where
  "is_reviewer_id i \<longleftrightarrow> i = JStr ''reviewer'' \<or> starts_with ''reviewer-'' (str_of i)"

definition apply_edges :: "jv list \<Rightarrow> jv list" where
  "apply_edges nodes =
     map (\<lambda>loop. new_edge (id_of loop) (JStr ''service:apply-loop'') ''applies'' (arrow (jget loop ''label'') (JStr ''apply-loop'')))
       (filter (\<lambda>loop. kind_is ''loop'' loop \<and> is_reviewer_id (id_of loop)) nodes)"

definition refine_edges :: "jv list \<Rightarrow> jv list \<Rightarrow> jv list" where
  "refine_edges nodes topology =
     concat (map (\<lambda>entry.
         let f = JStr (''source:'' @ to_str (jget entry ''name'')); t = JStr (''source:'' @ to_str (jget entry ''variantOf''))
         in if truthy entry \<and> truthy (jget entry ''name'') \<and> truthy (jget entry ''variantOf'') \<and> has_node nodes f \<and> has_node nodes t
            then [new_edge f t ''refines'' (to_str (jget entry ''name'') @ '' refines '' @ to_str (jget entry ''variantOf''))] else []) topology)"

definition build_edges :: "jv list \<Rightarrow> jv list \<Rightarrow> jv list \<Rightarrow> jv list outcome" where
  "build_edges nodes lanes topology =
     (if has_node nodes (JStr ''service:apply-loop'') \<and> list_ex (\<lambda>n. kind_is ''loop'' n \<and> \<not> is_string (id_of n)) nodes then Throws
      else Returns (foldl add_new []
             (stage_edges nodes @ claim_edges nodes lanes @ review_edges nodes lanes
              @ (if has_node nodes (JStr ''service:apply-loop'') then apply_edges nodes else []) @ refine_edges nodes topology)))"

section \<open>The graph\<close>

fun distinct_lanes :: "jv list \<Rightarrow> jv list \<Rightarrow> jv list" where
  "distinct_lanes seen [] = []"
| "distinct_lanes seen (lane # ls) =
     (if (\<not> is_object lane \<and> \<not> is_array lane) \<or> has_value seen (jget lane ''id'') then distinct_lanes seen ls
      else lane # distinct_lanes (jget lane ''id'' # seen) ls)"

text \<open>The ids whose heartbeat a lane or a service node shows.\<close>

definition consumed_ids :: "(jv \<times> jv) list \<Rightarrow> jv list \<Rightarrow> jv list" where
  "consumed_ids insts lane_ids =
     filter (\<lambda>i. truthy (inst_of insts i)) (lane_ids @ [JStr ''watchdog'', JStr ''apply-loop''])"

definition legacy_instances :: "(jv \<times> jv) list \<Rightarrow> jv list \<Rightarrow> (jv \<times> jv) list" where
  "legacy_instances insts consumed =
     filter (\<lambda>(i, inst). \<not> has_value consumed i \<and> i \<noteq> JStr ''watchdog'' \<and> i \<noteq> JStr ''apply-loop''
               \<and> (starts_with ''worker-'' (str_of i) \<or> starts_with ''reviewer-'' (str_of i))) insts"

definition named_reviewers :: "jv list \<Rightarrow> jv list" where
  "named_reviewers lanes =
     uniq (map (\<lambda>l. jget l ''reviewerId'')
       (filter (\<lambda>l. truthy l \<and> jget l ''reviewer'' = JBool True \<and> truthy (jget l ''reviewerId'')) lanes))"

definition build_nodes :: "graph_input \<Rightarrow> jv list outcome" where
  "build_nodes inp =
     (let insts = build_instance_map (gi_instances inp) []; models = gi_models inp;
          lanes = distinct_lanes [] (gi_lanes inp); lane_ids = map (\<lambda>l. jget l ''id'') lanes;
          consumed = consumed_ids insts lane_ids; legacy = legacy_instances insts consumed;
          rids = filter (\<lambda>r. \<not> has_value lane_ids r \<and> \<not> has_value (consumed @ map fst legacy) r) (named_reviewers (gi_lanes inp))
      in if \<exists>i\<in>set (map fst insts). \<not> has_value consumed i \<and> \<not> is_string i then Throws
         else Returns
           (map (\<lambda>l. build_loop_node l (inst_of insts (jget l ''id'')) models) lanes
            @ map build_source_node (filter (\<lambda>e. truthy e \<and> truthy (jget e ''name'')) (gi_topology inp))
            @ map build_stage_node STAGE_NAMES
            @ [build_service_node ''service:watchdog'' (inst_of insts (JStr ''watchdog'')),
               build_service_node ''service:apply-loop'' (inst_of insts (JStr ''apply-loop''))]
            @ map (\<lambda>(i, inst). build_legacy_loop_node inst) legacy
            @ map (\<lambda>r. build_reviewer_node models (inst_of insts r) r) rids))"

definition ranked_json :: "ranked_entry \<Rightarrow> jv" where
  "ranked_json e = JObj [(''name'', JStr (fe_name e)), (''priority'', JNum (Fin (fe_priority e))), (''rank'', JNum (Fin (real (fe_rank e))))]"

definition compare_json :: "group_entry \<Rightarrow> jv" where
  "compare_json e = JObj [(''name'', JStr (ge_name e)), (''flatRank'', JNum (Fin (real (ge_flatRank e)))),
     (''graphRank'', JNum (Fin (real (ge_graphRank e)))), (''group'', case ge_group e of None \<Rightarrow> JNull | Some g \<Rightarrow> JStr g)]"

definition base_graph :: "string \<Rightarrow> graph_input \<Rightarrow> jv list \<Rightarrow> jv list \<Rightarrow> jv" where
  "base_graph now inp nodes edges =
     JObj [(''schemaVersion'', JNum (Fin 1)), (''generatedAt'', JStr now), (''nodes'', JArr (js_sort by_kind_rank nodes)),
           (''edges'', JArr (js_sort by_id edges)), (''groups'', JArr []),
           (''priorityOrder'', JArr (map ranked_json (flat_priority_order (JArr (gi_topology inp))))), (''warnings'', JArr (gi_warnings inp))]"

definition build_workflow_graph :: "string \<Rightarrow> jv \<Rightarrow> jv outcome" where
  "build_workflow_graph now opts =
     (let inp = validate_input (jget opts ''lanes'') (jget opts ''instances'') (jget opts ''topology'') (jget opts ''models'')
      in and_then (build_nodes inp) (\<lambda>nodes.
         and_then (build_edges nodes (gi_lanes inp) (gi_topology inp)) (\<lambda>edges.
           let out = apply_workflow_config (add_watchdog_script_nodes (base_graph now inp nodes edges) (jget opts ''watchdogScripts''))
                       (jget opts ''workflow'')
           in Returns (obj_put (spread out) ''priorityCompare''
                (JArr (map compare_json (group_priority_order out (flat_priority_order (JArr (gi_topology inp))))))))))"

section \<open>Every edge joins two nodes\<close>

definition ends_in :: "jv set \<Rightarrow> jv \<Rightarrow> bool" where
  "ends_in ids e \<longleftrightarrow> {jget e ''from'', jget e ''to''} \<subseteq> ids"

lemma same_value_eq: "same_value a b \<Longrightarrow> a = b"
  by (cases "(a, b)" rule: same_value.cases) auto

lemma has_value_in: "has_value vs v \<Longrightarrow> v \<in> set vs"
  by (auto simp: has_value_def dest: same_value_eq)

lemma new_edge_fields [simp]:
  "jget (new_edge f t k l) ''from'' = f" "jget (new_edge f t k l) ''to'' = t" "is_object (new_edge f t k l)"
  by (simp_all add: new_edge_def)

lemma ends_in_new [simp]: "ends_in ids (new_edge f t k l) \<longleftrightarrow> f \<in> ids \<and> t \<in> ids"
  by (simp add: ends_in_def)

lemma edge_lane_in: "edge_lane lanes i = Some l \<Longrightarrow> l \<in> set lanes \<and> truthy l"
  by (auto simp: edge_lane_def dest: find_Some_in)

lemma add_new_all_subset: "set (foldl add_new acc es) \<subseteq> set acc \<union> set es"
proof (induction es arbitrary: acc)
  case Nil
  then show ?case by simp
next
  case (Cons e es)
  have "set (add_new acc e) \<subseteq> set acc \<union> {e}" by (auto simp: add_new_def)
  with Cons.IH [of "add_new acc e"] show ?case by auto
qed

lemma review_edge_ends:
  assumes "e \<in> set (review_edges nodes lanes)"
  shows "\<exists>loop\<in>set nodes. \<exists>t text. e = new_edge (id_of loop) t ''reviews'' text
    \<and> (has_node nodes t \<or> (\<exists>l\<in>set lanes. truthy l \<and> jget l ''reviewer'' = JBool True \<and> truthy (jget l ''reviewerId'') \<and> t = jget l ''reviewerId''))"
proof -
  from assms obtain loop where loop: "loop \<in> set nodes"
    "e \<in> set (case edge_lane lanes (id_of loop) of
         None \<Rightarrow> []
       | Some lane \<Rightarrow>
           let script = jget lane ''provider'' = JStr ''script'' \<or> jget lane ''script'' = JBool True;
               reviewer = jget lane ''reviewer'' = JBool True; rid = jget lane ''reviewerId''
           in (if reviewer \<and> truthy rid then [new_edge (id_of loop) rid ''reviews'' (arrow (jget loop ''label'') rid)] else [])
              @ (if \<not> reviewer \<and> \<not> script \<and> has_node nodes (JStr ''reviewer'')
                 then [new_edge (id_of loop) (JStr ''reviewer'') ''reviews'' (arrow (jget loop ''label'') (JStr ''reviewer''))] else []))"
    by (auto simp: review_edges_def)
  then obtain l where l: "edge_lane lanes (id_of loop) = Some l" by (cases "edge_lane lanes (id_of loop)") auto
  with loop(2) have "e = new_edge (id_of loop) (jget l ''reviewerId'') ''reviews'' (arrow (jget loop ''label'') (jget l ''reviewerId''))
        \<and> jget l ''reviewer'' = JBool True \<and> truthy (jget l ''reviewerId'')
      \<or> e = new_edge (id_of loop) (JStr ''reviewer'') ''reviews'' (arrow (jget loop ''label'') (JStr ''reviewer'')) \<and> has_node nodes (JStr ''reviewer'')"
    by (auto simp: Let_def split: if_splits)
  with loop(1) edge_lane_in [OF l] show ?thesis by blast
qed

lemma build_edges_closed:
  assumes "build_edges nodes lanes topology = Returns edges"
    and "\<And>l. l \<in> set lanes \<Longrightarrow> truthy l \<Longrightarrow> jget l ''reviewer'' = JBool True \<Longrightarrow> truthy (jget l ''reviewerId'') \<Longrightarrow>
          jget l ''reviewerId'' \<in> set (map id_of nodes)"
    and "e \<in> set edges"
  shows "is_object e \<and> ends_in (set (map id_of nodes)) e"
proof -
  have "edges = foldl add_new [] (stage_edges nodes @ claim_edges nodes lanes @ review_edges nodes lanes
      @ (if has_node nodes (JStr ''service:apply-loop'') then apply_edges nodes else []) @ refine_edges nodes topology)"
    using assms(1) by (simp add: build_edges_def split: if_splits)
  with assms(3) add_new_all_subset [of "[]"]
  consider "e \<in> set (stage_edges nodes)" | "e \<in> set (claim_edges nodes lanes)" | "e \<in> set (review_edges nodes lanes)"
    | "has_node nodes (JStr ''service:apply-loop'')" "e \<in> set (apply_edges nodes)" | "e \<in> set (refine_edges nodes topology)"
    by (fastforce split: if_splits)
  then show ?thesis
  proof cases
    case 3
    from review_edge_ends [OF this] assms(2) show ?thesis by (auto simp: has_node_def dest!: has_value_in)
  qed (auto simp: stage_edges_def claim_edges_def apply_edges_def refine_edges_def has_node_def Let_def split: option.splits if_splits)
qed

lemma build_instance_map_keys:
  "\<forall>p\<in>set m. jget (snd p) ''instanceId'' = fst p \<Longrightarrow> p \<in> set (build_instance_map is m) \<Longrightarrow> jget (snd p) ''instanceId'' = fst p"
  by (induction "is" m rule: build_instance_map.induct) (auto simp: Let_def split: if_splits)

lemma build_nodes_ids:
  assumes "build_nodes inp = Returns nodes"
  defines "insts \<equiv> build_instance_map (gi_instances inp) []" and "lanes \<equiv> distinct_lanes [] (gi_lanes inp)"
  defines "consumed \<equiv> consumed_ids insts (map (\<lambda>l. jget l ''id'') lanes)"
  defines "legacy \<equiv> legacy_instances insts consumed"
  shows "map id_of nodes = map (\<lambda>l. jget l ''id'') lanes
     @ map (\<lambda>e. JStr (''source:'' @ to_str (jget e ''name''))) (filter (\<lambda>e. truthy e \<and> truthy (jget e ''name'')) (gi_topology inp))
     @ map (\<lambda>s. JStr (''stage:'' @ s)) STAGE_NAMES @ [JStr ''service:watchdog'', JStr ''service:apply-loop''] @ map fst legacy
     @ filter (\<lambda>r. \<not> has_value (map (\<lambda>l. jget l ''id'') lanes) r \<and> \<not> has_value (consumed @ map fst legacy) r) (named_reviewers (gi_lanes inp))"
proof -
  have n: "id_of (node_obj i k l r m w c) = i" for i k l r m w c by (simp add: node_obj_def id_of_def)
  have rev: "id_of (build_reviewer_node m x r) = r" for m x r by (simp add: build_reviewer_node_def build_loop_node_def n)
  have leg: "\<forall>x\<in>set legacy. id_of (case x of (i, inst) \<Rightarrow> build_legacy_loop_node inst) = fst x"
    using build_instance_map_keys [of "[]" _ "gi_instances inp"]
    by (auto simp: legacy_def legacy_instances_def insts_def build_legacy_loop_node_def n)
  have "nodes = map (\<lambda>l. build_loop_node l (inst_of insts (jget l ''id'')) (gi_models inp)) lanes
            @ map build_source_node (filter (\<lambda>e. truthy e \<and> truthy (jget e ''name'')) (gi_topology inp))
            @ map build_stage_node STAGE_NAMES
            @ [build_service_node ''service:watchdog'' (inst_of insts (JStr ''watchdog'')),
               build_service_node ''service:apply-loop'' (inst_of insts (JStr ''apply-loop''))]
            @ map (\<lambda>(i, inst). build_legacy_loop_node inst) legacy
            @ map (\<lambda>r. build_reviewer_node (gi_models inp) (inst_of insts r) r)
                (filter (\<lambda>r. \<not> has_value (map (\<lambda>l. jget l ''id'') lanes) r \<and> \<not> has_value (consumed @ map fst legacy) r) (named_reviewers (gi_lanes inp)))"
    using assms(1) unfolding build_nodes_def insts_def lanes_def consumed_def legacy_def Let_def by (simp split: if_splits)
  then show ?thesis
    by (simp add: leg rev comp_def build_loop_node_def build_source_node_def build_stage_node_def build_service_node_def n Let_def)
qed

lemma named_reviewer_node:
  assumes "build_nodes inp = Returns nodes"
    and "l \<in> set (gi_lanes inp)" "truthy l" "jget l ''reviewer'' = JBool True" "truthy (jget l ''reviewerId'')"
    and "jget l ''reviewerId'' \<notin> {JStr ''watchdog'', JStr ''apply-loop''}"
  shows "jget l ''reviewerId'' \<in> set (map id_of nodes)"
proof -
  have "jget l ''reviewerId'' \<in> set (named_reviewers (gi_lanes inp))" using assms(2-5) by (auto simp: named_reviewers_def)
  then show ?thesis
    using assms(6) unfolding build_nodes_ids [OF assms(1)]
    by (auto simp: consumed_ids_def has_value_def dest!: same_value_eq split: if_splits)
qed

definition closed_graph :: "jv \<Rightarrow> bool" where
  "closed_graph g \<longleftrightarrow> is_object g \<and> is_array (jget g ''nodes'')
     \<and> (\<forall>e\<in>set (edges_of g). is_object e \<and> ends_in (set (map id_of (nodes_of g))) e)"

lemma ends_in_mono: "ends_in A e \<Longrightarrow> A \<subseteq> B \<Longrightarrow> ends_in B e"
  by (auto simp: ends_in_def)

lemma ends_in_spread: "is_object e \<Longrightarrow> ends_in ids (spread e) \<longleftrightarrow> ends_in ids e"
  by (simp add: ends_in_def jget_spread)

lemma base_graph_closed:
  assumes "\<forall>e\<in>set edges. is_object e \<and> ends_in (set (map id_of nodes)) e"
  shows "closed_graph (base_graph now inp nodes edges)"
  using assms by (simp add: closed_graph_def base_graph_def nodes_of_def edges_of_def)

lemma scripts_closed:
  assumes "closed_graph g"
  shows "closed_graph (add_watchdog_script_nodes g scripts)"
proof (cases "is_array scripts \<and> elems scripts \<noteq> []")
  case False
  then have "add_watchdog_script_nodes g scripts = g" by (auto simp: add_watchdog_script_nodes_def)
  with assms show ?thesis by simp
next
  case True
  let ?r = "add_scripts 0 (elems scripts) (map spread (nodes_of g)) (map spread (edges_of g))"
  have shape: "is_object g" "is_array (jget g ''nodes'')" using assms by (auto simp: closed_graph_def)
  have r: "add_watchdog_script_nodes g scripts = obj_put (obj_put (obj_put (spread g) ''nodes'' (JArr (js_sort by_kind_rank (fst ?r))))
      ''edges'' (JArr (js_sort by_id (fst (snd ?r))))) ''warnings'' (JArr (graph_warnings g @ snd (snd ?r)))"
    using shape True by (simp add: add_watchdog_script_nodes_def nodes_of_def edges_of_def Let_def case_prod_beta)
  have parts: "edges_of (add_watchdog_script_nodes g scripts) = js_sort by_id (fst (snd ?r))"
    "is_object (add_watchdog_script_nodes g scripts)" "is_array (jget (add_watchdog_script_nodes g scripts) ''nodes'')"
    unfolding r by (auto simp: edges_of_def jget_put intro!: keyed_object)
  let ?ids = "set (map id_of (nodes_of (add_watchdog_script_nodes g scripts)))"
  have ids: "?ids = set (map id_of (nodes_of g)) \<union> {JStr (script_node_id e) | e. e \<in> set (elems scripts) \<and> script_ok e}"
    using scripts_result [OF shape] True by blast
  have "is_object e \<and> ends_in ?ids e" if e: "e \<in> set (fst (snd ?r))" for e
  proof -
    from e add_scripts_edges [of 0 "elems scripts" "map spread (nodes_of g)" "map spread (edges_of g)"]
    consider x where "x \<in> set (edges_of g)" "e = spread x"
      | x where "x \<in> set (elems scripts)" "script_ok x" "e = script_edge x" "JStr WATCHDOG_ID \<in> set (map id_of (nodes_of g))"
      by (auto simp: image_image)
    then show ?thesis
    proof cases
      case 1
      with assms have "is_object x" "ends_in (set (map id_of (nodes_of g))) x" by (auto simp: closed_graph_def)
      with 1 ids show ?thesis by (auto simp: ends_in_spread keyed_object intro: ends_in_mono)
    next
      case 2
      then show ?thesis unfolding ids by (auto simp: script_edge_def ends_in_def Let_def)
    qed
  qed
  then show ?thesis unfolding closed_graph_def using parts by simp
qed

lemma overlay_closed:
  assumes "closed_graph g" and "\<not> is_object w \<or> (\<exists>c. w = config_json c)"
  shows "closed_graph (apply_workflow_config g w)"
proof (cases "is_object w")
  case False
  then have "apply_workflow_config g w = g" by (simp add: apply_workflow_config_def)
  with assms show ?thesis by simp
next
  case True
  with assms(2) obtain c where c: "w = config_json c" by auto
  have shape: "is_object g" "is_array (jget g ''nodes'')" using assms(1) by (auto simp: closed_graph_def)
  let ?g = "apply_workflow_config g (config_json c)"
  have same: "set (map id_of (nodes_of ?g)) = set (map id_of (nodes_of g))" by (rule overlay_nodes_set)
  have "is_object ?g \<and> is_array (jget ?g ''nodes'')"
    using shape True unfolding c apply_workflow_config_def by (auto simp: Let_def case_prod_beta jget_put intro!: keyed_object)
  moreover have "is_object e \<and> ends_in (set (map id_of (nodes_of ?g))) e" if e: "e \<in> set (edges_of ?g)" for e
  proof (cases "e \<in> spread ` set (edges_of g)")
    case True
    with assms(1) show ?thesis unfolding same by (auto simp: closed_graph_def ends_in_spread keyed_object)
  next
    case False
    with authored_edges_result [OF shape, of c] e have "ends_in (set (map id_of (nodes_of ?g))) e" by (auto simp: ends_in_def)
    moreover have "is_object e"
      using e False add_authored_result [of "map id_of (nodes_of g)" "elems (jget (config_json c) ''edges'')" "map spread (edges_of g)"]
        apply_workflow_config_parts(2) [OF shape, of "config_json c"]
      by (auto simp: overlaid_edges_def authored_edge_def config_json_def)
    ultimately show ?thesis by simp
  qed
  ultimately show ?thesis unfolding c closed_graph_def by blast
qed

text \<open>The graph has no dangling edge: when the builder returns, both ends of every edge are nodes of the graph,
  with any watchdog scripts and with no workflow file or any file the program read. The one exception the
  code leaves is a lane that names a service as its reviewer.\<close>

theorem graph_edges_closed:
  assumes "build_workflow_graph now opts = Returns g"
    and "\<not> is_object (jget opts ''workflow'') \<or> (\<exists>c. jget opts ''workflow'' = config_json c)"
    and "\<forall>l\<in>set (elems (jget opts ''lanes'')). jget l ''reviewerId'' \<notin> {JStr ''watchdog'', JStr ''apply-loop''}"
  shows "\<forall>e\<in>set (edges_of g). {jget e ''from'', jget e ''to''} \<subseteq> set (map id_of (nodes_of g))"
proof -
  let ?inp = "validate_input (jget opts ''lanes'') (jget opts ''instances'') (jget opts ''topology'') (jget opts ''models'')"
  obtain nodes edges where n: "build_nodes ?inp = Returns nodes" and e: "build_edges nodes (gi_lanes ?inp) (gi_topology ?inp) = Returns edges"
    using assms(1) by (cases "build_nodes ?inp"; cases "build_edges (case build_nodes ?inp of Returns n \<Rightarrow> n) (gi_lanes ?inp) (gi_topology ?inp)")
      (auto simp: build_workflow_graph_def Let_def)
  have lanes: "gi_lanes ?inp = elems (jget opts ''lanes'')" by (simp add: validate_input_def Let_def)
  define out where "out = apply_workflow_config (add_watchdog_script_nodes (base_graph now ?inp nodes edges) (jget opts ''watchdogScripts''))
    (jget opts ''workflow'')"
  have "jget l ''reviewerId'' \<in> set (map id_of nodes)"
    if "l \<in> set (gi_lanes ?inp)" "truthy l" "jget l ''reviewer'' = JBool True" "truthy (jget l ''reviewerId'')" for l
    using named_reviewer_node [OF n that] assms(3) that(1) lanes by simp
  then have "closed_graph (base_graph now ?inp nodes edges)"
    by (intro base_graph_closed ballI build_edges_closed [OF e])
  then have out: "closed_graph out" unfolding out_def using assms(2) by (intro overlay_closed scripts_closed)
  have g: "g = obj_put (spread out) ''priorityCompare'' (JArr (map compare_json (group_priority_order out (flat_priority_order (JArr (gi_topology ?inp))))))"
    using assms(1) by (simp add: build_workflow_graph_def Let_def n e out_def)
  have "is_object out" using out by (simp add: closed_graph_def)
  then have "edges_of g = edges_of out" "nodes_of g = nodes_of out"
    unfolding g by (simp_all add: edges_of_def nodes_of_def jget_put jget_spread)
  with out show ?thesis by (simp add: closed_graph_def ends_in_def)
qed

section \<open>When the builder throws\<close>

definition bad_lane :: "jv \<Rightarrow> bool" where
  "bad_lane l \<longleftrightarrow> (is_object l \<or> is_array l) \<and> \<not> is_string (jget l ''id'')"

definition bad_instance :: "jv \<Rightarrow> bool" where
  "bad_instance i \<longleftrightarrow> truthy i \<and> truthy (jget i ''instanceId'') \<and> \<not> is_string (jget i ''instanceId'')"

definition bad_reviewer :: "jv \<Rightarrow> bool" where
  "bad_reviewer l \<longleftrightarrow> truthy l \<and> jget l ''reviewer'' = JBool True \<and> truthy (jget l ''reviewerId'') \<and> \<not> is_string (jget l ''reviewerId'')"

lemma distinct_lanes_bad:
  "(\<exists>l\<in>set (distinct_lanes seen ls). \<not> is_string (jget l ''id'')) \<or> (\<exists>v\<in>set seen. \<not> is_string v)
     \<longleftrightarrow> (\<exists>l\<in>set ls. bad_lane l) \<or> (\<exists>v\<in>set seen. \<not> is_string v)"
proof (induction seen ls rule: distinct_lanes.induct)
  case (1 seen)
  then show ?case by simp
next
  case (2 seen l ls)
  show ?case
  proof (cases "(\<not> is_object l \<and> \<not> is_array l) \<or> has_value seen (jget l ''id'')")
    case True
    then have "bad_lane l \<Longrightarrow> \<exists>v\<in>set seen. \<not> is_string v" by (auto simp: bad_lane_def dest: has_value_in)
    with 2(1) [OF True] True show ?thesis by auto
  next
    case False
    then have "bad_lane l \<longleftrightarrow> \<not> is_string (jget l ''id'')" by (auto simp: bad_lane_def)
    with 2(2) [OF False] False show ?thesis by auto
  qed
qed

lemma instance_map_bad:
  "(\<exists>p\<in>set (build_instance_map is m). \<not> is_string (fst p)) \<longleftrightarrow> (\<exists>i\<in>set is. bad_instance i) \<or> (\<exists>p\<in>set m. \<not> is_string (fst p))"
proof (induction "is" m rule: build_instance_map.induct)
  case (1 m)
  then show ?case by simp
next
  case (2 inst "is" m)
  let ?i = "jget inst ''instanceId''"
  show ?case
  proof (cases "truthy inst \<and> truthy ?i \<and> \<not> has_value (map fst m) ?i")
    case True
    then have "bad_instance inst \<longleftrightarrow> \<not> is_string ?i" by (simp add: bad_instance_def)
    with 2 [OF refl] True show ?thesis by (simp add: Let_def)
  next
    case False
    then have "bad_instance inst \<Longrightarrow> \<exists>p\<in>set m. \<not> is_string (fst p)"
      by (force simp: bad_instance_def dest: has_value_in)
    with 2 [OF refl] False show ?thesis by (auto simp: Let_def)
  qed
qed

lemma build_nodes_kinds:
  assumes "build_nodes inp = Returns nodes" and "n \<in> set nodes"
  shows "kind_is ''loop'' n \<or> is_string (id_of n)"
proof -
  have n: "id_of (node_obj i k l r m w c) = i" "kind_is ''loop'' (node_obj i k l r m w c) \<longleftrightarrow> k = ''loop''" for i k l r m w c
    by (auto simp: node_obj_def id_of_def kind_is_def)
  show ?thesis using assms
    by (auto simp: build_nodes_def Let_def build_loop_node_def build_source_node_def build_stage_node_def build_service_node_def
        build_legacy_loop_node_def build_reviewer_node_def n split: if_splits)
qed

lemma build_nodes_throws:
  "build_nodes inp = Throws \<longleftrightarrow>
     (\<exists>i\<in>set (map fst (build_instance_map (gi_instances inp) [])).
        \<not> has_value (consumed_ids (build_instance_map (gi_instances inp) []) (map (\<lambda>l. jget l ''id'') (distinct_lanes [] (gi_lanes inp)))) i
        \<and> \<not> is_string i)"
  by (simp add: build_nodes_def Let_def)

lemma build_edges_throws:
  assumes "build_nodes inp = Returns nodes"
  shows "build_edges nodes lanes topology = Throws \<longleftrightarrow> (\<exists>i\<in>set (map id_of nodes). \<not> is_string i)"
proof -
  have "has_node nodes (JStr ''service:apply-loop'')" using build_nodes_ids [OF assms] by (simp add: has_node_def)
  then show ?thesis using build_nodes_kinds [OF assms] by (auto simp: build_edges_def list_ex_iff)
qed

lemma consumed_string:
  "v \<in> set (consumed_ids insts lane_ids) \<Longrightarrow> \<not> is_string v \<Longrightarrow> v \<in> set lane_ids"
  by (auto simp: consumed_ids_def split: if_splits)

lemma legacy_string: "i \<in> set (map fst (legacy_instances insts consumed)) \<Longrightarrow> is_string i"
  by (auto simp: legacy_instances_def starts_with_def intro: ccontr) (metis str_of.simps is_string.elims(3) length_0_conv list.distinct(1) take_Nil)+

lemma node_ids_bad:
  assumes "build_nodes inp = Returns nodes"
  shows "(\<exists>i\<in>set (map id_of nodes). \<not> is_string i) \<longleftrightarrow> (\<exists>l\<in>set (gi_lanes inp). bad_lane l \<or> bad_reviewer l)"
proof -
  let ?insts = "build_instance_map (gi_instances inp) []" and ?lanes = "distinct_lanes [] (gi_lanes inp)"
  let ?ids = "map (\<lambda>l. jget l ''id'') (distinct_lanes [] (gi_lanes inp))"
  let ?con = "consumed_ids ?insts ?ids"
  let ?leg = "legacy_instances ?insts ?con"
  have lane: "(\<exists>i\<in>set ?ids. \<not> is_string i) \<longleftrightarrow> (\<exists>l\<in>set (gi_lanes inp). bad_lane l)"
    using distinct_lanes_bad [of "[]" "gi_lanes inp"] by simp
  have rev: "(\<exists>r\<in>set (named_reviewers (gi_lanes inp)). \<not> is_string r) \<longleftrightarrow> (\<exists>l\<in>set (gi_lanes inp). bad_reviewer l)"
    by (auto simp: named_reviewers_def bad_reviewer_def)
  have "(\<exists>i\<in>set (map id_of nodes). \<not> is_string i) \<longleftrightarrow>
      (\<exists>i\<in>set ?ids. \<not> is_string i) \<or> (\<exists>i\<in>set (map fst ?leg). \<not> is_string i)
      \<or> (\<exists>r\<in>set (named_reviewers (gi_lanes inp)). \<not> is_string r \<and> \<not> has_value ?ids r \<and> \<not> has_value (?con @ map fst ?leg) r)"
    unfolding build_nodes_ids [OF assms] by auto
  also have "\<dots> \<longleftrightarrow> (\<exists>i\<in>set ?ids. \<not> is_string i) \<or> (\<exists>r\<in>set (named_reviewers (gi_lanes inp)). \<not> is_string r)"
  proof -
    have "r \<in> set ?ids" if "\<not> is_string r" "has_value ?ids r \<or> has_value (?con @ map fst ?leg) r" for r
    proof -
      from that(2) have "r \<in> set ?ids \<or> r \<in> set ?con \<or> r \<in> set (map fst ?leg)" by (auto dest!: has_value_in)
      then show ?thesis using that(1) consumed_string [of r ?insts ?ids] legacy_string [of r ?insts ?con] by blast
    qed
    then show ?thesis using legacy_string [of _ ?insts ?con] by blast
  qed
  finally show ?thesis unfolding lane rev by blast
qed

lemma graph_throws:
  "build_workflow_graph now opts = Throws \<longleftrightarrow>
     (\<exists>l\<in>set (elems (jget opts ''lanes'')). bad_lane l \<or> bad_reviewer l) \<or> (\<exists>i\<in>set (elems (jget opts ''instances'')). bad_instance i)"
proof -
  let ?inp = "validate_input (jget opts ''lanes'') (jget opts ''instances'') (jget opts ''topology'') (jget opts ''models'')"
  have inp: "gi_lanes ?inp = elems (jget opts ''lanes'')" "gi_instances ?inp = elems (jget opts ''instances'')"
    by (simp_all add: validate_input_def Let_def)
  let ?insts = "build_instance_map (gi_instances ?inp) []" and ?ids = "map (\<lambda>l. jget l ''id'') (distinct_lanes [] (gi_lanes ?inp))"
  have insts: "(\<exists>i\<in>set (map fst ?insts). \<not> is_string i) \<longleftrightarrow> (\<exists>i\<in>set (gi_instances ?inp). bad_instance i)"
    using instance_map_bad [of "gi_instances ?inp" "[]"] by auto
  have lane: "(\<exists>i\<in>set ?ids. \<not> is_string i) \<longleftrightarrow> (\<exists>l\<in>set (gi_lanes ?inp). bad_lane l)"
    using distinct_lanes_bad [of "[]" "gi_lanes ?inp"] by simp
  show ?thesis
  proof (cases "build_nodes ?inp")
    case Throws
    then have "\<exists>i\<in>set (map fst ?insts). \<not> is_string i" unfolding build_nodes_throws by blast
    moreover have "build_workflow_graph now opts = Throws" using Throws by (simp add: build_workflow_graph_def Let_def)
    ultimately show ?thesis using insts inp by auto
  next
    case (Returns nodes)
    have "\<not> (\<exists>i\<in>set (map fst ?insts). \<not> has_value (consumed_ids ?insts ?ids) i \<and> \<not> is_string i)"
      using Returns unfolding build_nodes_throws [symmetric] by simp
    then have "\<forall>i\<in>set (map fst ?insts). \<not> is_string i \<longrightarrow> i \<in> set ?ids"
      using consumed_string [of _ ?insts ?ids] has_value_in by blast
    then have imp: "(\<exists>i\<in>set (gi_instances ?inp). bad_instance i) \<Longrightarrow> (\<exists>l\<in>set (gi_lanes ?inp). bad_lane l)" using insts lane by blast
    have "build_workflow_graph now opts = Throws \<longleftrightarrow> build_edges nodes (gi_lanes ?inp) (gi_topology ?inp) = Throws"
      using Returns by (cases "build_edges nodes (gi_lanes ?inp) (gi_topology ?inp)") (simp_all add: build_workflow_graph_def Let_def)
    also have "\<dots> \<longleftrightarrow> (\<exists>l\<in>set (gi_lanes ?inp). bad_lane l \<or> bad_reviewer l)"
      unfolding build_edges_throws [OF Returns] node_ids_bad [OF Returns] ..
    finally show ?thesis using imp inp by auto
  qed
qed

text \<open>The builder throws exactly when an id it looks into is no string: a lane (any object in the list) without a
  string id, an instance whose id is neither missing nor a string, or a reviewer's name that is no string.
  Everything else that is malformed is replaced by a default.\<close>

theorem graph_throws_iff:
  "build_workflow_graph now opts = Throws \<longleftrightarrow>
     (\<exists>l\<in>set (elems (jget opts ''lanes'')). bad_lane l \<or> bad_reviewer l) \<or> (\<exists>i\<in>set (elems (jget opts ''instances'')). bad_instance i)"
  by (rule graph_throws)

definition demo_opts :: jv where
  "demo_opts = JObj
     [(''lanes'', JArr [JObj [(''id'', JStr ''worker-1''), (''taskClasses'', JNull)],
                      JObj [(''id'', JStr ''worker-2''), (''reviewer'', JBool True), (''reviewerId'', JStr ''reviewer-2'')]]),
      (''instances'', JArr [JObj [(''instanceId'', JStr ''worker-1''), (''model'', JStr ''m'')]]),
      (''topology'', JArr [JObj [(''name'', JStr ''adhoc''), (''priority'', JNum (Fin 10))]]),
      (''models'', JObj []), (''watchdogScripts'', JArr [JObj [(''plugin'', JStr ''p''), (''script'', JStr ''b.js'')]])]"

theorem graph_edges_closed_witness:
  "\<exists>g. build_workflow_graph ''t'' demo_opts = Returns g
     \<and> (\<forall>e\<in>set (edges_of g). {jget e ''from'', jget e ''to''} \<subseteq> set (map id_of (nodes_of g)))"
proof -
  have l: "elems (jget demo_opts ''lanes'') = [JObj [(''id'', JStr ''worker-1''), (''taskClasses'', JNull)],
      JObj [(''id'', JStr ''worker-2''), (''reviewer'', JBool True), (''reviewerId'', JStr ''reviewer-2'')]]"
    "elems (jget demo_opts ''instances'') = [JObj [(''instanceId'', JStr ''worker-1''), (''model'', JStr ''m'')]]"
    "jget demo_opts ''workflow'' = JUndef"
    by (simp_all add: demo_opts_def)
  have "build_workflow_graph ''t'' demo_opts \<noteq> Throws"
    unfolding graph_throws l by (simp add: bad_lane_def bad_instance_def bad_reviewer_def)
  then obtain g where g: "build_workflow_graph ''t'' demo_opts = Returns g" by (cases "build_workflow_graph ''t'' demo_opts") auto
  show ?thesis using graph_edges_closed [OF g] l g by auto
qed

end
