(* ===== verification/WorkflowLayout.thy ===== *)
theory WorkflowLayout
  imports JsObject WorkflowOrder
begin

text \<open>
  \<open>python/dashboard/static/js/workflow-layout.js\<close>: the layered layout of the workflow graph. Back edges are
  found by a depth-first search, the rest is layered by topological order, each layer is ordered by the
  mean place of its predecessors and regrouped, and the boxes are put on a grid of multiples of four.
  Ids, ends and parents are strings, as the graph builder writes them; another value is read through its
  text. Coordinates are exact reals.
\<close>

record layout_opts =
  lo_nodeW :: real
  lo_nodeH :: real
  lo_gapX :: real
  lo_gapY :: real
  lo_down :: bool
  lo_maxPerRow :: nat

definition DEFAULTS :: layout_opts where
  "DEFAULTS = \<lparr>lo_nodeW = 240, lo_nodeH = 96, lo_gapX = 48, lo_gapY = 24, lo_down = False, lo_maxPerRow = 0\<rparr>"

definition up4 :: "real \<Rightarrow> real" where
  "up4 n = 4 * of_int \<lceil>n / 4\<rceil>"

definition opt_number :: "jv \<Rightarrow> string \<Rightarrow> real \<Rightarrow> real" where
  "opt_number o' k d = (case jget o' k of JNum (Fin q) \<Rightarrow> if 0 \<le> q then q else d | _ \<Rightarrow> d)"

definition resolve_opts :: "jv \<Rightarrow> layout_opts" where
  "resolve_opts o' =
     \<lparr>lo_nodeW = opt_number o' ''nodeW'' (lo_nodeW DEFAULTS), lo_nodeH = opt_number o' ''nodeH'' (lo_nodeH DEFAULTS),
      lo_gapX = opt_number o' ''gapX'' (lo_gapX DEFAULTS), lo_gapY = opt_number o' ''gapY'' (lo_gapY DEFAULTS),
      lo_down = (jget o' ''direction'' = JStr ''down''),
      lo_maxPerRow = (case jget o' ''maxPerRow'' of JNum (Fin q) \<Rightarrow> if q = of_int \<lfloor>q\<rfloor> \<and> 1 \<le> q then nat \<lfloor>q\<rfloor> else 0 | _ \<Rightarrow> 0)\<rparr>"

section \<open>Clean input\<close>

record layout_edge =
  le_id :: string
  le_from :: string
  le_to :: string

fun clean_ids :: "jv list \<Rightarrow> string list \<Rightarrow> string list" where
  "clean_ids [] order = order"
| "clean_ids (n # ns) order =
     clean_ids ns (if truthy n \<and> is_string (id_of n) \<and> str_of (id_of n) \<notin> set order then order @ [str_of (id_of n)] else order)"

fun clean_edges :: "string list \<Rightarrow> jv list \<Rightarrow> layout_edge list \<Rightarrow> layout_edge list" where
  "clean_edges ids [] kept = kept"
| "clean_edges ids (e # es) kept =
     (let f = to_str (jget e ''from''); t = to_str (jget e ''to'');
          i = (if is_string (id_of e) \<and> str_of (id_of e) \<noteq> [] then str_of (id_of e) else f @ ''->'' @ t)
      in clean_edges ids es
           (if truthy e \<and> f \<in> set ids \<and> t \<in> set ids \<and> i \<notin> set (map le_id kept)
            then kept @ [\<lparr>le_id = i, le_from = f, le_to = t\<rparr>] else kept))"

definition clean_input :: "jv \<Rightarrow> string list \<times> layout_edge list" where
  "clean_input graph =
     (let ids = clean_ids (nodes_of graph) [] in (js_sort str_cmp ids, clean_edges ids (edges_of graph) []))"

section \<open>Back edges\<close>

definition cmp_out :: "layout_edge \<Rightarrow> layout_edge \<Rightarrow> jnum" where
  "cmp_out a b = num_or (str_cmp (le_to a) (le_to b)) (str_cmp (le_id a) (le_id b))"

definition out_edges :: "layout_edge list \<Rightarrow> string \<Rightarrow> layout_edge list" where
  "out_edges edges u = js_sort cmp_out (filter (\<lambda>e. le_from e = u) edges)"

text \<open>The search keeps a stack of frames \<open>{id, i}\<close>; a frame here is the node with the edges \<open>list[i..]\<close> it has not
  followed yet. A node's state is 0 before it is met, 1 while it is on the stack, 2 when it is done.\<close>

type_synonym frame = "string \<times> layout_edge list"

definition unmet :: "layout_edge list \<Rightarrow> frame list \<Rightarrow> (string \<Rightarrow> nat) \<Rightarrow> string set" where
  "unmet edges stack state = {v \<in> le_to ` (set edges \<union> \<Union> (set (map (set \<circ> snd) stack))). state v = 0}"

lemma finite_unmet [simp]: "finite (unmet edges stack state)"
  by (auto simp: unmet_def)

lemma set_out_edges [simp]: "set (out_edges edges u) = {e \<in> set edges. le_from e = u}"
  by (auto simp: out_edges_def)

function search :: "layout_edge list \<Rightarrow> frame list \<Rightarrow> (string \<Rightarrow> nat) \<Rightarrow> string list \<Rightarrow> (string \<Rightarrow> nat) \<times> string list" where
  "search edges [] state bk = (state, bk)"
| "search edges ((u, []) # stack) state bk = search edges stack (state(u := 2)) bk"
| "search edges ((u, e # es) # stack) state bk =
     (if state (le_to e) = 1 then search edges ((u, es) # stack) state (bk @ [le_id e])
      else if state (le_to e) = 0
      then search edges ((le_to e, out_edges edges (le_to e)) # (u, es) # stack) (state(le_to e := 1)) bk
      else search edges ((u, es) # stack) state bk)"
  by pat_completeness auto
termination
proof (relation "measures [\<lambda>(edges, stack, state, bk). card (unmet edges stack state),
    \<lambda>(edges, stack, state, bk). length stack + sum_list (map (length \<circ> snd) stack)]", goal_cases)
  case 1
  then show ?case by simp
next
  case (2 edges u stack state bk)
  have "unmet edges stack (state(u := 2)) \<subseteq> unmet edges ((u, []) # stack) state" by (auto simp: unmet_def)
  then have "card (unmet edges stack (state(u := 2))) \<le> card (unmet edges ((u, []) # stack) state)" by (intro card_mono) auto
  then show ?case by auto
next
  case (3 edges u e es stack state bk)
  have "unmet edges ((u, es) # stack) state \<subseteq> unmet edges ((u, e # es) # stack) state" by (auto simp: unmet_def)
  then have "card (unmet edges ((u, es) # stack) state) \<le> card (unmet edges ((u, e # es) # stack) state)" by (intro card_mono) auto
  then show ?case by auto
next
  case (4 edges u e es stack state bk)
  have "unmet edges ((le_to e, out_edges edges (le_to e)) # (u, es) # stack) (state(le_to e := 1))
      \<subseteq> unmet edges ((u, e # es) # stack) state - {le_to e}" by (auto simp: unmet_def)
  moreover have "le_to e \<in> unmet edges ((u, e # es) # stack) state" using 4 by (auto simp: unmet_def)
  ultimately have "card (unmet edges ((le_to e, out_edges edges (le_to e)) # (u, es) # stack) (state(le_to e := 1)))
      < card (unmet edges ((u, e # es) # stack) state)" by (intro psubset_card_mono) auto
  then show ?case by auto
next
  case (5 edges u e es stack state bk)
  have "unmet edges ((u, es) # stack) state \<subseteq> unmet edges ((u, e # es) # stack) state" by (auto simp: unmet_def)
  then have "card (unmet edges ((u, es) # stack) state) \<le> card (unmet edges ((u, e # es) # stack) state)" by (intro card_mono) auto
  then show ?case by auto
qed

declare search.simps [simp del]

fun search_roots :: "layout_edge list \<Rightarrow> string list \<Rightarrow> (string \<Rightarrow> nat) \<Rightarrow> string list \<Rightarrow> (string \<Rightarrow> nat) \<times> string list" where
  "search_roots edges [] state bk = (state, bk)"
| "search_roots edges (r # rs) state bk =
     (if state r \<noteq> 0 then search_roots edges rs state bk
      else (let (state', bk_new) = search edges [(r, out_edges edges r)] (state(r := 1)) bk in search_roots edges rs state' bk_new))"

definition find_back_edges :: "string list \<Rightarrow> layout_edge list \<Rightarrow> string list" where
  "find_back_edges ids edges = snd (search_roots edges ids (\<lambda>_. 0) [])"

section \<open>Layers\<close>

record layering =
  ly_indeg :: "string \<Rightarrow> nat"
  ly_layer :: "string \<Rightarrow> nat option"
  ly_queue :: "string list"

text \<open>One edge \<open>u -> v\<close> of the node that is taken from the queue.\<close>

definition relax :: "string \<Rightarrow> layering \<Rightarrow> layout_edge \<Rightarrow> layering" where
  "relax u s e =
     (let v = le_to e; lu = (case ly_layer s u of Some l \<Rightarrow> l | None \<Rightarrow> 0); lv = (case ly_layer s v of Some l \<Rightarrow> l | None \<Rightarrow> 0)
      in \<lparr>ly_indeg = (ly_indeg s)(v := ly_indeg s v - 1), ly_layer = (ly_layer s)(v \<mapsto> max lv (lu + 1)),
          ly_queue = (if ly_indeg s v - 1 = 0 then ly_queue s @ [v] else ly_queue s)\<rparr>)"

definition take_node :: "layout_edge list \<Rightarrow> string \<Rightarrow> layering \<Rightarrow> layering" where
  "take_node forward u s = foldl (relax u) s (filter (\<lambda>e. le_from e = u) forward)"

text \<open>The loop \<open>while (head < queue.length)\<close>. A node enters the queue when its in-degree falls to zero, so it runs at
  most once per id and once per edge; the fuel is one more than that.\<close>

fun drain :: "nat \<Rightarrow> layout_edge list \<Rightarrow> nat \<Rightarrow> layering \<Rightarrow> layering" where
  "drain 0 forward head s = s"
| "drain (Suc n) forward head s =
     (if head < length (ly_queue s) then drain n forward (Suc head) (take_node forward (ly_queue s ! head) s) else s)"

definition initial_layering :: "string list \<Rightarrow> layout_edge list \<Rightarrow> layering" where
  "initial_layering ids forward =
     (let indeg = (\<lambda>v. length (filter (\<lambda>e. le_to e = v) forward)); q = filter (\<lambda>v. indeg v = 0) ids
      in \<lparr>ly_indeg = indeg, ly_layer = (\<lambda>v. if v \<in> set q then Some 0 else None), ly_queue = q\<rparr>)"

definition assign_layers :: "string list \<Rightarrow> layout_edge list \<Rightarrow> string \<Rightarrow> nat option" where
  "assign_layers ids forward = ly_layer (drain (length ids + length forward + 1) forward 0 (initial_layering ids forward))"

section \<open>Order inside a layer\<close>

definition place_key :: "layout_edge list \<Rightarrow> (string \<times> nat) list \<Rightarrow> string \<Rightarrow> jnum" where
  "place_key forward index v =
     (let ps = map le_from (filter (\<lambda>e. le_to e = v) forward);
          s = foldl (\<lambda>acc p. jadd acc (case map_of index p of Some i \<Rightarrow> Fin (real i) | None \<Rightarrow> NaN)) (Fin 0) ps
      in if ps = [] then Fin 0 else (case s of Fin q \<Rightarrow> Fin (q / real (length ps)) | x \<Rightarrow> x))"

definition with_index :: "string list \<Rightarrow> (string \<times> nat) list" where
  "with_index row = zip row [0..<length row]"

fun order_rest :: "layout_edge list \<Rightarrow> (string \<times> nat) list \<Rightarrow> string list list \<Rightarrow> string list list" where
  "order_rest forward index [] = []"
| "order_rest forward index (row # rows) =
     (let key = place_key forward index; row' = js_sort (\<lambda>a b. num_or (jsub (key a) (key b)) (str_cmp a b)) row
      in row' # order_rest forward (with_index row' @ index) rows)"

text \<open>A node without a layer makes \<open>rows[layer[id]]\<close> throw.\<close>

definition order_layers :: "string list \<Rightarrow> layout_edge list \<Rightarrow> (string \<Rightarrow> nat option) \<Rightarrow> string list list outcome" where
  "order_layers ids forward layer =
     (if \<exists>v\<in>set ids. layer v = None then Throws
      else
        let m = fold (\<lambda>v m. max m (case layer v of Some l \<Rightarrow> l | None \<Rightarrow> 0)) ids 0;
            rows = map (\<lambda>l. filter (\<lambda>v. layer v = Some l) ids) [0..<Suc m]
        in Returns (hd rows # order_rest forward (with_index (hd rows)) (tl rows)))"

section \<open>Groups\<close>

definition group_ids :: "jv \<Rightarrow> string list" where
  "group_ids graph = map (\<lambda>g. str_of (id_of g)) (filter (\<lambda>g. truthy g \<and> is_string (id_of g)) (elems (jget graph ''groups'')))"

text \<open>The outermost group of a node; the first node of an id counts.\<close>

definition group_key :: "jv \<Rightarrow> string \<Rightarrow> string option" where
  "group_key graph v =
     (case find (\<lambda>n. truthy n \<and> id_of n = JStr v) (nodes_of graph) of
        None \<Rightarrow> None
      | Some n \<Rightarrow>
          let p = to_str (jget n ''parent'')
          in if p \<in> set (group_ids graph) then Some (chase (parent_links is_string (elems (jget graph ''groups'')) []) p []) else None)"

fun regroup :: "(string \<Rightarrow> string option) \<Rightarrow> string list \<Rightarrow> string list \<Rightarrow> string list \<Rightarrow> string list" where
  "regroup key row dn [] = []"
| "regroup key row dn (v # vs) =
     (case key v of
        None \<Rightarrow> v # regroup key row dn vs
      | Some k \<Rightarrow> if k \<in> set dn then regroup key row dn vs
                  else filter (\<lambda>w. key w = Some k) row @ regroup key row (k # dn) vs)"

definition regroup_row :: "(string \<Rightarrow> string option) \<Rightarrow> string list \<Rightarrow> string list" where
  "regroup_row key row = regroup key row [] row"

text \<open>The maximal runs of one key, and rows of at most \<open>m\<close> nodes.\<close>

fun runs :: "(string \<Rightarrow> string option) \<Rightarrow> string list \<Rightarrow> string list list" where
  "runs key [] = []"
| "runs key (v # vs) =
     (case runs key vs of
        [] \<Rightarrow> [[v]]
      | r # rs \<Rightarrow> if key (hd r) = key v then (v # r) # rs else [v] # r # rs)"

function chunks :: "nat \<Rightarrow> string list \<Rightarrow> string list list" where
  "chunks m vs = (if vs = [] \<or> m = 0 then [] else take m vs # chunks m (drop m vs))"
  by pat_completeness auto
termination by (relation "measure (\<lambda>(m, vs). length vs)") auto

declare chunks.simps [simp del]

definition wrap_row :: "(string \<Rightarrow> string option) \<Rightarrow> nat \<Rightarrow> string list \<Rightarrow> string list list" where
  "wrap_row key m row = (if row = [] then [row] else concat (map (chunks m) (runs key row)))"

section \<open>The layout\<close>

record layout_result =
  lr_positions :: "(string \<times> real \<times> real) list"
  lr_width :: real
  lr_height :: real
  lr_edges :: "(string \<times> (real \<times> real) list \<times> bool) list"

definition empty_result :: layout_result where
  "empty_result = \<lparr>lr_positions = [], lr_width = 0, lr_height = 0, lr_edges = []\<rparr>"

definition pos_of :: "(string \<times> real \<times> real) list \<Rightarrow> string \<Rightarrow> real \<times> real" where
  "pos_of pos v = (case map_of pos v of Some p \<Rightarrow> p | None \<Rightarrow> (0, 0))"

definition round_points :: "(real \<times> real) list \<Rightarrow> (real \<times> real) list" where
  "round_points pts = map (\<lambda>(x, y). (up4 x, up4 y)) pts"

definition edge_points :: "layout_opts \<Rightarrow> (string \<times> real \<times> real) list \<Rightarrow> real \<Rightarrow> layout_edge \<Rightarrow> bool \<Rightarrow> (real \<times> real) list" where
  "edge_points o' pos bottom e bk =
     (let (sx, sy0) = pos_of pos (le_from e); (tx, ty0) = pos_of pos (le_to e);
          sy = sy0 + lo_nodeH o' / 2; ty = ty0 + lo_nodeH o' / 2
      in round_points
           (if \<not> bk then [(sx + lo_nodeW o', sy), (tx, ty)]
            else let gx = up4 (lo_gapX o' / 2); rx = sx + lo_nodeW o' + gx; lx = max 0 (tx - gx)
                 in [(sx + lo_nodeW o', sy), (rx, sy), (rx, bottom), (lx, bottom), (lx, ty), (tx, ty)]))"

definition edge_points_down :: "layout_opts \<Rightarrow> (string \<times> real \<times> real) list \<Rightarrow> real \<Rightarrow> layout_edge \<Rightarrow> bool \<Rightarrow> (real \<times> real) list" where
  "edge_points_down o' pos lane e bk =
     (let (sx, sy0) = pos_of pos (le_from e); (tx, ty0) = pos_of pos (le_to e);
          scx = sx + lo_nodeW o' / 2; tcx = tx + lo_nodeW o' / 2
      in round_points
           (if \<not> bk then [(scx, sy0 + lo_nodeH o'), (tcx, ty0)]
            else let sy = sy0 + lo_nodeH o' / 2; topY = max 0 (ty0 - up4 (lo_gapY o' / 2))
                 in [(sx + lo_nodeW o', sy), (lane, sy), (lane, topY), (tcx, topY), (tcx, ty0)]))"

definition cell :: "layout_opts \<Rightarrow> nat \<Rightarrow> nat \<Rightarrow> real \<times> real" where
  "cell o' l i =
     (let across = real (if lo_down o' then i else l); along = real (if lo_down o' then l else i)
      in (up4 (across * (lo_nodeW o' + lo_gapX o')), up4 (along * (lo_nodeH o' + lo_gapY o'))))"

definition place_row :: "layout_opts \<Rightarrow> nat \<Rightarrow> string list \<Rightarrow> (string \<times> real \<times> real) list" where
  "place_row o' l row = map (\<lambda>(i, v). (v, cell o' l i)) (zip [0..<length row] row)"

definition place_rows :: "layout_opts \<Rightarrow> string list list \<Rightarrow> (string \<times> real \<times> real) list" where
  "place_rows o' rows = concat (map (\<lambda>(l, row). place_row o' l row) (zip [0..<length rows] rows))"

definition layout_rows :: "jv \<Rightarrow> layout_opts \<Rightarrow> string list list outcome" where
  "layout_rows graph o' =
     (let (ids, edges) = clean_input graph; bk = find_back_edges ids edges;
          forward = filter (\<lambda>e. le_id e \<notin> set bk) edges; key = group_key graph
      in and_then (order_layers ids forward (assign_layers ids forward)) (\<lambda>rows.
         let rows' = map (regroup_row key) rows
         in Returns (if lo_down o' \<and> 0 < lo_maxPerRow o' then concat (map (wrap_row key (lo_maxPerRow o')) rows') else rows')))"

definition layout_graph :: "jv \<Rightarrow> jv \<Rightarrow> layout_result" where
  "layout_graph graph opts =
     (let (ids, edges) = clean_input graph; o' = resolve_opts opts; bk = find_back_edges ids edges
      in if ids = [] then empty_result
         else catch (and_then (layout_rows graph o') (\<lambda>rows.
           let pos = place_rows o' rows;
               right = fold (\<lambda>(v, x, y) m. max m (x + up4 (lo_nodeW o'))) pos 0;
               bottom = fold (\<lambda>(v, x, y) m. max m (y + up4 (lo_nodeH o'))) pos 0;
               has_back = list_ex (\<lambda>e. le_id e \<in> set bk) edges;
               rlane = right + up4 (lo_gapX o' / 2); blane = bottom + up4 (lo_gapY o' / 2);
               is_back = (\<lambda>e. le_id e \<in> set bk)
           in Returns (if lo_down o'
             then \<lparr>lr_positions = pos, lr_width = up4 (if has_back then rlane + 4 else right), lr_height = up4 bottom,
                   lr_edges = map (\<lambda>e. (le_id e, edge_points_down o' pos rlane e (is_back e), is_back e)) edges\<rparr>
             else \<lparr>lr_positions = pos, lr_width = up4 right, lr_height = up4 (if has_back then blane + 4 else bottom),
                   lr_edges = map (\<lambda>e. (le_id e, edge_points o' pos blane e (is_back e), is_back e)) edges\<rparr>))) empty_result)"

end
