(* ===== verification/LayoutCycles.thy ===== *)
theory LayoutCycles
  imports WorkflowLayout
begin

text \<open>
  The depth-first search of \<open>workflow-layout.js\<close>: what is left after the back edges are taken away has no cycle,
  and only edges that lie on a cycle are taken away. The invariant of the search is stated over its stack,
  the states of the nodes and the back edges found so far.
\<close>

definition links :: "layout_edge list \<Rightarrow> (string \<times> string) set" where
  "links edges = (\<lambda>e. (le_from e, le_to e)) ` set edges"

definition settled :: "layout_edge list \<Rightarrow> (string \<Rightarrow> nat) \<Rightarrow> string list \<Rightarrow> (string \<times> string) set" where
  "settled edges state bk = {(le_from e, le_to e) | e. e \<in> set edges \<and> le_id e \<notin> set bk \<and> state (le_from e) = 2}"

text \<open>Each frame's followed edges are back edges, lead to nodes that are done, or led to the frame above.\<close>

fun stack_ok :: "layout_edge list \<Rightarrow> (string \<Rightarrow> nat) \<Rightarrow> string list \<Rightarrow> string option \<Rightarrow> frame list \<Rightarrow> bool" where
  "stack_ok edges state bk abv [] = True"
| "stack_ok edges state bk abv ((u, rem) # stack) =
     (set rem \<subseteq> {e \<in> set edges. le_from e = u}
      \<and> (\<forall>e\<in>set edges. le_from e = u \<longrightarrow> e \<in> set rem \<or> le_id e \<in> set bk \<or> state (le_to e) = 2 \<or> abv = Some (le_to e))
      \<and> (\<forall>a. abv = Some a \<longrightarrow> (u, a) \<in> links edges)
      \<and> stack_ok edges state bk (Some u) stack)"

definition search_inv :: "layout_edge list \<Rightarrow> frame list \<Rightarrow> (string \<Rightarrow> nat) \<Rightarrow> string list \<Rightarrow> bool" where
  "search_inv edges stack state bk \<longleftrightarrow>
     distinct (map fst stack) \<and> (\<forall>v. state v = 1 \<longleftrightarrow> v \<in> set (map fst stack)) \<and> (\<forall>v. state v \<le> 2)
     \<and> (\<forall>e\<in>set edges. state (le_from e) = 2 \<longrightarrow> le_id e \<notin> set bk \<longrightarrow> state (le_to e) = 2)
     \<and> acyclic (settled edges state bk) \<and> stack_ok edges state bk None stack
     \<and> (\<forall>i\<in>set bk. \<exists>e\<in>set edges. le_id e = i \<and> (le_to e, le_from e) \<in> (links edges)\<^sup>*)"

lemma stack_ok_mono:
  "stack_ok edges state bk abv stack \<Longrightarrow> (\<And>v. state v = 2 \<Longrightarrow> state' v = 2) \<Longrightarrow> set bk \<subseteq> set bk' \<Longrightarrow>
   stack_ok edges state' bk' abv stack"
proof (induction edges state bk abv stack rule: stack_ok.induct)
  case (2 edges state bk abv u rem stack)
  have "stack_ok edges state' bk' (Some u) stack" using 2 by simp
  moreover have "\<forall>e\<in>set edges. le_from e = u \<longrightarrow> e \<in> set rem \<or> le_id e \<in> set bk' \<or> state' (le_to e) = 2 \<or> abv = Some (le_to e)"
    using 2(2-4) by (auto; blast)
  ultimately show ?case using 2(2) by simp
qed simp

lemma stack_ok_reach: "stack_ok edges state bk None ((u, rem) # stack) \<Longrightarrow> v \<in> set (map fst ((u, rem) # stack)) \<Longrightarrow> (v, u) \<in> (links edges)\<^sup>*"
proof -
  have "stack_ok edges state bk (Some a) stack \<Longrightarrow> v \<in> set (map fst stack) \<Longrightarrow> (v, a) \<in> (links edges)\<^sup>*" for a v stack
  proof (induction stack arbitrary: a)
    case (Cons f stack)
    obtain w rem where f: "f = (w, rem)" by fastforce
    have "(w, a) \<in> links edges" using Cons.prems(1) by (simp add: f)
    moreover have "v = w \<or> (v, w) \<in> (links edges)\<^sup>*" using Cons.IH [of w] Cons.prems by (auto simp: f)
    ultimately show ?case by (auto intro: rtrancl_into_rtrancl)
  qed simp
  then show "stack_ok edges state bk None ((u, rem) # stack) \<Longrightarrow> v \<in> set (map fst ((u, rem) # stack)) \<Longrightarrow> (v, u) \<in> (links edges)\<^sup>*"
    by auto
qed

lemma acyclic_add_source:
  assumes "acyclic r" and "r' \<subseteq> r \<union> {u} \<times> A" and "u \<notin> A" and "u \<notin> Range r"
  shows "acyclic r'"
proof (rule acyclicI, clarify)
  have step: "(x, y) \<in> r'\<^sup>+ \<Longrightarrow> y \<noteq> u \<and> (x \<noteq> u \<longrightarrow> (x, y) \<in> r\<^sup>+)" for x y
    by (induction rule: trancl_induct) (use assms(2-4) in \<open>auto intro: trancl_into_trancl\<close>)
  fix x assume "(x, x) \<in> r'\<^sup>+"
  with step have "(x, x) \<in> r\<^sup>+" by blast
  with assms(1) show False by (auto simp: acyclic_def)
qed

section \<open>One lemma per step of the search\<close>

lemma inv_pop:
  assumes "search_inv edges ((u, []) # stack) state bk"
  shows "search_inv edges stack (state(u := 2)) bk"
proof -
  have u: "state u = 1" "u \<notin> set (map fst stack)" and ok: "stack_ok edges state bk None ((u, []) # stack)"
    and closed: "\<forall>e\<in>set edges. state (le_from e) = 2 \<longrightarrow> le_id e \<notin> set bk \<longrightarrow> state (le_to e) = 2"
    using assms by (auto simp: search_inv_def)
  have out: "\<forall>e\<in>set edges. le_from e = u \<longrightarrow> le_id e \<in> set bk \<or> state (le_to e) = 2" using ok by auto
  have two: "(state(u := 2)) v = 2 \<longleftrightarrow> state v = 2 \<or> v = u" for v by simp
  have acyc: "acyclic (settled edges state bk)" using assms by (simp add: search_inv_def)
  have sub: "settled edges (state(u := 2)) bk \<subseteq> settled edges state bk \<union> {u} \<times> {v. state v = 2}"
    using out by (auto simp: settled_def)
  have range: "u \<notin> Range (settled edges state bk)" using closed u(1) by (auto simp: settled_def)
  have "acyclic (settled edges (state(u := 2)) bk)"
    by (rule acyclic_add_source [OF acyc sub _ range]) (simp add: u(1))
  moreover have "stack_ok edges (state(u := 2)) bk None stack"
  proof (cases stack)
    case (Cons f fs)
    obtain w rem where f: "f = (w, rem)" by fastforce
    have "stack_ok edges state bk (Some w) fs" using ok by (simp add: Cons f)
    then have "stack_ok edges (state(u := 2)) bk (Some w) fs" by (rule stack_ok_mono) auto
    moreover have "\<forall>e\<in>set edges. le_from e = w \<longrightarrow> e \<in> set rem \<or> le_id e \<in> set bk \<or> state (le_to e) = 2 \<or> le_to e = u"
      using ok by (auto simp: Cons f)
    then have "\<forall>e\<in>set edges. le_from e = w \<longrightarrow> e \<in> set rem \<or> le_id e \<in> set bk \<or> (state(u := 2)) (le_to e) = 2"
      unfolding two by blast
    moreover have "set rem \<subseteq> {e \<in> set edges. le_from e = w}" using ok by (simp add: Cons f)
    ultimately show ?thesis unfolding Cons f by (simp only: stack_ok.simps) blast
  qed simp
  moreover have "\<forall>e\<in>set edges. (state(u := 2)) (le_from e) = 2 \<longrightarrow> le_id e \<notin> set bk \<longrightarrow> (state(u := 2)) (le_to e) = 2"
    using out closed unfolding two by blast
  moreover have "(state(u := 2)) v = 1 \<longleftrightarrow> v \<in> set (map fst stack)" for v using assms u(2) by (simp add: search_inv_def)
  moreover have "(state(u := 2)) v \<le> 2" for v using assms by (simp add: search_inv_def)
  moreover have "distinct (map fst stack)"
    "\<forall>i\<in>set bk. \<exists>e\<in>set edges. le_id e = i \<and> (le_to e, le_from e) \<in> (links edges)\<^sup>*"
    using assms by (simp_all add: search_inv_def)
  ultimately show ?thesis unfolding search_inv_def by blast
qed

lemma inv_back:
  assumes "search_inv edges ((u, e # es) # stack) state bk" and "state (le_to e) = 1"
  shows "search_inv edges ((u, es) # stack) state (bk @ [le_id e])"
proof -
  have ok: "stack_ok edges state bk None ((u, e # es) # stack)" and e: "e \<in> set edges" "le_from e = u"
    using assms by (auto simp: search_inv_def)
  have "settled edges state (bk @ [le_id e]) \<subseteq> settled edges state bk" by (auto simp: settled_def)
  then have "acyclic (settled edges state (bk @ [le_id e]))" using assms(1) acyclic_subset by (auto simp: search_inv_def)
  moreover have "(le_to e, le_from e) \<in> (links edges)\<^sup>*"
    using stack_ok_reach [OF ok, of "le_to e"] assms e by (simp add: search_inv_def)
  moreover have "stack_ok edges state (bk @ [le_id e]) (Some u) stack" using ok by (auto intro: stack_ok_mono)
  then have "stack_ok edges state (bk @ [le_id e]) None ((u, es) # stack)" using ok by auto
  ultimately show ?thesis using assms e by (auto simp: search_inv_def)
qed

lemma inv_push:
  assumes "search_inv edges ((u, e # es) # stack) state bk" and "state (le_to e) = 0"
  shows "search_inv edges ((le_to e, out_edges edges (le_to e)) # (u, es) # stack) (state(le_to e := 1)) bk"
proof -
  let ?s = "state(le_to e := 1)"
  have ok: "stack_ok edges state bk None ((u, e # es) # stack)" and e: "e \<in> set edges" "le_from e = u"
    using assms by (auto simp: search_inv_def)
  have two: "?s v = 2 \<longleftrightarrow> state v = 2" for v using assms(2) by simp
  have "settled edges ?s bk = settled edges state bk" unfolding settled_def two ..
  moreover have "stack_ok edges ?s bk (Some u) stack" using ok two by (auto intro: stack_ok_mono)
  then have "stack_ok edges ?s bk None ((le_to e, out_edges edges (le_to e)) # (u, es) # stack)"
    using ok two e by (auto simp: links_def)
  moreover have "state v = 1 \<longleftrightarrow> v \<in> set (map fst ((u, e # es) # stack))" for v using assms(1) by (simp add: search_inv_def)
  then have "le_to e \<notin> set (map fst ((u, e # es) # stack))" using assms(2) by (metis zero_neq_one)
  ultimately show ?thesis using assms unfolding search_inv_def two by auto
qed

lemma inv_skip:
  assumes "search_inv edges ((u, e # es) # stack) state bk" and "state (le_to e) \<noteq> 0" and "state (le_to e) \<noteq> 1"
  shows "search_inv edges ((u, es) # stack) state bk"
proof -
  have "state (le_to e) \<le> 2" using assms(1) by (simp add: search_inv_def)
  with assms(2,3) have "state (le_to e) = 2" by linarith
  with assms(1) show ?thesis by (auto simp: search_inv_def)
qed

lemma search_result:
  "search_inv edges stack state bk \<Longrightarrow>
   search_inv edges [] (fst (search edges stack state bk)) (snd (search edges stack state bk))
   \<and> (\<forall>v. state v \<noteq> 0 \<longrightarrow> fst (search edges stack state bk) v \<noteq> 0)"
proof (induction edges stack state bk rule: search.induct)
  case (1 edges state bk)
  then show ?case by (simp add: search.simps)
next
  case (2 edges u stack state bk)
  have eq: "search edges ((u, []) # stack) state bk = search edges stack (state(u := 2)) bk" by (simp only: search.simps)
  have "\<forall>v. state v \<noteq> 0 \<longrightarrow> (state(u := 2)) v \<noteq> 0" by simp
  with 2(1) [OF inv_pop [OF 2(2)]] show ?case unfolding eq by blast
next
  case (3 edges u e es stack state bk)
  consider "state (le_to e) = 1" | "state (le_to e) = 0" | "state (le_to e) \<noteq> 0" "state (le_to e) \<noteq> 1" by blast
  then show ?case
  proof cases
    case 1
    then have eq: "search edges ((u, e # es) # stack) state bk = search edges ((u, es) # stack) state (bk @ [le_id e])"
      by (simp add: search.simps)
    show ?thesis unfolding eq by (rule "3.IH"(1) [OF 1 inv_back [OF "3.prems" 1]])
  next
    case 2
    let ?s = "state(le_to e := 1)"
    from 2 have ne: "state (le_to e) \<noteq> 1" by simp
    have eq: "search edges ((u, e # es) # stack) state bk = search edges ((le_to e, out_edges edges (le_to e)) # (u, es) # stack) ?s bk"
      using 2 by (simp add: search.simps del: fun_upd_apply)
    have "\<forall>v. state v \<noteq> 0 \<longrightarrow> ?s v \<noteq> 0" by simp
    with "3.IH"(2) [OF ne 2 inv_push [OF "3.prems" 2]] show ?thesis unfolding eq by blast
  next
    case 3
    then have eq: "search edges ((u, e # es) # stack) state bk = search edges ((u, es) # stack) state bk"
      by (simp only: search.simps if_False)
    show ?thesis unfolding eq by (rule "3.IH"(3) [OF 3(2,1) inv_skip [OF "3.prems" 3]])
  qed
qed

lemma roots_result:
  "search_inv edges [] state bk \<Longrightarrow>
   search_inv edges [] (fst (search_roots edges rs state bk)) (snd (search_roots edges rs state bk))
   \<and> (\<forall>v. state v \<noteq> 0 \<or> v \<in> set rs \<longrightarrow> fst (search_roots edges rs state bk) v \<noteq> 0)"
proof (induction rs arbitrary: state bk)
  case Nil
  then show ?case by simp
next
  case (Cons r rs)
  show ?case
  proof (cases "state r = 0")
    case False
    with Cons show ?thesis by auto
  next
    case True
    have "(state(r := 1)) v = 2 \<longleftrightarrow> state v = 2" for v using True by simp
    then have "settled edges (state(r := 1)) bk = settled edges state bk" unfolding settled_def by simp
    then have "search_inv edges [(r, out_edges edges r)] (state(r := 1)) bk"
      using Cons.prems True by (auto simp: search_inv_def)
    from search_result [OF this] Cons.IH True show ?thesis by (auto simp: case_prod_beta split: if_splits)
  qed
qed

lemma forward_acyclic:
  assumes "\<forall>e\<in>set edges. le_from e \<in> set ids"
  shows "acyclic (links (filter (\<lambda>e. le_id e \<notin> set (find_back_edges ids edges)) edges))"
    and "i \<in> set (find_back_edges ids edges) \<Longrightarrow> \<exists>e\<in>set edges. le_id e = i \<and> (le_to e, le_from e) \<in> (links edges)\<^sup>*"
proof -
  have "search_inv edges [] (\<lambda>_. 0) []" by (simp add: search_inv_def settled_def acyclic_def)
  note r = roots_result [OF this, of ids]
  let ?s = "fst (search_roots edges ids (\<lambda>_. 0) [])"
  have inv: "search_inv edges [] ?s (find_back_edges ids edges)" using r by (simp add: find_back_edges_def)
  have "?s v = 2" if "v \<in> set ids" for v
  proof -
    have "?s v \<noteq> 0" "?s v \<noteq> 1" "?s v \<le> 2" using r that inv by (auto simp: search_inv_def)
    then show ?thesis by linarith
  qed
  then have "links (filter (\<lambda>e. le_id e \<notin> set (find_back_edges ids edges)) edges) \<subseteq> settled edges ?s (find_back_edges ids edges)"
    using assms by (auto simp: links_def settled_def)
  with inv show "acyclic (links (filter (\<lambda>e. le_id e \<notin> set (find_back_edges ids edges)) edges))"
    by (auto simp: search_inv_def intro: acyclic_subset)
  show "i \<in> set (find_back_edges ids edges) \<Longrightarrow> \<exists>e\<in>set edges. le_id e = i \<and> (le_to e, le_from e) \<in> (links edges)\<^sup>*"
    using inv by (auto simp: search_inv_def)
qed

end
