(* ===== verification/LayoutLayers.thy ===== *)
theory LayoutLayers
  imports LayoutCycles
begin

text \<open>
  Layering of \<open>workflow-layout.js\<close>: on edges without a cycle every node gets a layer and every edge leads to a
  later one. The invariant of the queue loop is stated over the multiset of edges that were not relaxed yet:
  a node's in-degree counts the ones that lead to it, and the queue holds exactly the nodes without any.
\<close>

definition into :: "string \<Rightarrow> layout_edge multiset \<Rightarrow> nat" where
  "into v rest = size (filter_mset (\<lambda>e. le_to e = v) rest)"

definition risen :: "(string \<Rightarrow> nat option) \<Rightarrow> layout_edge \<Rightarrow> bool" where
  "risen layer e \<longleftrightarrow> (\<exists>a b. layer (le_from e) = Some a \<and> layer (le_to e) = Some b \<and> a < b)"

definition layer_inv :: "string list \<Rightarrow> layout_edge set \<Rightarrow> layout_edge multiset \<Rightarrow> layering \<Rightarrow> bool" where
  "layer_inv ids rel rest s \<longleftrightarrow>
     (\<forall>v. ly_indeg s v = into v rest) \<and> set (ly_queue s) = {v \<in> set ids. into v rest = 0} \<and> distinct (ly_queue s)
     \<and> (\<forall>v\<in>set (ly_queue s). ly_layer s v \<noteq> None)
     \<and> (\<forall>e\<in>rel. le_from e \<in> set (ly_queue s) \<and> risen (ly_layer s) e)
     \<and> (\<forall>e\<in>#rest. le_from e \<in> set ids \<and> le_to e \<in> set ids)"

lemma into_add: "into v (add_mset e rest) = (if le_to e = v then Suc (into v rest) else into v rest)"
  by (simp add: into_def)

lemma into_pos: "into v rest \<noteq> 0 \<Longrightarrow> \<exists>e\<in>#rest. le_to e = v"
  by (induction rest) (auto simp: into_def split: if_splits)

lemma insert_selected: "P v \<Longrightarrow> v \<in> A \<Longrightarrow> insert v {w \<in> A. w \<noteq> v \<and> P w} = {w \<in> A. P w}"
  by auto

lemma rest_selected: "\<not> P v \<Longrightarrow> {w \<in> A. w \<noteq> v \<and> P w} = {w \<in> A. P w}"
  by auto

lemma relax_inv:
  assumes "layer_inv ids rel (add_mset e rest) s" and "u = le_from e" and "u \<in> set (ly_queue s)"
  shows "layer_inv ids (insert e rel) rest (relax u s e)"
    and "\<exists>ys. ly_queue (relax u s e) = ly_queue s @ ys"
proof -
  let ?v = "le_to e" and ?r = "relax u s e"
  have deg: "ly_indeg s w = into w (add_mset e rest)" for w using assms(1) by (simp add: layer_inv_def)
  have q: "set (ly_queue s) = {w \<in> set ids. into w (add_mset e rest) = 0}" "distinct (ly_queue s)"
    using assms(1) by (simp_all add: layer_inv_def)
  have v: "?v \<notin> set (ly_queue s)" "?v \<in> set ids" using q assms(1) by (auto simp: layer_inv_def into_add)
  have "ly_layer s u \<noteq> None" using assms(1,3) unfolding layer_inv_def by blast
  then obtain lu where lu: "ly_layer s u = Some lu" by blast
  have ne: "u \<noteq> ?v" using v(1) assms(3) by auto
  define lv where "lv = (case ly_layer s ?v of Some l \<Rightarrow> l | None \<Rightarrow> 0)"
  have layer: "ly_layer ?r = (ly_layer s)(?v \<mapsto> max lv (lu + 1))" by (simp add: relax_def Let_def lu lv_def)
  have indeg: "ly_indeg ?r w = into w rest" for w by (simp add: relax_def Let_def deg into_add)
  have queue: "ly_queue ?r = (if into ?v rest = 0 then ly_queue s @ [?v] else ly_queue s)"
    by (simp add: relax_def Let_def deg into_add)
  then show "\<exists>ys. ly_queue ?r = ly_queue s @ ys" by auto
  have set_q: "set (ly_queue ?r) = {w \<in> set ids. into w rest = 0}"
  proof -
    have "(w \<in> set ids \<and> into w (add_mset e rest) = 0) \<longleftrightarrow> (w \<in> set ids \<and> w \<noteq> ?v \<and> into w rest = 0)" for w
      unfolding into_add by (cases "?v = w") simp_all
    then have qs: "set (ly_queue s) = {w \<in> set ids. w \<noteq> ?v \<and> into w rest = 0}" unfolding q(1) by blast
    show ?thesis
    proof (cases "into ?v rest = 0")
      case True
      then have "ly_queue ?r = ly_queue s @ [?v]" using queue by simp
      then have "set (ly_queue ?r) = insert ?v (set (ly_queue s))" by simp
      then show ?thesis using insert_selected [of "\<lambda>w. into w rest = 0" ?v "set ids"] True v(2) qs by simp
    next
      case False
      then have "ly_queue ?r = ly_queue s" using queue by simp
      then show ?thesis using rest_selected [of "\<lambda>w. into w rest = 0" ?v "set ids"] False qs by simp
    qed
  qed
  have dist: "distinct (ly_queue ?r)" using q(2) v(1) by (simp add: queue)
  have "\<forall>w\<in>set (ly_queue s). ly_layer s w \<noteq> None" using assms(1) by (simp add: layer_inv_def)
  then have some: "\<forall>w\<in>set (ly_queue ?r). ly_layer ?r w \<noteq> None" unfolding layer queue by simp
  have rise: "risen (ly_layer ?r) x" "le_from x \<in> set (ly_queue ?r)" if "x \<in> rel" for x
  proof -
    from that assms(1) have x: "le_from x \<in> set (ly_queue s)" "risen (ly_layer s) x" by (auto simp: layer_inv_def)
    then have "le_from x \<noteq> ?v" using v(1) by auto
    with x(2) show "risen (ly_layer ?r) x" by (auto simp: risen_def layer lv_def)
    show "le_from x \<in> set (ly_queue ?r)" using x(1) by (simp add: queue)
  qed
  have "ly_layer ?r (le_from e) = Some lu" "ly_layer ?r ?v = Some (max lv (lu + 1))" using ne lu assms(2) unfolding layer by simp_all
  then have "risen (ly_layer ?r) e" by (auto simp: risen_def)
  moreover have "le_from e \<in> set (ly_queue ?r)" using assms(3) unfolding queue assms(2) [symmetric] by simp
  ultimately show "layer_inv ids (insert e rel) rest ?r"
    using assms(1) indeg set_q dist some rise unfolding layer_inv_def by auto
qed

lemma relax_all_inv:
  "layer_inv ids rel (mset es + rest) s \<Longrightarrow> \<forall>e\<in>set es. le_from e = u \<Longrightarrow> u \<in> set (ly_queue s) \<Longrightarrow>
   layer_inv ids (rel \<union> set es) rest (foldl (relax u) s es) \<and> (\<exists>ys. ly_queue (foldl (relax u) s es) = ly_queue s @ ys)"
proof (induction es arbitrary: rel s)
  case Nil
  then show ?case by simp
next
  case (Cons e es)
  have "layer_inv ids rel (add_mset e (mset es + rest)) s" using Cons.prems(1) by simp
  from relax_inv [OF this _ Cons.prems(3)] Cons.prems(2) have r: "layer_inv ids (insert e rel) (mset es + rest) (relax u s e)"
    "\<exists>ys. ly_queue (relax u s e) = ly_queue s @ ys" by simp_all
  then have "u \<in> set (ly_queue (relax u s e))" using Cons.prems(3) by auto
  with Cons.IH [OF r(1)] Cons.prems(2) r(2) show ?case by auto
qed

definition drain_inv :: "string list \<Rightarrow> layout_edge list \<Rightarrow> nat \<Rightarrow> layering \<Rightarrow> bool" where
  "drain_inv ids forward head s \<longleftrightarrow> head \<le> length (ly_queue s)
     \<and> layer_inv ids {e \<in> set forward. le_from e \<in> set (take head (ly_queue s))}
         (mset (filter (\<lambda>e. le_from e \<notin> set (take head (ly_queue s))) forward)) s"

lemma mset_filter_split: "mset (filter P xs) = mset (filter (\<lambda>x. P x \<and> Q x) xs) + mset (filter (\<lambda>x. P x \<and> \<not> Q x) xs)"
  by (induction xs) auto

lemma drain_step:
  assumes "drain_inv ids forward head s" and "head < length (ly_queue s)"
  shows "drain_inv ids forward (Suc head) (take_node forward (ly_queue s ! head) s)"
proof -
  let ?q = "ly_queue s" and ?u = "ly_queue s ! head"
  let ?es = "filter (\<lambda>e. le_from e = ?u) forward" and ?r = "take_node forward (ly_queue s ! head) s"
  have inv: "layer_inv ids {e \<in> set forward. le_from e \<in> set (take head ?q)} (mset (filter (\<lambda>e. le_from e \<notin> set (take head ?q)) forward)) s"
    using assms(1) by (simp add: drain_inv_def)
  have fresh: "?u \<notin> set (take head ?q)"
    using inv assms(2) by (auto simp: layer_inv_def in_set_conv_nth nth_eq_iff_index_eq)
  have "filter (\<lambda>e. le_from e \<notin> set (take head ?q) \<and> le_from e = ?u) forward = ?es"
    using fresh by (intro filter_cong) auto
  moreover have tk: "take (Suc head) ?q = take head ?q @ [?u]" using assms(2) by (rule take_Suc_conv_app_nth)
  then have "filter (\<lambda>e. le_from e \<notin> set (take head ?q) \<and> le_from e \<noteq> ?u) forward = filter (\<lambda>e. le_from e \<notin> set (take (Suc head) ?q)) forward"
    by (intro filter_cong) auto
  ultimately have "mset (filter (\<lambda>e. le_from e \<notin> set (take head ?q)) forward) = mset ?es + mset (filter (\<lambda>e. le_from e \<notin> set (take (Suc head) ?q)) forward)"
    using mset_filter_split [of "\<lambda>e. le_from e \<notin> set (take head ?q)" forward "\<lambda>e. le_from e = ?u"] by simp
  with inv have pre: "layer_inv ids {e \<in> set forward. le_from e \<in> set (take head ?q)}
      (mset ?es + mset (filter (\<lambda>e. le_from e \<notin> set (take (Suc head) ?q)) forward)) s" by metis
  have "\<forall>e\<in>set ?es. le_from e = ?u" "?u \<in> set ?q" using assms(2) by simp_all
  from relax_all_inv [OF pre this]
  have r: "layer_inv ids ({e \<in> set forward. le_from e \<in> set (take head ?q)} \<union> set ?es) (mset (filter (\<lambda>e. le_from e \<notin> set (take (Suc head) ?q)) forward)) ?r"
    "\<exists>ys. ly_queue ?r = ?q @ ys" unfolding take_node_def by blast+
  then have "take (Suc head) (ly_queue ?r) = take (Suc head) ?q" "Suc head \<le> length (ly_queue ?r)" using assms(2) by auto
  moreover have "{e \<in> set forward. le_from e \<in> set (take head ?q)} \<union> set ?es = {e \<in> set forward. le_from e \<in> set (take (Suc head) ?q)}"
    using tk by auto
  ultimately show ?thesis using r(1) by (simp add: drain_inv_def)
qed

lemma drain_inv_bound: "drain_inv ids forward head s \<Longrightarrow> head \<le> length ids"
proof -
  assume inv: "drain_inv ids forward head s"
  then have "distinct (ly_queue s)" "set (ly_queue s) \<subseteq> set ids" by (auto simp: drain_inv_def layer_inv_def)
  then have "length (ly_queue s) \<le> card (set ids)" by (metis List.finite_set card_mono distinct_card)
  also have "\<dots> \<le> length ids" by (rule card_length)
  finally show ?thesis using inv by (simp add: drain_inv_def)
qed

lemma drain_result:
  "drain_inv ids forward head s \<Longrightarrow> length ids < n + head \<Longrightarrow>
   drain_inv ids forward (length (ly_queue (drain n forward head s))) (drain n forward head s)"
proof (induction n arbitrary: head s)
  case 0
  then show ?case using drain_inv_bound by fastforce
next
  case (Suc n)
  show ?case
  proof (cases "head < length (ly_queue s)")
    case True
    with Suc.IH [OF drain_step [OF Suc.prems(1) True]] Suc.prems(2) show ?thesis by simp
  next
    case False
    with Suc.prems(1) have "head = length (ly_queue s)" by (simp add: drain_inv_def)
    with Suc.prems(1) False show ?thesis by simp
  qed
qed

lemma initial_inv:
  assumes "distinct ids" and "\<forall>e\<in>set forward. le_from e \<in> set ids \<and> le_to e \<in> set ids"
  shows "drain_inv ids forward 0 (initial_layering ids forward)"
proof -
  have "length (filter (\<lambda>e. le_to e = v) forward) = into v (mset forward)" for v by (metis into_def mset_filter size_mset)
  with assms show ?thesis by (auto simp: drain_inv_def layer_inv_def initial_layering_def Let_def)
qed

lemma layers_rise:
  assumes "distinct ids" and "\<forall>e\<in>set forward. le_from e \<in> set ids \<and> le_to e \<in> set ids" and "acyclic (links forward)"
  shows "\<forall>v\<in>set ids. assign_layers ids forward v \<noteq> None" and "\<forall>e\<in>set forward. risen (assign_layers ids forward) e"
proof -
  define s where "s = drain (length ids + length forward + 1) forward 0 (initial_layering ids forward)"
  have "drain_inv ids forward (length (ly_queue s)) s"
    unfolding s_def by (rule drain_result [OF initial_inv [OF assms(1,2)]]) simp
  then have inv: "layer_inv ids {e \<in> set forward. le_from e \<in> set (ly_queue s)} (mset (filter (\<lambda>e. le_from e \<notin> set (ly_queue s)) forward)) s"
    by (simp add: drain_inv_def)
  have pred: "\<exists>u\<in>set ids - set (ly_queue s). (u, v) \<in> links forward" if v: "v \<in> set ids - set (ly_queue s)" for v
  proof -
    from v inv have "into v (mset (filter (\<lambda>e. le_from e \<notin> set (ly_queue s)) forward)) \<noteq> 0" by (auto simp: layer_inv_def)
    from into_pos [OF this] obtain e where "e \<in> set forward" "le_from e \<notin> set (ly_queue s)" "le_to e = v" by auto
    with assms(2) show ?thesis by (auto simp: links_def)
  qed
  have "wf (links forward)" using assms(3) by (intro finite_acyclic_wf) (simp add: links_def)
  have all: "set ids \<subseteq> set (ly_queue s)"
  proof (rule ccontr)
    assume "\<not> set ids \<subseteq> set (ly_queue s)"
    then obtain x where "x \<in> set ids - set (ly_queue s)" by blast
    from wfE_min [OF \<open>wf (links forward)\<close> this] obtain z where
      "z \<in> set ids - set (ly_queue s)" "\<And>y. (y, z) \<in> links forward \<Longrightarrow> y \<notin> set ids - set (ly_queue s)" by blast
    with pred show False by blast
  qed
  have layer: "assign_layers ids forward = ly_layer s" by (simp add: assign_layers_def s_def)
  show "\<forall>v\<in>set ids. assign_layers ids forward v \<noteq> None" using inv all by (auto simp: layer layer_inv_def)
  show "\<forall>e\<in>set forward. risen (assign_layers ids forward) e" using inv all assms(2) by (auto simp: layer layer_inv_def)
qed

end
