(* ===== verification/LayoutProperties.thy ===== *)
theory LayoutProperties
  imports LayoutLayers
begin

text \<open>
  What the layout of \<open>workflow-layout.js\<close> promises: every node is placed, no two boxes overlap, and every edge
  runs forward unless it closes a cycle.
\<close>

text \<open>The names every object inherits. The code keeps its marks in objects written \<open>{}\<close>, so a node or an edge of
  such a name counts as marked from the start; the model has no inherited members, and the properties are about
  the graphs without such names.\<close>

definition OBJECT_MEMBERS :: "string list" where
  "OBJECT_MEMBERS = [''constructor'', ''hasOwnProperty'', ''isPrototypeOf'', ''propertyIsEnumerable'', ''toLocaleString'',
     ''toString'', ''valueOf'', ''__proto__'', ''__defineGetter__'', ''__defineSetter__'', ''__lookupGetter__'', ''__lookupSetter__'']"

definition plain_names :: "jv \<Rightarrow> bool" where
  "plain_names graph =
     (let (ids, edges) = clean_input graph in list_all (\<lambda>v. v \<notin> set OBJECT_MEMBERS) (ids @ map le_id edges))"

section \<open>Clean input\<close>

lemma clean_ids_distinct: "distinct order \<Longrightarrow> distinct (clean_ids ns order)"
  by (induction ns order rule: clean_ids.induct) auto

lemma clean_edges_ok:
  "\<forall>e\<in>set kept. le_from e \<in> set ids \<and> le_to e \<in> set ids \<Longrightarrow> distinct (map le_id kept) \<Longrightarrow>
   (\<forall>e\<in>set (clean_edges ids es kept). le_from e \<in> set ids \<and> le_to e \<in> set ids) \<and> distinct (map le_id (clean_edges ids es kept))"
proof (induction ids es kept rule: clean_edges.induct)
  case (1 ids kept)
  then show ?case by simp
next
  case (2 ids e es kept)
  show ?case unfolding clean_edges.simps(2) Let_def by (rule 2(1) [OF refl refl refl]) (use 2(2,3) in auto)
qed

lemma clean_input_ok:
  assumes "clean_input graph = (ids, edges)"
  shows "distinct ids" and "\<forall>e\<in>set edges. le_from e \<in> set ids \<and> le_to e \<in> set ids" and "distinct (map le_id edges)"
  using assms clean_ids_distinct [of "[]" "nodes_of graph"]
    clean_edges_ok [of "[]" "clean_ids (nodes_of graph) []" "edges_of graph"]
  by (auto simp: clean_input_def Let_def)

section \<open>Rows\<close>

lemma order_rest_mset: "length (order_rest forward index rows) = length rows
  \<and> (\<forall>l<length rows. mset (order_rest forward index rows ! l) = mset (rows ! l))"
  by (induction forward index rows rule: order_rest.induct) (auto simp: Let_def nth_Cons split: nat.splits)

lemma fold_max_ge: "v \<in> set vs \<or> k \<le> m \<Longrightarrow> (v \<in> set vs \<Longrightarrow> k = f v) \<Longrightarrow> (k::nat) \<le> fold (\<lambda>v m. max m (f v)) vs m"
proof (induction vs arbitrary: m)
  case Nil
  then show ?case by simp
next
  case (Cons a vs)
  have "k \<le> fold (\<lambda>v m. max m (f v)) vs (max m (f a))"
    by (rule Cons.IH) (use Cons.prems in \<open>auto simp: max_def\<close>)
  then show ?case by simp
qed

lemma order_layers_rows:
  assumes "\<forall>v\<in>set ids. layer v \<noteq> None"
  obtains rows where "order_layers ids forward layer = Returns rows"
    "\<forall>l<length rows. mset (rows ! l) = mset (filter (\<lambda>v. layer v = Some l) ids)"
    "\<forall>v\<in>set ids. \<forall>l. layer v = Some l \<longrightarrow> l < length rows"
proof -
  define m where "m = fold (\<lambda>v m. max m (case layer v of Some l \<Rightarrow> l | None \<Rightarrow> 0)) ids 0"
  define base where "base = map (\<lambda>l. filter (\<lambda>v. layer v = Some l) ids) [0..<Suc m]"
  define rows where "rows = hd base # order_rest forward (with_index (hd base)) (tl base)"
  have "order_layers ids forward layer = Returns rows"
    using assms by (auto simp: order_layers_def Let_def rows_def base_def m_def simp del: upt_Suc)
  moreover have base: "base \<noteq> []" "length base = Suc m" by (simp_all add: base_def del: upt_Suc)
  have "length rows = length base \<and> (\<forall>l<length rows. mset (rows ! l) = mset (base ! l))"
    using order_rest_mset [of forward "with_index (hd base)" "tl base"] base
    by (auto simp: rows_def nth_Cons hd_conv_nth nth_tl split: nat.splits)
  moreover from this base have "\<forall>l<length rows. mset (rows ! l) = mset (filter (\<lambda>v. layer v = Some l) ids)"
    by (auto simp: base_def simp del: upt_Suc)
  moreover have "l \<le> m" if "v \<in> set ids" "layer v = Some l" for v l
    unfolding m_def by (rule fold_max_ge [where v = v]) (use that in auto)
  ultimately show ?thesis using that base by (metis le_imp_less_Suc)
qed

lemma regroup_set:
  "set (regroup key row dn vs) = {v \<in> set vs. key v = None} \<union> {w \<in> set row. \<exists>k. key w = Some k \<and> k \<notin> set dn \<and> Some k \<in> key ` set vs}"
proof (induction key row dn vs rule: regroup.induct)
  case (1 key row dn)
  then show ?case by simp
next
  case (2 key row dn v vs)
  show ?case
  proof (cases "key v")
    case None
    with 2(1) show ?thesis by auto
  next
    case (Some k)
    show ?thesis
    proof (cases "k \<in> set dn")
      case True
      with 2(2) [OF Some True] Some show ?thesis by (auto simp: image_iff)
    next
      case False
      with 2(3) [OF Some False] Some show ?thesis by (auto simp: image_iff)
    qed
  qed
qed

lemma regroup_distinct: "distinct row \<Longrightarrow> distinct vs \<Longrightarrow> distinct (regroup key row dn vs)"
  by (induction key row dn vs rule: regroup.induct) (auto simp: regroup_set split: option.splits)

lemma mset_regroup_row: "distinct row \<Longrightarrow> mset (regroup_row key row) = mset row"
proof -
  assume d: "distinct row"
  have "x \<in> set (regroup_row key row) \<longleftrightarrow> x \<in> set row" for x
    by (cases "key x") (auto simp: regroup_row_def regroup_set intro: rev_image_eqI)
  then have "set (regroup_row key row) = set row" by blast
  with d show ?thesis by (simp add: regroup_row_def regroup_distinct set_eq_iff_mset_eq_distinct)
qed

lemma concat_runs: "concat (runs key vs) = vs"
  by (induction key vs rule: runs.induct) (auto split: list.splits)

lemma concat_chunks: "0 < m \<Longrightarrow> concat (chunks m vs) = vs"
  by (induction m vs rule: chunks.induct) (subst chunks.simps, auto)

lemma concat_wrap_row: "0 < m \<Longrightarrow> concat (wrap_row key m row) = row"
proof -
  assume m: "0 < m"
  have "concat (concat (map (chunks m) rs)) = concat rs" for rs by (induction rs) (auto simp: concat_chunks [OF m])
  then show ?thesis by (simp add: wrap_row_def concat_runs)
qed

section \<open>Places\<close>

lemma place_rows_names: "map fst (place_rows o' rows) = concat rows"
proof -
  have row: "map fst (place_row o' l r) = r" for l r by (simp add: place_row_def case_prod_beta comp_def)
  have "map fst (concat (map (\<lambda>(l, r). place_row o' l r) (zip is rows))) = concat rows" if "length is = length rows" for "is"
    using that by (induction "is" rows rule: list_induct2) (simp_all add: row)
  then show ?thesis by (simp add: place_rows_def)
qed

lemma place_rows_cell: "(v, p) \<in> set (place_rows o' rows) \<Longrightarrow> \<exists>l<length rows. \<exists>i<length (rows ! l). rows ! l ! i = v \<and> p = cell o' l i"
  by (fastforce simp: place_rows_def place_row_def set_zip)

lemma up4_bounds: "n \<le> up4 n" "up4 n < n + 4"
  unfolding up4_def by linarith+

lemma up4_gap:
  assumes "0 \<le> w" and "4 \<le> g" and "l < (l' :: nat)"
  shows "up4 (real l * (w + g)) + w \<le> up4 (real l' * (w + g))"
proof -
  have "real l + 1 \<le> real l'" using assms(3) by linarith
  then have "(real l + 1) * (w + g) \<le> real l' * (w + g)" using assms(1,2) by (intro mult_right_mono) auto
  then have "real l * (w + g) + w + g \<le> real l' * (w + g)" by (simp add: algebra_simps)
  moreover have "up4 (real l * (w + g)) < real l * (w + g) + 4" by (rule up4_bounds)
  ultimately show ?thesis using up4_bounds(1) [of "real l' * (w + g)"] assms(2) by linarith
qed

lemma opts_nonneg: "0 \<le> lo_nodeW (resolve_opts v)" "0 \<le> lo_nodeH (resolve_opts v)"
  by (auto simp: resolve_opts_def opt_number_def DEFAULTS_def split: jv.splits jnum.splits)

section \<open>The rows that are drawn\<close>

definition flows :: "string list list \<Rightarrow> layout_edge \<Rightarrow> bool" where
  "flows rows e \<longleftrightarrow> (\<exists>i j. i < j \<and> j < length rows \<and> le_from e \<in> set (rows ! i) \<and> le_to e \<in> set (rows ! j))"

lemma concat_map_flows:
  assumes "\<forall>row. concat (f row) = row" and "i < j" and "j < length rows" and "u \<in> set (rows ! i)" and "v \<in> set (rows ! j)"
  shows "\<exists>i' j'. i' < j' \<and> j' < length (concat (map f rows)) \<and> u \<in> set (concat (map f rows) ! i') \<and> v \<in> set (concat (map f rows) ! j')"
proof -
  let ?A = "concat (map f (take j rows))" and ?B = "concat (map f (drop j rows))"
  have split: "concat (map f rows) = ?A @ ?B" by (metis append_take_drop_id concat_append map_append)
  have cc: "concat (concat (map f rs)) = concat rs" for rs by (induction rs) (simp_all add: assms(1))
  have "rows ! i \<in> set (take j rows)" "rows ! j \<in> set (drop j rows)"
    using assms(2,3) nth_mem [of i "take j rows"] nth_mem [of 0 "drop j rows"] by simp_all
  then have "u \<in> set (concat ?A)" "v \<in> set (concat ?B)" unfolding cc using assms(4,5) by auto
  then obtain i' j' where i': "i' < length ?A" "u \<in> set (?A ! i')" and j': "j' < length ?B" "v \<in> set (?B ! j')"
    by (metis in_set_conv_nth set_concat UN_E)
  show ?thesis unfolding split
    using i' j' by (intro exI [of _ i'] exI [of _ "length ?A + j'"]) (auto simp: nth_append)
qed

lemma distinct_fibres:
  "\<forall>l<length rows. distinct (rows ! l) \<and> (\<forall>v\<in>set (rows ! l). f v = Some (l + k)) \<Longrightarrow> distinct (concat rows)"
proof (induction rows arbitrary: k)
  case Nil
  then show ?case by simp
next
  case (Cons r rows)
  have all: "l < length rows \<Longrightarrow> distinct (rows ! l) \<and> (\<forall>v\<in>set (rows ! l). f v = Some (l + Suc k))" for l
    using Cons.prems [rule_format, of "Suc l"] by simp
  moreover have "distinct r" "\<forall>v\<in>set r. f v = Some k" using Cons.prems [rule_format, of 0] by auto
  moreover have "distinct (concat rows)" by (rule Cons.IH [of "Suc k"]) (use all in blast)
  moreover have "set r \<inter> set r' = {}" if "r' \<in> set rows" for r'
  proof -
    from that obtain l where "l < length rows" "r' = rows ! l" by (metis in_set_conv_nth)
    with all [of l] \<open>\<forall>v\<in>set r. f v = Some k\<close> show ?thesis by fastforce
  qed
  ultimately show ?case by (simp add: disjoint_iff)
qed

lemma distinct_concat_nth:
  "i \<noteq> j \<Longrightarrow> distinct (concat rows) \<Longrightarrow> j < length rows \<Longrightarrow> i < length rows \<Longrightarrow> set (rows ! i) \<inter> set (rows ! j) = {}"
proof (induction rows arbitrary: i j)
  case Nil
  then show ?case by simp
next
  case (Cons r rows)
  have mem: "set (rows ! n) \<inter> set r = {} \<and> set r \<inter> set (rows ! n) = {}" if "n < length rows" for n
  proof -
    have "set (rows ! n) \<subseteq> \<Union> (set ` set rows)" using that by (meson UN_upper nth_mem)
    with Cons.prems(2) show ?thesis by (simp add: disjoint_iff subset_iff) blast
  qed
  show ?case
  proof (cases i)
    case 0
    with Cons.prems obtain j' where "j = Suc j'" by (cases j) auto
    with 0 Cons.prems mem show ?thesis by simp
  next
    case (Suc i')
    with Cons mem [of i'] show ?thesis by (cases j) simp_all
  qed
qed

lemma layout_rows_ok:
  assumes "clean_input graph = (ids, edges)"
  obtains rows where "layout_rows graph o' = Returns rows" "mset (concat rows) = mset ids"
    "\<forall>e\<in>set edges. le_id e \<notin> set (find_back_edges ids edges) \<longrightarrow> flows rows e"
proof -
  note clean = clean_input_ok [OF assms]
  define fw where "fw = filter (\<lambda>e. le_id e \<notin> set (find_back_edges ids edges)) edges"
  have "acyclic (links fw)" unfolding fw_def by (rule forward_acyclic) (use clean(2) in blast)
  moreover have "\<forall>e\<in>set fw. le_from e \<in> set ids \<and> le_to e \<in> set ids" using clean(2) by (simp add: fw_def)
  ultimately have lay: "\<forall>v\<in>set ids. assign_layers ids fw v \<noteq> None" "\<forall>e\<in>set fw. risen (assign_layers ids fw) e"
    using layers_rise [OF clean(1)] by blast+
  from order_layers_rows [OF lay(1), of fw] obtain base where base: "order_layers ids fw (assign_layers ids fw) = Returns base"
    "\<forall>l<length base. mset (base ! l) = mset (filter (\<lambda>v. assign_layers ids fw v = Some l) ids)"
    "\<forall>v\<in>set ids. \<forall>l. assign_layers ids fw v = Some l \<longrightarrow> l < length base" by metis
  define rows where "rows = map (regroup_row (group_key graph)) base"
  have dist: "distinct (base ! l)" if "l < length base" for l
    using base(2) that clean(1) by (metis distinct_filter mset_eq_imp_distinct_iff)
  have row: "mset (rows ! l) = mset (filter (\<lambda>v. assign_layers ids fw v = Some l) ids)" if "l < length base" for l
    using that base(2) dist by (simp add: rows_def mset_regroup_row)
  then have row_set: "set (rows ! l) = {v \<in> set ids. assign_layers ids fw v = Some l}" if "l < length base" for l
    using that by (metis mset_eq_setD set_filter)
  define f where "f = (\<lambda>row. if lo_down o' \<and> 0 < lo_maxPerRow o' then wrap_row (group_key graph) (lo_maxPerRow o') row else [row])"
  have f: "\<forall>row. concat (f row) = row" by (auto simp: f_def concat_wrap_row)
  have "concat (map (\<lambda>x. [g x]) rs) = map g rs" for g and rs :: "string list list" by (induction rs) auto
  then have drawn: "layout_rows graph o' = Returns (concat (map f rows))"
    unfolding layout_rows_def assms
    by (cases "lo_down o' \<and> 0 < lo_maxPerRow o'") (auto simp: Let_def fw_def [symmetric] base(1) rows_def f_def comp_def)
  have cc: "concat (concat (map f rs)) = concat rs" for rs by (induction rs) (simp_all add: f)
  have ms: "mset (concat rows) = mset ids" 
  proof -
    have len: "length rows = length base" by (simp add: rows_def)
    have "set (concat rows) = set ids"
    proof (intro set_eqI iffI)
      fix v assume "v \<in> set (concat rows)"
      then obtain l where "l < length rows" "v \<in> set (rows ! l)" by (metis in_set_conv_nth set_concat UN_E)
      with row_set [of l] len show "v \<in> set ids" by simp
    next
      fix v assume v: "v \<in> set ids"
      with lay(1) obtain l where l: "assign_layers ids fw v = Some l" by blast
      with v base(3) have "l < length base" by blast
      with row_set [of l] v l have "v \<in> set (rows ! l)" by simp
      with \<open>l < length base\<close> len show "v \<in> set (concat rows)" by (auto intro!: bexI [of _ "rows ! l"])
    qed
    moreover have "distinct (concat rows)"
    proof (rule distinct_fibres [where f = "assign_layers ids fw" and k = 0], intro allI impI conjI)
      fix l assume l: "l < length rows"
      show "distinct (rows ! l)" using row l len clean(1) by (metis distinct_filter mset_eq_imp_distinct_iff)
      show "\<forall>v\<in>set (rows ! l). assign_layers ids fw v = Some (l + 0)" using row_set l len by simp
    qed
    ultimately show ?thesis using clean(1) by (metis set_eq_iff_mset_eq_distinct)
  qed
  have "flows (concat (map f rows)) e" if e: "e \<in> set edges" "le_id e \<notin> set (find_back_edges ids edges)" for e
  proof -
    have "e \<in> set fw" using e by (simp add: fw_def)
    with lay(2) obtain a b where ab: "assign_layers ids fw (le_from e) = Some a" "assign_layers ids fw (le_to e) = Some b" "a < b"
      by (auto simp: risen_def)
    have "b < length base" using base(3) ab clean(2) e(1) by blast
    then have "le_from e \<in> set (rows ! a)" "le_to e \<in> set (rows ! b)" "b < length rows"
      using ab clean(2) e(1) row_set by (auto simp: rows_def)
    with concat_map_flows [OF f ab(3)] show ?thesis by (auto simp: flows_def)
  qed
  with drawn ms cc show ?thesis by (intro that [of "concat (map f rows)"]) auto
qed

section \<open>The layout\<close>

lemma layout_graph_ok:
  assumes "clean_input graph = (ids, edges)"
  obtains rows pts where "lr_positions (layout_graph graph opts) = place_rows (resolve_opts opts) rows"
    "lr_edges (layout_graph graph opts) = map (\<lambda>e. (le_id e, pts e, le_id e \<in> set (find_back_edges ids edges))) edges"
    "mset (concat rows) = mset ids" "\<forall>e\<in>set edges. le_id e \<notin> set (find_back_edges ids edges) \<longrightarrow> flows rows e"
proof (cases "ids = []")
  case True
  then have "edges = []" using clean_input_ok(2) [OF assms] by (cases edges) auto
  with True assms that [of "[]"] show ?thesis by (simp add: layout_graph_def empty_result_def place_rows_def)
next
  case False
  obtain rows where "layout_rows graph (resolve_opts opts) = Returns rows" "mset (concat rows) = mset ids"
    "\<forall>e\<in>set edges. le_id e \<notin> set (find_back_edges ids edges) \<longrightarrow> flows rows e"
    by (rule layout_rows_ok [OF assms])
  note rows = this and unfold = layout_graph_def assms this(1)
  have "lr_positions (layout_graph graph opts) = place_rows (resolve_opts opts) rows"
    using False by (simp add: unfold Let_def)
  moreover have "\<exists>pts. lr_edges (layout_graph graph opts) = map (\<lambda>e. (le_id e, pts e, le_id e \<in> set (find_back_edges ids edges))) edges"
    using False by (cases "lo_down (resolve_opts opts)") (auto simp: unfold Let_def intro!: exI)
  ultimately show ?thesis using rows that by blast
qed

lemma placed_in_rows:
  assumes "(v, p) \<in> set (place_rows o' rows)" and "distinct (concat rows)" and "v \<in> set (rows ! l)" and "l < length rows"
  shows "\<exists>i<length (rows ! l). rows ! l ! i = v \<and> p = cell o' l i"
proof -
  obtain l' i where c: "l' < length rows" "i < length (rows ! l')" "rows ! l' ! i = v" "p = cell o' l' i"
    using place_rows_cell [OF assms(1)] by blast
  have "l' = l"
  proof (rule ccontr)
    assume "l' \<noteq> l"
    then have "set (rows ! l') \<inter> set (rows ! l) = {}"
      using assms(2,4) c(1) by (rule distinct_concat_nth)
    with c assms(3) show False by (metis IntI empty_iff nth_mem)
  qed
  with c show ?thesis by blast
qed

section \<open>A graph of two nodes in a cycle\<close>

definition demo_graph :: jv where
  "demo_graph = JObj [(''nodes'', JArr [JObj [(''id'', JStr ''b'')], JObj [(''id'', JStr ''a'')]]),
     (''edges'', JArr [JObj [(''id'', JStr ''e1''), (''from'', JStr ''a''), (''to'', JStr ''b'')],
        JObj [(''id'', JStr ''e2''), (''from'', JStr ''b''), (''to'', JStr ''a'')]])]"

definition demo_out :: layout_edge where
  "demo_out = \<lparr>le_id = ''e1'', le_from = ''a'', le_to = ''b''\<rparr>"

definition demo_back :: layout_edge where
  "demo_back = \<lparr>le_id = ''e2'', le_from = ''b'', le_to = ''a''\<rparr>"

lemma demo_ends [simp]:
  "le_id demo_out = ''e1''" "le_from demo_out = ''a''" "le_to demo_out = ''b''"
  "le_id demo_back = ''e2''" "le_from demo_back = ''b''" "le_to demo_back = ''a''"
  by (simp_all add: demo_out_def demo_back_def)

lemma demo_opts: "resolve_opts JUndef = DEFAULTS"
  by (simp add: resolve_opts_def DEFAULTS_def opt_number_def)

lemma demo_clean: "clean_input demo_graph = ([''a'', ''b''], [demo_out, demo_back])"
  by (simp add: clean_input_def demo_graph_def nodes_of_def edges_of_def id_of_def demo_out_def demo_back_def str_cmp_def Let_def)

lemma demo_back_edges: "find_back_edges [''a'', ''b''] [demo_out, demo_back] = [''e2'']"
  by (simp add: find_back_edges_def search.simps out_edges_def)

lemma drain_go:
  "0 < n \<Longrightarrow> head < length (ly_queue s) \<Longrightarrow> drain n f head s = drain (n - 1) f (Suc head) (take_node f (ly_queue s ! head) s)"
  by (cases n) auto

lemma drain_stop: "\<not> head < length (ly_queue s) \<Longrightarrow> drain n f head s = s"
  by (cases n) auto

lemma demo_initial: "initial_layering [''a'', ''b''] [demo_out] =
   \<lparr>ly_indeg = (\<lambda>v. if v = ''b'' then 1 else 0), ly_layer = [''a'' \<mapsto> 0], ly_queue = [''a'']\<rparr>"
  by (simp add: initial_layering_def Let_def fun_eq_iff)

lemma demo_take: "take_node [demo_out] ''a'' s = relax ''a'' s demo_out" "take_node [demo_out] ''b'' s = s"
  by (simp_all add: take_node_def)

lemma demo_layers: "assign_layers [''a'', ''b''] [demo_out] = [''a'' \<mapsto> 0, ''b'' \<mapsto> 1]"
  by (simp add: assign_layers_def demo_initial demo_take relax_def Let_def drain_go drain_stop del: drain.simps)

lemma demo_order: "order_layers [''a'', ''b''] [demo_out] [''a'' \<mapsto> 0, ''b'' \<mapsto> 1] = Returns [[''a''], [''b'']]"
  by (simp add: order_layers_def with_index_def Let_def)

lemma demo_keys: "group_key demo_graph = (\<lambda>_. None)"
  by (auto simp: fun_eq_iff group_key_def demo_graph_def nodes_of_def group_ids_def id_of_def split: option.splits)

lemma demo_rows: "\<not> lo_down o' \<Longrightarrow> layout_rows demo_graph o' = Returns [[''a''], [''b'']]"
  by (simp add: layout_rows_def demo_clean demo_back_edges demo_layers demo_order [simplified] demo_keys regroup_row_def Let_def)

lemma demo_layout:
  "lr_positions (layout_graph demo_graph JUndef) = [(''a'', 0, 0), (''b'', 288, 0)]"
  "lr_edges (layout_graph demo_graph JUndef) =
     [(''e1'', [(240, 48), (288, 48)], False), (''e2'', [(528, 48), (552, 48), (552, 108), (0, 108), (0, 48), (0, 48)], True)]"
  by (simp_all add: layout_graph_def demo_clean demo_back_edges demo_opts demo_rows DEFAULTS_def Let_def place_rows_def
    place_row_def cell_def up4_def edge_points_def round_points_def pos_of_def)

lemma demo_plain: "plain_names demo_graph"
  by (simp add: plain_names_def demo_clean OBJECT_MEMBERS_def)

section \<open>Properties\<close>

text \<open>The layout puts every node of the cleaned input at exactly one place; it never falls back to the empty result
  while there is a node.
\<close>

theorem layout_places_every_node:
  assumes "plain_names graph"
  shows "mset (map fst (lr_positions (layout_graph graph opts))) = mset (fst (clean_input graph))"
proof -
  obtain ids edges where c: "clean_input graph = (ids, edges)" by force
  obtain rows pts where "lr_positions (layout_graph graph opts) = place_rows (resolve_opts opts) rows" "mset (concat rows) = mset ids"
    by (rule layout_graph_ok [OF c])
  with c show ?thesis by (simp add: place_rows_names)
qed

lemma layout_places_every_node_witness:
  "mset (map fst (lr_positions (layout_graph demo_graph JUndef))) = {#''a'', ''b''#}"
  using layout_places_every_node [OF demo_plain, of JUndef] by (simp add: demo_clean)

definition boxes_apart :: "layout_opts \<Rightarrow> real \<times> real \<Rightarrow> real \<times> real \<Rightarrow> bool" where
  "boxes_apart o' p q \<longleftrightarrow> fst p + lo_nodeW o' \<le> fst q \<or> fst q + lo_nodeW o' \<le> fst p
     \<or> snd p + lo_nodeH o' \<le> snd q \<or> snd q + lo_nodeH o' \<le> snd p"

lemma cells_apart:
  assumes "(l, i) \<noteq> (m, j)" and "0 \<le> lo_nodeW o'" and "0 \<le> lo_nodeH o'" and "4 \<le> lo_gapX o'" and "4 \<le> lo_gapY o'"
  shows "boxes_apart o' (cell o' l i) (cell o' m j)"
proof -
  note gx = up4_gap [OF assms(2,4)] and gy = up4_gap [OF assms(3,5)]
  consider "l < m" | "m < l" | "i < j" | "j < i" using assms(1) by fastforce
  then show ?thesis
    by cases (use gx [of l m] gx [of m l] gx [of i j] gx [of j i] gy [of l m] gy [of m l] gy [of i j] gy [of j i]
      in \<open>auto simp: boxes_apart_def cell_def Let_def\<close>)
qed

text \<open>C15: with gaps of at least one grid step, the boxes of two different nodes do not overlap, in both directions and
  with wrapped rows.
\<close>

theorem layout_boxes_disjoint:
  assumes "plain_names graph" and "4 \<le> lo_gapX (resolve_opts opts)" and "4 \<le> lo_gapY (resolve_opts opts)"
    and "(a, p) \<in> set (lr_positions (layout_graph graph opts))"
    and "(b, q) \<in> set (lr_positions (layout_graph graph opts))" and "a \<noteq> b"
  shows "boxes_apart (resolve_opts opts) p q"
proof -
  obtain ids edges where c: "clean_input graph = (ids, edges)" by force
  obtain rows pts where pos: "lr_positions (layout_graph graph opts) = place_rows (resolve_opts opts) rows"
    by (rule layout_graph_ok [OF c])
  obtain l i where 1: "i < length (rows ! l)" "rows ! l ! i = a" "p = cell (resolve_opts opts) l i"
    using place_rows_cell assms(4) unfolding pos by blast
  obtain m j where 2: "j < length (rows ! m)" "rows ! m ! j = b" "q = cell (resolve_opts opts) m j"
    using place_rows_cell assms(5) unfolding pos by blast
  have "(l, i) \<noteq> (m, j)" using 1 2 assms(6) by auto
  then show ?thesis unfolding 1(3) 2(3) using assms(2,3) by (intro cells_apart) (simp_all add: opts_nonneg)
qed

lemma layout_boxes_disjoint_witness:
  "boxes_apart (resolve_opts JUndef) (0, 0) (288, 0) \<and> (''b'', 288, 0) \<in> set (lr_positions (layout_graph demo_graph JUndef))"
  using layout_boxes_disjoint [of demo_graph JUndef "''a''" "(0, 0)" "''b''" "(288, 0)"]
  by (simp add: demo_plain demo_layout demo_opts DEFAULTS_def)

text \<open>Every drawn edge is one of the cleaned input. One that is flagged as a back edge closes a cycle of the input;
  any other one leaves its source box before the box of its target begins, along the direction of the layout.
\<close>

theorem layout_edges_flow:
  assumes "plain_names graph" and "4 \<le> lo_gapX (resolve_opts opts)" and "4 \<le> lo_gapY (resolve_opts opts)"
    and "(i, pts, bk) \<in> set (lr_edges (layout_graph graph opts))"
  shows "\<exists>e\<in>set (snd (clean_input graph)). le_id e = i \<and>
    (let pos = pos_of (lr_positions (layout_graph graph opts)); s = pos (le_from e); t = pos (le_to e); o' = resolve_opts opts
     in if bk then (le_to e, le_from e) \<in> (links (snd (clean_input graph)))\<^sup>*
        else if lo_down o' then snd s + lo_nodeH o' \<le> snd t else fst s + lo_nodeW o' \<le> fst t)"
proof -
  let ?o = "resolve_opts opts"
  obtain ids edges where c: "clean_input graph = (ids, edges)" by force
  note clean = clean_input_ok [OF c]
  obtain rows pts' where pos: "lr_positions (layout_graph graph opts) = place_rows ?o rows"
    and es: "lr_edges (layout_graph graph opts) = map (\<lambda>e. (le_id e, pts' e, le_id e \<in> set (find_back_edges ids edges))) edges"
    and ms: "mset (concat rows) = mset ids"
    and fl: "\<forall>e\<in>set edges. le_id e \<notin> set (find_back_edges ids edges) \<longrightarrow> flows rows e"
    by (rule layout_graph_ok [OF c])
  have d: "distinct (concat rows)" using clean(1) ms by (metis mset_eq_imp_distinct_iff)
  from assms(4) obtain e where e: "e \<in> set edges" "i = le_id e" "bk \<longleftrightarrow> le_id e \<in> set (find_back_edges ids edges)"
    unfolding es by auto
  have place: "\<exists>k. pos_of (place_rows ?o rows) v = cell ?o l k" if "v \<in> set (rows ! l)" "l < length rows" for v l
  proof -
    have "v \<in> fst ` set (place_rows ?o rows)"
      using that place_rows_names [of ?o rows] by (metis in_set_conv_nth list.set_map set_concat UN_I nth_mem)
    then obtain p where p: "map_of (place_rows ?o rows) v = Some p" by (metis map_of_eq_None_iff not_Some_eq)
    then have "\<exists>k<length (rows ! l). rows ! l ! k = v \<and> p = cell ?o l k" by (intro placed_in_rows [OF _ d that]) (rule map_of_SomeD)
    with p show ?thesis by (auto simp: pos_of_def)
  qed
  show ?thesis
  proof (cases bk)
    case True
    then obtain e' where "e' \<in> set edges" "le_id e' = le_id e" "(le_to e', le_from e') \<in> (links edges)\<^sup>*"
      using forward_acyclic(2) [of edges ids "le_id e"] clean(2) e by blast
    moreover from this have "e' = e" using clean(3) e(1) by (metis distinct_map inj_onD)
    ultimately show ?thesis using True e c by auto
  next
    case False
    then obtain l m where lm: "l < m" "m < length rows" "le_from e \<in> set (rows ! l)" "le_to e \<in> set (rows ! m)"
      using fl e by (auto simp: flows_def)
    obtain k k' where "pos_of (place_rows ?o rows) (le_from e) = cell ?o l k" "pos_of (place_rows ?o rows) (le_to e) = cell ?o m k'"
      using place [OF lm(3)] place [OF lm(4)] lm by auto
    with up4_gap [OF opts_nonneg(1) assms(2) lm(1)] up4_gap [OF opts_nonneg(2) assms(3) lm(1)] False e c
    show ?thesis by (auto simp: pos cell_def Let_def)
  qed
qed

lemma layout_edges_flow_witness:
  "\<exists>e\<in>set (snd (clean_input demo_graph)). le_id e = ''e2''
     \<and> (le_to e, le_from e) \<in> (links (snd (clean_input demo_graph)))\<^sup>*"
  using layout_edges_flow [of demo_graph JUndef "''e2''" "[(528, 48), (552, 48), (552, 108), (0, 108), (0, 48), (0, 48)]" True]
  by (simp add: demo_plain demo_layout demo_opts DEFAULTS_def Let_def)

end
