(* ===== verification/HealthLedger.thy ===== *)
theory HealthLedger
  imports JsObject JsDate
begin

text \<open>
  \<open>src/health-ledger-schema.js\<close>: the rows that loops append to the health ledger. The module declares a schema
  and checks rows by a hand-written \<open>validateRow\<close>; the interpreter \<open>conforms\<close> gives the schema the meaning its
  field names state, so that the validator can be compared with it. A ledger file is the list of what
  \<open>JSON.parse\<close> gives for its lines (none for a line it rejects or that is blank); every file ends with a newline,
  as \<open>appendRow\<close> leaves it.
\<close>

definition TRIGGER_KINDS :: "string list" where
  "TRIGGER_KINDS = [''schedule'', ''event'']"

section \<open>The declared schema\<close>

text \<open>\<open>ObjVal\<close> carries the required keys and the fields; a field that is not required may be missing.\<close>

datatype schema =
    AnyVal
  | StrVal
  | IsoVal
  | EnumVal "string list"
  | NumVal
  | ArrVal schema
  | ObjVal "string list" "(string \<times> schema) list"

definition ledger_item :: schema where
  "ledger_item = ObjVal [''item_id'', ''cause''] [(''item_id'', StrVal), (''cause'', StrVal)]"

definition HEALTH_LEDGER_ROW_SCHEMA :: schema where
  "HEALTH_LEDGER_ROW_SCHEMA =
     ObjVal [''ts'', ''loop_id'', ''trigger'', ''verdict'', ''items'', ''metric'', ''cost'']
       [(''ts'', IsoVal),
        (''loop_id'', StrVal),
        (''trigger'', ObjVal [''kind'', ''detail''] [(''kind'', EnumVal TRIGGER_KINDS), (''detail'', StrVal)]),
        (''verdict'', ObjVal [''value'', ''inputs''] [(''value'', AnyVal), (''inputs'', ObjVal [] [])]),
        (''items'', ObjVal [''released'', ''held'', ''filed'']
           [(''released'', ArrVal ledger_item), (''held'', ArrVal ledger_item), (''filed'', ArrVal ledger_item)]),
        (''metric'', ObjVal [''name'', ''before'', ''after''] [(''name'', StrVal), (''before'', NumVal), (''after'', NumVal)]),
        (''cost'', ObjVal [''gpu_minutes'', ''peak_ram_mb'', ''model_calls'']
           [(''gpu_minutes'', NumVal), (''peak_ram_mb'', NumVal), (''model_calls'', NumVal)]),
        (''note'', StrVal)]"

text \<open>\<open>k in o\<close> for an own key.\<close>

fun has_key :: "jv \<Rightarrow> string \<Rightarrow> bool" where
  "has_key (JObj kvs) k = (k \<in> fst ` set kvs)"
| "has_key _ k = False"

text \<open>The expression \<open>^d{4}-d{2}-d{2}Td{2}:d{2}:d{2}(.d+)?(Z|[+-]d{2}:d{2})$\<close>.\<close>

definition iso_text :: "string \<Rightarrow> bool" where
  "iso_text s =
     (let r = drop 19 s; frac = starts_with ''.'' r; zone = (if frac then dropWhile is_digit (tl r) else r)
      in matches_layout ''9999-99-99T99:99:99'' (take 19 s) \<and> (frac \<longrightarrow> takeWhile is_digit (tl r) \<noteq> [])
         \<and> (zone = ''Z'' \<or> matches_layout ''+99:99'' zone \<or> matches_layout ''-99:99'' zone))"

definition date_text :: "string \<Rightarrow> bool" where
  "date_text s = matches_layout ''9999-99-99'' s"

fun conforms :: "schema \<Rightarrow> jv \<Rightarrow> bool" where
  "conforms AnyVal v = True"
| "conforms StrVal v = is_string v"
| "conforms IsoVal v = (is_string v \<and> iso_text (str_of v))"
| "conforms (EnumVal ks) v = (is_string v \<and> str_of v \<in> set ks)"
| "conforms NumVal v = is_number v"
| "conforms (ArrVal s) v = (is_array v \<and> list_all (conforms s) (elems v))"
| "conforms (ObjVal req fs) v =
     (is_object v \<and> list_all (has_key v) req
      \<and> list_all (\<lambda>(k, s). jget v k = JUndef \<or> conforms s (jget v k)) fs)"

section \<open>validateRow\<close>

definition need :: "bool \<Rightarrow> string \<Rightarrow> string list" where
  "need ok msg = (if ok then [] else [msg])"

definition filled_text :: "jv \<Rightarrow> bool" where
  "filled_text v \<longleftrightarrow> is_string v \<and> str_of v \<noteq> []"

definition field_errors :: "jv \<Rightarrow> string \<Rightarrow> (jv \<Rightarrow> string list) \<Rightarrow> string list" where
  "field_errors row k check = (if jget row k = JUndef then [] else check (jget row k))"

definition missing_errors :: "jv \<Rightarrow> string list" where
  "missing_errors row =
     concat (map (\<lambda>k. need (has_key row k) (''missing required field: '' @ k))
       [''ts'', ''loop_id'', ''trigger'', ''verdict'', ''items'', ''metric'', ''cost''])"

definition ts_errors :: "jv \<Rightarrow> string list" where
  "ts_errors v = need (is_string v \<and> iso_text (str_of v)) ''ts must be an ISO 8601 UTC string''"

definition loop_id_errors :: "jv \<Rightarrow> string list" where
  "loop_id_errors v = need (filled_text v) ''loop_id must be a non-empty string''"

definition trigger_errors :: "jv \<Rightarrow> string list" where
  "trigger_errors v =
     (if \<not> is_object v then [''trigger must be an object'']
      else need (is_string (jget v ''kind'') \<and> str_of (jget v ''kind'') \<in> set TRIGGER_KINDS)
             (''trigger.kind must be one of: '' @ join '', '' TRIGGER_KINDS)
           @ need (is_string (jget v ''detail'')) ''trigger.detail must be a string'')"

definition verdict_errors :: "jv \<Rightarrow> string list" where
  "verdict_errors v =
     (if \<not> is_object v then [''verdict must be an object'']
      else need (has_key v ''value'') ''verdict must have a value field''
           @ need (is_object (jget v ''inputs'')) ''verdict.inputs must be an object'')"

definition item_errors :: "string \<Rightarrow> nat \<Rightarrow> jv \<Rightarrow> string list" where
  "item_errors bucket i e =
     (let place = ''items.'' @ bucket @ ''['' @ nat_str i @ '']''
      in if \<not> is_object e then [place @ '' must be an object'']
         else need (filled_text (jget e ''item_id'')) (place @ ''.item_id must be a non-empty string'')
              @ need (filled_text (jget e ''cause'')) (place @ ''.cause must be a non-empty string''))"

fun bucket_items_errors :: "string \<Rightarrow> nat \<Rightarrow> jv list \<Rightarrow> string list" where
  "bucket_items_errors bucket i [] = []"
| "bucket_items_errors bucket i (e # es) = item_errors bucket i e @ bucket_items_errors bucket (Suc i) es"

definition bucket_errors :: "jv \<Rightarrow> string \<Rightarrow> string list" where
  "bucket_errors items bucket =
     (if \<not> is_array (jget items bucket) then [''items.'' @ bucket @ '' must be an array'']
      else bucket_items_errors bucket 0 (elems (jget items bucket)))"

definition items_errors :: "jv \<Rightarrow> string list" where
  "items_errors v =
     (if \<not> is_object v then [''items must be an object'']
      else concat (map (bucket_errors v) [''released'', ''held'', ''filed'']))"

definition metric_errors :: "jv \<Rightarrow> string list" where
  "metric_errors v =
     (if \<not> is_object v then [''metric must be an object'']
      else need (is_string (jget v ''name'')) ''metric.name must be a string''
           @ need (is_number (jget v ''before'')) ''metric.before must be a number''
           @ need (is_number (jget v ''after'')) ''metric.after must be a number'')"

definition cost_errors :: "jv \<Rightarrow> string list" where
  "cost_errors v =
     (if \<not> is_object v then [''cost must be an object'']
      else need (is_number (jget v ''gpu_minutes'')) ''cost.gpu_minutes must be a number''
           @ need (is_number (jget v ''peak_ram_mb'')) ''cost.peak_ram_mb must be a number''
           @ need (is_number (jget v ''model_calls'')) ''cost.model_calls must be a number'')"

definition note_errors :: "jv \<Rightarrow> string list" where
  "note_errors v = need (is_string v) ''note must be a string if provided''"

definition validate_row :: "jv \<Rightarrow> string list" where
  "validate_row row =
     (if \<not> is_object row then [''row must be a non-null object'']
      else missing_errors row
           @ field_errors row ''ts'' ts_errors
           @ field_errors row ''loop_id'' loop_id_errors
           @ field_errors row ''trigger'' trigger_errors
           @ field_errors row ''verdict'' verdict_errors
           @ field_errors row ''items'' items_errors
           @ field_errors row ''metric'' metric_errors
           @ field_errors row ''cost'' cost_errors
           @ field_errors row ''note'' note_errors)"

text \<open>\<open>validateRow(row).ok\<close>\<close>

definition row_valid :: "jv \<Rightarrow> bool" where
  "row_valid row \<longleftrightarrow> validate_row row = []"

section \<open>Files\<close>

text \<open>A directory's files in the order \<open>readdirSync\<close> lists them; \<open>None\<close> where a read fails.\<close>

type_synonym ledger_files = "(string \<times> jv option list option) list"
type_synonym ledger_disk = "string \<Rightarrow> ledger_files option"

definition row_path :: "string \<Rightarrow> string \<Rightarrow> string" where
  "row_path dir date = dir @ ''/health-ledger/'' @ date @ ''.jsonl''"

fun append_line :: "ledger_files \<Rightarrow> string \<Rightarrow> jv option \<Rightarrow> ledger_files" where
  "append_line [] f l = [(f, Some [l])]"
| "append_line ((f', ls) # fs) f l =
     (if f' = f then (f', map_option (\<lambda>x. x @ [l]) ls) # fs else (f', ls) # append_line fs f l)"

definition append_row :: "jv \<Rightarrow> jv \<Rightarrow> jv \<Rightarrow> ledger_disk \<Rightarrow> string + string \<times> ledger_disk" where
  "append_row dir date row disk =
     (if \<not> filled_text dir then Inl ''appendRow: pipelineDir is required''
      else if \<not> filled_text date then Inl ''appendRow: date (YYYY-MM-DD) is required''
      else if \<not> date_text (str_of date)
      then Inl (''appendRow: date must be YYYY-MM-DD, got '' @ [CHR 0x22] @ str_of date @ [CHR 0x22])
      else if validate_row row \<noteq> [] then Inl (''appendRow: invalid row: '' @ join ''; '' (validate_row row))
      else let d = str_of dir; files = (case disk d of Some fs \<Rightarrow> fs | None \<Rightarrow> [])
           in Inr (row_path d (str_of date),
                   disk(d \<mapsto> append_line files (str_of date @ ''.jsonl'') (Some (json_image row)))))"

definition row_wanted :: "jv \<Rightarrow> jv \<Rightarrow> bool" where
  "row_wanted loop row \<longleftrightarrow> (is_object row \<or> is_array row) \<and> \<not> (truthy loop \<and> \<not> strict_eq (jget row ''loop_id'') loop)"

definition file_wanted :: "jv \<Rightarrow> jv \<Rightarrow> string \<Rightarrow> bool" where
  "file_wanted from to f \<longleftrightarrow>
     (let date = take (length f - 6) f
      in ends_with ''.jsonl'' f \<and> \<not> (truthy from \<and> jv_lt (JStr date) from) \<and> \<not> (truthy to \<and> jv_lt to (JStr date)))"

definition file_rows :: "jv \<Rightarrow> jv option list option \<Rightarrow> jv list" where
  "file_rows loop ls = (case ls of None \<Rightarrow> [] | Some xs \<Rightarrow> filter (row_wanted loop) (map the (filter (\<lambda>l. l \<noteq> None) xs)))"

definition read_rows :: "jv \<Rightarrow> jv \<Rightarrow> jv \<Rightarrow> jv \<Rightarrow> ledger_disk \<Rightarrow> string + jv list" where
  "read_rows dir from to loop disk =
     (if \<not> filled_text dir then Inl ''readRows: pipelineDir is required''
      else case disk (str_of dir) of
        None \<Rightarrow> Inr []
      | Some fs \<Rightarrow> Inr (concat (map (\<lambda>(f, ls). if file_wanted from to f then file_rows loop ls else []) fs)))"

section \<open>The validator and the schema\<close>

lemma need_Nil [simp]: "need ok msg = [] \<longleftrightarrow> ok"
  by (simp add: need_def)

lemma has_key_get: "json_value v \<Longrightarrow> has_key v k \<longleftrightarrow> jget v k \<noteq> JUndef"
proof (cases v)
  case (JObj kvs)
  moreover assume "json_value v"
  moreover have "map_of (rev kvs) k = Some x \<Longrightarrow> (k, x) \<in> set kvs" for x by (auto dest: map_of_SomeD)
  moreover have "map_of (rev kvs) k = None \<longleftrightarrow> k \<notin> fst ` set kvs" by (simp add: map_of_eq_None_iff)
  moreover have "map_of (rev kvs) k \<noteq> Some JUndef" using calculation(1,2,3) by (fastforce simp: list_all_iff)
  ultimately show ?thesis by (cases "map_of (rev kvs) k") simp_all
qed auto

text \<open>Three fields must not be empty, which the schema does not say.\<close>

definition items_filled :: "jv \<Rightarrow> bool" where
  "items_filled v \<longleftrightarrow>
     list_all (\<lambda>b. list_all (\<lambda>e. jget e ''item_id'' \<noteq> JStr [] \<and> jget e ''cause'' \<noteq> JStr []) (elems (jget v b))) [''released'', ''held'', ''filed'']"

definition row_filled :: "jv \<Rightarrow> bool" where
  "row_filled row \<longleftrightarrow> jget row ''loop_id'' \<noteq> JStr [] \<and> items_filled (jget row ''items'')"

lemma filled_text_alt: "filled_text v \<longleftrightarrow> is_string v \<and> v \<noteq> JStr []"
  by (cases v) (auto simp: filled_text_def)

lemma not_undef: "is_string v \<Longrightarrow> v \<noteq> JUndef" "is_object v \<Longrightarrow> v \<noteq> JUndef" "is_number v \<Longrightarrow> v \<noteq> JUndef" "is_array v \<Longrightarrow> v \<noteq> JUndef"
  by (cases v; simp)+

lemma bucket_items_ok: "list_all json_value es \<Longrightarrow> bucket_items_errors b i es = [] \<longleftrightarrow>
   list_all (conforms ledger_item) es \<and> list_all (\<lambda>e. jget e ''item_id'' \<noteq> JStr [] \<and> jget e ''cause'' \<noteq> JStr []) es"
proof (induction es arbitrary: i)
  case Nil
  then show ?case by simp
next
  case (Cons e es)
  then have "is_object e \<and> filled_text (jget e ''item_id'') \<and> filled_text (jget e ''cause'') \<longleftrightarrow>
     conforms ledger_item e \<and> jget e ''item_id'' \<noteq> JStr [] \<and> jget e ''cause'' \<noteq> JStr []"
    by (auto simp: ledger_item_def filled_text_alt has_key_get dest: not_undef)
  with Cons show ?case by (auto simp: item_errors_def Let_def)
qed

lemma bucket_ok: "json_value v \<Longrightarrow> bucket_errors v b = [] \<longleftrightarrow> has_key v b \<and> (jget v b = JUndef \<or> conforms (ArrVal ledger_item) (jget v b))
   \<and> list_all (\<lambda>e. jget e ''item_id'' \<noteq> JStr [] \<and> jget e ''cause'' \<noteq> JStr []) (elems (jget v b))"
  using json_value_get [of v b]
  by (cases "jget v b") (auto simp: bucket_errors_def has_key_get bucket_items_ok)

lemma sections_ok:
  assumes "json_value v"
  shows "trigger_errors v = [] \<longleftrightarrow>
      conforms (ObjVal [''kind'', ''detail''] [(''kind'', EnumVal TRIGGER_KINDS), (''detail'', StrVal)]) v"
    and "verdict_errors v = [] \<longleftrightarrow> conforms (ObjVal [''value'', ''inputs''] [(''value'', AnyVal), (''inputs'', ObjVal [] [])]) v"
    and "metric_errors v = [] \<longleftrightarrow>
      conforms (ObjVal [''name'', ''before'', ''after''] [(''name'', StrVal), (''before'', NumVal), (''after'', NumVal)]) v"
    and "cost_errors v = [] \<longleftrightarrow> conforms (ObjVal [''gpu_minutes'', ''peak_ram_mb'', ''model_calls'']
      [(''gpu_minutes'', NumVal), (''peak_ram_mb'', NumVal), (''model_calls'', NumVal)]) v"
    and "items_errors v = [] \<longleftrightarrow> conforms (ObjVal [''released'', ''held'', ''filed'']
      [(''released'', ArrVal ledger_item), (''held'', ArrVal ledger_item), (''filed'', ArrVal ledger_item)]) v \<and> items_filled v"
  using assms
  by (auto simp: trigger_errors_def verdict_errors_def metric_errors_def cost_errors_def items_errors_def has_key_get
      bucket_ok items_filled_def simp del: conforms.simps(6) dest: not_undef)

lemma field_ok: "field_errors row k check = [] \<longleftrightarrow> jget row k = JUndef \<or> check (jget row k) = []"
  by (simp add: field_errors_def)

lemma row_valid_schema:
  assumes "json_value row"
  shows "row_valid row \<longleftrightarrow> conforms HEALTH_LEDGER_ROW_SCHEMA row \<and> row_filled row"
proof -
  have sub: "jget row k \<noteq> JUndef \<Longrightarrow> json_value (jget row k)" for k by (rule json_value_get [OF assms])
  have "row_valid row \<longleftrightarrow> is_object row
     \<and> list_all (has_key row) [''ts'', ''loop_id'', ''trigger'', ''verdict'', ''items'', ''metric'', ''cost'']
     \<and> (jget row ''ts'' = JUndef \<or> ts_errors (jget row ''ts'') = [])
     \<and> (jget row ''loop_id'' = JUndef \<or> loop_id_errors (jget row ''loop_id'') = [])
     \<and> (jget row ''trigger'' = JUndef \<or> trigger_errors (jget row ''trigger'') = [])
     \<and> (jget row ''verdict'' = JUndef \<or> verdict_errors (jget row ''verdict'') = [])
     \<and> (jget row ''items'' = JUndef \<or> items_errors (jget row ''items'') = [])
     \<and> (jget row ''metric'' = JUndef \<or> metric_errors (jget row ''metric'') = [])
     \<and> (jget row ''cost'' = JUndef \<or> cost_errors (jget row ''cost'') = [])
     \<and> (jget row ''note'' = JUndef \<or> note_errors (jget row ''note'') = [])"
    by (simp add: row_valid_def validate_row_def missing_errors_def field_ok)
  also have "\<dots> \<longleftrightarrow> conforms HEALTH_LEDGER_ROW_SCHEMA row \<and> row_filled row"
    using sections_ok [OF sub]
    by (cases "jget row ''items'' = JUndef"; cases "jget row ''loop_id'' = JUndef";
        simp add: HEALTH_LEDGER_ROW_SCHEMA_def ts_errors_def loop_id_errors_def note_errors_def row_filled_def filled_text_alt
        items_filled_def del: conforms.simps(6,7) add: conforms.simps(7) [of _ _ row] cong: disj_cong;
        blast?)
  finally show ?thesis .
qed

section \<open>Appending\<close>

definition listed_rows :: "jv \<Rightarrow> jv \<Rightarrow> jv \<Rightarrow> ledger_files \<Rightarrow> jv list" where
  "listed_rows from to loop fs = concat (map (\<lambda>(f, ls). if file_wanted from to f then file_rows loop ls else []) fs)"

lemma listed_append:
  "map_of fs f \<noteq> Some None \<Longrightarrow> mset (listed_rows from to loop (append_line fs f (Some v))) =
   mset (listed_rows from to loop fs) + (if file_wanted from to f \<and> row_wanted loop v then {#v#} else {#})"
  by (induction fs f "Some v" rule: append_line.induct) (auto simp: listed_rows_def file_rows_def)

lemma append_line_set:
  "(f', Some xs) \<in> set (append_line fs f l) \<Longrightarrow> x \<in> set xs \<Longrightarrow> x = l \<or> (\<exists>ys. (f', Some ys) \<in> set fs \<and> x \<in> set ys)"
  by (induction fs f l rule: append_line.induct) (auto simp: map_option_case split: if_splits option.splits)

lemma read_rows_listed: "filled_text dir \<Longrightarrow>
   read_rows dir from to loop disk = Inr (listed_rows from to loop (case disk (str_of dir) of Some fs \<Rightarrow> fs | None \<Rightarrow> []))"
  by (simp add: read_rows_def listed_rows_def split: option.splits)

text \<open>The directory holds only rows that conform to the schema.\<close>

definition ledger_typed :: "ledger_disk \<Rightarrow> bool" where
  "ledger_typed disk \<longleftrightarrow> (\<forall>d fs f xs v. disk d = Some fs \<longrightarrow> (f, Some xs) \<in> set fs \<longrightarrow> Some v \<in> set xs \<longrightarrow>
     conforms HEALTH_LEDGER_ROW_SCHEMA v)"

section \<open>A row\<close>

definition demo_row :: jv where
  "demo_row = JObj [(''ts'', JStr ''2026-10-17T08:00:00.5Z''), (''loop_id'', JStr ''triage''),
     (''trigger'', JObj [(''kind'', JStr ''event''), (''detail'', JStr ''x'')]),
     (''verdict'', JObj [(''value'', JNull), (''inputs'', JObj [])]),
     (''items'', JObj [(''released'', JArr []), (''held'', JArr [JObj [(''item_id'', JStr ''t1''), (''cause'', JStr ''c'')]]), (''filed'', JArr [])]),
     (''metric'', JObj [(''name'', JStr ''m''), (''before'', JNum (Fin 1)), (''after'', JNum (Fin 2))]),
     (''cost'', JObj [(''gpu_minutes'', JNum (Fin 1)), (''peak_ram_mb'', JNum (Fin 0)), (''model_calls'', JNum (Fin 3))])]"

lemma demo_row_valid: "row_valid demo_row" "json_value demo_row"
  by (simp_all add: row_valid_def validate_row_def demo_row_def missing_errors_def field_errors_def ts_errors_def
    loop_id_errors_def trigger_errors_def verdict_errors_def items_errors_def metric_errors_def cost_errors_def note_errors_def
    bucket_errors_def item_errors_def filled_text_def iso_text_def starts_with_def is_digit_def TRIGGER_KINDS_def need_def)

section \<open>Properties\<close>







text \<open>A row that is valid but whose numbers are not finite is stored with \<open>null\<close> in their place, and one with an
  explicit \<open>undefined\<close> loses that field: what is read back is not a valid row.\<close>

lemma stored_row_invalid:
  "row_valid (obj_put demo_row ''metric'' (JObj [(''name'', JStr ''m''), (''before'', JNum NaN), (''after'', JNum (Fin 2))]))"
  "\<not> row_valid (json_image (obj_put demo_row ''metric'' (JObj [(''name'', JStr ''m''), (''before'', JNum NaN), (''after'', JNum (Fin 2))])))"
  "row_valid (obj_put demo_row ''cost'' JUndef)"
  "\<not> row_valid (json_image (obj_put demo_row ''cost'' JUndef))"
  by (simp_all add: row_valid_def validate_row_def demo_row_def missing_errors_def field_errors_def ts_errors_def
    loop_id_errors_def trigger_errors_def verdict_errors_def items_errors_def metric_errors_def cost_errors_def note_errors_def
    bucket_errors_def item_errors_def filled_text_def iso_text_def starts_with_def is_digit_def TRIGGER_KINDS_def need_def)

end
