(* ===== verification/TabStack.thy ===== *)
theory TabStack
  imports JsObject
begin

text \<open>
  \<open>python/dashboard/static/js/tab-stack.js\<close>: the registry of a plugin's tabs, an array of tab objects and the
  order of their ids. A registry may come from stored text of which only the two arrays are checked, so tabs and ids
  are arbitrary values and reading a field of a missing tab throws. The clock and the random suffix of a new id are
  arguments; widths are real numbers.
\<close>

definition MAX_OPEN :: nat where "MAX_OPEN = 6"
definition MAX_TABS :: nat where "MAX_TABS = 24"
definition DEFAULT_WIDTH :: real where "DEFAULT_WIDTH = 380"
definition DEFAULT_TAB_ID :: string where "DEFAULT_TAB_ID = ''main''"

record registry_tabs =
  rg_tabs :: "jv list"
  rg_order :: "jv list"

definition registry_key :: "string \<Rightarrow> string" where
  "registry_key plugin = ''agentManagerPluginTabs:'' @ plugin"

text \<open>The stored text is given by what \<open>JSON.parse\<close> makes of it, \<open>None\<close> when it throws or there is no text.\<close>

definition deserialize_registry :: "jv option \<Rightarrow> registry_tabs" where
  "deserialize_registry parsed =
     (case parsed of
        Some v \<Rightarrow> if truthy v \<and> is_array (jget v ''tabs'') \<and> is_array (jget v ''order'')
                  then \<lparr>rg_tabs = elems (jget v ''tabs''), rg_order = elems (jget v ''order'')\<rparr>
                  else \<lparr>rg_tabs = [], rg_order = []\<rparr>
      | None \<Rightarrow> \<lparr>rg_tabs = [], rg_order = []\<rparr>)"

definition new_tab_id :: "nat \<Rightarrow> string \<Rightarrow> string" where
  "new_tab_id now rnd = DEFAULT_TAB_ID @ ''-'' @ nat_str now @ ''-'' @ rnd"

definition open_count :: "jv list \<Rightarrow> nat" where
  "open_count tabs = length (filter (\<lambda>t. truthy (jget t ''open'')) tabs)"

definition create_tab :: "registry_tabs \<Rightarrow> jv \<Rightarrow> nat \<Rightarrow> string \<Rightarrow> registry_tabs outcome" where
  "create_tab r name now rnd =
     (if MAX_TABS \<le> length (rg_tabs r) then Returns r
      else if list_ex nullish (rg_tabs r) then Throws
      else if MAX_OPEN \<le> open_count (rg_tabs r) then Returns r
      else let i = JStr (new_tab_id now rnd);
               tab = JObj [(''id'', i), (''name'', name), (''open'', JBool True), (''width'', JNum (Fin DEFAULT_WIDTH)),
                           (''lastActivatedAt'', JNum (Fin (real now)))]
           in Returns (r\<lparr>rg_tabs := rg_tabs r @ [tab], rg_order := rg_order r @ [i]\<rparr>))"

text \<open>The loop that changes the first tab of an id.\<close>

fun update_first :: "jv \<Rightarrow> string \<Rightarrow> jv \<Rightarrow> jv list \<Rightarrow> jv list outcome" where
  "update_first i k v [] = Returns []"
| "update_first i k v (t # ts) =
     (if nullish t then Throws
      else if strict_eq (jget t ''id'') i then Returns (obj_put t k v # ts)
      else and_then (update_first i k v ts) (\<lambda>ts'. Returns (t # ts')))"

definition with_tabs :: "registry_tabs \<Rightarrow> jv list outcome \<Rightarrow> registry_tabs outcome" where
  "with_tabs r tabs = and_then tabs (\<lambda>ts. Returns (r\<lparr>rg_tabs := ts\<rparr>))"

definition rename_tab :: "registry_tabs \<Rightarrow> jv \<Rightarrow> jv \<Rightarrow> registry_tabs outcome" where
  "rename_tab r i name = with_tabs r (update_first i ''name'' name (rg_tabs r))"

definition delete_tab :: "registry_tabs \<Rightarrow> jv \<Rightarrow> registry_tabs outcome" where
  "delete_tab r i =
     (if list_ex nullish (rg_tabs r) then Throws
      else Returns (r\<lparr>rg_tabs := filter (\<lambda>t. \<not> strict_eq (jget t ''id'') i) (rg_tabs r),
                      rg_order := filter (\<lambda>j. \<not> strict_eq j i) (rg_order r)\<rparr>))"

text \<open>\<open>indexOf\<close> and the two \<open>splice\<close> calls.\<close>

fun index_of :: "jv list \<Rightarrow> jv \<Rightarrow> nat option" where
  "index_of [] i = None"
| "index_of (j # js) i = (if strict_eq j i then Some 0 else map_option Suc (index_of js i))"

definition move_to :: "jv list \<Rightarrow> nat \<Rightarrow> nat \<Rightarrow> jv \<Rightarrow> jv list" where
  "move_to xs idx target i = (let ys = take idx xs @ drop (Suc idx) xs in take target ys @ i # drop target ys)"

definition reorder :: "registry_tabs \<Rightarrow> jv \<Rightarrow> jv \<Rightarrow> registry_tabs" where
  "reorder r i direction =
     (case index_of (rg_order r) i of
        None \<Rightarrow> r
      | Some idx \<Rightarrow>
          if direction = JStr ''left''
          then (if idx = 0 then r else r\<lparr>rg_order := move_to (rg_order r) idx (idx - 1) i\<rparr>)
          else if length (rg_order r) \<le> idx + 1 then r
          else r\<lparr>rg_order := move_to (rg_order r) idx (idx + 1) i\<rparr>)"

definition set_open :: "registry_tabs \<Rightarrow> jv \<Rightarrow> jv \<Rightarrow> registry_tabs outcome" where
  "set_open r i v = with_tabs r (update_first i ''open'' (JBool (truthy v)) (rg_tabs r))"

definition mark_activated :: "registry_tabs \<Rightarrow> jv \<Rightarrow> nat \<Rightarrow> registry_tabs outcome" where
  "mark_activated r i now = with_tabs r (update_first i ''lastActivatedAt'' (JNum (Fin (real now))) (rg_tabs r))"

fun most_recent :: "jv list \<Rightarrow> jv \<Rightarrow> jv \<Rightarrow> jv outcome" where
  "most_recent [] best best_at = Returns best"
| "most_recent (t # ts) best best_at =
     (if nullish t then Throws
      else if jv_lt best_at (jget t ''lastActivatedAt'') then most_recent ts (jget t ''id'') (jget t ''lastActivatedAt'')
      else most_recent ts best best_at)"

definition most_recently_activated :: "registry_tabs \<Rightarrow> jv outcome" where
  "most_recently_activated r = most_recent (rg_tabs r) JNull (JNum (Fin (- 1)))"

definition aside_order :: "registry_tabs \<Rightarrow> jv list outcome" where
  "aside_order r =
     (if list_ex nullish (rg_tabs r) then Throws
      else let open_ids = map (\<lambda>t. jget t ''id'') (filter (\<lambda>t. truthy (jget t ''open'')) (rg_tabs r))
           in Returns (filter (has_value open_ids) (rg_order r)))"

definition pill_columns :: "real \<Rightarrow> int" where
  "pill_columns aside_width = max 1 \<lfloor>(aside_width + 8) / (120 + 8)\<rfloor>"

section \<open>Operations\<close>

datatype tab_op =
    Create jv nat string
  | Rename jv jv
  | Delete jv
  | Reorder jv jv
  | SetOpen jv jv
  | Activate jv nat

fun apply_op :: "tab_op \<Rightarrow> registry_tabs \<Rightarrow> registry_tabs outcome" where
  "apply_op (Create name now rnd) r = create_tab r name now rnd"
| "apply_op (Rename i name) r = rename_tab r i name"
| "apply_op (Delete i) r = delete_tab r i"
| "apply_op (Reorder i direction) r = Returns (reorder r i direction)"
| "apply_op (SetOpen i v) r = set_open r i v"
| "apply_op (Activate i now) r = mark_activated r i now"

section \<open>The registry's invariant\<close>

definition registry_ok :: "registry_tabs \<Rightarrow> bool" where
  "registry_ok r \<longleftrightarrow>
     list_all (\<lambda>t. keyed t \<and> is_string (id_of t)) (rg_tabs r) \<and> distinct (map id_of (rg_tabs r))
     \<and> mset (rg_order r) = mset (map id_of (rg_tabs r)) \<and> length (rg_tabs r) \<le> MAX_TABS"

text \<open>A new tab's id is not in use.\<close>

fun op_fresh :: "tab_op \<Rightarrow> registry_tabs \<Rightarrow> bool" where
  "op_fresh (Create name now rnd) r = (JStr (new_tab_id now rnd) \<notin> set (rg_order r))"
| "op_fresh _ r = True"

lemma object_not_nullish: "keyed t \<Longrightarrow> \<not> nullish t"
  by (cases t) (auto simp: nullish_def)

lemma no_nullish: "registry_ok r \<Longrightarrow> \<not> list_ex nullish (rg_tabs r)"
  by (auto simp: registry_ok_def list_all_iff list_ex_iff object_not_nullish)

lemma update_first_ok:
  assumes "k \<noteq> ''id''" and "list_all (\<lambda>t. keyed t \<and> is_string (id_of t)) tabs"
  shows "\<exists>tabs'. update_first i k v tabs = Returns tabs' \<and> map id_of tabs' = map id_of tabs
    \<and> list_all (\<lambda>t. keyed t \<and> is_string (id_of t)) tabs' \<and> (k \<noteq> ''open'' \<longrightarrow> open_count tabs' = open_count tabs)"
  using assms(2)
proof (induction tabs)
  case Nil
  then show ?case by simp
next
  case (Cons t ts)
  then have t: "keyed t" "is_string (id_of t)" by simp_all
  show ?case
  proof (cases "strict_eq (jget t ''id'') i")
    case True
    with t Cons.prems assms(1) show ?thesis by (auto simp: object_not_nullish id_put jget_put open_count_def)
  next
    case False
    with t Cons object_not_nullish [OF t(1)] show ?thesis by (fastforce simp: open_count_def)
  qed
qed

lemma index_of_Some: "index_of xs i = Some n \<Longrightarrow> n < length xs \<and> xs ! n = i"
  by (induction xs arbitrary: n) (auto split: if_splits dest: strict_eq_imp)

lemma mset_move_to: "n < length xs \<Longrightarrow> xs ! n = i \<Longrightarrow> mset (move_to xs n m i) = mset xs"
proof -
  assume n: "n < length xs" "xs ! n = i"
  have "mset (take m ys) + mset (drop m ys) = mset ys" for ys :: "jv list" by (metis append_take_drop_id mset_append)
  then have insert: "mset (take m ys @ i # drop m ys) = mset (i # ys)" for ys :: "jv list" by simp
  have "mset (move_to xs n m i) = mset (take n xs @ i # drop (Suc n) xs)"
    unfolding move_to_def Let_def insert by simp
  also have "\<dots> = mset xs" using n by (metis id_take_nth_drop)
  finally show ?thesis .
qed

lemma strings_strict: "is_string a \<Longrightarrow> strict_eq a b \<longleftrightarrow> a = b"
  by (cases a) auto

lemma mset_eq_filter: "mset xs = mset ys \<Longrightarrow> mset (filter P xs) = mset (filter P ys)"
  by (metis mset_filter)

lemma filter_map_id: "map id_of (filter (\<lambda>t. \<not> strict_eq (jget t ''id'') i) ts) = filter (\<lambda>j. \<not> strict_eq j i) (map id_of ts)"
  by (induction ts) (auto simp: id_of_def)

lemma create_ok:
  assumes "registry_ok r" and "JStr (new_tab_id now rnd) \<notin> set (rg_order r)"
  shows "\<exists>r'. create_tab r name now rnd = Returns r' \<and> registry_ok r' \<and> open_count (rg_tabs r') \<le> max MAX_OPEN (open_count (rg_tabs r))"
proof -
  note nn = no_nullish [OF assms(1)]
  have "JStr (new_tab_id now rnd) \<notin> id_of ` set (rg_tabs r)"
    using assms unfolding registry_ok_def by (metis set_map set_mset_mset)
  then show ?thesis
    using assms nn by (auto simp: create_tab_def Let_def registry_ok_def id_of_def open_count_def)
qed

lemma open_count_filter: "open_count (filter P ts) \<le> open_count ts"
  by (induction ts) (auto simp: open_count_def)

lemma delete_ok:
  assumes "registry_ok r"
  shows "\<exists>r'. delete_tab r i = Returns r' \<and> registry_ok r' \<and> open_count (rg_tabs r') \<le> open_count (rg_tabs r)"
proof -
  let ?P = "\<lambda>j. \<not> strict_eq j i" and ?Q = "\<lambda>t. \<not> strict_eq (jget t ''id'') i"
  let ?r = "r\<lparr>rg_tabs := filter ?Q (rg_tabs r), rg_order := filter ?P (rg_order r)\<rparr>"
  have ids: "map id_of (filter ?Q (rg_tabs r)) = filter ?P (map id_of (rg_tabs r))" by (rule filter_map_id)
  have "mset (filter ?P (rg_order r)) = mset (filter ?P (map id_of (rg_tabs r)))"
    using assms unfolding registry_ok_def by (blast intro: mset_eq_filter)
  moreover have "distinct (filter ?P (map id_of (rg_tabs r)))" using assms unfolding registry_ok_def by (blast intro: distinct_filter)
  moreover have "length (filter ?Q (rg_tabs r)) \<le> MAX_TABS"
    using assms length_filter_le [of ?Q "rg_tabs r"] unfolding registry_ok_def by linarith
  moreover have "list_all (\<lambda>t. keyed t \<and> is_string (id_of t)) (filter ?Q (rg_tabs r))"
    using assms unfolding registry_ok_def list_all_iff by simp
  moreover have sel: "rg_tabs ?r = filter ?Q (rg_tabs r)" "rg_order ?r = filter ?P (rg_order r)" by simp_all
  ultimately have "registry_ok ?r"
    unfolding registry_ok_def sel ids by blast
  moreover have "delete_tab r i = Returns ?r" using no_nullish [OF assms] by (simp add: delete_tab_def)
  ultimately show ?thesis using open_count_filter [of ?Q "rg_tabs r"] by simp
qed

lemma reorder_ok: "registry_ok r \<Longrightarrow> registry_ok (reorder r i d) \<and> rg_tabs (reorder r i d) = rg_tabs r"
  by (auto simp: reorder_def registry_ok_def mset_move_to dest: index_of_Some split: option.splits)

text \<open>C18: every operation on a registry returns and keeps the ids distinct, the order a permutation of them and the number
  of tabs within its bound; none but \<open>setOpen\<close> raises the number of open tabs above its bound.\<close>

theorem tab_registry_invariant:
  assumes "registry_ok r" and "op_fresh op r"
  shows "\<exists>r'. apply_op op r = Returns r' \<and> registry_ok r'
    \<and> ((\<forall>i v. op \<noteq> SetOpen i v) \<longrightarrow> open_count (rg_tabs r') \<le> max MAX_OPEN (open_count (rg_tabs r)))"
proof -
  have upd: "\<exists>r'. with_tabs r (update_first i k v (rg_tabs r)) = Returns r' \<and> registry_ok r'
      \<and> (k \<noteq> ''open'' \<longrightarrow> open_count (rg_tabs r') = open_count (rg_tabs r))" if "k \<noteq> ''id''" for i k v
  proof -
    note k = that
    obtain tabs' where t: "update_first i k v (rg_tabs r) = Returns tabs'" "map id_of tabs' = map id_of (rg_tabs r)"
      "list_all (\<lambda>t. keyed t \<and> is_string (id_of t)) tabs'" "k \<noteq> ''open'' \<longrightarrow> open_count tabs' = open_count (rg_tabs r)"
      using update_first_ok [OF k, of "rg_tabs r" i v] assms(1) unfolding registry_ok_def by blast
    have len: "length tabs' = length (rg_tabs r)" by (rule map_eq_imp_length_eq [OF t(2)])
    have "registry_ok (r\<lparr>rg_tabs := tabs'\<rparr>)" using assms(1) t(3) by (simp add: registry_ok_def t(2) len)
    with t show ?thesis by (simp add: with_tabs_def)
  qed
  show ?thesis
  proof (cases op)
    case (Create name now rnd)
    with create_ok [OF assms(1)] assms(2) show ?thesis by auto
  next
    case (Rename i name)
    with upd [of "''name''" i name] show ?thesis by (auto simp: rename_tab_def)
  next
    case (Delete i)
    with delete_ok [OF assms(1), of i] show ?thesis by auto
  next
    case (Reorder i d)
    with reorder_ok [OF assms(1), of i d] show ?thesis by auto
  next
    case (SetOpen i v)
    with upd [of "''open''" i] show ?thesis by (auto simp: set_open_def)
  next
    case (Activate i now)
    with upd [of "''lastActivatedAt''" i "JNum (Fin (real now))"] show ?thesis by (auto simp: mark_activated_def)
  qed
qed

lemma demo_new_id: "new_tab_id 5 ''x'' = ''main-5-x''"
  by code_simp

lemma tab_registry_invariant_witness:
  "\<exists>r'. apply_op (Create (JStr ''notes'') 5 ''x'') \<lparr>rg_tabs = [], rg_order = []\<rparr> = Returns r' \<and> registry_ok r'
     \<and> rg_order r' = [JStr ''main-5-x'']"
  using tab_registry_invariant [of "\<lparr>rg_tabs = [], rg_order = []\<rparr>" "Create (JStr ''notes'') 5 ''x''"]
  by (simp add: registry_ok_def create_tab_def open_count_def MAX_TABS_def MAX_OPEN_def demo_new_id Let_def)

lemma index_of_append: "i \<notin> set xs \<Longrightarrow> is_string i \<Longrightarrow> index_of (xs @ i # ys) i = Some (length xs)"
  by (induction xs) (auto simp: strings_strict dest: strict_eq_imp)

lemma move_to_left: "move_to (xs @ y # i # ys) (Suc (length xs)) (length xs) i = xs @ i # y # ys"
  by (simp add: move_to_def)

lemma move_to_right: "move_to (xs @ i # y # ys) (length xs) (Suc (length xs)) i = xs @ y # i # ys"
  by (simp add: move_to_def)

text \<open>Moving a tab to the left exchanges it with its left neighbour and leaves the rest of the order alone; moving it
  to the right again restores the registry.\<close>

theorem reorder_roundtrip:
  assumes "distinct (xs @ y # i # ys)" and "is_string i" and "rg_order r = xs @ y # i # ys"
  shows "reorder r i (JStr ''left'') = r\<lparr>rg_order := xs @ i # y # ys\<rparr>
    \<and> reorder (reorder r i (JStr ''left'')) i (JStr ''right'') = r"
proof -
  have "index_of (rg_order r) i = Some (Suc (length xs))"
    using index_of_append [of i "xs @ [y]" ys] assms by auto
  then have left: "reorder r i (JStr ''left'') = r\<lparr>rg_order := xs @ i # y # ys\<rparr>"
    by (simp add: reorder_def assms(3) move_to_left)
  have "index_of (xs @ i # y # ys) i = Some (length xs)" using index_of_append [of i xs "y # ys"] assms by simp
  then show ?thesis unfolding left by (simp add: reorder_def move_to_right assms(3) [symmetric])
qed

lemma reorder_roundtrip_witness:
  "reorder \<lparr>rg_tabs = [], rg_order = [JStr ''a'', JStr ''b'']\<rparr> (JStr ''b'') (JStr ''left'') = \<lparr>rg_tabs = [], rg_order = [JStr ''b'', JStr ''a'']\<rparr>"
  using reorder_roundtrip [of "[]" "JStr ''a''" "JStr ''b''" "[]" "\<lparr>rg_tabs = [], rg_order = [JStr ''a'', JStr ''b'']\<rparr>"] by simp

end
