(* ===== verification/CapabilityLedger.thy ===== *)
theory CapabilityLedger
  imports CapabilityRouting
begin

text \<open>
  \<open>src/capability-ledger.js\<close>: every draft attempt leaves an entry, and the scorecard that capability routing reads
  summarises the entries per source and model. Sources, models, lanes and outcomes are strings without the character
  0, as \<open>buildEntry\<close> writes them, the empty string standing for a missing one. The collation of \<open>localeCompare\<close>
  is the parameter \<open>collate\<close>; the history file is a list of entries, oldest first.
\<close>

section \<open>Entries\<close>

record ledger_entry =
  en_taskId :: string
  en_source :: string
  en_lane :: string
  en_model :: string
  en_tier :: "jnum option"
  en_numCtx :: "real option"
  en_outcome :: string
  en_attemptNo :: jv
  en_wallMs :: "real option"
  en_budgetBlock :: "bool option"
  en_tps :: "jnum option"
  en_evalTokens :: "jnum option"
  en_reason :: "string option"

record ledger_ctx =
  cx_taskId :: string
  cx_source :: string
  cx_throughput :: "(jnum \<times> jnum) option"

text \<open>A case-insensitive alternative of literal words.\<close>

definition mentions :: "string list \<Rightarrow> string \<Rightarrow> bool" where
  "mentions ws s = list_ex (\<lambda>w. contains (to_lower w) (to_lower s)) ws"

definition text_or_empty :: "jv \<Rightarrow> string" where
  "text_or_empty v = (if truthy v then to_str v else [])"

definition classify_outcome :: "jv \<Rightarrow> string" where
  "classify_outcome a =
     (let text = text_or_empty (jget a ''reason'') @ '' '' @ text_or_empty (jget a ''blockedReason'')
      in if mentions [''OLLAMA_TIMEOUT'', ''timed out'', ''ETIMEDOUT'', ''aborted due to timeout''] text then ''timeout''
         else if mentions [''degenerate'', ''truncated''] text then ''degenerate''
         else if jget a ''outcome'' = JStr ''succeeded'' then ''ok''
         else if jget a ''outcome'' = JStr ''blocked'' \<or> jget a ''outcome'' = JStr ''needs-clarification'' then ''rejected''
         else ''error'')"

definition entry_time :: "jv \<Rightarrow> string \<Rightarrow> jnum" where
  "entry_time a k = (if truthy (jget a k) then date_parse (jget a k) else NaN)"

definition wall_of :: "jnum \<Rightarrow> jnum \<Rightarrow> real option" where
  "wall_of s e = (case (s, e) of (Fin x, Fin y) \<Rightarrow> if x \<le> y then Some (y - x) else None | _ \<Rightarrow> None)"

text \<open>An attempt that is missing is \<open>null\<close>, of which every field is read as missing.\<close>

definition build_entry :: "env \<Rightarrow> jv \<Rightarrow> ledger_ctx \<Rightarrow> ledger_entry" where
  "build_entry e a ctx =
     (let model = env_str e ''LOCAL_MODEL'';
          why = (if truthy (jget a ''blockedReason'') then jget a ''blockedReason'' else jget a ''reason'')
      in \<lparr>en_taskId = cx_taskId ctx, en_source = (if cx_source ctx \<noteq> [] then cx_source ctx else str_of (jget a ''source'')),
          en_lane = env_str e ''AGENT_MANAGER_INSTANCE_ID'', en_model = model,
          en_tier = tier_from_model (Some model),
          en_numCtx = (case env_number e ''AGENT_MANAGER_LANE_NUM_CTX'' of Fin q \<Rightarrow> if 0 < q then Some q else None | _ \<Rightarrow> None),
          en_outcome = classify_outcome a,
          en_attemptNo = (if truthy (jget a ''attemptNo'') then jget a ''attemptNo'' else JNull),
          en_wallMs = wall_of (entry_time a ''at'') (entry_time a ''finishedAt''),
          en_budgetBlock = Some (to_lower (trim (env_str e ''AGENT_MANAGER_PROMPT_BUDGET_BLOCK'')) \<in> {''on'', ''1'', ''true''}),
          en_tps = map_option fst (cx_throughput ctx), en_evalTokens = map_option snd (cx_throughput ctx),
          en_reason = (if truthy why then Some (take 200 (to_str why)) else None)\<rparr>)"

section \<open>Statistics\<close>

definition Z95 :: real where "Z95 = 196 / 100"

definition wilson_lower :: "nat \<Rightarrow> nat \<Rightarrow> real" where
  "wilson_lower ok n =
     (if n = 0 then 0
      else let m = real n; p = real ok / m; z2 = Z95 * Z95
           in (p + z2 / (2 * m) - Z95 * sqrt ((p * (1 - p) + z2 / (4 * m)) / m)) / (1 + z2 / m))"

definition wall_percentile :: "real list \<Rightarrow> real \<Rightarrow> real option" where
  "wall_percentile xs q = (if xs = [] then None else Some (xs ! min (length xs - 1) (nat \<lfloor>q * real (length xs)\<rfloor>)))"

definition sort_numbers :: "real list \<Rightarrow> real list" where
  "sort_numbers xs = js_sort (\<lambda>a b. Fin (a - b)) xs"

section \<open>The scorecard\<close>

text \<open>The row that is filled while the entries are read.\<close>

record tally =
  ty_source :: string
  ty_model :: string
  ty_tier :: "jnum option"
  ty_lanes :: "string list"
  ty_n :: nat
  ty_ok :: nat
  ty_outcomes :: "(string \<times> nat) list"
  ty_walls :: "real list"
  ty_tpss :: "real list"
  ty_failStreak :: nat

definition new_tally :: "ledger_entry \<Rightarrow> tally" where
  "new_tally e =
     \<lparr>ty_source = en_source e, ty_model = en_model e,
      ty_tier = (case en_tier e of None \<Rightarrow> tier_from_model (Some (en_model e)) | Some t \<Rightarrow> Some t),
      ty_lanes = [], ty_n = 0, ty_ok = 0, ty_outcomes = [], ty_walls = [], ty_tpss = [], ty_failStreak = 0\<rparr>"

definition add_entry :: "ledger_entry \<Rightarrow> tally \<Rightarrow> tally" where
  "add_entry e r =
     (let good = (en_outcome e = ''ok'')
      in r\<lparr>ty_n := ty_n r + 1,
           ty_ok := (if good then ty_ok r + 1 else ty_ok r),
           ty_failStreak := (if good then 0 else ty_failStreak r + 1),
           ty_outcomes := kv_put (ty_outcomes r) (en_outcome e)
             ((case map_of (ty_outcomes r) (en_outcome e) of Some k \<Rightarrow> k | None \<Rightarrow> 0) + 1),
           ty_lanes := (if en_lane e \<noteq> [] \<and> en_lane e \<notin> set (ty_lanes r) then ty_lanes r @ [en_lane e] else ty_lanes r),
           ty_walls := (case en_wallMs e of Some w \<Rightarrow> ty_walls r @ [w] | None \<Rightarrow> ty_walls r),
           ty_tpss := (case en_tps e of Some (Fin q) \<Rightarrow> if 0 < q then ty_tpss r @ [q] else ty_tpss r | _ \<Rightarrow> ty_tpss r)\<rparr>)"

definition tally_of :: "ledger_entry \<Rightarrow> tally \<Rightarrow> bool" where
  "tally_of e r \<longleftrightarrow> ty_source r = en_source e \<and> ty_model r = en_model e"

text \<open>The map keeps its keys in the order they were first set.\<close>

fun into_rows :: "ledger_entry \<Rightarrow> tally list \<Rightarrow> tally list" where
  "into_rows e [] = [add_entry e (new_tally e)]"
| "into_rows e (r # rs) = (if tally_of e r then add_entry e r # rs else r # into_rows e rs)"

definition counted :: "ledger_entry \<Rightarrow> bool" where
  "counted e \<longleftrightarrow> en_source e \<noteq> [] \<and> en_model e \<noteq> []"

definition read_entry :: "tally list \<Rightarrow> ledger_entry \<Rightarrow> tally list" where
  "read_entry rs e = (if counted e then into_rows e rs else rs)"

record card_row = score_row +
  cr_lanes :: "string list"
  cr_ok :: nat
  cr_p50WallMs :: "real option"
  cr_p95WallMs :: "real option"
  cr_outcomes :: "(string \<times> nat) list"
  cr_tpsP50 :: "real option"

definition card_of :: "tally \<Rightarrow> card_row" where
  "card_of r =
     \<lparr>sr_source = ty_source r, sr_model = ty_model r, sr_tier = ty_tier r, sr_n = ty_n r,
      sr_okRate = (if ty_n r = 0 then 0 else real (ty_ok r) / real (ty_n r)), sr_lower = wilson_lower (ty_ok r) (ty_n r),
      sr_failStreak = ty_failStreak r, cr_lanes = js_sort str_cmp (ty_lanes r), cr_ok = ty_ok r,
      cr_p50WallMs = wall_percentile (sort_numbers (ty_walls r)) (1 / 2), cr_p95WallMs = wall_percentile (sort_numbers (ty_walls r)) (95 / 100),
      cr_outcomes = ty_outcomes r, cr_tpsP50 = wall_percentile (sort_numbers (ty_tpss r)) (1 / 2)\<rparr>"

definition compare_cards :: "(string \<Rightarrow> string \<Rightarrow> jnum) \<Rightarrow> card_row \<Rightarrow> card_row \<Rightarrow> jnum" where
  "compare_cards collate a b =
     (let t = (\<lambda>r. case sr_tier r of None \<Rightarrow> Fin 1000000000 | Some t \<Rightarrow> t)
      in num_or (num_or (collate (sr_source a) (sr_source b)) (jsub (t a) (t b))) (collate (sr_model a) (sr_model b)))"

definition build_scorecard :: "(string \<Rightarrow> string \<Rightarrow> jnum) \<Rightarrow> ledger_entry list \<Rightarrow> card_row list" where
  "build_scorecard collate es = js_sort (compare_cards collate) (map card_of (foldl read_entry [] es))"

definition annotate_variants :: "(string \<Rightarrow> string option) option \<Rightarrow> card_row list \<Rightarrow> (card_row \<times> string option) list" where
  "annotate_variants parent_of rows =
     map (\<lambda>r. (r, case parent_of of None \<Rightarrow> None | Some f \<Rightarrow> (case f (sr_source r) of Some s \<Rightarrow> if s = [] then None else Some s | None \<Rightarrow> None))) rows"

section \<open>The budget block\<close>

record block_side =
  bs_n :: nat
  bs_ok :: nat
  bs_timeout :: nat
  bs_walls :: "real list"

definition empty_side :: block_side where
  "empty_side = \<lparr>bs_n = 0, bs_ok = 0, bs_timeout = 0, bs_walls = []\<rparr>"

definition add_side :: "ledger_entry \<Rightarrow> block_side \<Rightarrow> block_side" where
  "add_side e s =
     s\<lparr>bs_n := bs_n s + 1, bs_ok := (if en_outcome e = ''ok'' then bs_ok s + 1 else bs_ok s),
       bs_timeout := (if en_outcome e = ''timeout'' then bs_timeout s + 1 else bs_timeout s),
       bs_walls := (case en_wallMs e of Some w \<Rightarrow> bs_walls s @ [w] | None \<Rightarrow> bs_walls s)\<rparr>"

text \<open>A lane's two sides: with the block on, and off.\<close>

definition add_block :: "(string \<times> block_side \<times> block_side) list \<Rightarrow> ledger_entry \<Rightarrow> (string \<times> block_side \<times> block_side) list" where
  "add_block lanes e =
     (case en_budgetBlock e of
        None \<Rightarrow> lanes
      | Some on \<Rightarrow>
          let lane = (if en_lane e = [] then ''-'' else en_lane e);
              (s1, s2) = (case map_of lanes lane of Some p \<Rightarrow> p | None \<Rightarrow> (empty_side, empty_side))
          in kv_put lanes lane (if on then (add_side e s1, s2) else (s1, add_side e s2)))"

record side_summary =
  ss_n :: nat
  ss_ok :: nat
  ss_timeout :: nat
  ss_okRate :: "real option"
  ss_timeoutRate :: "real option"
  ss_p50WallMs :: "real option"

definition fin_side :: "block_side \<Rightarrow> side_summary" where
  "fin_side s =
     (let rate = (\<lambda>k. if bs_n s = 0 then None else Some (real k / real (bs_n s)))
      in \<lparr>ss_n = bs_n s, ss_ok = bs_ok s, ss_timeout = bs_timeout s, ss_okRate = rate (bs_ok s),
          ss_timeoutRate = rate (bs_timeout s), ss_p50WallMs = wall_percentile (sort_numbers (bs_walls s)) (1 / 2)\<rparr>)"

definition budget_block_comparison ::
  "(string \<Rightarrow> string \<Rightarrow> jnum) \<Rightarrow> ledger_entry list \<Rightarrow> (string \<times> side_summary \<times> side_summary) list" where
  "budget_block_comparison collate es =
     js_sort (\<lambda>a b. collate (fst a) (fst b)) (map (\<lambda>(lane, s1, s2). (lane, fin_side s1, fin_side s2)) (foldl add_block [] es))"

section \<open>What the rows count\<close>

definition tally_key :: "tally \<Rightarrow> string \<times> string" where
  "tally_key r = (ty_source r, ty_model r)"

definition entry_key :: "ledger_entry \<Rightarrow> string \<times> string" where
  "entry_key e = (en_source e, en_model e)"

definition entries_of :: "ledger_entry list \<Rightarrow> string \<times> string \<Rightarrow> ledger_entry list" where
  "entries_of es k = filter (\<lambda>e. counted e \<and> entry_key e = k) es"

definition tally_ok :: "ledger_entry list \<Rightarrow> tally \<Rightarrow> bool" where
  "tally_ok es r \<longleftrightarrow>
     ty_n r = length (entries_of es (tally_key r))
     \<and> ty_ok r = length (filter (\<lambda>e. en_outcome e = ''ok'') (entries_of es (tally_key r)))
     \<and> ty_failStreak r = length (takeWhile (\<lambda>e. en_outcome e \<noteq> ''ok'') (rev (entries_of es (tally_key r))))"

definition rows_ok :: "ledger_entry list \<Rightarrow> tally list \<Rightarrow> bool" where
  "rows_ok es rs \<longleftrightarrow> distinct (map tally_key rs) \<and> tally_key ` set rs = entry_key ` {e \<in> set es. counted e}
     \<and> (\<forall>r\<in>set rs. tally_ok es r)"

lemma tally_of_key: "tally_of e r \<longleftrightarrow> tally_key r = entry_key e"
  by (simp add: tally_of_def tally_key_def entry_key_def)

lemma key_add [simp]: "tally_key (add_entry e r) = tally_key r" "tally_key (new_tally e) = entry_key e"
  by (simp_all add: tally_key_def add_entry_def Let_def new_tally_def entry_key_def)

lemma into_rows_new: "entry_key e \<notin> tally_key ` set rs \<Longrightarrow> into_rows e rs = rs @ [add_entry e (new_tally e)]"
  by (induction rs) (auto simp: tally_of_key)

lemma into_rows_old:
  "distinct (map tally_key rs) \<Longrightarrow> entry_key e \<in> tally_key ` set rs \<Longrightarrow>
   into_rows e rs = map (\<lambda>r. if tally_key r = entry_key e then add_entry e r else r) rs"
proof (induction rs)
  case Nil
  then show ?case by simp
next
  case (Cons r rs)
  show ?case
  proof (cases "tally_key r = entry_key e")
    case True
    with Cons.prems have "\<forall>x\<in>set rs. tally_key x \<noteq> entry_key e" by (metis distinct.simps(2) image_eqI list.simps(9) list.set_map)
    with True show ?thesis by (simp add: tally_of_key map_idI)
  next
    case False
    with Cons show ?thesis by (auto simp: tally_of_key)
  qed
qed

lemma tally_ok_other: "tally_key r \<noteq> entry_key e \<Longrightarrow> tally_ok es r \<Longrightarrow> tally_ok (es @ [e]) r"
  by (simp add: tally_ok_def entries_of_def)

lemma tally_ok_skip: "\<not> counted e \<Longrightarrow> tally_ok es r \<Longrightarrow> tally_ok (es @ [e]) r"
  by (simp add: tally_ok_def entries_of_def)

lemma tally_ok_add: "counted e \<Longrightarrow> tally_key r = entry_key e \<Longrightarrow> tally_ok es r \<Longrightarrow> tally_ok (es @ [e]) (add_entry e r)"
proof -
  assume a: "counted e" "tally_key r = entry_key e" "tally_ok es r"
  have "entries_of (es @ [e]) (entry_key e) = entries_of es (entry_key e) @ [e]" using a(1) by (simp add: entries_of_def)
  with a show ?thesis by (simp add: tally_ok_def) (simp add: add_entry_def Let_def)
qed

lemma tally_ok_new: "entry_key e \<notin> entry_key ` {x \<in> set es. counted x} \<Longrightarrow> tally_ok es (new_tally e)"
proof -
  assume "entry_key e \<notin> entry_key ` {x \<in> set es. counted x}"
  then have "entries_of es (entry_key e) = []"
    by (simp add: entries_of_def filter_empty_conv) (metis (mono_tags, lifting) image_eqI mem_Collect_eq)
  then show ?thesis by (simp add: tally_ok_def) (simp add: new_tally_def)
qed

lemma rows_ok_step: "rows_ok es rs \<Longrightarrow> rows_ok (es @ [e]) (read_entry rs e)"
proof -
  assume ok: "rows_ok es rs"
  show ?thesis
  proof (cases "counted e")
    case False
    then have "{x \<in> set (es @ [e]). counted x} = {x \<in> set es. counted x}" by auto
    with ok False show ?thesis unfolding rows_ok_def by (simp add: read_entry_def tally_ok_skip)
  next
    case True
    then have keys: "{x \<in> set (es @ [e]). counted x} = insert e {x \<in> set es. counted x}" by auto
    show ?thesis
    proof (cases "entry_key e \<in> tally_key ` set rs")
      case False
      have "tally_ok (es @ [e]) (add_entry e (new_tally e))"
        by (rule tally_ok_add [OF True]) (use ok False in \<open>simp_all add: rows_ok_def tally_ok_new\<close>)
      moreover have "tally_ok (es @ [e]) r" if "r \<in> set rs" for r
        using that ok False tally_ok_other image_eqI unfolding rows_ok_def by metis
      ultimately show ?thesis
        using ok False unfolding rows_ok_def keys read_entry_def into_rows_new [OF False] by (simp add: True insert_commute)
    next
      case old: True
      let ?f = "\<lambda>r. if tally_key r = entry_key e then add_entry e r else r"
      have dist: "distinct (map tally_key rs)" using ok unfolding rows_ok_def by blast
      have f: "into_rows e rs = map ?f rs" by (rule into_rows_old [OF dist old])
      have m: "map tally_key (map ?f rs) = map tally_key rs" by simp
      have im: "tally_key ` set (map ?f rs) = tally_key ` set rs" using arg_cong [OF m, of set] by (simp only: list.set_map)
      have each: "tally_ok (es @ [e]) (?f r)" if "r \<in> set rs" for r
        using that ok by (cases "tally_key r = entry_key e") (simp_all add: rows_ok_def tally_ok_add [OF True] tally_ok_other)
      have "entry_key ` insert e {x \<in> set es. counted x} = tally_key ` set rs"
        using ok old unfolding rows_ok_def by (metis image_insert insert_absorb)
      moreover note dist
      moreover have "\<forall>r\<in>set (map ?f rs). tally_ok (es @ [e]) r" using each by (simp only: list.set_map ball_simps) blast
      ultimately have "rows_ok (es @ [e]) (map ?f rs)" unfolding rows_ok_def keys m im by blast
      then show ?thesis by (simp add: read_entry_def True f)
    qed
  qed
qed

lemma rows_ok_all: "rows_ok es (foldl read_entry [] es)"
proof (induction es rule: rev_induct)
  case Nil
  then show ?case by (simp add: rows_ok_def)
next
  case (snoc e es)
  then show ?case by (simp add: rows_ok_step)
qed

lemma scorecard_rows: "mset (build_scorecard collate es) = mset (map card_of (foldl read_entry [] es))"
  by (simp add: build_scorecard_def)

section \<open>The Wilson bound\<close>

lemma wilson_bounds:
  assumes "ok \<le> n" and "0 < n"
  shows "0 \<le> wilson_lower ok n" and "wilson_lower ok n \<le> real ok / real n"
proof -
  define m where "m = real n"
  define p where "p = real ok / m"
  define d where "d = (p * (1 - p) + Z95 * Z95 / (4 * m)) / m"
  have m: "0 < m" and p: "0 \<le> p" "p \<le> 1" using assms by (simp_all add: m_def p_def)
  have z: "0 < Z95" by (simp add: Z95_def)
  have w: "wilson_lower ok n = (p + Z95 * Z95 / (2 * m) - Z95 * sqrt d) / (1 + Z95 * Z95 / m)"
    using assms by (simp add: wilson_lower_def Let_def m_def p_def d_def)
  have d: "0 \<le> d" using m p by (simp add: d_def)
  have "(p + Z95 * Z95 / (2 * m))\<^sup>2 - Z95 * Z95 * d = p * p + Z95 * Z95 * p * p / m"
    unfolding d_def using m by (simp add: field_simps power2_eq_square)
  moreover have "0 \<le> p * p + Z95 * Z95 * p * p / m" using m p by simp
  moreover have "(Z95 * sqrt d)\<^sup>2 = Z95 * Z95 * d" using d by (simp add: power_mult_distrib) (simp add: power2_eq_square)
  ultimately have "(Z95 * sqrt d)\<^sup>2 \<le> (p + Z95 * Z95 / (2 * m))\<^sup>2" by linarith
  then have "Z95 * sqrt d \<le> p + Z95 * Z95 / (2 * m)"
    by (rule power2_le_imp_le) (use m p z in simp)
  then show "0 \<le> wilson_lower ok n" unfolding w using m z by (intro divide_nonneg_pos) (simp_all add: add_pos_pos)
  have "d - (Z95 * (1 - 2 * p) / (2 * m))\<^sup>2 = p * (1 - p) / m + Z95 * Z95 * (p * (1 - p)) / (m * m)"
    unfolding d_def using m by (simp add: field_simps power2_eq_square)
  moreover have "0 \<le> p * (1 - p) / m + Z95 * Z95 * (p * (1 - p)) / (m * m)" using m p by simp
  ultimately have "Z95 * (1 - 2 * p) / (2 * m) \<le> sqrt d" by (intro real_le_rsqrt) linarith
  then have "Z95 * (Z95 * (1 - 2 * p) / (2 * m)) \<le> Z95 * sqrt d" using z by (intro mult_left_mono) simp_all
  moreover have "p + Z95 * Z95 / (2 * m) - Z95 * (Z95 * (1 - 2 * p) / (2 * m)) = p * (1 + Z95 * Z95 / m)"
    using m by (simp add: field_simps)
  ultimately have "p + Z95 * Z95 / (2 * m) - Z95 * sqrt d \<le> p * (1 + Z95 * Z95 / m)" by linarith
  moreover have "0 < 1 + Z95 * Z95 / m" using m z by (simp add: add_pos_pos)
  ultimately have "wilson_lower ok n \<le> p" unfolding w by (simp add: pos_divide_le_eq)
  then show "wilson_lower ok n \<le> real ok / real n" by (simp add: p_def m_def)
qed

lemma card_simps [simp]:
  "sr_source (card_of r) = ty_source r" "sr_model (card_of r) = ty_model r" "sr_n (card_of r) = ty_n r"
  "cr_ok (card_of r) = ty_ok r" "sr_failStreak (card_of r) = ty_failStreak r" "sr_lower (card_of r) = wilson_lower (ty_ok r) (ty_n r)"
  "sr_okRate (card_of r) = (if ty_n r = 0 then 0 else real (ty_ok r) / real (ty_n r))"
  by (simp_all add: card_of_def)

lemma scorecard_set: "set (build_scorecard collate es) = card_of ` set (foldl read_entry [] es)"
  by (simp add: build_scorecard_def)

lemma tally_counts: "r \<in> set (foldl read_entry [] es) \<Longrightarrow> tally_ok es r"
  using rows_ok_all [of es] by (simp add: rows_ok_def)

text \<open>The scorecard has exactly one row per source and model with an entry. It counts the entries, the successful
  ones and the failures since the last success, whatever the collation.\<close>

theorem scorecard_counts:
  "(\<lambda>r. (sr_source r, sr_model r)) ` set (build_scorecard collate es) = entry_key ` {e \<in> set es. counted e}
   \<and> distinct (map (\<lambda>r. (sr_source r, sr_model r)) (build_scorecard collate es))
   \<and> (\<forall>r\<in>set (build_scorecard collate es). let own = entries_of es (sr_source r, sr_model r) in
        sr_n r = length own \<and> cr_ok r = length (filter (\<lambda>e. en_outcome e = ''ok'') own)
        \<and> sr_failStreak r = length (takeWhile (\<lambda>e. en_outcome e \<noteq> ''ok'') (rev own)))"
proof (intro conjI)
  have key: "(\<lambda>r. (sr_source (card_of r), sr_model (card_of r))) = tally_key" by (simp add: tally_key_def fun_eq_iff)
  show "(\<lambda>r. (sr_source r, sr_model r)) ` set (build_scorecard collate es) = entry_key ` {e \<in> set es. counted e}"
    using rows_ok_all [of es] unfolding scorecard_set image_image key rows_ok_def by blast
  have "map (\<lambda>r. (sr_source r, sr_model r)) (map card_of rs) = map tally_key rs" for rs by (simp add: tally_key_def)
  then show "distinct (map (\<lambda>r. (sr_source r, sr_model r)) (build_scorecard collate es))"
    using rows_ok_all [of es] unfolding build_scorecard_def distinct_map_js_sort rows_ok_def by metis
  show "\<forall>r\<in>set (build_scorecard collate es). let own = entries_of es (sr_source r, sr_model r) in
      sr_n r = length own \<and> cr_ok r = length (filter (\<lambda>e. en_outcome e = ''ok'') own)
      \<and> sr_failStreak r = length (takeWhile (\<lambda>e. en_outcome e \<noteq> ''ok'') (rev own))"
    unfolding scorecard_set using tally_counts [of _ es] by (auto simp: tally_ok_def tally_key_def)
qed

definition demo_entry :: "string \<Rightarrow> ledger_entry" where
  "demo_entry out =
     \<lparr>en_taskId = ''t'', en_source = ''tests'', en_lane = ''worker-a'', en_model = ''m:9b'', en_tier = Some (Fin 9), en_numCtx = None,
      en_outcome = out, en_attemptNo = JNull, en_wallMs = Some 10, en_budgetBlock = None, en_tps = None, en_evalTokens = None,
      en_reason = None\<rparr>"

lemma scorecard_counts_witness:
  "\<exists>r. build_scorecard str_cmp [demo_entry ''ok'', demo_entry ''error''] = [r] \<and> sr_n r = 2 \<and> cr_ok r = 1 \<and> sr_failStreak r = 1"
proof -
  let ?es = "[demo_entry ''ok'', demo_entry ''error'']"
  define r where "r = card_of (add_entry (demo_entry ''error'') (add_entry (demo_entry ''ok'') (new_tally (demo_entry ''ok''))))"
  have r: "build_scorecard str_cmp ?es = [r]"
    by (simp add: r_def build_scorecard_def read_entry_def counted_def tally_of_key entry_key_def) (simp add: demo_entry_def)
  have k: "sr_source r = ''tests''" "sr_model r = ''m:9b''"
    by (simp_all add: r_def add_entry_def new_tally_def Let_def demo_entry_def)
  have o: "en_outcome (demo_entry out) = out" for out by (simp add: demo_entry_def)
  have "entries_of ?es (''tests'', ''m:9b'') = ?es"
    by (simp add: entries_of_def counted_def entry_key_def) (simp add: demo_entry_def)
  then have "sr_n r = 2 \<and> cr_ok r = 1 \<and> sr_failStreak r = 1"
    using scorecard_counts [of str_cmp ?es] unfolding r by (simp add: k Let_def o)
  with r show ?thesis by blast
qed

text \<open>In every row of a scorecard the lower bound of the success rate lies between zero and the rate, and the rate is
  at most one.\<close>

theorem scorecard_bounds:
  assumes "r \<in> set (build_scorecard collate es)"
  shows "0 \<le> sr_lower r \<and> sr_lower r \<le> sr_okRate r \<and> sr_okRate r \<le> 1"
proof -
  from assms obtain t where t: "t \<in> set (foldl read_entry [] es)" "r = card_of t" unfolding scorecard_set by blast
  then have "ty_ok t \<le> ty_n t" using tally_counts [OF t(1)] by (simp add: tally_ok_def)
  then show ?thesis
    using wilson_bounds [of "ty_ok t" "ty_n t"] t(2) by (cases "ty_n t = 0") (simp_all add: wilson_lower_def divide_le_eq_1)
qed

lemma scorecard_bounds_witness:
  "\<exists>r. r \<in> set (build_scorecard str_cmp [demo_entry ''ok'']) \<and> sr_okRate r = 1 \<and> 0 \<le> sr_lower r \<and> sr_lower r \<le> 1"
proof -
  let ?r = "card_of (add_entry (demo_entry ''ok'') (new_tally (demo_entry ''ok'')))"
  have "build_scorecard str_cmp [demo_entry ''ok''] = [?r]" by (simp add: build_scorecard_def read_entry_def counted_def demo_entry_def)
  moreover have "sr_okRate ?r = 1" by (simp add: add_entry_def new_tally_def demo_entry_def Let_def)
  ultimately show ?thesis using scorecard_bounds [of ?r str_cmp "[demo_entry ''ok'']"] by auto
qed

end
