(* ===== verification/WorkflowLoops.thy ===== *)
theory WorkflowLoops
  imports JsObject
begin

text \<open>
  \<open>python/dashboard/static/js/workflow-loops.js\<close>: the workflow graph split into one card per lane, with the sources
  the lane claims, its reviewer and the apply loop, and one card for the rest; and the scale at which a card is drawn.
  A graph is the JSON of \<open>buildWorkflowGraph\<close>, so its groups and warnings are copied as they are. Sizes are \<open>jnum\<close>s.
\<close>

definition WF_MIN_SCALE :: real where "WF_MIN_SCALE = 1 / 2"
definition WF_CARD_MIN_W :: real where "WF_CARD_MIN_W = 300"

section \<open>Cards\<close>

definition is_kind :: "string \<Rightarrow> jv \<Rightarrow> bool" where
  "is_kind k v \<longleftrightarrow> jget v ''kind'' = JStr k"

definition wf_is_lane_node :: "jv \<Rightarrow> string list \<Rightarrow> bool" where
  "wf_is_lane_node n review_targets \<longleftrightarrow>
     truthy n \<and> is_kind ''loop'' n \<and> is_string (id_of n) \<and> str_of (id_of n) \<notin> set review_targets
     \<and> \<not> starts_with ''reviewer'' (str_of (id_of n))"

record loop_card =
  lc_id :: string
  lc_label :: jv
  lc_nodes :: "jv list"
  lc_edges :: "jv list"
  lc_groups :: "jv list"
  lc_warnings :: "jv list"

text \<open>The first node of every id, in the order of the array.\<close>

fun first_by_id :: "jv list \<Rightarrow> string list \<Rightarrow> jv list" where
  "first_by_id [] seen = []"
| "first_by_id (n # ns) seen =
     (if str_of (id_of n) \<in> set seen then first_by_id ns seen else n # first_by_id ns (str_of (id_of n) # seen))"

definition card_nodes :: "jv \<Rightarrow> jv list" where
  "card_nodes graph = first_by_id (filter (\<lambda>n. truthy n \<and> is_string (id_of n)) (nodes_of graph)) []"

definition card_edges :: "jv \<Rightarrow> jv list" where
  "card_edges graph = filter (\<lambda>e. truthy e \<and> is_string (jget e ''from'') \<and> is_string (jget e ''to'')) (edges_of graph)"

definition edge_from :: "jv \<Rightarrow> string" where "edge_from e = str_of (jget e ''from'')"
definition edge_to :: "jv \<Rightarrow> string" where "edge_to e = str_of (jget e ''to'')"

definition node_ids :: "jv \<Rightarrow> string list" where
  "node_ids graph = map (\<lambda>n. str_of (id_of n)) (card_nodes graph)"

definition build_card :: "jv \<Rightarrow> string \<Rightarrow> jv \<Rightarrow> string list \<Rightarrow> loop_card" where
  "build_card graph i label members =
     \<lparr>lc_id = i, lc_label = label,
      lc_nodes = filter (\<lambda>n. str_of (id_of n) \<in> set members) (card_nodes graph),
      lc_edges = filter (\<lambda>e. edge_from e \<in> set members \<and> edge_to e \<in> set members) (card_edges graph),
      lc_groups = filter (\<lambda>g. truthy g \<and> is_array (jget g ''children'')
          \<and> list_ex (\<lambda>c. is_string c \<and> str_of c \<in> set members) (elems (jget g ''children'')))
        (elems (jget graph ''groups'')),
      lc_warnings = elems (jget graph ''warnings'')\<rparr>"

definition reviewer_of :: "jv \<Rightarrow> string \<Rightarrow> string option" where
  "reviewer_of graph lane =
     (case find (\<lambda>e. is_kind ''reviews'' e \<and> edge_from e = lane \<and> edge_to e \<in> set (node_ids graph)) (card_edges graph) of
        Some e \<Rightarrow> Some (edge_to e)
      | None \<Rightarrow> if ''reviewer'' \<in> set (node_ids graph) then Some ''reviewer'' else None)"

text \<open>An empty reviewer id is falsy and adds nothing.\<close>

definition lane_members :: "jv \<Rightarrow> string \<Rightarrow> string list" where
  "lane_members graph lane =
     lane # map edge_from (filter (\<lambda>e. is_kind ''claims'' e \<and> edge_to e = lane \<and> edge_from e \<in> set (node_ids graph)) (card_edges graph))
     @ (case reviewer_of graph lane of
          None \<Rightarrow> []
        | Some r \<Rightarrow> if r = [] then [] else
            r # map edge_to (filter (\<lambda>e. is_kind ''applies'' e \<and> edge_from e = r \<and> edge_to e = ''service:apply-loop''
                 \<and> edge_to e \<in> set (node_ids graph)) (card_edges graph)))"

definition lane_nodes :: "jv \<Rightarrow> jv list" where
  "lane_nodes graph =
     (let targets = map edge_to (filter (is_kind ''reviews'') (card_edges graph))
      in js_sort by_id (filter (\<lambda>n. wf_is_lane_node n targets) (card_nodes graph)))"

definition split_into_loops :: "jv \<Rightarrow> loop_card list" where
  "split_into_loops graph =
     (if \<not> truthy graph \<or> \<not> is_array (jget graph ''nodes'') then []
      else
        let members = (\<lambda>n. lane_members graph (str_of (id_of n)));
            cards = map (\<lambda>n. build_card graph (str_of (id_of n)) (if truthy (jget n ''label'') then jget n ''label'' else id_of n) (members n))
              (lane_nodes graph);
            on_a_lane = concat (map members (lane_nodes graph));
            rest = filter (\<lambda>i. i \<notin> set on_a_lane) (node_ids graph)
        in cards @ (if rest = [] then [] else [build_card graph ''services'' (JStr ''Services'') rest]))"

section \<open>Scale\<close>

definition positive :: "jnum \<Rightarrow> real option" where
  "positive n = (case n of Fin q \<Rightarrow> if 0 < q then Some q else None | _ \<Rightarrow> None)"

definition fit_scale :: "jnum \<Rightarrow> jnum \<Rightarrow> jnum \<Rightarrow> jnum \<Rightarrow> jnum \<Rightarrow> real" where
  "fit_scale contentW contentH viewW viewH minScale =
     (case (positive contentW, positive contentH, positive viewW, positive viewH) of
        (Some cw, Some ch, Some vw, Some vh) \<Rightarrow>
          let least = (case positive minScale of Some m \<Rightarrow> m | None \<Rightarrow> WF_MIN_SCALE)
          in min 1 (max (min 1 (min (vw / cw) (vh / ch))) least)
      | _ \<Rightarrow> 1)"

definition fit_scale_for_card :: "jnum \<Rightarrow> jnum \<Rightarrow> jnum \<Rightarrow> jnum \<Rightarrow> jnum \<Rightarrow> real" where
  "fit_scale_for_card contentW contentH viewW viewH minScale =
     (let least = (case positive minScale of Some m \<Rightarrow> m | None \<Rightarrow> WF_MIN_SCALE);
          whole = fit_scale contentW contentH viewW viewH (Fin least)
      in if least + 1 / 10 ^ 9 < whole then whole else fit_scale contentW contentH viewW contentH (Fin least))"

definition card_width_for :: "jnum \<Rightarrow> jnum \<Rightarrow> jnum \<Rightarrow> jnum \<Rightarrow> real" where
  "card_width_for canvasW rowW extra minW =
     (let least = (case positive minW of Some m \<Rightarrow> m | None \<Rightarrow> WF_CARD_MIN_W);
          want = max least ((case positive canvasW of Some c \<Rightarrow> of_int \<lceil>c\<rceil> | None \<Rightarrow> 0) + (case positive extra of Some x \<Rightarrow> x | None \<Rightarrow> 0))
      in case positive rowW of Some r \<Rightarrow> min want (of_int \<lfloor>r\<rfloor>) | None \<Rightarrow> want)"

section \<open>What the cards show\<close>

lemma first_by_id_ids:
  "distinct (map (\<lambda>n. str_of (id_of n)) (first_by_id ns seen)) \<and> set (map (\<lambda>n. str_of (id_of n)) (first_by_id ns seen)) \<inter> set seen = {}
   \<and> set (map (\<lambda>n. str_of (id_of n)) ns) \<subseteq> set (map (\<lambda>n. str_of (id_of n)) (first_by_id ns seen)) \<union> set seen"
  by (induction ns seen rule: first_by_id.induct) (auto split: if_splits)

lemma first_by_id_subset: "set (first_by_id ns seen) \<subseteq> set ns"
  by (induction ns seen rule: first_by_id.induct) auto

lemma node_ids_distinct: "distinct (node_ids graph)"
  unfolding node_ids_def card_nodes_def using first_by_id_ids by blast

lemma filter_ids: "map (\<lambda>n. str_of (id_of n)) (filter (\<lambda>n. str_of (id_of n) \<in> A) ns) = filter (\<lambda>v. v \<in> A) (map (\<lambda>n. str_of (id_of n)) ns)"
  by (induction ns) auto

definition card_ids :: "loop_card \<Rightarrow> string list" where
  "card_ids c = map (\<lambda>n. str_of (id_of n)) (lc_nodes c)"

lemma card_ids_build: "card_ids (build_card graph i l members) = filter (\<lambda>v. v \<in> set members) (node_ids graph)"
  by (simp add: card_ids_def build_card_def node_ids_def filter_ids)

lemma reviewer_is_node: "reviewer_of graph lane = Some r \<Longrightarrow> r \<in> set (node_ids graph)"
  by (auto simp: reviewer_of_def split: option.splits if_splits dest: find_Some_in)

lemma lane_members_nodes: "lane \<in> set (node_ids graph) \<Longrightarrow> set (lane_members graph lane) \<subseteq> set (node_ids graph)"
  using reviewer_is_node [of graph lane] by (auto simp: lane_members_def split: option.splits if_splits)

lemma lane_is_node: "n \<in> set (lane_nodes graph) \<Longrightarrow> str_of (id_of n) \<in> set (node_ids graph)"
  by (auto simp: lane_nodes_def node_ids_def)

text \<open>A card whose members are nodes shows exactly its members, and its edges join them.\<close>

lemma card_closed:
  assumes "set members \<subseteq> set (node_ids graph)"
  shows "set (card_ids (build_card graph i l members)) = set members"
    and "list_all (\<lambda>e. edge_from e \<in> set members \<and> edge_to e \<in> set members) (lc_edges (build_card graph i l members))"
proof -
  show "set (card_ids (build_card graph i l members)) = set members" using assms by (auto simp: card_ids_build)
  show "list_all (\<lambda>e. edge_from e \<in> set members \<and> edge_to e \<in> set members) (lc_edges (build_card graph i l members))"
    by (simp add: build_card_def list_all_iff)
qed

lemma card_good:
  assumes "set members \<subseteq> set (node_ids graph)" and "c = build_card graph i l members"
  shows "distinct (card_ids c) \<and> list_all (\<lambda>e. edge_from e \<in> set (card_ids c) \<and> edge_to e \<in> set (card_ids c)) (lc_edges c)"
  unfolding assms(2) card_closed(1) [OF assms(1)] using card_closed(2) [OF assms(1)] node_ids_distinct [of graph]
  by (simp add: card_ids_build)

lemma cover: "X = A \<Longrightarrow> Y = R \<Longrightarrow> R = N - A \<Longrightarrow> A \<subseteq> N \<Longrightarrow> X \<union> Y = N"
  by blast

lemma empty_graph: "\<not> truthy graph \<or> \<not> is_array (jget graph ''nodes'') \<Longrightarrow> node_ids graph = []"
proof -
  assume a: "\<not> truthy graph \<or> \<not> is_array (jget graph ''nodes'')"
  have "elems (jget graph ''nodes'') = []"
    using a by (cases graph; cases "jget graph ''nodes''") auto
  then show ?thesis by (simp add: node_ids_def card_nodes_def nodes_of_def)
qed

text \<open>The cards together show exactly the nodes of the graph, none of them twice on a card, and every edge of a card
  joins two nodes of that card.\<close>

theorem cards_cover_graph:
  "\<Union> (set (map (set \<circ> card_ids) (split_into_loops graph))) = set (node_ids graph)
   \<and> list_all (\<lambda>c. distinct (card_ids c)
        \<and> list_all (\<lambda>e. edge_from e \<in> set (card_ids c) \<and> edge_to e \<in> set (card_ids c)) (lc_edges c)) (split_into_loops graph)"
proof (cases "truthy graph \<and> is_array (jget graph ''nodes'')")
  case False
  then show ?thesis using empty_graph [of graph] by (auto simp: split_into_loops_def)
next
  case True
  let ?members = "\<lambda>n. lane_members graph (str_of (id_of n))"
  define rest where "rest = filter (\<lambda>i. i \<notin> set (concat (map ?members (lane_nodes graph)))) (node_ids graph)"
  define cards where "cards = map (\<lambda>n. build_card graph (str_of (id_of n)) (if truthy (jget n ''label'') then jget n ''label'' else id_of n) (?members n)) (lane_nodes graph)"
  define extra where "extra = (if rest = [] then [] else [build_card graph ''services'' (JStr ''Services'') rest])"
  have split: "split_into_loops graph = cards @ extra"
    using True by (simp add: split_into_loops_def Let_def cards_def extra_def rest_def)
  have lane: "set (?members n) \<subseteq> set (node_ids graph)" if "n \<in> set (lane_nodes graph)" for n
    using that by (intro lane_members_nodes lane_is_node)
  have rest: "set rest \<subseteq> set (node_ids graph)" by (auto simp: rest_def)
  have ids: "\<Union> (set (map (set \<circ> card_ids) cards)) = (\<Union>n\<in>set (lane_nodes graph). set (?members n))"
    using lane by (simp add: cards_def card_closed(1))
  have extra: "\<Union> (set (map (set \<circ> card_ids) extra)) = set rest" using rest by (simp add: extra_def card_closed(1))
  have others: "set rest = set (node_ids graph) - (\<Union>n\<in>set (lane_nodes graph). set (?members n))" by (auto simp: rest_def)
  have sub: "(\<Union>n\<in>set (lane_nodes graph). set (?members n)) \<subseteq> set (node_ids graph)" using lane by blast
  have "\<Union> (set (map (set \<circ> card_ids) (cards @ extra))) = set (node_ids graph)"
    unfolding map_append set_append Union_Un_distrib by (rule cover [OF ids extra others sub])
  moreover have "list_all (\<lambda>c. distinct (card_ids c)
      \<and> list_all (\<lambda>e. edge_from e \<in> set (card_ids c) \<and> edge_to e \<in> set (card_ids c)) (lc_edges c)) (cards @ extra)"
    unfolding list_all_iff [of _ "cards @ extra"]
  proof
    fix c assume "c \<in> set (cards @ extra)"
    then consider "c \<in> set cards" | "c \<in> set extra" by auto
    then obtain i l members where "set members \<subseteq> set (node_ids graph)" "c = build_card graph i l members"
    proof cases
      case 1
      then show ?thesis unfolding cards_def set_map using lane by (elim imageE) (rule that)
    next
      case 2
      then show ?thesis using rest that by (simp add: extra_def split: if_splits)
    qed
    then show "distinct (card_ids c) \<and> list_all (\<lambda>e. edge_from e \<in> set (card_ids c) \<and> edge_to e \<in> set (card_ids c)) (lc_edges c)"
      by (rule card_good)
  qed
  ultimately show ?thesis unfolding split by blast
qed

text \<open>A scale never enlarges and is never zero.\<close>

lemma fit_scale_bounds: "0 < fit_scale cw ch vw vh m \<and> fit_scale cw ch vw vh m \<le> 1"
  by (auto simp: fit_scale_def positive_def WF_MIN_SCALE_def Let_def split: option.splits jnum.splits if_splits)

end
