(* ===== verification/Spec2Isabelle.thy ===== *)
theory Spec2Isabelle
  imports QueueMachine RejectBounds ReconcileProperties CandidatesRoundtrip GroupBProperties FindCanonicalize Escalations ClaimListing QueueSnapshot WorkflowGroups BlockedTasks DraftAttempts PatchFailure CapabilityRouting SourceRegistry ClaimProperties TaskSelection GpuArbiter WorkflowSplit WorkflowGraph LayoutProperties HealthLedger TabStack CapabilityLedger WorkflowLoops
begin

text \<open>
  A verification development for \<open>agent-manager\<close>, a pipeline in which language models draft, review and apply changes to
  repositories. A task is a JSON file that moves between the directories of a queue; sources generate tasks, workers (one per
  lane, that is per model and machine) claim, draft, review and apply them, and sweeps that a watchdog starts every few
  seconds move along what got stuck. The development models the part of the program that decides: which task is generated,
  who may claim what and in which order, who may use the GPU, what becomes of a task that is blocked, and the workflow file
  that an operator edits together with its picture on the dashboard.

  How the parts interact. A source registered in \<open>task-source-registry.js\<close> generates a task when \<open>task-selection.js\<close> picks
  it. A worker reads \<open>pending\<close> through \<open>queue-cache.js\<close> and claims what \<open>next-claimable-task.js\<close> offers it first, under a
  lock of \<open>single-flight-lock.js\<close> and a ticket of \<open>gpu-arbiter.js\<close>. Each draft leaves a record (\<open>draft-attempt-record.js\<close>)
  and a ledger entry (\<open>capability-ledger.js\<close>) that later claims read through \<open>capability-routing.js\<close>. A block is classified
  (\<open>blocked-task-classifiers.js\<close>) and retried, readmitted or escalated by \<open>reject-retry-check.js\<close> and \<open>apply-retry-check.js\<close>;
  the forensics look for patterns among the blocks, and a fix that lands drains the tasks it was for.

  Values. \<open>Prelude\<close> has the JavaScript values (\<open>jv\<close>), numbers with NaN and the infinities over the reals (\<open>jnum\<close>), truthiness,
  equality, conversion, and the two outcomes \<open>Returns\<close> and \<open>Throws\<close> of a call. \<open>JsText\<close>, \<open>JsObject\<close>, \<open>JsDate\<close>, \<open>JsRegex\<close> and
  \<open>JsSort\<close> add what the source uses of the standard library: strings as lists of characters, objects as lists of fields in
  order of insertion, regular expressions as a backtracking matcher, sorting with a comparator. A double is a real: rounding
  is not modelled, and every number the properties speak of is a small integer. \<open>Steps\<close> has interleaved systems.

  Claiming.
  \<open>HubPriority\<close> (\<open>hub-priority.js\<close>), \<open>WorkflowOrder\<close> (\<open>workflow-priority.js\<close>, \<open>workflow-claim-order.js\<close>), \<open>PremiumRotation\<close>
  (\<open>premium-rotation.js\<close>), \<open>Lanes\<close> (\<open>lanes.js\<close>), \<open>LaneHealth\<close> (\<open>lane-health.js\<close>) and \<open>CapabilityRouting\<close>
  (\<open>capability-routing.js\<close>) give a task its rank and a lane its standing. \<open>ClaimOrder\<close> and \<open>ClaimListing\<close> are
  \<open>next-claimable-task.js\<close>, \<open>QueueCache\<close> and \<open>QueueSnapshot\<close> \<open>queue-cache.js\<close>. \<open>ClaimProperties\<close> shows that pinned tasks come
  first, premium ones next, and the hub's order decides within a band, that a task is offered once and only to a lane that may
  have it, that shadow routing changes nothing and that a cached listing equals a fresh one.

  Generating. \<open>SourceRegistry\<close> (\<open>task-source-registry.js\<close>, \<open>lib/source-scope.js\<close>) and \<open>TaskSelection\<close> (\<open>lib/task-selection.js\<close>):
  the walk takes the first source in priority order that has a task.

  Concurrency. \<open>SingleFlightLock\<close> (\<open>single-flight-lock.js\<close>) is a step relation over processes, descriptors and lock files:
  mutual exclusion and first come, first served in every reachable state, and the bound on a wait. \<open>GpuArbiter\<close> (\<open>gpu-arbiter.js\<close>):
  who is admitted, who is cancelled, and that somebody is admitted whenever a ticket waits.

  Tasks that got stuck. \<open>QueueFiles\<close> is the queue's directory and \<open>task-history.js\<close>. \<open>BlockedTasks\<close>, \<open>DraftAttempts\<close>,
  \<open>PatchFailure\<close>, \<open>Forensics\<close>, \<open>TaskRecords\<close> (\<open>task-anywhere.js\<close>, \<open>manual-close.js\<close>), \<open>QueueSweeps\<close> (\<open>expiry-sweep.js\<close>,
  \<open>reclaim-orphaned-drafts.js\<close>, \<open>done-archive.js\<close>), \<open>ApplyRetry\<close> (\<open>apply-retry-check.js\<close>), \<open>QueueRequeues\<close> (\<open>blocked-drain.js\<close>,
  \<open>done-unmerged-requeue.js\<close>), \<open>RejectChecks\<close> and \<open>RejectRetry\<close> (\<open>reject-retry-check.js\<close> and its library). \<open>QueueMachine\<close> runs
  all the sweeps in any order: no task is lost and none is in two places. \<open>RejectBounds\<close> and \<open>ApplyRetry\<close> bound how often a
  task is retried; \<open>Escalations\<close> joins the apply retry with the forensics.

  Applied tasks. \<open>Dispositions\<close> (\<open>task-disposition.js\<close>, \<open>apply-outcome-classifiers.js\<close>, \<open>branch-removal-ledger.js\<close>) judges what
  became of a task's change; \<open>Reconcile\<close> and \<open>ReconcileProperties\<close> (\<open>task-log-reconcile.js\<close>, \<open>abandoned-recheck.js\<close>,
  \<open>shared-branch-restore.js\<close>) close the records, once each, and call a change lost only when no trace of it is left.

  Changes. A response's JSON is found by \<open>JsonFence\<close> (\<open>json-fence.js\<close>): a serialised value is found again between prose or in a
  fence. \<open>FindCanonicalize\<close> (\<open>lib/find-canonicalize.js\<close>, on UTF-16 units as 16-bit words) replaces a find that differs from the
  file by typography with the file's own text, which occurs once. \<open>FileTree\<close> has paths and the tree of files; \<open>GroupB\<close> and
  \<open>GroupBProperties\<close> (\<open>apply-group-b.js\<close>, \<open>atomic-write.js\<close>) apply a batch of changes: all or nothing as long as undoing works,
  never outside the repository, an edit at the one place it names. \<open>CandidatesMerge\<close> and \<open>CandidatesRoundtrip\<close>
  (\<open>candidates-doc-merge.js\<close>) merge a document of candidates three ways and read the result back.

  The workflow file and its picture. \<open>WorkflowConfig\<close> (\<open>workflow-config.js\<close>), \<open>WorkflowOverlay\<close>, \<open>WorkflowSplit\<close> and
  \<open>WorkflowGraph\<close> (\<open>workflow-overlay.js\<close>, \<open>workflow-split.js\<close>, \<open>workflow-graph.js\<close>) on the server; \<open>WorkflowLayout\<close> with
  \<open>LayoutCycles\<close>, \<open>LayoutLayers\<close> and \<open>LayoutProperties\<close> (\<open>workflow-layout.js\<close>), \<open>WorkflowGroups\<close>, \<open>WorkflowLoops\<close> and \<open>TabStack\<close>
  in the browser: validation keeps exactly what is sound, graphs have no dangling edge, boxes do not overlap. The ledgers are
  \<open>HealthLedger\<close> (\<open>health-ledger-schema.js\<close>), refined to the schema it declares, and \<open>CapabilityLedger\<close>.

  Interfaces. \<open>comparator\<close> (\<open>JsSort\<close>) is what \<open>sort\<close> needs of a comparator to give a sorted permutation; every comparator of
  the code interprets it. \<open>task_mover\<close> (\<open>QueueFiles\<close>) is the sweeps' contract, interpreted in \<open>QueueMachine\<close>. \<open>step_invariant\<close>
  and \<open>mutex\<close> (\<open>Steps\<close>) are interpreted on the lock, \<open>keyed_table\<close> on the registry and \<open>ordering_hook\<close> on the default order of
  the hub. \<open>jnum\<close> is a linear order.

  Bounds. Loops over data are structural recursion or have a measure. The cycle check of the workflow file and the layout's
  search recurse on the nodes and edges not visited yet; only the worklist of the layering has fuel, one step per node and edge
  and one more, and \<open>LayoutLayers\<close> shows that every node has its layer before it runs out. The lock's wait is bounded by its deadline, given a clock that
  advances. The retry bounds are potentials over the fields of a task that the sweeps write.

  Parameters. The environment, the clock and its text, files outside of the queue, git, HTTP and every model's answer are
  arguments. A sweep's file operations succeed and are atomic; a crash between writing a file and removing its source is not
  modelled, nor is the lock around a single move.

  Not modelled. The workers \<open>local-draft.js\<close>, \<open>review-task.js\<close> and \<open>apply-task.js\<close>, the task sources, the prompts and the model
  clients are sequences of calls of models, git and HTTP whose outcome the code does not determine; what they leave behind (a
  blocked task, an attempt, a ledger entry) is modelled where it is read. The dashboard's Python and the rest of its JavaScript
  build markup and fetch. The scripts, the installers and the vendored \<open>tokenfold\<close> are outside of the pipeline's decisions.
\<close>

end
